(* ===== verification/Prelude.thy ===== *)
theory Prelude
  imports Complex_Main "HOL-Library.AList" "HOL-Library.Char_ord" "HOL-Library.List_Lexorder"
    "HOL-Library.Product_Lexorder"
begin

text \<open>
  Shared vocabulary of the development: the Python values the components use and the generic
  lemmas their proofs share.

  \<^item> A Python \<open>dict\<close> keeps insertion order and overwrites in place; it is an association list,
    written with \<^const>\<open>AList.update\<close>, deleted from with \<^const>\<open>AList.delete\<close> and read with
    \<^const>\<open>map_of\<close>.
  \<^item> A Python \<open>float\<close> is an exact rational (\<open>pyfloat\<close>): rounding of IEEE doubles, infinities and
    NaN are not modelled; where the source uses \<open>float("inf")\<close> the model says so explicitly.
  \<^item> A \<open>datetime\<close> is a whole number of microseconds (\<open>dtime\<close>), the resolution Python has; a
    \<open>timedelta\<close> is a difference of two of them.
  \<^item> An exception is a value of \<open>py_error\<close>, in the left summand of a result.
\<close>

named_theorems dict_simps
  \<open>reading a dictionary after it was written\<close>

named_theorems inv_intros
  \<open>an operation of a component keeps the component's invariant\<close>

type_synonym pyfloat = rat
type_synonym dtime = int
type_synonym ('k, 'v) pydict = "('k \<times> 'v) list"

datatype py_error =
    KeyError | ValueError | TypeError | IndexError | ZeroDivisionError | RuntimeError
  | OtherError string

type_synonym 'a result = "py_error + 'a"

text \<open>A dynamically typed value, where the code builds or inspects nested dictionaries.\<close>

datatype pyval =
    PNone | PBool bool | PInt int | PFloat pyfloat | PStr string | PTime dtime
  | PList "pyval list" | PDict "(string \<times> pyval) list"

text \<open>Python's truth value, and \<open>isinstance(v, int)\<close>: a \<open>bool\<close> is an \<open>int\<close>.\<close>

fun truthy :: "pyval \<Rightarrow> bool" where
  "truthy PNone = False"
| "truthy (PBool b) = b"
| "truthy (PInt i) = (i \<noteq> 0)"
| "truthy (PFloat x) = (x \<noteq> 0)"
| "truthy (PStr s) = (s \<noteq> [])"
| "truthy (PTime t) = True"
| "truthy (PList xs) = (xs \<noteq> [])"
| "truthy (PDict d) = (d \<noteq> [])"

fun as_int :: "pyval \<Rightarrow> int option" where
  "as_int (PInt i) = Some i"
| "as_int (PBool b) = Some (if b then 1 else 0)"
| "as_int _ = None"

fun as_dict :: "pyval \<Rightarrow> (string \<times> pyval) list option" where
  "as_dict (PDict d) = Some d"
| "as_dict _ = None"

fun as_list :: "pyval \<Rightarrow> pyval list option" where
  "as_list (PList xs) = Some xs"
| "as_list _ = None"

definition popt :: "('a \<Rightarrow> pyval) \<Rightarrow> 'a option \<Rightarrow> pyval" where
  "popt f x = (case x of None \<Rightarrow> PNone | Some y \<Rightarrow> f y)"

text \<open>
  The number a value is in a comparison, what \<open>for\<close> iterates over, and \<open>==\<close>: numbers are compared by value
  whatever their type, dictionaries without their order.
\<close>

fun num :: "pyval \<Rightarrow> pyfloat option" where
  "num (PInt i) = Some (of_int i)"
| "num (PFloat x) = Some x"
| "num (PBool b) = Some (if b then 1 else 0)"
| "num _ = None"

fun iterate :: "pyval \<Rightarrow> pyval list result" where
  "iterate (PList xs) = Inr xs"
| "iterate (PDict d) = Inr (map (PStr \<circ> fst) d)"
| "iterate (PStr s) = Inr (map (\<lambda>c. PStr [c]) s)"
| "iterate _ = Inl TypeError"

primrec norm_val :: "pyval \<Rightarrow> pyval" where
  "norm_val PNone = PNone"
| "norm_val (PBool b) = PFloat (if b then 1 else 0)"
| "norm_val (PInt i) = PFloat (of_int i)"
| "norm_val (PFloat x) = PFloat x"
| "norm_val (PStr s) = PStr s"
| "norm_val (PTime t) = PTime t"
| "norm_val (PList xs) = PList (map norm_val xs)"
| "norm_val (PDict d) = PDict (sort_key fst (map (map_prod id norm_val) d))"

definition py_eq :: "pyval \<Rightarrow> pyval \<Rightarrow> bool" where
  "py_eq a b \<longleftrightarrow> norm_val a = norm_val b"

text \<open>Sequencing of what may raise.\<close>

definition rbind :: "'a result \<Rightarrow> ('a \<Rightarrow> 'b result) \<Rightarrow> 'b result" where
  "rbind r f = (case r of Inl e \<Rightarrow> Inl e | Inr x \<Rightarrow> f x)"

fun traverse :: "('a \<Rightarrow> 'b result) \<Rightarrow> 'a list \<Rightarrow> 'b list result" where
  "traverse f [] = Inr []"
| "traverse f (x # xs) = rbind (f x) (\<lambda>y. rbind (traverse f xs) (\<lambda>ys. Inr (y # ys)))"

section \<open>Dictionaries\<close>

definition keys :: "('k, 'v) pydict \<Rightarrow> 'k set" where
  "keys d = fst ` set d"

definition dict_ok :: "('k, 'v) pydict \<Rightarrow> bool" where
  "dict_ok d \<longleftrightarrow> distinct (map fst d)"

text \<open>\<open>d.get(k)\<close> and \<open>d.get(k, v)\<close> of a dictionary of dynamically typed values.\<close>

definition pget :: "(string, pyval) pydict \<Rightarrow> string \<Rightarrow> pyval" where
  "pget d k = (case map_of d k of None \<Rightarrow> PNone | Some v \<Rightarrow> v)"

definition get_or :: "(string, pyval) pydict \<Rightarrow> string \<Rightarrow> pyval \<Rightarrow> pyval" where
  "get_or d k v = (case map_of d k of None \<Rightarrow> v | Some x \<Rightarrow> x)"

section \<open>Time\<close>

definition usec_per_sec :: int where
  "usec_per_sec = 1000000"

definition usec_per_min :: int where
  "usec_per_min = 60 * usec_per_sec"

definition usec_per_hour :: int where
  "usec_per_hour = 60 * usec_per_min"

definition usec_per_day :: int where
  "usec_per_day = 24 * usec_per_hour"

definition total_seconds :: "int \<Rightarrow> pyfloat" where
  "total_seconds d = of_int d / of_int usec_per_sec"

definition hour_of_day :: "dtime \<Rightarrow> int" where
  "hour_of_day t = (t div usec_per_hour) mod 24"

section \<open>Numbers and their text\<close>

text \<open>Python's \<open>round\<close> of a number to an integer: ties go to the even neighbour.\<close>

definition round_half_even :: "pyfloat \<Rightarrow> int" where
  "round_half_even x =
     (let f = \<lfloor>x\<rfloor>; d = x - of_int f
      in if d < 1 / 2 then f else if d > 1 / 2 then f + 1 else if even f then f else f + 1)"

text \<open>\<open>int\<close> of a number truncates towards zero.\<close>

definition trunc :: "pyfloat \<Rightarrow> int" where
  "trunc x = (if x < 0 then \<lceil>x\<rceil> else \<lfloor>x\<rfloor>)"

fun nat_str :: "nat \<Rightarrow> string" where
  "nat_str n = (if n < 10 then [char_of (48 + n)] else nat_str (n div 10) @ [char_of (48 + n mod 10)])"

declare nat_str.simps [simp del]

definition int_str :: "int \<Rightarrow> string" where
  "int_str i = (if i < 0 then CHR ''-'' # nat_str (nat (- i)) else nat_str (nat i))"

text \<open>\<open>s.split(":", 1)\<close> when it yields two parts.\<close>

definition split_colon :: "string \<Rightarrow> (string \<times> string) option" where
  "split_colon s =
     (case dropWhile (\<lambda>c. c \<noteq> CHR '':'') s of
        [] \<Rightarrow> None
      | _ # rest \<Rightarrow> Some (takeWhile (\<lambda>c. c \<noteq> CHR '':'') s, rest))"

definition starts_with :: "string \<Rightarrow> string \<Rightarrow> bool" where
  "starts_with p s \<longleftrightarrow> take (length p) s = p"

text \<open>\<open>str.isspace\<close> and \<open>str.isdigit\<close> of one character. A string is over the 256 characters of Latin-1,
  three of which (superscripts) are digits that \<open>int\<close> refuses.\<close>

definition is_space :: "char \<Rightarrow> bool" where
  "is_space c \<longleftrightarrow> (of_char c :: nat) \<in> {9, 10, 11, 12, 13, 28, 29, 30, 31, 32, 133, 160}"

definition is_decimal :: "char \<Rightarrow> bool" where
  "is_decimal c \<longleftrightarrow> (of_char c :: nat) \<in> {48..57}"

definition is_digit :: "char \<Rightarrow> bool" where
  "is_digit c \<longleftrightarrow> is_decimal c \<or> (of_char c :: nat) \<in> {178, 179, 185}"

text \<open>\<open>str.lower\<close> of one character, and \<open>str.strip\<close>.\<close>

definition lower_char :: "char \<Rightarrow> char" where
  "lower_char c =
     (let n = (of_char c :: nat)
      in if n \<in> {65..90} \<or> n \<in> {192..222} - {215} then char_of (n + 32) else c)"

definition strip :: "string \<Rightarrow> string" where
  "strip s = rev (dropWhile is_space (rev (dropWhile is_space s)))"

section \<open>Tables\<close>

text \<open>An \<open>UPDATE ... WHERE ... RETURNING\<close> and the first of the returned rows.\<close>

definition update_where :: "('a \<Rightarrow> bool) \<Rightarrow> ('a \<Rightarrow> 'a) \<Rightarrow> 'a list \<Rightarrow> 'a list" where
  "update_where p f rows = map (\<lambda>r. if p r then f r else r) rows"

definition updated_row :: "('a \<Rightarrow> bool) \<Rightarrow> ('a \<Rightarrow> 'a) \<Rightarrow> 'a list \<Rightarrow> 'a option" where
  "updated_row p f rows = map_option f (List.find p rows)"

definition coalesce :: "'a option \<Rightarrow> 'a option \<Rightarrow> 'a option" where
  "coalesce a b = (case a of None \<Rightarrow> b | Some x \<Rightarrow> Some x)"

text \<open>A filter that is optional.\<close>

definition matches :: "'a option \<Rightarrow> 'a \<Rightarrow> bool" where
  "matches flt x = (case flt of None \<Rightarrow> True | Some y \<Rightarrow> x = y)"

section \<open>Runs of a deterministic machine\<close>

abbreviation run_steps :: "('s \<Rightarrow> 'e \<Rightarrow> 's) \<Rightarrow> 's \<Rightarrow> 'e list \<Rightarrow> 's" where
  "run_steps step s es \<equiv> foldl step s es"

section \<open>Lemmas on results and comparisons\<close>

lemma rbind_simps [simp]: "rbind (Inl e) f = Inl e" "rbind (Inr x) f = f x"
  by (simp_all add: rbind_def)

lemma rbind_Inr_iff: "rbind r f = Inr y \<longleftrightarrow> (\<exists>x. r = Inr x \<and> f x = Inr y)"
  by (auto simp: rbind_def split: sum.split)

lemma traverse_map: "(\<And>x. x \<in> set xs \<Longrightarrow> f (g x) = Inr x) \<Longrightarrow> traverse f (map g xs) = Inr xs"
  by (induction xs) auto

lemma traverse_Inr: "traverse f xs = Inr ys \<longleftrightarrow> list_all2 (\<lambda>x y. f x = Inr y) xs ys"
  by (induction xs arbitrary: ys) (auto simp: rbind_Inr_iff list_all2_Cons1)

lemma py_eq_refl [simp]: "py_eq a a"
  by (simp add: py_eq_def)

lemma py_eq_trans: "py_eq a b \<Longrightarrow> py_eq b c \<Longrightarrow> py_eq a c"
  by (simp add: py_eq_def)

lemma py_eq_sym: "py_eq a b \<longleftrightarrow> py_eq b a"
  by (auto simp: py_eq_def)

lemma py_eq_num: "py_eq a b \<Longrightarrow> num a = num b"
  by (cases a; cases b) (auto simp: py_eq_def)

section \<open>Lemmas on dictionaries\<close>

lemma keys_dom: "keys d = dom (map_of d)"
  by (simp add: keys_def dom_map_of_conv_image_fst)

lemma keys_Nil [simp]: "keys [] = {}"
  by (simp add: keys_def)

lemma dict_ok_Nil [simp]: "dict_ok []"
  by (simp add: dict_ok_def)

lemma map_of_dict_update [simp, dict_simps]:
  "map_of (AList.update k v d) = (map_of d)(k \<mapsto> v)"
  by (rule update_conv')

lemma map_of_dict_delete [simp, dict_simps]:
  "map_of (AList.delete k d) = (map_of d)(k := None)"
  by (rule delete_conv')

lemma keys_update [simp, dict_simps]: "keys (AList.update k v d) = insert k (keys d)"
  by (simp add: keys_dom)

lemma keys_delete [simp, dict_simps]: "keys (AList.delete k d) = keys d - {k}"
  by (simp add: keys_dom)

lemma dict_ok_update [simp, inv_intros]: "dict_ok d \<Longrightarrow> dict_ok (AList.update k v d)"
  by (simp add: dict_ok_def distinct_update)

lemma dict_ok_delete [simp, inv_intros]: "dict_ok d \<Longrightarrow> dict_ok (AList.delete k d)"
  by (simp add: dict_ok_def distinct_delete)

lemma keys_map_of_None: "k \<notin> keys d \<longleftrightarrow> map_of d k = None"
  by (simp add: keys_def map_of_eq_None_iff)

lemma keys_map_of_Some: "k \<in> keys d \<longleftrightarrow> (\<exists>v. map_of d k = Some v)"
  by (auto simp: keys_dom)

lemma length_update_new: "k \<notin> keys d \<Longrightarrow> length (AList.update k v d) = Suc (length d)"
  by (induction d) (auto simp: keys_def)

lemma length_update_old: "k \<in> keys d \<Longrightarrow> length (AList.update k v d) = length d"
  by (induction d) (auto simp: keys_def)

lemma delete_no_key: "k \<notin> keys d \<Longrightarrow> AList.delete k d = d"
  by (simp add: keys_def delete_idem)

lemma length_delete: "dict_ok d \<Longrightarrow> k \<in> keys d \<Longrightarrow> length (AList.delete k d) = length d - 1"
proof (induction d)
  case Nil
  then show ?case by simp
next
  case (Cons p d)
  show ?case
  proof (cases "fst p = k")
    case True
    with Cons.prems have "k \<notin> keys d" by (auto simp: dict_ok_def keys_def)
    then have "AList.delete k d = d" by (rule delete_no_key)
    with True show ?thesis by (cases p) simp
  next
    case False
    with Cons.prems have "k \<in> keys d" "dict_ok d" by (auto simp: dict_ok_def keys_def)
    moreover from this(1) have "0 < length d" by (auto simp: keys_def)
    ultimately show ?thesis using False Cons.IH by (cases p) simp
  qed
qed

lemma card_keys: "dict_ok d \<Longrightarrow> card (keys d) = length d"
  using distinct_card [of "map fst d"] by (simp add: dict_ok_def keys_def)

lemma map_of_in_set: "dict_ok d \<Longrightarrow> (k, v) \<in> set d \<longleftrightarrow> map_of d k = Some v"
  by (simp add: dict_ok_def map_of_eq_Some_iff)

lemma dict_ok_filter [simp, inv_intros]: "dict_ok d \<Longrightarrow> dict_ok (filter P d)"
  by (simp add: dict_ok_def distinct_map_filter)

lemma map_of_filter:
  "dict_ok d \<Longrightarrow> map_of (filter P d) k = (case map_of d k of None \<Rightarrow> None | Some v \<Rightarrow> if P (k, v) then Some v else None)"
  by (induction d) (auto simp: dict_ok_def split: option.split, (metis map_of_SomeD image_eqI fst_conv)+)

text \<open>A sum over the values of a dictionary.\<close>

definition dict_sum :: "('v \<Rightarrow> 'c :: comm_monoid_add) \<Rightarrow> ('k, 'v) pydict \<Rightarrow> 'c" where
  "dict_sum g d = sum_list (map (g \<circ> snd) d)"

lemma dict_sum_Nil [simp]: "dict_sum g [] = 0"
  by (simp add: dict_sum_def)

lemma dict_sum_update:
  assumes "dict_ok d" "map_of d k = Some q"
  shows "dict_sum g (AList.update k p d) + g q = dict_sum g d + g p"
  using assms
proof (induction d)
  case (Cons x d)
  show ?case
  proof (cases "fst x = k")
    case True
    with Cons.prems show ?thesis by (cases x) (auto simp: dict_sum_def ac_simps)
  next
    case False
    moreover from Cons.prems have "dict_ok d" by (simp add: dict_ok_def)
    ultimately show ?thesis using Cons by (cases x) (auto simp: dict_sum_def add.assoc)
  qed
qed simp

lemma dict_sum_new: "map_of d k = None \<Longrightarrow> dict_sum g (AList.update k p d) = dict_sum g d + g p"
  by (induction d) (auto simp: dict_sum_def ac_simps split: if_splits)

lemma dict_sum_delete:
  assumes "dict_ok d" "map_of d k = Some q"
  shows "dict_sum g (AList.delete k d) + g q = dict_sum g d"
  using assms
proof (induction d)
  case (Cons x d)
  show ?case
  proof (cases "fst x = k")
    case True
    with Cons.prems have "AList.delete k d = d" by (intro delete_no_key) (auto simp: dict_ok_def keys_def)
    with True Cons.prems show ?thesis by (cases x) (auto simp: dict_sum_def ac_simps)
  next
    case False
    moreover from Cons.prems have "dict_ok d" by (simp add: dict_ok_def)
    ultimately show ?thesis using Cons by (cases x) (auto simp: dict_sum_def add.assoc)
  qed
qed simp

section \<open>Lemmas on numbers and text\<close>

lemma usec_pos [simp]:
  "0 < usec_per_sec" "0 < usec_per_min" "0 < usec_per_hour" "0 < usec_per_day"
  by (simp_all add: usec_per_sec_def usec_per_min_def usec_per_hour_def usec_per_day_def)

lemma usec_values:
  "usec_per_sec = 1000000" "usec_per_min = 60000000" "usec_per_hour = 3600000000" "usec_per_day = 86400000000"
  by (simp_all add: usec_per_sec_def usec_per_min_def usec_per_hour_def usec_per_day_def)

lemma round_half_even_error: "\<bar>of_int (round_half_even x) - x\<bar> \<le> 1 / 2"
proof -
  have "of_int \<lfloor>x\<rfloor> \<le> x" "x < of_int \<lfloor>x\<rfloor> + 1" by linarith+
  then show ?thesis by (auto simp: round_half_even_def Let_def abs_le_iff)
qed

lemma round_half_even_of_int [simp]: "round_half_even (of_int i) = i"
  by (simp add: round_half_even_def)

lemma total_seconds_mono: "total_seconds a \<le> total_seconds b \<longleftrightarrow> a \<le> b"
  by (simp add: total_seconds_def usec_per_sec_def divide_le_cancel)

lemma of_char_digit [simp]: "n < 10 \<Longrightarrow> of_char (char_of (48 + n) :: char) = 48 + n"
  for n :: nat
  by simp

lemma digit_inj: "m < 10 \<Longrightarrow> n < 10 \<Longrightarrow> (char_of (48 + m) :: char) = char_of (48 + n) \<longleftrightarrow> m = n"
  for m n :: nat
  by (metis add_left_cancel of_char_digit)

lemma nat_str_chars: "c \<in> set (nat_str n) \<Longrightarrow> 48 \<le> (of_char c :: nat) \<and> (of_char c :: nat) < 58"
proof (induction n rule: nat_str.induct)
  case (1 n)
  then show ?case
    by (subst (asm) (2) nat_str.simps) (auto split: if_splits)
qed

lemma nat_str_nonempty [simp]: "nat_str n \<noteq> []"
  by (subst nat_str.simps) simp

lemma nat_str_short: "n < 10 \<Longrightarrow> nat_str n = [char_of (48 + n)]"
  by (subst nat_str.simps) simp

lemma nat_str_long: "\<not> n < 10 \<Longrightarrow> nat_str n = nat_str (n div 10) @ [char_of (48 + n mod 10)]"
  by (subst nat_str.simps) simp

lemma nat_str_long_length: "\<not> n < 10 \<Longrightarrow> 1 < length (nat_str n)"
  by (subst nat_str_long) (auto simp: Suc_lessI)

lemma nat_str_decimal: "list_all is_decimal (nat_str n)"
  unfolding list_all_iff
proof
  show "is_decimal c" if "c \<in> set (nat_str n)" for c using nat_str_chars [OF that] by (simp add: is_decimal_def)
qed

lemma nat_str_inject: "nat_str m = nat_str n \<Longrightarrow> m = n"
proof (induction m arbitrary: n rule: nat_str.induct)
  case (1 m)
  show ?case
  proof (cases "m < 10")
    case True
    then have "length (nat_str n) = 1" using "1.prems" by (simp add: nat_str_short flip: "1.prems")
    then have "n < 10" using nat_str_long_length [of n] by linarith
    with True "1.prems" show ?thesis by (simp add: nat_str_short digit_inj)
  next
    case False
    then have "1 < length (nat_str n)" using nat_str_long_length [of m] "1.prems" by simp
    then have n: "\<not> n < 10" by (auto simp: nat_str_short)
    from "1.prems" False n
    have eq: "nat_str (m div 10) @ [char_of (48 + m mod 10)] = nat_str (n div 10) @ [char_of (48 + n mod 10)]"
      by (simp add: nat_str_long)
    from eq have "nat_str (m div 10) = nat_str (n div 10)" by (rule append1_eq_conv [THEN iffD1, THEN conjunct1])
    then have "m div 10 = n div 10" using "1.IH" [OF False] by blast
    moreover from eq have "(char_of (48 + m mod 10) :: char) = char_of (48 + n mod 10)"
      by (rule append1_eq_conv [THEN iffD1, THEN conjunct2])
    then have "m mod 10 = n mod 10" using digit_inj [of "m mod 10" "n mod 10"] by simp
    ultimately show ?thesis by (metis div_mult_mod_eq)
  qed
qed

lemma colon_code: "(of_char (CHR '':'') :: nat) = 58" and minus_code: "(of_char (CHR ''-'') :: nat) = 45"
  by simp_all

lemma strip_plain:
  assumes "\<And>c. c \<in> set s \<Longrightarrow> \<not> is_space c"
  shows "strip s = s"
proof -
  have "dropWhile is_space xs = xs" if "set xs \<subseteq> set s" for xs using that assms by (cases xs) auto
  then show ?thesis by (simp add: strip_def)
qed

lemma int_str_no_colon: "CHR '':'' \<notin> set (int_str i)"
  using nat_str_chars [of "CHR '':''"] by (auto simp: int_str_def)

lemma int_str_inject: "int_str i = int_str j \<longleftrightarrow> i = j"
proof
  assume eq: "int_str i = int_str j"
  have nominus: "CHR ''-'' \<notin> set (nat_str n)" for n
    using nat_str_chars [of "CHR ''-''" n] by auto
  have hd: "hd (nat_str n) \<noteq> CHR ''-''" for n
    using nominus [of n] hd_in_set [OF nat_str_nonempty, of n] by metis
  show "i = j"
    using eq hd [of "nat i"] hd [of "nat j"]
    by (auto simp: int_str_def split: if_splits dest!: nat_str_inject) (metis list.sel(1))+
qed simp

lemma takeWhile_colon: "CHR '':'' \<notin> set p \<Longrightarrow> takeWhile (\<lambda>c. c \<noteq> CHR '':'') (p @ CHR '':'' # q) = p"
  by (induction p) auto

lemma dropWhile_colon:
  "CHR '':'' \<notin> set p \<Longrightarrow> dropWhile (\<lambda>c. c \<noteq> CHR '':'') (p @ CHR '':'' # q) = CHR '':'' # q"
  by (induction p) auto

lemma split_colon_join: "CHR '':'' \<notin> set p \<Longrightarrow> split_colon (p @ '':'' @ q) = Some (p, q)"
  by (simp add: split_colon_def takeWhile_colon dropWhile_colon)

lemma last_colon_inject:
  assumes "p @ '':'' @ q = p' @ '':'' @ q'" and "CHR '':'' \<notin> set q" and "CHR '':'' \<notin> set q'"
  shows "p = p' \<and> q = q'"
proof -
  have "rev q @ '':'' @ rev p = rev q' @ '':'' @ rev p'"
    using arg_cong [OF assms(1), of rev] by simp
  then have "split_colon (rev q @ '':'' @ rev p) = split_colon (rev q' @ '':'' @ rev p')"
    by simp
  then show ?thesis using assms(2,3) by (simp add: split_colon_join del: append.simps)
qed

lemma starts_with_append [simp]: "starts_with p (p @ s)"
  by (simp add: starts_with_def)

lemma starts_withD: "starts_with p s \<Longrightarrow> \<exists>t. s = p @ t"
  unfolding starts_with_def by (metis append_take_drop_id)

end
