(* ===== verification/Interfaces.thy ===== *)
theory Interfaces
  imports Prelude
begin

text \<open>
  The contracts several components share, as locales. Each is interpreted on the definitions of
  the components that provide it, in the theory of that component; what follows from the contract
  alone is proved here once.
\<close>

section \<open>A machine with an invariant\<close>

locale invariant_machine =
  fixes initial :: "'s \<Rightarrow> bool"
    and step :: "'s \<Rightarrow> 'e \<Rightarrow> 's"
    and inv :: "'s \<Rightarrow> bool"
  assumes initial_inv: "initial s \<Longrightarrow> inv s"
    and step_inv: "inv s \<Longrightarrow> inv (step s e)"
begin

lemma run_keeps: "inv s \<Longrightarrow> inv (run_steps step s es)"
  by (induction es arbitrary: s) (auto intro: step_inv)

lemma run_inv: "initial s \<Longrightarrow> inv (run_steps step s es)"
  by (rule run_keeps) (rule initial_inv)

end


section \<open>Spaced events and the cooldown gate\<close>

text \<open>
  A handler that fires on some of its events, never sooner than a period after it last fired, and
  remembers when it fired, as long as its state satisfies a condition that it keeps. \<open>fired_times\<close>
  lists the times of the events on which it fires.
\<close>

fun fired_times :: "('s \<Rightarrow> 'e \<Rightarrow> bool \<times> 's) \<Rightarrow> ('e \<Rightarrow> 't) \<Rightarrow> 's \<Rightarrow> 'e list \<Rightarrow> 't list" where
  "fired_times step time_of s [] = []"
| "fired_times step time_of s (e # es) =
     (let r = step s e
      in if fst r then time_of e # fired_times step time_of (snd r) es else fired_times step time_of (snd r) es)"

locale guarded_events =
  fixes ok :: "'s \<Rightarrow> bool"
    and step :: "'s \<Rightarrow> 'e \<Rightarrow> bool \<times> 's"
    and time_of :: "'e \<Rightarrow> 't :: linordered_idom"
    and last_fired :: "'s \<Rightarrow> 't option"
    and period :: "'s \<Rightarrow> 't"
  assumes step_ok: "ok s \<Longrightarrow> ok (snd (step s e))"
    and ok_fires_spaced: "ok s \<Longrightarrow> last_fired s = Some t \<Longrightarrow> fst (step s e) \<Longrightarrow> period s \<le> time_of e - t"
    and ok_step_records:
      "ok s \<Longrightarrow> last_fired (snd (step s e)) = (if fst (step s e) then Some (time_of e) else last_fired s)"
    and ok_step_period: "ok s \<Longrightarrow> period (snd (step s e)) = period s"
begin

lemma first_fired_after:
  "ok s \<Longrightarrow> last_fired s = Some t \<Longrightarrow> fired_times step time_of s es = u # us \<Longrightarrow> period s \<le> u - t"
proof (induction es arbitrary: s)
  case Nil
  then show ?case by simp
next
  case (Cons e es)
  show ?case
  proof (cases "fst (step s e)")
    case True
    with Cons.prems ok_fires_spaced [of s t e] show ?thesis by (simp add: Let_def)
  next
    case False
    with Cons.prems have "last_fired (snd (step s e)) = Some t" "fired_times step time_of (snd (step s e)) es = u # us"
      by (simp_all add: Let_def ok_step_records)
    from Cons.IH [OF step_ok this] Cons.prems(1) show ?thesis by (simp add: ok_step_period)
  qed
qed

lemma ok_fired_times_spaced: "ok s \<Longrightarrow> successively (\<lambda>a b. period s \<le> b - a) (fired_times step time_of s es)"
proof (induction es arbitrary: s)
  case Nil
  then show ?case by simp
next
  case (Cons e es)
  let ?s = "snd (step s e)"
  have IH: "successively (\<lambda>a b. period s \<le> b - a) (fired_times step time_of ?s es)"
    using Cons.IH [OF step_ok [OF Cons.prems]] Cons.prems by (simp add: ok_step_period)
  show ?case
  proof (cases "fst (step s e)")
    case True
    then have "fired_times step time_of ?s es = u # us \<Longrightarrow> period s \<le> u - time_of e" for u us
      using first_fired_after [OF step_ok [OF Cons.prems], of e "time_of e"] Cons.prems by (simp add: ok_step_records ok_step_period)
    with IH True show ?thesis by (cases "fired_times step time_of ?s es") (simp_all add: Let_def)
  next
    case False
    with IH show ?thesis by (simp add: Let_def)
  qed
qed

end

text \<open>The same without a condition on the state.\<close>

locale spaced_events =
  fixes step :: "'s \<Rightarrow> 'e \<Rightarrow> bool \<times> 's"
    and time_of :: "'e \<Rightarrow> 't :: linordered_idom"
    and last_fired :: "'s \<Rightarrow> 't option"
    and period :: "'s \<Rightarrow> 't"
  assumes fires_spaced: "last_fired s = Some t \<Longrightarrow> fst (step s e) \<Longrightarrow> period s \<le> time_of e - t"
    and step_records: "last_fired (snd (step s e)) = (if fst (step s e) then Some (time_of e) else last_fired s)"
    and step_period: "period (snd (step s e)) = period s"

sublocale spaced_events \<subseteq> guarded: guarded_events "\<lambda>_. True" step time_of last_fired period
  by unfold_locales (auto simp: fires_spaced step_records step_period)

context spaced_events
begin

lemma fired_times_spaced: "successively (\<lambda>a b. period s \<le> b - a) (fired_times step time_of s es)"
  by (rule guarded.ok_fired_times_spaced) simp

end

text \<open>
  A gate may fire when nothing has fired yet or when the cooldown has passed since it last did;
  firing records the time. \<open>fire_times\<close> is the list of the instants, among those at which the gate
  is tried, at which it fires. Such a gate gives spaced events.
\<close>

fun fire_times :: "('s \<Rightarrow> 't \<Rightarrow> bool) \<Rightarrow> ('s \<Rightarrow> 't \<Rightarrow> 's) \<Rightarrow> 's \<Rightarrow> 't list \<Rightarrow> 't list" where
  "fire_times ready fired s [] = []"
| "fire_times ready fired s (t # ts) =
     (if ready s t then t # fire_times ready fired (fired s t) ts else fire_times ready fired s ts)"

locale cooldown_gate =
  fixes ready :: "'s \<Rightarrow> 't :: linordered_idom \<Rightarrow> bool"
    and fired :: "'s \<Rightarrow> 't \<Rightarrow> 's"
    and last_fired :: "'s \<Rightarrow> 't option"
    and period :: "'s \<Rightarrow> 't"
  assumes fresh_ready: "last_fired s = None \<Longrightarrow> ready s now"
    and ready_spaced: "last_fired s = Some t \<Longrightarrow> ready s now \<longleftrightarrow> period s \<le> now - t"
    and last_fired_fired: "last_fired (fired s now) = Some now"
    and period_fired: "period (fired s now) = period s"
begin

lemma fires_when_due:
  "ready s t \<longleftrightarrow> (case last_fired s of None \<Rightarrow> True | Some t0 \<Rightarrow> period s \<le> t - t0)"
  by (simp add: fresh_ready ready_spaced split: option.split)

end

sublocale cooldown_gate \<subseteq> gate: spaced_events
  "\<lambda>s t. if ready s t then (True, fired s t) else (False, s)" "\<lambda>t. t" last_fired period
  by unfold_locales (auto simp: ready_spaced last_fired_fired period_fired split: if_splits)

context cooldown_gate
begin

lemma fire_times_fired:
  "fire_times ready fired s ts = fired_times (\<lambda>s t. if ready s t then (True, fired s t) else (False, s)) (\<lambda>t. t) s ts"
  by (induction ts arbitrary: s) (simp_all add: Let_def)

lemma fire_times_spaced: "successively (\<lambda>a b. period s \<le> b - a) (fire_times ready fired s ts)"
  unfolding fire_times_fired by (rule gate.fired_times_spaced)

end

section \<open>A sliding-window limiter\<close>

text \<open>
  The calls that one bucket limits come among other events. A call reads the clock when it drops the timestamps that left the window
  (\<open>t1\<close>) and again when it records itself (\<open>t2\<close>); \<open>own\<close> picks the calls of the bucket out of the events, with their two
  readings. \<open>admitted\<close> lists the recorded times of those let through and \<open>clock_ok\<close> says that their successive readings do
  not go back.
\<close>

fun admitted :: "('s \<Rightarrow> 'e \<Rightarrow> bool \<times> 's) \<Rightarrow> ('e \<Rightarrow> ('t \<times> 't) option) \<Rightarrow> 's \<Rightarrow> 'e list \<Rightarrow> 't list" where
  "admitted step own s [] = []"
| "admitted step own s (e # es) =
     (let r = step s e
      in (case own e of Some (t1, t2) \<Rightarrow> if fst r then [t2] else [] | None \<Rightarrow> []) @ admitted step own (snd r) es)"

fun clock_ok :: "('e \<Rightarrow> ('t \<times> 't) option) \<Rightarrow> 't :: linorder \<Rightarrow> 'e list \<Rightarrow> bool" where
  "clock_ok own t0 [] = True"
| "clock_ok own t0 (e # es) =
     (case own e of None \<Rightarrow> clock_ok own t0 es | Some (t1, t2) \<Rightarrow> t0 \<le> t1 \<and> t1 \<le> t2 \<and> clock_ok own t2 es)"

definition in_window :: "'t :: linordered_idom \<Rightarrow> 't \<Rightarrow> 't list \<Rightarrow> nat" where
  "in_window w T xs = length (filter (\<lambda>x. T - w < x \<and> x \<le> T) xs)"

lemma admitted_after: "clock_ok own t0 es \<Longrightarrow> x \<in> set (admitted step own s es) \<Longrightarrow> t0 \<le> x"
proof (induction es arbitrary: s t0)
  case (Cons e es)
  show ?case
  proof (cases "own e")
    case None
    with Cons show ?thesis by (simp add: Let_def)
  next
    case (Some c)
    obtain t1 t2 where c: "c = (t1, t2)" by (cases c)
    with Some Cons.prems have cl: "t0 \<le> t2" "clock_ok own t2 es" by auto
    have "x = t2 \<or> x \<in> set (admitted step own (snd (step s e)) es)"
      using Cons.prems(2) Some c by (auto simp: Let_def split: if_splits)
    with Cons.IH [OF cl(2)] cl(1) show ?thesis by (meson order_trans order_refl)
  qed
qed simp

lemma in_window_append: "in_window w T (xs @ ys) = in_window w T xs + in_window w T ys"
  by (simp add: in_window_def)

locale sliding_window =
  fixes step :: "'s \<Rightarrow> 'e \<Rightarrow> bool \<times> 's"
    and own :: "'e \<Rightarrow> ('t :: linordered_idom \<times> 't) option"
    and bucket :: "'s \<Rightarrow> 't list"
    and limit :: "'s \<Rightarrow> int"
    and window :: 't
  assumes limit_kept: "limit (snd (step s e)) = limit s"
    and other_kept: "own e = None \<Longrightarrow> bucket (snd (step s e)) = bucket s"
    and check_denied:
      "own e = Some (t1, t2) \<Longrightarrow> limit s \<le> int (length (filter (\<lambda>t. t1 - window < t) (bucket s))) \<Longrightarrow>
         \<not> fst (step s e) \<and> bucket (snd (step s e)) = filter (\<lambda>t. t1 - window < t) (bucket s)"
    and check_allowed:
      "own e = Some (t1, t2) \<Longrightarrow> int (length (filter (\<lambda>t. t1 - window < t) (bucket s))) < limit s \<Longrightarrow>
         fst (step s e) \<and> bucket (snd (step s e)) = filter (\<lambda>t. t1 - window < t) (bucket s) @ [t2]"
begin

lemma check_bucket_bound:
  assumes "length (bucket s) \<le> nat (limit s)"
  shows "length (bucket (snd (step s e))) \<le> nat (limit s)"
proof (cases "own e")
  case None
  with assms show ?thesis by (simp add: other_kept)
next
  case (Some c)
  obtain t1 t2 where c: "own e = Some (t1, t2)" using Some by (cases c) simp
  show ?thesis
    using check_denied [OF c, of s] check_allowed [OF c, of s] assms
    by (cases "limit s \<le> int (length (filter (\<lambda>t. t1 - window < t) (bucket s)))")
      (auto intro: le_trans [OF length_filter_le])
qed

text \<open>Dropping what left the window at \<open>t1\<close> does not change any count taken at or after \<open>t1\<close>.\<close>

lemma in_window_filter: "t1 \<le> T \<Longrightarrow> in_window window T (filter (\<lambda>t. t1 - window < t) xs @ ys) = in_window window T (xs @ ys)"
  unfolding in_window_def filter_append filter_filter length_append
  by (intro arg_cong2 [where f = "(+)"] arg_cong [where f = length] filter_cong) auto

lemma in_window_before: "T < t2 \<Longrightarrow> (\<And>y. y \<in> set ys \<Longrightarrow> t2 \<le> y) \<Longrightarrow> in_window window T (xs @ ys) = in_window window T xs"
proof -
  assume "T < t2" "\<And>y. y \<in> set ys \<Longrightarrow> t2 \<le> y"
  then have "filter (\<lambda>x. T - window < x \<and> x \<le> T) ys = []"
    by (force simp: filter_empty_conv)
  then show ?thesis by (simp add: in_window_def)
qed

lemma admitted_bound:
  "clock_ok own t0 es \<Longrightarrow> length (bucket s) \<le> nat (limit s) \<Longrightarrow>
     in_window window T (bucket s @ admitted step own s es) \<le> nat (limit s)"
proof (induction es arbitrary: s t0)
  case Nil
  then show ?case by (simp add: in_window_def le_trans [OF length_filter_le])
next
  case (Cons e es)
  define s' where "s' = snd (step s e)"
  have bound: "length (bucket s') \<le> nat (limit s')" using check_bucket_bound [OF Cons.prems(2)] by (simp add: s'_def limit_kept)
  show ?case
  proof (cases "own e")
    case None
    then have "in_window window T (bucket s' @ admitted step own s' es) \<le> nat (limit s')"
      using Cons.prems(1) by (intro Cons.IH bound) simp
    with None show ?thesis by (simp add: s'_def other_kept limit_kept Let_def)
  next
    case (Some c)
    obtain t1 t2 where c: "own e = Some (t1, t2)" using Some by (cases c) simp
    have cl: "t1 \<le> t2" "clock_ok own t2 es" using Cons.prems(1) c by auto
    have adm: "admitted step own s (e # es) = (if fst (step s e) then t2 # admitted step own s' es else admitted step own s' es)"
      by (simp add: c Let_def s'_def)
    have after: "t1 \<le> y" if y: "y \<in> set (admitted step own s (e # es))" for y
    proof -
      have "y = t2 \<or> y \<in> set (admitted step own s' es)" using y unfolding adm by (auto split: if_splits)
      then have "t2 \<le> y" using admitted_after [OF cl(2), of y step s'] by blast
      with cl(1) show ?thesis by (rule order_trans)
    qed
    have IH: "in_window window T (bucket s' @ admitted step own s' es) \<le> nat (limit s)"
      using Cons.IH [OF cl(2) bound] by (simp add: s'_def limit_kept)
    show ?thesis
    proof (cases "T < t1")
      case True
      have "in_window window T (bucket s @ admitted step own s (e # es)) = in_window window T (bucket s)"
        by (rule in_window_before [OF True after])
      also have "\<dots> \<le> nat (limit s)"
        using Cons.prems(2) by (simp add: in_window_def le_trans [OF length_filter_le])
      finally show ?thesis .
    next
      case False
      have "bucket s' @ admitted step own s' es = filter (\<lambda>t. t1 - window < t) (bucket s) @ admitted step own s (e # es)"
        unfolding adm using check_denied [OF c, of s] check_allowed [OF c, of s]
        by (cases "limit s \<le> int (length (filter (\<lambda>t. t1 - window < t) (bucket s)))") (auto simp: s'_def)
      with IH False show ?thesis by (simp add: in_window_filter)
    qed
  qed
qed

text \<open>Whatever the bucket holds at the start, even more than the limit: what is admitted afterwards keeps to it.\<close>

lemma admitted_never_exceeds: "clock_ok own start es \<Longrightarrow> in_window window T (admitted step own s es) \<le> nat (limit s)"
proof (induction es arbitrary: s start)
  case (Cons e es)
  let ?s = "snd (step s e)"
  have rest: "in_window window T (admitted step own ?s es) \<le> nat (limit s)" if "clock_ok own t es" for t
    using Cons.IH [OF that, of ?s] by (simp add: limit_kept)
  show ?case
  proof (cases "own e")
    case None
    with rest Cons.prems show ?thesis by (simp add: Let_def)
  next
    case (Some c)
    obtain t1 t2 where c: "own e = Some (t1, t2)" using Some by (cases c) simp
    then have cl: "clock_ok own t2 es" using Cons.prems by simp
    show ?thesis
    proof (cases "limit s \<le> int (length (filter (\<lambda>t. t1 - window < t) (bucket s)))")
      case True
      with check_denied [OF c True] rest [OF cl] c show ?thesis by (simp add: Let_def)
    next
      case False
      then have b: "fst (step s e)" "bucket ?s = filter (\<lambda>t. t1 - window < t) (bucket s) @ [t2]" using check_allowed [OF c] by auto
      then have "length (bucket ?s) \<le> nat (limit ?s)" using False by (simp add: limit_kept)
      from admitted_bound [OF cl this, of T] b c show ?thesis by (simp add: Let_def limit_kept in_window_append)
    qed
  qed
qed (simp add: in_window_def)

end

section \<open>A circuit breaker\<close>

text \<open>
  A protected call has two halves with the awaited operation between them, so calls interleave:
  \<open>Admit\<close> is the guard in front of the operation and \<open>Complete\<close> records its outcome.
  \<open>admissions\<close> lists the instants at which an operation was let through.
\<close>

datatype 'o breaker_event = Admit dtime | Complete 'o dtime

fun event_time :: "'o breaker_event \<Rightarrow> dtime" where
  "event_time (Admit t) = t"
| "event_time (Complete r t) = t"

fun admissions ::
  "('b \<Rightarrow> dtime \<Rightarrow> bool \<times> 'b) \<Rightarrow> ('b \<Rightarrow> 'o \<Rightarrow> dtime \<Rightarrow> 'b) \<Rightarrow> 'b \<Rightarrow> 'o breaker_event list \<Rightarrow> dtime list" where
  "admissions admit finish b [] = []"
| "admissions admit finish b (Admit t # es) =
     (let r = admit b t
      in if fst r then t # admissions admit finish (snd r) es else admissions admit finish (snd r) es)"
| "admissions admit finish b (Complete r t # es) = admissions admit finish (finish b r t) es"

locale circuit_breaker =
  fixes admit :: "'b \<Rightarrow> dtime \<Rightarrow> bool \<times> 'b"
    and finish :: "'b \<Rightarrow> 'o \<Rightarrow> dtime \<Rightarrow> 'b"
    and failed :: "'b \<Rightarrow> 'o \<Rightarrow> bool"
    and is_open :: "'b \<Rightarrow> bool"
    and failures :: "'b \<Rightarrow> int"
    and last_failure :: "'b \<Rightarrow> dtime option"
    and threshold :: "'b \<Rightarrow> int"
    and timeout :: "'b \<Rightarrow> pyfloat"
  assumes open_rejects:
      "is_open b \<Longrightarrow> last_failure b = Some t \<Longrightarrow> total_seconds (now - t) < timeout b \<Longrightarrow> admit b now = (False, b)"
    and complete_failed:
      "failed b r \<Longrightarrow> failures (finish b r now) = failures b + 1 \<and> last_failure (finish b r now) = Some now \<and>
         (is_open (finish b r now) \<longleftrightarrow> is_open b \<or> threshold b \<le> failures b + 1)"
    and complete_other:
      "\<not> failed b r \<Longrightarrow> last_failure (finish b r now) = last_failure b \<and> is_open (finish b r now) = is_open b"
    and config_kept:
      "threshold (finish b r now) = threshold b" "timeout (finish b r now) = timeout b"
      "failed (finish b r now) = failed b"
begin

lemma open_complete:
  assumes "is_open b" and "last_failure b = Some t"
  shows "is_open (finish b r now) \<and> last_failure (finish b r now) = Some (if failed b r then now else t)"
  using assms complete_failed [of b r now] complete_other [of b r now] by auto

lemma open_stays_silent_aux:
  assumes "is_open b" and "last_failure b = Some u" and "t \<le> u" and "timeout b = w"
    and "\<And>e. e \<in> set es \<Longrightarrow> t \<le> event_time e \<and> total_seconds (event_time e - t) < w"
  shows "admissions admit finish b es = []"
  using assms
proof (induction es arbitrary: b u)
  case Nil
  then show ?case by simp
next
  case (Cons e es)
  have es: "t \<le> event_time x \<and> total_seconds (event_time x - t) < w" if "x \<in> set es" for x
    using Cons.prems(5) that by simp
  have e: "t \<le> event_time e" "total_seconds (event_time e - t) < w" using Cons.prems(5) [of e] by auto
  show ?case
  proof (cases e)
    case (Admit now)
    have "total_seconds (now - u) \<le> total_seconds (now - t)"
      using Cons.prems(3) by (simp add: total_seconds_mono)
    also have "\<dots> < timeout b" using e(2) Cons.prems(4) Admit by simp
    finally have "admit b now = (False, b)" using Cons.prems(1,2) by (intro open_rejects)
    with Cons.IH [OF Cons.prems(1-4) es] Admit show ?thesis by simp
  next
    case (Complete r now)
    have "is_open (finish b r now)" "last_failure (finish b r now) = Some (if failed b r then now else u)"
      using open_complete [OF Cons.prems(1,2)] by auto
    moreover have "t \<le> (if failed b r then now else u)" using Cons.prems(3) e(1) Complete by simp
    moreover have "timeout (finish b r now) = w" using Cons.prems(4) by (simp add: config_kept)
    ultimately have "admissions admit finish (finish b r now) es = []"
      using Cons.IH es by blast
    with Complete show ?thesis by simp
  qed
qed

lemma open_stays_silent:
  assumes "is_open b" and "last_failure b = Some t"
    and "\<And>e. e \<in> set es \<Longrightarrow> t \<le> event_time e \<and> total_seconds (event_time e - t) < timeout b"
  shows "admissions admit finish b es = []"
  using open_stays_silent_aux [OF assms(1,2) order_refl refl] assms(3) by blast

lemma open_stays_open: "is_open b \<Longrightarrow> is_open (foldl (\<lambda>b (r, t). finish b r t) b fs)"
  by (induction fs arbitrary: b) (auto split: prod.split, metis complete_failed complete_other)

text \<open>A breaker without recorded failures opens exactly when as many calls in a row fail as its threshold says.\<close>

lemma failures_open:
  "\<forall>(r, t) \<in> set fs. failed b r \<Longrightarrow> fs \<noteq> [] \<Longrightarrow> \<not> is_open b \<Longrightarrow> failures b < threshold b \<Longrightarrow>
     is_open (foldl (\<lambda>b (r, t). finish b r t) b fs) \<longleftrightarrow> threshold b \<le> failures b + int (length fs)"
proof (induction fs arbitrary: b)
  case Nil
  then show ?case by simp
next
  case (Cons f fs)
  obtain r t where f: "f = (r, t)" by (cases f)
  let ?b = "finish b r t"
  have fb: "failed b r" using Cons.prems(1) f by simp
  note step = complete_failed [OF fb, of t]
  show ?case
  proof (cases "threshold b \<le> failures b + 1")
    case True
    with step Cons.prems(3) have "is_open ?b" by simp
    with True f open_stays_open [of ?b fs] show ?thesis by simp
  next
    case False
    with step Cons.prems(3) have nb: "\<not> is_open ?b" "failures ?b = failures b + 1" by auto
    show ?thesis
    proof (cases "fs = []")
      case True
      with nb f False show ?thesis by simp
    next
      case nonempty: False
      have "\<forall>(r, t) \<in> set fs. failed ?b r" using Cons.prems(1) by (auto simp: config_kept f)
      then have "is_open (foldl (\<lambda>b (r, t). finish b r t) ?b fs) \<longleftrightarrow> threshold ?b \<le> failures ?b + int (length fs)"
        using nb False by (intro Cons.IH nonempty) (auto simp: config_kept)
      then show ?thesis using nb f by (simp add: config_kept add.assoc)
    qed
  qed
qed

end

section \<open>Tables whose rows evolve\<close>

text \<open>
  A table that rows are appended to and updated in, never deleted from: after any statements, the rows it
  had stand where they stood, each related to what it was.
\<close>

definition rows_evolve :: "('a \<Rightarrow> 'a \<Rightarrow> bool) \<Rightarrow> 'a list \<Rightarrow> 'a list \<Rightarrow> bool" where
  "rows_evolve R a b \<longleftrightarrow> length a \<le> length b \<and> list_all2 R a (take (length a) b)"

locale row_evolution =
  fixes R :: "'a \<Rightarrow> 'a \<Rightarrow> bool"
  assumes row_refl: "R a a"
    and row_trans: "R a b \<Longrightarrow> R b c \<Longrightarrow> R a c"
begin

lemma rows_nth: "rows_evolve R a b \<longleftrightarrow> length a \<le> length b \<and> (\<forall>i<length a. R (a ! i) (b ! i))"
  by (auto simp: rows_evolve_def list_all2_conv_all_nth)

lemma rows_refl: "rows_evolve R a a"
  by (simp add: rows_nth row_refl)

lemma rows_trans: "rows_evolve R a b \<Longrightarrow> rows_evolve R b c \<Longrightarrow> rows_evolve R a c"
  unfolding rows_nth by (meson order_less_le_trans order_trans row_trans)

lemma rows_append: "rows_evolve R a (a @ xs)"
  by (simp add: rows_nth nth_append row_refl)

lemma rows_update: "(\<And>a. p a \<Longrightarrow> R a (f a)) \<Longrightarrow> rows_evolve R tab (update_where p f tab)"
  by (simp add: rows_nth update_where_def row_refl)

lemma rows_run:
  assumes "\<And>s e. rows_evolve R (rows s) (rows (step s e))"
  shows "rows_evolve R (rows s) (rows (run_steps step s es))"
  using assms by (induction es arbitrary: s) (auto intro: rows_refl rows_trans)

lemma rows_member:
  assumes "rows_evolve R a b" "x \<in> set a"
  shows "\<exists>y\<in>set b. R x y"
proof -
  obtain i where "i < length a" "x = a ! i" using assms(2) by (auto simp: in_set_conv_nth)
  with assms(1) show ?thesis by (intro bexI [of _ "b ! i"]) (auto simp: rows_nth)
qed

end

end
