(* ===== verification/Cache_Manager.thy ===== *)
theory Cache_Manager
  imports Interfaces
begin

text \<open>
  The in-memory cache of the websocket handler, \<open>src/src/websocket_handler/cache_manager.py\<close>:
  class \<open>CacheManager\<close> with its dictionary \<open>_cache\<close>, its recency list \<open>_access_order\<close> and its
  statistics. \<open>get\<close>, \<open>set\<close> and the sweep run under one \<open>asyncio.Lock\<close>; \<open>delete\<close> and \<open>clear\<close> do not
  take it, but none of them is suspended while it changes the containers, so each is one step. \<open>get_or_set\<close> is a
  \<open>get\<close> and a \<open>set\<close> with an await between them; other operations may come in between, and the refinement is
  about the two parts. A
  method that reads the clock twice takes both readings. The theory shows the invariant that ties
  the dictionary, the recency list and the counters together, that the pair of containers refines
  one recency-ordered list, and what a reader gets back.
\<close>

section \<open>Model\<close>

datatype CacheStrategy = LRU | TTL | WRITE_THROUGH | WRITE_BACK

record 'v CacheEntry =
  ce_key :: string
  ce_value :: "'v option"
  ce_created_at :: dtime
  ce_last_accessed :: dtime
  ce_access_count :: int
  ce_ttl :: "int option"
  ce_strategy :: CacheStrategy

record 'v CacheManager =
  cm_max_size :: int
  cm_default_ttl :: int
  cm_cache :: "(string, 'v CacheEntry) pydict"
  cm_access_order :: "string list"
  cm_hits :: int
  cm_misses :: int
  cm_evictions :: int
  cm_size :: int

definition cm_init :: "int \<Rightarrow> int \<Rightarrow> int option \<Rightarrow> 'v CacheManager" where
  "cm_init max_size default_ttl ttl_seconds =
     \<lparr>cm_max_size = max_size,
      cm_default_ttl = (case ttl_seconds of Some n \<Rightarrow> n * usec_per_sec | None \<Rightarrow> default_ttl),
      cm_cache = [], cm_access_order = [], cm_hits = 0, cm_misses = 0, cm_evictions = 0, cm_size = 0\<rparr>"

text \<open>The test \<open>entry.ttl and now - entry.created_at > entry.ttl\<close>: a zero \<open>timedelta\<close> is false.\<close>

definition entry_expired :: "'v CacheEntry \<Rightarrow> dtime \<Rightarrow> bool" where
  "entry_expired e now =
     (case ce_ttl e of None \<Rightarrow> False | Some d \<Rightarrow> d \<noteq> 0 \<and> now - ce_created_at e > d)"

definition evict_unlocked :: "string \<Rightarrow> 'v CacheManager \<Rightarrow> 'v CacheManager" where
  "evict_unlocked key s =
     (if key \<in> keys (cm_cache s)
      then let cache = AList.delete key (cm_cache s)
           in s\<lparr>cm_cache := cache,
                cm_access_order := remove1 key (cm_access_order s),
                cm_evictions := cm_evictions s + 1,
                cm_size := int (length cache)\<rparr>
      else s)"

definition evict_lru_unlocked :: "'v CacheManager \<Rightarrow> 'v CacheManager" where
  "evict_lru_unlocked s =
     (case cm_access_order s of [] \<Rightarrow> s | lru_key # _ \<Rightarrow> evict_unlocked lru_key s)"

definition cm_touch :: "string \<Rightarrow> 'v CacheManager \<Rightarrow> 'v CacheManager" where
  "cm_touch key s = s\<lparr>cm_access_order := remove1 key (cm_access_order s) @ [key]\<rparr>"

definition cm_get ::
  "string \<Rightarrow> 'v option \<Rightarrow> dtime \<Rightarrow> dtime \<Rightarrow> 'v CacheManager \<Rightarrow> 'v option \<times> 'v CacheManager" where
  "cm_get key dflt now now' s =
     (case map_of (cm_cache s) key of
        None \<Rightarrow> (dflt, s\<lparr>cm_misses := cm_misses s + 1\<rparr>)
      | Some entry \<Rightarrow>
          if entry_expired entry now
          then let s' = evict_unlocked key s in (dflt, s'\<lparr>cm_misses := cm_misses s' + 1\<rparr>)
          else
            let entry' = entry\<lparr>ce_last_accessed := now', ce_access_count := ce_access_count entry + 1\<rparr>;
                s' = cm_touch key (s\<lparr>cm_cache := AList.update key entry' (cm_cache s)\<rparr>)
            in (ce_value entry, s'\<lparr>cm_hits := cm_hits s' + 1\<rparr>))"

definition cm_set ::
  "string \<Rightarrow> 'v option \<Rightarrow> int option \<Rightarrow> CacheStrategy \<Rightarrow> dtime \<Rightarrow> dtime \<Rightarrow> 'v CacheManager \<Rightarrow> 'v CacheManager" where
  "cm_set key value ttl strategy now now' s =
     (let s1 = (if int (length (cm_cache s)) \<ge> cm_max_size s \<and> key \<notin> keys (cm_cache s)
                then evict_lru_unlocked s else s);
          entry = \<lparr>ce_key = key, ce_value = value, ce_created_at = now, ce_last_accessed = now',
                   ce_access_count = 0,
                   ce_ttl = Some (case ttl of None \<Rightarrow> cm_default_ttl s1
                                  | Some d \<Rightarrow> if d = 0 then cm_default_ttl s1 else d),
                   ce_strategy = strategy\<rparr>;
          s2 = cm_touch key (s1\<lparr>cm_cache := AList.update key entry (cm_cache s1)\<rparr>)
      in s2\<lparr>cm_size := int (length (cm_cache s2))\<rparr>)"

definition cm_delete :: "string \<Rightarrow> 'v CacheManager \<Rightarrow> bool \<times> 'v CacheManager" where
  "cm_delete key s =
     (if key \<in> keys (cm_cache s) then (True, evict_unlocked key s) else (False, s))"

definition cm_clear :: "'v CacheManager \<Rightarrow> 'v CacheManager" where
  "cm_clear s = s\<lparr>cm_cache := [], cm_access_order := [], cm_size := 0\<rparr>"

text \<open>The value of \<open>factory_func\<close> is the argument \<open>made\<close>; the clock is read by \<open>get\<close> and by \<open>set\<close>.
  This is the call that nothing interrupts: between the two parts the code awaits without the lock.\<close>

definition cm_get_or_set ::
  "string \<Rightarrow> 'v option \<Rightarrow> int option \<Rightarrow> dtime \<Rightarrow> dtime \<Rightarrow> dtime \<Rightarrow> dtime \<Rightarrow> 'v CacheManager
     \<Rightarrow> 'v option \<times> 'v CacheManager" where
  "cm_get_or_set key made ttl now now' now2 now2' s =
     (case cm_get key None now now' s of
        (None, s') \<Rightarrow> (made, cm_set key made ttl TTL now2 now2' s')
      | (Some v, s') \<Rightarrow> (Some v, s'))"

definition cleanup_expired :: "dtime \<Rightarrow> 'v CacheManager \<Rightarrow> 'v CacheManager" where
  "cleanup_expired now s =
     (let expired_keys = map fst (filter (\<lambda>(k, e). entry_expired e now) (cm_cache s))
      in foldl (\<lambda>s k. evict_unlocked k s) s expired_keys)"

datatype 'v cache_op =
    Get string "'v option" dtime dtime
  | Set string "'v option" "int option" CacheStrategy dtime dtime
  | Delete string
  | GetOrSet string "'v option" "int option" dtime dtime dtime dtime
  | Clear
  | Cleanup dtime

fun cache_step :: "'v CacheManager \<Rightarrow> 'v cache_op \<Rightarrow> 'v CacheManager" where
  "cache_step s (Get k d t t') = snd (cm_get k d t t' s)"
| "cache_step s (Set k v ttl st t t') = cm_set k v ttl st t t' s"
| "cache_step s (Delete k) = snd (cm_delete k s)"
| "cache_step s (GetOrSet k v ttl t t' u u') = snd (cm_get_or_set k v ttl t t' u u' s)"
| "cache_step s Clear = cm_clear s"
| "cache_step s (Cleanup t) = cleanup_expired t s"

section \<open>Invariant\<close>

definition cache_inv :: "'v CacheManager \<Rightarrow> bool" where
  "cache_inv s \<longleftrightarrow>
     dict_ok (cm_cache s) \<and> distinct (cm_access_order s) \<and>
     set (cm_access_order s) = keys (cm_cache s) \<and>
     cm_size s = int (length (cm_cache s)) \<and>
     int (length (cm_cache s)) \<le> max 1 (cm_max_size s)"

definition cache_initial :: "'v CacheManager \<Rightarrow> bool" where
  "cache_initial s \<longleftrightarrow> (\<exists>m d t. s = cm_init m d t)"

section \<open>Abstract cache: one list in order of use\<close>

text \<open>
  The specification is a single list of entries, least recently used first. Storing a new key in a
  full cache drops the head; every hit moves the entry to the end.
\<close>

definition abs_cache :: "'v CacheManager \<Rightarrow> (string \<times> 'v CacheEntry) list" where
  "abs_cache s = map (\<lambda>k. (k, the (map_of (cm_cache s) k))) (cm_access_order s)"

definition lru_drop :: "'k \<Rightarrow> ('k \<times> 'e) list \<Rightarrow> ('k \<times> 'e) list" where
  "lru_drop k xs = filter (\<lambda>p. fst p \<noteq> k) xs"

definition lru_set :: "int \<Rightarrow> 'k \<Rightarrow> 'e \<Rightarrow> ('k \<times> 'e) list \<Rightarrow> ('k \<times> 'e) list" where
  "lru_set mx k e xs =
     lru_drop k (if int (length xs) \<ge> mx \<and> k \<notin> fst ` set xs then tl xs else xs) @ [(k, e)]"

definition lru_get ::
  "string \<Rightarrow> dtime \<Rightarrow> dtime \<Rightarrow> (string \<times> 'v CacheEntry) list \<Rightarrow> (string \<times> 'v CacheEntry) list" where
  "lru_get k now now' xs =
     (case map_of xs k of
        None \<Rightarrow> xs
      | Some e \<Rightarrow>
          if entry_expired e now then lru_drop k xs
          else lru_drop k xs @ [(k, e\<lparr>ce_last_accessed := now', ce_access_count := ce_access_count e + 1\<rparr>)])"

section \<open>Invariant: proofs\<close>

lemma remove1_distinct_filter: "distinct xs \<Longrightarrow> remove1 x xs = filter (\<lambda>y. y \<noteq> x) xs"
  by (simp add: distinct_remove1_removeAll removeAll_filter_not_eq eq_commute)

lemma set_remove1_distinct [simp]: "distinct xs \<Longrightarrow> set (remove1 x xs) = set xs - {x}"
  by (simp add: distinct_remove1_removeAll)

lemma evict_unlocked_inv [inv_intros]: "cache_inv s \<Longrightarrow> cache_inv (evict_unlocked k s)"
  by (auto simp: cache_inv_def evict_unlocked_def Let_def length_delete)

lemma evict_unlocked_cache: "cm_cache (evict_unlocked k s) = AList.delete k (cm_cache s)"
  by (simp add: evict_unlocked_def Let_def delete_no_key)

lemma evict_unlocked_frame [simp]:
  "cm_max_size (evict_unlocked k s) = cm_max_size s"
  "cm_default_ttl (evict_unlocked k s) = cm_default_ttl s"
  "cm_misses (evict_unlocked k s) = cm_misses s"
  "cm_hits (evict_unlocked k s) = cm_hits s"
  by (simp_all add: evict_unlocked_def Let_def)

lemma evict_unlocked_order:
  "cache_inv s \<Longrightarrow> cm_access_order (evict_unlocked k s) = filter (\<lambda>y. y \<noteq> k) (cm_access_order s)"
  by (auto simp: evict_unlocked_def cache_inv_def remove1_distinct_filter Let_def intro!: sym [OF filter_True])

lemma evict_lru_inv [inv_intros]: "cache_inv s \<Longrightarrow> cache_inv (evict_lru_unlocked s)"
  by (auto simp: evict_lru_unlocked_def split: list.split intro: evict_unlocked_inv)

lemma evict_lru_frame [simp]:
  "cm_max_size (evict_lru_unlocked s) = cm_max_size s"
  "cm_default_ttl (evict_lru_unlocked s) = cm_default_ttl s"
  by (simp_all add: evict_lru_unlocked_def split: list.split)

lemma evict_lru_room:
  assumes "cache_inv s" and "int (length (cm_cache s)) \<ge> cm_max_size s"
  shows "int (length (cm_cache (evict_lru_unlocked s))) < max 1 (cm_max_size s)"
proof (cases "cm_access_order s")
  case Nil
  with assms(1) have "keys (cm_cache s) = {}" by (simp add: cache_inv_def)
  then have "cm_cache s = []" by (simp add: keys_def)
  with Nil show ?thesis by (simp add: evict_lru_unlocked_def)
next
  case (Cons k ks)
  with assms(1) have "k \<in> keys (cm_cache s)" "dict_ok (cm_cache s)"
    by (auto simp: cache_inv_def)
  then have "length (cm_cache (evict_unlocked k s)) = length (cm_cache s) - 1" "0 < length (cm_cache s)"
    by (auto simp: evict_unlocked_cache length_delete keys_def)
  with assms(1) Cons show ?thesis by (auto simp: evict_lru_unlocked_def cache_inv_def)
qed

lemma cm_get_inv [inv_intros]: "cache_inv s \<Longrightarrow> cache_inv (snd (cm_get k d t t' s))"
proof (cases "map_of (cm_cache s) k")
  case None
  then show "cache_inv s \<Longrightarrow> ?thesis" by (simp add: cm_get_def cache_inv_def)
next
  case (Some e)
  then have k: "k \<in> keys (cm_cache s)" by (auto simp: keys_map_of_Some)
  assume inv: "cache_inv s"
  show ?thesis
  proof (cases "entry_expired e t")
    case True
    with Some evict_unlocked_inv [OF inv, of k] show ?thesis by (simp add: cm_get_def Let_def cache_inv_def)
  next
    case False
    with Some k inv show ?thesis
      by (auto simp: cm_get_def Let_def cm_touch_def cache_inv_def length_update_old)
  qed
qed

lemma cm_set_inv [inv_intros]:
  assumes inv: "cache_inv s"
  shows "cache_inv (cm_set k v ttl st t t' s)"
proof -
  define s1 where "s1 = (if int (length (cm_cache s)) \<ge> cm_max_size s \<and> k \<notin> keys (cm_cache s)
                then evict_lru_unlocked s else s)"
  have i1: "cache_inv s1" using inv by (simp add: s1_def evict_lru_inv)
  have mx: "cm_max_size s1 = cm_max_size s" by (simp add: s1_def)
  have "int (length (AList.update k e (cm_cache s1))) \<le> max 1 (cm_max_size s)" for e
  proof (cases "k \<in> keys (cm_cache s1)")
    case True
    with i1 mx show ?thesis by (simp add: length_update_old cache_inv_def)
  next
    case False
    have "int (length (cm_cache s1)) < max 1 (cm_max_size s)"
    proof (cases "int (length (cm_cache s)) \<ge> cm_max_size s")
      case True
      then show ?thesis using False evict_lru_room [OF inv True]
        by (cases "k \<in> keys (cm_cache s)") (simp_all add: s1_def)
    next
      case nf: False
      then have "s1 = s" by (simp add: s1_def)
      with nf show ?thesis by simp
    qed
    with False show ?thesis by (simp add: length_update_new)
  qed
  with i1 mx show ?thesis
    unfolding cm_set_def Let_def s1_def [symmetric] by (auto simp: cm_touch_def cache_inv_def)
qed

lemma cm_delete_inv [inv_intros]: "cache_inv s \<Longrightarrow> cache_inv (snd (cm_delete k s))"
  by (simp add: cm_delete_def evict_unlocked_inv)

lemma cm_clear_inv [inv_intros]: "cache_inv s \<Longrightarrow> cache_inv (cm_clear s)"
  by (simp add: cm_clear_def cache_inv_def)

lemma cm_get_or_set_inv [inv_intros]:
  "cache_inv s \<Longrightarrow> cache_inv (snd (cm_get_or_set k v ttl t t' u u' s))"
  using cm_get_inv [of s k None t t']
  by (auto simp: cm_get_or_set_def cm_set_inv split: prod.split option.split)

lemma cleanup_inv [inv_intros]: "cache_inv s \<Longrightarrow> cache_inv (cleanup_expired t s)"
proof -
  have "cache_inv s \<Longrightarrow> cache_inv (foldl (\<lambda>s k. evict_unlocked k s) s ks)" for s :: "'a CacheManager" and ks
    by (induction ks arbitrary: s) (simp_all add: evict_unlocked_inv)
  then show "cache_inv s \<Longrightarrow> cache_inv (cleanup_expired t s)" by (simp add: cleanup_expired_def)
qed

lemma cache_initial_inv: "cache_initial s \<Longrightarrow> cache_inv s"
  by (auto simp: cache_initial_def cm_init_def cache_inv_def)

lemma cache_step_inv: "cache_inv s \<Longrightarrow> cache_inv (cache_step s op)"
  by (cases op) (simp_all add: inv_intros)

interpretation cache: invariant_machine cache_initial cache_step cache_inv
  by unfold_locales (rule cache_initial_inv, assumption, rule cache_step_inv, assumption)


section \<open>Refinement: proofs\<close>

lemma fst_abs_cache [simp]: "map fst (abs_cache s) = cm_access_order s"
  by (simp add: abs_cache_def comp_def)

lemma abs_cache_keys: "cache_inv s \<Longrightarrow> fst ` set (abs_cache s) = keys (cm_cache s)"
  by (simp add: cache_inv_def flip: set_map)

lemma abs_cache_length: "cache_inv s \<Longrightarrow> length (abs_cache s) = length (cm_cache s)"
  using distinct_card [of "cm_access_order s"] card_keys [of "cm_cache s"]
  by (simp add: cache_inv_def abs_cache_def)

lemma map_of_abs_cache: "cache_inv s \<Longrightarrow> map_of (abs_cache s) k = map_of (cm_cache s) k"
proof (cases "k \<in> keys (cm_cache s)")
  case True
  moreover assume inv: "cache_inv s"
  ultimately have "(k, the (map_of (cm_cache s) k)) \<in> set (abs_cache s)"
    by (auto simp: abs_cache_def cache_inv_def)
  moreover have "distinct (map fst (abs_cache s))" using inv by (simp add: cache_inv_def)
  ultimately show ?thesis using True by (auto simp: keys_map_of_Some)
next
  case False
  moreover assume inv: "cache_inv s"
  ultimately have "k \<notin> fst ` set (abs_cache s)" by (simp add: abs_cache_keys)
  then have "map_of (abs_cache s) k = None" by (simp add: map_of_eq_None_iff)
  with False show ?thesis by (simp add: keys_map_of_None)
qed

lemma abs_evict: "cache_inv s \<Longrightarrow> abs_cache (evict_unlocked k s) = lru_drop k (abs_cache s)"
  by (simp add: abs_cache_def lru_drop_def evict_unlocked_order evict_unlocked_cache filter_map comp_def
      cong: filter_cong map_cong)

lemma abs_evict_lru: "cache_inv s \<Longrightarrow> abs_cache (evict_lru_unlocked s) = tl (abs_cache s)"
proof (cases "cm_access_order s")
  case Nil
  then show ?thesis by (simp add: abs_cache_def evict_lru_unlocked_def)
next
  case (Cons k ks)
  assume inv: "cache_inv s"
  with Cons have k: "k \<notin> set ks" by (simp add: cache_inv_def)
  then have "lru_drop k (abs_cache s) = tl (abs_cache s)"
    using Cons by (auto simp: abs_cache_def lru_drop_def intro!: filter_True)
  with Cons inv show ?thesis by (simp add: evict_lru_unlocked_def abs_evict)
qed

lemma abs_store:
  assumes "cache_inv s"
  shows "abs_cache (cm_touch k (s\<lparr>cm_cache := AList.update k e (cm_cache s)\<rparr>)) = lru_drop k (abs_cache s) @ [(k, e)]"
proof -
  have "distinct (cm_access_order s)" using assms by (simp add: cache_inv_def)
  then show ?thesis
    by (simp add: abs_cache_def cm_touch_def lru_drop_def remove1_distinct_filter filter_map comp_def
        cong: map_cong filter_cong)
qed

lemma abs_cache_stats [simp]:
  "abs_cache (s\<lparr>cm_hits := h\<rparr>) = abs_cache s" "abs_cache (s\<lparr>cm_misses := m\<rparr>) = abs_cache s"
  "abs_cache (s\<lparr>cm_size := z\<rparr>) = abs_cache s"
  by (simp_all add: abs_cache_def)

lemma cm_get_refines: "cache_inv s \<Longrightarrow> abs_cache (snd (cm_get k d t t' s)) = lru_get k t t' (abs_cache s)"
  by (simp add: cm_get_def lru_get_def map_of_abs_cache abs_evict abs_store Let_def split: option.split)

lemma cm_set_refines:
  assumes inv: "cache_inv s"
  shows "\<exists>e. ce_value e = v \<and> ce_created_at e = t \<and>
     abs_cache (cm_set k v ttl st t t' s) = lru_set (cm_max_size s) k e (abs_cache s)"
proof -
  define s1 where "s1 = (if int (length (cm_cache s)) \<ge> cm_max_size s \<and> k \<notin> keys (cm_cache s)
                then evict_lru_unlocked s else s)"
  have i1: "cache_inv s1" using inv by (simp add: s1_def evict_lru_inv)
  have "abs_cache s1 = (if int (length (abs_cache s)) \<ge> cm_max_size s \<and> k \<notin> fst ` set (abs_cache s)
           then tl (abs_cache s) else abs_cache s)"
    using inv by (simp add: s1_def abs_evict_lru abs_cache_keys abs_cache_length)
  then show ?thesis
    unfolding cm_set_def Let_def s1_def [symmetric] using i1
    by (simp add: abs_store lru_set_def)
qed

lemma cleanup_fold_abs:
  "cache_inv s \<Longrightarrow> abs_cache (foldl (\<lambda>s k. evict_unlocked k s) s ks) = filter (\<lambda>p. fst p \<notin> set ks) (abs_cache s)"
  by (induction ks arbitrary: s)
    (simp_all add: evict_unlocked_inv abs_evict lru_drop_def conj_commute cong: filter_cong)

lemma cleanup_refines:
  assumes inv: "cache_inv s"
  shows "abs_cache (cleanup_expired t s) = filter (\<lambda>p. \<not> entry_expired (snd p) t) (abs_cache s)"
proof -
  have ok: "dict_ok (cm_cache s)" using inv by (simp add: cache_inv_def)
  have "k \<in> set (map fst (filter (\<lambda>(k, e). entry_expired e t) (cm_cache s))) \<longleftrightarrow>
          (\<exists>e. map_of (cm_cache s) k = Some e \<and> entry_expired e t)" for k
    using map_of_in_set [OF ok, of k] by force
  moreover have "p \<in> set (abs_cache s) \<Longrightarrow> map_of (cm_cache s) (fst p) = Some (snd p)" for p
    using map_of_abs_cache [OF inv, of "fst p"] map_of_is_SomeI [of "abs_cache s" "fst p" "snd p"] inv
    by (simp add: cache_inv_def)
  ultimately show ?thesis
    unfolding cleanup_expired_def Let_def cleanup_fold_abs [OF inv] by (intro filter_cong) auto
qed

section \<open>Properties\<close>

text \<open>From the state the constructor builds, any sequence of \<open>get\<close>, \<open>set\<close>, \<open>delete\<close>,
  \<open>get_or_set\<close>, \<open>clear\<close> and expiry sweeps keeps the cache well formed: keys are unique, the recency
  list holds exactly the cached keys once each, the \<open>size\<close> statistic is the number of entries, and
  the number of entries never exceeds \<open>max_size\<close> (one entry when \<open>max_size\<close> is less than one).\<close>

theorem cache_run_inv: "cache_inv (run_steps cache_step (cm_init max_size default_ttl ttl_seconds) ops)"
  by (rule cache.run_inv) (auto simp: cache_initial_def)

text \<open>C30: The dictionary and the recency list together refine one list of entries in order of use: a
  read is the list operation \<open>lru_get\<close>, a write is \<open>lru_set\<close> (a new key in a full cache drops the
  least recently used entry and nothing else), and the sweep removes exactly the expired entries.\<close>

theorem cache_refines_lru_list:
  assumes "cache_inv s"
  shows "abs_cache (snd (cm_get k d t t' s)) = lru_get k t t' (abs_cache s) \<and>
    (\<exists>e. ce_value e = v \<and> ce_created_at e = t \<and>
       abs_cache (cm_set k v ttl st t t' s) = lru_set (cm_max_size s) k e (abs_cache s)) \<and>
    abs_cache (cleanup_expired t s) = filter (\<lambda>p. \<not> entry_expired (snd p) t) (abs_cache s)"
  using assms by (intro conjI) (rule cm_get_refines, assumption, rule cm_set_refines, assumption, rule cleanup_refines)

theorem cache_refines_lru_list_witness:
  "abs_cache (snd (cm_get ''a'' None 5 5 (cm_set ''a'' (Some (1::int)) None TTL 0 0 (cm_init 2 100 None))))
     = lru_get ''a'' 5 5 (abs_cache (cm_set ''a'' (Some (1::int)) None TTL 0 0 (cm_init 2 100 None)))"
proof -
  have "cache_inv (cm_set ''a'' (Some (1::int)) None TTL 0 0 (cm_init 2 100 None))"
    by (simp add: cache_inv_def cm_set_def cm_init_def cm_touch_def dict_ok_def keys_def Let_def)
  then show ?thesis by (rule cache_refines_lru_list [THEN conjunct1])
qed

text \<open>A stored value is read back until its time to live has passed: right after \<open>set\<close>, a \<open>get\<close>
  at most the effective time to live later returns the value and counts a hit, and a later \<open>get\<close>
  returns the default, removes the entry and counts a miss.\<close>

theorem cache_set_get:
  assumes "eff = (case ttl of None \<Rightarrow> cm_default_ttl s | Some d \<Rightarrow> if d = 0 then cm_default_ttl s else d)"
    and "s' = cm_set k (Some v) ttl st t t' s"
  shows "if eff = 0 \<or> u - t \<le> eff
    then fst (cm_get k d u u' s') = Some v \<and> cm_hits (snd (cm_get k d u u' s')) = cm_hits s' + 1
    else fst (cm_get k d u u' s') = d \<and> k \<notin> keys (cm_cache (snd (cm_get k d u u' s'))) \<and>
         cm_misses (snd (cm_get k d u u' s')) = cm_misses s' + 1"
proof -
  have "\<exists>e. map_of (cm_cache s') k = Some e \<and> ce_value e = Some v \<and> ce_created_at e = t \<and> ce_ttl e = Some eff"
    unfolding assms by (simp add: cm_set_def cm_touch_def Let_def split: option.split)
  then show ?thesis
    by (auto simp: cm_get_def cm_touch_def entry_expired_def Let_def evict_unlocked_cache)
qed

theorem cache_set_get_witness:
  "fst (cm_get ''a'' None 7 7 (cm_set ''a'' (Some (1::int)) (Some 10) TTL 0 0 (cm_init 2 100 None))) = Some 1"
  using cache_set_get [OF refl refl, where ttl = "Some 10" and s = "cm_init 2 100 None" and u = 7 and t = 0
      and k = "''a''" and d = None and u' = 7 and v = "1::int" and st = TTL and t' = 0]
  by simp

end
