(* ===== verification/Rate_Limiter.thy ===== *)
theory Rate_Limiter
  imports Interfaces
begin

text \<open>
  The API rate limiter, \<open>src/src/security/rate_limiter.py\<close>: class \<open>RateLimiter\<close> with its five
  sliding-window buckets, the per-depot trigger cooldown, and the background synchronisation with
  the table \<open>rate_limit_state\<close>. Times are \<open>time.time()\<close> readings in seconds. A method that reads the
  clock when it cleans a bucket (\<open>t1\<close>) and again when it records the request (\<open>t2\<close>) takes both
  readings. The table is the dictionary from its primary key to the count and the time of the last
  update; the outcome of a database call is an argument. A flush awaits the database between
  collecting its rows and clearing the dirty set, so it is two definitions.
\<close>

section \<open>Model\<close>

record RateLimitConfig =
  api_requests_per_minute :: int
  admin_write_requests_per_minute :: int
  optimize_requests_per_minute :: int
  agent_requests_per_minute :: int
  handoff_messages_per_hour :: int
  trigger_optimization_cooldown_seconds :: int
  sync_interval_seconds :: pyfloat
  merge_interval_seconds :: pyfloat
  cleanup_interval_seconds :: pyfloat

definition default_config :: RateLimitConfig where
  "default_config =
     \<lparr>api_requests_per_minute = 100, admin_write_requests_per_minute = 1200,
      optimize_requests_per_minute = 10, agent_requests_per_minute = 10,
      handoff_messages_per_hour = 50, trigger_optimization_cooldown_seconds = 300,
      sync_interval_seconds = 15, merge_interval_seconds = 60, cleanup_interval_seconds = 300\<rparr>"

record RateLimitResult =
  rr_allowed :: bool
  rr_limit :: int
  rr_remaining :: int
  rr_reset_at :: pyfloat

type_synonym 'k buckets = "('k, pyfloat list) pydict"

record RateLimiter =
  rl_config :: RateLimitConfig
  rl_has_pool :: bool
  rl_api :: "string buckets"
  rl_admin_write :: "string buckets"
  rl_optimize :: "string buckets"
  rl_agent :: "string buckets"
  rl_handoff :: "(string \<times> string) buckets"
  rl_last_trigger :: "(string, pyfloat) pydict"
  rl_dirty :: "(string \<times> string) set"
  rl_ticks :: int
  rl_running :: bool

definition rl_init :: "RateLimitConfig \<Rightarrow> bool \<Rightarrow> RateLimiter" where
  "rl_init cfg pool =
     \<lparr>rl_config = cfg, rl_has_pool = pool, rl_api = [], rl_admin_write = [], rl_optimize = [],
      rl_agent = [], rl_handoff = [], rl_last_trigger = [], rl_dirty = {}, rl_ticks = 0,
      rl_running = False\<rparr>"

definition bucket_of :: "'k buckets \<Rightarrow> 'k \<Rightarrow> pyfloat list" where
  "bucket_of d k = (case map_of d k of None \<Rightarrow> [] | Some b \<Rightarrow> b)"

definition mark_dirty :: "string \<Rightarrow> string \<Rightarrow> RateLimiter \<Rightarrow> RateLimiter" where
  "mark_dirty bucket_type bucket_key s = s\<lparr>rl_dirty := insert (bucket_type, bucket_key) (rl_dirty s)\<rparr>"

definition clean_bucket :: "pyfloat list \<Rightarrow> int \<Rightarrow> pyfloat \<Rightarrow> pyfloat list" where
  "clean_bucket b window_seconds now = filter (\<lambda>t. now - of_int window_seconds < t) b"

definition make_result :: "bool \<Rightarrow> pyfloat list \<Rightarrow> int \<Rightarrow> int \<Rightarrow> pyfloat \<Rightarrow> RateLimitResult" where
  "make_result allowed b limit window_seconds now =
     \<lparr>rr_allowed = allowed, rr_limit = limit,
      rr_remaining = max 0 (limit - int (length b)),
      rr_reset_at = (case b of [] \<Rightarrow> now + of_int window_seconds | t # _ \<Rightarrow> t + of_int window_seconds)\<rparr>"

definition check_api_limit ::
  "string \<Rightarrow> pyfloat \<Rightarrow> pyfloat \<Rightarrow> RateLimiter \<Rightarrow> RateLimitResult \<times> RateLimiter" where
  "check_api_limit client_id t1 t2 s =
     (let limit = api_requests_per_minute (rl_config s);
          b = clean_bucket (bucket_of (rl_api s) client_id) 60 t1;
          s1 = s\<lparr>rl_api := AList.update client_id b (rl_api s)\<rparr>
      in if int (length b) \<ge> limit then (make_result False b limit 60 t2, s1)
         else let b' = b @ [t2];
                  s2 = mark_dirty ''api'' client_id (s1\<lparr>rl_api := AList.update client_id b' (rl_api s1)\<rparr>)
              in (make_result True b' limit 60 t2, s2))"

definition check_admin_write_limit ::
  "string \<Rightarrow> pyfloat \<Rightarrow> pyfloat \<Rightarrow> RateLimiter \<Rightarrow> RateLimitResult \<times> RateLimiter" where
  "check_admin_write_limit client_id t1 t2 s =
     (let limit = admin_write_requests_per_minute (rl_config s);
          b = clean_bucket (bucket_of (rl_admin_write s) client_id) 60 t1;
          s1 = s\<lparr>rl_admin_write := AList.update client_id b (rl_admin_write s)\<rparr>
      in if int (length b) \<ge> limit then (make_result False b limit 60 t2, s1)
         else let b' = b @ [t2];
                  s2 = mark_dirty ''admin_write'' client_id
                         (s1\<lparr>rl_admin_write := AList.update client_id b' (rl_admin_write s1)\<rparr>)
              in (make_result True b' limit 60 t2, s2))"

definition check_optimize_limit ::
  "string \<Rightarrow> pyfloat \<Rightarrow> pyfloat \<Rightarrow> RateLimiter \<Rightarrow> RateLimitResult \<times> RateLimiter" where
  "check_optimize_limit client_id t1 t2 s =
     (let limit = optimize_requests_per_minute (rl_config s);
          b = clean_bucket (bucket_of (rl_optimize s) client_id) 60 t1;
          s1 = s\<lparr>rl_optimize := AList.update client_id b (rl_optimize s)\<rparr>
      in if int (length b) \<ge> limit then (make_result False b limit 60 t2, s1)
         else let b' = b @ [t2];
                  s2 = mark_dirty ''optimize'' client_id
                         (s1\<lparr>rl_optimize := AList.update client_id b' (rl_optimize s1)\<rparr>)
              in (make_result True b' limit 60 t2, s2))"

definition check_agent_limit ::
  "string \<Rightarrow> pyfloat \<Rightarrow> pyfloat \<Rightarrow> RateLimiter \<Rightarrow> RateLimitResult \<times> RateLimiter" where
  "check_agent_limit client_id t1 t2 s =
     (let limit = agent_requests_per_minute (rl_config s);
          b = clean_bucket (bucket_of (rl_agent s) client_id) 60 t1;
          s1 = s\<lparr>rl_agent := AList.update client_id b (rl_agent s)\<rparr>
      in if int (length b) \<ge> limit then (make_result False b limit 60 t2, s1)
         else let b' = b @ [t2];
                  s2 = mark_dirty ''agent'' client_id
                         (s1\<lparr>rl_agent := AList.update client_id b' (rl_agent s1)\<rparr>)
              in (make_result True b' limit 60 t2, s2))"

definition check_trigger_cooldown :: "string \<Rightarrow> pyfloat \<Rightarrow> RateLimiter \<Rightarrow> bool" where
  "check_trigger_cooldown depot_id now s =
     (case map_of (rl_last_trigger s) depot_id of
        None \<Rightarrow> True
      | Some last_time \<Rightarrow>
          \<not> now - last_time < of_int (trigger_optimization_cooldown_seconds (rl_config s)))"

definition record_trigger_optimization :: "string \<Rightarrow> pyfloat \<Rightarrow> RateLimiter \<Rightarrow> RateLimiter" where
  "record_trigger_optimization depot_id now s =
     s\<lparr>rl_last_trigger := AList.update depot_id now (rl_last_trigger s)\<rparr>"

text \<open>\<open>tuple(sorted([a, b]))\<close> and the text key of a pair.\<close>

definition depot_pair :: "string \<Rightarrow> string \<Rightarrow> string \<times> string" where
  "depot_pair a b = (if b < a then (b, a) else (a, b))"

definition pair_key :: "string \<times> string \<Rightarrow> string" where
  "pair_key p = fst p @ '':'' @ snd p"

definition check_handoff_limit ::
  "string \<Rightarrow> string \<Rightarrow> pyfloat \<Rightarrow> pyfloat \<Rightarrow> RateLimiter \<Rightarrow> RateLimitResult \<times> RateLimiter" where
  "check_handoff_limit origin_depot_id dest_depot_id t1 t2 s =
     (let limit = handoff_messages_per_hour (rl_config s);
          p = depot_pair origin_depot_id dest_depot_id;
          b = clean_bucket (bucket_of (rl_handoff s) p) 3600 t1;
          s1 = s\<lparr>rl_handoff := AList.update p b (rl_handoff s)\<rparr>
      in if int (length b) \<ge> limit then (make_result False b limit 3600 t2, s1)
         else let b' = b @ [t2];
                  s2 = mark_dirty ''handoff'' (pair_key p)
                         (s1\<lparr>rl_handoff := AList.update p b' (rl_handoff s1)\<rparr>)
              in (make_result True b' limit 3600 t2, s2))"

section \<open>Synchronisation with the database\<close>

type_synonym flush_row = "string \<times> string \<times> int \<times> int"

text \<open>The table: \<open>(bucket_type, bucket_key, window_start)\<close> to \<open>(request_count, last_updated)\<close>.\<close>

type_synonym rate_table = "((string \<times> string \<times> int) \<times> (int \<times> pyfloat)) list"

definition flush_window_rows ::
  "string \<Rightarrow> int \<Rightarrow> ('k \<Rightarrow> string) \<Rightarrow> (string \<times> string) set \<Rightarrow> pyfloat \<Rightarrow> 'k buckets \<Rightarrow> flush_row list" where
  "flush_window_rows bucket_type w name dirty now d =
     concat (map (\<lambda>(k, timestamps).
       if (bucket_type, name k) \<notin> dirty then []
       else case filter (\<lambda>t. now - of_int w < t) timestamps of
              [] \<Rightarrow> []
            | t # ts \<Rightarrow> [(bucket_type, name k, \<lfloor>t / of_int w\<rfloor> * w, 1 + int (length ts))]) d)"

definition collect_flush_rows :: "pyfloat \<Rightarrow> RateLimiter \<Rightarrow> flush_row list" where
  "collect_flush_rows now s =
     sort_key (\<lambda>(bt, k, ws, n). (bt, k, ws))
       (flush_window_rows ''api'' 60 id (rl_dirty s) now (rl_api s) @
        flush_window_rows ''admin_write'' 60 id (rl_dirty s) now (rl_admin_write s) @
        flush_window_rows ''optimize'' 60 id (rl_dirty s) now (rl_optimize s) @
        flush_window_rows ''agent'' 60 id (rl_dirty s) now (rl_agent s) @
        flush_window_rows ''handoff'' 3600 pair_key (rl_dirty s) now (rl_handoff s))"

definition upsert_row :: "pyfloat \<Rightarrow> rate_table \<Rightarrow> flush_row \<Rightarrow> rate_table" where
  "upsert_row dbnow tab r =
     (case r of (bt, k, ws, n) \<Rightarrow>
        AList.update (bt, k, ws)
          (case map_of tab (bt, k, ws) of None \<Rightarrow> (n, dbnow) | Some (c, _) \<Rightarrow> (max c n, dbnow)) tab)"

text \<open>The first half of \<open>_flush_to_db\<close>: \<open>None\<close> when nothing is sent, with the dirty set cleared.\<close>

definition flush_begin :: "pyfloat \<Rightarrow> RateLimiter \<Rightarrow> flush_row list option \<times> RateLimiter" where
  "flush_begin now s =
     (if \<not> rl_has_pool s then (None, s)
      else case collect_flush_rows now s of
             [] \<Rightarrow> (None, s\<lparr>rl_dirty := {}\<rparr>)
           | r # rs \<Rightarrow> (Some (r # rs), s))"

text \<open>The second half, after \<open>executemany\<close> returned (\<open>ok\<close>) or raised.\<close>

definition flush_end ::
  "bool \<Rightarrow> pyfloat \<Rightarrow> flush_row list \<Rightarrow> RateLimiter \<times> rate_table \<Rightarrow> RateLimiter \<times> rate_table" where
  "flush_end ok dbnow rows st =
     (case st of (s, tab) \<Rightarrow>
        if ok then (s\<lparr>rl_dirty := {}\<rparr>, foldl (upsert_row dbnow) tab rows) else (s, tab))"

definition flush_to_db ::
  "pyfloat \<Rightarrow> bool \<Rightarrow> pyfloat \<Rightarrow> RateLimiter \<times> rate_table \<Rightarrow> RateLimiter \<times> rate_table" where
  "flush_to_db now ok dbnow st =
     (case flush_begin now (fst st) of
        (None, s) \<Rightarrow> (s, snd st)
      | (Some rows, s) \<Rightarrow> flush_end ok dbnow rows (s, snd st))"

definition generate_synthetic_timestamps :: "int \<Rightarrow> int \<Rightarrow> pyfloat \<Rightarrow> pyfloat list" where
  "generate_synthetic_timestamps count window_seconds now =
     (if count \<le> 0 then []
      else let spacing = of_int window_seconds / (of_int count + 1)
           in map (\<lambda>i. now - of_int window_seconds + spacing * (of_nat i + 1)) [0..<nat count])"

definition recent_rows :: "pyfloat \<Rightarrow> rate_table \<Rightarrow> (string \<times> string \<times> int) list" where
  "recent_rows dbnow tab =
     map (\<lambda>((bt, k, ws), (n, u)). (bt, k, n)) (filter (\<lambda>((bt, k, ws), (n, u)). dbnow - 120 < u) tab)"

definition merge_bucket :: "'k \<Rightarrow> int \<Rightarrow> int \<Rightarrow> pyfloat \<Rightarrow> pyfloat \<Rightarrow> 'k buckets \<Rightarrow> 'k buckets" where
  "merge_bucket k remote_count w now t d =
     (let local = clean_bucket (bucket_of d k) w t
      in if remote_count > int (length local)
         then AList.update k (generate_synthetic_timestamps remote_count w now) d else d)"

definition merge_row :: "pyfloat \<Rightarrow> pyfloat \<Rightarrow> RateLimiter \<Rightarrow> string \<times> string \<times> int \<Rightarrow> RateLimiter" where
  "merge_row now t s row =
     (case row of (bt, k, n) \<Rightarrow>
        if bt = ''api'' then s\<lparr>rl_api := merge_bucket k n 60 now t (rl_api s)\<rparr>
        else if bt = ''admin_write'' then s\<lparr>rl_admin_write := merge_bucket k n 60 now t (rl_admin_write s)\<rparr>
        else if bt = ''optimize'' then s\<lparr>rl_optimize := merge_bucket k n 60 now t (rl_optimize s)\<rparr>
        else if bt = ''agent'' then s\<lparr>rl_agent := merge_bucket k n 60 now t (rl_agent s)\<rparr>
        else if bt = ''handoff'' then
          (case split_colon k of
             None \<Rightarrow> s
           | Some p \<Rightarrow> s\<lparr>rl_handoff := merge_bucket p n 3600 now t (rl_handoff s)\<rparr>)
        else s)"

text \<open>\<open>fetched\<close> is \<open>None\<close> when the query raised. The bucket is cleaned at the later reading \<open>t\<close>.\<close>

definition merge_from_db ::
  "pyfloat \<Rightarrow> pyfloat \<Rightarrow> (string \<times> string \<times> int) list option \<Rightarrow> RateLimiter \<Rightarrow> RateLimiter" where
  "merge_from_db now t fetched s =
     (if \<not> rl_has_pool s then s
      else case fetched of None \<Rightarrow> s | Some rows \<Rightarrow> foldl (merge_row now t) s rows)"

definition hydrate_row :: "pyfloat \<Rightarrow> RateLimiter \<Rightarrow> string \<times> string \<times> int \<Rightarrow> RateLimiter" where
  "hydrate_row now s row =
     (case row of (bt, k, n) \<Rightarrow>
        if bt = ''api'' then s\<lparr>rl_api := AList.update k (generate_synthetic_timestamps n 60 now) (rl_api s)\<rparr>
        else if bt = ''admin_write'' then
          s\<lparr>rl_admin_write := AList.update k (generate_synthetic_timestamps n 60 now) (rl_admin_write s)\<rparr>
        else if bt = ''optimize'' then
          s\<lparr>rl_optimize := AList.update k (generate_synthetic_timestamps n 60 now) (rl_optimize s)\<rparr>
        else if bt = ''agent'' then
          s\<lparr>rl_agent := AList.update k (generate_synthetic_timestamps n 60 now) (rl_agent s)\<rparr>
        else if bt = ''handoff'' then
          (case split_colon k of
             None \<Rightarrow> s
           | Some p \<Rightarrow> s\<lparr>rl_handoff := AList.update p (generate_synthetic_timestamps n 3600 now) (rl_handoff s)\<rparr>)
        else s)"

definition hydrate_from_db ::
  "pyfloat \<Rightarrow> (string \<times> string \<times> int) list option \<Rightarrow> RateLimiter \<Rightarrow> RateLimiter" where
  "hydrate_from_db now fetched s =
     (if \<not> rl_has_pool s then s
      else case fetched of None \<Rightarrow> s | Some rows \<Rightarrow> foldl (hydrate_row now) s rows)"

definition cleanup_expired_rows :: "bool \<Rightarrow> pyfloat \<Rightarrow> RateLimiter \<times> rate_table \<Rightarrow> RateLimiter \<times> rate_table" where
  "cleanup_expired_rows ok dbnow st =
     (case st of (s, tab) \<Rightarrow>
        if \<not> rl_has_pool s \<or> \<not> ok then (s, tab)
        else (s, filter (\<lambda>(key, (n, u)). \<not> u < dbnow - 300) tab))"

section \<open>Life cycle and the synchronisation loop\<close>

text \<open>One turn of \<open>_sync_loop\<close> after its sleep. The environment gives the clock, whether each database
  call succeeds, and the time the database sees. A zero \<open>sync_interval_seconds\<close> makes the division
  raise after the flush, and the turn ends there.\<close>

record sync_env =
  se_now :: pyfloat
  se_dbnow :: pyfloat
  se_flush_ok :: bool
  se_fetch_ok :: bool
  se_cleanup_ok :: bool

definition sync_every :: "pyfloat \<Rightarrow> pyfloat \<Rightarrow> int" where
  "sync_every interval sync = max 1 (round_half_even (interval / sync))"

definition sync_tick :: "sync_env \<Rightarrow> RateLimiter \<times> rate_table \<Rightarrow> RateLimiter \<times> rate_table" where
  "sync_tick env st =
     (case st of (s0, tab0) \<Rightarrow>
        if \<not> rl_has_pool s0 then (s0, tab0)
        else
          let s1 = s0\<lparr>rl_ticks := rl_ticks s0 + 1\<rparr>;
              st2 = (if rl_dirty s1 \<noteq> {} then flush_to_db (se_now env) (se_flush_ok env) (se_dbnow env) (s1, tab0)
                     else (s1, tab0));
              cfg = rl_config s1;
              sync = sync_interval_seconds cfg
          in if sync = 0 then st2
             else
               let s3 = (if rl_ticks s1 mod sync_every (merge_interval_seconds cfg) sync = 0
                         then merge_from_db (se_now env) (se_now env)
                                (if se_fetch_ok env then Some (recent_rows (se_dbnow env) (snd st2)) else None) (fst st2)
                         else fst st2)
               in if rl_ticks s1 mod sync_every (cleanup_interval_seconds cfg) sync = 0
                  then cleanup_expired_rows (se_cleanup_ok env) (se_dbnow env) (s3, snd st2)
                  else (s3, snd st2))"

definition rl_start :: "pyfloat \<Rightarrow> (string \<times> string \<times> int) list option \<Rightarrow> RateLimiter \<Rightarrow> RateLimiter" where
  "rl_start now fetched s =
     (if rl_running s then s
      else (if rl_has_pool s then hydrate_from_db now fetched s else s)\<lparr>rl_running := True\<rparr>)"

definition rl_stop ::
  "pyfloat \<Rightarrow> bool \<Rightarrow> pyfloat \<Rightarrow> RateLimiter \<times> rate_table \<Rightarrow> RateLimiter \<times> rate_table" where
  "rl_stop now ok dbnow st =
     (let s = (fst st)\<lparr>rl_running := False\<rparr>
      in if rl_has_pool s then flush_to_db now ok dbnow (s, snd st) else (s, snd st))"

definition reset_in_memory_buckets_for_tests :: "RateLimiter \<Rightarrow> RateLimiter" where
  "reset_in_memory_buckets_for_tests s =
     s\<lparr>rl_api := [], rl_admin_write := [], rl_optimize := [], rl_agent := [], rl_handoff := [],
       rl_last_trigger := [], rl_dirty := {}, rl_ticks := 0\<rparr>"


section \<open>Interleaved operations\<close>

text \<open>The operations of the limiter between two merges of remote counts, with the table: the checks of all clients, the
  recorded triggers, the two halves of a flush, the removal of old rows. The answer is whether a check lets its call through.\<close>

datatype limit_kind = ApiLimit | AdminWriteLimit | OptimizeLimit | AgentLimit

fun check_limit :: "limit_kind \<Rightarrow> string \<Rightarrow> pyfloat \<Rightarrow> pyfloat \<Rightarrow> RateLimiter \<Rightarrow> RateLimitResult \<times> RateLimiter" where
  "check_limit ApiLimit = check_api_limit"
| "check_limit AdminWriteLimit = check_admin_write_limit"
| "check_limit OptimizeLimit = check_optimize_limit"
| "check_limit AgentLimit = check_agent_limit"

datatype limiter_op =
    Check limit_kind string pyfloat pyfloat
  | CheckHandoff string string pyfloat pyfloat
  | RecordTrigger string pyfloat
  | BeginFlush pyfloat
  | EndFlush bool pyfloat "flush_row list"
  | ExpireRows bool pyfloat

fun limiter_step :: "RateLimiter \<times> rate_table \<Rightarrow> limiter_op \<Rightarrow> bool \<times> RateLimiter \<times> rate_table" where
  "limiter_step st (Check kind client t1 t2) =
     (let r = check_limit kind client t1 t2 (fst st) in (rr_allowed (fst r), snd r, snd st))"
| "limiter_step st (CheckHandoff origin dest t1 t2) =
     (let r = check_handoff_limit origin dest t1 t2 (fst st) in (rr_allowed (fst r), snd r, snd st))"
| "limiter_step st (RecordTrigger depot now) = (True, record_trigger_optimization depot now (fst st), snd st)"
| "limiter_step st (BeginFlush now) = (True, snd (flush_begin now (fst st)), snd st)"
| "limiter_step st (EndFlush ok dbnow rows) = (True, flush_end ok dbnow rows st)"
| "limiter_step st (ExpireRows ok dbnow) = (True, cleanup_expired_rows ok dbnow st)"

fun checks_of :: "limit_kind \<Rightarrow> string \<Rightarrow> limiter_op \<Rightarrow> (pyfloat \<times> pyfloat) option" where
  "checks_of kind client (Check kind' client' t1 t2) = (if kind' = kind \<and> client' = client then Some (t1, t2) else None)"
| "checks_of kind client _ = None"

fun handoffs_of :: "string \<times> string \<Rightarrow> limiter_op \<Rightarrow> (pyfloat \<times> pyfloat) option" where
  "handoffs_of p (CheckHandoff origin dest t1 t2) = (if depot_pair origin dest = p then Some (t1, t2) else None)"
| "handoffs_of p _ = None"

section \<open>Lemmas\<close>

fun bucket_in :: "limit_kind \<Rightarrow> string \<Rightarrow> RateLimiter \<Rightarrow> pyfloat list" where
  "bucket_in ApiLimit client s = bucket_of (rl_api s) client"
| "bucket_in AdminWriteLimit client s = bucket_of (rl_admin_write s) client"
| "bucket_in OptimizeLimit client s = bucket_of (rl_optimize s) client"
| "bucket_in AgentLimit client s = bucket_of (rl_agent s) client"

fun limit_in :: "limit_kind \<Rightarrow> RateLimiter \<Rightarrow> int" where
  "limit_in ApiLimit s = api_requests_per_minute (rl_config s)"
| "limit_in AdminWriteLimit s = admin_write_requests_per_minute (rl_config s)"
| "limit_in OptimizeLimit s = optimize_requests_per_minute (rl_config s)"
| "limit_in AgentLimit s = agent_requests_per_minute (rl_config s)"

lemmas check_defs =
  check_api_limit_def check_admin_write_limit_def check_optimize_limit_def check_agent_limit_def
  check_handoff_limit_def make_result_def mark_dirty_def

lemma bucket_of_update [simp, dict_simps]:
  "bucket_of (AList.update k b d) k' = (if k' = k then b else bucket_of d k')"
  by (simp add: bucket_of_def)

lemma bucket_of_Nil [simp]: "bucket_of [] k = []"
  by (simp add: bucket_of_def)

text \<open>What an operation leaves alone.\<close>

lemma check_frame:
  "rl_config (snd (check_limit kind c t1 t2 s)) = rl_config s"
  "rl_handoff (snd (check_limit kind c t1 t2 s)) = rl_handoff s"
  "kind' \<noteq> kind \<or> c' \<noteq> c \<Longrightarrow> bucket_in kind' c' (snd (check_limit kind c t1 t2 s)) = bucket_in kind' c' s"
  by (cases kind; cases kind'; auto simp: check_defs Let_def)+

lemma handoff_frame:
  "rl_config (snd (check_handoff_limit a b t1 t2 s)) = rl_config s"
  "bucket_in kind c (snd (check_handoff_limit a b t1 t2 s)) = bucket_in kind c s"
  by (cases kind; auto simp: check_defs Let_def)+

lemma sync_frame [simp]:
  "rl_config (snd (flush_begin now s)) = rl_config s" "rl_handoff (snd (flush_begin now s)) = rl_handoff s"
  "bucket_in kind c (snd (flush_begin now s)) = bucket_in kind c s"
  "rl_config (fst (flush_end ok dbnow rows st)) = rl_config (fst st)" "rl_handoff (fst (flush_end ok dbnow rows st)) = rl_handoff (fst st)"
  "bucket_in kind c (fst (flush_end ok dbnow rows st)) = bucket_in kind c (fst st)"
  "fst (cleanup_expired_rows ok dbnow st) = fst st"
  by (cases kind; auto simp: flush_begin_def flush_end_def cleanup_expired_rows_def split: list.split prod.split)+

lemma trigger_frame [simp]:
  "bucket_in kind c (record_trigger_optimization d now s) = bucket_in kind c s"
  by (cases kind; simp add: record_trigger_optimization_def)

lemma step_frame:
  "rl_config (fst (snd (limiter_step st e))) = rl_config (fst st)"
  "checks_of kind c e = None \<Longrightarrow> bucket_in kind c (fst (snd (limiter_step st e))) = bucket_in kind c (fst st)"
  "handoffs_of p e = None \<Longrightarrow> bucket_of (rl_handoff (fst (snd (limiter_step st e)))) p = bucket_of (rl_handoff (fst st)) p"
proof -
  show "rl_config (fst (snd (limiter_step st e))) = rl_config (fst st)"
    by (cases e) (simp_all add: Let_def check_frame handoff_frame record_trigger_optimization_def)
  show "bucket_in kind c (fst (snd (limiter_step st e))) = bucket_in kind c (fst st)" if "checks_of kind c e = None"
    using that by (cases e) (auto simp: Let_def check_frame handoff_frame split: if_splits)
  show "bucket_of (rl_handoff (fst (snd (limiter_step st e)))) p = bucket_of (rl_handoff (fst st)) p" if "handoffs_of p e = None"
    using that by (cases e) (auto simp: Let_def check_frame check_handoff_limit_def mark_dirty_def record_trigger_optimization_def split: if_splits)
qed

lemma checks_of_Some: "checks_of kind c e = Some (t1, t2) \<longleftrightarrow> e = Check kind c t1 t2"
  by (cases e) auto

lemma handoffs_of_Some: "handoffs_of p e = Some (t1, t2) \<longleftrightarrow> (\<exists>a b. e = CheckHandoff a b t1 t2 \<and> depot_pair a b = p)"
  by (cases e) auto

interpretation minute: sliding_window limiter_step "checks_of kind c" "\<lambda>st. bucket_in kind c (fst st)" "\<lambda>st. limit_in kind (fst st)" 60
  for kind c
proof unfold_locales
  fix st e and t1 t2 :: pyfloat
  show "limit_in kind (fst (snd (limiter_step st e))) = limit_in kind (fst st)" by (cases kind) (simp_all add: step_frame(1))
  show "checks_of kind c e = None \<Longrightarrow> bucket_in kind c (fst (snd (limiter_step st e))) = bucket_in kind c (fst st)" by (rule step_frame(2))
  show "\<not> fst (limiter_step st e) \<and> bucket_in kind c (fst (snd (limiter_step st e))) = filter (\<lambda>t. t1 - 60 < t) (bucket_in kind c (fst st))"
    if "checks_of kind c e = Some (t1, t2)" "limit_in kind (fst st) \<le> int (length (filter (\<lambda>t. t1 - 60 < t) (bucket_in kind c (fst st))))"
    using that by (cases kind) (auto simp: checks_of_Some check_defs clean_bucket_def Let_def)
  show "fst (limiter_step st e) \<and> bucket_in kind c (fst (snd (limiter_step st e))) = filter (\<lambda>t. t1 - 60 < t) (bucket_in kind c (fst st)) @ [t2]"
    if "checks_of kind c e = Some (t1, t2)" "int (length (filter (\<lambda>t. t1 - 60 < t) (bucket_in kind c (fst st)))) < limit_in kind (fst st)"
    using that by (cases kind) (auto simp: checks_of_Some check_defs clean_bucket_def Let_def)
qed

interpretation handoff: sliding_window limiter_step "handoffs_of p" "\<lambda>st. bucket_of (rl_handoff (fst st)) p"
  "\<lambda>st. handoff_messages_per_hour (rl_config (fst st))" 3600 for p
  by unfold_locales (auto simp: step_frame handoffs_of_Some check_defs clean_bucket_def Let_def)

text \<open>The trigger cooldown as the gate: firing is \<open>record_trigger_optimization\<close>.\<close>

interpretation trigger_cooldown: cooldown_gate "\<lambda>s now. check_trigger_cooldown d now s"
  "\<lambda>s now. record_trigger_optimization d now s" "\<lambda>s. map_of (rl_last_trigger s) d"
  "\<lambda>s. of_int (trigger_optimization_cooldown_seconds (rl_config s))" for d
  by unfold_locales (auto simp: check_trigger_cooldown_def record_trigger_optimization_def not_less)

lemma synthetic_length: "length (generate_synthetic_timestamps n w now) = nat n"
  by (simp add: generate_synthetic_timestamps_def Let_def)

lemma synthetic_in_window:
  assumes "0 < w" and "t \<in> set (generate_synthetic_timestamps n w now)"
  shows "now - of_int w < t \<and> t < now"
proof -
  from assms(2) obtain i where n: "0 < n" and i: "i < nat n"
    and t: "t = now - of_int w + of_int w / (of_int n + 1) * (of_nat i + 1)"
    by (auto simp: generate_synthetic_timestamps_def Let_def split: if_splits)
  have pos: "(0::rat) < of_int w / (of_int n + 1)" using n assms(1) by simp
  have "(of_nat i + 1 :: rat) < of_int n + 1" using i by simp
  then have "of_int w / (of_int n + 1) * (of_nat i + 1) < of_int w / (of_int n + 1) * (of_int n + 1 :: rat)"
    using pos by (rule mult_strict_left_mono)
  also have "\<dots> = of_int w"
    using n by (simp add: add_nonneg_eq_0_iff)
  finally have "of_int w / (of_int n + 1) * (of_nat i + 1) < (of_int w :: rat)" .
  moreover have "(0::rat) < of_int w / (of_int n + 1) * (of_nat i + 1)"
    using pos by (rule mult_pos_pos) simp
  ultimately show ?thesis by (simp add: t del: times_divide_eq_left times_divide_eq_right)
qed

lemma clean_synthetic:
  "0 < w \<Longrightarrow> clean_bucket (generate_synthetic_timestamps n w now) w now = generate_synthetic_timestamps n w now"
  unfolding clean_bucket_def by (rule filter_True) (use synthetic_in_window in blast)

lemma synthetic_sorted: "0 \<le> w \<Longrightarrow> sorted (generate_synthetic_timestamps n w now)"
proof -
  assume "0 \<le> w"
  then have "i \<le> j \<Longrightarrow> of_int w / (of_int n + 1) * (of_nat i + 1 :: rat) \<le> of_int w / (of_int n + 1) * (of_nat j + 1)"
    if "0 < n" for i j
    using that by (intro mult_left_mono) auto
  then show ?thesis
    by (auto simp: generate_synthetic_timestamps_def Let_def sorted_iff_nth_mono)
qed

lemma merge_bucket_count:
  assumes "0 < w"
  shows "int (length (clean_bucket (bucket_of (merge_bucket k n w now now d) k) w now)) =
     max n (int (length (clean_bucket (bucket_of d k) w now)))"
  using assms by (auto simp: merge_bucket_def Let_def clean_synthetic synthetic_length max_def)

lemma merge_bucket_other: "k' \<noteq> k \<Longrightarrow> bucket_of (merge_bucket k n w now t d) k' = bucket_of d k'"
  by (simp add: merge_bucket_def Let_def)

lemma merge_bucket_mono:
  assumes "0 < w"
  shows "length (clean_bucket (bucket_of d k') w now) \<le>
     length (clean_bucket (bucket_of (merge_bucket k n w now now d) k') w now)"
proof (cases "k' = k")
  case True
  have "int (length (clean_bucket (bucket_of d k) w now))
      \<le> int (length (clean_bucket (bucket_of (merge_bucket k n w now now d) k) w now))"
    unfolding merge_bucket_count [OF assms] by simp
  with True show ?thesis by simp
qed (simp add: merge_bucket_other)

definition api_count :: "string \<Rightarrow> pyfloat \<Rightarrow> RateLimiter \<Rightarrow> nat" where
  "api_count c now s = length (clean_bucket (bucket_of (rl_api s) c) 60 now)"

lemma merge_row_api_mono: "api_count c now s \<le> api_count c now (merge_row now now s row)"
  by (auto simp: merge_row_def api_count_def merge_bucket_mono split: prod.split option.split)

lemma merge_row_api_reaches: "n \<le> int (api_count c now (merge_row now now s (''api'', c, n)))"
  using merge_bucket_count [of 60 c n now "rl_api s"] by (simp add: merge_row_def api_count_def)

lemma merge_rows_api:
  "api_count c now s \<le> api_count c now (foldl (merge_row now now) s rows) \<and>
   ((''api'', c, n) \<in> set rows \<longrightarrow> n \<le> int (api_count c now (foldl (merge_row now now) s rows)))"
proof (induction rows arbitrary: s)
  case Nil
  then show ?case by simp
next
  case (Cons r rows)
  let ?s = "merge_row now now s r"
  have step: "api_count c now s \<le> api_count c now ?s" by (rule merge_row_api_mono)
  moreover have "r = (''api'', c, n) \<Longrightarrow> n \<le> int (api_count c now ?s)"
    using merge_row_api_reaches by simp
  ultimately show ?case using Cons.IH [of ?s] by auto
qed

lemma upsert_row_mono:
  "map_of tab key = Some (c, u) \<Longrightarrow> \<exists>c' u'. map_of (upsert_row dbnow tab r) key = Some (c', u') \<and> c \<le> c'"
  by (cases r) (auto simp: upsert_row_def)

lemma upsert_rows_mono:
  "map_of tab key = Some (c, u) \<Longrightarrow>
     \<exists>c' u'. map_of (foldl (upsert_row dbnow) tab rows) key = Some (c', u') \<and> c \<le> c'"
proof (induction rows arbitrary: tab c u)
  case Nil
  then show ?case by simp
next
  case (Cons r rows)
  obtain c1 u1 where "map_of (upsert_row dbnow tab r) key = Some (c1, u1)" "c \<le> c1"
    using upsert_row_mono [OF Cons.prems] by blast
  moreover from Cons.IH [OF this(1)] obtain c2 u2 where
    "map_of (foldl (upsert_row dbnow) (upsert_row dbnow tab r) rows) key = Some (c2, u2)" "c1 \<le> c2" by blast
  ultimately show ?case by (auto intro: order_trans)
qed

lemma upsert_rows_reach:
  "(bt, k, ws, n) \<in> set rows \<Longrightarrow>
     \<exists>c u. map_of (foldl (upsert_row dbnow) tab rows) (bt, k, ws) = Some (c, u) \<and> n \<le> c"
proof (induction rows arbitrary: tab)
  case Nil
  then show ?case by simp
next
  case (Cons r rows)
  show ?case
  proof (cases "r = (bt, k, ws, n)")
    case True
    then have "\<exists>c u. map_of (upsert_row dbnow tab r) (bt, k, ws) = Some (c, u) \<and> n \<le> c"
      by (auto simp: upsert_row_def split: option.split)
    then obtain c u where "map_of (upsert_row dbnow tab r) (bt, k, ws) = Some (c, u)" "n \<le> c" by blast
    from upsert_rows_mono [OF this(1), of dbnow rows] this(2) show ?thesis by (auto intro: order_trans)
  next
    case False
    with Cons show ?thesis by simp
  qed
qed

lemma depot_pair_sym: "depot_pair a b = depot_pair b a"
  by (auto simp: depot_pair_def)

section \<open>Properties\<close>

text \<open>C22: Between two merges of remote counts, in any 60 second window, at most the configured number of a client's requests get
  through, for each of the API, administrative write, optimisation and agent limits: whatever state a start, a hydration or a merge
  has left the limiter in, and however the client's checks interleave with those of other clients and other limits, with
  handoffs, triggers and the two halves of a flush, provided the client's clock readings do not go back. The limiter without a
  database never merges. Over a merge the limit does not hold (\<open>merge_overruns_limit\<close>): the remote count replaces the real
  timestamps by older synthetic ones.\<close>

theorem minute_limits_hold:
  assumes "clock_ok (checks_of kind client) start ops"
  shows "in_window 60 T (admitted limiter_step (checks_of kind client) st ops) \<le>
    nat (case kind of
           ApiLimit \<Rightarrow> api_requests_per_minute (rl_config (fst st))
         | AdminWriteLimit \<Rightarrow> admin_write_requests_per_minute (rl_config (fst st))
         | OptimizeLimit \<Rightarrow> optimize_requests_per_minute (rl_config (fst st))
         | AgentLimit \<Rightarrow> agent_requests_per_minute (rl_config (fst st)))"
  using minute.admitted_never_exceeds [OF assms, of T st] by (cases kind) simp_all

theorem minute_limits_hold_witness:
  "in_window 60 (2::pyfloat)
     (admitted limiter_step (checks_of ApiLimit ''c'') (rl_init (default_config\<lparr>api_requests_per_minute := 1\<rparr>) False, [])
        [Check ApiLimit ''c'' 0 0, Check ApiLimit ''d'' 9 9, Check ApiLimit ''c'' 1 1, Check AgentLimit ''c'' 1 1, Check ApiLimit ''c'' 2 2]) \<le> 1"
  using minute_limits_hold [where start = 0 and kind = ApiLimit and T = 2 and client = "''c''"
      and ops = "[Check ApiLimit ''c'' 0 0, Check ApiLimit ''d'' 9 9, Check ApiLimit ''c'' 1 1, Check AgentLimit ''c'' 1 1, Check ApiLimit ''c'' 2 2]"
      and st = "(rl_init (default_config\<lparr>api_requests_per_minute := 1\<rparr>) False, [])"]
  by (simp add: rl_init_def)

text \<open>A merge makes room: of three requests in one minute all are let through, although the limit is two. The first is
  forgotten when the remote count of two is entered as two synthetic timestamps before it.\<close>

theorem merge_overruns_limit:
  "let first = check_api_limit ''c'' 100 100 (rl_init (default_config\<lparr>api_requests_per_minute := 2\<rparr>) True);
       merged = merge_from_db 100 100 (Some [(''api'', ''c'', 2)]) (snd first);
       second = check_api_limit ''c'' (241 / 2) (241 / 2) merged;
       third = check_api_limit ''c'' (281 / 2) (281 / 2) (snd second)
   in rr_allowed (fst first) \<and> rr_allowed (fst second) \<and> rr_allowed (fst third) \<and> in_window 60 (281 / 2 :: pyfloat) [100, 241 / 2, 281 / 2] = 3"
  by code_simp

text \<open>The handoff limit is per pair of depots whichever way the messages go: between two merges, in any 3600 second
  window, at most \<open>handoff_messages_per_hour\<close> messages between two depots pass, and the two directions
  share one bucket.\<close>

theorem handoff_limit_holds:
  assumes "clock_ok (handoffs_of (depot_pair a b)) start ops"
  shows "in_window 3600 T (admitted limiter_step (handoffs_of (depot_pair a b)) st ops) \<le> nat (handoff_messages_per_hour (rl_config (fst st))) \<and>
     check_handoff_limit a b t u s = check_handoff_limit b a t u s"
  using handoff.admitted_never_exceeds [OF assms, of T st]
  by (simp add: check_handoff_limit_def depot_pair_sym [of a b])

theorem handoff_limit_holds_witness:
  "in_window 3600 (10::pyfloat)
     (admitted limiter_step (handoffs_of (depot_pair ''d1'' ''d2'')) (rl_init default_config False, [])
        [CheckHandoff ''d1'' ''d2'' 0 0, CheckHandoff ''d2'' ''d1'' 5 6]) \<le> 50"
proof -
  have "depot_pair ''d2'' ''d1'' = depot_pair ''d1'' ''d2''" by (rule depot_pair_sym)
  then have "clock_ok (handoffs_of (depot_pair ''d1'' ''d2'')) 0 [CheckHandoff ''d1'' ''d2'' 0 0, CheckHandoff ''d2'' ''d1'' 5 6]" by simp
  note limit = handoff_limit_holds [OF this, of 10 "(rl_init default_config False, [])", THEN conjunct1]
  have "handoff_messages_per_hour (rl_config (fst (rl_init default_config False, [] :: rate_table))) = 50"
    by (simp add: rl_init_def default_config_def)
  with limit show ?thesis by (simp only: nat_numeral)
qed

text \<open>Merging remote counts is conservative: after \<open>_merge_from_db\<close> no client's in-window count is
  lower than before, and it is at least every count fetched for that client (both counted at the
  instant of the merge).\<close>

theorem merge_never_undercounts:
  assumes "rl_has_pool s"
  shows "api_count c now s \<le> api_count c now (merge_from_db now now (Some rows) s) \<and>
     ((''api'', c, n) \<in> set rows \<longrightarrow> n \<le> int (api_count c now (merge_from_db now now (Some rows) s)))"
  using assms merge_rows_api by (simp add: merge_from_db_def)

theorem merge_never_undercounts_witness:
  "3 \<le> int (api_count ''c'' 100 (merge_from_db 100 100 (Some [(''api'', ''c'', 3)]) (rl_init default_config True)))"
  using merge_never_undercounts [where s = "rl_init default_config True" and c = "''c''" and now = 100
      and n = 3 and rows = "[(''api'', ''c'', 3)]"]
  by (simp add: rl_init_def)

text \<open>A successful flush stores, for every collected row, at least that row's count, never lowers a
  count already stored, and leaves nothing dirty; a failed flush changes neither the table nor the
  dirty set, so the rows are collected again at the next tick.\<close>

theorem flush_stores_counts:
  assumes "rl_has_pool s" and "collect_flush_rows now s \<noteq> []"
  shows "flush_to_db now False dbnow (s, tab) = (s, tab) \<and>
     rl_dirty (fst (flush_to_db now True dbnow (s, tab))) = {} \<and>
     ((bt, k, ws, n) \<in> set (collect_flush_rows now s) \<longrightarrow>
        (\<exists>c u. map_of (snd (flush_to_db now True dbnow (s, tab))) (bt, k, ws) = Some (c, u) \<and> n \<le> c)) \<and>
     (map_of tab key = Some (old, u') \<longrightarrow>
        (\<exists>c u. map_of (snd (flush_to_db now True dbnow (s, tab))) key = Some (c, u) \<and> old \<le> c))"
  using assms upsert_rows_reach [of bt k ws n "collect_flush_rows now s" dbnow tab]
    upsert_rows_mono [of tab key old u' dbnow "collect_flush_rows now s"]
  by (auto simp: flush_to_db_def flush_begin_def flush_end_def split: list.split)

theorem flush_stores_counts_witness:
  "rl_dirty (fst (flush_to_db 3 True 3 (snd (check_api_limit ''c'' 1 2 (rl_init default_config True)), []))) = {}"
proof -
  let ?s = "snd (check_api_limit ''c'' 1 2 (rl_init default_config True))"
  have "rl_has_pool ?s" and "collect_flush_rows 3 ?s \<noteq> []"
    by (simp_all add: check_defs clean_bucket_def rl_init_def default_config_def Let_def collect_flush_rows_def
        flush_window_rows_def)
  from flush_stores_counts [OF this, where dbnow = 3 and tab = "[]"] show ?thesis by simp
qed

text \<open>The background synchronisation can lose a dirty mark: a request admitted while a flush is
  waiting for the database marks its bucket dirty, and the flush, once it succeeds, clears that mark
  although the request is in no row it stored.\<close>

theorem flush_loses_concurrent_mark:
  "\<exists>s rows s'.
     flush_begin 3 s = (Some rows, s) \<and> s' = snd (check_api_limit ''b'' 4 4 s) \<and>
     (''api'', ''b'') \<in> rl_dirty s' \<and>
     rl_dirty (fst (flush_end True 5 rows (s', []))) = {} \<and>
     map_of (snd (flush_end True 5 rows (s', []))) (''api'', ''b'', 0) = None"
proof -
  let ?s = "snd (check_api_limit ''a'' 1 2 (rl_init default_config True))"
  let ?rows = "[(''api'', ''a'', 0, 1)]"
  have "flush_begin 3 ?s = (Some ?rows, ?s)"
    by (simp add: flush_begin_def check_defs clean_bucket_def rl_init_def default_config_def Let_def
        collect_flush_rows_def flush_window_rows_def floor_eq_iff)
  moreover have "(''api'', ''b'') \<in> rl_dirty (snd (check_api_limit ''b'' 4 4 ?s))"
    by (simp add: bucket_of_def check_defs clean_bucket_def rl_init_def default_config_def Let_def)
  ultimately show ?thesis
    by (intro exI conjI) (auto simp: flush_end_def upsert_row_def)
qed

text \<open>Per depot, two trigger-induced optimisations recorded by a caller that asks
  \<open>check_trigger_cooldown\<close> first are at least the configured cooldown apart.\<close>

theorem trigger_cooldown_spacing:
  "successively (\<lambda>a b. of_int (trigger_optimization_cooldown_seconds (rl_config s)) \<le> b - a)
     (fire_times (\<lambda>s now. check_trigger_cooldown d now s) (\<lambda>s now. record_trigger_optimization d now s) s ts)"
  by (rule trigger_cooldown.fire_times_spaced)

text \<open>A handoff bucket written to the table under its text key comes back as the same pair of depots
  when the identifiers hold no colon, as UUIDs do not.\<close>

theorem handoff_key_roundtrip:
  assumes "CHR '':'' \<notin> set a" and "CHR '':'' \<notin> set b"
  shows "split_colon (pair_key (depot_pair a b)) = Some (depot_pair a b)"
  using assms by (simp add: pair_key_def depot_pair_def split_colon_join del: append.simps)

theorem handoff_key_roundtrip_witness:
  "split_colon (pair_key (depot_pair ''depot-b'' ''depot-a'')) = Some (depot_pair ''depot-b'' ''depot-a'')"
  by (rule handoff_key_roundtrip) simp_all

end
