(* ===== verification/Resilience.thy ===== *)
theory Resilience
  imports Interfaces
begin

text \<open>
  Fault tolerance of the websocket server: \<open>src/src/websocket_handler/resilience_manager.py\<close>
  (health checks, per-service breakers, bulkheads) and
  \<open>src/src/websocket_handler/enhanced_error_handler.py\<close> (\<open>EnhancedCircuitBreaker\<close>, \<open>Bulkhead\<close>,
  \<open>EnhancedRetryManager\<close>, \<open>ErrorHandler\<close> and the decorators). The protected operation is an outcome,
  an argument: it returned or raised. An exception is its class, with the subclass relation of the
  classes the code names. A method that awaits the operation is two definitions, its guard and its
  completion, so that calls may interleave; the method itself is their composition.
\<close>

section \<open>Model: exceptions and outcomes\<close>

datatype exc_class =
    Exc_Exception | Exc_OSError | Exc_ConnectionError | Exc_TimeoutError | Exc_RuntimeError
  | Exc_ValueError | Exc_AttributeError | Exc_CircuitBreakerOpen | Exc_BulkheadFull | Exc_Other string

text \<open>\<open>asyncio.TimeoutError\<close> is \<open>TimeoutError\<close> and \<open>IOError\<close> is \<open>OSError\<close>.\<close>

fun is_instance :: "exc_class \<Rightarrow> exc_class \<Rightarrow> bool" where
  "is_instance e Exc_Exception = True"
| "is_instance e Exc_OSError = (e \<in> {Exc_OSError, Exc_ConnectionError, Exc_TimeoutError})"
| "is_instance e c = (e = c)"

datatype 'r outcome = Returned 'r | Raised exc_class

section \<open>Model: the resilience manager\<close>

datatype HealthStatus = HEALTHY | DEGRADED | UNHEALTHY | UNKNOWN

datatype BreakerState = CLOSED | OPEN | HALF_OPEN

record RmBreaker =
  rb_failure_count :: int
  rb_last_failure_time :: "dtime option"
  rb_state :: BreakerState
  rb_failure_threshold :: int
  rb_recovery_timeout :: pyfloat

record HealthCheck =
  hc_name :: string
  hc_timeout :: pyfloat
  hc_interval :: pyfloat
  hc_failure_threshold :: int
  hc_recovery_threshold :: int
  hc_enabled :: bool

record ServiceHealth =
  sh_name :: string
  sh_status :: HealthStatus
  sh_last_check :: dtime
  sh_consecutive_failures :: int
  sh_consecutive_successes :: int
  sh_last_error :: "string option"
  sh_response_time_ms :: "pyfloat option"

text \<open>A bulkhead task is registered with whether it is done.\<close>

record ResilienceManager =
  rm_health_checks :: "(string, HealthCheck) pydict"
  rm_service_health :: "(string, ServiceHealth) pydict"
  rm_circuit_breakers :: "(string, RmBreaker) pydict"
  rm_bulkhead_tasks :: "(string, bool) pydict"
  rm_is_running :: bool

definition rm_init :: ResilienceManager where
  "rm_init = \<lparr>rm_health_checks = [], rm_service_health = [], rm_circuit_breakers = [],
     rm_bulkhead_tasks = [], rm_is_running = False\<rparr>"

definition rm_start :: "ResilienceManager \<Rightarrow> ResilienceManager" where
  "rm_start m = (if rm_is_running m then m else m\<lparr>rm_is_running := True\<rparr>)"

text \<open>\<open>stop\<close> cancels the tasks that are not done; a cancelled task is done.\<close>

definition rm_stop :: "ResilienceManager \<Rightarrow> ResilienceManager" where
  "rm_stop m = m\<lparr>rm_is_running := False, rm_bulkhead_tasks := map (\<lambda>(n, d). (n, True)) (rm_bulkhead_tasks m)\<rparr>"

definition add_health_check :: "HealthCheck \<Rightarrow> dtime \<Rightarrow> ResilienceManager \<Rightarrow> ResilienceManager" where
  "add_health_check hc now m =
     m\<lparr>rm_health_checks := AList.update (hc_name hc) hc (rm_health_checks m),
       rm_service_health := AList.update (hc_name hc)
         \<lparr>sh_name = hc_name hc, sh_status = UNKNOWN, sh_last_check = now, sh_consecutive_failures = 0,
          sh_consecutive_successes = 0, sh_last_error = None, sh_response_time_ms = None\<rparr>
         (rm_service_health m)\<rparr>"

definition rm_breaker_init :: "int \<Rightarrow> pyfloat \<Rightarrow> RmBreaker" where
  "rm_breaker_init failure_threshold recovery_timeout =
     \<lparr>rb_failure_count = 0, rb_last_failure_time = None, rb_state = CLOSED,
      rb_failure_threshold = failure_threshold, rb_recovery_timeout = recovery_timeout\<rparr>"

definition rm_add_circuit_breaker :: "string \<Rightarrow> int \<Rightarrow> pyfloat \<Rightarrow> ResilienceManager \<Rightarrow> ResilienceManager" where
  "rm_add_circuit_breaker name failure_threshold recovery_timeout m =
     m\<lparr>rm_circuit_breakers := AList.update name (rm_breaker_init failure_threshold recovery_timeout)
         (rm_circuit_breakers m)\<rparr>"

definition rm_should_attempt_reset :: "dtime \<Rightarrow> RmBreaker \<Rightarrow> bool" where
  "rm_should_attempt_reset now b =
     (case rb_last_failure_time b of
        None \<Rightarrow> True
      | Some t \<Rightarrow> total_seconds (now - t) \<ge> rb_recovery_timeout b)"

text \<open>The breaker's part of \<open>execute_with_resilience\<close> before the operation and after it.\<close>

definition rm_admit :: "RmBreaker \<Rightarrow> dtime \<Rightarrow> bool \<times> RmBreaker" where
  "rm_admit b now =
     (if rb_state b = OPEN then
        if rm_should_attempt_reset now b then (True, b\<lparr>rb_state := HALF_OPEN\<rparr>) else (False, b)
      else (True, b))"

definition rm_record_success :: "RmBreaker \<Rightarrow> RmBreaker" where
  "rm_record_success b =
     (if rb_state b = HALF_OPEN then b\<lparr>rb_state := CLOSED, rb_failure_count := 0\<rparr> else b)"

definition rm_record_failure :: "RmBreaker \<Rightarrow> dtime \<Rightarrow> RmBreaker" where
  "rm_record_failure b now =
     (let b1 = b\<lparr>rb_failure_count := rb_failure_count b + 1, rb_last_failure_time := Some now\<rparr>
      in if rb_failure_count b1 \<ge> rb_failure_threshold b1 then b1\<lparr>rb_state := OPEN\<rparr> else b1)"

definition rm_complete :: "RmBreaker \<Rightarrow> 'r outcome \<Rightarrow> dtime \<Rightarrow> RmBreaker" where
  "rm_complete b r now =
     (case r of Returned _ \<Rightarrow> rm_record_success b | Raised _ \<Rightarrow> rm_record_failure b now)"

text \<open>The whole method: the guard reads the clock at \<open>t1\<close>, the outcome is recorded at \<open>t2\<close>. An
  operation that takes 30 seconds raises \<open>TimeoutError\<close>, which is one of its outcomes.\<close>

definition rm_execute_with_resilience ::
  "string \<Rightarrow> 'r outcome \<Rightarrow> dtime \<Rightarrow> dtime \<Rightarrow> ResilienceManager \<Rightarrow> 'r outcome \<times> ResilienceManager" where
  "rm_execute_with_resilience name op t1 t2 m =
     (case map_of (rm_circuit_breakers m) name of
        None \<Rightarrow> (op, m)
      | Some b \<Rightarrow>
          (case rm_admit b t1 of
             (False, b1) \<Rightarrow> (Raised Exc_CircuitBreakerOpen, m)
           | (True, b1) \<Rightarrow>
               (op, m\<lparr>rm_circuit_breakers :=
                        AList.update name (rm_complete b1 op t2) (rm_circuit_breakers m)\<rparr>)))"

definition bulkhead_enter :: "string \<Rightarrow> ResilienceManager \<Rightarrow> exc_class + ResilienceManager" where
  "bulkhead_enter name m =
     (if map_of (rm_bulkhead_tasks m) name = Some False then Inl Exc_Exception
      else Inr (m\<lparr>rm_bulkhead_tasks := AList.update name False (rm_bulkhead_tasks m)\<rparr>))"

definition bulkhead_leave :: "string \<Rightarrow> ResilienceManager \<Rightarrow> ResilienceManager" where
  "bulkhead_leave name m = m\<lparr>rm_bulkhead_tasks := AList.delete name (rm_bulkhead_tasks m)\<rparr>"

definition execute_in_bulkhead ::
  "string \<Rightarrow> 'r outcome \<Rightarrow> ResilienceManager \<Rightarrow> 'r outcome \<times> ResilienceManager" where
  "execute_in_bulkhead name op m =
     (case bulkhead_enter name m of Inl e \<Rightarrow> (Raised e, m) | Inr m1 \<Rightarrow> (op, bulkhead_leave name m1))"

definition get_service_health :: "string \<Rightarrow> ResilienceManager \<Rightarrow> ServiceHealth option" where
  "get_service_health name m = map_of (rm_service_health m) name"

definition healthy_services :: "ResilienceManager \<Rightarrow> nat" where
  "healthy_services m = length (filter (\<lambda>(n, h). sh_status h = HEALTHY) (rm_service_health m))"

definition overall_status :: "ResilienceManager \<Rightarrow> HealthStatus" where
  "overall_status m =
     (if healthy_services m = 0 then UNHEALTHY
      else if healthy_services m < length (rm_service_health m) then DEGRADED else HEALTHY)"

definition sh_success :: "pyfloat \<Rightarrow> dtime \<Rightarrow> ServiceHealth \<Rightarrow> ServiceHealth" where
  "sh_success response_time now h =
     (let h1 = h\<lparr>sh_consecutive_successes := sh_consecutive_successes h + 1, sh_consecutive_failures := 0,
                 sh_last_check := now, sh_response_time_ms := Some response_time, sh_last_error := None\<rparr>
      in if sh_consecutive_successes h1 \<ge> 2 then h1\<lparr>sh_status := HEALTHY\<rparr> else h1)"

definition sh_failure :: "string \<Rightarrow> dtime \<Rightarrow> ServiceHealth \<Rightarrow> ServiceHealth" where
  "sh_failure err now h =
     (let h1 = h\<lparr>sh_consecutive_failures := sh_consecutive_failures h + 1, sh_consecutive_successes := 0,
                 sh_last_check := now, sh_last_error := Some err\<rparr>
      in if sh_consecutive_failures h1 \<ge> 3 then h1\<lparr>sh_status := UNHEALTHY\<rparr>
         else if sh_consecutive_failures h1 \<ge> 1 then h1\<lparr>sh_status := DEGRADED\<rparr> else h1)"

definition record_health_success :: "string \<Rightarrow> pyfloat \<Rightarrow> dtime \<Rightarrow> ResilienceManager \<Rightarrow> ResilienceManager" where
  "record_health_success name response_time now m =
     (case map_of (rm_service_health m) name of
        None \<Rightarrow> m
      | Some h \<Rightarrow> m\<lparr>rm_service_health := AList.update name (sh_success response_time now h) (rm_service_health m)\<rparr>)"

definition record_health_failure :: "string \<Rightarrow> string \<Rightarrow> dtime \<Rightarrow> ResilienceManager \<Rightarrow> ResilienceManager" where
  "record_health_failure name err now m =
     (case map_of (rm_service_health m) name of
        None \<Rightarrow> m
      | Some h \<Rightarrow> m\<lparr>rm_service_health := AList.update name (sh_failure err now h) (rm_service_health m)\<rparr>)"

text \<open>What a check function did, and when: the start and end readings of the clock in seconds, and
  the time at which the result is recorded.\<close>

datatype check_outcome = CheckReturned bool | CheckTimeout | CheckRaised string

definition run_health_check ::
  "(string \<Rightarrow> check_outcome \<times> pyfloat \<times> pyfloat \<times> dtime) \<Rightarrow> ResilienceManager \<Rightarrow> string \<times> HealthCheck \<Rightarrow> ResilienceManager" where
  "run_health_check env m nc =
     (case nc of (name, hc) \<Rightarrow>
        if \<not> hc_enabled hc then m
        else case env name of (r, start_time, end_time, now) \<Rightarrow>
          (case r of
             CheckReturned True \<Rightarrow> record_health_success name ((end_time - start_time) * 1000) now m
           | CheckReturned False \<Rightarrow> record_health_failure name ''Health check returned False'' now m
           | CheckTimeout \<Rightarrow> record_health_failure name ''Health check timeout'' now m
           | CheckRaised err \<Rightarrow> record_health_failure name err now m))"

definition run_health_checks ::
  "(string \<Rightarrow> check_outcome \<times> pyfloat \<times> pyfloat \<times> dtime) \<Rightarrow> ResilienceManager \<Rightarrow> ResilienceManager" where
  "run_health_checks env m = foldl (run_health_check env) m (rm_health_checks m)"

section \<open>Model: the enhanced circuit breaker\<close>

record CircuitBreakerConfig =
  cc_failure_threshold :: int
  cc_recovery_timeout :: pyfloat
  cc_half_open_max_calls :: int
  cc_expected_exceptions :: "exc_class list"

definition default_breaker_config :: CircuitBreakerConfig where
  "default_breaker_config = \<lparr>cc_failure_threshold = 5, cc_recovery_timeout = 60, cc_half_open_max_calls = 3,
     cc_expected_exceptions = [Exc_Exception]\<rparr>"

record EnhancedCircuitBreaker =
  cb_config :: CircuitBreakerConfig
  cb_state :: BreakerState
  cb_failure_count :: int
  cb_success_count :: int
  cb_last_failure_time :: "dtime option"
  cb_half_open_calls :: int

definition cb_init :: "CircuitBreakerConfig \<Rightarrow> EnhancedCircuitBreaker" where
  "cb_init cfg = \<lparr>cb_config = cfg, cb_state = CLOSED, cb_failure_count = 0, cb_success_count = 0,
     cb_last_failure_time = None, cb_half_open_calls = 0\<rparr>"

definition cb_should_attempt_reset :: "dtime \<Rightarrow> EnhancedCircuitBreaker \<Rightarrow> bool" where
  "cb_should_attempt_reset now b =
     (case cb_last_failure_time b of
        None \<Rightarrow> True
      | Some t \<Rightarrow> total_seconds (now - t) \<ge> cc_recovery_timeout (cb_config b))"

definition cb_half_open_guard :: "dtime \<Rightarrow> EnhancedCircuitBreaker \<Rightarrow> bool \<times> EnhancedCircuitBreaker" where
  "cb_half_open_guard now b =
     (if cb_state b = HALF_OPEN then
        if cb_half_open_calls b \<ge> cc_half_open_max_calls (cb_config b)
        then (False, b\<lparr>cb_state := OPEN, cb_last_failure_time := Some now\<rparr>)
        else (True, b\<lparr>cb_half_open_calls := cb_half_open_calls b + 1\<rparr>)
      else (True, b))"

definition cb_admit :: "EnhancedCircuitBreaker \<Rightarrow> dtime \<Rightarrow> bool \<times> EnhancedCircuitBreaker" where
  "cb_admit b now =
     (if cb_state b = OPEN then
        if cb_should_attempt_reset now b
        then cb_half_open_guard now (b\<lparr>cb_state := HALF_OPEN, cb_half_open_calls := 0\<rparr>)
        else (False, b)
      else cb_half_open_guard now b)"

definition cb_on_success :: "EnhancedCircuitBreaker \<Rightarrow> EnhancedCircuitBreaker" where
  "cb_on_success b =
     (let b1 = b\<lparr>cb_failure_count := 0, cb_success_count := cb_success_count b + 1\<rparr>
      in if cb_state b1 = HALF_OPEN then b1\<lparr>cb_state := CLOSED, cb_half_open_calls := 0\<rparr> else b1)"

definition cb_on_failure :: "EnhancedCircuitBreaker \<Rightarrow> dtime \<Rightarrow> EnhancedCircuitBreaker" where
  "cb_on_failure b now =
     (let b1 = b\<lparr>cb_failure_count := cb_failure_count b + 1, cb_success_count := 0,
                 cb_last_failure_time := Some now\<rparr>
      in if cb_failure_count b1 \<ge> cc_failure_threshold (cb_config b1) then b1\<lparr>cb_state := OPEN\<rparr> else b1)"

definition cb_expected :: "EnhancedCircuitBreaker \<Rightarrow> exc_class \<Rightarrow> bool" where
  "cb_expected b e = list_ex (is_instance e) (cc_expected_exceptions (cb_config b))"

definition cb_complete :: "EnhancedCircuitBreaker \<Rightarrow> 'r outcome \<Rightarrow> dtime \<Rightarrow> EnhancedCircuitBreaker" where
  "cb_complete b r now =
     (case r of
        Returned _ \<Rightarrow> cb_on_success b
      | Raised e \<Rightarrow> if cb_expected b e then cb_on_failure b now else b)"

definition cb_call ::
  "'r outcome \<Rightarrow> dtime \<Rightarrow> dtime \<Rightarrow> EnhancedCircuitBreaker \<Rightarrow> 'r outcome \<times> EnhancedCircuitBreaker" where
  "cb_call op t1 t2 b =
     (case cb_admit b t1 of
        (False, b1) \<Rightarrow> (Raised Exc_CircuitBreakerOpen, b1)
      | (True, b1) \<Rightarrow> (op, cb_complete b1 op t2))"

section \<open>Model: bulkhead, retry, error handler\<close>

record BulkheadConfig =
  bc_max_concurrent :: int
  bc_queue_size :: int
  bc_timeout :: pyfloat

definition default_bulkhead_config :: BulkheadConfig where
  "default_bulkhead_config = \<lparr>bc_max_concurrent = 10, bc_queue_size = 100, bc_timeout = 30\<rparr>"

text \<open>The bulkhead: free permits of the semaphore, the tasks inside the \<open>async with\<close>, and the
  dictionary of the active tasks (with whether each is done).\<close>

record Bulkhead =
  bh_config :: BulkheadConfig
  bh_permits :: int
  bh_running :: "string list"
  bh_active_tasks :: "(string, bool) pydict"

definition bh_init :: "BulkheadConfig \<Rightarrow> Bulkhead" where
  "bh_init cfg = \<lparr>bh_config = cfg, bh_permits = bc_max_concurrent cfg, bh_running = [], bh_active_tasks = []\<rparr>"

definition bh_busy :: "string \<Rightarrow> Bulkhead \<Rightarrow> bool" where
  "bh_busy task_id b \<longleftrightarrow> map_of (bh_active_tasks b) task_id = Some False"

text \<open>\<open>None\<close>: the semaphore has no permit, the caller keeps waiting.\<close>

definition bh_acquire :: "string \<Rightarrow> Bulkhead \<Rightarrow> Bulkhead option" where
  "bh_acquire task_id b =
     (if bh_permits b \<le> 0 then None
      else Some (b\<lparr>bh_permits := bh_permits b - 1, bh_running := task_id # bh_running b,
                   bh_active_tasks := AList.update task_id False (bh_active_tasks b)\<rparr>))"

definition bh_release :: "string \<Rightarrow> Bulkhead \<Rightarrow> Bulkhead" where
  "bh_release task_id b =
     (if task_id \<notin> set (bh_running b) then b
      else b\<lparr>bh_permits := bh_permits b + 1, bh_running := remove1 task_id (bh_running b),
             bh_active_tasks := AList.delete task_id (bh_active_tasks b)\<rparr>)"

definition bh_execute :: "string \<Rightarrow> 'r outcome \<Rightarrow> Bulkhead \<Rightarrow> ('r outcome \<times> Bulkhead) option" where
  "bh_execute task_id op b =
     (if bh_busy task_id b then Some (Raised Exc_BulkheadFull, b)
      else case bh_acquire task_id b of None \<Rightarrow> None | Some b1 \<Rightarrow> Some (op, bh_release task_id b1))"

record RetryConfig =
  rc_max_attempts :: int
  rc_base_delay :: pyfloat
  rc_max_delay :: pyfloat
  rc_exponential_base :: pyfloat
  rc_jitter :: bool
  rc_retryable_exceptions :: "exc_class list"

definition default_retry_config :: RetryConfig where
  "default_retry_config = \<lparr>rc_max_attempts = 3, rc_base_delay = 1, rc_max_delay = 60, rc_exponential_base = 2,
     rc_jitter = True,
     rc_retryable_exceptions = [Exc_ConnectionError, Exc_TimeoutError, Exc_TimeoutError, Exc_OSError, Exc_OSError,
       Exc_RuntimeError]\<rparr>"

definition retryable :: "RetryConfig \<Rightarrow> exc_class \<Rightarrow> bool" where
  "retryable cfg e = list_ex (is_instance e) (rc_retryable_exceptions cfg)"

text \<open>The delay before the next attempt, in exact arithmetic: the code's power is one of floats and raises an
  \<open>OverflowError\<close> once it leaves their range (for the base 2 at attempt 1024), which is not modelled.\<close>

definition retry_delay :: "RetryConfig \<Rightarrow> pyfloat \<Rightarrow> nat \<Rightarrow> pyfloat" where
  "retry_delay cfg rnd attempt =
     (let delay = min (rc_base_delay cfg * rc_exponential_base cfg ^ attempt) (rc_max_delay cfg)
      in if rc_jitter cfg then delay * (1 / 2 + rnd * (1 / 2)) else delay)"

text \<open>The loop from \<open>attempt\<close> with \<open>left\<close> iterations of the range to go: \<open>f\<close> gives the outcome of the
  attempt and \<open>rnd\<close> its \<open>random.random()\<close>. The result is the outcome, \<open>None\<close> when the loop falls
  through, and the delays slept.\<close>

fun retry_loop ::
  "RetryConfig \<Rightarrow> (nat \<Rightarrow> pyfloat) \<Rightarrow> (nat \<Rightarrow> 'r outcome) \<Rightarrow> nat \<Rightarrow> nat \<Rightarrow> 'r outcome option \<times> pyfloat list" where
  "retry_loop cfg rnd f attempt 0 = (None, [])"
| "retry_loop cfg rnd f attempt (Suc left) =
     (case f attempt of
        Returned v \<Rightarrow> (Some (Returned v), [])
      | Raised e \<Rightarrow>
          if \<not> retryable cfg e then (Some (Raised e), [])
          else if int attempt = rc_max_attempts cfg - 1 then (Some (Raised e), [])
          else let r = retry_loop cfg rnd f (Suc attempt) left
               in (fst r, retry_delay cfg (rnd attempt) attempt # snd r))"

definition execute_with_retry ::
  "RetryConfig \<Rightarrow> (nat \<Rightarrow> pyfloat) \<Rightarrow> (nat \<Rightarrow> 'r outcome) \<Rightarrow> 'r outcome option \<times> pyfloat list" where
  "execute_with_retry cfg rnd f = retry_loop cfg rnd f 0 (nat (rc_max_attempts cfg))"

text \<open>The value an operation returns: a dictionary with a status and possibly a \<open>statusInfo\<close>, or
  anything else.\<close>

datatype status_info = NoStatusInfo | NullStatusInfo | StatusInfo "string option"

datatype op_value = OpDict "string option" status_info | OpOther string

fun invoke_check :: "bool \<Rightarrow> op_value outcome \<Rightarrow> op_value outcome" where
  "invoke_check treat (Raised e) = Raised e"
| "invoke_check treat (Returned (OpOther v)) = Returned (OpOther v)"
| "invoke_check treat (Returned (OpDict status info)) =
     (if treat \<and> status \<noteq> None \<and> status \<noteq> Some ''Accepted'' then
        (if info = NullStatusInfo then Raised Exc_AttributeError else Raised Exc_RuntimeError)
      else Returned (OpDict status info))"

record ErrorHandler =
  eh_circuit_breakers :: "(string, EnhancedCircuitBreaker) pydict"
  eh_bulkheads :: "(string, Bulkhead) pydict"
  eh_retry_config :: RetryConfig

definition eh_init :: ErrorHandler where
  "eh_init = \<lparr>eh_circuit_breakers = [], eh_bulkheads = [], eh_retry_config = default_retry_config\<rparr>"

definition eh_add_circuit_breaker :: "string \<Rightarrow> CircuitBreakerConfig \<Rightarrow> ErrorHandler \<Rightarrow> ErrorHandler" where
  "eh_add_circuit_breaker name cfg h =
     h\<lparr>eh_circuit_breakers := AList.update name (cb_init cfg) (eh_circuit_breakers h)\<rparr>"

definition eh_add_bulkhead :: "string \<Rightarrow> BulkheadConfig \<Rightarrow> ErrorHandler \<Rightarrow> ErrorHandler" where
  "eh_add_bulkhead name cfg h = h\<lparr>eh_bulkheads := AList.update name (bh_init cfg) (eh_bulkheads h)\<rparr>"

text \<open>\<open>execute_with_resilience\<close>: the first of bulkhead, breaker and retry that applies. An empty name
  is falsy. \<open>f n\<close> is the outcome of the \<open>n\<close>-th invocation. \<open>None\<close> as the whole result: the bulkhead has
  no permit and the call waits; \<open>None\<close> as the outcome: the retry loop fell through.\<close>

definition eh_execute_with_resilience ::
  "string option \<Rightarrow> string option \<Rightarrow> RetryConfig option \<Rightarrow> bool \<Rightarrow> string \<Rightarrow> (nat \<Rightarrow> op_value outcome) \<Rightarrow>
     (nat \<Rightarrow> pyfloat) \<Rightarrow> dtime \<Rightarrow> dtime \<Rightarrow> ErrorHandler \<Rightarrow> (op_value outcome option \<times> ErrorHandler) option" where
  "eh_execute_with_resilience breaker bulkhead retry treat task_id f rnd t1 t2 h =
     (let inv = (\<lambda>n. invoke_check treat (f n));
          bh = (case bulkhead of None \<Rightarrow> None | Some n \<Rightarrow> if n = '''' then None
                  else map_option (Pair n) (map_of (eh_bulkheads h) n));
          cb = (case breaker of None \<Rightarrow> None | Some n \<Rightarrow> if n = '''' then None
                  else map_option (Pair n) (map_of (eh_circuit_breakers h) n))
      in case bh of
           Some (n, b) \<Rightarrow>
             (case bh_execute task_id (inv 0) b of
                None \<Rightarrow> None
              | Some (r, b1) \<Rightarrow> Some (Some r, h\<lparr>eh_bulkheads := AList.update n b1 (eh_bulkheads h)\<rparr>))
         | None \<Rightarrow>
             (case cb of
                Some (n, b) \<Rightarrow>
                  (case cb_call (inv 0) t1 t2 b of
                     (r, b1) \<Rightarrow> Some (Some r, h\<lparr>eh_circuit_breakers := AList.update n b1 (eh_circuit_breakers h)\<rparr>))
              | None \<Rightarrow>
                  Some (fst (execute_with_retry (case retry of None \<Rightarrow> eh_retry_config h | Some c \<Rightarrow> c) rnd inv), h)))"

record breaker_status =
  bs_state :: BreakerState
  bs_failure_count :: int
  bs_success_count :: int
  bs_last_failure_time :: "dtime option"
  bs_half_open_calls :: int

definition get_circuit_breaker_status :: "string \<Rightarrow> ErrorHandler \<Rightarrow> breaker_status option" where
  "get_circuit_breaker_status name h =
     map_option (\<lambda>cb. \<lparr>bs_state = cb_state cb, bs_failure_count = cb_failure_count cb,
        bs_success_count = cb_success_count cb, bs_last_failure_time = cb_last_failure_time cb,
        bs_half_open_calls = cb_half_open_calls cb\<rparr>) (map_of (eh_circuit_breakers h) name)"

definition get_bulkhead_active :: "string \<Rightarrow> ErrorHandler \<Rightarrow> (nat \<times> int) option" where
  "get_bulkhead_active name h =
     map_option (\<lambda>b. (length (bh_active_tasks b), bc_max_concurrent (bh_config b))) (map_of (eh_bulkheads h) name)"

text \<open>The wrapper a decorator installs builds a new \<open>ErrorHandler\<close> at every call.\<close>

definition with_circuit_breaker ::
  "string \<Rightarrow> CircuitBreakerConfig option \<Rightarrow> string \<Rightarrow> (nat \<Rightarrow> op_value outcome) \<Rightarrow> (nat \<Rightarrow> pyfloat) \<Rightarrow> dtime \<Rightarrow> dtime \<Rightarrow>
     op_value outcome option option" where
  "with_circuit_breaker name cfg task_id f rnd t1 t2 =
     (let h = (if name \<notin> keys (eh_circuit_breakers eh_init)
               then eh_add_circuit_breaker name (case cfg of None \<Rightarrow> default_breaker_config | Some c \<Rightarrow> c) eh_init
               else eh_init)
      in map_option fst (eh_execute_with_resilience (Some name) None None True task_id f rnd t1 t2 h))"

definition with_retry ::
  "RetryConfig option \<Rightarrow> string \<Rightarrow> (nat \<Rightarrow> op_value outcome) \<Rightarrow> (nat \<Rightarrow> pyfloat) \<Rightarrow> dtime \<Rightarrow> dtime \<Rightarrow>
     op_value outcome option option" where
  "with_retry cfg task_id f rnd t1 t2 =
     map_option fst (eh_execute_with_resilience None None cfg True task_id f rnd t1 t2 eh_init)"

definition with_bulkhead ::
  "string \<Rightarrow> BulkheadConfig option \<Rightarrow> string \<Rightarrow> (nat \<Rightarrow> op_value outcome) \<Rightarrow> (nat \<Rightarrow> pyfloat) \<Rightarrow> dtime \<Rightarrow> dtime \<Rightarrow>
     op_value outcome option option" where
  "with_bulkhead name cfg task_id f rnd t1 t2 =
     (let h = (if name \<notin> keys (eh_bulkheads eh_init)
               then eh_add_bulkhead name (case cfg of None \<Rightarrow> default_bulkhead_config | Some c \<Rightarrow> c) eh_init
               else eh_init)
      in map_option fst (eh_execute_with_resilience None (Some name) None True task_id f rnd t1 t2 h))"

section \<open>Lemmas\<close>

definition outcome_failed :: "'r outcome \<Rightarrow> bool" where
  "outcome_failed r = (case r of Returned _ \<Rightarrow> False | Raised _ \<Rightarrow> True)"

definition cb_failed :: "EnhancedCircuitBreaker \<Rightarrow> 'r outcome \<Rightarrow> bool" where
  "cb_failed b r = (case r of Returned _ \<Rightarrow> False | Raised e \<Rightarrow> cb_expected b e)"

lemmas rm_breaker_defs =
  rm_admit_def rm_complete_def rm_record_success_def rm_record_failure_def rm_should_attempt_reset_def
  rm_breaker_init_def Let_def

lemmas cb_defs =
  cb_admit_def cb_complete_def cb_on_success_def cb_on_failure_def cb_should_attempt_reset_def
  cb_half_open_guard_def cb_failed_def Let_def

interpretation rm_breaker: circuit_breaker rm_admit rm_complete "\<lambda>_. outcome_failed" "\<lambda>b. rb_state b = OPEN"
  rb_failure_count rb_last_failure_time rb_failure_threshold rb_recovery_timeout
  by unfold_locales (auto simp: rm_breaker_defs outcome_failed_def fun_eq_iff split: outcome.splits)

lemma cb_expected_config: "cb_config b' = cb_config b \<Longrightarrow> cb_expected b' = cb_expected b"
  by (simp add: cb_expected_def fun_eq_iff)

lemma cb_complete_config: "cb_config (cb_complete b r now) = cb_config b"
  by (simp add: cb_defs split: outcome.split)

interpretation cb_breaker: circuit_breaker cb_admit cb_complete cb_failed "\<lambda>b. cb_state b = OPEN"
  cb_failure_count cb_last_failure_time "\<lambda>b. cc_failure_threshold (cb_config b)" "\<lambda>b. cc_recovery_timeout (cb_config b)"
proof unfold_locales
  fix b :: EnhancedCircuitBreaker and r :: "'r outcome" and now
  show "cb_failed (cb_complete b r now) = (cb_failed b :: 'r outcome \<Rightarrow> bool)"
    using cb_expected_config [OF cb_complete_config, of b r now] by (auto simp: cb_failed_def fun_eq_iff split: outcome.split)
qed (auto simp: cb_defs split: outcome.splits if_splits)

text \<open>Only guards, no completions: from a half-open breaker with \<open>k\<close> probes let through.\<close>

lemma admissions_half_open:
  assumes "cb_state b = HALF_OPEN" and "sorted (t # ts)"
    and "\<And>u. u \<in> set ts \<Longrightarrow> total_seconds (u - t) < cc_recovery_timeout (cb_config b)"
  shows "int (length (admissions cb_admit cb_complete b (map Admit ts :: 'r outcome breaker_event list)))
     \<le> max 0 (cc_half_open_max_calls (cb_config b) - cb_half_open_calls b)"
  using assms
proof (induction ts arbitrary: b)
  case Nil
  then show ?case by simp
next
  case (Cons u us)
  have us: "total_seconds (v - t) < cc_recovery_timeout (cb_config b)" if "v \<in> set us" for v
    using Cons.prems(3) that by simp
  show ?case
  proof (cases "cb_half_open_calls b \<ge> cc_half_open_max_calls (cb_config b)")
    case True
    let ?b = "b\<lparr>cb_state := OPEN, cb_last_failure_time := Some u\<rparr>"
    have adm: "cb_admit b u = (False, ?b)" using Cons.prems(1) True by (simp add: cb_defs)
    have "u \<le> v \<and> total_seconds (v - u) < cc_recovery_timeout (cb_config ?b)" if "v \<in> set us" for v
    proof -
      have "t \<le> u" "u \<le> v" using Cons.prems(2) that by auto
      moreover have "total_seconds (v - u) \<le> total_seconds (v - t)" using \<open>t \<le> u\<close> by (simp add: total_seconds_mono)
      ultimately show ?thesis using us [OF that] by simp
    qed
    then have "admissions cb_admit cb_complete ?b (map Admit us :: 'r outcome breaker_event list) = []"
      by (intro cb_breaker.open_stays_silent [where t = u]) auto
    with adm show ?thesis by simp
  next
    case False
    let ?b = "b\<lparr>cb_half_open_calls := cb_half_open_calls b + 1\<rparr>"
    have adm: "cb_admit b u = (True, ?b)" using Cons.prems(1) False by (simp add: cb_defs)
    have "int (length (admissions cb_admit cb_complete ?b (map Admit us :: 'r outcome breaker_event list)))
        \<le> max 0 (cc_half_open_max_calls (cb_config ?b) - cb_half_open_calls ?b)"
      using Cons.prems us by (intro Cons.IH) auto
    with adm False show ?thesis by simp
  qed
qed

text \<open>The longest run of failures in a list of outcomes.\<close>

fun streak :: "bool list \<Rightarrow> int \<Rightarrow> int \<Rightarrow> bool" where
  "streak [] k n = False"
| "streak (f # fs) k n = (if f then k + 1 \<ge> n \<or> streak fs (k + 1) n else streak fs 0 n)"

lemma streak_iff:
  assumes "0 \<le> k" and "k < n"
  shows "streak fs k n \<longleftrightarrow>
     (\<exists>ys. fs = replicate (nat (n - k)) True @ ys) \<or> (\<exists>xs ys. fs = xs @ replicate (nat n) True @ ys)"
  using assms
proof (induction fs arbitrary: k)
  case Nil
  then show ?case by simp
next
  case (Cons f fs)
  have pos: "nat (n - k) = Suc (nat (n - (k + 1)))" and npos: "nat n = Suc (nat (n - 1))"
    using Cons.prems by simp_all
  have long: "(\<exists>xs ys. f # fs = xs @ replicate (nat n) True @ ys) \<longleftrightarrow>
      (f \<and> (\<exists>ys. fs = replicate (nat (n - 1)) True @ ys)) \<or> (\<exists>xs ys. fs = xs @ replicate (nat n) True @ ys)"
    (is "?L \<longleftrightarrow> ?R1 \<or> ?R2")
  proof
    assume ?L
    then obtain xs ys where e: "f # fs = xs @ replicate (nat n) True @ ys" by blast
    show "?R1 \<or> ?R2"
    proof (cases xs)
      case Nil
      then show ?thesis using e npos by auto
    next
      case (Cons x xs')
      then show ?thesis using e by auto
    qed
  next
    assume "?R1 \<or> ?R2"
    then show ?L
    proof
      assume ?R1
      then obtain ys where "fs = replicate (nat (n - 1)) True @ ys" "f" by blast
      then have "f # fs = [] @ replicate (nat n) True @ ys" using npos by simp
      then show ?L by blast
    next
      assume ?R2
      then obtain xs ys where "fs = xs @ replicate (nat n) True @ ys" by blast
      then have "f # fs = (f # xs) @ replicate (nat n) True @ ys" by simp
      then show ?L by blast
    qed
  qed
  show ?case
  proof (cases f)
    case False
    have "streak fs 0 n \<longleftrightarrow> (\<exists>xs ys. fs = xs @ replicate (nat n) True @ ys)"
      using Cons.IH [of 0] Cons.prems by (auto intro: exI [where x = "[]"])
    with False long pos show ?thesis by auto
  next
    case True
    show ?thesis
    proof (cases "k + 1 \<ge> n")
      case stop: True
      with pos True have "\<exists>ys. f # fs = replicate (nat (n - k)) True @ ys" by simp
      with True stop show ?thesis by auto
    next
      case go: False
      have IH: "streak fs (k + 1) n \<longleftrightarrow> (\<exists>ys. fs = replicate (nat (n - (k + 1))) True @ ys) \<or>
          (\<exists>xs ys. fs = xs @ replicate (nat n) True @ ys)"
        using Cons.IH [of "k + 1"] Cons.prems go by simp
      have "nat (n - 1) = nat (n - (k + 1)) + nat k" using Cons.prems go by simp
      then have "(\<exists>ys. fs = replicate (nat (n - 1)) True @ ys) \<Longrightarrow> (\<exists>ys. fs = replicate (nat (n - (k + 1))) True @ ys)"
        by (auto simp: replicate_add)
      with IH True go pos long show ?thesis by auto
    qed
  qed
qed

lemma cb_completions_streak:
  assumes "cb_state b = CLOSED" and "0 \<le> cb_failure_count b" and "cb_failure_count b < cc_failure_threshold (cb_config b)"
    and "\<forall>(r, t) \<in> set fs. \<forall>e. r = Raised e \<longrightarrow> cb_expected b e"
  shows "cb_state (foldl (\<lambda>b (r, t). cb_complete b r t) b fs) = OPEN \<longleftrightarrow>
     streak (map (outcome_failed \<circ> fst) fs) (cb_failure_count b) (cc_failure_threshold (cb_config b))"
  using assms
proof (induction fs arbitrary: b)
  case Nil
  then show ?case by simp
next
  case (Cons f fs)
  obtain r t where f: "f = (r, t)" by (cases f)
  let ?b = "cb_complete b r t"
  have rest: "\<forall>(r, t) \<in> set fs. \<forall>e. r = Raised e \<longrightarrow> cb_expected ?b e"
    using Cons.prems(4) cb_expected_config [OF cb_complete_config, of b r t] by auto
  show ?case
  proof (cases r)
    case (Returned v)
    have "cb_state ?b = CLOSED" "cb_failure_count ?b = 0" "cb_config ?b = cb_config b"
      using Cons.prems(1) Returned by (simp_all add: cb_defs)
    with Cons.IH [of ?b] rest Returned f Cons.prems(2,3) show ?thesis by (simp add: outcome_failed_def)
  next
    case (Raised e)
    then have ex: "cb_expected b e" using Cons.prems(4) f by simp
    show ?thesis
    proof (cases "cc_failure_threshold (cb_config b) \<le> cb_failure_count b + 1")
      case True
      then have "cb_state ?b = OPEN" using Raised ex by (simp add: cb_defs)
      from cb_breaker.open_stays_open [OF this] True Raised f show ?thesis by (simp add: outcome_failed_def)
    next
      case False
      then have "cb_state ?b = CLOSED" "cb_failure_count ?b = cb_failure_count b + 1" "cb_config ?b = cb_config b"
        using Cons.prems(1) Raised ex by (simp_all add: cb_defs)
      with Cons.IH [of ?b] rest False Raised f Cons.prems(2) show ?thesis by (simp add: outcome_failed_def)
    qed
  qed
qed

lemma rm_completions_count:
  assumes "rb_state b = CLOSED" and "rb_failure_count b < rb_failure_threshold b"
  shows "rb_state (foldl (\<lambda>b (r, t). rm_complete b r t) b fs) = OPEN \<longleftrightarrow>
     rb_failure_threshold b \<le> rb_failure_count b + int (length (filter (outcome_failed \<circ> fst) fs))"
  using assms
proof (induction fs arbitrary: b)
  case Nil
  then show ?case by simp
next
  case (Cons f fs)
  obtain r t where f: "f = (r, t)" by (cases f)
  show ?case
  proof (cases r)
    case (Returned v)
    with Cons f show ?thesis by (simp add: rm_breaker_defs outcome_failed_def)
  next
    case (Raised e)
    let ?b = "rm_record_failure b t"
    show ?thesis
    proof (cases "rb_failure_threshold b \<le> rb_failure_count b + 1")
      case True
      then have "rb_state ?b = OPEN" by (simp add: rm_breaker_defs)
      from rm_breaker.open_stays_open [OF this] True Raised f show ?thesis
        by (simp add: rm_complete_def outcome_failed_def)
    next
      case False
      then have "rb_state ?b = CLOSED" "rb_failure_count ?b = rb_failure_count b + 1"
          "rb_failure_threshold ?b = rb_failure_threshold b"
        using Cons.prems by (simp_all add: rm_breaker_defs)
      with Cons.IH [of ?b] False Raised f show ?thesis by (simp add: rm_complete_def outcome_failed_def add.assoc)
    qed
  qed
qed

lemma retry_delay_bounds:
  assumes "0 \<le> rc_base_delay cfg" and "0 \<le> rc_max_delay cfg" and "0 \<le> rc_exponential_base cfg"
    and "0 \<le> r" and "r \<le> 1"
  shows "0 \<le> retry_delay cfg r n \<and> retry_delay cfg r n \<le> rc_max_delay cfg"
proof -
  define d where "d = min (rc_base_delay cfg * rc_exponential_base cfg ^ n) (rc_max_delay cfg)"
  have d: "0 \<le> d" "d \<le> rc_max_delay cfg" using assms by (simp_all add: d_def)
  have "d * (1 / 2 + r * (1 / 2)) \<le> d * 1" using assms d(1) by (intro mult_left_mono) auto
  moreover have "0 \<le> d * (1 / 2 + r * (1 / 2))" using assms d(1) by (intro mult_nonneg_nonneg) auto
  ultimately show ?thesis using d by (simp add: retry_delay_def Let_def flip: d_def)
qed

lemma retry_loop_delays:
  "d \<in> set (snd (retry_loop cfg rnd f a left)) \<Longrightarrow> \<exists>i. d = retry_delay cfg (rnd i) i"
  by (induction left arbitrary: a) (auto simp: Let_def split: outcome.splits if_splits)

lemma retry_loop_length: "length (snd (retry_loop cfg rnd f a left)) \<le> left"
  by (induction left arbitrary: a) (auto simp: Let_def split: outcome.split)

lemma retry_loop_result:
  assumes "int a + int left = rc_max_attempts cfg" and "0 < left"
  shows "\<exists>i. a \<le> i \<and> int i < rc_max_attempts cfg \<and> fst (retry_loop cfg rnd f a left) = Some (f i) \<and>
     length (snd (retry_loop cfg rnd f a left)) = i - a \<and>
     (\<forall>j. a \<le> j \<longrightarrow> j < i \<longrightarrow> (\<exists>e. f j = Raised e \<and> retryable cfg e)) \<and>
     (\<forall>e. f i = Raised e \<longrightarrow> retryable cfg e \<longrightarrow> int i = rc_max_attempts cfg - 1)"
  using assms
proof (induction left arbitrary: a)
  case 0
  then show ?case by simp
next
  case (Suc left)
  show ?case
  proof (cases "\<exists>e. f a = Raised e \<and> retryable cfg e \<and> int a \<noteq> rc_max_attempts cfg - 1")
    case False
    then show ?thesis using Suc.prems(1)
      by (intro exI [of _ a]) (auto simp: Let_def split: outcome.split)
  next
    case True
    then obtain e where e: "f a = Raised e" "retryable cfg e" "int a \<noteq> rc_max_attempts cfg - 1" by blast
    with Suc.prems have "int (Suc a) + int left = rc_max_attempts cfg" "0 < left" by auto
    from Suc.IH [OF this] obtain i where i: "Suc a \<le> i" "int i < rc_max_attempts cfg"
      "fst (retry_loop cfg rnd f (Suc a) left) = Some (f i)"
      "length (snd (retry_loop cfg rnd f (Suc a) left)) = i - Suc a"
      "\<forall>j. Suc a \<le> j \<longrightarrow> j < i \<longrightarrow> (\<exists>e. f j = Raised e \<and> retryable cfg e)"
      "\<forall>e. f i = Raised e \<longrightarrow> retryable cfg e \<longrightarrow> int i = rc_max_attempts cfg - 1" by blast
    have "\<exists>e. f j = Raised e \<and> retryable cfg e" if "a \<le> j" "j < i" for j
      using that i(5) e by (cases "j = a") auto
    with i e show ?thesis by (intro exI [of _ i]) (auto simp: Let_def)
  qed
qed

text \<open>The bulkhead as a machine of interleaved entries and exits.\<close>

datatype bulkhead_event = BhAcquire string | BhRelease string

fun bh_step :: "Bulkhead \<Rightarrow> bulkhead_event \<Rightarrow> Bulkhead" where
  "bh_step b (BhAcquire n) = (if bh_busy n b then b else case bh_acquire n b of None \<Rightarrow> b | Some b1 \<Rightarrow> b1)"
| "bh_step b (BhRelease n) = bh_release n b"

definition bh_inv :: "Bulkhead \<Rightarrow> bool" where
  "bh_inv b \<longleftrightarrow> 0 \<le> bh_permits b \<and> bh_permits b + int (length (bh_running b)) = bc_max_concurrent (bh_config b)"

interpretation bulkhead: invariant_machine "\<lambda>b. \<exists>cfg. b = bh_init cfg \<and> 0 \<le> bc_max_concurrent cfg" bh_step bh_inv
proof unfold_locales
  fix b and e :: bulkhead_event
  assume "bh_inv b"
  then show "bh_inv (bh_step b e)"
    by (cases e) (auto simp: bh_inv_def bh_acquire_def bh_release_def length_remove1 Suc_le_eq of_nat_diff
        dest: length_pos_if_in_set)
qed (auto simp: bh_inv_def bh_init_def)

lemma bh_step_config: "bh_config (bh_step b e) = bh_config b"
  by (cases e) (simp_all add: bh_acquire_def bh_release_def)

lemma bh_run_config: "bh_config (run_steps bh_step b es) = bh_config b"
  by (induction es arbitrary: b) (simp_all add: bh_step_config)

text \<open>What the health of a service is, from the results of its checks, the newest first.\<close>

definition trailing :: "bool \<Rightarrow> bool list \<Rightarrow> int" where
  "trailing r h = int (length (takeWhile (\<lambda>x. x = r) h))"

fun history_status :: "bool list \<Rightarrow> HealthStatus" where
  "history_status [] = UNKNOWN"
| "history_status (True # h) = (if trailing True (True # h) \<ge> 2 then HEALTHY else history_status h)"
| "history_status (False # h) = (if trailing False (False # h) \<ge> 3 then UNHEALTHY else DEGRADED)"

definition sh_check :: "ServiceHealth \<Rightarrow> bool \<times> pyfloat \<times> string \<times> dtime \<Rightarrow> ServiceHealth" where
  "sh_check h c = (case c of (ok, rt, err, now) \<Rightarrow> if ok then sh_success rt now h else sh_failure err now h)"

lemma sh_check_history:
  assumes "sh_status h = history_status rs" and "sh_consecutive_failures h = trailing False rs"
    and "sh_consecutive_successes h = trailing True rs"
  shows "sh_status (sh_check h c) = history_status (fst c # rs) \<and>
     sh_consecutive_failures (sh_check h c) = trailing False (fst c # rs) \<and>
     sh_consecutive_successes (sh_check h c) = trailing True (fst c # rs)"
proof (cases "fst c")
  case True
  then show ?thesis using assms
    by (cases c) (auto simp: sh_check_def sh_success_def trailing_def Let_def)
next
  case False
  then show ?thesis using assms
    by (cases c) (auto simp: sh_check_def sh_failure_def trailing_def Let_def)
qed

lemma sh_checks_history:
  assumes "sh_status h = history_status rs" and "sh_consecutive_failures h = trailing False rs"
    and "sh_consecutive_successes h = trailing True rs"
  shows "sh_status (foldl sh_check h cs) = history_status (rev (map fst cs) @ rs) \<and>
     sh_consecutive_failures (foldl sh_check h cs) = trailing False (rev (map fst cs) @ rs)"
  using assms
proof (induction cs arbitrary: h rs)
  case Nil
  then show ?case by simp
next
  case (Cons c cs)
  from Cons.IH [of "sh_check h c" "fst c # rs"] sh_check_history [OF Cons.prems, of c] show ?case by simp
qed

text \<open>One round of the checks is one check of each enabled service.\<close>

definition env_check :: "check_outcome \<times> pyfloat \<times> pyfloat \<times> dtime \<Rightarrow> bool \<times> pyfloat \<times> string \<times> dtime" where
  "env_check r =
     (case r of (c, start_time, end_time, now) \<Rightarrow>
        (c = CheckReturned True, (end_time - start_time) * 1000,
         (case c of CheckTimeout \<Rightarrow> ''Health check timeout'' | CheckRaised err \<Rightarrow> err
            | CheckReturned _ \<Rightarrow> ''Health check returned False''), now))"

lemmas health_check_defs =
  run_health_check_def record_health_success_def record_health_failure_def

lemma run_health_check_checks: "rm_health_checks (run_health_check env m nc) = rm_health_checks m"
  by (cases nc) (auto simp: health_check_defs split: prod.split check_outcome.split bool.split option.split)

lemma run_health_check_other:
  "n \<noteq> fst nc \<or> \<not> hc_enabled (snd nc) \<Longrightarrow>
     map_of (rm_service_health (run_health_check env m nc)) n = map_of (rm_service_health m) n"
  by (cases nc) (auto simp: health_check_defs split: prod.split check_outcome.split bool.split option.split)

lemma run_health_check_same:
  "hc_enabled hc \<Longrightarrow> map_of (rm_service_health m) n = Some h \<Longrightarrow>
     map_of (rm_service_health (run_health_check env m (n, hc))) n = Some (sh_check h (env_check (env n)))"
  by (auto simp: health_check_defs sh_check_def env_check_def
      split: prod.split check_outcome.split bool.split option.split)

lemma run_health_checks_other:
  "n \<notin> fst ` set cs \<Longrightarrow>
     map_of (rm_service_health (foldl (run_health_check env) m cs)) n = map_of (rm_service_health m) n"
  by (induction cs arbitrary: m) (auto simp: run_health_check_other)

lemma run_health_checks_list:
  "distinct (map fst cs) \<Longrightarrow> (n, hc) \<in> set cs \<Longrightarrow> hc_enabled hc \<Longrightarrow> map_of (rm_service_health m) n = Some h \<Longrightarrow>
     map_of (rm_service_health (foldl (run_health_check env) m cs)) n = Some (sh_check h (env_check (env n)))"
proof (induction cs arbitrary: m)
  case Nil
  then show ?case by simp
next
  case (Cons c cs)
  show ?case
  proof (cases "c = (n, hc)")
    case True
    then have "n \<notin> fst ` set cs" using Cons.prems(1) by simp
    with True Cons.prems show ?thesis by (simp add: run_health_checks_other run_health_check_same)
  next
    case False
    with Cons.prems have "(n, hc) \<in> set cs" "fst c \<noteq> n" by (auto simp: rev_image_eqI)
    with Cons show ?thesis by (simp add: run_health_check_other)
  qed
qed

lemma run_health_checks_checks: "rm_health_checks (run_health_checks env m) = rm_health_checks m"
proof -
  have "rm_health_checks (foldl (run_health_check env) m cs) = rm_health_checks m" for cs
    by (induction cs arbitrary: m) (simp_all add: run_health_check_checks)
  then show ?thesis by (simp add: run_health_checks_def)
qed

lemma health_rounds:
  assumes "dict_ok (rm_health_checks m)" and "map_of (rm_health_checks m) n = Some hc" and "hc_enabled hc"
    and "map_of (rm_service_health m) n = Some h"
  shows "map_of (rm_service_health (foldl (\<lambda>m env. run_health_checks env m) m envs)) n =
     Some (foldl sh_check h (map (\<lambda>env. env_check (env n)) envs))"
  using assms
proof (induction envs arbitrary: m h)
  case Nil
  then show ?case by simp
next
  case (Cons env envs)
  have "(n, hc) \<in> set (rm_health_checks m)" using Cons.prems(2) by (rule map_of_SomeD)
  then have "map_of (rm_service_health (run_health_checks env m)) n = Some (sh_check h (env_check (env n)))"
    using Cons.prems unfolding run_health_checks_def
    by (intro run_health_checks_list) (auto simp: dict_ok_def)
  with Cons.IH [of "run_health_checks env m"] Cons.prems show ?case by (simp add: run_health_checks_checks)
qed

section \<open>Properties\<close>

text \<open>C29: While a breaker is open no call gets through, however guards and completions of concurrent
  calls interleave: from a breaker that opened at \<open>t\<close>, every guard evaluated before the recovery
  timeout has passed rejects. This holds for the resilience manager's breaker and for the enhanced one.\<close>

theorem open_breakers_reject:
  assumes "rb_state b = OPEN" and "rb_last_failure_time b = Some t"
    and "cb_state c = OPEN" and "cb_last_failure_time c = Some t"
    and "\<forall>e \<in> set es. t \<le> event_time e \<and> total_seconds (event_time e - t) < rb_recovery_timeout b \<and>
       total_seconds (event_time e - t) < cc_recovery_timeout (cb_config c)"
  shows "admissions rm_admit rm_complete b es = [] \<and> admissions cb_admit cb_complete c es = []"
  using assms rm_breaker.open_stays_silent [of b t es] cb_breaker.open_stays_silent [of c t es] by simp

theorem open_breakers_reject_witness:
  "admissions rm_admit rm_complete ((rm_breaker_init 5 60)\<lparr>rb_state := OPEN, rb_last_failure_time := Some 0\<rparr>)
     [Admit 1000000, Complete (Raised Exc_OSError :: nat outcome) 2000000, Admit 59000000] = []"
  using open_breakers_reject [where t = 0
      and b = "(rm_breaker_init 5 60)\<lparr>rb_state := OPEN, rb_last_failure_time := Some 0\<rparr>"
      and c = "(cb_init default_breaker_config)\<lparr>cb_state := OPEN, cb_last_failure_time := Some 0\<rparr>"
      and es = "[Admit 1000000, Complete (Raised Exc_OSError :: nat outcome) 2000000, Admit 59000000]"]
  by (simp add: rm_breaker_init_def cb_init_def default_breaker_config_def total_seconds_def usec_per_sec_def)

text \<open>When a breaker opens. Fed with the outcomes of calls, a new enhanced breaker is open exactly
  when as many calls in a row as its threshold failed; a new breaker of the resilience manager is open
  exactly when that many calls failed in all, because its closed state does not reset the count on a
  success.\<close>

theorem breakers_open_when:
  assumes "1 \<le> cc_failure_threshold cfg" and "\<forall>(r, t) \<in> set fs. \<forall>e. r = Raised e \<longrightarrow> cb_expected (cb_init cfg) e"
  shows "(cb_state (foldl (\<lambda>b (r, t). cb_complete b r t) (cb_init cfg) fs) = OPEN \<longleftrightarrow>
       (\<exists>xs ys. map (outcome_failed \<circ> fst) fs = xs @ replicate (nat (cc_failure_threshold cfg)) True @ ys)) \<and>
     (rb_state (foldl (\<lambda>b (r, t). rm_complete b r t) (rm_breaker_init (cc_failure_threshold cfg) timeout) fs) = OPEN \<longleftrightarrow>
       cc_failure_threshold cfg \<le> int (length (filter (outcome_failed \<circ> fst) fs)))"
proof
  have "cb_state (foldl (\<lambda>b (r, t). cb_complete b r t) (cb_init cfg) fs) = OPEN \<longleftrightarrow>
      streak (map (outcome_failed \<circ> fst) fs) 0 (cc_failure_threshold cfg)"
    using cb_completions_streak [of "cb_init cfg" fs] assms by (simp add: cb_init_def)
  also have "\<dots> \<longleftrightarrow> (\<exists>xs ys. map (outcome_failed \<circ> fst) fs = xs @ replicate (nat (cc_failure_threshold cfg)) True @ ys)"
    using assms(1) by (subst streak_iff) (auto intro: exI [where x = "[]"])
  finally show "cb_state (foldl (\<lambda>b (r, t). cb_complete b r t) (cb_init cfg) fs) = OPEN \<longleftrightarrow>
      (\<exists>xs ys. map (outcome_failed \<circ> fst) fs = xs @ replicate (nat (cc_failure_threshold cfg)) True @ ys)" .
  show "rb_state (foldl (\<lambda>b (r, t). rm_complete b r t) (rm_breaker_init (cc_failure_threshold cfg) timeout) fs) = OPEN \<longleftrightarrow>
      cc_failure_threshold cfg \<le> int (length (filter (outcome_failed \<circ> fst) fs))"
    using rm_completions_count [of "rm_breaker_init (cc_failure_threshold cfg) timeout" fs] assms(1)
    by (simp add: rm_breaker_init_def)
qed

theorem breakers_open_when_witness:
  "rb_state (foldl (\<lambda>b (r, t). rm_complete b r t) (rm_breaker_init 5 60)
     [(Raised Exc_OSError, 1), (Returned (0::nat), 2), (Raised Exc_OSError, 3), (Raised Exc_OSError, 4),
      (Raised Exc_OSError, 5), (Raised Exc_OSError, 6)]) = OPEN"
  using breakers_open_when [where cfg = default_breaker_config and timeout = 60 and
      fs = "[(Raised Exc_OSError, 1), (Returned (0::nat), 2), (Raised Exc_OSError, 3), (Raised Exc_OSError, 4),
      (Raised Exc_OSError, 5), (Raised Exc_OSError, 6)]"]
  by (simp add: default_breaker_config_def cb_expected_def cb_init_def outcome_failed_def)

text \<open>Half-open probing is bounded: of the calls that arrive, within one recovery timeout of each
  other, before any of them completes, an open breaker whose timeout has passed lets through at most
  \<open>half_open_max_calls\<close>.\<close>

theorem half_open_probes_bounded:
  assumes "cb_state b = OPEN" and "cb_should_attempt_reset t b" and "sorted (t # ts)"
    and "\<forall>u \<in> set ts. total_seconds (u - t) < cc_recovery_timeout (cb_config b)"
  shows "int (length (admissions cb_admit cb_complete b (map Admit (t # ts) :: 'r outcome breaker_event list)))
     \<le> max 0 (cc_half_open_max_calls (cb_config b))"
proof -
  let ?b = "b\<lparr>cb_state := HALF_OPEN, cb_half_open_calls := 0\<rparr>"
  have eq: "cb_admit b t = cb_admit ?b t" using assms(1,2) by (simp add: cb_admit_def)
  show ?thesis
  proof (cases "0 < cc_recovery_timeout (cb_config b)")
    case True
    then have "int (length (admissions cb_admit cb_complete ?b (map Admit (t # ts) :: 'r outcome breaker_event list)))
        \<le> max 0 (cc_half_open_max_calls (cb_config ?b) - cb_half_open_calls ?b)"
      using assms(3,4) by (intro admissions_half_open [where t = t]) (auto simp: total_seconds_def)
    with eq show ?thesis by simp
  next
    case False
    have "ts = []"
    proof (rule ccontr)
      assume "ts \<noteq> []"
      then obtain u where u: "u \<in> set ts" by (cases ts) auto
      with assms(3) have "total_seconds 0 \<le> total_seconds (u - t)" by (simp add: total_seconds_mono)
      with u assms(4) False show False by (auto simp: total_seconds_def)
    qed
    with eq show ?thesis by (simp add: Let_def cb_admit_def cb_half_open_guard_def)
  qed
qed

theorem half_open_probes_bounded_witness:
  "int (length (admissions cb_admit cb_complete
      ((cb_init default_breaker_config)\<lparr>cb_state := OPEN, cb_last_failure_time := Some 0\<rparr>)
      (map Admit [60000000, 60000001, 60000002, 60000003] :: nat outcome breaker_event list))) \<le> 3"
  using half_open_probes_bounded [where t = 60000000 and ts = "[60000001, 60000002, 60000003]"
      and b = "(cb_init default_breaker_config)\<lparr>cb_state := OPEN, cb_last_failure_time := Some 0\<rparr>" and 'r = nat]
  by (simp add: cb_init_def default_breaker_config_def total_seconds_def usec_per_sec_def cb_should_attempt_reset_def)

text \<open>C40: Retrying: with at least one attempt configured the loop returns the outcome of some attempt
  \<open>i < max_attempts\<close>; every earlier attempt raised a retryable exception, and the returned one is a
  retryable exception only when it was the final attempt; it slept \<open>i\<close> times, each time between 0 and
  \<open>max_delay\<close> seconds.\<close>

theorem retry_returns:
  assumes "1 \<le> rc_max_attempts cfg" and "0 \<le> rc_base_delay cfg" and "0 \<le> rc_max_delay cfg"
    and "0 \<le> rc_exponential_base cfg" and "\<And>i. 0 \<le> rnd i \<and> rnd i \<le> 1"
  shows "\<exists>i. int i < rc_max_attempts cfg \<and> fst (execute_with_retry cfg rnd f) = Some (f i) \<and>
     (\<forall>j<i. \<exists>e. f j = Raised e \<and> retryable cfg e) \<and>
     (\<forall>e. f i = Raised e \<and> retryable cfg e \<longrightarrow> int i = rc_max_attempts cfg - 1) \<and>
     length (snd (execute_with_retry cfg rnd f)) = i \<and>
     (\<forall>d \<in> set (snd (execute_with_retry cfg rnd f)). 0 \<le> d \<and> d \<le> rc_max_delay cfg)"
proof -
  have "0 \<le> d \<and> d \<le> rc_max_delay cfg" if "d \<in> set (snd (execute_with_retry cfg rnd f))" for d
    using that retry_loop_delays [of d cfg rnd f] retry_delay_bounds [OF assms(2-4)] assms(5)
    unfolding execute_with_retry_def by metis
  with retry_loop_result [of 0 "nat (rc_max_attempts cfg)" cfg rnd f] assms(1) show ?thesis
    by (auto simp: execute_with_retry_def)
qed

theorem retry_returns_witness:
  "\<exists>i. int i < 3 \<and> fst (execute_with_retry default_retry_config (\<lambda>_. 0) (\<lambda>n. if n = 0 then Raised Exc_OSError else Returned n))
     = Some (if i = 0 then Raised Exc_OSError else Returned i)"
  using retry_returns [where cfg = default_retry_config and rnd = "\<lambda>_. 0"
      and f = "\<lambda>n. if n = 0 then Raised Exc_OSError else Returned n"]
  by (auto simp: default_retry_config_def)

text \<open>However entries and exits interleave, no more than \<open>max_concurrent\<close> tasks are inside a
  bulkhead, and no permit is lost: free permits and running tasks add up to \<open>max_concurrent\<close>.\<close>

theorem bulkhead_bounded:
  assumes "0 \<le> bc_max_concurrent cfg"
  shows "int (length (bh_running (run_steps bh_step (bh_init cfg) es))) \<le> bc_max_concurrent cfg \<and>
     bh_permits (run_steps bh_step (bh_init cfg) es) + int (length (bh_running (run_steps bh_step (bh_init cfg) es)))
       = bc_max_concurrent cfg"
proof -
  have "bh_inv (run_steps bh_step (bh_init cfg) es)" by (rule bulkhead.run_inv) (use assms in blast)
  moreover have "bh_config (run_steps bh_step (bh_init cfg) es) = cfg" by (simp add: bh_run_config bh_init_def)
  ultimately show ?thesis by (simp add: bh_inv_def)
qed

theorem bulkhead_bounded_witness:
  "int (length (bh_running (run_steps bh_step (bh_init default_bulkhead_config) [BhAcquire ''a'', BhAcquire ''b'']))) \<le> 10"
  using bulkhead_bounded [where cfg = default_bulkhead_config and es = "[BhAcquire ''a'', BhAcquire ''b'']"]
  by (simp add: default_bulkhead_config_def)

text \<open>A function decorated with \<open>with_circuit_breaker\<close> is never rejected, whatever happened
  before: the wrapper builds its breaker anew at every call, so the caller gets the outcome of the
  function (a non-accepted status as an error).\<close>

theorem decorated_never_rejected:
  assumes "name \<noteq> ''''"
  shows "with_circuit_breaker name cfg task_id f rnd t u = Some (Some (invoke_check True (f 0)))"
  using assms
  by (simp add: with_circuit_breaker_def eh_init_def eh_add_circuit_breaker_def eh_execute_with_resilience_def
      cb_call_def cb_admit_def cb_half_open_guard_def cb_init_def Let_def)

theorem decorated_never_rejected_witness:
  "with_circuit_breaker ''db'' None ''t'' (\<lambda>_. Raised Exc_OSError) (\<lambda>_. 0) 0 1 = Some (Some (Raised Exc_OSError))"
  by (simp add: decorated_never_rejected)

text \<open>The health of a monitored service after any number of check rounds is the one its history
  gives: unhealthy after three failures in a row, degraded after one or two, healthy after two
  successes in a row, and otherwise what it was.\<close>

theorem health_follows_history:
  assumes "map_of (rm_health_checks m) (hc_name hc) = Some hc" and "dict_ok (rm_health_checks m)" and "hc_enabled hc"
    and "map_of (rm_service_health m) (hc_name hc) = map_of (rm_service_health (add_health_check hc now m)) (hc_name hc)"
  shows "map_option sh_status
       (map_of (rm_service_health (foldl (\<lambda>m env. run_health_checks env m) m envs)) (hc_name hc)) =
     Some (history_status (rev (map (\<lambda>env. fst (env (hc_name hc)) = CheckReturned True) envs)))"
proof -
  obtain h where h: "map_of (rm_service_health m) (hc_name hc) = Some h" "sh_status h = UNKNOWN"
    "sh_consecutive_failures h = 0" "sh_consecutive_successes h = 0"
    using assms(4) by (simp add: add_health_check_def)
  have first: "fst (env_check r) = (fst r = CheckReturned True)" for r
    by (simp add: env_check_def split: prod.split)
  from health_rounds [OF assms(2,1,3) h(1), of envs]
    sh_checks_history [of h "[]" "map (\<lambda>env. env_check (env (hc_name hc))) envs"] h(2-4)
  show ?thesis by (simp add: trailing_def first comp_def)
qed

theorem health_follows_history_witness:
  "map_option sh_status (map_of (rm_service_health
     (foldl (\<lambda>m env. run_health_checks env m)
       (add_health_check \<lparr>hc_name = ''db'', hc_timeout = 5, hc_interval = 30, hc_failure_threshold = 3,
          hc_recovery_threshold = 2, hc_enabled = True\<rparr> 0 rm_init)
       (replicate 3 (\<lambda>_. (CheckTimeout, 0, 1, 7))))) ''db'') = Some UNHEALTHY"
  using health_follows_history [where hc = "\<lparr>hc_name = ''db'', hc_timeout = 5, hc_interval = 30, hc_failure_threshold = 3,
        hc_recovery_threshold = 2, hc_enabled = True\<rparr>" and now = 0
      and m = "add_health_check \<lparr>hc_name = ''db'', hc_timeout = 5, hc_interval = 30, hc_failure_threshold = 3,
        hc_recovery_threshold = 2, hc_enabled = True\<rparr> 0 rm_init"
      and envs = "replicate 3 (\<lambda>_. (CheckTimeout, 0, 1, 7))"]
  by (simp add: add_health_check_def rm_init_def dict_ok_def numeral_3_eq_3 trailing_def)

end
