(* ===== verification/Readiness.thy ===== *)
theory Readiness
  imports Interfaces
begin

text \<open>
  Readiness of the optimisation inputs and the replayable input snapshot,
  \<open>src/src/core/state/readiness.py\<close>, with the data classes of \<open>src/src/core/models.py\<close> they use. A
  set of vehicle ids is a list; a UUID is its text, and parsing one is an argument (\<open>None\<close> when
  \<open>UUID(...)\<close> raises \<open>ValueError\<close>). The text of a date is the argument \<open>isofmt\<close>. Nested dictionaries are
  values of \<open>pyval\<close>.
\<close>

section \<open>Model: data classes\<close>

record DepotConfig =
  vehicle_capacities :: "(string, pyfloat) pydict"
  vehicle_max_charge_kw :: "(string, pyfloat) pydict"
  charger_groups :: "(pyfloat, int) pydict"
  charger_efficiency :: pyfloat
  charger_vehicle_access :: "(string, string list) pydict"
  battery_capacity :: pyfloat
  battery_power :: pyfloat
  battery_efficiency :: pyfloat
  battery_soc_min :: pyfloat
  battery_soc_max :: pyfloat
  max_site_power :: pyfloat
  building_load_assumption_kw :: pyfloat
  delta_t :: pyfloat
  n_timesteps :: int
  charger_vehicle_access_default :: string
  tariff_type :: string
  energy_cap_kwh :: "pyfloat option"
  under_cap_rate_per_kwh :: "pyfloat option"
  over_cap_penalty_per_kwh :: "pyfloat option"
  cap_billing_period :: string

record IncomingVehicle =
  iv_vehicle_id :: string
  iv_external_id :: string
  iv_expected_soc :: pyfloat
  iv_arrival_time :: dtime
  iv_battery_kwh :: pyfloat
  iv_max_charge_kw :: pyfloat
  iv_origin_depot_id :: string

record DepotState =
  vehicle_socs :: "(string, pyfloat) pydict"
  battery_soc :: pyfloat
  prices :: "pyfloat list"
  demand_charge_rate :: pyfloat
  current_month_peak :: pyfloat
  vehicle_availability :: "(string, bool list) pydict"
  energy_requirements :: "(string, pyfloat) pydict"
  departure_times :: "(string, int) pydict"
  building_power :: "pyfloat list"
  incoming_vehicles :: "IncomingVehicle list"
  vehicle_departure_soc_min :: "(string, pyfloat) pydict"
  vehicle_departure_soc_max :: "(string, pyfloat) pydict"
  vehicle_priorities :: "(string, int) pydict"
  preconditioning_requests :: "(string, pyval) pydict list"
  cumulative_kwh_period :: pyfloat

text \<open>The fields with defaults at their defaults, the others empty or zero.\<close>

definition base_config :: DepotConfig where
  "base_config =
     \<lparr>vehicle_capacities = [], vehicle_max_charge_kw = [], charger_groups = [], charger_efficiency = 0,
      charger_vehicle_access = [], battery_capacity = 0, battery_power = 0, battery_efficiency = 92 / 100,
      battery_soc_min = 2 / 10, battery_soc_max = 8 / 10, max_site_power = 1000, building_load_assumption_kw = 0,
      delta_t = 1 / 4, n_timesteps = 96, charger_vehicle_access_default = ''explicit_matrix'',
      tariff_type = ''simple_demand'', energy_cap_kwh = None, under_cap_rate_per_kwh = None,
      over_cap_penalty_per_kwh = None, cap_billing_period = ''monthly''\<rparr>"

definition base_state :: DepotState where
  "base_state =
     \<lparr>vehicle_socs = [], battery_soc = 0, prices = [], demand_charge_rate = 0, current_month_peak = 0,
      vehicle_availability = [], energy_requirements = [], departure_times = [], building_power = [],
      incoming_vehicles = [], vehicle_departure_soc_min = [], vehicle_departure_soc_max = [], vehicle_priorities = [],
      preconditioning_requests = [], cumulative_kwh_period = 0\<rparr>"

record ReadinessReport =
  rd_status :: string
  rd_missing_inputs :: "string list"
  rd_degraded_reasons :: "string list"
  rd_assumptions :: "(string, pyval) pydict"
  rd_building_load_source :: string

definition rd_is_ready :: "ReadinessReport \<Rightarrow> bool" where
  "rd_is_ready r \<longleftrightarrow> rd_status r = ''ready''"

definition rd_is_degraded :: "ReadinessReport \<Rightarrow> bool" where
  "rd_is_degraded r \<longleftrightarrow> rd_status r = ''degraded''"

definition rd_is_blocking :: "ReadinessReport \<Rightarrow> bool" where
  "rd_is_blocking r \<longleftrightarrow> rd_status r = ''not_ready''"

section \<open>Model: the readiness check\<close>

definition missing_inputs_of :: "DepotConfig \<Rightarrow> DepotState \<Rightarrow> bool \<Rightarrow> string list" where
  "missing_inputs_of config state schedules_present =
     (if vehicle_capacities config = [] then [''vehicles''] else []) @
     (if charger_groups config = [] \<or> sum_list (map snd (charger_groups config)) = 0 then [''chargers''] else []) @
     (if prices state = [] then [''prices''] else []) @
     (if \<not> schedules_present then [''schedules''] else []) @
     (if charger_vehicle_access_default config \<noteq> ''all_to_all'' \<and> charger_vehicle_access config = []
      then [''charger_vehicle_access''] else [])"

definition building_load_degradation ::
  "DepotConfig \<Rightarrow> string \<Rightarrow> string list \<times> (string, pyval) pydict" where
  "building_load_degradation config source =
     (if source = ''forecast_fallback'' then
        ([''building_load_meter_unavailable''],
         [(''building_load'', PDict [(''source'', PStr ''forecast_fallback''),
            (''note'', PStr ''meter data missing; substituted business-hours forecast pattern'')])])
      else if source = ''static_assumption'' then
        ([''building_load_static_assumption''],
         [(''building_load'', PDict [(''source'', PStr ''static_assumption''),
            (''value_kw'', PFloat (building_load_assumption_kw config)),
            (''note'', PStr ''no live meter/forecast source configured; depot-level static derate applied to max_grid_kw'')])])
      else if source = ''absent'' then
        ([''building_load_meter_unavailable''],
         [(''building_load'', PDict [(''source'', PStr ''absent''),
            (''note'', PStr ''no building-load source available; treated as forecast fallback'')])])
      else ([], []))"

definition telemetry_degradation :: "DepotState \<Rightarrow> string list \<times> (string, pyval) pydict" where
  "telemetry_degradation state =
     (let defaulted = map fst (filter (\<lambda>(vid, soc). soc = 1 / 2) (vehicle_socs state))
      in if vehicle_socs state \<noteq> [] \<and> defaulted \<noteq> [] \<and> length defaulted = length (vehicle_socs state)
         then ([''telemetry_all_defaulted''],
               [(''telemetry'', PDict [(''source'', PStr ''default_soc''), (''default_value'', PFloat (1 / 2)),
                  (''vehicles'', PList (map PStr defaulted))])])
         else ([], []))"

definition evaluate_readiness :: "DepotConfig \<Rightarrow> DepotState \<Rightarrow> string \<Rightarrow> bool \<Rightarrow> ReadinessReport" where
  "evaluate_readiness config state building_load_source schedules_present =
     (let missing = missing_inputs_of config state schedules_present;
          bl = building_load_degradation config building_load_source;
          tl = telemetry_degradation state;
          degraded = fst bl @ fst tl
      in \<lparr>rd_status = (if missing \<noteq> [] then ''not_ready'' else if degraded \<noteq> [] then ''degraded'' else ''ready''),
          rd_missing_inputs = missing, rd_degraded_reasons = degraded, rd_assumptions = snd bl @ snd tl,
          rd_building_load_source = building_load_source\<rparr>)"

section \<open>Model: the snapshot\<close>

record Snapshot =
  sn_snapshot_id :: string
  sn_depot_id :: string
  sn_organization_id :: "string option"
  sn_captured_at :: dtime
  sn_horizon_start :: dtime
  sn_horizon_end :: dtime
  sn_readiness :: ReadinessReport
  sn_depot :: "(string, pyval) pydict"
  sn_vehicles :: "pyval list"
  sn_chargers :: "(string, pyval) pydict"
  sn_charger_vehicle_access :: "(string, pyval) pydict"
  sn_schedules :: "pyval list"
  sn_prices :: "pyfloat list"
  sn_telemetry :: "(string, pyfloat) pydict"
  sn_building_load :: "(string, pyval) pydict"
  sn_weather_features :: "pyval list"
  sn_weather_forecast_id :: "string option"
  sn_incoming_vehicles :: "pyval list"
  sn_recent_telemetry :: "pyval list"
  sn_code_version :: "string option"
  sn_solver_version :: "string option"
  sn_surrogate_model_version :: "string option"
  sn_payload_schema :: string

text \<open>Facts of the run the builder reads from elsewhere: a fresh id, the clock, the three versions.\<close>

record snapshot_meta =
  mt_snapshot_id :: string
  mt_captured_at :: dtime
  mt_code :: "string option"
  mt_solver :: "string option"
  mt_surrogate :: "string option"

fun serialize_dt :: "(dtime \<Rightarrow> string) \<Rightarrow> pyval \<Rightarrow> pyval" where
  "serialize_dt isofmt (PTime t) = PStr (isofmt t)"
| "serialize_dt isofmt v = v"

definition serialize_schedule_row :: "(dtime \<Rightarrow> string) \<Rightarrow> (string, pyval) pydict \<Rightarrow> (string, pyval) pydict" where
  "serialize_schedule_row isofmt row = map (\<lambda>(k, v). (k, serialize_dt isofmt v)) row"

definition vehicle_payload :: "DepotConfig \<Rightarrow> DepotState \<Rightarrow> string \<Rightarrow> pyval" where
  "vehicle_payload config state vid =
     PDict [(''vehicle_id'', PStr vid),
       (''battery_kwh'', popt PFloat (map_of (vehicle_capacities config) vid)),
       (''max_charge_kw'', popt PFloat (map_of (vehicle_max_charge_kw config) vid)),
       (''current_soc'', popt PFloat (map_of (vehicle_socs state) vid)),
       (''energy_requirement_kwh'', popt PFloat (map_of (energy_requirements state) vid)),
       (''departure_timestep'', popt PInt (map_of (departure_times state) vid)),
       (''departure_soc_min'', popt PFloat (map_of (vehicle_departure_soc_min state) vid)),
       (''departure_soc_max'', popt PFloat (map_of (vehicle_departure_soc_max state) vid)),
       (''priority'', popt PInt (map_of (vehicle_priorities state) vid))]"

definition incoming_payload :: "(dtime \<Rightarrow> string) \<Rightarrow> IncomingVehicle \<Rightarrow> pyval" where
  "incoming_payload isofmt iv =
     PDict [(''vehicle_id'', PStr (iv_vehicle_id iv)), (''external_id'', PStr (iv_external_id iv)),
       (''expected_soc'', PFloat (iv_expected_soc iv)), (''arrival_time'', PStr (isofmt (iv_arrival_time iv))),
       (''battery_kwh'', PFloat (iv_battery_kwh iv)), (''max_charge_kw'', PFloat (iv_max_charge_kw iv)),
       (''origin_depot_id'', PStr (iv_origin_depot_id iv))]"

definition access_payload :: "DepotConfig \<Rightarrow> (string, pyval) pydict" where
  "access_payload config =
     (if charger_vehicle_access_default config = ''all_to_all''
      then [(''mode'', PStr ''all_to_all''), (''matrix'', PDict [])]
      else [(''mode'', PStr ''explicit_matrix''),
            (''matrix'', PDict (map (\<lambda>(cid, vids). (cid, PList (map PStr (sort (remdups vids)))))
               (charger_vehicle_access config)))])"

text \<open>The text of a rating, the key under which a charger group is stored, is the argument \<open>float_str\<close>.
  \<open>org\<close> is \<open>None\<close> without an organisation and \<open>Some None\<close> when its id does not parse.\<close>

definition depot_payload :: "string \<Rightarrow> DepotConfig \<Rightarrow> DepotState \<Rightarrow> (string, pyval) pydict \<Rightarrow> (string, pyval) pydict" where
  "depot_payload depot_uuid config state depot_metadata =
     foldl (\<lambda>d (k, v). AList.update k v d)
       [(''depot_id'', PStr depot_uuid), (''max_site_power_kw'', PFloat (max_site_power config)),
        (''building_load_assumption_kw'', PFloat (building_load_assumption_kw config)),
        (''delta_t_hours'', PFloat (delta_t config)), (''n_timesteps'', PInt (int (length (building_power state))))]
       depot_metadata"

definition building_payload :: "DepotConfig \<Rightarrow> DepotState \<Rightarrow> ReadinessReport \<Rightarrow> (string, pyval) pydict" where
  "building_payload config state readiness =
     (let n_steps = length (building_power state);
          avg_load = (if n_steps \<noteq> 0 then sum_list (building_power state) / of_nat n_steps else 0)
      in [(''source'', PStr (rd_building_load_source readiness)), (''values_kw'', PList (map PFloat (building_power state))),
          (''average_kw'', PFloat avg_load), (''n_timesteps'', PInt (int n_steps)),
          (''assumption_kw'', PFloat (building_load_assumption_kw config))])"

definition build_snapshot ::
  "(dtime \<Rightarrow> string) \<Rightarrow> (pyfloat \<Rightarrow> string) \<Rightarrow> snapshot_meta \<Rightarrow> string option \<Rightarrow> string option option \<Rightarrow> DepotConfig \<Rightarrow>
     DepotState \<Rightarrow> dtime \<Rightarrow> dtime \<Rightarrow> (string, pyval) pydict list \<Rightarrow> pyval list \<Rightarrow> string option \<Rightarrow> pyval list \<Rightarrow>
     ReadinessReport \<Rightarrow> (string, pyval) pydict \<Rightarrow> Snapshot result" where
  "build_snapshot isofmt float_str mt depot org config state horizon_start horizon_end schedules weather forecast_id telemetry
       readiness depot_metadata =
     (case depot of
        None \<Rightarrow> Inl ValueError
      | Some depot_uuid \<Rightarrow>
          if org = Some None then Inl ValueError
          else Inr
            \<lparr>sn_snapshot_id = mt_snapshot_id mt, sn_depot_id = depot_uuid,
             sn_organization_id = (case org of None \<Rightarrow> None | Some u \<Rightarrow> u),
             sn_captured_at = mt_captured_at mt, sn_horizon_start = horizon_start, sn_horizon_end = horizon_end,
             sn_readiness = readiness, sn_depot = depot_payload depot_uuid config state depot_metadata,
             sn_vehicles = map (vehicle_payload config state) (sort (map fst (vehicle_capacities config))),
             sn_chargers = [(''groups'', PDict (map (\<lambda>(k, v). (float_str k, PInt v)) (charger_groups config))),
               (''efficiency'', PFloat (charger_efficiency config)),
               (''total'', PInt (sum_list (map snd (charger_groups config))))],
             sn_charger_vehicle_access = access_payload config,
             sn_schedules = map (PDict \<circ> serialize_schedule_row isofmt) schedules,
             sn_prices = prices state, sn_telemetry = vehicle_socs state,
             sn_building_load = building_payload config state readiness,
             sn_weather_features = weather,
             sn_weather_forecast_id = (if weather \<noteq> [] then forecast_id else None),
             sn_incoming_vehicles = map (incoming_payload isofmt) (incoming_vehicles state),
             sn_recent_telemetry = telemetry,
             sn_code_version = mt_code mt, sn_solver_version = mt_solver mt,
             sn_surrogate_model_version = mt_surrogate mt, sn_payload_schema = ''v1''\<rparr>)"

definition snapshot_to_payload :: "(dtime \<Rightarrow> string) \<Rightarrow> Snapshot \<Rightarrow> (string, pyval) pydict" where
  "snapshot_to_payload isofmt s =
     [(''schema'', PStr (sn_payload_schema s)),
      (''depot'', PDict (sn_depot s)),
      (''organization_id'', popt PStr (sn_organization_id s)),
      (''horizon'', PDict [(''start'', PStr (isofmt (sn_horizon_start s))), (''end'', PStr (isofmt (sn_horizon_end s)))]),
      (''readiness'', PDict
         [(''status'', PStr (rd_status (sn_readiness s))),
          (''missing_inputs'', PList (map PStr (rd_missing_inputs (sn_readiness s)))),
          (''degraded_reasons'', PList (map PStr (rd_degraded_reasons (sn_readiness s)))),
          (''assumptions'', PDict (rd_assumptions (sn_readiness s))),
          (''building_load_source'', PStr (rd_building_load_source (sn_readiness s)))]),
      (''vehicles'', PList (sn_vehicles s)),
      (''chargers'', PDict (sn_chargers s)),
      (''charger_vehicle_access'', PDict (sn_charger_vehicle_access s)),
      (''schedules'', PList (sn_schedules s)),
      (''prices'', PList (map PFloat (sn_prices s))),
      (''telemetry'', PDict (map (\<lambda>(k, v). (k, PFloat v)) (sn_telemetry s))),
      (''building_load'', PDict (sn_building_load s)),
      (''weather_features'', PList (sn_weather_features s)),
      (''weather_forecast_id'', popt PStr (sn_weather_forecast_id s)),
      (''incoming_vehicles'', PList (sn_incoming_vehicles s)),
      (''recent_telemetry'', PList (sn_recent_telemetry s)),
      (''versions'', PDict [(''code'', popt PStr (sn_code_version s)), (''solver'', popt PStr (sn_solver_version s)),
         (''surrogate_model'', popt PStr (sn_surrogate_model_version s))])]"

definition replay_required :: "string list" where
  "replay_required = [''schema'', ''depot'', ''horizon'', ''readiness'', ''vehicles'', ''chargers'',
     ''charger_vehicle_access'', ''schedules'', ''prices'', ''telemetry'', ''building_load'', ''versions'']"

text \<open>\<open>payload.get(k) or dflt\<close>.\<close>

definition get_truthy :: "(string, pyval) pydict \<Rightarrow> string \<Rightarrow> pyval \<Rightarrow> pyval" where
  "get_truthy d k dflt = (case map_of d k of None \<Rightarrow> dflt | Some v \<Rightarrow> if truthy v then v else dflt)"

definition replay_readiness_ok :: "(string, pyval) pydict \<Rightarrow> bool" where
  "replay_readiness_ok payload =
     (case map_of payload ''readiness'' of
        Some (PDict r) \<Rightarrow> map_of r ''building_load_source'' \<noteq> None
      | _ \<Rightarrow> False)"

definition replay_n_timesteps :: "(string, pyval) pydict \<Rightarrow> int option" where
  "replay_n_timesteps payload =
     (case map_of payload ''depot'' of
        Some (PDict d) \<Rightarrow>
          (case map_of d ''n_timesteps'' of
             None \<Rightarrow> None
           | Some v \<Rightarrow> (case as_int v of None \<Rightarrow> None | Some n \<Rightarrow> if n < 0 then None else Some n))
      | _ \<Rightarrow> None)"

definition list_of_length :: "pyval \<Rightarrow> int \<Rightarrow> bool" where
  "list_of_length v n = (case as_list v of None \<Rightarrow> False | Some xs \<Rightarrow> int (length xs) = n)"

definition replay_building_values :: "(string, pyval) pydict \<Rightarrow> pyval" where
  "replay_building_values payload =
     (case get_truthy payload ''building_load'' (PDict []) of
        PDict b \<Rightarrow> (case map_of b ''values_kw'' of None \<Rightarrow> PList [] | Some v \<Rightarrow> v)
      | _ \<Rightarrow> PList [])"

definition replay_versions_ok :: "(string, pyval) pydict \<Rightarrow> bool" where
  "replay_versions_ok payload =
     (case get_truthy payload ''versions'' (PDict []) of
        PDict v \<Rightarrow> list_all (\<lambda>k. map_of v k \<noteq> None) [''code'', ''solver'', ''surrogate_model'']
      | _ \<Rightarrow> False)"

definition replay_payload :: "(string, pyval) pydict \<Rightarrow> (string, pyval) pydict result" where
  "replay_payload payload =
     (if \<exists>k \<in> set replay_required. map_of payload k = None then Inl ValueError
      else if \<not> replay_readiness_ok payload then Inl ValueError
      else case replay_n_timesteps payload of
             None \<Rightarrow> Inl ValueError
           | Some n_steps \<Rightarrow>
               if \<not> list_of_length (get_truthy payload ''prices'' (PList [])) n_steps then Inl ValueError
               else if \<not> list_of_length (replay_building_values payload) n_steps then Inl ValueError
               else if \<not> replay_versions_ok payload then Inl ValueError
               else Inr payload)"

text \<open>The fallback snapshot of the controller, \<open>_stub_snapshot\<close> in \<open>src/src/core/controller.py\<close>. The depot
  id is replaced by a fresh id (\<open>fresh\<close>) when it does not parse.\<close>

definition stub_readiness :: "ReadinessReport option \<Rightarrow> ReadinessReport" where
  "stub_readiness readiness =
     (case readiness of
        None \<Rightarrow> \<lparr>rd_status = ''degraded'', rd_missing_inputs = [], rd_degraded_reasons = [''snapshot_construction_failed''],
                 rd_assumptions = [(''snapshot_construction_failed'', PBool True)], rd_building_load_source = ''absent''\<rparr>
      | Some r \<Rightarrow>
          \<lparr>rd_status = (if rd_is_blocking r then ''not_ready'' else ''degraded''),
           rd_missing_inputs = rd_missing_inputs r,
           rd_degraded_reasons = rd_degraded_reasons r @ [''snapshot_construction_failed''],
           rd_assumptions = AList.update ''snapshot_construction_failed'' (PBool True) (rd_assumptions r),
           rd_building_load_source = rd_building_load_source r\<rparr>)"

definition stub_snapshot ::
  "snapshot_meta \<Rightarrow> string \<Rightarrow> string option \<Rightarrow> dtime \<Rightarrow> dtime \<Rightarrow> ReadinessReport option \<Rightarrow> Snapshot" where
  "stub_snapshot mt fresh depot horizon_start horizon_end readiness =
     \<lparr>sn_snapshot_id = mt_snapshot_id mt, sn_depot_id = (case depot of None \<Rightarrow> fresh | Some d \<Rightarrow> d),
      sn_organization_id = None, sn_captured_at = mt_captured_at mt,
      sn_horizon_start = horizon_start, sn_horizon_end = horizon_end,
      sn_readiness = stub_readiness readiness, sn_depot = [(''n_timesteps'', PInt 0)], sn_vehicles = [], sn_chargers = [],
      sn_charger_vehicle_access = [(''mode'', PStr ''all_to_all''), (''matrix'', PDict [])],
      sn_schedules = [], sn_prices = [], sn_telemetry = [],
      sn_building_load = [(''source'', PStr ''absent''), (''values_kw'', PList []), (''n_timesteps'', PInt 0)],
      sn_weather_features = [], sn_weather_forecast_id = None, sn_incoming_vehicles = [], sn_recent_telemetry = [],
      sn_code_version = mt_code mt, sn_solver_version = mt_solver mt, sn_surrogate_model_version = mt_surrogate mt,
      sn_payload_schema = ''v1''\<rparr>"

section \<open>Lemmas\<close>

lemma evaluate_status_values:
  "rd_status (evaluate_readiness config state src present) \<in> {''not_ready'', ''degraded'', ''ready''}"
  by (simp add: evaluate_readiness_def Let_def)

lemma evaluate_blocking_iff:
  "rd_is_blocking (evaluate_readiness config state src present) \<longleftrightarrow> missing_inputs_of config state present \<noteq> []"
  by (simp add: rd_is_blocking_def evaluate_readiness_def Let_def)

lemma telemetry_degraded_iff:
  "fst (telemetry_degradation state) \<noteq> [] \<longleftrightarrow>
     vehicle_socs state \<noteq> [] \<and> (\<forall>(vid, soc) \<in> set (vehicle_socs state). soc = 1 / 2)"
proof -
  have len: "length (filter P xs) = length xs \<longleftrightarrow> (\<forall>x \<in> set xs. P x)" for P and xs :: "(string \<times> pyfloat) list"
    by (metis filter_True length_filter_less less_irrefl)
  have "(filter P xs \<noteq> [] \<and> length (filter P xs) = length xs \<and> xs \<noteq> []) \<longleftrightarrow> xs \<noteq> [] \<and> (\<forall>x \<in> set xs. P x)"
    for P and xs :: "(string \<times> pyfloat) list"
    using len [of P xs] by (auto simp: filter_empty_conv neq_Nil_conv)
  from this [of "\<lambda>(vid, soc). soc = 1 / 2" "vehicle_socs state"] show ?thesis
    by (auto simp: telemetry_degradation_def Let_def)
qed

lemma building_degraded_iff:
  "fst (building_load_degradation config src) \<noteq> [] \<longleftrightarrow>
     src \<in> {''forecast_fallback'', ''static_assumption'', ''absent''}"
  by (simp add: building_load_degradation_def)

lemma update_all_other:
  "k \<notin> fst ` set kvs \<Longrightarrow> map_of (foldl (\<lambda>d (k, v). AList.update k v d) d kvs) k = map_of d k"
  by (induction kvs arbitrary: d) auto

lemma depot_payload_steps:
  "''n_timesteps'' \<notin> fst ` set md \<Longrightarrow>
     map_of (depot_payload u config state md) ''n_timesteps'' = Some (PInt (int (length (building_power state))))"
  by (simp add: depot_payload_def update_all_other)

lemma get_or_list: "map_of d k = Some (PList xs) \<Longrightarrow> list_of_length (get_truthy d k (PList [])) n \<longleftrightarrow> int (length xs) = n"
  by (simp add: get_truthy_def list_of_length_def)

lemma replay_of_payload:
  assumes "map_of (sn_depot s) ''n_timesteps'' = Some (PInt n)" and "0 \<le> n"
    and "map_of (sn_building_load s) ''values_kw'' = Some (PList vs)"
  shows "replay_payload (snapshot_to_payload isofmt s) =
     (if int (length (sn_prices s)) = n \<and> int (length vs) = n then Inr (snapshot_to_payload isofmt s) else Inl ValueError)"
proof -
  let ?p = "snapshot_to_payload isofmt s"
  have req: "\<not> (\<exists>k \<in> set replay_required. map_of ?p k = None)"
    by (simp add: replay_required_def snapshot_to_payload_def)
  have rd: "replay_readiness_ok ?p" by (simp add: replay_readiness_ok_def snapshot_to_payload_def)
  have n: "replay_n_timesteps ?p = Some n"
    using assms(1,2) by (simp add: replay_n_timesteps_def snapshot_to_payload_def)
  have pr: "list_of_length (get_truthy ?p ''prices'' (PList [])) n \<longleftrightarrow> int (length (sn_prices s)) = n"
    by (subst get_or_list [of _ _ "map PFloat (sn_prices s)"]) (simp_all add: snapshot_to_payload_def)
  have ne: "sn_building_load s \<noteq> []" using assms(3) by auto
  have bl: "list_of_length (replay_building_values ?p) n \<longleftrightarrow> int (length vs) = n"
    using assms(3) ne by (simp add: replay_building_values_def get_truthy_def snapshot_to_payload_def list_of_length_def)
  have vs: "replay_versions_ok ?p"
    by (simp add: replay_versions_ok_def get_truthy_def snapshot_to_payload_def)
  show ?thesis
    unfolding replay_payload_def if_not_P [OF req] by (simp add: rd n pr bl vs)
qed

section \<open>Properties\<close>

text \<open>The readiness verdict: a run is refused exactly when a hard prerequisite is missing (no
  vehicles, no chargers, no prices, no schedules, or no access matrix outside the all-to-all mode);
  otherwise it is degraded exactly when building load is not metered or every state of charge is
  the default; the building load alone never blocks.\<close>

theorem readiness_verdict:
  "(rd_is_blocking (evaluate_readiness config state src present) \<longleftrightarrow>
      vehicle_capacities config = [] \<or> charger_groups config = [] \<or> sum_list (map snd (charger_groups config)) = 0 \<or>
      prices state = [] \<or> \<not> present \<or>
      charger_vehicle_access_default config \<noteq> ''all_to_all'' \<and> charger_vehicle_access config = []) \<and>
   (rd_is_degraded (evaluate_readiness config state src present) \<longleftrightarrow>
      \<not> rd_is_blocking (evaluate_readiness config state src present) \<and>
      (src \<in> {''forecast_fallback'', ''static_assumption'', ''absent''} \<or>
       vehicle_socs state \<noteq> [] \<and> (\<forall>(vid, soc) \<in> set (vehicle_socs state). soc = 1 / 2))) \<and>
   (rd_is_ready (evaluate_readiness config state src present) \<longleftrightarrow>
      \<not> rd_is_blocking (evaluate_readiness config state src present) \<and>
      \<not> rd_is_degraded (evaluate_readiness config state src present))"
  unfolding telemetry_degraded_iff [symmetric] building_degraded_iff [where config = config, symmetric]
  by (simp add: evaluate_readiness_def rd_is_blocking_def rd_is_degraded_def rd_is_ready_def missing_inputs_of_def Let_def)

theorem readiness_verdict_witness:
  "rd_is_blocking (evaluate_readiness
     (base_config\<lparr>vehicle_capacities := [], charger_groups := [(50, 2)], charger_vehicle_access_default := ''all_to_all''\<rparr>)
     (base_state\<lparr>prices := [1], building_power := [1]\<rparr>)
     ''meter'' True)"
  by (simp add: readiness_verdict [THEN conjunct1] base_config_def)

text \<open>C38: A snapshot built from the assembled inputs survives storage: the payload written from it is
  accepted by the replay check, unchanged, exactly when there is one price per building-load
  timestep; the metadata of the depot must not overwrite the number of timesteps.\<close>

theorem snapshot_replays:
  assumes "build_snapshot isofmt fs mt depot org config state h h' sch weather fid tel rep md = Inr s"
    and "''n_timesteps'' \<notin> fst ` set md"
  shows "replay_payload (snapshot_to_payload isofmt s) =
     (if length (prices state) = length (building_power state) then Inr (snapshot_to_payload isofmt s) else Inl ValueError)"
proof -
  obtain u where s: "sn_depot s = depot_payload u config state md" "sn_prices s = prices state"
      "sn_building_load s = building_payload config state rep"
    using assms(1) by (auto simp: build_snapshot_def split: option.splits if_splits)
  show ?thesis
    using replay_of_payload [of s "int (length (building_power state))" "map PFloat (building_power state)" isofmt]
    by (auto simp: s depot_payload_steps [OF assms(2)] building_payload_def Let_def)
qed

theorem snapshot_replays_witness:
  "\<exists>s. build_snapshot (\<lambda>_. ''t'') (\<lambda>_. ''50'')
     \<lparr>mt_snapshot_id = ''s'', mt_captured_at = 0, mt_code = None, mt_solver = None, mt_surrogate = None\<rparr> (Some ''d'') None
     (base_config\<lparr>vehicle_capacities := [(''v'', 300)], charger_groups := [(50, 2)], charger_vehicle_access_default := ''all_to_all''\<rparr>)
     (base_state\<lparr>prices := [1], building_power := [7]\<rparr>)
     0 1 [] [] None [] (stub_readiness None) [] = Inr s \<and>
   replay_payload (snapshot_to_payload (\<lambda>_. ''t'') s) = Inr (snapshot_to_payload (\<lambda>_. ''t'') s)"
proof -
  let ?c = "(base_config\<lparr>vehicle_capacities := [(''v'', 300)], charger_groups := [(50, 2)], charger_vehicle_access_default := ''all_to_all''\<rparr>)"
  let ?st = "(base_state\<lparr>prices := [1], building_power := [7]\<rparr>)"
  let ?mt = "\<lparr>mt_snapshot_id = ''s'', mt_captured_at = 0, mt_code = None, mt_solver = None, mt_surrogate = None\<rparr>"
  obtain s where s: "build_snapshot (\<lambda>_. ''t'') (\<lambda>_. ''50'') ?mt (Some ''d'') None ?c ?st 0 1 [] [] None [] (stub_readiness None) [] = Inr s"
    by (simp add: build_snapshot_def)
  from snapshot_replays [OF this] have "replay_payload (snapshot_to_payload (\<lambda>_. ''t'') s) = Inr (snapshot_to_payload (\<lambda>_. ''t'') s)"
    by (simp add: base_state_def)
  with s show ?thesis by blast
qed

text \<open>The fallback snapshot never masks a veto and never invents one: it blocks exactly when the
  readiness report it was given blocks, it is otherwise degraded with the failure recorded, and its
  payload always replays.\<close>

theorem stub_keeps_veto:
  "(rd_is_blocking (sn_readiness (stub_snapshot mt fresh depot h h' r)) \<longleftrightarrow> (case r of None \<Rightarrow> False | Some rep \<Rightarrow> rd_is_blocking rep)) \<and>
   (rd_is_blocking (sn_readiness (stub_snapshot mt fresh depot h h' r)) \<or> rd_is_degraded (sn_readiness (stub_snapshot mt fresh depot h h' r))) \<and>
   ''snapshot_construction_failed'' \<in> set (rd_degraded_reasons (sn_readiness (stub_snapshot mt fresh depot h h' r))) \<and>
   replay_payload (snapshot_to_payload isofmt (stub_snapshot mt fresh depot h h' r)) =
     Inr (snapshot_to_payload isofmt (stub_snapshot mt fresh depot h h' r))"
proof -
  have "replay_payload (snapshot_to_payload isofmt (stub_snapshot mt fresh depot h h' r)) =
     Inr (snapshot_to_payload isofmt (stub_snapshot mt fresh depot h h' r))"
    by (subst replay_of_payload [where n = 0 and vs = "[]"]) (simp_all add: stub_snapshot_def)
  then show ?thesis
    by (auto simp: stub_snapshot_def stub_readiness_def rd_is_blocking_def rd_is_degraded_def split: option.split)
qed

end
