(* ===== verification/Trigger_Monitor.thy ===== *)
theory Trigger_Monitor
  imports Interfaces
begin

text \<open>
  Re-optimisation triggers, \<open>src/src/core/state/triggers.py\<close>: class \<open>TriggerMonitor\<close> with its three
  deviation checks, the VDV 463 check and one iteration of its monitoring loop. What the database
  and the assembler deliver in an iteration is an argument (\<open>monitor_env\<close>), a failed query included;
  so is whether the callback \<open>on_trigger\<close> returned or raised. A reason is a value of
  \<open>trigger_reason\<close> in place of its formatted text, and no reason is the empty string.
\<close>

section \<open>Model\<close>

record TriggerConfig =
  soc_deviation_threshold :: pyfloat
  price_change_percent :: pyfloat
  price_change_absolute :: pyfloat
  return_time_deviation_min :: pyfloat
  check_interval_sec :: pyfloat
  trigger_cooldown_minutes :: int

definition default_trigger_config :: TriggerConfig where
  "default_trigger_config = \<lparr>soc_deviation_threshold = 5 / 100, price_change_percent = 25 / 100,
     price_change_absolute = 25, return_time_deviation_min = 15, check_interval_sec = 60,
     trigger_cooldown_minutes = 5\<rparr>"

datatype trigger_reason =
    Scheduled
  | SocDeviation string pyfloat pyfloat
  | PriceChange dtime pyfloat pyfloat
  | ReturnDelay string dtime dtime
  | Vdv463ChargingRequestChange
  | InterdepotHandoff string string
  | ReasonText string

record TriggerMonitor =
  tm_config :: TriggerConfig
  tm_has_assembler :: bool
  tm_has_pool :: bool
  tm_depot_id :: "string option"
  tm_last_prices :: "(dtime, pyfloat) pydict"
  tm_expected_socs :: "(string, pyfloat) pydict"
  tm_expected_return_times :: "(string, dtime) pydict"
  tm_running :: bool
  tm_last_trigger_time :: "dtime option"
  tm_trigger_cooldown_sec :: pyfloat
  tm_last_scheduled_hour :: "int option"
  tm_last_vdv463_update_at :: "dtime option"

text \<open>\<open>assembler\<close> is the depot id the assembler carries, when there is an assembler. An empty depot id
  is falsy.\<close>

definition tm_init ::
  "TriggerConfig \<Rightarrow> string option option \<Rightarrow> bool \<Rightarrow> string option \<Rightarrow> TriggerMonitor result" where
  "tm_init cfg assembler pool depot_id =
     (if assembler = None \<and> (\<not> pool \<or> depot_id = None) then Inl ValueError
      else Inr
        \<lparr>tm_config = cfg, tm_has_assembler = (assembler \<noteq> None), tm_has_pool = pool,
         tm_depot_id = (if depot_id \<noteq> None \<and> depot_id \<noteq> Some '''' then depot_id
                        else case assembler of None \<Rightarrow> None | Some d \<Rightarrow> d),
         tm_last_prices = [], tm_expected_socs = [], tm_expected_return_times = [], tm_running = False,
         tm_last_trigger_time = None, tm_trigger_cooldown_sec = of_int (trigger_cooldown_minutes cfg) * 60,
         tm_last_scheduled_hour = None, tm_last_vdv463_update_at = None\<rparr>)"

definition update_expected_state ::
  "(string, pyfloat) pydict \<Rightarrow> (string, dtime) pydict \<Rightarrow> TriggerMonitor \<Rightarrow> TriggerMonitor" where
  "update_expected_state socs returns m = m\<lparr>tm_expected_socs := socs, tm_expected_return_times := returns\<rparr>"

definition update_prices :: "(dtime, pyfloat) pydict \<Rightarrow> TriggerMonitor \<Rightarrow> TriggerMonitor" where
  "update_prices prices m = m\<lparr>tm_last_prices := prices\<rparr>"

text \<open>The three checks walk a dictionary in order and return at the first entry that deviates.\<close>

fun check_soc_deviation :: "TriggerMonitor \<Rightarrow> (string, pyfloat) pydict \<Rightarrow> trigger_reason option" where
  "check_soc_deviation m [] = None"
| "check_soc_deviation m ((vid, current) # rest) =
     (case map_of (tm_expected_socs m) vid of
        None \<Rightarrow> check_soc_deviation m rest
      | Some expected \<Rightarrow>
          let deviation = \<bar>current - expected\<bar>
          in if deviation > soc_deviation_threshold (tm_config m) then Some (SocDeviation vid expected current)
             else check_soc_deviation m rest)"

fun check_price_change :: "TriggerMonitor \<Rightarrow> (dtime, pyfloat) pydict \<Rightarrow> trigger_reason option" where
  "check_price_change m [] = None"
| "check_price_change m ((ts, current) # rest) =
     (case map_of (tm_last_prices m) ts of
        None \<Rightarrow> check_price_change m rest
      | Some old \<Rightarrow>
          if old > 0 then
            let pct_change = \<bar>current - old\<bar> / old;
                abs_change = \<bar>current - old\<bar> * 1000
            in if pct_change > price_change_percent (tm_config m) \<or> abs_change > price_change_absolute (tm_config m)
               then Some (PriceChange ts old current) else check_price_change m rest
          else check_price_change m rest)"

definition return_threshold :: "TriggerMonitor \<Rightarrow> int" where
  "return_threshold m = round_half_even (return_time_deviation_min (tm_config m) * of_int usec_per_min)"

fun check_return_time_deviation :: "TriggerMonitor \<Rightarrow> (string, dtime) pydict \<Rightarrow> trigger_reason option" where
  "check_return_time_deviation m [] = None"
| "check_return_time_deviation m ((vid, actual) # rest) =
     (case map_of (tm_expected_return_times m) vid of
        None \<Rightarrow> check_return_time_deviation m rest
      | Some expected \<Rightarrow>
          if actual - expected > return_threshold m then Some (ReturnDelay vid expected actual)
          else check_return_time_deviation m rest)"

definition trigger_interdepot_handoff :: "string \<Rightarrow> string \<Rightarrow> trigger_reason" where
  "trigger_interdepot_handoff message_id vehicle_id = InterdepotHandoff message_id vehicle_id"

text \<open>What one iteration reads. \<open>None\<close> is a query or an assembler call that raised.\<close>

record monitor_env =
  me_now :: dtime
  me_asm_socs :: "(string, pyfloat) pydict option"
  me_db_socs :: "(string \<times> pyfloat) list option"
  me_asm_prices :: "pyfloat list option"
  me_price_now :: dtime
  me_delta_t :: pyfloat
  me_db_prices :: "(dtime \<times> pyfloat) list option"
  me_static_pool :: bool
  me_db_returns :: "(string \<times> dtime) list option"
  me_vdv463 :: "dtime option option"
  me_callback_ok :: bool

definition dict_of_rows :: "('k \<times> 'v) list \<Rightarrow> ('k, 'v) pydict" where
  "dict_of_rows rows = foldl (\<lambda>d (k, v). AList.update k v d) [] rows"

definition truthy_id :: "string option \<Rightarrow> bool" where
  "truthy_id d \<longleftrightarrow> d \<noteq> None \<and> d \<noteq> Some ''''"

definition get_current_vehicle_socs :: "monitor_env \<Rightarrow> TriggerMonitor \<Rightarrow> (string, pyfloat) pydict" where
  "get_current_vehicle_socs env m =
     (if tm_has_assembler m then (case me_asm_socs env of None \<Rightarrow> [] | Some d \<Rightarrow> d)
      else if \<not> tm_has_pool m \<or> \<not> truthy_id (tm_depot_id m) then []
      else case me_db_socs env of None \<Rightarrow> [] | Some rows \<Rightarrow> dict_of_rows rows)"

text \<open>\<open>timedelta(hours=h)\<close>, rounded to whole microseconds.\<close>

definition timedelta_hours :: "pyfloat \<Rightarrow> int" where
  "timedelta_hours h = round_half_even (h * of_int usec_per_hour)"

definition get_current_prices :: "monitor_env \<Rightarrow> TriggerMonitor \<Rightarrow> (dtime, pyfloat) pydict" where
  "get_current_prices env m =
     (if tm_has_assembler m then
        (case me_asm_prices env of
           None \<Rightarrow> []
         | Some prices \<Rightarrow>
             dict_of_rows (map (\<lambda>(i, price). (me_price_now env + timedelta_hours (of_nat i * me_delta_t env), price))
               (enumerate 0 (take 24 prices))))
      else if \<not> tm_has_pool m \<or> \<not> truthy_id (tm_depot_id m) then []
      else case me_db_prices env of None \<Rightarrow> [] | Some rows \<Rightarrow> dict_of_rows rows)"

definition get_actual_return_times :: "monitor_env \<Rightarrow> TriggerMonitor \<Rightarrow> (string, dtime) pydict" where
  "get_actual_return_times env m =
     (if \<not> me_static_pool env \<or> \<not> truthy_id (tm_depot_id m) then []
      else case me_db_returns env of None \<Rightarrow> [] | Some rows \<Rightarrow> dict_of_rows rows)"

text \<open>\<open>me_vdv463\<close>: \<open>None\<close> the query raised, \<open>Some None\<close> no row.\<close>

definition check_vdv463_charging_request_change ::
  "monitor_env \<Rightarrow> TriggerMonitor \<Rightarrow> trigger_reason option \<times> TriggerMonitor" where
  "check_vdv463_charging_request_change env m =
     (if \<not> tm_has_pool m \<or> \<not> truthy_id (tm_depot_id m) then (None, m)
      else case me_vdv463 env of
             None \<Rightarrow> (None, m)
           | Some None \<Rightarrow> (None, m)
           | Some (Some last_update) \<Rightarrow>
               let m' = m\<lparr>tm_last_vdv463_update_at := Some last_update\<rparr>
               in (case tm_last_vdv463_update_at m of
                     None \<Rightarrow> (None, m')
                   | Some seen \<Rightarrow> if last_update > seen then (Some Vdv463ChargingRequestChange, m') else (None, m')))"

definition first_some :: "'a option list \<Rightarrow> 'a option" where
  "first_some xs = (case filter (\<lambda>x. x \<noteq> None) xs of [] \<Rightarrow> None | x # _ \<Rightarrow> x)"

definition cooldown_passed :: "TriggerMonitor \<Rightarrow> dtime \<Rightarrow> bool" where
  "cooldown_passed m now =
     (case tm_last_trigger_time m of
        None \<Rightarrow> True
      | Some t \<Rightarrow> total_seconds (now - t) \<ge> tm_trigger_cooldown_sec m)"

text \<open>The callback is invoked with the reason; the time is recorded only when it returns.\<close>

definition fire :: "trigger_reason \<Rightarrow> monitor_env \<Rightarrow> TriggerMonitor \<Rightarrow> trigger_reason option \<times> TriggerMonitor" where
  "fire reason env m =
     (Some reason, if me_callback_ok env then m\<lparr>tm_last_trigger_time := Some (me_now env)\<rparr> else m)"

text \<open>One pass of the loop body; the first component is the reason handed to the callback.\<close>

definition monitor_iteration :: "TriggerMonitor \<Rightarrow> monitor_env \<Rightarrow> trigger_reason option \<times> TriggerMonitor" where
  "monitor_iteration m env =
     (let now = me_now env;
          current_hour = hour_of_day now;
          scheduled = tm_last_scheduled_hour m = None \<or> tm_last_scheduled_hour m \<noteq> Some current_hour;
          m1 = (if scheduled then m\<lparr>tm_last_scheduled_hour := Some current_hour\<rparr> else m);
          soc_trigger = check_soc_deviation m1 (get_current_vehicle_socs env m1);
          price_trigger = check_price_change m1 (get_current_prices env m1);
          return_trigger = check_return_time_deviation m1 (get_actual_return_times env m1);
          r = check_vdv463_charging_request_change env m1;
          vdv463_trigger = fst r; m2 = snd r
      in if scheduled then fire Scheduled env m2
         else case first_some [soc_trigger, price_trigger, return_trigger, vdv463_trigger] of
                None \<Rightarrow> (None, m2)
              | Some reason \<Rightarrow> if cooldown_passed m2 now then fire reason env m2 else (None, m2))"

definition tm_start :: "TriggerMonitor \<Rightarrow> TriggerMonitor" where
  "tm_start m = m\<lparr>tm_running := True\<rparr>"

definition tm_stop :: "TriggerMonitor \<Rightarrow> TriggerMonitor" where
  "tm_stop m = m\<lparr>tm_running := False\<rparr>"

text \<open>The loop over a sequence of iterations: the times and reasons of the callbacks.\<close>

fun monitor_run :: "TriggerMonitor \<Rightarrow> monitor_env list \<Rightarrow> (dtime \<times> trigger_reason) list" where
  "monitor_run m [] = []"
| "monitor_run m (env # envs) =
     (if \<not> tm_running m then []
      else let r = monitor_iteration m env
           in (case fst r of None \<Rightarrow> [] | Some reason \<Rightarrow> [(me_now env, reason)]) @ monitor_run (snd r) envs)"

section \<open>Lemmas\<close>

lemma check_soc_deviation_Some:
  "check_soc_deviation m cs = Some r \<Longrightarrow>
     \<exists>vid cur e. (vid, cur) \<in> set cs \<and> map_of (tm_expected_socs m) vid = Some e \<and>
       \<bar>cur - e\<bar> > soc_deviation_threshold (tm_config m) \<and> r = SocDeviation vid e cur"
proof (induction m cs rule: check_soc_deviation.induct)
  case (2 m vid current rest)
  show ?case
  proof (cases "map_of (tm_expected_socs m) vid")
    case None
    with 2 show ?thesis by fastforce
  next
    case (Some e)
    with 2 show ?thesis
      by (cases "\<bar>current - e\<bar> > soc_deviation_threshold (tm_config m)") (simp, fastforce)+
  qed
qed simp

lemma check_soc_deviation_None:
  "check_soc_deviation m cs = None \<longleftrightarrow>
     (\<forall>(vid, cur) \<in> set cs. \<forall>e. map_of (tm_expected_socs m) vid = Some e \<longrightarrow>
        \<bar>cur - e\<bar> \<le> soc_deviation_threshold (tm_config m))"
  by (induction m cs rule: check_soc_deviation.induct) (auto simp: Let_def not_less split: option.splits)

lemma check_price_change_None:
  "check_price_change m cs = None \<longleftrightarrow>
     (\<forall>(ts, cur) \<in> set cs. \<forall>l. map_of (tm_last_prices m) ts = Some l \<longrightarrow> l > 0 \<longrightarrow>
        \<bar>cur - l\<bar> / l \<le> price_change_percent (tm_config m) \<and> \<bar>cur - l\<bar> * 1000 \<le> price_change_absolute (tm_config m))"
  by (induction m cs rule: check_price_change.induct) (auto simp: Let_def not_less split: option.splits if_splits)

lemma check_return_None:
  "check_return_time_deviation m cs = None \<longleftrightarrow>
     (\<forall>(vid, act) \<in> set cs. \<forall>e. map_of (tm_expected_return_times m) vid = Some e \<longrightarrow> act - e \<le> return_threshold m)"
  by (induction m cs rule: check_return_time_deviation.induct) (auto simp: not_less split: option.splits)

lemma first_some_empty [simp]: "first_some [] = None"
  by (simp add: first_some_def)

lemma first_some_Cons: "first_some (x # xs) = (case x of None \<Rightarrow> first_some xs | Some y \<Rightarrow> Some y)"
  by (simp add: first_some_def split: option.split)

lemma first_some_None [simp]: "first_some xs = None \<longleftrightarrow> (\<forall>x \<in> set xs. x = None)"
  by (induction xs) (auto simp: first_some_def split: list.splits)

lemma check_vdv463_frame:
  "tm_last_trigger_time (snd (check_vdv463_charging_request_change env m)) = tm_last_trigger_time m"
  "tm_trigger_cooldown_sec (snd (check_vdv463_charging_request_change env m)) = tm_trigger_cooldown_sec m"
  "tm_last_scheduled_hour (snd (check_vdv463_charging_request_change env m)) = tm_last_scheduled_hour m"
  "tm_running (snd (check_vdv463_charging_request_change env m)) = tm_running m"
  by (simp_all add: check_vdv463_charging_request_change_def Let_def split: option.split)

lemma monitor_iteration_cooldown_kept:
  "tm_trigger_cooldown_sec (snd (monitor_iteration m env)) = tm_trigger_cooldown_sec m"
  by (simp add: monitor_iteration_def Let_def fire_def check_vdv463_frame split: option.split)

lemma monitor_iteration_hour:
  "tm_last_scheduled_hour (snd (monitor_iteration m env)) = Some (hour_of_day (me_now env))"
  by (auto simp: monitor_iteration_def Let_def fire_def check_vdv463_frame split: option.split)

lemma first_some_not_scheduled:
  "first_some [check_soc_deviation m a, check_price_change m b, check_return_time_deviation m c,
     fst (check_vdv463_charging_request_change env m)] \<noteq> Some Scheduled"
proof -
  have "check_soc_deviation m a \<noteq> Some Scheduled" using check_soc_deviation_Some [of m a Scheduled] by blast
  moreover have "check_price_change m b \<noteq> Some Scheduled"
    by (induction m b rule: check_price_change.induct) (auto simp: Let_def split: option.splits)
  moreover have "check_return_time_deviation m c \<noteq> Some Scheduled"
    by (induction m c rule: check_return_time_deviation.induct) (auto split: option.splits)
  moreover have "fst (check_vdv463_charging_request_change env m) \<noteq> Some Scheduled"
    by (simp add: check_vdv463_charging_request_change_def Let_def split: option.split)
  ultimately show ?thesis by (auto simp: first_some_def split: if_splits)
qed

lemma monitor_iteration_scheduled:
  "fst (monitor_iteration m env) = Some Scheduled \<longleftrightarrow> tm_last_scheduled_hour m \<noteq> Some (hour_of_day (me_now env))"
  using first_some_not_scheduled [of m _ _ _ env]
  by (auto simp: monitor_iteration_def Let_def fire_def split: option.split)

text \<open>An iteration that fires for a deviation waited for the cooldown; whatever fires is recorded.\<close>

lemma monitor_iteration_spaced:
  "fst (monitor_iteration m env) = Some r \<Longrightarrow> r \<noteq> Scheduled \<Longrightarrow> tm_last_trigger_time m = Some t \<Longrightarrow>
     tm_trigger_cooldown_sec m \<le> total_seconds (me_now env - t)"
  by (auto simp: monitor_iteration_def Let_def fire_def cooldown_passed_def check_vdv463_frame
      split: option.splits if_splits)

lemma monitor_iteration_records:
  "me_callback_ok env \<Longrightarrow>
     tm_last_trigger_time (snd (monitor_iteration m env)) =
       (if fst (monitor_iteration m env) = None then tm_last_trigger_time m else Some (me_now env))"
  by (simp add: monitor_iteration_def Let_def fire_def check_vdv463_frame split: option.split)

lemma monitor_iteration_running: "tm_running (snd (monitor_iteration m env)) = tm_running m"
  by (simp add: monitor_iteration_def Let_def fire_def check_vdv463_frame split: option.split)

lemma monitor_run_first:
  "\<forall>env \<in> set envs. me_callback_ok env \<Longrightarrow> tm_last_trigger_time m = Some t \<Longrightarrow>
     monitor_run m envs = (u, r) # rest \<Longrightarrow> r = Scheduled \<or> tm_trigger_cooldown_sec m \<le> total_seconds (u - t)"
proof (induction envs arbitrary: m)
  case Nil
  then show ?case by simp
next
  case (Cons env envs)
  let ?r = "monitor_iteration m env"
  have running: "tm_running m" using Cons.prems(3) by (auto split: if_splits)
  show ?case
  proof (cases "fst ?r")
    case None
    then have "tm_last_trigger_time (snd ?r) = Some t" using Cons.prems(1,2) by (simp add: monitor_iteration_records)
    with Cons.IH [of "snd ?r"] Cons.prems None running show ?thesis
      by (simp add: Let_def monitor_iteration_cooldown_kept)
  next
    case (Some reason)
    then have "u = me_now env" "r = reason" using Cons.prems(3) running by (auto simp: Let_def)
    with monitor_iteration_spaced [OF Some _ Cons.prems(2)] show ?thesis by blast
  qed
qed

lemma monitor_run_spaced:
  "\<forall>env \<in> set envs. me_callback_ok env \<Longrightarrow>
     successively (\<lambda>(t, r) (t', r'). r' = Scheduled \<or> tm_trigger_cooldown_sec m \<le> total_seconds (t' - t)) (monitor_run m envs)"
proof (induction envs arbitrary: m)
  case Nil
  then show ?case by simp
next
  case (Cons env envs)
  let ?m = "snd (monitor_iteration m env)"
  have IH: "successively (\<lambda>(t, r) (t', r'). r' = Scheduled \<or> tm_trigger_cooldown_sec m \<le> total_seconds (t' - t)) (monitor_run ?m envs)"
    using Cons.IH [of ?m] Cons.prems by (simp add: monitor_iteration_cooldown_kept)
  show ?case
  proof (cases "fst (monitor_iteration m env)")
    case None
    with IH show ?thesis by (simp add: Let_def)
  next
    case (Some reason)
    then have "tm_last_trigger_time ?m = Some (me_now env)" using Cons.prems by (simp add: monitor_iteration_records)
    then have "monitor_run ?m envs = (u, r) # rest \<Longrightarrow>
        r = Scheduled \<or> tm_trigger_cooldown_sec m \<le> total_seconds (u - me_now env)" for u r rest
      using monitor_run_first [of envs ?m "me_now env" u r rest] Cons.prems by (simp add: monitor_iteration_cooldown_kept)
    with IH Some show ?thesis by (cases "monitor_run ?m envs") (auto simp: Let_def)
  qed
qed

text \<open>The monitor after a sequence of iterations.\<close>

definition monitor_after :: "TriggerMonitor \<Rightarrow> monitor_env list \<Rightarrow> TriggerMonitor" where
  "monitor_after m envs = foldl (\<lambda>m env. snd (monitor_iteration m env)) m envs"

lemma monitor_after_hour:
  "tm_last_scheduled_hour (monitor_after m envs) =
     (if envs = [] then tm_last_scheduled_hour m else Some (hour_of_day (me_now (last envs))))"
  by (induction envs rule: rev_induct) (auto simp: monitor_after_def monitor_iteration_hour)

definition sample_monitor :: TriggerMonitor where
  "sample_monitor =
     \<lparr>tm_config = default_trigger_config, tm_has_assembler = True, tm_has_pool = False, tm_depot_id = Some ''d'',
      tm_last_prices = [], tm_expected_socs = [(''bus'', 1 / 2)], tm_expected_return_times = [], tm_running = True,
      tm_last_trigger_time = None, tm_trigger_cooldown_sec = 300, tm_last_scheduled_hour = None,
      tm_last_vdv463_update_at = None\<rparr>"

definition sample_env :: "dtime \<Rightarrow> pyfloat \<Rightarrow> monitor_env" where
  "sample_env now soc =
     \<lparr>me_now = now, me_asm_socs = Some [(''bus'', soc)], me_db_socs = None, me_asm_prices = None, me_price_now = now,
      me_delta_t = 1, me_db_prices = None, me_static_pool = False, me_db_returns = None, me_vdv463 = None,
      me_callback_ok = True\<rparr>"

section \<open>Properties\<close>

text \<open>Whatever the monitor reads, two successive callbacks are either at least the cooldown apart
  or the second is the hourly scheduled one, provided the callbacks return.\<close>

theorem deviation_triggers_spaced:
  assumes "\<forall>env \<in> set envs. me_callback_ok env"
  shows "successively (\<lambda>(t, r) (t', r'). r' = Scheduled \<or> tm_trigger_cooldown_sec m \<le> total_seconds (t' - t))
     (monitor_run m envs)"
  using assms by (rule monitor_run_spaced)

theorem deviation_triggers_spaced_witness:
  "successively (\<lambda>(t, r) (t', r'). r' = Scheduled \<or> 300 \<le> total_seconds (t' - t))
     (monitor_run sample_monitor [sample_env 0 (1 / 2), sample_env 60000000 (9 / 10), sample_env 360000000 (9 / 10)])"
  using deviation_triggers_spaced [where m = sample_monitor
      and envs = "[sample_env 0 (1 / 2), sample_env 60000000 (9 / 10), sample_env 360000000 (9 / 10)]"]
  by (simp add: sample_env_def sample_monitor_def)

text \<open>The scheduled trigger fires in the first iteration of a new monitor and afterwards exactly in
  the iterations whose hour of day differs from that of the iteration before: once per hour, in every
  hour in which the loop runs.\<close>

theorem scheduled_once_per_hour:
  assumes "tm_init cfg assembler pool depot = Inr m"
  shows "fst (monitor_iteration (monitor_after m envs) env) = Some Scheduled \<longleftrightarrow>
     envs = [] \<or> hour_of_day (me_now env) \<noteq> hour_of_day (me_now (last envs))"
  using assms by (auto simp: monitor_iteration_scheduled monitor_after_hour tm_init_def split: if_splits)

theorem scheduled_once_per_hour_witness:
  "\<exists>m. tm_init default_trigger_config (Some (Some ''d'')) False None = Inr m \<and>
     fst (monitor_iteration (monitor_after m [sample_env 0 0]) (sample_env 3600000000 0)) = Some Scheduled"
  using scheduled_once_per_hour [where cfg = default_trigger_config and assembler = "Some (Some ''d'')" and pool = False
      and depot = None and envs = "[sample_env 0 0]" and env = "sample_env 3600000000 0"]
  by (simp add: tm_init_def sample_env_def hour_of_day_def usec_per_hour_def usec_per_min_def usec_per_sec_def)

text \<open>The deviation checks miss nothing and invent nothing: in an hour whose scheduled trigger has
  fired and after the cooldown, an iteration stays silent exactly when every vehicle with an expected
  state of charge is within the threshold, every price with a positive baseline moved within both
  price thresholds, no vehicle is later than the return threshold, and the VDV 463 requests did not
  change.\<close>

theorem iteration_silent_iff:
  assumes "tm_last_scheduled_hour m = Some (hour_of_day (me_now env))" and "cooldown_passed m (me_now env)"
  shows "fst (monitor_iteration m env) = None \<longleftrightarrow>
     (\<forall>(vid, cur) \<in> set (get_current_vehicle_socs env m). \<forall>e. map_of (tm_expected_socs m) vid = Some e \<longrightarrow>
        \<bar>cur - e\<bar> \<le> soc_deviation_threshold (tm_config m)) \<and>
     (\<forall>(ts, cur) \<in> set (get_current_prices env m). \<forall>l. map_of (tm_last_prices m) ts = Some l \<longrightarrow> l > 0 \<longrightarrow>
        \<bar>cur - l\<bar> / l \<le> price_change_percent (tm_config m) \<and> \<bar>cur - l\<bar> * 1000 \<le> price_change_absolute (tm_config m)) \<and>
     (\<forall>(vid, act) \<in> set (get_actual_return_times env m). \<forall>e. map_of (tm_expected_return_times m) vid = Some e \<longrightarrow>
        act - e \<le> return_threshold m) \<and>
     fst (check_vdv463_charging_request_change env m) = None"
proof -
  let ?m = "snd (check_vdv463_charging_request_change env m)"
  have "cooldown_passed ?m (me_now env)" using assms(2)
    by (simp add: cooldown_passed_def check_vdv463_frame split: option.splits)
  then have "fst (monitor_iteration m env) =
      first_some [check_soc_deviation m (get_current_vehicle_socs env m), check_price_change m (get_current_prices env m),
        check_return_time_deviation m (get_actual_return_times env m), fst (check_vdv463_charging_request_change env m)]"
    using assms(1) by (auto simp: monitor_iteration_def Let_def fire_def first_some_Cons split: option.split)
  then show ?thesis
    by (simp add: check_soc_deviation_None check_price_change_None check_return_None)
qed

theorem iteration_silent_iff_witness:
  "fst (monitor_iteration (sample_monitor\<lparr>tm_last_scheduled_hour := Some 0\<rparr>) (sample_env 60000000 (9 / 10))) \<noteq> None"
proof -
  let ?m = "sample_monitor\<lparr>tm_last_scheduled_hour := Some 0\<rparr>" and ?env = "sample_env 60000000 (9 / 10)"
  have "tm_last_scheduled_hour ?m = Some (hour_of_day (me_now ?env))" "cooldown_passed ?m (me_now ?env)"
    by (simp_all add: sample_monitor_def sample_env_def hour_of_day_def usec_per_hour_def usec_per_min_def usec_per_sec_def
        cooldown_passed_def)
  moreover have "(''bus'', 9 / 10) \<in> set (get_current_vehicle_socs ?env ?m)" "map_of (tm_expected_socs ?m) ''bus'' = Some (1 / 2)"
      "\<not> \<bar>9 / 10 - 1 / 2\<bar> \<le> soc_deviation_threshold (tm_config ?m)"
    by (simp_all add: sample_monitor_def sample_env_def get_current_vehicle_socs_def default_trigger_config_def)
  ultimately show ?thesis
    using iteration_silent_iff [where m = ?m and env = ?env] by blast
qed

end
