(* ===== verification/Depot_Controller.thy ===== *)
theory Depot_Controller
  imports Readiness Trigger_Monitor
begin

text \<open>
  The control loop of one depot, \<open>src/src/core/controller.py\<close> (class \<open>DepotController\<close>), its settings
  (\<open>src/src/core/controller_config.py\<close>) and the manager of the controllers of all depots
  (\<open>src/src/core/controller_manager.py\<close>). What the assembler, the solver, the database and the clock
  deliver during a run is an argument (\<open>run_env\<close>); every awaited call that only logs its failure is an
  entry in the list of effects. A run is one step here: the loop's own run and a triggered run do not
  interleave in this model.
\<close>

section \<open>Model: settings\<close>

record ControllerConfig =
  optimization_horizon_hours :: int
  hourly_optimization_start :: int
  hourly_optimization_end :: int
  optimization_timeout :: pyfloat
  cc_trigger_cooldown_minutes :: int
  max_optimization_failures :: int
  dispatch_retry_attempts :: int
  dispatch_retry_delay_seconds :: pyfloat
  shutdown_timeout_seconds :: pyfloat

definition default_controller_config :: ControllerConfig where
  "default_controller_config =
     \<lparr>optimization_horizon_hours = 24, hourly_optimization_start = 7, hourly_optimization_end = 23,
      optimization_timeout = 60, cc_trigger_cooldown_minutes = 5, max_optimization_failures = 3,
      dispatch_retry_attempts = 3, dispatch_retry_delay_seconds = 2, shutdown_timeout_seconds = 30\<rparr>"

definition validate_config :: "ControllerConfig \<Rightarrow> unit result" where
  "validate_config c =
     (if \<not> (1 \<le> optimization_horizon_hours c \<and> optimization_horizon_hours c \<le> 48) then Inl ValueError
      else if \<not> (0 \<le> hourly_optimization_start c \<and> hourly_optimization_start c \<le> 23) then Inl ValueError
      else if \<not> (0 \<le> hourly_optimization_end c \<and> hourly_optimization_end c \<le> 23) then Inl ValueError
      else if hourly_optimization_start c \<ge> hourly_optimization_end c then Inl ValueError
      else if optimization_timeout c \<le> 0 then Inl ValueError
      else if cc_trigger_cooldown_minutes c < 0 then Inl ValueError
      else if max_optimization_failures c < 1 then Inl ValueError
      else if dispatch_retry_attempts c < 0 then Inl ValueError
      else Inr ())"

section \<open>Model: state\<close>

text \<open>A vehicle's schedule, with the keys \<open>charging_power\<close> and \<open>soc\<close> that may be absent.\<close>

record vehicle_schedule =
  vs_charging_power :: "pyfloat list option"
  vs_soc :: "pyfloat list option"

record OptimizationResult =
  or_run_id :: string
  or_schedule :: "(string, vehicle_schedule) pydict"
  or_battery_dispatch :: "pyfloat list"
  or_grid_power :: "pyfloat list"
  or_peak_demand_kw :: pyfloat
  or_objective_value :: pyfloat
  or_solve_time_s :: pyfloat
  or_status :: string
  or_solver_used :: string

record DepotController =
  dc_depot_id :: string
  dc_config :: DepotConfig
  dc_controller_config :: ControllerConfig
  dc_monitor :: TriggerMonitor
  dc_last_result :: "OptimizationResult option"
  dc_last_run_time :: "dtime option"
  dc_running :: bool
  dc_optimization_failures :: int
  dc_last_trigger_time :: "dtime option"
  dc_breaker_open :: bool
  dc_breaker_reset_time :: "dtime option"
  dc_start_time :: "dtime option"

text \<open>What a run does outside the controller, in order.\<close>

datatype effect =
    PersistSnapshot Snapshot
  | EmitAlerts bool
  | StoreResult OptimizationResult
  | LinkSnapshot
  | Dispatch OptimizationResult

section \<open>Model: one optimisation run\<close>

datatype run_error = ReadinessBlocked | AssemblyError | SolverError | PostError py_error

text \<open>
  The assembler's attempts (\<open>None\<close>: raised) with what it records besides the state, what it does to the
  configuration it shares with the controller (\<open>re_grown\<close>: it adds incoming vehicles to it), whether
  \<open>evaluate_readiness\<close> raised, the parsed ids, the solver's attempts (\<open>None\<close>: raised), and the clock:
  after assembly, when a result is stored, for each entry of the price baseline, and when a failure is
  recorded.
\<close>

record run_env =
  re_assembly :: "nat \<Rightarrow> DepotState option"
  re_grown :: "DepotConfig \<Rightarrow> DepotConfig"
  re_assembled_at :: dtime
  re_horizon :: "(dtime \<times> dtime) option"
  re_horizon_now :: dtime
  re_building_load_source :: string
  re_schedules_present :: bool
  re_schedules :: "(string, pyval) pydict list"
  re_weather :: "pyval list"
  re_forecast_id :: "string option"
  re_telemetry :: "pyval list"
  re_readiness_raises :: bool
  re_depot_uuid :: "string option"
  re_fresh_uuid :: string
  re_org :: "string option option"
  re_meta :: snapshot_meta
  re_isoformat :: "dtime \<Rightarrow> string"
  re_float_str :: "pyfloat \<Rightarrow> string"
  re_solve :: "nat \<Rightarrow> OptimizationResult option"
  re_stored_at :: "nat \<Rightarrow> dtime"
  re_price_clock :: "nat \<Rightarrow> nat \<Rightarrow> dtime"
  re_failed_at :: "nat \<Rightarrow> dtime"

definition max_retries :: nat where
  "max_retries = 2"

text \<open>The assembly loop: the first attempt that succeeds, \<open>None\<close> when all of them raised.\<close>

fun assemble_state :: "(nat \<Rightarrow> DepotState option) \<Rightarrow> nat \<Rightarrow> nat \<Rightarrow> DepotState option" where
  "assemble_state asm attempt 0 = None"
| "assemble_state asm attempt (Suc left) =
     (case asm attempt of Some st \<Rightarrow> Some st | None \<Rightarrow> assemble_state asm (Suc attempt) left)"

definition capture_snapshot :: "run_env \<Rightarrow> DepotController \<Rightarrow> DepotState \<Rightarrow> int \<Rightarrow> Snapshot" where
  "capture_snapshot env dc state horizon_hours =
     (let horizon = (case re_horizon env of
            Some h \<Rightarrow> h
          | None \<Rightarrow> (re_horizon_now env, re_horizon_now env + horizon_hours * usec_per_hour));
          stub = stub_snapshot (re_meta env) (re_fresh_uuid env) (re_depot_uuid env) (fst horizon) (snd horizon)
      in if re_readiness_raises env then stub None
         else let readiness = evaluate_readiness (dc_config dc) state (re_building_load_source env) (re_schedules_present env)
              in case build_snapshot (re_isoformat env) (re_float_str env) (re_meta env) (re_depot_uuid env) (re_org env)
                        (dc_config dc) state (fst horizon) (snd horizon) (re_schedules env) (re_weather env)
                        (re_forecast_id env) (re_telemetry env) readiness [] of
                   Inr s \<Rightarrow> s
                 | Inl _ \<Rightarrow> stub (Some readiness))"

text \<open>\<open>sched["soc"][1] if len(sched["soc"]) > 1 else sched["soc"][0]\<close>, for every vehicle in turn.\<close>

definition expected_soc :: "vehicle_schedule \<Rightarrow> pyfloat result" where
  "expected_soc sched =
     (case vs_soc sched of
        None \<Rightarrow> Inl KeyError
      | Some [] \<Rightarrow> Inl IndexError
      | Some [x] \<Rightarrow> Inr x
      | Some (x # y # _) \<Rightarrow> Inr y)"

fun expected_socs :: "(string, vehicle_schedule) pydict \<Rightarrow> (string, pyfloat) pydict result" where
  "expected_socs [] = Inr []"
| "expected_socs ((vid, sched) # rest) =
     (case expected_soc sched of
        Inl e \<Rightarrow> Inl e
      | Inr x \<Rightarrow> (case expected_socs rest of Inl e \<Rightarrow> Inl e | Inr d \<Rightarrow> Inr ((vid, x) # d)))"

definition price_baseline :: "(nat \<Rightarrow> dtime) \<Rightarrow> pyfloat \<Rightarrow> pyfloat list \<Rightarrow> (dtime, pyfloat) pydict" where
  "price_baseline clock dt ps =
     dict_of_rows (map (\<lambda>(i, price). (clock i + timedelta_hours (of_nat i * dt), price)) (enumerate 0 (take 24 ps)))"

definition degrade_status :: "Snapshot \<Rightarrow> OptimizationResult \<Rightarrow> OptimizationResult" where
  "degrade_status snapshot result =
     (if rd_is_degraded (sn_readiness snapshot) \<and> or_status result \<in> {''optimal'', ''feasible''}
      then result\<lparr>or_status := ''degraded''\<rparr> else result)"

text \<open>The \<open>except\<close> block of an attempt.\<close>

definition record_failure :: "dtime \<Rightarrow> DepotController \<Rightarrow> DepotController" where
  "record_failure now dc =
     (let dc1 = dc\<lparr>dc_optimization_failures := dc_optimization_failures dc + 1\<rparr>
      in if dc_optimization_failures dc1 \<ge> max_optimization_failures (dc_controller_config dc1)
         then dc1\<lparr>dc_breaker_open := True, dc_breaker_reset_time := Some (now + 30 * usec_per_min)\<rparr> else dc1)"

text \<open>An attempt whose solver returned: the result is kept, stored and dispatched before the expected
  state of charge is read from its schedule, which may raise.\<close>

definition finish_attempt ::
  "run_env \<Rightarrow> DepotState \<Rightarrow> Snapshot \<Rightarrow> nat \<Rightarrow> OptimizationResult \<Rightarrow> DepotController \<Rightarrow>
     (py_error + OptimizationResult) \<times> effect list \<times> DepotController" where
  "finish_attempt env state snapshot attempt solved dc =
     (let result = degrade_status snapshot solved;
          dc1 = dc\<lparr>dc_last_result := Some result, dc_last_run_time := Some (re_stored_at env attempt)\<rparr>;
          effects = [StoreResult result, EmitAlerts False, LinkSnapshot, Dispatch result]
      in case expected_socs (or_schedule result) of
           Inl e \<Rightarrow> (Inl e, effects, dc1)
         | Inr socs \<Rightarrow>
             (Inr result, effects,
              dc1\<lparr>dc_monitor := update_prices (price_baseline (re_price_clock env attempt) (delta_t (dc_config dc1)) (prices state))
                                  (update_expected_state socs [] (dc_monitor dc1)),
                  dc_optimization_failures := 0, dc_breaker_open := False, dc_breaker_reset_time := None\<rparr>))"

text \<open>The solve loop from \<open>attempt\<close>, with \<open>left\<close> retries to go. A solver that raises is tried again
  without recording a failure, except on the last attempt; an exception after the solve records one
  at every attempt.\<close>

fun solve_loop ::
  "run_env \<Rightarrow> DepotState \<Rightarrow> Snapshot \<Rightarrow> nat \<Rightarrow> nat \<Rightarrow> DepotController \<Rightarrow>
     (run_error + OptimizationResult) \<times> effect list \<times> DepotController" where
  "solve_loop env state snapshot attempt left dc =
     (case re_solve env attempt of
        None \<Rightarrow>
          (case left of
             0 \<Rightarrow> (Inl SolverError, [], record_failure (re_failed_at env attempt) dc)
           | Suc n \<Rightarrow> solve_loop env state snapshot (Suc attempt) n dc)
      | Some solved \<Rightarrow>
          (case finish_attempt env state snapshot attempt solved dc of
             (Inr result, effects, dc1) \<Rightarrow> (Inr result, effects, dc1)
           | (Inl e, effects, dc1) \<Rightarrow>
               (let dc2 = record_failure (re_failed_at env attempt) dc1
                in case left of
                     0 \<Rightarrow> (Inl (PostError e), effects, dc2)
                   | Suc n \<Rightarrow>
                       (let r = solve_loop env state snapshot (Suc attempt) n dc2
                        in (fst r, effects @ fst (snd r), snd (snd r))))))"

declare solve_loop.simps [simp del]

text \<open>The assembler holds the controller's own configuration object, so what it adds to it while it assembles is
  there when readiness is evaluated and when the state is solved, and stays for the next run.\<close>

definition run_optimization ::
  "run_env \<Rightarrow> int option \<Rightarrow> DepotController \<Rightarrow> (run_error + OptimizationResult) \<times> effect list \<times> DepotController" where
  "run_optimization env horizon_hours dc =
     (let effective_horizon = (case horizon_hours of
            Some h \<Rightarrow> h | None \<Rightarrow> optimization_horizon_hours (dc_controller_config dc));
          dc0 = dc\<lparr>dc_config := re_grown env (dc_config dc)\<rparr>
      in case assemble_state (re_assembly env) 0 (max_retries + 1) of
           None \<Rightarrow> (Inl AssemblyError, [], dc0)
         | Some state \<Rightarrow>
             (let dc1 = dc0\<lparr>dc_last_run_time := Some (re_assembled_at env)\<rparr>;
                  snapshot = capture_snapshot env dc1 state effective_horizon
              in if rd_is_blocking (sn_readiness snapshot)
                 then (Inl ReadinessBlocked, [PersistSnapshot snapshot, EmitAlerts True], dc1)
                 else let r = solve_loop env state snapshot 0 max_retries dc1
                      in (fst r, PersistSnapshot snapshot # fst (snd r), snd (snd r))))"

section \<open>Model: triggers and the control loop\<close>

datatype trigger_verdict = IgnoredCooldown | IgnoredBreaker | Ran "run_error + OptimizationResult"

definition trigger_cooldown :: "DepotController \<Rightarrow> int" where
  "trigger_cooldown dc = cc_trigger_cooldown_minutes (dc_controller_config dc) * usec_per_min"

definition in_cooldown :: "dtime \<Rightarrow> DepotController \<Rightarrow> bool" where
  "in_cooldown now dc =
     (case dc_last_trigger_time dc of None \<Rightarrow> False | Some t \<Rightarrow> now - t < trigger_cooldown dc)"

definition breaker_blocks :: "dtime \<Rightarrow> DepotController \<Rightarrow> bool" where
  "breaker_blocks now dc \<longleftrightarrow>
     dc_breaker_open dc \<and> (case dc_breaker_reset_time dc of None \<Rightarrow> False | Some t \<Rightarrow> now < t)"

definition breaker_reset :: "DepotController \<Rightarrow> DepotController" where
  "breaker_reset dc =
     (if dc_breaker_open dc
      then dc\<lparr>dc_breaker_open := False, dc_breaker_reset_time := None, dc_optimization_failures := 0\<rparr> else dc)"

definition handle_trigger ::
  "run_env \<Rightarrow> dtime \<Rightarrow> DepotController \<Rightarrow> trigger_verdict \<times> effect list \<times> DepotController" where
  "handle_trigger env now dc =
     (if in_cooldown now dc then (IgnoredCooldown, [], dc)
      else if breaker_blocks now dc then (IgnoredBreaker, [], dc)
      else let dc1 = (breaker_reset dc)\<lparr>dc_last_trigger_time := Some now\<rparr>;
               r = run_optimization env None dc1
           in (Ran (fst r), fst (snd r), snd (snd r)))"

definition dc_run_start :: "dtime \<Rightarrow> DepotController \<Rightarrow> DepotController" where
  "dc_run_start now dc = dc\<lparr>dc_running := True, dc_start_time := Some now, dc_monitor := tm_start (dc_monitor dc)\<rparr>"

text \<open>\<open>_depot_exists_in_supabase\<close>: a failed query (\<open>None\<close>) counts as alive.\<close>

definition depot_exists :: "bool option \<Rightarrow> bool" where
  "depot_exists row = (case row of None \<Rightarrow> True | Some found \<Rightarrow> found)"

definition hourly_due :: "dtime \<Rightarrow> DepotController \<Rightarrow> bool" where
  "hourly_due now dc \<longleftrightarrow>
     hourly_optimization_start (dc_controller_config dc) \<le> hour_of_day now \<and>
     hour_of_day now \<le> hourly_optimization_end (dc_controller_config dc) \<and>
     (case dc_last_run_time dc of None \<Rightarrow> True | Some t \<Rightarrow> now - t > usec_per_hour)"

text \<open>One pass of the loop body: the effects, and whether an hourly run was started.\<close>

definition control_iteration ::
  "bool option \<Rightarrow> run_env \<Rightarrow> dtime \<Rightarrow> DepotController \<Rightarrow> bool \<times> effect list \<times> DepotController" where
  "control_iteration row env now dc =
     (if \<not> dc_running dc then (False, [], dc)
      else if \<not> depot_exists row then (False, [], dc\<lparr>dc_running := False, dc_monitor := tm_stop (dc_monitor dc)\<rparr>)
      else if hourly_due now dc
           then let r = run_optimization env None dc in (True, fst (snd r), snd (snd r))
           else (False, [], dc))"

definition dc_stop :: "DepotController \<Rightarrow> DepotController" where
  "dc_stop dc = dc\<lparr>dc_running := False, dc_monitor := tm_stop (dc_monitor dc)\<rparr>"

text \<open>\<open>_emit_readiness_alerts\<close>: what is done to which deduplication key. \<open>org\<close> is the organisation, the
  empty string or none being falsy; \<open>row\<close> is the depot check; \<open>ok\<close> says that the notification module
  loaded. The conversions of the two ids to \<open>UUID\<close> stand outside every \<open>try\<close>; after a successful assembly,
  which converts the same ids, they cannot raise.\<close>

datatype alert_action = UpsertAlert string | ResolveAlert string

definition emit_readiness_alerts ::
  "string option \<Rightarrow> bool option \<Rightarrow> bool \<Rightarrow> string \<Rightarrow> Snapshot \<Rightarrow> alert_action list" where
  "emit_readiness_alerts org row ok depot_id snapshot =
     (if org = None \<or> org = Some '''' then []
      else if \<not> depot_exists row then []
      else if \<not> ok then []
      else if rd_is_blocking (sn_readiness snapshot) then [UpsertAlert (''missing_input:'' @ depot_id)]
      else [ResolveAlert (''missing_input:'' @ depot_id), ResolveAlert (''degraded_optimization:'' @ depot_id),
            ResolveAlert (''stale_telemetry:'' @ depot_id)])"

section \<open>Model: the controllers of all depots\<close>

record ControllerManager =
  mg_config :: ControllerConfig
  mg_controllers :: "(string, DepotController) pydict"
  mg_running :: bool
  mg_tasks :: "string list"

definition mg_init :: "ControllerConfig \<Rightarrow> ControllerManager" where
  "mg_init cfg = \<lparr>mg_config = cfg, mg_controllers = [], mg_running = False, mg_tasks = []\<rparr>"

definition dc_init :: "string \<Rightarrow> DepotConfig \<Rightarrow> ControllerConfig \<Rightarrow> DepotController result" where
  "dc_init depot_id cfg ccfg =
     (case tm_init (default_trigger_config\<lparr>trigger_cooldown_minutes := cc_trigger_cooldown_minutes ccfg\<rparr>)
             (Some (Some depot_id)) False None of
        Inl e \<Rightarrow> Inl e
      | Inr m \<Rightarrow> Inr \<lparr>dc_depot_id = depot_id, dc_config = cfg, dc_controller_config = ccfg, dc_monitor = m,
          dc_last_result = None, dc_last_run_time = None, dc_running = False, dc_optimization_failures = 0,
          dc_last_trigger_time = None, dc_breaker_open = False, dc_breaker_reset_time = None, dc_start_time = None\<rparr>)"

text \<open>\<open>load_depot_config\<close> is the argument \<open>load\<close>. The task of a started controller is registered by name.\<close>

definition add_controller ::
  "(string \<Rightarrow> DepotConfig result) \<Rightarrow> string \<Rightarrow> ControllerManager \<Rightarrow> DepotController result \<times> ControllerManager" where
  "add_controller load depot_id mg =
     (case map_of (mg_controllers mg) depot_id of
        Some c \<Rightarrow> (Inr c, mg)
      | None \<Rightarrow>
          (case load depot_id of
             Inl e \<Rightarrow> (Inl e, mg)
           | Inr cfg \<Rightarrow>
               (case dc_init depot_id cfg (mg_config mg) of
                  Inl e \<Rightarrow> (Inl e, mg)
                | Inr c \<Rightarrow>
                    (Inr c, mg\<lparr>mg_tasks := (if mg_running mg then List.insert depot_id (mg_tasks mg) else mg_tasks mg),
                               mg_controllers := AList.update depot_id c (mg_controllers mg)\<rparr>))))"

definition start_all_controllers ::
  "(string \<Rightarrow> DepotConfig result) \<Rightarrow> string list result \<Rightarrow> ControllerManager \<Rightarrow> unit result \<times> ControllerManager" where
  "start_all_controllers load rows mg =
     (if mg_running mg then (Inr (), mg)
      else let mg1 = mg\<lparr>mg_running := True\<rparr>
           in case rows of
                Inl e \<Rightarrow> (Inl e, mg1)
              | Inr depot_ids \<Rightarrow> (Inr (), foldl (\<lambda>mg d. snd (add_controller load d mg)) mg1 depot_ids))"

definition stop_all_controllers :: "ControllerManager \<Rightarrow> ControllerManager" where
  "stop_all_controllers mg =
     (if \<not> mg_running mg then mg else mg\<lparr>mg_running := False, mg_controllers := [], mg_tasks := []\<rparr>)"

definition remove_controller :: "string \<Rightarrow> ControllerManager \<Rightarrow> ControllerManager" where
  "remove_controller depot_id mg =
     (if depot_id \<notin> keys (mg_controllers mg) then mg
      else mg\<lparr>mg_tasks := remove1 depot_id (mg_tasks mg),
              mg_controllers := AList.delete depot_id (mg_controllers mg)\<rparr>)"

definition get_or_create_controller ::
  "(string \<Rightarrow> DepotConfig result) \<Rightarrow> string \<Rightarrow> ControllerManager \<Rightarrow> DepotController result \<times> ControllerManager" where
  "get_or_create_controller load depot_id mg =
     (case map_of (mg_controllers mg) depot_id of
        Some c \<Rightarrow> (Inr c, mg)
      | None \<Rightarrow> add_controller load depot_id mg)"

definition manager_health :: "ControllerManager \<Rightarrow> (string \<times> string) list" where
  "manager_health mg =
     map (\<lambda>(d, c). (d, if dc_running c \<and> \<not> dc_breaker_open c then ''healthy'' else ''degraded'')) (mg_controllers mg)"

section \<open>Lemmas: a run\<close>

definition is_dispatch :: "effect \<Rightarrow> bool" where
  "is_dispatch e = (case e of Dispatch _ \<Rightarrow> True | _ \<Rightarrow> False)"

definition dispatches :: "effect list \<Rightarrow> effect list" where
  "dispatches = filter is_dispatch"

definition well_scheduled :: "OptimizationResult \<Rightarrow> bool" where
  "well_scheduled r \<longleftrightarrow> (\<forall>(vid, s) \<in> set (or_schedule r). vs_soc s \<noteq> None \<and> vs_soc s \<noteq> Some [])"

lemma expected_socs_ok:
  "\<forall>(vid, s) \<in> set d. vs_soc s \<noteq> None \<and> vs_soc s \<noteq> Some [] \<Longrightarrow> \<exists>r. expected_socs d = Inr r"
  by (induction d rule: expected_socs.induct) (auto simp: expected_soc_def split: option.split list.split)

lemma degrade_status_schedule [simp]: "or_schedule (degrade_status s r) = or_schedule r"
  by (simp add: degrade_status_def)

lemma record_failure_frame [simp]:
  "dc_last_trigger_time (record_failure now dc) = dc_last_trigger_time dc"
  "dc_controller_config (record_failure now dc) = dc_controller_config dc"
  "dc_optimization_failures (record_failure now dc) = dc_optimization_failures dc + 1"
  "dc_breaker_open (record_failure now dc) \<longleftrightarrow>
     dc_breaker_open dc \<or> max_optimization_failures (dc_controller_config dc) \<le> dc_optimization_failures dc + 1"
  by (simp_all add: record_failure_def Let_def)

lemma finish_attempt_frame:
  "finish_attempt env state sn a solved dc = (r, es, dc') \<Longrightarrow>
     dc_last_trigger_time dc' = dc_last_trigger_time dc \<and> dc_controller_config dc' = dc_controller_config dc \<and>
     dispatches es = [Dispatch (degrade_status sn solved)]"
  by (auto simp: finish_attempt_def Let_def dispatches_def is_dispatch_def split: sum.splits)

lemma finish_attempt_ok:
  "well_scheduled solved \<Longrightarrow>
     \<exists>es dc'. finish_attempt env state sn a solved dc = (Inr (degrade_status sn solved), es, dc')"
  using expected_socs_ok [of "or_schedule solved"]
  by (auto simp: finish_attempt_def well_scheduled_def Let_def)

lemma finish_attempt_success:
  "finish_attempt env state sn a solved dc = (Inr r, es, dc') \<Longrightarrow>
     r = degrade_status sn solved \<and> dc_last_result dc' = Some r \<and> dc_optimization_failures dc' = 0 \<and>
     \<not> dc_breaker_open dc' \<and> dc_breaker_reset_time dc' = None"
  by (auto simp: finish_attempt_def Let_def split: sum.splits)

lemma solve_loop_frame:
  "dc_last_trigger_time (snd (snd (solve_loop env state sn a left dc))) = dc_last_trigger_time dc \<and>
   dc_controller_config (snd (snd (solve_loop env state sn a left dc))) = dc_controller_config dc"
proof (induction left arbitrary: a dc)
  case 0
  show ?case
    by (subst (1 2) solve_loop.simps)
      (auto simp: Let_def dest!: finish_attempt_frame split: option.split prod.split sum.split)
next
  case (Suc n)
  then show ?case
    by (subst (1 2) solve_loop.simps)
      (auto simp: Let_def dest!: finish_attempt_frame split: option.split prod.split sum.split)
qed

lemma solve_loop_dispatch_bound: "length (dispatches (fst (snd (solve_loop env state sn a left dc)))) \<le> Suc left"
proof (induction left arbitrary: a dc)
  case 0
  show ?case
    by (subst solve_loop.simps)
      (auto simp: Let_def dispatches_def dest!: finish_attempt_frame split: option.split prod.split sum.split)
next
  case (Suc n)
  have app: "dispatches (xs @ ys) = dispatches xs @ dispatches ys" for xs ys by (simp add: dispatches_def)
  show ?case
    using Suc le_SucI [OF Suc] by (subst solve_loop.simps)
      (auto simp: Let_def app dest!: finish_attempt_frame split: option.split prod.split sum.split)
qed

lemma solve_loop_accounting:
  assumes "\<forall>i r. re_solve env i = Some r \<longrightarrow> well_scheduled r"
  shows "case solve_loop env state sn a left dc of (out, es, dc') \<Rightarrow>
     (case out of
        Inr r \<Rightarrow> dispatches es = [Dispatch r] \<and> dc_last_result dc' = Some r \<and> dc_optimization_failures dc' = 0 \<and>
          \<not> dc_breaker_open dc' \<and> (\<exists>i. a \<le> i \<and> i \<le> a + left \<and> map_option (degrade_status sn) (re_solve env i) = Some r)
      | Inl e \<Rightarrow> e = SolverError \<and> dispatches es = [] \<and> dc_last_result dc' = dc_last_result dc \<and>
          dc_optimization_failures dc' = dc_optimization_failures dc + 1 \<and>
          (dc_breaker_open dc' \<longleftrightarrow>
             dc_breaker_open dc \<or> max_optimization_failures (dc_controller_config dc) \<le> dc_optimization_failures dc + 1) \<and>
          (\<forall>i. a \<le> i \<and> i \<le> a + left \<longrightarrow> re_solve env i = None))"
proof (induction left arbitrary: a)
  case 0
  show ?case
  proof (cases "re_solve env a")
    case None
    then show ?thesis by (subst solve_loop.simps) (auto simp: dispatches_def record_failure_def Let_def)
  next
    case (Some solved)
    obtain es dc' where f: "finish_attempt env state sn a solved dc = (Inr (degrade_status sn solved), es, dc')"
      using finish_attempt_ok [OF assms [rule_format, OF Some]] by blast
    with Some finish_attempt_frame [OF f] finish_attempt_success [OF f] show ?thesis
      by (subst solve_loop.simps) auto
  qed
next
  case (Suc n)
  show ?case
  proof (cases "re_solve env a")
    case None
    then have eq: "solve_loop env state sn a (Suc n) dc = solve_loop env state sn (Suc a) n dc"
      by (subst solve_loop.simps) simp
    have none: "re_solve env i = None" if "a \<le> i" "i \<le> a + Suc n" "\<forall>i. Suc a \<le> i \<and> i \<le> Suc a + n \<longrightarrow> re_solve env i = None" for i
      using that None by (cases "i = a") auto
    have some: "\<exists>i. a \<le> i \<and> i \<le> a + Suc n \<and> Q i" if "\<exists>i. Suc a \<le> i \<and> i \<le> Suc a + n \<and> Q i" for Q
      using that by (metis Suc_leD add_Suc_right add_Suc)
    obtain out es dc' where r: "solve_loop env state sn (Suc a) n dc = (out, es, dc')" by (cases "solve_loop env state sn (Suc a) n dc")
    show ?thesis
    proof (cases out)
      case (Inl e)
      with Suc [of "Suc a"] r none show ?thesis unfolding eq by fastforce
    next
      case (Inr res)
      with Suc [of "Suc a"] r some show ?thesis unfolding eq by simp
    qed
  next
    case (Some solved)
    obtain es dc' where f: "finish_attempt env state sn a solved dc = (Inr (degrade_status sn solved), es, dc')"
      using finish_attempt_ok [OF assms [rule_format, OF Some]] by blast
    with Some finish_attempt_frame [OF f] finish_attempt_success [OF f] show ?thesis
      by (subst solve_loop.simps) auto
  qed
qed

lemma run_optimization_frame:
  "dc_last_trigger_time (snd (snd (run_optimization env h dc))) = dc_last_trigger_time dc \<and>
   dc_controller_config (snd (snd (run_optimization env h dc))) = dc_controller_config dc"
  by (simp add: run_optimization_def Let_def solve_loop_frame split: option.split)

lemma capture_blocking:
  "\<not> re_readiness_raises env \<Longrightarrow>
     rd_is_blocking (sn_readiness (capture_snapshot env dc state h)) \<longleftrightarrow>
       missing_inputs_of (dc_config dc) state (re_schedules_present env) \<noteq> []"
proof -
  assume ok: "\<not> re_readiness_raises env"
  let ?rd = "evaluate_readiness (dc_config dc) state (re_building_load_source env) (re_schedules_present env)"
  have stub: "rd_is_blocking (sn_readiness (stub_snapshot mt fr u s e (Some ?rd))) = rd_is_blocking ?rd" for mt fr u s e
    by (simp add: stub_snapshot_def stub_readiness_def rd_is_blocking_def)
  have built: "build_snapshot f g mt u org cfg st s e sch we fid tel ?rd md = Inr sn \<Longrightarrow> sn_readiness sn = ?rd"
    for f g mt u org cfg st s e sch we fid tel md sn
    by (auto simp: build_snapshot_def split: option.splits if_splits)
  have "rd_is_blocking (sn_readiness (capture_snapshot env dc state h)) = rd_is_blocking ?rd"
    using ok stub built by (auto simp: capture_snapshot_def Let_def split: sum.split)
  then show ?thesis by (simp add: evaluate_blocking_iff)
qed

section \<open>Lemmas: triggers and the manager\<close>

definition trigger_step :: "DepotController \<Rightarrow> run_env \<times> dtime \<Rightarrow> bool \<times> DepotController" where
  "trigger_step dc e =
     (let r = handle_trigger (fst e) (snd e) dc
      in (case fst r of Ran _ \<Rightarrow> True | _ \<Rightarrow> False, snd (snd r)))"

interpretation trigger_handler: spaced_events trigger_step snd dc_last_trigger_time trigger_cooldown
proof unfold_locales
  fix dc :: DepotController and e :: "run_env \<times> dtime"
  show "trigger_cooldown dc \<le> snd e - t" if "dc_last_trigger_time dc = Some t" "fst (trigger_step dc e)" for t
    using that by (auto simp: trigger_step_def handle_trigger_def in_cooldown_def Let_def not_less split: if_splits)
  show "dc_last_trigger_time (snd (trigger_step dc e)) = (if fst (trigger_step dc e) then Some (snd e) else dc_last_trigger_time dc)"
    by (simp add: trigger_step_def handle_trigger_def Let_def run_optimization_frame)
  show "trigger_cooldown (snd (trigger_step dc e)) = trigger_cooldown dc"
    by (simp add: trigger_step_def handle_trigger_def Let_def run_optimization_frame trigger_cooldown_def breaker_reset_def)
qed

datatype manager_op = AddController string | RemoveController string | StopAll | StartAll "string list result"

fun manager_step :: "(string \<Rightarrow> DepotConfig result) \<Rightarrow> ControllerManager \<Rightarrow> manager_op \<Rightarrow> ControllerManager" where
  "manager_step load mg (AddController d) = snd (add_controller load d mg)"
| "manager_step load mg (RemoveController d) = remove_controller d mg"
| "manager_step load mg StopAll = stop_all_controllers mg"
| "manager_step load mg (StartAll rows) = snd (start_all_controllers load rows mg)"

definition manager_inv :: "ControllerManager \<Rightarrow> bool" where
  "manager_inv mg \<longleftrightarrow>
     dict_ok (mg_controllers mg) \<and> distinct (mg_tasks mg) \<and> set (mg_tasks mg) \<subseteq> keys (mg_controllers mg) \<and>
     (\<forall>(d, c) \<in> set (mg_controllers mg). dc_depot_id c = d)"

lemma update_entries: "(k, v) \<in> set (AList.update a b d) \<Longrightarrow> (k, v) \<in> set d \<or> (k = a \<and> v = b)"
  by (induction d) (auto split: if_splits)

lemma delete_entries: "x \<in> set (AList.delete a d) \<Longrightarrow> x \<in> set d"
  by (simp add: AList.delete_eq)

lemma add_controller_inv [inv_intros]: "manager_inv mg \<Longrightarrow> manager_inv (snd (add_controller load d mg))"
proof -
  assume inv: "manager_inv mg"
  have depot: "dc_depot_id c = d" if "dc_init d cfg ccfg = Inr c" for cfg ccfg c
    using that by (auto simp: dc_init_def split: sum.splits)
  show ?thesis
    using inv depot
    by (auto simp: add_controller_def manager_inv_def split: option.split sum.split dest!: update_entries)
qed

lemma remove_controller_inv [inv_intros]: "manager_inv mg \<Longrightarrow> manager_inv (remove_controller d mg)"
  by (auto simp: remove_controller_def manager_inv_def set_remove1_eq dest!: delete_entries)

interpretation manager: invariant_machine "\<lambda>mg. \<exists>cfg. mg = mg_init cfg" "manager_step load" manager_inv for load
proof unfold_locales
  fix mg e
  assume inv: "manager_inv mg"
  have fold: "manager_inv (foldl (\<lambda>mg d. snd (add_controller load d mg)) m ds)" if "manager_inv m" for m ds
    using that by (induction ds arbitrary: m) (simp_all add: add_controller_inv)
  have run: "manager_inv (mg\<lparr>mg_running := True\<rparr>)" using inv by (simp add: manager_inv_def)
  show "manager_inv (manager_step load mg e)"
  proof (cases e)
    case (StartAll rows)
    then show ?thesis using inv run fold by (auto simp: start_all_controllers_def Let_def split: sum.split)
  next
    case StopAll
    then show ?thesis using inv by (simp add: stop_all_controllers_def manager_inv_def)
  qed (use inv in \<open>simp_all add: add_controller_inv remove_controller_inv\<close>)
qed (auto simp: mg_init_def manager_inv_def)

section \<open>Lemmas: the price baseline\<close>

lemma dict_of_rows_keys: "keys (dict_of_rows rows) = fst ` set rows"
proof -
  have "keys (foldl (\<lambda>d (k, v). AList.update k v d) d rows) = keys d \<union> fst ` set rows" for d
    by (induction rows arbitrary: d) auto
  then show ?thesis by (simp add: dict_of_rows_def)
qed

lemma timedelta_quarters: "timedelta_hours (of_nat i * (1 / 4)) = int i * 900000000"
proof -
  have "of_nat i * (1 / 4) * rat_of_int usec_per_hour = of_int (int i * 900000000)"
    by (simp add: usec_per_hour_def usec_per_min_def usec_per_sec_def)
  then show ?thesis unfolding timedelta_hours_def by (simp only: round_half_even_of_int)
qed

lemma enumerate_index: "(i, x) \<in> set (enumerate 0 xs) \<Longrightarrow> i < length xs"
  by (auto simp: set_zip enumerate_eq_zip)

lemma quarter_keys:
  "k \<in> keys (dict_of_rows (map (\<lambda>(i, price). (clock i + timedelta_hours (of_nat i * (1 / 4)), price)) (enumerate 0 (take 24 ps)))) \<Longrightarrow>
     \<exists>i<24. k = clock i + int i * 900000000"
  using timedelta_quarters by (auto simp: dict_of_rows_keys dest!: enumerate_index)

section \<open>Samples for the witnesses\<close>

definition sample_config :: DepotConfig where
  "sample_config = base_config\<lparr>charger_groups := [(50, 2)], charger_vehicle_access_default := ''all_to_all''\<rparr>"

definition sample_state :: DepotState where
  "sample_state = base_state\<lparr>prices := [1], building_power := [1]\<rparr>"

definition sample_run :: "OptimizationResult option \<Rightarrow> run_env" where
  "sample_run solved = \<lparr>re_assembly = (\<lambda>i. if i = 0 then None else Some sample_state), re_grown = id, re_assembled_at = 1, re_horizon = None,
     re_horizon_now = 1, re_building_load_source = ''meter'', re_schedules_present = True, re_schedules = [], re_weather = [],
     re_forecast_id = None, re_telemetry = [], re_readiness_raises = False, re_depot_uuid = Some ''d'', re_fresh_uuid = ''f'',
     re_org = None, re_meta = \<lparr>mt_snapshot_id = ''s'', mt_captured_at = 1, mt_code = None, mt_solver = None, mt_surrogate = None\<rparr>,
     re_isoformat = (\<lambda>_. ''t''), re_float_str = (\<lambda>_. ''x''), re_solve = (\<lambda>_. solved), re_stored_at = (\<lambda>_. 2),
     re_price_clock = (\<lambda>_ _. 3), re_failed_at = (\<lambda>_. 4)\<rparr>"

definition sample_controller :: "DepotConfig \<Rightarrow> DepotController" where
  "sample_controller cfg = \<lparr>dc_depot_id = ''d'', dc_config = cfg, dc_controller_config = default_controller_config,
     dc_monitor = sample_monitor, dc_last_result = None, dc_last_run_time = None, dc_running = True,
     dc_optimization_failures = 0, dc_last_trigger_time = None, dc_breaker_open = False, dc_breaker_reset_time = None,
     dc_start_time = None\<rparr>"

lemma sample_assembled: "assemble_state (re_assembly (sample_run None)) 0 (max_retries + 1) = Some sample_state"
  by (simp add: sample_run_def max_retries_def numeral_2_eq_2)

section \<open>Properties\<close>

text \<open>A depot with a missing hard prerequisite is never optimised, whether or not its snapshot can be
  built: the run stops with the readiness error after the snapshot was persisted, nothing is stored or
  dispatched, no failure is counted, the circuit breaker is untouched, and the hour is still consumed.\<close>

theorem missing_inputs_never_optimised:
  assumes "assemble_state (re_assembly env) 0 (max_retries + 1) = Some state" and "\<not> re_readiness_raises env"
    and "missing_inputs_of (re_grown env (dc_config dc)) state (re_schedules_present env) \<noteq> []"
  shows "\<exists>sn. run_optimization env h dc =
     (Inl ReadinessBlocked, [PersistSnapshot sn, EmitAlerts True],
      dc\<lparr>dc_config := re_grown env (dc_config dc), dc_last_run_time := Some (re_assembled_at env)\<rparr>)"
  using assms capture_blocking [OF assms(2), of "dc\<lparr>dc_config := re_grown env (dc_config dc), dc_last_run_time := Some (re_assembled_at env)\<rparr>" state]
  by (simp add: run_optimization_def Let_def)

theorem missing_inputs_never_optimised_witness:
  "\<exists>sn. run_optimization (sample_run None) None (sample_controller sample_config) =
     (Inl ReadinessBlocked, [PersistSnapshot sn, EmitAlerts True],
      (sample_controller sample_config)\<lparr>dc_last_run_time := Some 1\<rparr>)"
proof -
  have "\<not> re_readiness_raises (sample_run None)"
      "missing_inputs_of (re_grown (sample_run None) (dc_config (sample_controller sample_config))) sample_state (re_schedules_present (sample_run None)) \<noteq> []"
      "re_assembled_at (sample_run None) = 1" "re_grown (sample_run None) cfg = cfg" for cfg
    by (simp_all add: sample_run_def missing_inputs_of_def sample_controller_def sample_config_def base_config_def)
  with missing_inputs_never_optimised [OF sample_assembled, where dc = "sample_controller sample_config" and h = None]
  show ?thesis by (simp add: sample_controller_def)
qed

text \<open>C21: Accounting of a run whose inputs are ready (with the vehicles the assembler has added to the configuration), when the solver's schedules carry their state of
  charge: either some attempt solved, then exactly one schedule is dispatched, it is the returned one,
  the failure count is 0 and the breaker is closed; or every attempt of the solver raised, then nothing
  is dispatched, the last result stays, exactly one failure is counted for the whole run and the breaker
  is open exactly when it was or the failures reach the configured maximum.\<close>

theorem run_accounting:
  assumes "assemble_state (re_assembly env) 0 (max_retries + 1) = Some state" and "\<not> re_readiness_raises env"
    and "missing_inputs_of (re_grown env (dc_config dc)) state (re_schedules_present env) = []"
    and "\<And>i r. re_solve env i = Some r \<Longrightarrow> well_scheduled r"
  shows "case run_optimization env h dc of (out, es, dc') \<Rightarrow>
     (case out of
        Inr r \<Rightarrow> dispatches es = [Dispatch r] \<and> dc_last_result dc' = Some r \<and> dc_optimization_failures dc' = 0 \<and>
          \<not> dc_breaker_open dc' \<and> (\<exists>i \<le> max_retries. re_solve env i \<noteq> None)
      | Inl e \<Rightarrow> e = SolverError \<and> dispatches es = [] \<and> dc_last_result dc' = dc_last_result dc \<and>
          dc_optimization_failures dc' = dc_optimization_failures dc + 1 \<and>
          (dc_breaker_open dc' \<longleftrightarrow>
             dc_breaker_open dc \<or> max_optimization_failures (dc_controller_config dc) \<le> dc_optimization_failures dc + 1) \<and>
          (\<forall>i \<le> max_retries. re_solve env i = None))"
proof -
  let ?dc = "dc\<lparr>dc_config := re_grown env (dc_config dc), dc_last_run_time := Some (re_assembled_at env)\<rparr>"
  let ?hz = "case h of Some h \<Rightarrow> h | None \<Rightarrow> optimization_horizon_hours (dc_controller_config dc)"
  define sn where "sn = capture_snapshot env ?dc state ?hz"
  have "\<not> rd_is_blocking (sn_readiness sn)" using capture_blocking [OF assms(2), of ?dc state ?hz] assms(3) by (simp add: sn_def)
  then have run: "run_optimization env h dc =
      (let r = solve_loop env state sn 0 max_retries ?dc in (fst r, PersistSnapshot sn # fst (snd r), snd (snd r)))"
    using assms(1) by (simp add: run_optimization_def Let_def sn_def)
  obtain out es dc' where r: "solve_loop env state sn 0 max_retries ?dc = (out, es, dc')"
    by (cases "solve_loop env state sn 0 max_retries ?dc")
  have d: "dispatches (PersistSnapshot sn # es) = dispatches es" by (simp add: dispatches_def is_dispatch_def)
  have acc: "\<forall>i r. re_solve env i = Some r \<longrightarrow> well_scheduled r" using assms(4) by blast
  note loop = solve_loop_accounting [where env = env and state = state and sn = sn and a = 0 and left = max_retries
      and dc = ?dc, OF acc, unfolded r prod.case]
  have "run_optimization env h dc = (out, PersistSnapshot sn # es, dc')" using run r by simp
  then show ?thesis
    using loop by (cases out) (auto simp: d)
qed

theorem run_accounting_witness:
  "dc_optimization_failures (snd (snd (run_optimization (sample_run None) None
     (sample_controller (sample_config\<lparr>vehicle_capacities := [(''v'', 300)]\<rparr>))))) \<le> 1"
proof -
  let ?dc = "sample_controller (sample_config\<lparr>vehicle_capacities := [(''v'', 300)]\<rparr>)"
  have "\<not> re_readiness_raises (sample_run None)" "re_solve (sample_run None) i = None"
      "missing_inputs_of (re_grown (sample_run None) (dc_config ?dc)) sample_state (re_schedules_present (sample_run None)) = []"
      "dc_optimization_failures ?dc = 0" for i
    by (simp_all add: sample_run_def missing_inputs_of_def sample_controller_def sample_config_def sample_state_def base_config_def base_state_def)
  with run_accounting [OF sample_assembled, where dc = ?dc and h = None] show ?thesis
    by (auto split: prod.splits sum.splits)
qed

text \<open>Triggered runs of a depot are at least the configured cooldown apart, whatever triggers the run
  and however the runs end; a trigger that arrives earlier changes nothing.\<close>

theorem triggered_runs_spaced:
  "successively (\<lambda>a b. trigger_cooldown dc \<le> b - a) (fired_times trigger_step snd dc events) \<and>
   (in_cooldown now dc \<longrightarrow> handle_trigger env now dc = (IgnoredCooldown, [], dc))"
  using trigger_handler.fired_times_spaced by (simp add: handle_trigger_def)

theorem triggered_runs_spaced_witness:
  "handle_trigger (sample_run None) 100000000 ((sample_controller sample_config)\<lparr>dc_last_trigger_time := Some 0\<rparr>) =
     (IgnoredCooldown, [], (sample_controller sample_config)\<lparr>dc_last_trigger_time := Some 0\<rparr>)"
  using triggered_runs_spaced [where dc = "(sample_controller sample_config)\<lparr>dc_last_trigger_time := Some 0\<rparr>"
      and now = 100000000 and env = "sample_run None"]
  by (simp add: in_cooldown_def trigger_cooldown_def sample_controller_def default_controller_config_def usec_per_min_def
      usec_per_sec_def)

text \<open>While the breaker is open and its reset time lies ahead, every trigger is refused without an
  effect and without a change of state; the first accepted trigger after the reset time clears it.\<close>

theorem open_breaker_ignores_triggers:
  assumes "dc_breaker_open dc" and "dc_breaker_reset_time dc = Some reset" and "\<forall>(env, now) \<in> set events. now < reset"
  shows "foldl (\<lambda>d (env, now). snd (snd (handle_trigger env now d))) dc events = dc \<and>
     (\<forall>(env, now) \<in> set events. fst (snd (handle_trigger env now dc)) = [] \<and>
        fst (handle_trigger env now dc) \<in> {IgnoredCooldown, IgnoredBreaker})"
proof -
  have one: "handle_trigger env now dc \<in> {(IgnoredCooldown, [], dc), (IgnoredBreaker, [], dc)}" if "now < reset" for env now
    using that assms(1,2) by (simp add: handle_trigger_def breaker_blocks_def)
  have "foldl (\<lambda>d (env, now). snd (snd (handle_trigger env now d))) dc events = dc"
    using assms(3)
  proof (induction events)
    case (Cons e es)
    have "snd (snd (handle_trigger (fst e) (snd e) dc)) = dc" using one [of "snd e" "fst e"] Cons.prems by (auto simp: case_prod_beta)
    with Cons show ?case by (simp add: case_prod_beta)
  qed simp
  moreover have "fst (snd (handle_trigger env now dc)) = [] \<and> fst (handle_trigger env now dc) \<in> {IgnoredCooldown, IgnoredBreaker}"
    if "(env, now) \<in> set events" for env now
  proof -
    have "now < reset" using that assms(3) by blast
    with one [of now env] show ?thesis by auto
  qed
  ultimately show ?thesis by blast
qed

theorem open_breaker_ignores_triggers_witness:
  "foldl (\<lambda>d (env, now). snd (snd (handle_trigger env now d)))
     ((sample_controller sample_config)\<lparr>dc_breaker_open := True, dc_breaker_reset_time := Some 9\<rparr>) [(sample_run None, 5)] =
   (sample_controller sample_config)\<lparr>dc_breaker_open := True, dc_breaker_reset_time := Some 9\<rparr>"
  using open_breaker_ignores_triggers [where reset = 9 and events = "[(sample_run None, 5)]"
      and dc = "(sample_controller sample_config)\<lparr>dc_breaker_open := True, dc_breaker_reset_time := Some 9\<rparr>"]
  by (simp add: sample_controller_def)

text \<open>The price trigger depends on the clock: with quarter-hour steps, prices read at an instant that is
  not a whole number of quarters from any of the instants at which the baseline was stamped never
  trigger, however much they changed, because no timestamp of the one occurs in the other.\<close>

theorem price_trigger_needs_aligned_clock:
  assumes "tm_last_prices m = price_baseline clock (1 / 4) ps" and "tm_has_assembler m" and "me_delta_t env = 1 / 4"
    and "\<And>i. i < 24 \<Longrightarrow> (me_price_now env - clock i) mod 900000000 \<noteq> 0"
  shows "check_price_change m (get_current_prices env m) = None"
proof -
  have "map_of (tm_last_prices m) ts = None" if ts: "(ts, cur) \<in> set (get_current_prices env m)" for ts cur
  proof (rule ccontr)
    assume "map_of (tm_last_prices m) ts \<noteq> None"
    then have "ts \<in> keys (price_baseline clock (1 / 4) ps)" using assms(1) by (simp add: keys_map_of_Some)
    then obtain i where i: "i < 24" "ts = clock i + int i * 900000000"
      unfolding price_baseline_def using quarter_keys by blast
    have "ts \<in> keys (get_current_prices env m)" using ts by (force simp: keys_def)
    then obtain j where "ts = me_price_now env + int j * 900000000"
      using assms(2) quarter_keys [where clock = "\<lambda>_. me_price_now env"]
      unfolding get_current_prices_def assms(3) by (fastforce split: option.splits)
    with i have "me_price_now env - clock i = (int i - int j) * 900000000" by (simp add: algebra_simps)
    with assms(4) [OF i(1)] show False by simp
  qed
  then show ?thesis unfolding check_price_change_None by fastforce
qed

theorem price_trigger_needs_aligned_clock_witness:
  "check_price_change (sample_monitor\<lparr>tm_last_prices := price_baseline (\<lambda>_. 0) (1 / 4) [1, 1]\<rparr>)
     (get_current_prices ((sample_env 60000000 0)\<lparr>me_asm_prices := Some [9, 9], me_delta_t := 1 / 4\<rparr>)
        (sample_monitor\<lparr>tm_last_prices := price_baseline (\<lambda>_. 0) (1 / 4) [1, 1]\<rparr>)) = None"
  by (rule price_trigger_needs_aligned_clock [where clock = "\<lambda>_. 0" and ps = "[1, 1]"])
    (simp_all add: sample_monitor_def sample_env_def)

text \<open>Whatever controllers are added, removed, started and stopped, the manager holds at most one
  controller per depot, each under its own depot id, and runs at most one task per controller it holds.\<close>

theorem one_controller_per_depot:
  "manager_inv (run_steps (manager_step load) (mg_init cfg) ops)"
  by (rule manager.run_inv) blast

end
