(* ===== verification/Allocator.thy ===== *)
theory Allocator
  imports Depot_Controller
begin

text \<open>
  Allocation of the optimised power to single chargers, \<open>src/src/core/optimizer/allocator.py\<close>. The
  nested loops are one definition each, over the state the loop body mutates. A missing key and an
  index out of range are the exceptions Python raises. An absent priority is \<open>float("inf")\<close>, modelled
  by a sort key that puts it after every number.
\<close>

section \<open>Model\<close>

record ChargerAssignment =
  ca_charger_id :: string
  ca_vehicle_id :: string
  ca_timestep :: nat
  ca_power_kw :: pyfloat

text \<open>What the body of a timestep mutates.\<close>

record alloc_state =
  al_capacity :: "(string, pyfloat) pydict"
  al_used :: "string set"
  al_remaining :: pyfloat
  al_out :: "ChargerAssignment list"







definition capacity_of :: "(string, pyfloat) pydict \<Rightarrow> string \<Rightarrow> pyfloat" where
  "capacity_of d c = (case map_of d c of None \<Rightarrow> 0 | Some x \<Rightarrow> x)"








section \<open>Lemmas\<close>

definition charger_power :: "string \<Rightarrow> ChargerAssignment list \<Rightarrow> pyfloat" where
  "charger_power c xs = sum_list (map ca_power_kw (filter (\<lambda>a. ca_charger_id a = c) xs))"

definition vehicle_power :: "string \<Rightarrow> ChargerAssignment list \<Rightarrow> pyfloat" where
  "vehicle_power v xs = sum_list (map ca_power_kw (filter (\<lambda>a. ca_vehicle_id a = v) xs))"


text \<open>Two chargers may share an id only if they share the dictionary entry; \<open>v\<close> is served from \<open>s\<close> to
  \<open>s'\<close>: what it got and what remains add up, others get nothing.\<close>

definition serves :: "string \<Rightarrow> alloc_state \<Rightarrow> alloc_state \<Rightarrow> bool" where
  "serves v s s' \<longleftrightarrow>
     vehicle_power v (al_out s') + al_remaining s' = vehicle_power v (al_out s) + al_remaining s \<and>
     (0 \<le> al_remaining s \<longrightarrow> 0 \<le> al_remaining s') \<and>
     (\<forall>w. w \<noteq> v \<longrightarrow> vehicle_power w (al_out s') = vehicle_power w (al_out s))"

lemma serves_refl [simp]: "serves v s s"
  by (simp add: serves_def)


lemma capacity_of_update [simp]: "capacity_of (AList.update c x d) c' = (if c' = c then x else capacity_of d c')"
  by (simp add: capacity_of_def)

lemma power_append [simp]:
  "charger_power c (xs @ ys) = charger_power c xs + charger_power c ys"
  "vehicle_power v (xs @ ys) = vehicle_power v xs + vehicle_power v ys"
  by (simp_all add: charger_power_def vehicle_power_def)

lemma power_simps [simp]:
  "charger_power c [] = 0" "vehicle_power v [] = 0"
  "charger_power c (a # xs) = (if ca_charger_id a = c then ca_power_kw a else 0) + charger_power c xs"
  "vehicle_power v (a # xs) = (if ca_vehicle_id a = v then ca_power_kw a else 0) + vehicle_power v xs"
  by (simp_all add: charger_power_def vehicle_power_def)












section \<open>Properties\<close>




end
