(* ===== verification/Session_Cost.thy ===== *)
theory Session_Cost
  imports Interfaces
begin

text \<open>
  Cost of a charging session, \<open>src/src/core/billing/session_cost.py\<close>: the granular strategy with its
  SQL over the telemetry table, the fallback average, the dispatcher and the guarded write.
  Timestamps are UTC instants; the session's start carries the UTC offset of its time zone (0 for a
  naive timestamp, which the code takes as UTC). A \<open>Decimal\<close> and a \<open>float\<close> are exact rationals, so
  \<open>Decimal(str(x))\<close> is \<open>x\<close>; \<open>quantize\<close> rounds half to even at four digits. \<open>float("inf")\<close> is \<open>None\<close> where
  it occurs.
\<close>

section \<open>Model: prices and hours\<close>

text \<open>A key of the price map: an aware UTC timestamp or a naive one.\<close>

datatype hour_key = Aware dtime | Naive dtime

type_synonym price_map = "(hour_key, pyfloat) pydict"

definition floor_hour :: "dtime \<Rightarrow> dtime" where
  "floor_hour t = t div usec_per_hour * usec_per_hour"

definition normalize_hour :: "dtime \<Rightarrow> dtime" where
  "normalize_hour t = floor_hour t"

definition price_for_hour :: "price_map \<Rightarrow> dtime \<Rightarrow> pyfloat option" where
  "price_for_hour pm hour =
     (let key = normalize_hour hour
      in case map_of pm (Aware key) of
           Some p \<Rightarrow> Some p
         | None \<Rightarrow> (case map_of pm (Naive key) of
                      Some p \<Rightarrow> Some p
                    | None \<Rightarrow> map_of pm (Aware key)))"

text \<open>The loop \<open>while cursor < end\<close>, which advances by an hour.\<close>

function hour_buckets_from :: "dtime \<Rightarrow> dtime \<Rightarrow> dtime list" where
  "hour_buckets_from cursor end' = (if cursor < end' then cursor # hour_buckets_from (cursor + usec_per_hour) end' else [])"
  by auto
termination
  by (relation "measure (\<lambda>(c, e). nat (e - c))") (auto simp: usec_pos)

declare hour_buckets_from.simps [simp del]

text \<open>\<open>start.replace(minute=0, ...)\<close> floors in the zone of the timestamp.\<close>

definition expected_hour_buckets :: "int \<Rightarrow> dtime \<Rightarrow> dtime \<Rightarrow> dtime list" where
  "expected_hour_buckets offset start end' = hour_buckets_from (floor_hour (start + offset) - offset) end'"

definition quantize4 :: "pyfloat \<Rightarrow> pyfloat" where
  "quantize4 x = of_int (round_half_even (x * 10000)) / 10000"

section \<open>Model: results\<close>

datatype cost_source =
    Granular | Fallback_average | Unpriceable | Pending_close | No_energy | No_depot | Manual

record SessionCostResult =
  sc_cost :: "pyfloat option"
  sc_source :: cost_source
  sc_energy_kwh_from_telemetry :: "pyfloat option"
  sc_avg_price_used :: "pyfloat option"
  sc_telemetry_coverage :: "pyfloat option"

definition no_cost :: "cost_source \<Rightarrow> SessionCostResult" where
  "no_cost src = \<lparr>sc_cost = None, sc_source = src, sc_energy_kwh_from_telemetry = None, sc_avg_price_used = None,
     sc_telemetry_coverage = None\<rparr>"

section \<open>Model: the fallback average\<close>

definition overlap_hours :: "dtime \<Rightarrow> dtime \<Rightarrow> dtime \<Rightarrow> pyfloat" where
  "overlap_hours start end' hour =
     (let hour_start = normalize_hour hour;
          hour_end = hour_start + usec_per_hour
      in total_seconds (min end' hour_end - max start hour_start) / 3600)"

definition add_weighted ::
  "price_map \<Rightarrow> dtime \<Rightarrow> dtime \<Rightarrow> pyfloat \<times> pyfloat \<Rightarrow> dtime \<Rightarrow> pyfloat \<times> pyfloat" where
  "add_weighted pm start end' acc hour =
     (case price_for_hour pm hour of
        None \<Rightarrow> acc
      | Some price \<Rightarrow>
          let w = overlap_hours start end' hour
          in if w \<le> 0 then acc else (fst acc + price * w, snd acc + w))"

definition fallback_average :: "pyfloat \<Rightarrow> int \<Rightarrow> dtime \<Rightarrow> dtime \<Rightarrow> price_map \<Rightarrow> SessionCostResult" where
  "fallback_average delivered_kwh offset start end' pm =
     (let expected = expected_hour_buckets offset start end';
          covered = filter (\<lambda>h. price_for_hour pm h \<noteq> None) expected
      in if expected = [] \<or> length covered < length expected then no_cost Unpriceable
         else let w = foldl (add_weighted pm start end') (0, 0) expected
              in if snd w \<le> 0 then no_cost No_energy
                 else let avg_price = fst w / snd w
                      in \<lparr>sc_cost = Some (quantize4 (delivered_kwh * avg_price)), sc_source = Fallback_average,
                          sc_energy_kwh_from_telemetry = None, sc_avg_price_used = Some avg_price,
                          sc_telemetry_coverage = None\<rparr>)"

section \<open>Model: the telemetry query\<close>

record telemetry_row =
  tr_vehicle_id :: "string option"
  tr_station_id :: "string option"
  tr_connector_id :: "int option"
  tr_transaction_id :: "int option"
  tr_time :: dtime
  tr_charging_kw :: "pyfloat option"

text \<open>A sample of the CTE \<open>bucketed\<close>: its time (clamped), its power, and time and power of the next.\<close>

record sample =
  sp_time :: dtime
  sp_kw :: pyfloat
  sp_next :: "(dtime \<times> pyfloat) option"

text \<open>CTE \<open>samples\<close>: the rows of the window, in order of time, each with its \<open>LEAD\<close>.\<close>

definition window_rows :: "(telemetry_row \<Rightarrow> bool) \<Rightarrow> dtime \<Rightarrow> dtime \<Rightarrow> telemetry_row list \<Rightarrow> (dtime \<times> pyfloat) list" where
  "window_rows where_clause start end' tab =
     sort_key fst
       (map (\<lambda>r. (tr_time r, the (tr_charging_kw r)))
         (filter (\<lambda>r. where_clause r \<and> tr_time r \<ge> start - 15 * usec_per_min \<and> tr_time r < end' \<and>
            (case tr_charging_kw r of None \<Rightarrow> False | Some kw \<Rightarrow> kw > 0)) tab))"

fun with_lead :: "(dtime \<times> pyfloat) list \<Rightarrow> sample list" where
  "with_lead [] = []"
| "with_lead [(t, kw)] = [\<lparr>sp_time = t, sp_kw = kw, sp_next = None\<rparr>]"
| "with_lead ((t, kw) # (t', kw') # rest) = \<lparr>sp_time = t, sp_kw = kw, sp_next = Some (t', kw')\<rparr> # with_lead ((t', kw') # rest)"

text \<open>CTE \<open>bucketed\<close>.\<close>

definition bucketed :: "dtime \<Rightarrow> sample list \<Rightarrow> sample list" where
  "bucketed start ss =
     map (\<lambda>s. s\<lparr>sp_time := max (sp_time s) start\<rparr>)
       (filter (\<lambda>s. case sp_next s of None \<Rightarrow> True | Some (t', _) \<Rightarrow> t' > start) ss)"

definition sample_seconds :: "dtime \<Rightarrow> sample \<Rightarrow> pyfloat" where
  "sample_seconds end' s =
     (case sp_next s of
        Some (t', _) \<Rightarrow> total_seconds (min t' end' - sp_time s)
      | None \<Rightarrow> total_seconds (end' - sp_time s))"

definition sample_kwh :: "dtime \<Rightarrow> sample \<Rightarrow> pyfloat" where
  "sample_kwh end' s =
     (case sp_next s of
        Some (t', kw') \<Rightarrow> (sp_kw s + kw') / 2 * total_seconds (min t' end' - sp_time s) / 3600
      | None \<Rightarrow> sp_kw s * total_seconds (end' - sp_time s) / 3600)"

record bucket_row =
  br_hour :: dtime
  br_sample_count :: nat
  br_observed_seconds :: pyfloat
  br_energy_kwh :: pyfloat

text \<open>\<open>GROUP BY time_bucket('1 hour', time) ORDER BY hour\<close>.\<close>

definition granular_rows ::
  "(telemetry_row \<Rightarrow> bool) \<Rightarrow> dtime \<Rightarrow> dtime \<Rightarrow> telemetry_row list \<Rightarrow> bucket_row list" where
  "granular_rows where_clause start end' tab =
     (let ss = bucketed start (with_lead (window_rows where_clause start end' tab))
      in map (\<lambda>h. let hs = filter (\<lambda>s. floor_hour (sp_time s) = h) ss
                   in \<lparr>br_hour = h, br_sample_count = length hs,
                       br_observed_seconds = sum_list (map (sample_seconds end') hs),
                       br_energy_kwh = sum_list (map (sample_kwh end') hs)\<rparr>)
           (sort (remdups (map (\<lambda>s. floor_hour (sp_time s)) ss))))"

definition fetch_granular_telemetry_rows ::
  "string option \<Rightarrow> string option \<Rightarrow> int option \<Rightarrow> int option \<Rightarrow> dtime \<Rightarrow> dtime \<Rightarrow> telemetry_row list \<Rightarrow> bucket_row list" where
  "fetch_granular_telemetry_rows vehicle_id station_id connector_id transaction_id start end' tab =
     (let by_vehicle = (case vehicle_id of
            None \<Rightarrow> []
          | Some v \<Rightarrow> granular_rows (\<lambda>r. tr_vehicle_id r = Some v) start end' tab)
      in if by_vehicle \<noteq> [] then by_vehicle
         else case (station_id, connector_id) of
                (Some st, Some cn) \<Rightarrow>
                  (let here = (\<lambda>r. tr_station_id r = Some st \<and> tr_connector_id r = Some cn)
                   in case transaction_id of
                        Some tx \<Rightarrow>
                          (let strict = granular_rows (\<lambda>r. here r \<and> tr_transaction_id r = Some tx) start end' tab
                           in if strict \<noteq> [] then strict
                              else granular_rows (\<lambda>r. here r \<and> (tr_transaction_id r = None \<or> tr_transaction_id r = Some tx))
                                     start end' tab)
                      | None \<Rightarrow> granular_rows here start end' tab)
              | _ \<Rightarrow> [])"

section \<open>Model: the granular strategy and the dispatcher\<close>

fun granular_cost :: "price_map \<Rightarrow> bucket_row list \<Rightarrow> pyfloat option" where
  "granular_cost pm [] = Some 0"
| "granular_cost pm (r # rs) =
     (case price_for_hour pm (br_hour r) of
        None \<Rightarrow> None
      | Some price \<Rightarrow> map_option (\<lambda>c. br_energy_kwh r * price + c) (granular_cost pm rs))"

definition granular_coverage :: "bucket_row list \<Rightarrow> dtime \<Rightarrow> dtime \<Rightarrow> pyfloat" where
  "granular_coverage rows start end' =
     (let session_seconds = total_seconds (end' - start)
      in if session_seconds > 0 then sum_list (map br_observed_seconds rows) / session_seconds else 0)"

text \<open>The mismatch of the energies; \<open>None\<close> is infinite.\<close>

definition energy_mismatch :: "pyfloat \<Rightarrow> pyfloat option \<Rightarrow> pyfloat option" where
  "energy_mismatch telem delivered =
     (case delivered of None \<Rightarrow> None | Some e \<Rightarrow> if e > 0 then Some (\<bar>telem - e\<bar> / e) else None)"

definition granular_gate :: "bucket_row list \<Rightarrow> dtime \<Rightarrow> dtime \<Rightarrow> pyfloat option \<Rightarrow> bool" where
  "granular_gate rows start end' delivered =
     (granular_coverage rows start end' \<ge> 80 / 100 \<and>
      (case energy_mismatch (sum_list (map br_energy_kwh rows)) delivered of None \<Rightarrow> False | Some m \<Rightarrow> m \<le> 10 / 100))"

definition try_granular :: "bucket_row list \<Rightarrow> dtime \<Rightarrow> dtime \<Rightarrow> pyfloat option \<Rightarrow> price_map \<Rightarrow> SessionCostResult option" where
  "try_granular rows start end' delivered pm =
     (let telem = sum_list (map br_energy_kwh rows)
      in if rows = [] \<or> telem \<le> 0 \<or> \<not> granular_gate rows start end' delivered then None
         else case granular_cost pm rows of
                None \<Rightarrow> None
              | Some c \<Rightarrow>
                  Some \<lparr>sc_cost = Some (quantize4 c), sc_source = Granular, sc_energy_kwh_from_telemetry = Some telem,
                        sc_avg_price_used = Some (c / telem), sc_telemetry_coverage = Some (granular_coverage rows start end')\<rparr>)"

text \<open>A row of \<open>charging_sessions\<close>, with the values the code parses already parsed (\<open>None\<close> when parsing
  fails, as the code has it).\<close>

record session_row =
  sr_session_id :: string
  sr_cost_total :: "pyfloat option"
  sr_cost_source :: "cost_source option"
  sr_end_time :: "dtime option"
  sr_site_id :: "string option"
  sr_start_time :: dtime
  sr_start_offset :: int
  sr_energy_delivered_kwh :: "pyfloat option"
  sr_vehicle_id :: "string option"
  sr_bidding_zone :: "string option"
  sr_station_id :: "string option"
  sr_connector_id :: "int option"
  sr_transaction_id :: "int option"

definition keeps_existing :: "session_row \<Rightarrow> bool" where
  "keeps_existing row \<longleftrightarrow>
     sr_cost_source row = Some Manual \<or>
     (case sr_cost_total row of None \<Rightarrow> False | Some c \<Rightarrow> c \<noteq> 0) \<and>
       sr_cost_source row \<notin> {None, Some Fallback_average, Some Unpriceable}"

text \<open>\<open>lookup\<close> is the price lookup and \<open>tab\<close> the telemetry table.\<close>

definition compute_session_cost ::
  "(string \<Rightarrow> dtime \<Rightarrow> dtime \<Rightarrow> price_map) \<Rightarrow> telemetry_row list \<Rightarrow> session_row \<Rightarrow> SessionCostResult" where
  "compute_session_cost lookup tab row =
     (if keeps_existing row then (no_cost Manual)\<lparr>sc_cost := sr_cost_total row\<rparr>
      else case sr_end_time row of
             None \<Rightarrow> no_cost Pending_close
           | Some end' \<Rightarrow>
               if sr_site_id row = None then no_cost No_depot
               else case sr_bidding_zone row of
                      None \<Rightarrow> no_cost Unpriceable
                    | Some zone \<Rightarrow>
                        if zone = [] then no_cost Unpriceable
                        else
                          let start = sr_start_time row;
                              pm = lookup zone start end';
                              rows = fetch_granular_telemetry_rows (sr_vehicle_id row) (sr_station_id row)
                                       (sr_connector_id row) (sr_transaction_id row) start end' tab
                          in case try_granular rows start end' (sr_energy_delivered_kwh row) pm of
                               Some r \<Rightarrow> r
                             | None \<Rightarrow>
                                 (case sr_energy_delivered_kwh row of
                                    None \<Rightarrow> no_cost No_energy
                                  | Some delivered \<Rightarrow>
                                      if delivered \<le> 0 then no_cost No_energy
                                      else fallback_average delivered (sr_start_offset row) start end' pm))"

text \<open>The guarded \<open>UPDATE\<close> on the table, and whether it affected a row.\<close>

definition write_eligible :: "session_row \<Rightarrow> bool" where
  "write_eligible row \<longleftrightarrow> sr_cost_total row \<in> {None, Some 0} \<and> sr_cost_source row \<noteq> Some Manual"

definition write_session_cost :: "string \<Rightarrow> SessionCostResult \<Rightarrow> session_row list \<Rightarrow> bool \<times> session_row list" where
  "write_session_cost sid result tab =
     (if sc_source result = Pending_close then (False, tab)
      else let cost_value = (if sc_source result \<in> {Granular, Fallback_average} then sc_cost result else None);
               hit = (\<lambda>row. sr_session_id row = sid \<and> write_eligible row)
           in (list_ex hit tab,
               map (\<lambda>row. if hit row then row\<lparr>sr_cost_total := cost_value, sr_cost_source := Some (sc_source result)\<rparr> else row) tab))"

section \<open>Lemmas: hours\<close>

lemma floor_hour_bounds: "floor_hour t \<le> t \<and> t < floor_hour t + usec_per_hour"
proof -
  have "t div usec_per_hour * usec_per_hour + t mod usec_per_hour = t" by simp
  moreover have "0 \<le> t mod usec_per_hour" "t mod usec_per_hour < usec_per_hour" by simp_all
  ultimately show ?thesis unfolding floor_hour_def by linarith
qed

lemma floor_hour_aligned: "h mod usec_per_hour = 0 \<Longrightarrow> floor_hour h = h"
  by (simp add: floor_hour_def) (metis add.right_neutral div_mult_mod_eq)

lemma floor_hour_mod [simp]: "floor_hour t mod usec_per_hour = 0"
  by (simp add: floor_hour_def)

lemma floor_hour_offset: "off mod usec_per_hour = 0 \<Longrightarrow> floor_hour (t + off) - off = floor_hour t"
proof -
  assume "off mod usec_per_hour = 0"
  then obtain k where k: "off = k * usec_per_hour" by (metis add.right_neutral div_mult_mod_eq)
  have "usec_per_hour \<noteq> 0" by (simp add: usec_values)
  then have "(t + k * usec_per_hour) div usec_per_hour = t div usec_per_hour + k" by simp
  then show ?thesis by (simp add: floor_hour_def k algebra_simps)
qed

lemma hour_buckets_step: "c < e \<Longrightarrow> hour_buckets_from c e = c # hour_buckets_from (c + usec_per_hour) e"
  by (subst hour_buckets_from.simps) simp

lemma hour_buckets_stop: "\<not> c < e \<Longrightarrow> hour_buckets_from c e = []"
  by (subst hour_buckets_from.simps) simp

lemma hour_buckets_aligned:
  "c mod usec_per_hour = 0 \<Longrightarrow> h \<in> set (hour_buckets_from c e) \<Longrightarrow> h mod usec_per_hour = 0 \<and> c \<le> h \<and> h < e"
proof (induction c e rule: hour_buckets_from.induct)
  case (1 c e)
  have "c < e" using "1.prems"(2) hour_buckets_stop by fastforce
  then have "h = c \<or> h \<in> set (hour_buckets_from (c + usec_per_hour) e)"
    using "1.prems"(2) by (simp add: hour_buckets_step)
  then show ?case
  proof
    assume "h = c"
    with \<open>c < e\<close> "1.prems"(1) show ?thesis by simp
  next
    assume "h \<in> set (hour_buckets_from (c + usec_per_hour) e)"
    from "1.IH" [OF \<open>c < e\<close> _ this] "1.prems"(1) show ?thesis by (simp add: usec_values)
  qed
qed

text \<open>The part of the session that lies in an hour, in microseconds.\<close>

definition overlap_usec :: "dtime \<Rightarrow> dtime \<Rightarrow> dtime \<Rightarrow> int" where
  "overlap_usec start end' h = min end' (h + usec_per_hour) - max start h"

lemma overlap_from: "start \<le> c \<Longrightarrow> sum_list (map (overlap_usec start e) (hour_buckets_from c e)) = max 0 (e - c)"
proof (induction c e rule: hour_buckets_from.induct)
  case (1 c e)
  show ?case
  proof (cases "c < e")
    case True
    have "start \<le> c + usec_per_hour" using "1.prems" by (simp add: usec_values)
    from "1.IH" [OF True this] True "1.prems"
    show ?thesis by (simp add: hour_buckets_step overlap_usec_def usec_values)
  next
    case False
    then show ?thesis by (simp add: hour_buckets_stop)
  qed
qed

lemma overlap_total:
  assumes "start < e"
  shows "sum_list (map (overlap_usec start e) (hour_buckets_from (floor_hour start) e)) = e - start"
proof -
  let ?c = "floor_hour start"
  have c: "?c \<le> start" "start < ?c + usec_per_hour" using floor_hour_bounds by auto
  then have "?c < e" using assms by simp
  then have "sum_list (map (overlap_usec start e) (hour_buckets_from ?c e)) =
      overlap_usec start e ?c + sum_list (map (overlap_usec start e) (hour_buckets_from (?c + usec_per_hour) e))"
    by (simp add: hour_buckets_step)
  also have "\<dots> = e - start"
    using c assms by (subst overlap_from) (auto simp: overlap_usec_def)
  finally show ?thesis .
qed

lemma total_seconds_add: "total_seconds (a + b) = total_seconds a + total_seconds b"
  by (simp add: total_seconds_def add_divide_distrib)

lemma sum_total_seconds: "sum_list (map (\<lambda>x. total_seconds (f x)) xs) = total_seconds (sum_list (map f xs))"
  by (induction xs) (simp_all add: total_seconds_add, simp add: total_seconds_def)

lemma total_seconds_pos: "0 < total_seconds d \<longleftrightarrow> 0 < d"
  by (simp add: total_seconds_def usec_values)

lemma overlap_hours_usec: "h mod usec_per_hour = 0 \<Longrightarrow> overlap_hours start e h = total_seconds (overlap_usec start e h) / 3600"
  by (simp add: overlap_hours_def overlap_usec_def normalize_hour_def floor_hour_aligned Let_def)

lemma overlap_usec_pos:
  assumes "start < e" and "h \<in> set (hour_buckets_from (floor_hour start) e)"
  shows "0 < overlap_usec start e h"
proof -
  have h: "h mod usec_per_hour = 0" "floor_hour start \<le> h" "h < e"
    using hour_buckets_aligned [OF floor_hour_mod assms(2)] by auto
  have "start < floor_hour start + usec_per_hour" using floor_hour_bounds by blast
  with h assms(1) show ?thesis by (simp add: overlap_usec_def)
qed

lemma foldl_weighted:
  assumes "\<forall>h \<in> set hs. price_for_hour pm h \<noteq> None \<and> 0 < overlap_hours start e h"
  shows "foldl (add_weighted pm start e) (a, b) hs =
     (a + sum_list (map (\<lambda>h. the (price_for_hour pm h) * overlap_hours start e h) hs),
      b + sum_list (map (overlap_hours start e) hs))"
  using assms
proof (induction hs arbitrary: a b)
  case Nil
  then show ?case by simp
next
  case (Cons h hs)
  then obtain p where p: "price_for_hour pm h = Some p" "0 < overlap_hours start e h" by auto
  then have "add_weighted pm start e (a, b) h = (a + p * overlap_hours start e h, b + overlap_hours start e h)"
    by (simp add: add_weighted_def Let_def)
  with Cons p show ?case by (simp add: add.assoc)
qed

lemma weighted_average_bounds:
  fixes lo hi :: pyfloat
  assumes "\<forall>h \<in> set hs. lo \<le> f h \<and> f h \<le> hi \<and> 0 \<le> w h"
  shows "lo * sum_list (map w hs) \<le> sum_list (map (\<lambda>h. f h * w h) hs) \<and>
     sum_list (map (\<lambda>h. f h * w h) hs) \<le> hi * sum_list (map w hs)"
  using assms
proof (induction hs)
  case (Cons h hs)
  have "lo * w h \<le> f h * w h" "f h * w h \<le> hi * w h"
    using Cons.prems by (simp_all add: mult_right_mono)
  with Cons show ?case by (simp add: distrib_left)
qed simp

section \<open>Lemmas: the telemetry query\<close>

lemma with_lead_seconds:
  assumes "sorted (map fst xs)" and "xs \<noteq> []" and "\<forall>x \<in> set xs. fst x < e" and "start \<le> e"
  shows "sum_list (map (sample_seconds e) (bucketed start (with_lead xs))) = total_seconds (e - max start (fst (hd xs)))"
  using assms
proof (induction xs rule: with_lead.induct)
  case (3 t kw t' kw' rest)
  let ?tail = "sum_list (map (sample_seconds e) (bucketed start (with_lead ((t', kw') # rest))))"
  have IH: "?tail = total_seconds (e - max start t')" using 3 by simp
  have t: "t \<le> t'" "t' < e" using "3.prems" by auto
  show ?case
  proof (cases "start < t'")
    case True
    then have "sum_list (map (sample_seconds e) (bucketed start (with_lead ((t, kw) # (t', kw') # rest)))) =
        total_seconds (t' - max t start) + ?tail"
      using t by (simp add: bucketed_def sample_seconds_def)
    also have "\<dots> = total_seconds (e - max start t)"
      using True t IH by (simp add: total_seconds_add [symmetric] max.commute)
    finally show ?thesis by simp
  next
    case False
    then have "sum_list (map (sample_seconds e) (bucketed start (with_lead ((t, kw) # (t', kw') # rest)))) = ?tail"
      by (simp add: bucketed_def)
    moreover have "max start t = start" "max start t' = start" using False t by auto
    ultimately show ?thesis using IH by simp
  qed
qed (simp_all add: bucketed_def sample_seconds_def max.commute)

lemma sum_partition:
  "distinct ks \<Longrightarrow>
     sum_list (map (\<lambda>k. sum_list (map f (filter (\<lambda>x. g x = k) xs))) ks) = sum_list (map f (filter (\<lambda>x. g x \<in> set ks) xs))"
  for f :: "'a \<Rightarrow> pyfloat"
proof (induction ks)
  case Nil
  then show ?case by simp
next
  case (Cons k ks)
  have "sum_list (map f (filter (\<lambda>x. g x = k) xs)) + sum_list (map f (filter (\<lambda>x. g x \<in> set ks) xs)) =
      sum_list (map f (filter (\<lambda>x. g x = k \<or> g x \<in> set ks) xs))"
    using Cons.prems by (induction xs) auto
  with Cons show ?case by simp
qed

lemma granular_rows_seconds:
  "sum_list (map br_observed_seconds (granular_rows w start e tab)) =
     sum_list (map (sample_seconds e) (bucketed start (with_lead (window_rows w start e tab))))"
  using sum_partition [of "sort (remdups (map (\<lambda>s. floor_hour (sp_time s)) ss))" "sample_seconds e" "\<lambda>s. floor_hour (sp_time s)" ss
      for ss, unfolded set_sort set_remdups]
  by (simp add: granular_rows_def Let_def comp_def)

lemma window_rows_sorted: "sorted (map fst (window_rows w start e tab))"
  by (simp add: window_rows_def)

lemma window_rows_before: "x \<in> set (window_rows w start e tab) \<Longrightarrow> fst x < e"
  by (auto simp: window_rows_def)

section \<open>Properties\<close>

text \<open>C32: The fallback never fabricates a price and is an exact weighted average. For a session of positive
  length in a zone with a whole-hour offset: if an hour of the session has no price the session is
  unpriceable; otherwise the cost is the delivered energy times the average of the hourly prices, each
  weighted by the part of the session that lies in its hour, over the length of the session, rounded to
  four digits; so the average lies between any bounds on the prices.\<close>

theorem fallback_is_weighted_average:
  assumes "start < e" and "off mod usec_per_hour = 0"
    and "hours = hour_buckets_from (floor_hour start) e"
    and "avg = sum_list (map (\<lambda>h. the (price_for_hour pm h) * total_seconds (overlap_usec start e h)) hours) / total_seconds (e - start)"
  shows "if \<exists>h \<in> set hours. price_for_hour pm h = None
    then fallback_average delivered off start e pm = no_cost Unpriceable
    else sc_source (fallback_average delivered off start e pm) = Fallback_average \<and>
      sc_cost (fallback_average delivered off start e pm) = Some (quantize4 (delivered * avg)) \<and>
      ((\<forall>h \<in> set hours. lo \<le> the (price_for_hour pm h) \<and> the (price_for_hour pm h) \<le> hi) \<longrightarrow> lo \<le> avg \<and> avg \<le> hi)"
proof -
  have exp: "expected_hour_buckets off start e = hours"
    using assms(2,3) by (simp add: expected_hour_buckets_def floor_hour_offset)
  have ne: "hours \<noteq> []" using assms(1,3) floor_hour_bounds [of start] by (simp add: hour_buckets_step)
  have pos: "0 < total_seconds (e - start)" using assms(1) by (simp add: total_seconds_pos)
  have al: "h \<in> set hours \<Longrightarrow> overlap_hours start e h = total_seconds (overlap_usec start e h) / 3600 \<and> 0 < total_seconds (overlap_usec start e h)" for h
    using hour_buckets_aligned [OF floor_hour_mod] overlap_usec_pos [OF assms(1)] assms(3)
    by (simp add: overlap_hours_usec total_seconds_pos)
  have len: "length (filter P hours) < length hours \<longleftrightarrow> (\<exists>h \<in> set hours. \<not> P h)" for P
    by (metis filter_True length_filter_less less_irrefl)
  show ?thesis
  proof (cases "\<exists>h \<in> set hours. price_for_hour pm h = None")
    case True
    with len [of "\<lambda>h. price_for_hour pm h \<noteq> None"] show ?thesis by (simp add: fallback_average_def exp Let_def)
  next
    case False
    let ?w = "sum_list (map (\<lambda>h. total_seconds (overlap_usec start e h)) hours)"
    let ?s = "sum_list (map (\<lambda>h. the (price_for_hour pm h) * total_seconds (overlap_usec start e h)) hours)"
    have w: "?w = total_seconds (e - start)"
      using overlap_total [OF assms(1)] assms(3) by (simp add: sum_total_seconds)
    have div: "sum_list (map (\<lambda>h. f h / 3600) xs) = sum_list (map f xs) / 3600" for f :: "int \<Rightarrow> pyfloat" and xs
      by (induction xs) (simp_all add: add_divide_distrib)
    have cong: "map (overlap_hours start e) hours = map (\<lambda>h. total_seconds (overlap_usec start e h) / 3600) hours"
      "map (\<lambda>h. the (price_for_hour pm h) * overlap_hours start e h) hours =
       map (\<lambda>h. the (price_for_hour pm h) * total_seconds (overlap_usec start e h) / 3600) hours"
      using al by auto
    have fold: "foldl (add_weighted pm start e) (0, 0) hours = (?s / 3600, ?w / 3600)"
      using foldl_weighted [of hours pm start e 0 0] False al by (simp add: cong div)
    have res: "fallback_average delivered off start e pm =
        \<lparr>sc_cost = Some (quantize4 (delivered * avg)), sc_source = Fallback_average,
         sc_energy_kwh_from_telemetry = None, sc_avg_price_used = Some avg, sc_telemetry_coverage = None\<rparr>"
      using len [of "\<lambda>h. price_for_hour pm h \<noteq> None"] False ne fold pos assms(4)
      by (simp add: fallback_average_def exp Let_def w)
    have "lo \<le> avg \<and> avg \<le> hi" if "\<forall>h \<in> set hours. lo \<le> the (price_for_hour pm h) \<and> the (price_for_hour pm h) \<le> hi"
    proof -
      have "lo * ?w \<le> ?s \<and> ?s \<le> hi * ?w"
        using that al by (intro weighted_average_bounds) (auto intro: less_imp_le)
      then show ?thesis unfolding assms(4) w using pos by (simp add: le_divide_eq divide_le_eq)
    qed
    with res show ?thesis unfolding if_not_P [OF False] by simp
  qed
qed

theorem fallback_is_weighted_average_witness:
  "sc_cost (fallback_average 10 0 0 3600000000 [(Aware 0, 1 / 5)]) = Some 2"
proof -
  have b: "hour_buckets_from (floor_hour 0) 3600000000 = [0]"
    by (simp add: floor_hour_def hour_buckets_step hour_buckets_stop usec_values)
  have p: "price_for_hour [(Aware 0, 1 / 5)] 0 = Some (1 / 5)" by (simp add: price_for_hour_def normalize_hour_def floor_hour_def)
  from fallback_is_weighted_average [where start = 0 and e = 3600000000 and off = 0 and hours = "[0]" and avg = "1 / 5"
      and pm = "[(Aware 0, 1 / 5)]" and delivered = 10]
  have "sc_cost (fallback_average 10 0 0 3600000000 [(Aware 0, 1 / 5)]) = Some (quantize4 (10 * (1 / 5)))"
    by (simp add: b p overlap_usec_def usec_values total_seconds_def)
  also have "quantize4 (10 * (1 / 5)) = 2"
    using round_half_even_of_int [of 20000] by (simp add: quantize4_def)
  finally show ?thesis .
qed

text \<open>The coverage of the granular strategy only sees when telemetry begins: the observed seconds of
  all hour buckets add up to the time from the first sample (or the session's start, if the first
  sample lies before it) to the session's end, so a gap between two samples, however long, counts as
  covered.\<close>

theorem coverage_ignores_gaps:
  assumes "window_rows w start e tab = (t, kw) # rest" and "start < e"
  shows "granular_coverage (granular_rows w start e tab) start e = total_seconds (e - max start t) / total_seconds (e - start)"
proof -
  have "sum_list (map br_observed_seconds (granular_rows w start e tab)) = total_seconds (e - max start t)"
    unfolding granular_rows_seconds
    using with_lead_seconds [OF window_rows_sorted, of w start e tab e start] window_rows_before [of _ w start e tab] assms
    by simp
  then show ?thesis using assms(2) by (simp add: granular_coverage_def Let_def total_seconds_pos)
qed

theorem coverage_ignores_gaps_witness:
  "granular_coverage (granular_rows (\<lambda>_. True) 0 7200000000
     [\<lparr>tr_vehicle_id = None, tr_station_id = None, tr_connector_id = None, tr_transaction_id = None, tr_time = 0,
       tr_charging_kw = Some 50\<rparr>]) 0 7200000000 = 1"
  using coverage_ignores_gaps [where w = "\<lambda>_. True" and start = 0 and e = 7200000000 and t = 0 and kw = 50 and rest = "[]"
      and tab = "[\<lparr>tr_vehicle_id = None, tr_station_id = None, tr_connector_id = None, tr_transaction_id = None, tr_time = 0,
       tr_charging_kw = Some 50\<rparr>]"]
  by (simp add: window_rows_def usec_values total_seconds_def)

text \<open>Writing a cost is safe: a row with a manual source or a cost other than zero is left as it is,
  whatever is written; a row that is written gets a cost only from the two priced strategies and NULL
  otherwise; and once a cost other than zero is written, writing again affects nothing.\<close>

theorem write_keeps_settled_rows:
  "(\<forall>row \<in> set tab. \<not> write_eligible row \<longrightarrow> row \<in> set (snd (write_session_cost sid r tab))) \<and>
   (\<forall>row \<in> set (snd (write_session_cost sid r tab)). row \<in> set tab \<or>
      sr_session_id row = sid \<and> sr_cost_source row = Some (sc_source r) \<and>
      sr_cost_total row = (if sc_source r \<in> {Granular, Fallback_average} then sc_cost r else None)) \<and>
   (sc_source r \<in> {Granular, Fallback_average} \<and> sc_cost r \<notin> {None, Some 0} \<longrightarrow>
      write_session_cost sid r (snd (write_session_cost sid r tab)) = (False, snd (write_session_cost sid r tab)))"
proof (intro conjI impI)
  show "\<forall>row \<in> set tab. \<not> write_eligible row \<longrightarrow> row \<in> set (snd (write_session_cost sid r tab))"
    by (force simp: write_session_cost_def Let_def)
  show "\<forall>row \<in> set (snd (write_session_cost sid r tab)). row \<in> set tab \<or>
      sr_session_id row = sid \<and> sr_cost_source row = Some (sc_source r) \<and>
      sr_cost_total row = (if sc_source r \<in> {Granular, Fallback_average} then sc_cost r else None)"
    by (auto simp: write_session_cost_def Let_def split: if_splits)
  assume priced: "sc_source r \<in> {Granular, Fallback_average} \<and> sc_cost r \<notin> {None, Some 0}"
  let ?tab = "snd (write_session_cost sid r tab)"
  have none: "\<not> (sr_session_id row = sid \<and> write_eligible row)" if "row \<in> set ?tab" for row
  proof -
    define upd where "upd = (\<lambda>old. if sr_session_id old = sid \<and> write_eligible old
        then old\<lparr>sr_cost_total := sc_cost r, sr_cost_source := Some (sc_source r)\<rparr> else old)"
    have "?tab = map upd tab" using priced by (auto simp: write_session_cost_def Let_def upd_def)
    with that obtain old where "row = upd old" by auto
    with priced show ?thesis
      by (cases "sr_session_id old = sid \<and> write_eligible old") (auto simp: write_eligible_def upd_def)
  qed
  have "map (\<lambda>row. if sr_session_id row = sid \<and> write_eligible row then f row else row) ?tab = ?tab" for f
    using none by (intro map_idI) auto
  moreover have "\<not> list_ex (\<lambda>row. sr_session_id row = sid \<and> write_eligible row) ?tab"
    using none by (auto simp: list_ex_iff)
  ultimately show "write_session_cost sid r ?tab = (False, ?tab)"
    using priced unfolding write_session_cost_def [of sid r ?tab] Let_def by auto
qed

theorem write_keeps_settled_rows_witness:
  "\<not> write_eligible \<lparr>sr_session_id = ''s'', sr_cost_total = Some 3, sr_cost_source = None, sr_end_time = None, sr_site_id = None,
      sr_start_time = 0, sr_start_offset = 0, sr_energy_delivered_kwh = None, sr_vehicle_id = None, sr_bidding_zone = None,
      sr_station_id = None, sr_connector_id = None, sr_transaction_id = None\<rparr> \<and>
   \<lparr>sr_session_id = ''s'', sr_cost_total = Some 3, sr_cost_source = None, sr_end_time = None, sr_site_id = None,
      sr_start_time = 0, sr_start_offset = 0, sr_energy_delivered_kwh = None, sr_vehicle_id = None, sr_bidding_zone = None,
      sr_station_id = None, sr_connector_id = None, sr_transaction_id = None\<rparr> \<in>
     set (snd (write_session_cost ''s'' (no_cost Unpriceable)
      [\<lparr>sr_session_id = ''s'', sr_cost_total = Some 3, sr_cost_source = None, sr_end_time = None, sr_site_id = None,
        sr_start_time = 0, sr_start_offset = 0, sr_energy_delivered_kwh = None, sr_vehicle_id = None, sr_bidding_zone = None,
        sr_station_id = None, sr_connector_id = None, sr_transaction_id = None\<rparr>]))"
  using write_keeps_settled_rows [where sid = "''s''" and r = "no_cost Unpriceable"
      and tab = "[\<lparr>sr_session_id = ''s'', sr_cost_total = Some 3, sr_cost_source = None, sr_end_time = None, sr_site_id = None,
        sr_start_time = 0, sr_start_offset = 0, sr_energy_delivered_kwh = None, sr_vehicle_id = None, sr_bidding_zone = None,
        sr_station_id = None, sr_connector_id = None, sr_transaction_id = None\<rparr>]"]
  by (simp add: write_eligible_def)

end
