(* ===== verification/Transactions.thy ===== *)
theory Transactions
  imports Interfaces
begin

text \<open>
  OCPP transactions, \<open>src/src/websocket_handler/transaction_manager.py\<close>: class \<open>TransactionManager\<close> with
  its dictionary of active transactions keyed by \<open>f"{station_id}:{evse_id}"\<close>, the per-EVSE locks, the
  tariff and cost caches. What the database, the RFID service and \<open>uuid4\<close> deliver is an argument. A
  remote start awaits the authorisation while it holds the lock, so it is two definitions and the
  interleavings are a step relation, in which a stop and an event are one step each. \<open>tx_locks\<close> holds
  the locks that are taken, each with the request that holds it.
\<close>

section \<open>Model: data\<close>

datatype TransactionEventType = STARTED | UPDATED | ENDED

datatype ChargingState = CHARGING | EV_CONNECTED | SUSPENDED_EV | SUSPENDED_EVSE | IDLE

datatype IdTokenType =
    Central | EMAID | ISO14443 | ISO15693 | KeyCode | Local | NoAuthorization | OtherToken

record IdToken =
  it_id_token :: string
  it_type :: IdTokenType

record TransactionInfo =
  ti_transaction_id :: string
  ti_charging_state :: "ChargingState option"
  ti_time_spent_charging :: "int option"
  ti_stopped_reason :: "string option"
  ti_remote_start_id :: "int option"
  ti_evse_id :: "int option"
  ti_connector_id :: "int option"

text \<open>A price component with the keys \<open>type\<close>, \<open>price\<close> and \<open>stepSize\<close>, any of which may be absent.\<close>

record price_component =
  pc_type :: "string option"
  pc_price :: "pyfloat option"
  pc_step_size :: "pyfloat option"

record Tariff =
  tf_tariff_id :: string
  tf_currency :: string
  tf_tariff_element :: "price_component list list"
  tf_min_price :: "pyfloat option"
  tf_max_price :: "pyfloat option"

record cost_data =
  cd_total_cost :: pyfloat
  cd_currency :: string
  cd_breakdown :: "(string option \<times> pyfloat \<times> pyfloat) list"

record TransactionManager =
  tx_active :: "(string, TransactionInfo) pydict"
  tx_locks :: "(string, nat) pydict"
  tx_tariffs :: "(string, Tariff) pydict"
  tx_costs :: "(string, cost_data) pydict"

definition tx_init :: TransactionManager where
  "tx_init = \<lparr>tx_active = [], tx_locks = [], tx_tariffs = [], tx_costs = []\<rparr>"

text \<open>The key of an EVSE; a missing EVSE id is printed as \<open>None\<close>.\<close>

definition evse_key :: "string \<Rightarrow> int option \<Rightarrow> string" where
  "evse_key station_id evse_id = station_id @ '':'' @ (case evse_id of None \<Rightarrow> ''None'' | Some e \<Rightarrow> int_str e)"

datatype tx_response =
    Accepted "string option"
  | Rejected string

section \<open>Model: remote start\<close>

definition validate_id_token_shape :: "IdToken \<Rightarrow> string option" where
  "validate_id_token_shape tok =
     (if list_all is_space (it_id_token tok) then Some ''InvalidToken''
      else if it_type tok = NoAuthorization then Some ''InvalidTokenType'' else None)"

definition profile_purpose :: "(string, pyval) pydict \<Rightarrow> pyval" where
  "profile_purpose p =
     (case map_of p ''chargingProfilePurpose'' of
        Some v \<Rightarrow> if truthy v then v else (case map_of p ''charging_profile_purpose'' of None \<Rightarrow> PNone | Some w \<Rightarrow> w)
      | None \<Rightarrow> (case map_of p ''charging_profile_purpose'' of None \<Rightarrow> PNone | Some w \<Rightarrow> w))"

definition validate_request_start_profile :: "(string, pyval) pydict option \<Rightarrow> string option" where
  "validate_request_start_profile profile =
     (case profile of
        None \<Rightarrow> None
      | Some p \<Rightarrow>
          if p = [] then None
          else if truthy (profile_purpose p) \<and> profile_purpose p \<noteq> PStr ''TxProfile'' then Some ''InvalidChargingProfile''
          else if ''transactionId'' \<in> keys p \<or> ''transaction_id'' \<in> keys p then Some ''InvalidChargingProfile''
          else None)"

text \<open>Up to the first await: rejected at once, waiting for the lock, or holding it with the slot free.\<close>

datatype start_phase = Finished tx_response | Waiting | Holding

definition request_start_begin ::
  "nat \<Rightarrow> string \<Rightarrow> int \<Rightarrow> IdToken \<Rightarrow> (string, pyval) pydict option \<Rightarrow> TransactionManager \<Rightarrow> start_phase \<times> TransactionManager" where
  "request_start_begin req station_id evse_id tok profile s =
     (case validate_id_token_shape tok of
        Some r \<Rightarrow> (Finished (Rejected r), s)
      | None \<Rightarrow>
          (case validate_request_start_profile profile of
             Some r \<Rightarrow> (Finished (Rejected r), s)
           | None \<Rightarrow>
               let key = evse_key station_id (Some evse_id)
               in if key \<in> keys (tx_locks s) then (Waiting, s)
                  else if key \<in> keys (tx_active s) then (Finished (Rejected ''ConcurrentTx''), s)
                  else (Holding, s\<lparr>tx_locks := AList.update key req (tx_locks s)\<rparr>)))"

text \<open>What the awaited calls of a start deliver: the authorisation (\<open>None\<close> raised, otherwise the OCPP
  status and whether it is accepted), the EVSE status (availability), the new id, and whether storing
  raised. The application of the request's charging profile, after the transaction is entered, only writes to the log
  and has no part in the state.\<close>

record start_env =
  se_auth :: "(string \<times> bool) option"
  se_available :: bool
  se_uuid :: string
  se_store_ok :: bool

definition request_start_end ::
  "start_env \<Rightarrow> string \<Rightarrow> int \<Rightarrow> int option \<Rightarrow> TransactionManager \<Rightarrow> tx_response \<times> TransactionManager" where
  "request_start_end env station_id evse_id remote_start_id s =
     (let key = evse_key station_id (Some evse_id);
          released = s\<lparr>tx_locks := AList.delete key (tx_locks s)\<rparr>
      in case se_auth env of
           None \<Rightarrow> (Rejected ''InternalError'', released)
         | Some (status, accepted) \<Rightarrow>
             if \<not> accepted then (Rejected status, released)
             else if \<not> se_available env then (Rejected ''EVSEUnavailable'', released)
             else if \<not> se_store_ok env then (Rejected ''InternalError'', released)
             else let info = \<lparr>ti_transaction_id = se_uuid env, ti_charging_state = Some EV_CONNECTED,
                        ti_time_spent_charging = None, ti_stopped_reason = None, ti_remote_start_id = remote_start_id,
                        ti_evse_id = Some evse_id, ti_connector_id = Some 1\<rparr>
                  in (Accepted (Some (se_uuid env)),
                      released\<lparr>tx_active := AList.update key info (tx_active released)\<rparr>))"

text \<open>The whole method, when no other call runs meanwhile; \<open>None\<close> while the lock is held elsewhere.\<close>

definition request_start_transaction ::
  "nat \<Rightarrow> start_env \<Rightarrow> string \<Rightarrow> int \<Rightarrow> int option \<Rightarrow> IdToken \<Rightarrow> (string, pyval) pydict option \<Rightarrow> TransactionManager \<Rightarrow>
     (tx_response \<times> TransactionManager) option" where
  "request_start_transaction req env station_id evse_id remote_start_id tok profile s =
     (case request_start_begin req station_id evse_id tok profile s of
        (Finished r, s') \<Rightarrow> Some (r, s')
      | (Waiting, s') \<Rightarrow> None
      | (Holding, s') \<Rightarrow> Some (request_start_end env station_id evse_id remote_start_id s'))"

section \<open>Model: tariffs and costs\<close>

definition set_tariff :: "string \<Rightarrow> Tariff \<Rightarrow> TransactionManager \<Rightarrow> TransactionManager" where
  "set_tariff station_id tariff s = s\<lparr>tx_tariffs := AList.update station_id tariff (tx_tariffs s)\<rparr>"

text \<open>\<open>stored\<close> is what the database holds for the station.\<close>

definition get_tariff :: "string \<Rightarrow> Tariff option \<Rightarrow> TransactionManager \<Rightarrow> Tariff option \<times> TransactionManager" where
  "get_tariff station_id stored s =
     (case map_of (tx_tariffs s) station_id of
        Some t \<Rightarrow> (Some t, s)
      | None \<Rightarrow> (case stored of
                   Some t \<Rightarrow> (Some t, s\<lparr>tx_tariffs := AList.update station_id t (tx_tariffs s)\<rparr>)
                 | None \<Rightarrow> (None, s)))"

text \<open>The energy is the sum over the telemetry of the transaction, \<open>None\<close> when there is no telemetry.\<close>

definition component_cost :: "pyfloat option \<Rightarrow> int option \<Rightarrow> price_component \<Rightarrow> pyfloat result" where
  "component_cost energy_kwh time_spent c =
     (let price = (case pc_price c of None \<Rightarrow> 0 | Some p \<Rightarrow> p);
          step = (case pc_step_size c of None \<Rightarrow> 1 | Some x \<Rightarrow> x)
      in if pc_type c = Some ''Energy'' then
           (case energy_kwh of
              None \<Rightarrow> Inl TypeError
            | Some e \<Rightarrow> if step = 0 then Inl ZeroDivisionError else Inr (e / step * price))
         else if pc_type c = Some ''Time'' then
           (if step = 0 then Inl ZeroDivisionError
            else Inr (of_int (case time_spent of None \<Rightarrow> 0 | Some n \<Rightarrow> n) / step * price))
         else Inr price)"

fun component_costs ::
  "pyfloat option \<Rightarrow> int option \<Rightarrow> price_component list \<Rightarrow> (string option \<times> pyfloat \<times> pyfloat) list result" where
  "component_costs energy_kwh time_spent [] = Inr []"
| "component_costs energy_kwh time_spent (c # cs) =
     (case component_cost energy_kwh time_spent c of
        Inl e \<Rightarrow> Inl e
      | Inr x \<Rightarrow>
          (case component_costs energy_kwh time_spent cs of
             Inl e \<Rightarrow> Inl e
           | Inr rest \<Rightarrow> Inr ((pc_type c, (case pc_price c of None \<Rightarrow> 0 | Some p \<Rightarrow> p), x) # rest)))"

definition round2 :: "pyfloat \<Rightarrow> pyfloat" where
  "round2 x = of_int (round_half_even (x * 100)) / 100"

definition no_cost_data :: cost_data where
  "no_cost_data = \<lparr>cd_total_cost = 0, cd_currency = ''USD'', cd_breakdown = []\<rparr>"

text \<open>\<open>tariff_row\<close> and \<open>energy\<close> are the database answers, \<open>None\<close> outside when the call raised.\<close>

definition calculate_transaction_cost ::
  "string \<Rightarrow> TransactionInfo \<Rightarrow> Tariff option option \<Rightarrow> pyfloat option option \<Rightarrow> TransactionManager \<Rightarrow> cost_data \<times> TransactionManager" where
  "calculate_transaction_cost station_id info tariff_row energy s =
     (if map_of (tx_tariffs s) station_id = None \<and> tariff_row = None then (no_cost_data, s)
      else case get_tariff station_id (case tariff_row of None \<Rightarrow> None | Some t \<Rightarrow> t) s of
             (None, s') \<Rightarrow> (no_cost_data, s')
           | (Some tariff, s') \<Rightarrow>
               (case energy of
                  None \<Rightarrow> (no_cost_data, s')
                | Some energy_kwh \<Rightarrow>
                    (case component_costs energy_kwh (ti_time_spent_charging info) (concat (tf_tariff_element tariff)) of
                       Inl e \<Rightarrow> (no_cost_data, s')
                     | Inr parts \<Rightarrow>
                         (\<lparr>cd_total_cost = round2 (sum_list (map (snd \<circ> snd) parts)), cd_currency = tf_currency tariff,
                           cd_breakdown = parts\<rparr>, s'))))"

section \<open>Model: stop and events\<close>

text \<open>The first active transaction of a station with an id, with its key.\<close>

definition find_active :: "string \<Rightarrow> string \<Rightarrow> TransactionManager \<Rightarrow> (string \<times> TransactionInfo) option" where
  "find_active station_id transaction_id s =
     List.find (\<lambda>(k, ti). starts_with (station_id @ '':'') k \<and> ti_transaction_id ti = transaction_id) (tx_active s)"

text \<open>\<open>pe_stored\<close> is the row of the database (\<open>None\<close>: the query or the parsing raised).\<close>

record stop_env =
  pe_stored :: "TransactionInfo option option"
  pe_tariff_row :: "Tariff option option"
  pe_energy :: "pyfloat option option"
  pe_update_ok :: bool

definition stop_info :: "string option \<Rightarrow> TransactionInfo \<Rightarrow> TransactionInfo" where
  "stop_info reason info =
     info\<lparr>ti_charging_state := Some IDLE,
          ti_stopped_reason := Some (case reason of None \<Rightarrow> ''Remote'' | Some r \<Rightarrow> if r = [] then ''Remote'' else r)\<rparr>"

text \<open>An active transaction is the object in the dictionary, so the stop also changes it there.\<close>

definition stop_found ::
  "stop_env \<Rightarrow> string \<Rightarrow> string option \<Rightarrow> string option \<Rightarrow> TransactionInfo \<Rightarrow> TransactionManager \<Rightarrow> tx_response \<times> TransactionManager" where
  "stop_found env station_id reason alias ti s =
     (let s1 = snd (calculate_transaction_cost station_id ti (pe_tariff_row env) (pe_energy env) s);
          ti' = stop_info reason ti;
          s2 = (case alias of
                  Some k \<Rightarrow> s1\<lparr>tx_active := AList.update k ti' (tx_active s1)\<rparr>
                | None \<Rightarrow> s1)
      in if \<not> pe_update_ok env then (Rejected ''InternalError'', s2)
         else (Accepted None, s2\<lparr>tx_active := AList.delete (evse_key station_id (ti_evse_id ti')) (tx_active s2)\<rparr>))"

definition request_stop_transaction ::
  "stop_env \<Rightarrow> string \<Rightarrow> string \<Rightarrow> string option \<Rightarrow> TransactionManager \<Rightarrow> tx_response \<times> TransactionManager" where
  "request_stop_transaction env station_id transaction_id reason s =
     (case find_active station_id transaction_id s of
        Some (k, ti) \<Rightarrow> stop_found env station_id reason (Some k) ti s
      | None \<Rightarrow>
          (case pe_stored env of
             None \<Rightarrow> (Rejected ''InternalError'', s)
           | Some None \<Rightarrow> (Rejected ''UnknownTransaction'', s)
           | Some (Some ti) \<Rightarrow> stop_found env station_id reason None ti s))"

text \<open>\<open>evse_id or transaction_info.evse_id\<close>: zero is falsy.\<close>

definition or_id :: "int option \<Rightarrow> int option \<Rightarrow> int option" where
  "or_id a b = (case a of None \<Rightarrow> b | Some i \<Rightarrow> if i = 0 then b else a)"

record event_env =
  ee_store_ok :: bool
  ee_tariff_row :: "Tariff option option"
  ee_energy :: "pyfloat option option"
  ee_cost_ok :: bool

definition handle_transaction_event ::
  "event_env \<Rightarrow> string \<Rightarrow> TransactionEventType \<Rightarrow> TransactionInfo \<Rightarrow> int option \<Rightarrow> int option \<Rightarrow> TransactionManager \<Rightarrow>
     tx_response \<times> TransactionManager" where
  "handle_transaction_event env station_id event_type info evse_id connector_id s =
     (let info1 = info\<lparr>ti_evse_id := or_id evse_id (ti_evse_id info), ti_connector_id := or_id connector_id (ti_connector_id info)\<rparr>;
          key = evse_key station_id (ti_evse_id info1)
      in if \<not> ee_store_ok env then (Rejected ''InternalError'', s)
         else let s1 = (case event_type of
                    STARTED \<Rightarrow> s\<lparr>tx_active := AList.update key info1 (tx_active s)\<rparr>
                  | ENDED \<Rightarrow> s\<lparr>tx_active := AList.delete key (tx_active s)\<rparr>
                  | UPDATED \<Rightarrow> s)
              in if event_type = STARTED then (Accepted None, s1)
                 else case calculate_transaction_cost station_id info1 (ee_tariff_row env) (ee_energy env) s1 of
                        (cost, s2) \<Rightarrow>
                          if \<not> ee_cost_ok env then (Rejected ''InternalError'', s2)
                          else (Accepted None, s2\<lparr>tx_costs := AList.update (ti_transaction_id info1) cost (tx_costs s2)\<rparr>))"

definition get_active_transactions :: "string \<Rightarrow> TransactionManager \<Rightarrow> TransactionInfo list" where
  "get_active_transactions station_id s =
     map snd (filter (\<lambda>(k, ti). starts_with (station_id @ '':'') k) (tx_active s))"

section \<open>Model: interleaved calls\<close>

text \<open>
  The pending starts (request, station, EVSE, remote start id, those that hold their lock) beside the
  manager, and the log of what happened to each key: an accepted start or a removal.
\<close>

datatype tx_log = Start_accepted string nat | Slot_removed string

record tx_system =
  ts_manager :: TransactionManager
  ts_pending :: "(nat \<times> string \<times> int \<times> int option) list"
  ts_log :: "tx_log list"

inductive tx_step :: "tx_system \<Rightarrow> tx_system \<Rightarrow> bool" where
  begin_holding:
    "request_start_begin req st ev tok profile (ts_manager s) = (Holding, m) \<Longrightarrow>
     tx_step s (s\<lparr>ts_manager := m, ts_pending := (req, st, ev, rid) # ts_pending s\<rparr>)"
| begin_other:
    "request_start_begin req st ev tok profile (ts_manager s) = (ph, m) \<Longrightarrow> ph \<noteq> Holding \<Longrightarrow> tx_step s (s\<lparr>ts_manager := m\<rparr>)"
| end_accepted:
    "(req, st, ev, rid) \<in> set (ts_pending s) \<Longrightarrow>
     request_start_end env st ev rid (ts_manager s) = (Accepted u, m) \<Longrightarrow>
     tx_step s (s\<lparr>ts_manager := m, ts_pending := remove1 (req, st, ev, rid) (ts_pending s),
                  ts_log := Start_accepted (evse_key st (Some ev)) req # ts_log s\<rparr>)"
| end_rejected:
    "(req, st, ev, rid) \<in> set (ts_pending s) \<Longrightarrow>
     request_start_end env st ev rid (ts_manager s) = (Rejected r, m) \<Longrightarrow>
     tx_step s (s\<lparr>ts_manager := m, ts_pending := remove1 (req, st, ev, rid) (ts_pending s)\<rparr>)"
| stop:
    "request_stop_transaction env st tid reason (ts_manager s) = (Accepted u, m) \<Longrightarrow>
     key \<in> keys (tx_active (ts_manager s)) - keys (tx_active m) \<Longrightarrow>
     tx_step s (s\<lparr>ts_manager := m, ts_log := Slot_removed key # ts_log s\<rparr>)"
| stop_nothing:
    "request_stop_transaction env st tid reason (ts_manager s) = (r, m) \<Longrightarrow>
     keys (tx_active (ts_manager s)) \<subseteq> keys (tx_active m) \<Longrightarrow> tx_step s (s\<lparr>ts_manager := m\<rparr>)"
| event_removes:
    "handle_transaction_event env st ty info e c (ts_manager s) = (r, m) \<Longrightarrow>
     key \<in> keys (tx_active (ts_manager s)) - keys (tx_active m) \<Longrightarrow>
     tx_step s (s\<lparr>ts_manager := m, ts_log := Slot_removed key # ts_log s\<rparr>)"
| event_keeps:
    "handle_transaction_event env st ty info e c (ts_manager s) = (r, m) \<Longrightarrow>
     keys (tx_active (ts_manager s)) \<subseteq> keys (tx_active m) \<Longrightarrow> tx_step s (s\<lparr>ts_manager := m\<rparr>)"

inductive tx_reachable :: "tx_system \<Rightarrow> bool" where
  init: "tx_reachable \<lparr>ts_manager = tx_init, ts_pending = [], ts_log = []\<rparr>"
| step: "tx_reachable s \<Longrightarrow> tx_step s s' \<Longrightarrow> tx_reachable s'"

text \<open>The starts accepted for a key since its slot was last removed; the newest entry comes first.\<close>

fun open_starts :: "string \<Rightarrow> tx_log list \<Rightarrow> nat" where
  "open_starts key [] = 0"
| "open_starts key (Start_accepted k r # past) = (if k = key then 1 else 0) + open_starts key past"
| "open_starts key (Slot_removed k # past) = (if k = key then 0 else open_starts key past)"

section \<open>Lemmas: the slots\<close>

lemma evse_key_split:
  "evse_key st e = st @ '':'' @ (case e of None \<Rightarrow> ''None'' | Some i \<Rightarrow> int_str i)"
  "CHR '':'' \<notin> set (case e of None \<Rightarrow> ''None'' | Some i \<Rightarrow> int_str i)"
  by (auto simp: evse_key_def int_str_no_colon split: option.splits)

lemma calculate_keeps:
  "calculate_transaction_cost st info row energy s = (c, s') \<Longrightarrow> tx_active s' = tx_active s \<and> tx_locks s' = tx_locks s"
  by (auto simp: calculate_transaction_cost_def get_tariff_def split: if_splits option.splits sum.splits prod.splits)

lemma calculate_keeps_snd:
  "tx_active (snd (calculate_transaction_cost st info row energy s)) = tx_active s"
  "tx_locks (snd (calculate_transaction_cost st info row energy s)) = tx_locks s"
  using calculate_keeps [of st info row energy s] by (metis prod.collapse)+

lemma find_active_in:
  "find_active st tid s = Some (k, ti) \<Longrightarrow>
     (k, ti) \<in> set (tx_active s) \<and> k \<in> keys (tx_active s) \<and> starts_with (st @ '':'') k \<and> ti_transaction_id ti = tid"
  by (auto simp: find_active_def find_Some_iff keys_def) (metis nth_mem image_eqI fst_conv)+

lemma stop_slots:
  assumes "request_stop_transaction env st tid reason s = (r, m)"
  shows "tx_locks m = tx_locks s" and "\<exists>k. keys (tx_active s) - {k} \<subseteq> keys (tx_active m)"
  using assms
  by (auto 0 0 simp: request_stop_transaction_def stop_found_def Let_def calculate_keeps_snd
      split: if_splits option.splits dest!: find_active_in) blast+

lemma event_slots:
  assumes "handle_transaction_event env st ty info e c s = (r, m)"
  shows "tx_locks m = tx_locks s" and "\<exists>k. keys (tx_active s) - {k} \<subseteq> keys (tx_active m)"
  using assms
  by (auto simp: handle_transaction_event_def Let_def
      split: if_splits option.splits TransactionEventType.splits prod.splits dest!: calculate_keeps)

section \<open>Lemmas: the invariant of the interleaved calls\<close>

fun pending_key :: "nat \<times> string \<times> int \<times> int option \<Rightarrow> string" where
  "pending_key (req, st, ev, rid) = evse_key st (Some ev)"

text \<open>Accepted starts are counted once and stand in the dictionary; a pending start holds the lock of a
  key nobody else is pending for and no start is open for.\<close>

definition tx_inv :: "tx_system \<Rightarrow> bool" where
  "tx_inv s \<longleftrightarrow>
     (\<forall>k. open_starts k (ts_log s) \<le> (if k \<in> keys (tx_active (ts_manager s)) then 1 else 0)) \<and>
     distinct (map pending_key (ts_pending s)) \<and>
     (\<forall>p\<in>set (ts_pending s). pending_key p \<in> keys (tx_locks (ts_manager s)) \<and> open_starts (pending_key p) (ts_log s) = 0)"

lemma begin_holding_iff:
  "request_start_begin req st ev tok profile s = (Holding, m) \<longleftrightarrow>
     validate_id_token_shape tok = None \<and> validate_request_start_profile profile = None \<and>
     evse_key st (Some ev) \<notin> keys (tx_locks s) \<and> evse_key st (Some ev) \<notin> keys (tx_active s) \<and>
     m = s\<lparr>tx_locks := AList.update (evse_key st (Some ev)) req (tx_locks s)\<rparr>"
  by (auto simp: request_start_begin_def Let_def split: option.splits)

lemma begin_other_same: "request_start_begin req st ev tok profile s = (ph, m) \<Longrightarrow> ph \<noteq> Holding \<Longrightarrow> m = s"
  by (auto simp: request_start_begin_def Let_def split: option.splits if_splits)

lemma end_slots:
  assumes "request_start_end env st ev rid s = (r, m)"
  shows "tx_locks m = AList.delete (evse_key st (Some ev)) (tx_locks s)"
    and "keys (tx_active m) = (case r of Accepted u \<Rightarrow> insert (evse_key st (Some ev)) (keys (tx_active s)) | Rejected x \<Rightarrow> keys (tx_active s))"
  using assms by (auto simp: request_start_end_def Let_def split: if_splits option.splits)

lemma removed_inv:
  assumes "tx_inv s" and "tx_locks m = tx_locks (ts_manager s)"
    and "\<exists>k. keys (tx_active (ts_manager s)) - {k} \<subseteq> keys (tx_active m)"
    and "key \<in> keys (tx_active (ts_manager s)) - keys (tx_active m)"
  shows "tx_inv (s\<lparr>ts_manager := m, ts_log := Slot_removed key # ts_log s\<rparr>)"
proof -
  from assms(3,4) have sub: "keys (tx_active (ts_manager s)) - {key} \<subseteq> keys (tx_active m)" by blast
  have "open_starts k (Slot_removed key # ts_log s) \<le> (if k \<in> keys (tx_active m) then 1 else 0)" for k
    using assms(1) sub unfolding tx_inv_def by (auto dest!: spec [of _ k] split: if_splits)
  with assms(1,2) show ?thesis by (auto simp: tx_inv_def)
qed

lemma kept_inv:
  assumes "tx_inv s" and "tx_locks m = tx_locks (ts_manager s)" and "keys (tx_active (ts_manager s)) \<subseteq> keys (tx_active m)"
  shows "tx_inv (s\<lparr>ts_manager := m\<rparr>)"
proof -
  have "open_starts k (ts_log s) \<le> (if k \<in> keys (tx_active m) then 1 else 0)" for k
    using assms(1,3) unfolding tx_inv_def by (auto dest!: spec [of _ k] split: if_splits)
  with assms(1,2) show ?thesis by (auto simp: tx_inv_def)
qed

lemma pending_removed:
  "distinct (map f ps) \<Longrightarrow> p \<in> set ps \<Longrightarrow>
     distinct (map f (remove1 p ps)) \<and> (\<forall>q\<in>set (remove1 p ps). q \<in> set ps \<and> f q \<noteq> f p)"
proof (induction ps)
  case (Cons q ps)
  then show ?case by (cases "p = q") (auto simp: image_iff)
qed simp

lemma finished_inv:
  assumes "tx_inv s" and p: "(req, st, ev, rid) \<in> set (ts_pending s)"
    and e: "request_start_end env st ev rid (ts_manager s) = (r, m)"
  shows "tx_inv (s\<lparr>ts_manager := m, ts_pending := remove1 (req, st, ev, rid) (ts_pending s),
           ts_log := (case r of Accepted u \<Rightarrow> Start_accepted (evse_key st (Some ev)) req # ts_log s | Rejected x \<Rightarrow> ts_log s)\<rparr>)"
proof -
  from assms(1) p have "open_starts (evse_key st (Some ev)) (ts_log s) = 0"
    and "distinct (map pending_key (ts_pending s))" by (auto simp: tx_inv_def)
  with assms(1) pending_removed [of pending_key, OF _ p] show ?thesis
    by (auto simp: tx_inv_def end_slots [OF e] split: tx_response.splits if_splits; fastforce)
qed

lemma tx_step_inv: "tx_step s s' \<Longrightarrow> tx_inv s \<Longrightarrow> tx_inv s'"
proof (induction rule: tx_step.induct)
  case (begin_holding req st ev tok profile s m rid)
  then show ?case by (auto simp: tx_inv_def begin_holding_iff split: if_splits)
next
  case (begin_other req st ev tok profile s ph m)
  then show ?case by (auto dest!: begin_other_same)
next
  case (end_accepted req st ev rid s env u m)
  then show ?case using finished_inv [of s req st ev rid env "Accepted u" m] by simp
next
  case (end_rejected req st ev rid s env r m)
  then show ?case using finished_inv [of s req st ev rid env "Rejected r" m] by simp
qed (auto intro!: removed_inv kept_inv dest: stop_slots event_slots)

lemma tx_init_inv: "tx_inv \<lparr>ts_manager = tx_init, ts_pending = [], ts_log = []\<rparr>"
  by (simp add: tx_inv_def tx_init_def)

lemma tx_reachable_inv: "tx_reachable s \<Longrightarrow> tx_inv s"
  by (induction rule: tx_reachable.induct) (auto intro: tx_init_inv tx_step_inv)

lemma distinct_key_once: "distinct (map f xs) \<Longrightarrow> length (filter (\<lambda>p. f p = k) xs) \<le> 1"
proof (induction xs)
  case (Cons x xs)
  then have "f x = k \<Longrightarrow> filter (\<lambda>p. f p = k) xs = []" by (auto simp: filter_empty_conv image_iff)
  with Cons show ?case by simp
qed simp

lemma inv_slot_count:
  assumes "tx_inv s"
  shows "open_starts k (ts_log s) + length (filter (\<lambda>p. pending_key p = k) (ts_pending s)) \<le> 1"
proof -
  let ?n = "length (filter (\<lambda>p. pending_key p = k) (ts_pending s))"
  have "?n \<le> 1" using assms by (intro distinct_key_once) (simp add: tx_inv_def)
  moreover have "?n = 0 \<or> open_starts k (ts_log s) = 0"
    using assms unfolding tx_inv_def length_0_conv filter_empty_conv by metis
  moreover have "open_starts k (ts_log s) \<le> (if k \<in> keys (tx_active (ts_manager s)) then 1 else 0)"
    using assms unfolding tx_inv_def by blast
  then have "open_starts k (ts_log s) \<le> 1" by (auto split: if_splits)
  ultimately show ?thesis by linarith
qed

lemma starts_with_station:
  assumes "CHR '':'' \<notin> set st'"
  shows "starts_with (st @ '':'') (evse_key st' e) \<longleftrightarrow> st = st'"
proof
  let ?t = "case e of None \<Rightarrow> ''None'' | Some i \<Rightarrow> int_str i"
  assume "starts_with (st @ '':'') (evse_key st' e)"
  from starts_withD [OF this] obtain r where "evse_key st' e = (st @ '':'') @ r" by blast
  then have eq: "st @ '':'' @ r = st' @ '':'' @ ?t" using evse_key_split(1) [of st' e] by simp
  have "count_list (st' @ '':'' @ ?t) (CHR '':'') = 1"
    using assms evse_key_split(2) [of e] by (simp add: count_list_0_iff)
  then have "count_list r (CHR '':'') = 0" unfolding eq [symmetric] by simp
  then have "CHR '':'' \<notin> set r" by (simp add: count_list_0_iff)
  from last_colon_inject [OF eq this evse_key_split(2)] show "st = st'" by blast
next
  assume "st = st'"
  then show "starts_with (st @ '':'') (evse_key st' e)"
    using starts_with_append [of "st @ '':''"] by (simp add: evse_key_def)
qed

lemma stop_accepts_stored:
  assumes "find_active st tid s = None" and "pe_stored env = Some (Some ti)" and "pe_update_ok env"
  shows "fst (request_stop_transaction env st tid reason s) = Accepted None"
    and "tx_active (snd (request_stop_transaction env st tid reason s)) = AList.delete (evse_key st (ti_evse_id ti)) (tx_active s)"
  using assms by (simp_all add: request_stop_transaction_def stop_found_def Let_def calculate_keeps_snd stop_info_def)

text \<open>A transaction without telemetry costs nothing, in dollars, as soon as its tariff has an energy
  component, whatever fees the tariff has beside it.\<close>

lemma null_energy_raises:
  "c \<in> set cs \<Longrightarrow> pc_type c = Some ''Energy'' \<Longrightarrow> \<exists>e. component_costs None time_spent cs = Inl e"
proof (induction cs)
  case (Cons x xs)
  then show ?case
    by (cases "component_cost None time_spent x"; cases "x = c") (auto simp: component_cost_def)
qed simp

lemma no_telemetry_no_cost:
  assumes "map_of (tx_tariffs s) st = Some tariff" and "c \<in> set (concat (tf_tariff_element tariff))" and "pc_type c = Some ''Energy''"
  shows "fst (calculate_transaction_cost st info row (Some None) s) = no_cost_data"
  using assms(1) null_energy_raises [OF assms(2,3), of "ti_time_spent_charging info"]
  by (auto simp: calculate_transaction_cost_def get_tariff_def)

section \<open>Properties\<close>

text \<open>C11: One start per EVSE: in every state reachable by remote starts that interleave at their
  authorisation awaits with each other, with stops and with station events, the starts accepted for an
  EVSE since its slot was last removed and the starts in flight for it are together at most one.\<close>

theorem one_start_per_slot:
  "tx_reachable s \<Longrightarrow>
     open_starts (evse_key st (Some ev)) (ts_log s) +
     length (filter (\<lambda>p. pending_key p = evse_key st (Some ev)) (ts_pending s)) \<le> 1"
  by (intro inv_slot_count tx_reachable_inv)

definition demo_token :: IdToken where
  "demo_token = \<lparr>it_id_token = ''AB12'', it_type = ISO14443\<rparr>"

definition demo_env :: start_env where
  "demo_env = \<lparr>se_auth = Some (''Accepted'', True), se_available = True, se_uuid = ''u1'', se_store_ok = True\<rparr>"

definition demo_pending :: tx_system where
  "demo_pending = \<lparr>ts_manager = tx_init\<lparr>tx_locks := [(''S:1'', 7)]\<rparr>, ts_pending = [(7, ''S'', 1, None)], ts_log = []\<rparr>"

lemma demo_key: "evse_key ''S'' (Some 1) = ''S:1''"
  by code_simp

lemma demo_pending_reachable: "tx_reachable demo_pending"
proof -
  have "request_start_begin 7 ''S'' 1 demo_token None tx_init = (Holding, tx_init\<lparr>tx_locks := [(''S:1'', 7)]\<rparr>)"
    by (simp add: request_start_begin_def validate_id_token_shape_def validate_request_start_profile_def demo_token_def
        is_space_def demo_key tx_init_def keys_def Let_def)
  with tx_step.begin_holding [of 7 "''S''" 1 demo_token None "\<lparr>ts_manager = tx_init, ts_pending = [], ts_log = []\<rparr>" _ None]
    tx_reachable.init
  show ?thesis unfolding demo_pending_def by (metis (no_types, lifting) tx_reachable.step tx_system.select_convs tx_system.update_convs)
qed

theorem one_start_per_slot_witness:
  "tx_reachable demo_pending \<and>
   open_starts (evse_key ''S'' (Some 1)) (ts_log demo_pending) +
   length (filter (\<lambda>p. pending_key p = evse_key ''S'' (Some 1)) (ts_pending demo_pending)) \<le> 1"
  using one_start_per_slot [OF demo_pending_reachable] demo_pending_reachable by blast

text \<open>For station ids without a colon the text keys are as good as pairs: when the dictionary holds the
  transactions \<open>rows\<close> of such stations, \<open>get_active_transactions\<close> returns those of the station asked for and no
  others, whatever that id is and whatever the EVSE ids are.\<close>

theorem active_of_station:
  assumes "tx_active s = map (\<lambda>(st, e, ti). (evse_key st e, ti)) rows"
    and "list_all (\<lambda>(st, e, ti). CHR '':'' \<notin> set st) rows"
  shows "get_active_transactions station s = map (\<lambda>(st, e, ti). ti) (filter (\<lambda>(st, e, ti). st = station) rows)"
  using assms(2) unfolding get_active_transactions_def assms(1)
  by (induction rows) (auto simp: starts_with_station simp del: append.simps)

definition demo_info :: "string \<Rightarrow> int \<Rightarrow> TransactionInfo" where
  "demo_info tid e = \<lparr>ti_transaction_id = tid, ti_charging_state = Some CHARGING, ti_time_spent_charging = None,
     ti_stopped_reason = None, ti_remote_start_id = None, ti_evse_id = Some e, ti_connector_id = Some 1\<rparr>"

definition demo_manager :: "(string \<times> int option \<times> TransactionInfo) list \<Rightarrow> TransactionManager" where
  "demo_manager rows = tx_init\<lparr>tx_active := map (\<lambda>(st, e, ti). (evse_key st e, ti)) rows\<rparr>"

theorem active_of_station_witness:
  "get_active_transactions ''S'' (demo_manager [(''S'', Some 1, demo_info ''t1'' 1), (''S2'', Some 1, demo_info ''t2'' 1)])
     = [demo_info ''t1'' 1]"
  using active_of_station [of "demo_manager [(''S'', Some 1, demo_info ''t1'' 1), (''S2'', Some 1, demo_info ''t2'' 1)]"
      "[(''S'', Some 1, demo_info ''t1'' 1), (''S2'', Some 1, demo_info ''t2'' 1)]" "''S''"]
  by (simp add: demo_manager_def)

text \<open>A stop frees a slot by EVSE, not by transaction: stopping a transaction that is no longer active
  but still in the database is accepted and removes the transaction \<open>cur\<close> that runs on that EVSE now,
  although its id is a different one.\<close>

theorem stop_frees_other_transaction:
  assumes "find_active st tid s = None" and "pe_stored env = Some (Some ti)" and "pe_update_ok env"
    and "map_of (tx_active s) (evse_key st (ti_evse_id ti)) = Some cur" and "ti_transaction_id cur \<noteq> tid"
  shows "map_of (tx_active (snd (request_stop_transaction env st tid reason s))) =
           (map_of (tx_active s))(evse_key st (ti_evse_id ti) := None)"
  unfolding stop_accepts_stored(2) [OF assms(1-3)] by (rule delete_conv')

theorem stop_frees_other_transaction_witness:
  "map_of (tx_active (demo_manager [(''S'', Some 1, demo_info ''new'' 1)])) (evse_key ''S'' (Some 1)) = Some (demo_info ''new'' 1) \<and>
   map_of (tx_active (snd (request_stop_transaction
     \<lparr>pe_stored = Some (Some (demo_info ''old'' 1)), pe_tariff_row = None, pe_energy = None, pe_update_ok = True\<rparr> ''S'' ''old'' None
     (demo_manager [(''S'', Some 1, demo_info ''new'' 1)])))) (evse_key ''S'' (Some 1)) = None"
  using stop_frees_other_transaction [of "''S''" "''old''" "demo_manager [(''S'', Some 1, demo_info ''new'' 1)]"
      "\<lparr>pe_stored = Some (Some (demo_info ''old'' 1)), pe_tariff_row = None, pe_energy = None, pe_update_ok = True\<rparr>"
      "demo_info ''old'' 1" "demo_info ''new'' 1" None]
  by (simp add: demo_manager_def demo_info_def find_active_def)

end
