(* ===== verification/Report_Timing.thy ===== *)
theory Report_Timing
  imports Interfaces
begin

text \<open>
  Timing and validation of report schedules, \<open>src/src/api/report_schedule_timing.py\<close>. A date is a triple
  of year, month and day in Python's proleptic Gregorian calendar, a local time a date with the
  microsecond of its day, an instant the microseconds of UTC. A time zone is a pair of functions, from
  an instant to its local time and from a local time to the instant \<open>astimezone\<close> picks (\<open>fold=0\<close>);
  which zones exist is an argument. The limits of the year (1 to 9999) are not modelled, and the texts
  of the dates are left as dates. A payload is a value of \<open>pyval\<close>.
\<close>

section \<open>Model: the calendar\<close>

type_synonym pydate = "int \<times> int \<times> int"

definition is_leap :: "int \<Rightarrow> bool" where
  "is_leap y \<longleftrightarrow> y mod 4 = 0 \<and> (y mod 100 \<noteq> 0 \<or> y mod 400 = 0)"

definition month_days :: "int \<Rightarrow> int \<Rightarrow> int" where
  "month_days y m =
     (if m = 2 then (if is_leap y then 29 else 28) else if m = 4 \<or> m = 6 \<or> m = 9 \<or> m = 11 then 30 else 31)"

definition days_before_year :: "int \<Rightarrow> int" where
  "days_before_year y = (y - 1) * 365 + (y - 1) div 4 - (y - 1) div 100 + (y - 1) div 400"

definition days_before_month :: "int \<Rightarrow> int \<Rightarrow> int" where
  "days_before_month y m = sum_list (map (month_days y) [1..m - 1])"

fun toordinal :: "pydate \<Rightarrow> int" where
  "toordinal (y, m, d) = days_before_year y + days_before_month y m + d"

fun valid_date :: "pydate \<Rightarrow> bool" where
  "valid_date (y, m, d) \<longleftrightarrow> 1 \<le> m \<and> m \<le> 12 \<and> 1 \<le> d \<and> d \<le> month_days y m"

definition weekday :: "pydate \<Rightarrow> int" where
  "weekday d = (toordinal d + 6) mod 7"

fun succ_month :: "int \<times> int \<Rightarrow> int \<times> int" where
  "succ_month (y, m) = (if m + 1 > 12 then (y + 1, 1) else (y, m + 1))"

fun next_day :: "pydate \<Rightarrow> pydate" where
  "next_day (y, m, d) =
     (if d < month_days y m then (y, m, d + 1) else let (y', m') = succ_month (y, m) in (y', m', 1))"

fun prev_day :: "pydate \<Rightarrow> pydate" where
  "prev_day (y, m, d) =
     (if 1 < d then (y, m, d - 1)
      else if 1 < m then (y, m - 1, month_days y (m - 1)) else (y - 1, 12, 31))"

text \<open>\<open>date + timedelta(days=n)\<close> and \<open>date - timedelta(days=n)\<close>.\<close>

definition plus_days :: "pydate \<Rightarrow> nat \<Rightarrow> pydate" where
  "plus_days d n = (next_day ^^ n) d"

definition minus_days :: "pydate \<Rightarrow> nat \<Rightarrow> pydate" where
  "minus_days d n = (prev_day ^^ n) d"

section \<open>Model: reporting periods\<close>

abbreviation ScheduleValidationError :: py_error where
  "ScheduleValidationError \<equiv> OtherError ''ScheduleValidationError''"

definition previous_month_bounds :: "pydate \<Rightarrow> pydate \<times> pydate" where
  "previous_month_bounds today =
     (case today of (y, m, d) \<Rightarrow>
        let last_of_prev = minus_days (y, m, 1) 1
        in case last_of_prev of (y', m', d') \<Rightarrow> ((y', m', 1), last_of_prev))"

definition last_day_of_month :: "int \<Rightarrow> int \<Rightarrow> int" where
  "last_day_of_month y m =
     (case minus_days (if m = 12 then (y + 1, 1, 1) else (y, m + 1, 1)) 1 of (y', m', d') \<Rightarrow> d')"

definition compute_report_period :: "string \<Rightarrow> pydate \<Rightarrow> (pydate \<times> pydate) result" where
  "compute_report_period frequency today =
     (if frequency = ''monthly'' then Inr (previous_month_bounds today)
      else if frequency = ''weekly'' then
        (let end_date = minus_days today 1 in Inr (minus_days end_date 6, end_date))
      else if frequency = ''quarterly'' then
        (case today of (y, m, d) \<Rightarrow>
           let q_index = (m - 1) div 3;
               (prev_year, prev_q) = (if q_index = 0 then (y - 1, 3) else (y, q_index - 1));
               start_month = prev_q * 3 + 1;
               end_month = start_month + 2
           in Inr ((prev_year, start_month, 1), (prev_year, end_month, last_day_of_month prev_year end_month)))
      else Inl ScheduleValidationError)"

definition provider_status_to_wire :: "(string, string) pydict" where
  "provider_status_to_wire =
     [(''sent'', ''sent''), (''delivered'', ''sent''), (''bounced'', ''bounced''), (''complained'', ''suppressed''),
      (''suppressed'', ''suppressed''), (''failed'', ''failed'')]"

definition map_provider_status_to_wire :: "string \<Rightarrow> string" where
  "map_provider_status_to_wire s = (case map_of provider_status_to_wire s of None \<Rightarrow> ''failed'' | Some w \<Rightarrow> w)"

section \<open>Model: the next run\<close>

record pytime =
  pt_hour :: int
  pt_minute :: int

definition time_usec :: "pytime \<Rightarrow> int" where
  "time_usec t = pt_hour t * usec_per_hour + pt_minute t * usec_per_min"

record zone =
  z_local :: "dtime \<Rightarrow> pydate \<times> int"
  z_utc :: "pydate \<times> int \<Rightarrow> dtime"

definition localize_to_utc :: "pydate \<Rightarrow> pytime \<Rightarrow> zone \<Rightarrow> dtime result" where
  "localize_to_utc d t z = (if valid_date d then Inr (z_utc z (d, time_usec t)) else Inl ValueError)"

definition spec_dow_to_python :: "int \<Rightarrow> int" where
  "spec_dow_to_python day_of_week = (day_of_week - 1) mod 7"

text \<open>\<open>now\<close> is the instant; \<open>now_local.astimezone(timezone.utc)\<close> gives it back.\<close>

definition next_weekly :: "dtime \<Rightarrow> int \<Rightarrow> pytime \<Rightarrow> zone \<Rightarrow> dtime result" where
  "next_weekly now day_of_week t z =
     (let today = fst (z_local z now);
          days_ahead = (spec_dow_to_python day_of_week - weekday today) mod 7;
          candidate_date = plus_days today (nat days_ahead)
      in case localize_to_utc candidate_date t z of
           Inl e \<Rightarrow> Inl e
         | Inr candidate \<Rightarrow>
             if candidate \<le> now then localize_to_utc (plus_days candidate_date 7) t z else Inr candidate)"

fun month_scan :: "nat \<Rightarrow> dtime \<Rightarrow> int \<Rightarrow> pytime \<Rightarrow> zone \<Rightarrow> int list option \<Rightarrow> int \<times> int \<Rightarrow> dtime result" where
  "month_scan 0 now dm t z allowed ym = Inl ScheduleValidationError"
| "month_scan (Suc n) now dm t z allowed (year, month) =
     (if (case allowed of None \<Rightarrow> True | Some ms \<Rightarrow> month \<in> set ms) then
        (case localize_to_utc (year, month, dm) t z of
           Inl e \<Rightarrow> Inl e
         | Inr candidate \<Rightarrow>
             if candidate > now then Inr candidate else month_scan n now dm t z allowed (succ_month (year, month)))
      else month_scan n now dm t z allowed (succ_month (year, month)))"

definition next_by_month :: "dtime \<Rightarrow> int \<Rightarrow> pytime \<Rightarrow> zone \<Rightarrow> int list option \<Rightarrow> dtime result" where
  "next_by_month now dm t z allowed =
     (case fst (z_local z now) of (year, month, d) \<Rightarrow> month_scan 60 now dm t z allowed (year, month))"

definition quarter_months :: "int list" where
  "quarter_months = [1, 4, 7, 10]"

text \<open>\<open>aware\<close>: whether \<open>now_utc\<close> carries a time zone; \<open>zones\<close> resolves a name.\<close>

definition compute_next_run_at ::
  "(string \<Rightarrow> zone option) \<Rightarrow> bool \<Rightarrow> dtime \<Rightarrow> string \<Rightarrow> pytime \<Rightarrow> string \<Rightarrow> int option \<Rightarrow> int option \<Rightarrow> dtime result" where
  "compute_next_run_at zones aware now frequency t tz_name day_of_month day_of_week =
     (if \<not> aware then Inl ScheduleValidationError
      else case zones tz_name of
             None \<Rightarrow> Inl ScheduleValidationError
           | Some z \<Rightarrow>
               if frequency = ''weekly'' then
                 (case day_of_week of None \<Rightarrow> Inl ScheduleValidationError | Some dow \<Rightarrow> next_weekly now dow t z)
               else if frequency = ''monthly'' \<or> frequency = ''quarterly'' then
                 (case day_of_month of
                    None \<Rightarrow> Inl ScheduleValidationError
                  | Some dm \<Rightarrow> next_by_month now dm t z (if frequency = ''monthly'' then None else Some quarter_months))
               else Inl ScheduleValidationError)"

section \<open>Model: times of day\<close>

text \<open>\<open>s.split(c)\<close>.\<close>

fun py_split :: "char \<Rightarrow> string \<Rightarrow> string list" where
  "py_split c [] = [[]]"
| "py_split c (x # xs) =
     (if x = c then [] # py_split c xs
      else case py_split c xs of [] \<Rightarrow> [[x]] | p # ps \<Rightarrow> (x # p) # ps)"

definition py_int :: "string \<Rightarrow> int result" where
  "py_int s =
     (if s \<noteq> [] \<and> list_all is_decimal s then Inr (foldl (\<lambda>n c. 10 * n + (int (of_char c) - 48)) 0 s) else Inl ValueError)"

definition parse_hh_mm :: "pyval \<Rightarrow> pytime result" where
  "parse_hh_mm v =
     (case v of
        PStr s \<Rightarrow>
          (case py_split (CHR '':'') s of
             [h, m] \<Rightarrow>
               if length h \<noteq> 2 \<or> length m \<noteq> 2 then Inl ScheduleValidationError
               else if \<not> (list_all is_digit h \<and> list_all is_digit m) then Inl ScheduleValidationError
               else (case py_int h of
                       Inl e \<Rightarrow> Inl e
                     | Inr hour \<Rightarrow>
                         (case py_int m of
                            Inl e \<Rightarrow> Inl e
                          | Inr minute \<Rightarrow>
                              if 0 \<le> hour \<and> hour \<le> 23 \<and> 0 \<le> minute \<and> minute \<le> 59
                              then Inr \<lparr>pt_hour = hour, pt_minute = minute\<rparr> else Inl ScheduleValidationError))
           | _ \<Rightarrow> Inl ScheduleValidationError)
      | _ \<Rightarrow> Inl ScheduleValidationError)"

text \<open>The format \<open>:02d\<close>.\<close>

definition pad2 :: "int \<Rightarrow> string" where
  "pad2 n = (if 0 \<le> n \<and> n < 10 then ''0'' @ int_str n else int_str n)"

definition format_hh_mm :: "pytime \<Rightarrow> string" where
  "format_hh_mm t = pad2 (pt_hour t) @ '':'' @ pad2 (pt_minute t)"

section \<open>Model: payloads\<close>

record NormalizedRecipient =
  nr_email_address :: string
  nr_format :: string
  nr_position :: nat

record NormalizedScheduleInput =
  ns_name :: string
  ns_kind :: string
  ns_group_by :: "string option"
  ns_frequency :: string
  ns_day_of_month :: "int option"
  ns_day_of_week :: "int option"
  ns_time_of_day :: pytime
  ns_autonomy_mode :: string
  ns_is_active :: bool
  ns_recipients :: "NormalizedRecipient list"

definition VALID_KINDS :: "string list" where
  "VALID_KINDS = [''weekly_ops'', ''monthly_savings'', ''monthly_consumption'', ''incident'', ''compliance'']"

definition VALID_GROUP_BY :: "string list" where
  "VALID_GROUP_BY = [''card'', ''vehicle'']"

definition VALID_FREQUENCIES :: "string list" where
  "VALID_FREQUENCIES = [''weekly'', ''monthly'', ''quarterly'']"

definition VALID_FORMATS :: "string list" where
  "VALID_FORMATS = [''pdf'', ''csv'']"

definition VALID_AUTONOMY_MODES :: "string list" where
  "VALID_AUTONOMY_MODES = [''shadow'', ''proposed'', ''auto_notify'', ''auto_silent'']"

definition dict_get :: "(string, pyval) pydict \<Rightarrow> string \<Rightarrow> pyval" where
  "dict_get d k = (case map_of d k of None \<Rightarrow> PNone | Some v \<Rightarrow> v)"

text \<open>A test \<open>v not in VALID\<close> that raises: a list and a dictionary cannot be hashed.\<close>

fun member_of :: "string list \<Rightarrow> pyval \<Rightarrow> string result" where
  "member_of names (PStr s) = (if s \<in> set names then Inr s else Inl ScheduleValidationError)"
| "member_of names (PList xs) = Inl TypeError"
| "member_of names (PDict d) = Inl TypeError"
| "member_of names v = Inl ScheduleValidationError"

definition validate_email :: "pyval \<Rightarrow> string result" where
  "validate_email v =
     (case v of
        PStr s \<Rightarrow>
          if CHR ''@'' \<notin> set s then Inl ScheduleValidationError
          else let local = takeWhile (\<lambda>c. c \<noteq> CHR ''@'') s; domain = tl (dropWhile (\<lambda>c. c \<noteq> CHR ''@'') s)
               in if local = [] \<or> CHR ''.'' \<notin> set domain \<or> last domain = CHR ''.'' then Inl ScheduleValidationError
                  else Inr s
      | _ \<Rightarrow> Inl ScheduleValidationError)"

definition recipient_email :: "(string, pyval) pydict \<Rightarrow> pyval" where
  "recipient_email item =
     (if truthy (dict_get item ''emailAddress'') then dict_get item ''emailAddress'' else dict_get item ''email_address'')"

fun validate_recipient_list ::
  "nat \<Rightarrow> (string \<times> string) list \<Rightarrow> pyval list \<Rightarrow> NormalizedRecipient list result" where
  "validate_recipient_list position seen [] = Inr []"
| "validate_recipient_list position seen (item # items) =
     (case item of
        PDict d \<Rightarrow>
          (case validate_email (recipient_email d) of
             Inl e \<Rightarrow> Inl e
           | Inr email \<Rightarrow>
               (case member_of VALID_FORMATS (dict_get d ''format'') of
                  Inl e \<Rightarrow> Inl e
                | Inr fmt \<Rightarrow>
                    if (map lower_char email, fmt) \<in> set seen then Inl ScheduleValidationError
                    else (case validate_recipient_list (Suc position) ((map lower_char email, fmt) # seen) items of
                            Inl e \<Rightarrow> Inl e
                          | Inr out \<Rightarrow> Inr (\<lparr>nr_email_address = email, nr_format = fmt, nr_position = position\<rparr> # out))))
      | _ \<Rightarrow> Inl ScheduleValidationError)"

definition validate_recipients :: "pyval \<Rightarrow> NormalizedRecipient list result" where
  "validate_recipients raw =
     (case raw of
        PNone \<Rightarrow> Inr []
      | PList items \<Rightarrow> validate_recipient_list 0 [] items
      | _ \<Rightarrow> Inl ScheduleValidationError)"

text \<open>An \<open>int\<close> that is no \<open>bool\<close>, in a range.\<close>

definition int_in :: "int \<Rightarrow> int \<Rightarrow> pyval \<Rightarrow> int result" where
  "int_in lo hi v =
     (case v of PInt i \<Rightarrow> if lo \<le> i \<and> i \<le> hi then Inr i else Inl ScheduleValidationError | _ \<Rightarrow> Inl ScheduleValidationError)"

definition validate_cadence :: "string \<Rightarrow> pyval \<Rightarrow> pyval \<Rightarrow> (int option \<times> int option) result" where
  "validate_cadence frequency day_of_month day_of_week =
     (if frequency = ''weekly'' then
        (case int_in 0 6 day_of_week of
           Inl e \<Rightarrow> Inl e
         | Inr dow \<Rightarrow> if day_of_month \<noteq> PNone then Inl ScheduleValidationError else Inr (None, Some dow))
      else case int_in 1 28 day_of_month of
             Inl e \<Rightarrow> Inl e
           | Inr dm \<Rightarrow> if day_of_week \<noteq> PNone then Inl ScheduleValidationError else Inr (Some dm, None))"

definition validate_kind_and_group_by :: "pyval \<Rightarrow> pyval \<Rightarrow> (string \<times> string option) result" where
  "validate_kind_and_group_by kind group_by =
     (case member_of VALID_KINDS kind of
        Inl e \<Rightarrow> Inl e
      | Inr k \<Rightarrow>
          if group_by = PNone then (if k = ''monthly_consumption'' then Inl ScheduleValidationError else Inr (k, None))
          else case member_of VALID_GROUP_BY group_by of Inl e \<Rightarrow> Inl e | Inr g \<Rightarrow> Inr (k, Some g))"

definition normalize_create_payload :: "pyval \<Rightarrow> NormalizedScheduleInput result" where
  "normalize_create_payload payload =
     (case payload of
        PDict p \<Rightarrow>
          (case dict_get p ''name'' of
             PStr name \<Rightarrow>
               if strip name = [] then Inl ScheduleValidationError
               else (case member_of VALID_FREQUENCIES (dict_get p ''frequency'') of
                 Inl e \<Rightarrow> Inl e
               | Inr frequency \<Rightarrow>
               (case validate_kind_and_group_by (dict_get p ''kind'') (dict_get p ''groupBy'') of
                 Inl e \<Rightarrow> Inl e
               | Inr (kind, group_by) \<Rightarrow>
               (case validate_cadence frequency (dict_get p ''dayOfMonth'') (dict_get p ''dayOfWeek'') of
                 Inl e \<Rightarrow> Inl e
               | Inr (day_of_month, day_of_week) \<Rightarrow>
               (case parse_hh_mm (dict_get p ''timeOfDay'') of
                 Inl e \<Rightarrow> Inl e
               | Inr time_of_day \<Rightarrow>
               (case member_of VALID_AUTONOMY_MODES (dict_get p ''autonomyMode'') of
                 Inl e \<Rightarrow> Inl e
               | Inr autonomy_mode \<Rightarrow>
               (case (case map_of p ''isActive'' of None \<Rightarrow> PBool True | Some v \<Rightarrow> v) of
                 PBool is_active \<Rightarrow>
                   (case validate_recipients (dict_get p ''recipients'') of
                     Inl e \<Rightarrow> Inl e
                   | Inr recipients \<Rightarrow>
                       Inr \<lparr>ns_name = strip name, ns_kind = kind, ns_group_by = group_by, ns_frequency = frequency,
                            ns_day_of_month = day_of_month, ns_day_of_week = day_of_week, ns_time_of_day = time_of_day,
                            ns_autonomy_mode = autonomy_mode, ns_is_active = is_active, ns_recipients = recipients\<rparr>)
               | _ \<Rightarrow> Inl ScheduleValidationError))))))
           | _ \<Rightarrow> Inl ScheduleValidationError)
      | _ \<Rightarrow> Inl ScheduleValidationError)"

definition patch_keys :: "string list" where
  "patch_keys = [''name'', ''kind'', ''groupBy'', ''frequency'', ''dayOfMonth'', ''dayOfWeek'', ''timeOfDay'',
     ''autonomyMode'', ''isActive'']"

text \<open>The current row: the stored schedule, whose recipients play no part.\<close>

definition current_payload :: "NormalizedScheduleInput \<Rightarrow> (string, pyval) pydict" where
  "current_payload cur =
     [(''name'', PStr (ns_name cur)), (''kind'', PStr (ns_kind cur)), (''groupBy'', popt PStr (ns_group_by cur)),
      (''frequency'', PStr (ns_frequency cur)), (''dayOfMonth'', popt PInt (ns_day_of_month cur)),
      (''dayOfWeek'', popt PInt (ns_day_of_week cur)), (''timeOfDay'', PStr (format_hh_mm (ns_time_of_day cur))),
      (''autonomyMode'', PStr (ns_autonomy_mode cur)), (''isActive'', PBool (ns_is_active cur))]"

definition overlay :: "(string, pyval) pydict \<Rightarrow> (string, pyval) pydict \<Rightarrow> (string, pyval) pydict" where
  "overlay patch merged =
     foldl (\<lambda>d k. case map_of patch k of None \<Rightarrow> d | Some v \<Rightarrow> AList.update k v d) merged patch_keys"

definition clear_days :: "(string, pyval) pydict \<Rightarrow> (string, pyval) pydict \<Rightarrow> (string, pyval) pydict" where
  "clear_days patch merged =
     (let merged1 = (if dict_get patch ''frequency'' = PStr ''weekly'' \<and> map_of patch ''dayOfMonth'' = None
                     then AList.update ''dayOfMonth'' PNone merged else merged)
      in if dict_get patch ''frequency'' \<in> {PStr ''monthly'', PStr ''quarterly''} \<and> map_of patch ''dayOfWeek'' = None
         then AList.update ''dayOfWeek'' PNone merged1 else merged1)"

definition normalize_patch_payload :: "pyval \<Rightarrow> NormalizedScheduleInput \<Rightarrow> NormalizedScheduleInput result" where
  "normalize_patch_payload patch cur =
     (case patch of
        PDict p \<Rightarrow>
          normalize_create_payload (PDict (AList.update ''recipients''
            (case map_of p ''recipients'' of None \<Rightarrow> PList [] | Some v \<Rightarrow> v)
            (clear_days p (overlay p (current_payload cur)))))
      | _ \<Rightarrow> Inl ScheduleValidationError)"

section \<open>Lemmas: the calendar\<close>

lemma month_days_bounds: "28 \<le> month_days y m" "month_days y m \<le> 31"
  by (simp_all add: month_days_def)

lemma days_before_month_1 [simp]: "days_before_month y 1 = 0"
  by (simp add: days_before_month_def)

lemma days_before_month_step: "1 \<le> m \<Longrightarrow> days_before_month y (m + 1) = days_before_month y m + month_days y m"
  using upto_rec2 [of 1 m] by (simp add: days_before_month_def)

lemma year_length: "days_before_month y 12 + 31 = (if is_leap y then 366 else 365)"
  by (simp add: days_before_month_def month_days_def upto.simps)

lemma div_pred: "0 < k \<Longrightarrow> y div k = (y - 1) div k + (if y mod k = 0 then 1 else 0)" for y k :: int
proof -
  assume k: "0 < k"
  have quot: "(r + k * q) div k = q" if "0 \<le> r" "r < k" for r q :: int using that by simp
  show ?thesis
  proof (cases "y mod k = 0")
    case True
    then have "y = k * (y div k)" using mult_div_mod_eq [of k y] by linarith
    then have "(k - 1) + k * (y div k - 1) = y - 1" by (simp only: right_diff_distrib)
    with quot [of "k - 1" "y div k - 1"] k True show ?thesis by simp
  next
    case False
    then have eq: "(y mod k - 1) + k * (y div k) = y - 1" by simp
    have "0 \<le> y mod k - 1" "y mod k - 1 < k" using False k pos_mod_sign [OF k, of y] pos_mod_bound [OF k, of y] by linarith+
    from quot [OF this, of "y div k"] have "(y - 1) div k = y div k" unfolding eq .
    with False show ?thesis by simp
  qed
qed

lemma leap_divisors: "(y :: int) mod 400 = 0 \<Longrightarrow> y mod 100 = 0" "(y :: int) mod 100 = 0 \<Longrightarrow> y mod 4 = 0"
  by presburger+

lemma leap_count:
  "(if y mod 4 = 0 then 1 else 0) - (if y mod 100 = 0 then 1 else 0) + (if y mod 400 = 0 then 1 else 0) =
     (if is_leap y then 1 else (0 :: int))"
  using leap_divisors [of y] unfolding is_leap_def
  by (cases "y mod 4 = 0"; cases "y mod 100 = 0"; cases "y mod 400 = 0"; simp)

lemma year_arith:
  "a = a' + i \<Longrightarrow> b = b' + j \<Longrightarrow> c = c' + k \<Longrightarrow> i - j + k = n \<Longrightarrow>
     y * 365 + a - b + c = (y - 1) * 365 + a' - b' + c' + (365 + n)" for y :: int
  by simp

lemma days_before_year_step: "days_before_year (y + 1) = days_before_year y + days_before_month y 12 + 31"
proof -
  have "days_before_year (y + 1) = y * 365 + y div 4 - y div 100 + y div 400" by (simp add: days_before_year_def)
  also have "\<dots> = days_before_year y + (365 + (if is_leap y then 1 else 0))"
    unfolding days_before_year_def by (intro year_arith [OF div_pred div_pred div_pred leap_count]) simp_all
  finally show ?thesis using year_length [of y] by (cases "is_leap y") simp_all
qed

lemma toordinal_next_day:
  assumes "valid_date d"
  shows "valid_date (next_day d) \<and> toordinal (next_day d) = toordinal d + 1"
proof (cases d)
  case (fields y m k)
  show ?thesis
  proof (cases "k < month_days y m")
    case True
    with assms fields show ?thesis by simp
  next
    case False
    with assms fields have "k = month_days y m" "1 \<le> m" "m \<le> 12" by auto
    moreover have "month_days y 12 = 31" by (simp add: month_days_def)
    ultimately show ?thesis
      using fields days_before_month_step [of m y] days_before_year_step [of y] month_days_bounds
      by (auto simp: Let_def intro: order_trans [OF _ month_days_bounds(1)])
  qed
qed

lemma toordinal_prev_day:
  assumes "valid_date d"
  shows "valid_date (prev_day d) \<and> toordinal (prev_day d) = toordinal d - 1"
proof (cases d)
  case (fields y m k)
  have "month_days (y - 1) 12 = 31" by (simp add: month_days_def)
  with assms fields show ?thesis
    using days_before_month_step [of "m - 1" y] days_before_year_step [of "y - 1"] month_days_bounds(1) [of y "m - 1"]
    by auto
qed

lemma plus_days_ord: "valid_date d \<Longrightarrow> valid_date (plus_days d n) \<and> toordinal (plus_days d n) = toordinal d + int n"
  by (induction n) (auto simp: plus_days_def toordinal_next_day)

lemma minus_days_ord: "valid_date d \<Longrightarrow> valid_date (minus_days d n) \<and> toordinal (minus_days d n) = toordinal d - int n"
  by (induction n) (auto simp: minus_days_def toordinal_prev_day)

lemma days_before_month_mono: "1 \<le> m \<Longrightarrow> days_before_month y m + 28 * int n \<le> days_before_month y (m + int n)"
proof (induction n)
  case (Suc n)
  then show ?case using days_before_month_step [of "m + int n" y] month_days_bounds(1) [of y "m + int n"] by (simp add: algebra_simps)
qed simp

lemma days_before_month_nonneg: "1 \<le> m \<Longrightarrow> 0 \<le> days_before_month y m"
  using days_before_month_mono [of 1 y "nat (m - 1)"] by simp

lemma days_before_year_mono: "days_before_year y + 365 * int n \<le> days_before_year (y + int n)"
proof (induction n)
  case (Suc n)
  then show ?case using days_before_year_step [of "y + int n"] year_length [of "y + int n"]
    by (simp add: algebra_simps split: if_splits)
qed simp

lemma date_in_year:
  assumes "valid_date (y, m, d)"
  shows "days_before_year y < toordinal (y, m, d) \<and> toordinal (y, m, d) \<le> days_before_year (y + 1)"
proof -
  have "days_before_month y (m + 1) \<le> days_before_month y 13"
    using assms days_before_month_mono [of "m + 1" y "nat (12 - m)"] by simp
  moreover have "days_before_month y 13 = days_before_month y 12 + 31"
    using days_before_month_step [of 12 y] by (simp add: month_days_def)
  ultimately show ?thesis
    using assms days_before_month_step [of m y] days_before_month_nonneg [of m y] days_before_year_step [of y] by simp
qed

lemma year_unique:
  assumes "days_before_year y < n" "n \<le> days_before_year (y + 1)" "days_before_year y' < n" "n \<le> days_before_year (y' + 1)"
  shows "y = y'"
proof (rule ccontr)
  assume "y \<noteq> y'"
  then consider "y + 1 \<le> y'" | "y' + 1 \<le> y" by linarith
  then show False
    using assms days_before_year_mono [of "y + 1" "nat (y' - (y + 1))"] days_before_year_mono [of "y' + 1" "nat (y - (y' + 1))"]
    by cases simp_all
qed

lemma month_unique:
  assumes "1 \<le> m" "1 \<le> m'" "1 \<le> d" "d \<le> month_days y m" "1 \<le> d'" "d' \<le> month_days y m'"
    and "days_before_month y m + d = days_before_month y m' + d'"
  shows "m = m' \<and> d = d'"
proof -
  have False if "a + 1 \<le> b" "1 \<le> a" "k \<le> month_days y a" "1 \<le> l" "days_before_month y a + k = days_before_month y b + l" for a b k l
    using that days_before_month_step [of a y] days_before_month_mono [of "a + 1" y "nat (b - (a + 1))"] by simp
  with assms have "\<not> m + 1 \<le> m'" "\<not> m' + 1 \<le> m" by metis+
  then have "m = m'" by linarith
  with assms(7) show ?thesis by simp
qed

lemma toordinal_inject: "valid_date a \<Longrightarrow> valid_date b \<Longrightarrow> toordinal a = toordinal b \<Longrightarrow> a = b"
proof -
  assume v: "valid_date a" "valid_date b" and eq: "toordinal a = toordinal b"
  obtain y m d y' m' d' where ab: "a = (y, m, d)" "b = (y', m', d')" by (metis prod.collapse)
  have y: "y = y'"
    using year_unique [of y "toordinal a" y'] date_in_year [of y m d] date_in_year [of y' m' d'] v eq by (simp only: ab)
  show "a = b" using month_unique [of m m' d y d'] v eq y by (auto simp: ab)
qed

text \<open>The first of a month, and how many days the same day of a later month is away.\<close>

definition month_index :: "int \<times> int \<Rightarrow> int" where
  "month_index ym = 12 * fst ym + snd ym"

definition valid_month :: "int \<times> int \<Rightarrow> bool" where
  "valid_month ym \<longleftrightarrow> 1 \<le> snd ym \<and> snd ym \<le> 12"

lemma succ_month_index: "valid_month ym \<Longrightarrow> valid_month (succ_month ym) \<and> month_index (succ_month ym) = month_index ym + 1"
  by (cases ym) (auto simp: valid_month_def month_index_def)

lemma month_index_inject: "valid_month a \<Longrightarrow> valid_month b \<Longrightarrow> month_index a = month_index b \<Longrightarrow> a = b"
proof -
  assume "valid_month a" "valid_month b" "month_index a = month_index b"
  then have "1 \<le> snd a" "snd a \<le> 12" "1 \<le> snd b" "snd b \<le> 12" and eq: "12 * fst a + snd a = 12 * fst b + snd b"
    by (simp_all add: valid_month_def month_index_def)
  then have "fst a = fst b" by linarith
  with eq show "a = b" by (simp add: prod_eq_iff)
qed

lemma succ_months:
  "valid_month ym \<Longrightarrow> valid_month ((succ_month ^^ n) ym) \<and> month_index ((succ_month ^^ n) ym) = month_index ym + int n"
  by (induction n) (auto simp: succ_month_index)

lemma month_reached:
  assumes "valid_month a" "valid_month b" "month_index a \<le> month_index b"
  shows "b = (succ_month ^^ nat (month_index b - month_index a)) a"
  by (rule month_index_inject) (use assms succ_months [of a "nat (month_index b - month_index a)"] in simp_all)

definition in_month :: "int \<times> int \<Rightarrow> int \<Rightarrow> pydate" where
  "in_month ym d = (fst ym, snd ym, d)"

lemma in_month_valid: "valid_month ym \<Longrightarrow> 1 \<le> d \<Longrightarrow> d \<le> 28 \<Longrightarrow> valid_date (in_month ym d)"
  using month_days_bounds(1) [of "fst ym" "snd ym"] by (simp add: in_month_def valid_month_def)

lemma succ_month_ord: "valid_month ym \<Longrightarrow> toordinal (in_month (succ_month ym) d) = toordinal (in_month ym d) + month_days (fst ym) (snd ym)"
  using days_before_month_step [of "snd ym" "fst ym"] days_before_year_step [of "fst ym"]
  by (cases ym) (auto simp: in_month_def valid_month_def month_days_def [of _ 12])

lemma succ_months_ord: "valid_month ym \<Longrightarrow> toordinal (in_month ym d) + 28 * int n \<le> toordinal (in_month ((succ_month ^^ n) ym) d)"
proof (induction n)
  case (Suc n)
  let ?a = "(succ_month ^^ n) ym"
  have "valid_month ?a" using Suc.prems succ_months by blast
  with Suc show ?case using succ_month_ord [of ?a d] month_days_bounds(1) [of "fst ?a" "snd ?a"] by simp
qed simp

section \<open>Lemmas: the next run\<close>

fun wall :: "pydate \<times> int \<Rightarrow> int" where
  "wall (d, us) = (toordinal d - 1) * usec_per_day + us"

text \<open>
  What the schedule relies on in a zone: local times are well formed, an offset is less than a day (as
  Python requires), and a local time of an earlier date is not a later instant (no clock change skips
  over midnight into the next date and back).
\<close>

definition zone_ok :: "zone \<Rightarrow> bool" where
  "zone_ok z \<longleftrightarrow>
     (\<forall>u. case z_local z u of (d, us) \<Rightarrow>
        valid_date d \<and> 0 \<le> us \<and> us < usec_per_day \<and> \<bar>wall (d, us) - u\<bar> < usec_per_day) \<and>
     (\<forall>d us. valid_date d \<longrightarrow> 0 \<le> us \<longrightarrow> us < usec_per_day \<longrightarrow> \<bar>wall (d, us) - z_utc z (d, us)\<bar> < usec_per_day) \<and>
     (\<forall>u d us. valid_date d \<longrightarrow> 0 \<le> us \<longrightarrow> us < usec_per_day \<longrightarrow>
        toordinal d < toordinal (fst (z_local z u)) \<longrightarrow> z_utc z (d, us) \<le> u)"

definition valid_time :: "pytime \<Rightarrow> bool" where
  "valid_time t \<longleftrightarrow> 0 \<le> pt_hour t \<and> pt_hour t \<le> 23 \<and> 0 \<le> pt_minute t \<and> pt_minute t \<le> 59"

lemma time_usec_bounds: "valid_time t \<Longrightarrow> 0 \<le> time_usec t" "valid_time t \<Longrightarrow> time_usec t < usec_per_day"
  by (auto simp: valid_time_def time_usec_def usec_values)

lemma zone_today: "zone_ok z \<Longrightarrow> valid_date (fst (z_local z u))"
  unfolding zone_ok_def by (metis (no_types, lifting) case_prod_beta)

lemma zone_later:
  assumes "zone_ok z" "valid_time t" "valid_date a" "valid_date b" "toordinal a + 2 \<le> toordinal b"
  shows "z_utc z (a, time_usec t) < z_utc z (b, time_usec t)"
proof -
  have near: "\<bar>wall (d, time_usec t) - z_utc z (d, time_usec t)\<bar> < usec_per_day" if "valid_date d" for d
    using assms(1,2) that time_usec_bounds [of t] unfolding zone_ok_def by blast
  have "(toordinal a - 1) * usec_per_day + 2 * usec_per_day \<le> (toordinal b - 1) * usec_per_day"
    using assms(5) by (simp add: usec_values)
  with near [OF assms(3)] near [OF assms(4)] show ?thesis by simp
qed

lemma zone_after_now:
  assumes "zone_ok z" "valid_time t" "valid_date b" "toordinal (fst (z_local z now)) + 3 \<le> toordinal b"
  shows "now < z_utc z (b, time_usec t)"
proof -
  obtain d us where l: "z_local z now = (d, us)" by fastforce
  have "\<bar>wall (d, us) - now\<bar> < usec_per_day \<and> 0 \<le> us \<and> us < usec_per_day"
    using assms(1) l unfolding zone_ok_def by (metis (no_types, lifting) case_prod_conv)
  moreover have "\<bar>wall (b, time_usec t) - z_utc z (b, time_usec t)\<bar> < usec_per_day"
    using assms(1-3) time_usec_bounds [of t] unfolding zone_ok_def by blast
  moreover have "(toordinal d - 1) * usec_per_day + 3 * usec_per_day \<le> (toordinal b - 1) * usec_per_day"
    using assms(4) l by (simp add: usec_values)
  ultimately show ?thesis using time_usec_bounds(1) [OF assms(2)] by (simp only: wall.simps) linarith
qed

lemma zone_before_today:
  "zone_ok z \<Longrightarrow> valid_time t \<Longrightarrow> valid_date d \<Longrightarrow> now < z_utc z (d, time_usec t) \<Longrightarrow>
     toordinal (fst (z_local z now)) \<le> toordinal d"
  using time_usec_bounds [of t] unfolding zone_ok_def by (meson linorder_not_le)

text \<open>The instants at which a schedule is due.\<close>

definition cadence_date :: "string \<Rightarrow> int option \<Rightarrow> int option \<Rightarrow> pydate \<Rightarrow> bool" where
  "cadence_date frequency day_of_month day_of_week d \<longleftrightarrow>
     valid_date d \<and>
     (case d of (y, m, k) \<Rightarrow>
        if frequency = ''weekly'' then day_of_week = Some ((weekday d + 1) mod 7)
        else day_of_month = Some k \<and> (frequency = ''quarterly'' \<longrightarrow> m \<in> {1, 4, 7, 10}))"

definition is_next_run :: "zone \<Rightarrow> dtime \<Rightarrow> pytime \<Rightarrow> (pydate \<Rightarrow> bool) \<Rightarrow> dtime \<Rightarrow> bool" where
  "is_next_run z now t due r \<longleftrightarrow>
     now < r \<and> (\<exists>d. due d \<and> r = z_utc z (d, time_usec t)) \<and>
     (\<forall>d. due d \<longrightarrow> now < z_utc z (d, time_usec t) \<longrightarrow> r \<le> z_utc z (d, time_usec t))"

lemma dow_weekday: "0 \<le> dow \<Longrightarrow> dow \<le> 6 \<Longrightarrow> dow = (weekday d + 1) mod 7 \<longleftrightarrow> weekday d = spec_dow_to_python dow" for dow :: int
proof -
  assume d: "0 \<le> dow" "dow \<le> 6"
  let ?w = "weekday d"
  have w: "0 \<le> ?w" "?w < 7" by (simp_all add: weekday_def)
  have "(?w + 1) mod 7 = (if ?w = 6 then 0 else ?w + 1)" using w by simp
  moreover have "(dow - 1) mod 7 = (if dow = 0 then 6 else dow - 1)" using d by simp
  ultimately show ?thesis using d w unfolding spec_dow_to_python_def by (auto split: if_splits)
qed

lemma days_ahead_least:
  fixes today n target :: int
  assumes "(n + 6) mod 7 = target" "today \<le> n"
  shows "\<exists>q\<ge>0. n = today + (target - (today + 6) mod 7) mod 7 + 7 * q"
proof -
  have "(target - (today + 6) mod 7) mod 7 = (n - today) mod 7"
    unfolding assms(1) [symmetric] mod_diff_eq by simp
  moreover have "n = today + (n - today) mod 7 + 7 * ((n - today) div 7)" by simp
  moreover have "0 \<le> (n - today) div 7" using assms(2) by simp
  ultimately show ?thesis by metis
qed

lemma days_ahead_target: "(today + (target - (today + 6) mod 7) mod 7 + 6) mod 7 = target mod 7" for today target :: int
proof -
  have "(a + (target - a mod 7) mod 7) mod 7 = target mod 7" for a :: int by (simp add: mod_simps)
  from this [of "today + 6"] show ?thesis by (simp only: add.assoc add.commute add.left_commute)
qed

lemma weekly_is_next:
  assumes z: "zone_ok z" and t: "valid_time t" and "0 \<le> dow" "dow \<le> 6"
  shows "\<exists>r. next_weekly now dow t z = Inr r \<and> is_next_run z now t (cadence_date ''weekly'' dm (Some dow)) r"
proof -
  let ?today = "fst (z_local z now)" and ?target = "spec_dow_to_python dow" and ?due = "cadence_date ''weekly'' dm (Some dow)"
  define k where "k = (?target - weekday ?today) mod 7"
  define c where "c = plus_days ?today (nat k)"
  define c' where "c' = plus_days c 7"
  have k0: "0 \<le> k" "?target mod 7 = ?target" by (simp_all add: k_def spec_dow_to_python_def)
  have c: "valid_date c" "toordinal c = toordinal ?today + k"
    using plus_days_ord [OF zone_today [OF z], of now "nat k"] k0 by (simp_all add: c_def)
  have c': "valid_date c'" "toordinal c' = toordinal c + 7"
    using plus_days_ord [OF c(1), of 7] by (simp_all add: c'_def)
  have due: "?due d \<longleftrightarrow> valid_date d \<and> weekday d = ?target" for d
    using dow_weekday [OF assms(3,4), of d] by (auto simp: cadence_date_def)
  have wc: "weekday c = ?target"
    using days_ahead_target [of "toordinal ?today" ?target] k0(2) c(2) unfolding weekday_def k_def by simp
  have wc': "weekday c' = ?target" using wc c'(2) unfolding weekday_def by presburger
  have later: "d = c \<or> d = c' \<or> toordinal c' + 7 \<le> toordinal d" if "?due d" "now < z_utc z (d, time_usec t)" for d
  proof -
    have "valid_date d" "weekday d = ?target" using that(1) due by auto
    moreover have "toordinal ?today \<le> toordinal d" using zone_before_today [OF z t] that(2) \<open>valid_date d\<close> by blast
    ultimately obtain q where q: "0 \<le> q" "toordinal d = toordinal c + 7 * q"
      using days_ahead_least [of "toordinal d" ?target "toordinal ?today"] c(2) unfolding weekday_def k_def by auto
    then consider "q = 0" | "q = 1" | "2 \<le> q" by linarith
    then show ?thesis using q c c' \<open>valid_date d\<close> by cases (auto intro: toordinal_inject)
  qed
  have after: "z_utc z (a, time_usec t) \<le> z_utc z (d, time_usec t)" if "valid_date a" "valid_date d" "toordinal a + 7 \<le> toordinal d" for a d
    using zone_later [OF z t that(1,2)] that(3) by simp
  show ?thesis
  proof (cases "z_utc z (c, time_usec t) \<le> now")
    case True
    have "now < z_utc z (c', time_usec t)" using zone_after_now [OF z t c'(1)] c c' k0 by simp
    with True have "is_next_run z now t ?due (z_utc z (c', time_usec t))"
      using later after c c' due wc' unfolding is_next_run_def by (metis order_refl linorder_not_le)
    moreover have "next_weekly now dow t z = Inr (z_utc z (c', time_usec t))"
      using True c(1) c'(1) by (simp add: next_weekly_def localize_to_utc_def Let_def c_def c'_def k_def)
    ultimately show ?thesis by blast
  next
    case False
    have "toordinal c' + 7 \<le> toordinal d \<Longrightarrow> toordinal c + 7 \<le> toordinal d" for d using c' by simp
    then have "is_next_run z now t ?due (z_utc z (c, time_usec t))"
      using False later after c c' due wc unfolding is_next_run_def by (metis order_refl linorder_not_le)
    moreover have "next_weekly now dow t z = Inr (z_utc z (c, time_usec t))"
      using False c(1) by (simp add: next_weekly_def localize_to_utc_def Let_def c_def k_def)
    ultimately show ?thesis by blast
  qed
qed

definition month_allowed :: "int list option \<Rightarrow> int \<times> int \<Rightarrow> bool" where
  "month_allowed allowed ym = (case allowed of None \<Rightarrow> True | Some ms \<Rightarrow> snd ym \<in> set ms)"

lemma month_scan_step:
  assumes "valid_month ym" "1 \<le> dm" "dm \<le> 28"
  shows "month_scan (Suc n) now dm t z allowed ym =
     (if month_allowed allowed ym \<and> now < z_utc z (in_month ym dm, time_usec t) then Inr (z_utc z (in_month ym dm, time_usec t))
      else month_scan n now dm t z allowed (succ_month ym))"
  using in_month_valid [OF assms]
  by (cases ym; cases allowed) (simp_all add: localize_to_utc_def in_month_def month_allowed_def del: succ_month.simps)

lemma month_scan_first:
  assumes "1 \<le> dm" "dm \<le> 28" and "i < n" and "valid_month ym"
    and "month_allowed allowed ((succ_month ^^ i) ym) \<and> now < z_utc z (in_month ((succ_month ^^ i) ym) dm, time_usec t)"
    and "\<And>j. j < i \<Longrightarrow> \<not> (month_allowed allowed ((succ_month ^^ j) ym) \<and> now < z_utc z (in_month ((succ_month ^^ j) ym) dm, time_usec t))"
  shows "month_scan n now dm t z allowed ym = Inr (z_utc z (in_month ((succ_month ^^ i) ym) dm, time_usec t))"
  using assms(3-6)
proof (induction i arbitrary: n ym)
  case 0
  then show ?case using month_scan_step [OF _ assms(1,2), of ym "n - 1"] by simp
next
  case (Suc i)
  have shift: "(succ_month ^^ j) (succ_month ym) = (succ_month ^^ Suc j) ym" for j by (simp add: funpow_swap1)
  obtain n' where n: "n = Suc n'" using Suc.prems(1) by (cases n) auto
  have "month_scan n now dm t z allowed ym = month_scan n' now dm t z allowed (succ_month ym)"
    using Suc.prems(4) [of 0] unfolding n month_scan_step [OF Suc.prems(2) assms(1,2), of n' now t z allowed] by auto
  also have "\<dots> = Inr (z_utc z (in_month ((succ_month ^^ i) (succ_month ym)) dm, time_usec t))"
  proof (rule Suc.IH)
    show "i < n'" using Suc.prems(1) n by simp
    show "valid_month (succ_month ym)" using Suc.prems(2) succ_month_index by blast
    show "month_allowed allowed ((succ_month ^^ i) (succ_month ym)) \<and>
        now < z_utc z (in_month ((succ_month ^^ i) (succ_month ym)) dm, time_usec t)"
      using Suc.prems(3) unfolding shift .
    show "\<not> (month_allowed allowed ((succ_month ^^ j) (succ_month ym)) \<and>
        now < z_utc z (in_month ((succ_month ^^ j) (succ_month ym)) dm, time_usec t))" if "j < i" for j
      using Suc.prems(4) [of "Suc j"] that unfolding shift by blast
  qed
  finally show ?case by (simp only: shift)
qed

text \<open>Of three months in a row one is the first of a quarter; two months ahead is later than now.\<close>

lemma allowed_soon:
  assumes "valid_month ym" "allowed = None \<or> allowed = Some quarter_months"
  shows "\<exists>i. 2 \<le> i \<and> i \<le> 4 \<and> month_allowed allowed ((succ_month ^^ i) ym)"
proof (cases ym)
  case (Pair y m)
  have snd_succ: "snd (succ_month p) = (if 12 \<le> snd p then 1 else snd p + 1)" for p by (cases p) simp
  have "m = 1 \<or> m = 2 \<or> m = 3 \<or> m = 4 \<or> m = 5 \<or> m = 6 \<or> m = 7 \<or> m = 8 \<or> m = 9 \<or> m = 10 \<or> m = 11 \<or> m = 12"
    using assms(1) unfolding valid_month_def Pair snd_conv by presburger
  then have "snd ((succ_month ^^ 2) ym) \<in> set quarter_months \<or> snd ((succ_month ^^ 3) ym) \<in> set quarter_months \<or>
      snd ((succ_month ^^ 4) ym) \<in> set quarter_months"
    unfolding Pair by (elim disjE) (simp_all add: numeral_2_eq_2 numeral_3_eq_3 eval_nat_numeral snd_succ quarter_months_def del: succ_month.simps)
  then obtain i where "i \<in> {2, 3, 4}" and "snd ((succ_month ^^ i) ym) \<in> set quarter_months" by blast
  moreover have "month_allowed allowed p" if "snd p \<in> set quarter_months" for p
    using assms(2) that by (auto simp: month_allowed_def)
  ultimately show ?thesis by (intro exI [of _ i]) auto
qed

lemma monthly_is_next:
  assumes z: "zone_ok z" and t: "valid_time t" and dm: "1 \<le> dm" "dm \<le> 28"
    and allowed: "allowed = None \<or> allowed = Some quarter_months"
  shows "\<exists>r. next_by_month now dm t z allowed = Inr r \<and>
     is_next_run z now t (\<lambda>d. \<exists>ym. valid_month ym \<and> month_allowed allowed ym \<and> d = in_month ym dm) r"
proof -
  obtain y m d where today: "fst (z_local z now) = (y, m, d)" by (metis prod.collapse)
  let ?ym = "(y, m)" and ?u = "\<lambda>p. z_utc z (in_month p dm, time_usec t)"
  let ?ok = "\<lambda>i. month_allowed allowed ((succ_month ^^ i) ?ym) \<and> now < ?u ((succ_month ^^ i) ?ym)"
  have vd: "valid_date (y, m, d)" using zone_today [OF z, of now] today by simp
  then have vm: "valid_month ?ym" by (simp add: valid_month_def)
  have vmi: "valid_month ((succ_month ^^ i) ?ym)" for i using succ_months [OF vm] by blast
  obtain i where i: "2 \<le> i" "i \<le> 4" "month_allowed allowed ((succ_month ^^ i) ?ym)" using allowed_soon [OF vm allowed] by blast
  have "toordinal (y, m, d) + 3 \<le> toordinal (in_month ((succ_month ^^ i) ?ym) dm)"
    using succ_months_ord [OF vm, of dm i] vd i(1) dm month_days_bounds(2) [of y m] by (simp add: in_month_def)
  then have "?ok i" using zone_after_now [OF z t in_month_valid [OF vmi dm]] today i(3) by simp
  then have least: "?ok (LEAST i. ?ok i)" "(LEAST i. ?ok i) \<le> i" by (rule LeastI, rule Least_le)
  define l where "l = (LEAST i. ?ok i)"
  have first: "\<not> ?ok j" if "j < l" for j using not_less_Least that unfolding l_def by blast
  have l: "?ok l" "l < 60" using least i(2) by (simp_all add: l_def)
  have scan: "next_by_month now dm t z allowed = Inr (?u ((succ_month ^^ l) ?ym))"
    using month_scan_first [OF dm l(2) vm l(1) first] by (simp add: next_by_month_def today)
  have "?u ((succ_month ^^ l) ?ym) \<le> ?u p" if p: "valid_month p" "month_allowed allowed p" "now < ?u p" for p
  proof -
    have "month_index ?ym \<le> month_index p"
    proof (rule ccontr)
      assume less: "\<not> ?thesis"
      have "?ym = (succ_month ^^ nat (month_index ?ym - month_index p)) p" using month_reached [OF p(1) vm] less by simp
      then have "toordinal (in_month p dm) + 28 \<le> toordinal (in_month ?ym dm)"
        using succ_months_ord [OF p(1), of dm "nat (month_index ?ym - month_index p)"] less by simp
      moreover have "toordinal (y, m, d) \<le> toordinal (in_month p dm)"
        using zone_before_today [OF z t in_month_valid [OF p(1) dm] p(3)] today by simp
      ultimately show False using vd dm by (simp add: in_month_def)
    qed
    then obtain j where j: "p = (succ_month ^^ j) ?ym" using month_reached [OF vm p(1)] by blast
    then have "l \<le> j" using first [of j] p(2,3) by (meson linorder_not_le)
    then have pj: "p = (succ_month ^^ (j - l)) ((succ_month ^^ l) ?ym)" using j by (metis funpow_add comp_apply le_add_diff_inverse2)
    show ?thesis
    proof (cases "j = l")
      case False
      then have "toordinal (in_month ((succ_month ^^ l) ?ym) dm) + 2 \<le> toordinal (in_month p dm)"
        using succ_months_ord [OF vmi, of l dm "j - l"] \<open>l \<le> j\<close> pj by simp
      from zone_later [OF z t in_month_valid [OF vmi dm] in_month_valid [OF p(1) dm] this] show ?thesis by simp
    qed (simp add: j)
  qed
  then have "is_next_run z now t (\<lambda>d. \<exists>ym. valid_month ym \<and> month_allowed allowed ym \<and> d = in_month ym dm) (?u ((succ_month ^^ l) ?ym))"
    using l(1) vmi [of l] unfolding is_next_run_def by blast
  with scan show ?thesis by blast
qed

text \<open>A cadence the validation lets through.\<close>

definition cadence_ok :: "string \<Rightarrow> int option \<Rightarrow> int option \<Rightarrow> bool" where
  "cadence_ok frequency day_of_month day_of_week \<longleftrightarrow>
     (if frequency = ''weekly'' then day_of_month = None \<and> (\<exists>i. day_of_week = Some i \<and> 0 \<le> i \<and> i \<le> 6)
      else frequency \<in> {''monthly'', ''quarterly''} \<and> day_of_week = None \<and> (\<exists>i. day_of_month = Some i \<and> 1 \<le> i \<and> i \<le> 28))"

lemma cadence_month:
  assumes "frequency \<in> {''monthly'', ''quarterly''}" "1 \<le> dm" "dm \<le> 28"
  shows "cadence_date frequency (Some dm) dw d \<longleftrightarrow>
     (\<exists>ym. valid_month ym \<and> month_allowed (if frequency = ''monthly'' then None else Some quarter_months) ym \<and> d = in_month ym dm)"
proof (cases d)
  case (fields y m k)
  have "valid_date (y, m, dm) \<longleftrightarrow> valid_month (y, m)" using assms(2,3) month_days_bounds(1) [of y m] by (auto simp: valid_month_def)
  then show ?thesis
    using assms(1) fields by (auto simp: cadence_date_def in_month_def month_allowed_def quarter_months_def)
qed

lemma next_run_found:
  assumes "zone_ok z" "valid_time t" "zones tz_name = Some z" "cadence_ok frequency dm dow"
  shows "\<exists>r. compute_next_run_at zones True now frequency t tz_name dm dow = Inr r \<and>
     is_next_run z now t (cadence_date frequency dm dow) r"
proof (cases "frequency = ''weekly''")
  case True
  with assms(4) obtain i where "dow = Some i" "0 \<le> i" "i \<le> 6" by (auto simp: cadence_ok_def)
  with True assms(3) weekly_is_next [OF assms(1,2), of i now dm] show ?thesis by (simp add: compute_next_run_at_def)
next
  case False
  let ?a = "if frequency = ''monthly'' then None else Some quarter_months"
  from False assms(4) obtain i where i: "dm = Some i" "1 \<le> i" "i \<le> 28" and f: "frequency \<in> {''monthly'', ''quarterly''}"
    by (auto simp: cadence_ok_def)
  have "cadence_date frequency dm dow = (\<lambda>d. \<exists>ym. valid_month ym \<and> month_allowed ?a ym \<and> d = in_month ym i)"
    unfolding i(1) by (intro ext) (rule cadence_month [OF f i(2,3)])
  with f i assms(3) monthly_is_next [OF assms(1,2) i(2,3), of ?a now] show ?thesis by (auto simp: compute_next_run_at_def)
qed

section \<open>Lemmas: payloads\<close>

lemma py_split_none: "c \<notin> set s \<Longrightarrow> py_split c s = [s]"
  by (induction s) auto

lemma py_split_two: "c \<notin> set a \<Longrightarrow> c \<notin> set b \<Longrightarrow> py_split c (a @ c # b) = [a, b]"
  by (induction a) (auto simp: py_split_none)

lemma digit_char: "n < 10 \<Longrightarrow> is_decimal (char_of (48 + n))" for n :: nat
  by (simp add: is_decimal_def)

lemma pad2_digits:
  assumes "0 \<le> n" "n < 100"
  shows "pad2 n = [char_of (48 + nat n div 10), char_of (48 + nat n mod 10)]"
proof (cases "n < 10")
  case True
  moreover have "(char_of (48 :: nat) :: char) = CHR ''0''" by code_simp
  ultimately show ?thesis using assms nat_str_short [of "nat n"] by (simp add: pad2_def int_str_def)
next
  case False
  then have "nat_str (nat n) = nat_str (nat n div 10) @ [char_of (48 + nat n mod 10)]" by (intro nat_str_long) simp
  moreover have "nat n div 10 < 10" using assms by linarith
  ultimately show ?thesis using False assms nat_str_short [of "nat n div 10"] by (simp add: pad2_def int_str_def)
qed

lemma pad2_parses:
  assumes "0 \<le> n" "n < 100"
  shows "length (pad2 n) = 2" "list_all is_digit (pad2 n)" "py_int (pad2 n) = Inr n" "CHR '':'' \<notin> set (pad2 n)"
proof -
  have d: "nat n div 10 < 10" "nat n mod 10 < 10" using assms by linarith+
  then have dec: "list_all is_decimal (pad2 n)" unfolding pad2_digits [OF assms] by (simp add: digit_char)
  show "length (pad2 n) = 2" by (simp add: pad2_digits [OF assms])
  from dec show "list_all is_digit (pad2 n)" by (simp add: list_all_iff is_digit_def)
  from dec show "CHR '':'' \<notin> set (pad2 n)" by (auto simp: list_all_iff is_decimal_def dest: bspec [of _ _ "CHR '':''"])
  have "int (10 * (nat n div 10) + nat n mod 10) = n" using assms(1) by simp
  then have "10 * int (nat n div 10) + int (nat n mod 10) = n" by (simp only: of_nat_add of_nat_mult of_nat_numeral)
  then show "py_int (pad2 n) = Inr n"
    using dec d unfolding pad2_digits [OF assms] py_int_def by simp
qed

lemma parse_format: "valid_time t \<Longrightarrow> parse_hh_mm (PStr (format_hh_mm t)) = Inr t"
proof -
  assume v: "valid_time t"
  then have b: "0 \<le> pt_hour t" "pt_hour t < 100" "0 \<le> pt_minute t" "pt_minute t < 100" by (simp_all add: valid_time_def)
  have "py_split (CHR '':'') (format_hh_mm t) = [pad2 (pt_hour t), pad2 (pt_minute t)]"
    using py_split_two [OF pad2_parses(4) [OF b(1,2)] pad2_parses(4) [OF b(3,4)]] by (simp add: format_hh_mm_def)
  with v show ?thesis
    by (simp add: parse_hh_mm_def pad2_parses [OF b(1,2)] pad2_parses [OF b(3,4)] valid_time_def)
qed

lemma parse_valid: "parse_hh_mm v = Inr t \<Longrightarrow> valid_time t"
  by (auto simp: parse_hh_mm_def valid_time_def split: pyval.splits list.splits if_splits sum.splits)

lemma strip_idem: "strip (strip s) = strip s"
proof -
  have drop: "dropWhile P (rev (dropWhile P (rev xs))) = rev (dropWhile P (rev xs))" if "xs = [] \<or> \<not> P (hd xs)" for P and xs :: string
  proof (cases xs)
    case (Cons x ys)
    with that have "\<not> P x" by simp
    then have "rev (dropWhile P (rev ys @ [x])) = x # rev (dropWhile P (rev ys))" by (induction ys rule: rev_induct) auto
    with Cons \<open>\<not> P x\<close> show ?thesis by simp
  qed simp
  have "dropWhile is_space s = [] \<or> \<not> is_space (hd (dropWhile is_space s))" by (metis hd_dropWhile)
  then show ?thesis using drop [of "dropWhile is_space s" is_space] by (simp add: strip_def)
qed

text \<open>What an accepted payload looks like.\<close>

definition recipient_key :: "NormalizedRecipient \<Rightarrow> string \<times> string" where
  "recipient_key r = (map lower_char (nr_email_address r), nr_format r)"

definition group_ok :: "string \<Rightarrow> string option \<Rightarrow> bool" where
  "group_ok kind group_by =
     (case group_by of None \<Rightarrow> kind \<noteq> ''monthly_consumption'' | Some g \<Rightarrow> g \<in> set VALID_GROUP_BY)"

definition schedule_ok :: "NormalizedScheduleInput \<Rightarrow> bool" where
  "schedule_ok s \<longleftrightarrow>
     ns_name s \<noteq> [] \<and> strip (ns_name s) = ns_name s \<and> ns_kind s \<in> set VALID_KINDS \<and>
     group_ok (ns_kind s) (ns_group_by s) \<and>
     cadence_ok (ns_frequency s) (ns_day_of_month s) (ns_day_of_week s) \<and> valid_time (ns_time_of_day s) \<and>
     ns_autonomy_mode s \<in> set VALID_AUTONOMY_MODES \<and>
     distinct (map recipient_key (ns_recipients s)) \<and> map nr_position (ns_recipients s) = [0..<length (ns_recipients s)]"

lemma member_of_Inr: "member_of names v = Inr s \<longleftrightarrow> v = PStr s \<and> s \<in> set names"
  by (cases v) auto

lemma int_in_Inr: "int_in lo hi v = Inr i \<longleftrightarrow> v = PInt i \<and> lo \<le> i \<and> i \<le> hi"
  by (cases v) (auto simp: int_in_def)

lemma recipients_ok:
  "validate_recipient_list pos seen items = Inr out \<Longrightarrow>
     distinct (map recipient_key out) \<and> (\<forall>r\<in>set out. recipient_key r \<notin> set seen) \<and> map nr_position out = [pos..<pos + length out]"
proof (induction items arbitrary: pos seen out)
  case (Cons item items)
  then obtain e f rest where rest: "validate_recipient_list (Suc pos) ((map lower_char e, f) # seen) items = Inr rest"
      and new: "(map lower_char e, f) \<notin> set seen" and out: "out = \<lparr>nr_email_address = e, nr_format = f, nr_position = pos\<rparr> # rest"
    by (auto split: pyval.splits sum.splits if_splits)
  from Cons.IH [OF rest] new out show ?case by (auto simp: recipient_key_def upt_rec [of pos])
qed simp

lemma validate_recipients_ok:
  "validate_recipients v = Inr out \<Longrightarrow> distinct (map recipient_key out) \<and> map nr_position out = [0..<length out]"
  using recipients_ok [of 0 "[]"] by (auto simp: validate_recipients_def split: pyval.splits)

lemma validate_cadence_ok:
  "frequency \<in> set VALID_FREQUENCIES \<Longrightarrow> validate_cadence frequency a b = Inr (dm, dow) \<Longrightarrow> cadence_ok frequency dm dow"
  by (auto simp: validate_cadence_def cadence_ok_def VALID_FREQUENCIES_def int_in_Inr split: if_splits sum.splits)

lemma validate_kind_ok:
  "validate_kind_and_group_by a b = Inr (k, g) \<Longrightarrow>
     k \<in> set VALID_KINDS \<and> group_ok k g"
  by (auto simp: validate_kind_and_group_by_def member_of_Inr group_ok_def split: if_splits sum.splits)

lemma normalize_ok:
  assumes "normalize_create_payload v = Inr s"
  shows "schedule_ok s"
  using assms strip_idem
  by (auto simp: normalize_create_payload_def schedule_ok_def member_of_Inr
      split: pyval.splits if_splits sum.splits prod.splits
      dest: validate_recipients_ok validate_cadence_ok validate_kind_ok parse_valid)

lemma cadence_validates:
  "cadence_ok f dm dow \<Longrightarrow> f \<in> set VALID_FREQUENCIES \<and> validate_cadence f (popt PInt dm) (popt PInt dow) = Inr (dm, dow)"
  by (auto simp: cadence_ok_def VALID_FREQUENCIES_def validate_cadence_def int_in_def popt_def split: if_splits)

lemma kind_validates:
  "k \<in> set VALID_KINDS \<Longrightarrow> group_ok k g \<Longrightarrow> validate_kind_and_group_by (PStr k) (popt PStr g) = Inr (k, g)"
  by (auto simp: validate_kind_and_group_by_def group_ok_def popt_def split: option.splits)

lemma empty_patch:
  assumes "schedule_ok s"
  shows "normalize_patch_payload (PDict []) s = Inr (s\<lparr>ns_recipients := []\<rparr>)"
proof -
  have "overlay [] m = m" "clear_days [] m = m" for m
    by (simp_all add: overlay_def patch_keys_def clear_days_def dict_get_def)
  with assms cadence_validates [of "ns_frequency s" "ns_day_of_month s" "ns_day_of_week s"]
    kind_validates [of "ns_kind s" "ns_group_by s"] parse_format [of "ns_time_of_day s"]
  show ?thesis
    by (cases s) (auto simp: normalize_patch_payload_def normalize_create_payload_def current_payload_def dict_get_def
        schedule_ok_def validate_recipients_def)
qed

text \<open>The digit test of \<open>parse_hh_mm\<close> lets superscripts through, on which \<open>int\<close> raises a plain
  \<open>ValueError\<close>, not the validation error its callers translate.\<close>

lemma superscript_time_raises: "parse_hh_mm (PStr (''1'' @ [char_of (178 :: nat)] @ '':00'')) = Inl ValueError"
  by code_simp

section \<open>Lemmas: reporting periods\<close>

lemma next_prev_day: "valid_date d \<Longrightarrow> next_day (prev_day d) = d"
  using toordinal_prev_day [of d] toordinal_next_day [of "prev_day d"] by (intro toordinal_inject) auto

lemma last_day_is_month_days: "1 \<le> m \<Longrightarrow> m \<le> 12 \<Longrightarrow> last_day_of_month y m = month_days y m"
  by (auto simp: last_day_of_month_def minus_days_def month_days_def)

definition quarter_index :: "int \<Rightarrow> int \<Rightarrow> int" where
  "quarter_index y m = 4 * y + (m - 1) div 3"

text \<open>The next run of a schedule falls on a date of the next week, month or quarter.\<close>

definition period_follows :: "string \<Rightarrow> pydate \<Rightarrow> pydate \<Rightarrow> bool" where
  "period_follows frequency today later =
     (case today of (y, m, d) \<Rightarrow> case later of (y', m', d') \<Rightarrow>
        if frequency = ''weekly'' then toordinal later = toordinal today + 7
        else if frequency = ''monthly'' then month_index (y', m') = month_index (y, m) + 1
        else quarter_index y' m' = quarter_index y m + 1)"

lemma weekly_periods:
  assumes "valid_date today" "valid_date later" "toordinal later = toordinal today + 7"
  shows "minus_days (minus_days later 1) 6 = plus_days (minus_days today 1) 1"
  using assms minus_days_ord [of today 1] minus_days_ord [of later 1] minus_days_ord [of "minus_days later 1" 6]
    plus_days_ord [of "minus_days today 1" 1]
  by (intro toordinal_inject) auto

lemma monthly_bounds:
  assumes "valid_month (y, m)"
  shows "\<exists>y' m'. valid_month (y', m') \<and> month_index (y, m) = month_index (y', m') + 1 \<and>
     previous_month_bounds (y, m, d) = ((y', m', 1), prev_day (y, m, 1))"
  using assms by (auto simp: previous_month_bounds_def minus_days_def valid_month_def month_index_def)

lemma quarter_end:
  assumes "1 \<le> m" "m \<le> 12"
  shows "\<exists>qy q. 0 \<le> q \<and> q \<le> 3 \<and> quarter_index y m = 4 * qy + q + 1 \<and>
     compute_report_period ''quarterly'' (y, m, d) =
       Inr ((qy, q * 3 + 1, 1), (qy, q * 3 + 3, last_day_of_month qy (q * 3 + 3)))"
proof -
  have "0 \<le> (m - 1) div 3" "(m - 1) div 3 \<le> 3" using assms by auto
  then show ?thesis
    by (auto simp: compute_report_period_def quarter_index_def Let_def intro!: exI [of _ "if (m - 1) div 3 = 0 then 3 else (m - 1) div 3 - 1"])
qed

lemma quarter_next_day:
  assumes "0 \<le> q" "q \<le> 3"
  shows "next_day (qy, q * 3 + 3, last_day_of_month qy (q * 3 + 3)) = (if q = 3 then (qy + 1, 1, 1) else (qy, q * 3 + 4, 1))"
  using assms by (simp add: last_day_is_month_days)

lemma valid_fields: "valid_date (y, m, d) \<Longrightarrow> valid_month (y, m) \<and> 1 \<le> m \<and> m \<le> 12 \<and> valid_date (y, m, 1)"
  using month_days_bounds(1) [of y m] by (simp add: valid_month_def)

lemma quarterly_periods:
  assumes "1 \<le> m" "m \<le> 12" "1 \<le> m'" "m' \<le> 12" "quarter_index y' m' = quarter_index y m + 1"
  shows "\<exists>a b b'. compute_report_period ''quarterly'' (y, m, d) = Inr (a, b) \<and>
     compute_report_period ''quarterly'' (y', m', d') = Inr (plus_days b 1, b')"
proof -
  obtain qy q where q: "0 \<le> q" "q \<le> 3" "quarter_index y m = 4 * qy + q + 1"
      "compute_report_period ''quarterly'' (y, m, d) = Inr ((qy, q * 3 + 1, 1), (qy, q * 3 + 3, last_day_of_month qy (q * 3 + 3)))"
    using quarter_end [OF assms(1,2), of y d] by blast
  obtain py p where p: "0 \<le> p" "p \<le> 3" "quarter_index y' m' = 4 * py + p + 1"
      "compute_report_period ''quarterly'' (y', m', d') = Inr ((py, p * 3 + 1, 1), (py, p * 3 + 3, last_day_of_month py (p * 3 + 3)))"
    using quarter_end [OF assms(3,4), of y' d'] by blast
  have "4 * py + p = 4 * qy + q + 1" using assms(5) q(3) p(3) by simp
  then have "py = (if q = 3 then qy + 1 else qy) \<and> p = (if q = 3 then 0 else q + 1)" using q(1,2) p(1,2) by (auto split: if_splits) presburger+
  then have "(py, p * 3 + 1, 1) = plus_days (qy, q * 3 + 3, last_day_of_month qy (q * 3 + 3)) 1"
    using quarter_next_day [OF q(1,2), of qy] by (auto simp: plus_days_def split: if_splits)
  with q(4) p(4) show ?thesis by metis
qed

lemma monthly_periods:
  assumes "valid_date (y, m, d)" "valid_date (y', m', d')" "month_index (y', m') = month_index (y, m) + 1"
  shows "\<exists>a b b'. previous_month_bounds (y, m, d) = (a, b) \<and> previous_month_bounds (y', m', d') = (plus_days b 1, b')"
proof -
  have v: "valid_month (y, m)" "valid_date (y, m, 1)" "valid_month (y', m')" using assms(1,2) valid_fields by blast+
  obtain py pm where p: "valid_month (py, pm)" "month_index (y', m') = month_index (py, pm) + 1"
      "previous_month_bounds (y', m', d') = ((py, pm, 1), prev_day (y', m', 1))"
    using monthly_bounds [OF v(3)] by blast
  have "(py, pm) = (y, m)" using month_index_inject [OF p(1) v(1)] p(2) assms(3) by simp
  moreover have "plus_days (prev_day (y, m, 1)) 1 = (y, m, 1)" using next_prev_day [OF v(2)] by (simp add: plus_days_def)
  ultimately show ?thesis using monthly_bounds [OF v(1), of d] p(3) by (metis Pair_inject)
qed

section \<open>A fixed-offset zone\<close>

definition date_of_ord :: "int \<Rightarrow> pydate" where
  "date_of_ord n = (if 1 \<le> n then plus_days (1, 1, 1) (nat (n - 1)) else minus_days (1, 1, 1) (nat (1 - n)))"

definition fixed_zone :: "int \<Rightarrow> zone" where
  "fixed_zone offset =
     \<lparr>z_local = \<lambda>u. (date_of_ord ((u + offset) div usec_per_day + 1), (u + offset) mod usec_per_day),
      z_utc = \<lambda>w. wall w - offset\<rparr>"

lemma date_of_ord: "valid_date (date_of_ord n) \<and> toordinal (date_of_ord n) = n"
proof -
  have first: "valid_date (1, 1, 1)" "toordinal (1, 1, 1) = 1" by (simp_all add: month_days_def days_before_year_def)
  show ?thesis
    using plus_days_ord [OF first(1), of "nat (n - 1)"] minus_days_ord [OF first(1), of "nat (1 - n)"] first(2)
    by (simp add: date_of_ord_def)
qed

lemma fixed_zone_ok: "\<bar>offset\<bar> < usec_per_day \<Longrightarrow> zone_ok (fixed_zone offset)"
proof -
  assume off: "\<bar>offset\<bar> < usec_per_day"
  have earlier: "(toordinal d - 1) * usec_per_day + us - offset \<le> u"
    if "us < usec_per_day" "toordinal d < (u + offset) div usec_per_day + 1" for d us u
  proof -
    have "toordinal d * usec_per_day \<le> ((u + offset) div usec_per_day) * usec_per_day"
      using that(2) by (intro mult_right_mono) (simp_all add: usec_values)
    also have "\<dots> \<le> u + offset" by (simp add: usec_values minus_mod_eq_div_mult [symmetric])
    finally show ?thesis using that(1) by (simp add: left_diff_distrib)
  qed
  have "(u + offset) div usec_per_day * usec_per_day + (u + offset) mod usec_per_day = u + offset" for u by simp
  with off earlier show ?thesis
    by (simp add: zone_ok_def fixed_zone_def date_of_ord)
qed

section \<open>Properties\<close>

text \<open>C20: The next run is the next one: for a validated cadence and time of day, in every zone whose offsets
  are less than a day and whose clock changes keep the order of the dates, \<open>compute_next_run_at\<close> always
  returns, the scan of sixty months never runs out, and the instant it returns is strictly after now, is
  the local time of day on a date of the cadence, and no such instant lies between now and it.\<close>

theorem next_run_is_next:
  assumes "zones tz_name = Some z" and "zone_ok z" and "valid_time t" and "cadence_ok frequency day_of_month day_of_week"
  shows "\<exists>r. compute_next_run_at zones True now frequency t tz_name day_of_month day_of_week = Inr r \<and>
     is_next_run z now t (cadence_date frequency day_of_month day_of_week) r"
  using assms by (intro next_run_found)

theorem next_run_is_next_witness:
  "\<exists>r. compute_next_run_at (\<lambda>_. Some (fixed_zone 7200000000)) True 63900000000000000 ''quarterly'' \<lparr>pt_hour = 6, pt_minute = 0\<rparr>
        ''Europe/Tallinn'' (Some 1) None = Inr r \<and>
     is_next_run (fixed_zone 7200000000) 63900000000000000 \<lparr>pt_hour = 6, pt_minute = 0\<rparr> (cadence_date ''quarterly'' (Some 1) None) r"
  by (rule next_run_is_next) (simp_all add: fixed_zone_ok usec_values valid_time_def cadence_ok_def)

text \<open>C39: What the validation lets through can be scheduled: an accepted payload has a stripped, non-empty
  name, enumerated values, exactly the day field its frequency needs, a real time of day and recipients
  without duplicates numbered from zero; and in every zone as above its next run exists and is after now.\<close>

theorem accepted_payload_schedulable:
  assumes "normalize_create_payload payload = Inr s" and "zones tz_name = Some z" and "zone_ok z"
  shows "schedule_ok s \<and>
     (\<exists>r>now. compute_next_run_at zones True now (ns_frequency s) (ns_time_of_day s) tz_name
        (ns_day_of_month s) (ns_day_of_week s) = Inr r)"
proof -
  have ok: "schedule_ok s" using assms(1) by (rule normalize_ok)
  then have "valid_time (ns_time_of_day s)" "cadence_ok (ns_frequency s) (ns_day_of_month s) (ns_day_of_week s)"
    by (simp_all add: schedule_ok_def)
  from next_run_found [of z _ zones tz_name, OF assms(3) this(1) assms(2) this(2), of now] ok
  show ?thesis unfolding is_next_run_def by blast
qed

definition demo_payload :: "(string, pyval) pydict" where
  "demo_payload =
     [(''name'', PStr '' ops ''), (''kind'', PStr ''weekly_ops''), (''frequency'', PStr ''weekly''), (''dayOfWeek'', PInt 1),
      (''timeOfDay'', PStr ''06:30''), (''autonomyMode'', PStr ''shadow''),
      (''recipients'', PList [PDict [(''emailAddress'', PStr ''a@b.c''), (''format'', PStr ''pdf'')]])]"

definition demo_schedule :: NormalizedScheduleInput where
  "demo_schedule =
     \<lparr>ns_name = ''ops'', ns_kind = ''weekly_ops'', ns_group_by = None, ns_frequency = ''weekly'', ns_day_of_month = None,
      ns_day_of_week = Some 1, ns_time_of_day = \<lparr>pt_hour = 6, pt_minute = 30\<rparr>, ns_autonomy_mode = ''shadow'', ns_is_active = True,
      ns_recipients = [\<lparr>nr_email_address = ''a@b.c'', nr_format = ''pdf'', nr_position = 0\<rparr>]\<rparr>"

lemma demo_accepted: "normalize_create_payload (PDict demo_payload) = Inr demo_schedule"
  by code_simp

theorem accepted_payload_schedulable_witness:
  "schedule_ok demo_schedule \<and>
   (\<exists>r>0. compute_next_run_at (\<lambda>_. Some (fixed_zone 0)) True 0 ''weekly'' \<lparr>pt_hour = 6, pt_minute = 30\<rparr> ''UTC'' None (Some 1) = Inr r)"
  using accepted_payload_schedulable [OF demo_accepted, of "\<lambda>_. Some (fixed_zone 0)" "''UTC''" "fixed_zone 0" 0]
  by (simp add: fixed_zone_ok demo_schedule_def)

text \<open>An accepted schedule survives the edit path: applying the empty patch to it, which prints its fields,
  among them the time of day as \<open>HH:mm\<close>, and validates the text again, gives the same schedule, with no
  recipients to replace.\<close>

theorem empty_patch_keeps_schedule:
  assumes "normalize_create_payload payload = Inr s"
  shows "normalize_patch_payload (PDict []) s = Inr (s\<lparr>ns_recipients := []\<rparr>)"
  using assms by (intro empty_patch normalize_ok)

theorem empty_patch_keeps_schedule_witness:
  "normalize_patch_payload (PDict []) demo_schedule = Inr (demo_schedule\<lparr>ns_recipients := []\<rparr>)"
  using demo_accepted by (rule empty_patch_keeps_schedule)

text \<open>Reports leave no gap and no overlap: when one run falls in the week, month or quarter after that of
  another, on whatever day of it, its period starts on the day after the end of the other's.\<close>

theorem report_periods_tile:
  assumes "frequency \<in> set VALID_FREQUENCIES" and "valid_date today" and "valid_date later" and "period_follows frequency today later"
  shows "\<exists>a b b'. compute_report_period frequency today = Inr (a, b) \<and> compute_report_period frequency later = Inr (plus_days b 1, b')"
proof -
  obtain y m d y' m' d' where dates: "today = (y, m, d)" "later = (y', m', d')" by (metis prod.collapse)
  consider "frequency = ''weekly''" | "frequency = ''monthly''" | "frequency = ''quarterly''"
    using assms(1) by (auto simp: VALID_FREQUENCIES_def)
  then show ?thesis
  proof cases
    case 1
    with weekly_periods [OF assms(2,3)] assms(4) have "compute_report_period frequency later = Inr (plus_days (minus_days today 1) 1, minus_days later 1)"
      by (simp add: compute_report_period_def period_follows_def Let_def dates)
    moreover have "compute_report_period frequency today = Inr (minus_days (minus_days today 1) 6, minus_days today 1)"
      using 1 by (simp add: compute_report_period_def Let_def)
    ultimately show ?thesis by blast
  next
    case 2
    then show ?thesis
      using monthly_periods [of y m d y' m' d'] assms(2-4) by (simp add: compute_report_period_def period_follows_def dates)
  next
    case 3
    then show ?thesis
      using quarterly_periods [of m m' y' y d d'] assms(4) valid_fields [OF assms(2) [unfolded dates]] valid_fields [OF assms(3) [unfolded dates]]
      by (simp add: period_follows_def dates)
  qed
qed

theorem report_periods_tile_witness:
  "\<exists>a b b'. compute_report_period ''quarterly'' (2026, 2, 28) = Inr (a, b) \<and>
     compute_report_period ''quarterly'' (2026, 4, 1) = Inr (plus_days b 1, b')"
  by (rule report_periods_tile) (simp_all add: VALID_FREQUENCIES_def month_days_def is_leap_def period_follows_def quarter_index_def)

end
