(* ===== verification/Alerts.thy ===== *)
theory Alerts
  imports Interfaces
begin

text \<open>
  The alerts pipeline, \<open>src/src/notifications\<close>: severities (\<open>severity.py\<close>), the tables
  \<open>notification_alerts\<close> and \<open>notification_deliveries\<close> with the queries of \<open>alerts.py\<close>, the recipients
  of \<open>recipients.py\<close> and the dispatcher that turns due alerts into deliveries (\<open>dispatcher.py\<close>). A table
  is the list of its rows in insertion order; rows that an \<open>ORDER BY\<close> leaves equal keep it. \<open>NOW()\<close>, the
  generated ids and what the mail service answers are arguments. The partial unique index on the open
  alerts and the primary keys are the tables' own constraints: an insert that violates one raises.
\<close>

section \<open>Model: severity\<close>

datatype Severity = INFO | WARNING | CRITICAL

fun severity_level :: "Severity \<Rightarrow> int" where
  "severity_level INFO = 1"
| "severity_level WARNING = 2"
| "severity_level CRITICAL = 3"

fun severity_value :: "Severity \<Rightarrow> string" where
  "severity_value INFO = ''info''"
| "severity_value WARNING = ''warning''"
| "severity_value CRITICAL = ''critical''"

definition severity_from_str :: "pyval \<Rightarrow> Severity result" where
  "severity_from_str v =
     (case v of
        PStr s \<Rightarrow>
          (let t = map lower_char s
           in if t = ''info'' then Inr INFO else if t = ''warning'' then Inr WARNING
              else if t = ''critical'' then Inr CRITICAL else Inl ValueError)
      | _ \<Rightarrow> Inl TypeError)"

definition severity_from_level :: "int \<Rightarrow> Severity result" where
  "severity_from_level n =
     (if n = 1 then Inr INFO else if n = 2 then Inr WARNING else if n = 3 then Inr CRITICAL else Inl ValueError)"

definition meets_threshold :: "Severity \<Rightarrow> Severity \<Rightarrow> bool" where
  "meets_threshold s threshold \<longleftrightarrow> severity_level s \<ge> severity_level threshold"

section \<open>Model: the alerts table\<close>

datatype alert_status = Active | Acknowledged | Resolved

record Alert =
  nt_id :: string
  nt_org :: string
  nt_depot :: "string option"
  nt_type :: string
  nt_severity :: Severity
  nt_title :: string
  nt_detail :: "(string, pyval) pydict"
  nt_dedup_key :: string
  nt_status :: alert_status
  nt_first_occurrence_at :: dtime
  nt_last_occurrence_at :: dtime
  nt_occurrence_count :: int
  nt_acknowledged_at :: "dtime option"
  nt_acknowledged_by :: "string option"
  nt_acknowledged_by_email :: "string option"
  nt_resolved_at :: "dtime option"
  nt_last_notified_at :: "dtime option"
  nt_last_notified_count :: int

definition open_for :: "string \<Rightarrow> string \<Rightarrow> Alert \<Rightarrow> bool" where
  "open_for org key a \<longleftrightarrow> nt_org a = org \<and> nt_dedup_key a = key \<and> nt_status a \<noteq> Resolved"

definition new_alert ::
  "string \<Rightarrow> dtime \<Rightarrow> string \<Rightarrow> string option \<Rightarrow> string \<Rightarrow> Severity \<Rightarrow> string \<Rightarrow> (string, pyval) pydict \<Rightarrow> string \<Rightarrow> Alert" where
  "new_alert fresh now org depot ty sev title detail key =
     \<lparr>nt_id = fresh, nt_org = org, nt_depot = depot, nt_type = ty, nt_severity = sev, nt_title = title, nt_detail = detail,
      nt_dedup_key = key, nt_status = Active, nt_first_occurrence_at = now, nt_last_occurrence_at = now,
      nt_occurrence_count = 1, nt_acknowledged_at = None, nt_acknowledged_by = None, nt_acknowledged_by_email = None,
      nt_resolved_at = None, nt_last_notified_at = None, nt_last_notified_count = 0\<rparr>"

definition bump_alert :: "dtime \<Rightarrow> Severity \<Rightarrow> string \<Rightarrow> (string, pyval) pydict \<Rightarrow> Alert \<Rightarrow> Alert" where
  "bump_alert now sev title detail a =
     a\<lparr>nt_last_occurrence_at := now, nt_occurrence_count := nt_occurrence_count a + 1, nt_severity := sev,
       nt_title := title, nt_detail := detail\<rparr>"

definition upsert_alert ::
  "string \<Rightarrow> dtime \<Rightarrow> string \<Rightarrow> string option \<Rightarrow> string \<Rightarrow> Severity \<Rightarrow> string \<Rightarrow> (string, pyval) pydict \<Rightarrow> string \<Rightarrow>
     Alert list \<Rightarrow> Alert result \<times> Alert list" where
  "upsert_alert fresh now org depot ty sev title detail key tab =
     (case updated_row (open_for org key) (bump_alert now sev title detail) tab of
        Some a \<Rightarrow> (Inr a, update_where (open_for org key) (bump_alert now sev title detail) tab)
      | None \<Rightarrow>
          if fresh \<in> nt_id ` set tab then (Inl (OtherError ''UniqueViolationError''), tab)
          else let a = new_alert fresh now org depot ty sev title detail key in (Inr a, tab @ [a]))"

definition resolve_row :: "dtime \<Rightarrow> Alert \<Rightarrow> Alert" where
  "resolve_row now a = a\<lparr>nt_status := Resolved, nt_resolved_at := Some now\<rparr>"

definition resolve_alert :: "dtime \<Rightarrow> string \<Rightarrow> string \<Rightarrow> Alert list \<Rightarrow> Alert option \<times> Alert list" where
  "resolve_alert now org key tab =
     (updated_row (open_for org key) (resolve_row now) tab, update_where (open_for org key) (resolve_row now) tab)"

definition acknowledge_row :: "dtime \<Rightarrow> string \<Rightarrow> Alert \<Rightarrow> Alert" where
  "acknowledge_row now user a = a\<lparr>nt_status := Acknowledged, nt_acknowledged_at := Some now, nt_acknowledged_by := Some user\<rparr>"

definition acknowledge :: "dtime \<Rightarrow> string \<Rightarrow> string \<Rightarrow> Alert list \<Rightarrow> Alert option \<times> Alert list" where
  "acknowledge now alert_id user tab =
     (let p = (\<lambda>a. nt_id a = alert_id \<and> nt_status a = Active)
      in (updated_row p (acknowledge_row now user) tab, update_where p (acknowledge_row now user) tab))"

text \<open>\<open>with_email\<close>: whether the column \<open>acknowledged_by_email\<close> exists.\<close>

definition acknowledge_for_org ::
  "bool \<Rightarrow> dtime \<Rightarrow> string \<Rightarrow> string \<Rightarrow> string \<Rightarrow> string option \<Rightarrow> Alert list \<Rightarrow> Alert option \<times> Alert list" where
  "acknowledge_for_org with_email now alert_id org user email tab =
     (let p = (\<lambda>a. nt_id a = alert_id \<and> nt_org a = org \<and> nt_status a = Active);
          f = (\<lambda>a. let b = acknowledge_row now user a in if with_email then b\<lparr>nt_acknowledged_by_email := email\<rparr> else b)
      in (updated_row p f tab, update_where p f tab))"

definition resolve_by_id ::
  "bool \<Rightarrow> dtime \<Rightarrow> string \<Rightarrow> string \<Rightarrow> string option \<Rightarrow> string option \<Rightarrow> Alert list \<Rightarrow> Alert option \<times> Alert list" where
  "resolve_by_id with_email now alert_id org user email tab =
     (let p = (\<lambda>a. nt_id a = alert_id \<and> nt_org a = org \<and> nt_status a \<noteq> Resolved);
          f = (\<lambda>a. let b = (resolve_row now a)\<lparr>nt_acknowledged_by := coalesce (nt_acknowledged_by a) user,
                       nt_acknowledged_at := coalesce (nt_acknowledged_at a)
                         (if coalesce (nt_acknowledged_by a) user \<noteq> None then Some now else None)\<rparr>
                   in if with_email then b\<lparr>nt_acknowledged_by_email := coalesce (nt_acknowledged_by_email a) email\<rparr> else b)
      in (updated_row p f tab, update_where p f tab))"

definition notify_row :: "dtime \<Rightarrow> Alert \<Rightarrow> Alert" where
  "notify_row now a = a\<lparr>nt_last_notified_at := Some now, nt_last_notified_count := nt_last_notified_count a + 1\<rparr>"

definition mark_notified :: "dtime \<Rightarrow> string \<Rightarrow> Alert list \<Rightarrow> int result \<times> Alert list" where
  "mark_notified now alert_id tab =
     (case updated_row (\<lambda>a. nt_id a = alert_id) (notify_row now) tab of
        None \<Rightarrow> (Inl ValueError, tab)
      | Some a \<Rightarrow> (Inr (nt_last_notified_count a), update_where (\<lambda>a. nt_id a = alert_id) (notify_row now) tab))"

section \<open>Model: reading alerts\<close>

text \<open>\<open>ORDER BY severity_level DESC, last_occurrence_at DESC\<close>.\<close>

definition ranked :: "Alert list \<Rightarrow> Alert list" where
  "ranked rows = sort_key (\<lambda>a. (- severity_level (nt_severity a), - nt_last_occurrence_at a)) rows"

definition due :: "int \<Rightarrow> dtime \<Rightarrow> Alert \<Rightarrow> bool" where
  "due resend_interval_s now a \<longleftrightarrow>
     nt_status a = Active \<and>
     (case nt_last_notified_at a of None \<Rightarrow> True | Some t \<Rightarrow> t < now - resend_interval_s * usec_per_sec)"

definition claim_pending_alerts :: "int \<Rightarrow> nat \<Rightarrow> dtime \<Rightarrow> Alert list \<Rightarrow> Alert list" where
  "claim_pending_alerts resend_interval_s limit now tab = take limit (ranked (filter (due resend_interval_s now) tab))"

definition list_active_by_types :: "string list \<Rightarrow> Alert list \<Rightarrow> Alert list" where
  "list_active_by_types types tab =
     sort_key (\<lambda>a. - nt_last_occurrence_at a) (filter (\<lambda>a. nt_status a \<noteq> Resolved \<and> nt_type a \<in> set types) tab)"

definition list_for_depot :: "string \<Rightarrow> alert_status list \<Rightarrow> nat \<Rightarrow> Alert list \<Rightarrow> Alert list" where
  "list_for_depot depot statuses limit tab =
     take limit (ranked (filter (\<lambda>a. nt_depot a = Some depot \<and> nt_status a \<in> set statuses) tab))"

definition alert_get_by_id :: "string \<Rightarrow> Alert list \<Rightarrow> Alert option" where
  "alert_get_by_id alert_id tab = List.find (\<lambda>a. nt_id a = alert_id) tab"

text \<open>A page of an organisation's alerts and the number of all of them. A negative offset raises in the
  database, as does a negative limit.\<close>

definition list_for_org ::
  "string \<Rightarrow> alert_status option \<Rightarrow> Severity option \<Rightarrow> string option \<Rightarrow> string option \<Rightarrow> int \<Rightarrow> int \<Rightarrow> Alert list \<Rightarrow>
     (Alert list \<times> nat) result" where
  "list_for_org org status_filter severity_filter depot_filter type_filter page page_size tab =
     (let rows = filter (\<lambda>a. nt_org a = org \<and> matches status_filter (nt_status a) \<and> matches severity_filter (nt_severity a) \<and>
                             (case depot_filter of None \<Rightarrow> True | Some d \<Rightarrow> nt_depot a = Some d) \<and> matches type_filter (nt_type a)) tab;
          offset = (page - 1) * page_size
      in if page_size < 0 \<or> offset < 0 then Inl (OtherError ''PostgresError'')
         else Inr (take (nat page_size) (drop (nat offset) (ranked rows)), length rows))"

text \<open>The probe for the column of migration 046: its cached verdict and when a negative one expires.\<close>

datatype probe_answer = ColumnThere | ColumnMissing | ProbeFailed

record column_probe =
  cp_available :: "bool option"
  cp_retry_after :: pyfloat

definition reset_column_probe :: "column_probe \<Rightarrow> column_probe" where
  "reset_column_probe p = p\<lparr>cp_available := None, cp_retry_after := 0\<rparr>"

definition alert_select_columns :: "pyfloat \<Rightarrow> pyfloat \<Rightarrow> probe_answer \<Rightarrow> column_probe \<Rightarrow> bool result \<times> column_probe" where
  "alert_select_columns now now' answer p =
     (if cp_available p = Some True then (Inr True, p)
      else if cp_available p = Some False \<and> now < cp_retry_after p then (Inr False, p)
      else case answer of
             ColumnThere \<Rightarrow> (Inr True, p\<lparr>cp_available := Some True, cp_retry_after := 0\<rparr>)
           | ColumnMissing \<Rightarrow> (Inr False, p\<lparr>cp_available := Some False, cp_retry_after := now' + 60\<rparr>)
           | ProbeFailed \<Rightarrow> (Inl (OtherError ''PostgresError''), p))"

section \<open>Model: deliveries and recipients\<close>

record Delivery =
  dl_alert :: string
  dl_recipient :: string
  dl_notified_count :: int
  dl_channel :: string
  dl_message_id :: "string option"
  dl_status :: string
  dl_detail :: "(string, pyval) pydict"
  dl_provider_updated_at :: "dtime option"

definition delivery_key :: "Delivery \<Rightarrow> string \<times> string \<times> int" where
  "delivery_key d = (dl_alert d, dl_recipient d, dl_notified_count d)"

definition record_delivery :: "Delivery \<Rightarrow> Delivery list \<Rightarrow> bool \<times> Delivery list" where
  "record_delivery d tab = (if delivery_key d \<in> delivery_key ` set tab then (False, tab) else (True, tab @ [d]))"

definition update_delivery_status ::
  "dtime \<Rightarrow> string \<Rightarrow> string \<Rightarrow> (string, pyval) pydict \<Rightarrow> Delivery list \<Rightarrow> bool \<times> Delivery list" where
  "update_delivery_status now message_id status detail tab =
     (let p = (\<lambda>d. dl_message_id d = Some message_id)
      in (list_ex p tab,
          update_where p (\<lambda>d. d\<lparr>dl_status := status, dl_detail := detail, dl_provider_updated_at := Some now\<rparr>) tab))"

record Recipient =
  rp_id :: string
  rp_org :: string
  rp_email :: string
  rp_display_name :: "string option"
  rp_alert_types :: "string list"
  rp_min_severity :: Severity
  rp_active :: bool

definition list_for_alert :: "string \<Rightarrow> string \<Rightarrow> Severity \<Rightarrow> Recipient list \<Rightarrow> Recipient list" where
  "list_for_alert org ty sev tab =
     sort_key rp_email (filter (\<lambda>r. rp_org r = org \<and> rp_active r \<and> severity_level (rp_min_severity r) \<le> severity_level sev \<and>
       (ty \<in> set (rp_alert_types r) \<or> ''*'' \<in> set (rp_alert_types r))) tab)"

definition recipients_for_org :: "string \<Rightarrow> bool \<Rightarrow> Recipient list \<Rightarrow> Recipient list" where
  "recipients_for_org org include_inactive tab =
     sort_key rp_email (filter (\<lambda>r. rp_org r = org \<and> (include_inactive \<or> rp_active r)) tab)"

definition recipient_get_by_id :: "string \<Rightarrow> string option \<Rightarrow> Recipient list \<Rightarrow> Recipient option" where
  "recipient_get_by_id rid org tab = List.find (\<lambda>r. rp_id r = rid \<and> matches org (rp_org r)) tab"

definition recipient_create ::
  "string \<Rightarrow> string \<Rightarrow> string \<Rightarrow> string option \<Rightarrow> string list \<Rightarrow> Severity \<Rightarrow> Recipient list \<Rightarrow> Recipient result \<times> Recipient list" where
  "recipient_create fresh org email display types sev tab =
     (if fresh \<in> rp_id ` set tab \<or> (org, email) \<in> (\<lambda>r. (rp_org r, rp_email r)) ` set tab
      then (Inl (OtherError ''UniqueViolationError''), tab)
      else let r = \<lparr>rp_id = fresh, rp_org = org, rp_email = email, rp_display_name = display, rp_alert_types = types,
                    rp_min_severity = sev, rp_active = True\<rparr>
           in (Inr r, tab @ [r]))"

definition recipient_update ::
  "string \<Rightarrow> string \<Rightarrow> string option \<Rightarrow> string list option \<Rightarrow> Severity option \<Rightarrow> bool option \<Rightarrow> Recipient list \<Rightarrow>
     Recipient option \<times> Recipient list" where
  "recipient_update rid org display types sev active tab =
     (let p = (\<lambda>r. rp_id r = rid \<and> rp_org r = org);
          f = (\<lambda>r. r\<lparr>rp_display_name := coalesce display (rp_display_name r),
                     rp_alert_types := (case types of None \<Rightarrow> rp_alert_types r | Some ts \<Rightarrow> ts),
                     rp_min_severity := (case sev of None \<Rightarrow> rp_min_severity r | Some s \<Rightarrow> s),
                     rp_active := (case active of None \<Rightarrow> rp_active r | Some b \<Rightarrow> b)\<rparr>)
      in (updated_row p f tab, update_where p f tab))"

text \<open>The delete cascades to the deliveries.\<close>

definition recipient_delete ::
  "string \<Rightarrow> string \<Rightarrow> Recipient list \<times> Delivery list \<Rightarrow> bool \<times> Recipient list \<times> Delivery list" where
  "recipient_delete rid org tabs =
     (let p = (\<lambda>r. rp_id r = rid \<and> rp_org r = org); gone = filter p (fst tabs)
      in (length gone = 1, filter (\<lambda>r. \<not> p r) (fst tabs), filter (\<lambda>d. dl_recipient d \<notin> rp_id ` set gone) (snd tabs)))"

section \<open>Model: the dispatcher\<close>

record AlertDispatcher =
  ad_alerts :: "Alert list"
  ad_deliveries :: "Delivery list"
  ad_recipients :: "Recipient list"
  ad_currently_sending :: "string list"
  ad_resend_interval_s :: int
  ad_batch_size :: nat

text \<open>
  What a tick meets: the time of the claim; for each alert whether its recipients could be read, how
  long after the claim it is marked, and whether the mark succeeded; for each recipient what rendering
  and sending gave, and whether the delivery could be recorded.
\<close>

datatype send_outcome = SendRaised string | SendResult "string option" string "(string, pyval) pydict"

record tick_env =
  tk_now :: dtime
  tk_recipients_ok :: "string \<Rightarrow> bool"
  tk_mark_delay :: "string \<Rightarrow> nat"
  tk_mark_ok :: "string \<Rightarrow> bool"
  tk_send :: "string \<Rightarrow> string \<Rightarrow> send_outcome"
  tk_record_ok :: "string \<Rightarrow> string \<Rightarrow> bool"

definition delivery_of :: "Alert \<Rightarrow> int \<Rightarrow> string \<Rightarrow> send_outcome \<Rightarrow> Delivery" where
  "delivery_of a n rid out =
     (case out of
        SendRaised e \<Rightarrow>
          \<lparr>dl_alert = nt_id a, dl_recipient = rid, dl_notified_count = n, dl_channel = ''email'', dl_message_id = None,
           dl_status = ''failed'', dl_detail = [(''error'', PStr ''exception''), (''message'', PStr e)], dl_provider_updated_at = None\<rparr>
      | SendResult mid status detail \<Rightarrow>
          \<lparr>dl_alert = nt_id a, dl_recipient = rid, dl_notified_count = n, dl_channel = ''email'', dl_message_id = mid,
           dl_status = status, dl_detail = detail, dl_provider_updated_at = None\<rparr>)"

text \<open>The loop over the recipients; a delivery that cannot be recorded ends it.\<close>

fun deliver_all :: "tick_env \<Rightarrow> Alert \<Rightarrow> int \<Rightarrow> Recipient list \<Rightarrow> Delivery list \<Rightarrow> Delivery list" where
  "deliver_all env a n [] tab = tab"
| "deliver_all env a n (r # rs) tab =
     (if \<not> tk_record_ok env (nt_id a) (rp_id r) then tab
      else deliver_all env a n rs (snd (record_delivery (delivery_of a n (rp_id r) (tk_send env (nt_id a) (rp_id r))) tab)))"

definition send_and_record :: "tick_env \<Rightarrow> Alert \<Rightarrow> AlertDispatcher \<Rightarrow> AlertDispatcher" where
  "send_and_record env a d =
     (if \<not> tk_recipients_ok env (nt_id a) \<or> \<not> tk_mark_ok env (nt_id a) then d
      else let recipients = list_for_alert (nt_org a) (nt_type a) (nt_severity a) (ad_recipients d)
           in case mark_notified (tk_now env + int (tk_mark_delay env (nt_id a))) (nt_id a) (ad_alerts d) of
                (Inl e, tab) \<Rightarrow> d
              | (Inr n, tab) \<Rightarrow>
                  d\<lparr>ad_alerts := tab, ad_deliveries := deliver_all env a n recipients (ad_deliveries d)\<rparr>)"

definition process_alert :: "tick_env \<Rightarrow> AlertDispatcher \<Rightarrow> Alert \<Rightarrow> AlertDispatcher" where
  "process_alert env d a =
     (if nt_id a \<in> set (ad_currently_sending d) then d
      else let d1 = send_and_record env a (d\<lparr>ad_currently_sending := nt_id a # ad_currently_sending d\<rparr>)
           in d1\<lparr>ad_currently_sending := removeAll (nt_id a) (ad_currently_sending d1)\<rparr>)"

definition tick :: "tick_env \<Rightarrow> AlertDispatcher \<Rightarrow> nat \<times> AlertDispatcher" where
  "tick env d =
     (let claimed = claim_pending_alerts (ad_resend_interval_s d) (ad_batch_size d) (tk_now env) (ad_alerts d);
          pending = filter (\<lambda>a. nt_id a \<notin> set (ad_currently_sending d)) claimed
      in (length pending, foldl (process_alert env) d pending))"

section \<open>Model: a run of the pipeline\<close>

datatype alert_op =
    OpUpsert string dtime string "string option" string Severity string "(string, pyval) pydict" string
  | OpResolve dtime string string
  | OpAcknowledge dtime string string
  | OpAcknowledgeOrg bool dtime string string string "string option"
  | OpResolveId bool dtime string string "string option" "string option"
  | OpTick tick_env
  | OpDeliveryStatus dtime string string "(string, pyval) pydict"
  | OpCreateRecipient string string string "string option" "string list" Severity
  | OpUpdateRecipient string string "string option" "string list option" "Severity option" "bool option"
  | OpDeleteRecipient string string

fun alert_step :: "AlertDispatcher \<Rightarrow> alert_op \<Rightarrow> AlertDispatcher" where
  "alert_step d (OpUpsert fresh now org depot ty sev title detail key) =
     d\<lparr>ad_alerts := snd (upsert_alert fresh now org depot ty sev title detail key (ad_alerts d))\<rparr>"
| "alert_step d (OpResolve now org key) = d\<lparr>ad_alerts := snd (resolve_alert now org key (ad_alerts d))\<rparr>"
| "alert_step d (OpAcknowledge now aid user) = d\<lparr>ad_alerts := snd (acknowledge now aid user (ad_alerts d))\<rparr>"
| "alert_step d (OpAcknowledgeOrg em now aid org user email) =
     d\<lparr>ad_alerts := snd (acknowledge_for_org em now aid org user email (ad_alerts d))\<rparr>"
| "alert_step d (OpResolveId em now aid org user email) =
     d\<lparr>ad_alerts := snd (resolve_by_id em now aid org user email (ad_alerts d))\<rparr>"
| "alert_step d (OpTick env) = snd (tick env d)"
| "alert_step d (OpDeliveryStatus now mid status detail) =
     d\<lparr>ad_deliveries := snd (update_delivery_status now mid status detail (ad_deliveries d))\<rparr>"
| "alert_step d (OpCreateRecipient fresh org email display types sev) =
     d\<lparr>ad_recipients := snd (recipient_create fresh org email display types sev (ad_recipients d))\<rparr>"
| "alert_step d (OpUpdateRecipient rid org display types sev active) =
     d\<lparr>ad_recipients := snd (recipient_update rid org display types sev active (ad_recipients d))\<rparr>"
| "alert_step d (OpDeleteRecipient rid org) =
     (let r = recipient_delete rid org (ad_recipients d, ad_deliveries d)
      in d\<lparr>ad_recipients := fst (snd r), ad_deliveries := snd (snd r)\<rparr>)"

definition ad_init :: "int \<Rightarrow> nat \<Rightarrow> AlertDispatcher" where
  "ad_init resend_interval_s batch_size =
     \<lparr>ad_alerts = [], ad_deliveries = [], ad_recipients = [], ad_currently_sending = [],
      ad_resend_interval_s = resend_interval_s, ad_batch_size = batch_size\<rparr>"

section \<open>Lemmas: rows that evolve\<close>

fun status_rank :: "alert_status \<Rightarrow> nat" where
  "status_rank Active = 0"
| "status_rank Acknowledged = 1"
| "status_rank Resolved = 2"

definition row_ok :: "Alert \<Rightarrow> bool" where
  "row_ok a \<longleftrightarrow>
     (nt_status a = Resolved \<longleftrightarrow> nt_resolved_at a \<noteq> None) \<and> 1 \<le> nt_occurrence_count a \<and> 0 \<le> nt_last_notified_count a \<and>
     (nt_last_notified_count a = 0 \<longleftrightarrow> nt_last_notified_at a = None) \<and>
     (nt_status a = Acknowledged \<longrightarrow> nt_acknowledged_by a \<noteq> None \<and> nt_acknowledged_at a \<noteq> None)"

text \<open>What every statement on the table does to a row: it keeps its identity, moves its status forward
  only, never lowers its counter of notifications and keeps it consistent.\<close>

definition evolves :: "Alert \<Rightarrow> Alert \<Rightarrow> bool" where
  "evolves a b \<longleftrightarrow>
     nt_id b = nt_id a \<and> nt_org b = nt_org a \<and> nt_dedup_key b = nt_dedup_key a \<and>
     status_rank (nt_status a) \<le> status_rank (nt_status b) \<and> nt_last_notified_count a \<le> nt_last_notified_count b \<and>
     (row_ok a \<longrightarrow> row_ok b)"

definition tables_evolve :: "Alert list \<Rightarrow> Alert list \<Rightarrow> bool" where
  "tables_evolve = list_all2 evolves"

named_theorems alert_rows

lemma evolves_refl [simp]: "evolves a a"
  by (simp add: evolves_def)

lemma evolves_trans: "evolves a b \<Longrightarrow> evolves b c \<Longrightarrow> evolves a c"
  by (auto simp: evolves_def)

lemma tables_evolve_refl [simp]: "tables_evolve tab tab"
  by (simp add: tables_evolve_def list_all2_refl)

lemma tables_evolve_trans: "tables_evolve a b \<Longrightarrow> tables_evolve b c \<Longrightarrow> tables_evolve a c"
  unfolding tables_evolve_def by (rule list_all2_trans) (auto intro: evolves_trans)

lemma update_where_evolves: "(\<And>a. p a \<Longrightarrow> evolves a (f a)) \<Longrightarrow> tables_evolve tab (update_where p f tab)"
  by (induction tab) (auto simp: tables_evolve_def update_where_def)

lemma bump_evolves [alert_rows]: "evolves a (bump_alert now sev title detail a)"
  by (simp add: evolves_def bump_alert_def row_ok_def)

lemma resolve_evolves [alert_rows]: "evolves a (resolve_row now a)"
  by (cases "nt_status a") (auto simp: evolves_def resolve_row_def row_ok_def)

lemma acknowledge_evolves [alert_rows]: "nt_status a = Active \<Longrightarrow> evolves a (acknowledge_row now user a)"
  by (auto simp: evolves_def acknowledge_row_def row_ok_def)

lemma notify_evolves [alert_rows]: "evolves a (notify_row now a)"
  by (auto simp: evolves_def notify_row_def row_ok_def)

lemma resolve_alert_evolves [alert_rows]: "tables_evolve tab (snd (resolve_alert now org key tab))"
  by (simp add: resolve_alert_def update_where_evolves resolve_evolves)

lemma acknowledge_table_evolves [alert_rows]: "tables_evolve tab (snd (acknowledge now aid user tab))"
  unfolding acknowledge_def Let_def snd_conv by (rule update_where_evolves) (simp add: acknowledge_evolves)

lemma acknowledge_for_org_evolves [alert_rows]: "tables_evolve tab (snd (acknowledge_for_org em now aid org user email tab))"
  unfolding acknowledge_for_org_def Let_def snd_conv
  by (rule update_where_evolves) (auto simp: evolves_def acknowledge_row_def row_ok_def)

lemma resolve_by_id_evolves [alert_rows]: "tables_evolve tab (snd (resolve_by_id em now aid org user email tab))"
proof -
  have "status_rank s \<le> 2" for s by (cases s) simp_all
  then show ?thesis unfolding resolve_by_id_def Let_def snd_conv
    by (intro update_where_evolves) (auto simp: evolves_def resolve_row_def row_ok_def)
qed

lemma mark_notified_evolves [alert_rows]: "tables_evolve tab (snd (mark_notified now aid tab))"
  by (simp add: mark_notified_def update_where_evolves notify_evolves split: option.split)

lemma upsert_evolves [alert_rows]:
  "tables_evolve tab (take (length tab) (snd (upsert_alert fresh now org depot ty sev title detail key tab)))"
proof (cases "List.find (open_for org key) tab")
  case (Some a)
  have "length (update_where p f tab) = length tab" for p f by (simp add: update_where_def)
  with Some show ?thesis by (simp add: upsert_alert_def updated_row_def update_where_evolves bump_evolves)
qed (simp add: upsert_alert_def updated_row_def Let_def)

section \<open>Lemmas: the invariant\<close>

definition open_count :: "string \<Rightarrow> string \<Rightarrow> Alert list \<Rightarrow> nat" where
  "open_count org key tab = length (filter (open_for org key) tab)"

definition table_inv :: "Alert list \<Rightarrow> bool" where
  "table_inv tab \<longleftrightarrow> distinct (map nt_id tab) \<and> (\<forall>org key. open_count org key tab \<le> 1) \<and> (\<forall>a\<in>set tab. row_ok a)"

definition deliveries_inv :: "Alert list \<Rightarrow> Delivery list \<Rightarrow> bool" where
  "deliveries_inv tab ds \<longleftrightarrow>
     distinct (map delivery_key ds) \<and>
     (\<forall>d\<in>set ds. \<exists>a\<in>set tab. nt_id a = dl_alert d \<and> 1 \<le> dl_notified_count d \<and> dl_notified_count d \<le> nt_last_notified_count a)"

definition pipeline_inv :: "AlertDispatcher \<Rightarrow> bool" where
  "pipeline_inv d \<longleftrightarrow> table_inv (ad_alerts d) \<and> deliveries_inv (ad_alerts d) (ad_deliveries d) \<and> ad_currently_sending d = []"

lemma evolve_ids: "tables_evolve a b \<Longrightarrow> map nt_id b = map nt_id a"
  unfolding tables_evolve_def by (induction rule: list_all2_induct) (auto simp: evolves_def)

lemma evolve_open_count: "tables_evolve a b \<Longrightarrow> open_count org key b \<le> open_count org key a"
  unfolding tables_evolve_def
proof (induction rule: list_all2_induct)
  case (Cons a as b bs)
  have "open_for org key b \<Longrightarrow> open_for org key a"
    using Cons(1) by (cases "nt_status a"; cases "nt_status b") (auto simp: evolves_def open_for_def)
  with Cons show ?case by (auto simp: open_count_def)
qed (simp add: open_count_def)

lemma evolve_row: "tables_evolve tab tab' \<Longrightarrow> a \<in> set tab \<Longrightarrow> \<exists>b\<in>set tab'. evolves a b"
  unfolding tables_evolve_def by (induction rule: list_all2_induct) auto

lemma evolve_row_back: "tables_evolve tab tab' \<Longrightarrow> b \<in> set tab' \<Longrightarrow> \<exists>a\<in>set tab. evolves a b"
  unfolding tables_evolve_def by (induction rule: list_all2_induct) auto

lemma evolve_table_inv: "tables_evolve tab tab' \<Longrightarrow> table_inv tab \<Longrightarrow> table_inv tab'"
  using evolve_ids [of tab tab'] evolve_open_count [of tab tab'] evolve_row_back [of tab tab']
  unfolding table_inv_def by (metis evolves_def le_trans)

lemma evolve_deliveries_inv: "tables_evolve tab tab' \<Longrightarrow> deliveries_inv tab ds \<Longrightarrow> deliveries_inv tab' ds"
  using evolve_row [of tab tab'] unfolding deliveries_inv_def evolves_def by (metis order_trans)

lemma find_open_None: "List.find (open_for org key) tab = None \<Longrightarrow> open_count org key tab = 0"
  by (simp add: find_None_iff open_count_def filter_empty_conv)

lemma upsert_table_inv:
  assumes "table_inv tab"
  shows "table_inv (snd (upsert_alert fresh now org depot ty sev title detail key tab))"
proof (cases "List.find (open_for org key) tab")
  case (Some a)
  then show ?thesis
    using assms by (auto simp: upsert_alert_def updated_row_def intro: evolve_table_inv update_where_evolves bump_evolves)
next
  case None
  note none = find_open_None [OF None]
  have "open_count o' k' (tab @ [new_alert fresh now org depot ty sev title detail key]) \<le> 1" for o' k'
    using assms none by (auto simp: table_inv_def open_count_def open_for_def new_alert_def)
  moreover have "row_ok (new_alert fresh now org depot ty sev title detail key)" by (simp add: row_ok_def new_alert_def)
  ultimately show ?thesis
    using assms None by (auto simp: upsert_alert_def updated_row_def Let_def table_inv_def new_alert_def)
qed

lemma upsert_deliveries_inv:
  assumes "deliveries_inv tab ds"
  shows "deliveries_inv (snd (upsert_alert fresh now org depot ty sev title detail key tab)) ds"
proof -
  let ?tab = "snd (upsert_alert fresh now org depot ty sev title detail key tab)"
  have "deliveries_inv (take (length tab) ?tab) ds" using assms evolve_deliveries_inv upsert_evolves by blast
  then show ?thesis unfolding deliveries_inv_def by (meson in_set_takeD)
qed

lemma record_delivery_inv:
  assumes "deliveries_inv tab ds" and "\<exists>a\<in>set tab. nt_id a = dl_alert d \<and> 1 \<le> dl_notified_count d \<and> dl_notified_count d \<le> nt_last_notified_count a"
  shows "deliveries_inv tab (snd (record_delivery d ds))"
  using assms by (auto simp: deliveries_inv_def record_delivery_def)

lemma delivery_of_fields [simp]:
  "dl_alert (delivery_of a n rid out) = nt_id a" "dl_recipient (delivery_of a n rid out) = rid" "dl_notified_count (delivery_of a n rid out) = n"
  by (simp_all add: delivery_of_def split: send_outcome.split)

lemma deliver_all_inv:
  assumes "deliveries_inv tab ds" and "\<exists>b\<in>set tab. nt_id b = nt_id a \<and> 1 \<le> n \<and> n \<le> nt_last_notified_count b"
  shows "deliveries_inv tab (deliver_all env a n rs ds)"
  using assms(1)
proof (induction rs arbitrary: ds)
  case (Cons r rs)
  then show ?case using record_delivery_inv [of tab ds "delivery_of a n (rp_id r) (tk_send env (nt_id a) (rp_id r))"] assms(2) by simp
qed simp

lemma mark_notified_row:
  assumes "table_inv tab" and "mark_notified now aid tab = (Inr n, tab')"
  shows "\<exists>b\<in>set tab'. nt_id b = aid \<and> 1 \<le> n \<and> n \<le> nt_last_notified_count b"
proof -
  obtain a where a: "List.find (\<lambda>a. nt_id a = aid) tab = Some a" and n: "n = nt_last_notified_count (notify_row now a)"
    and tab': "tab' = update_where (\<lambda>a. nt_id a = aid) (notify_row now) tab"
    using assms(2) by (auto simp: mark_notified_def updated_row_def split: option.splits)
  from a have "a \<in> set tab" "nt_id a = aid" by (auto simp: find_Some_iff)
  moreover from this assms(1) have "0 \<le> nt_last_notified_count a" by (auto simp: table_inv_def row_ok_def)
  ultimately show ?thesis
    using n tab' by (intro bexI [of _ "notify_row now a"]) (auto simp: notify_row_def update_where_def)
qed

lemma send_and_record_inv:
  assumes "table_inv (ad_alerts d)" and "deliveries_inv (ad_alerts d) (ad_deliveries d)"
  shows "table_inv (ad_alerts (send_and_record env a d)) \<and> deliveries_inv (ad_alerts (send_and_record env a d)) (ad_deliveries (send_and_record env a d)) \<and>
     ad_currently_sending (send_and_record env a d) = ad_currently_sending d"
proof -
  obtain r tab where m: "mark_notified (tk_now env + int (tk_mark_delay env (nt_id a))) (nt_id a) (ad_alerts d) = (r, tab)" by fastforce
  have "tables_evolve (ad_alerts d) tab" using mark_notified_evolves [of "ad_alerts d"] m by (metis snd_conv)
  then have tab: "table_inv tab" "deliveries_inv tab (ad_deliveries d)"
    using assms evolve_table_inv evolve_deliveries_inv by blast+
  then have "r = Inr n \<Longrightarrow> deliveries_inv tab (deliver_all env a n rs (ad_deliveries d))" for n rs
    using deliver_all_inv mark_notified_row [OF assms(1)] m by blast
  with assms tab show ?thesis by (auto simp: send_and_record_def m Let_def split: sum.split)
qed

lemma process_alert_inv: "pipeline_inv d \<Longrightarrow> pipeline_inv (process_alert env d a)"
  using send_and_record_inv [of "d\<lparr>ad_currently_sending := nt_id a # ad_currently_sending d\<rparr>" env a]
  by (simp add: pipeline_inv_def process_alert_def Let_def)

lemma tick_inv: "pipeline_inv d \<Longrightarrow> pipeline_inv (snd (tick env d))"
proof -
  have "pipeline_inv d \<Longrightarrow> pipeline_inv (foldl (process_alert env) d as)" for as
    by (induction as arbitrary: d) (simp_all add: process_alert_inv)
  then show "pipeline_inv d \<Longrightarrow> pipeline_inv (snd (tick env d))" by (simp add: tick_def Let_def)
qed

lemma evolve_pipeline_inv: "pipeline_inv d \<Longrightarrow> tables_evolve (ad_alerts d) tab \<Longrightarrow> pipeline_inv (d\<lparr>ad_alerts := tab\<rparr>)"
  using evolve_table_inv evolve_deliveries_inv by (auto simp: pipeline_inv_def)

lemma delivery_status_inv: "deliveries_inv tab ds \<Longrightarrow> deliveries_inv tab (snd (update_delivery_status now mid status detail ds))"
proof -
  have key: "map delivery_key (update_where p (\<lambda>d. d\<lparr>dl_status := status, dl_detail := detail, dl_provider_updated_at := Some now\<rparr>) ds) =
      map delivery_key ds" for p
    by (simp add: update_where_def delivery_key_def)
  show "deliveries_inv tab ds \<Longrightarrow> ?thesis"
    unfolding deliveries_inv_def update_delivery_status_def Let_def snd_conv key by (auto simp: update_where_def)
qed

lemma status_inv:
  "pipeline_inv d \<Longrightarrow> pipeline_inv (d\<lparr>ad_deliveries := snd (update_delivery_status now mid status detail (ad_deliveries d))\<rparr>)"
  by (simp add: pipeline_inv_def delivery_status_inv)

lemma recipients_inv: "pipeline_inv d \<Longrightarrow> pipeline_inv (d\<lparr>ad_recipients := rs\<rparr>)"
  by (simp add: pipeline_inv_def)

lemma alert_step_inv: "pipeline_inv d \<Longrightarrow> pipeline_inv (alert_step d op)"
proof (cases op)
  case (OpDeleteRecipient rid org)
  have "deliveries_inv tab ds \<Longrightarrow> deliveries_inv tab (filter p ds)" for tab ds p
    by (auto simp: deliveries_inv_def distinct_map_filter)
  with OpDeleteRecipient show "pipeline_inv d \<Longrightarrow> ?thesis" by (simp add: pipeline_inv_def recipient_delete_def Let_def)
next
  case (OpUpsert fresh now org depot ty sev title detail key)
  then show "pipeline_inv d \<Longrightarrow> ?thesis" by (simp add: pipeline_inv_def upsert_table_inv upsert_deliveries_inv)
qed (simp_all add: evolve_pipeline_inv tick_inv recipients_inv status_inv alert_rows)

lemma ad_init_inv: "pipeline_inv (ad_init i b)"
  by (simp add: ad_init_def pipeline_inv_def table_inv_def deliveries_inv_def open_count_def)

interpretation pipeline: invariant_machine "\<lambda>d. \<exists>i b. d = ad_init i b" alert_step pipeline_inv
  by unfold_locales (auto intro: alert_step_inv ad_init_inv)

section \<open>Lemmas: the times of the notifications\<close>

text \<open>When an alert was last notified, and how often.\<close>

definition notified_at :: "string \<Rightarrow> Alert list \<Rightarrow> dtime option" where
  "notified_at x tab = Option.bind (alert_get_by_id x tab) nt_last_notified_at"

definition notify_state :: "string \<Rightarrow> Alert list \<Rightarrow> (dtime option \<times> int) option" where
  "notify_state x tab = map_option (\<lambda>a. (nt_last_notified_at a, nt_last_notified_count a)) (alert_get_by_id x tab)"

text \<open>A statement that leaves the notification fields of every row alone.\<close>

lemma get_update_where:
  assumes "\<And>a. nt_id (f a) = nt_id a"
  shows "alert_get_by_id x (update_where p f tab) =
     map_option (\<lambda>a. if p a then f a else a) (alert_get_by_id x tab)"
  using assms by (induction tab) (auto simp: alert_get_by_id_def update_where_def)

lemma update_where_notify_state:
  assumes "\<And>a. nt_id (f a) = nt_id a" "\<And>a. nt_last_notified_at (f a) = nt_last_notified_at a"
    "\<And>a. nt_last_notified_count (f a) = nt_last_notified_count a"
  shows "notify_state x (update_where p f tab) = notify_state x tab"
  using get_update_where [of f, OF assms(1)] assms(2,3)
  by (cases "alert_get_by_id x tab") (auto simp: notify_state_def)

lemma notified_at_state: "notified_at x tab = Option.bind (notify_state x tab) fst"
  by (cases "alert_get_by_id x tab") (simp_all add: notified_at_def notify_state_def)

lemma mark_notified_state:
  "notify_state x (snd (mark_notified now y tab)) =
     (if x = y then map_option (\<lambda>(t, n). (Some now, n + 1)) (notify_state x tab) else notify_state x tab)"
proof (cases "alert_get_by_id y tab")
  case None
  then show ?thesis by (auto simp: mark_notified_def updated_row_def alert_get_by_id_def notify_state_def)
next
  case (Some a)
  then have "snd (mark_notified now y tab) = update_where (\<lambda>a. nt_id a = y) (notify_row now) tab"
    by (auto simp: mark_notified_def updated_row_def alert_get_by_id_def)
  moreover have "alert_get_by_id x tab = Some b \<Longrightarrow> nt_id b = x" for b by (auto simp: alert_get_by_id_def find_Some_iff)
  ultimately show ?thesis
    using get_update_where [of "notify_row now" x "\<lambda>a. nt_id a = y" tab]
    by (cases "alert_get_by_id x tab") (auto simp: notify_state_def notify_row_def)
qed

text \<open>Whether an alert that is processed gets marked.\<close>

definition marks :: "tick_env \<Rightarrow> string \<Rightarrow> bool" where
  "marks env x \<longleftrightarrow> tk_recipients_ok env x \<and> tk_mark_ok env x"

definition mark_time :: "tick_env \<Rightarrow> string \<Rightarrow> dtime" where
  "mark_time env x = tk_now env + int (tk_mark_delay env x)"

lemma send_and_record_alerts:
  "ad_alerts (send_and_record env a d) =
     (if marks env (nt_id a) then snd (mark_notified (mark_time env (nt_id a)) (nt_id a) (ad_alerts d)) else ad_alerts d)"
  by (auto simp: send_and_record_def marks_def mark_time_def mark_notified_def Let_def split: prod.split sum.split option.split)

lemma process_alert_alerts:
  "ad_currently_sending d = [] \<Longrightarrow> ad_alerts (process_alert env d a) =
     (if marks env (nt_id a) then snd (mark_notified (mark_time env (nt_id a)) (nt_id a) (ad_alerts d)) else ad_alerts d)"
  by (simp add: process_alert_def Let_def send_and_record_alerts)

lemma process_frame:
  "ad_resend_interval_s (process_alert env d a) = ad_resend_interval_s d" "ad_batch_size (process_alert env d a) = ad_batch_size d"
  by (auto simp: process_alert_def send_and_record_def Let_def split: prod.split sum.split)

lemma process_sending: "ad_currently_sending d = [] \<Longrightarrow> ad_currently_sending (process_alert env d a) = []"
  by (auto simp: process_alert_def send_and_record_def Let_def split: prod.split sum.split)

lemma processed_state:
  assumes "ad_currently_sending d = []" "distinct (map nt_id as)"
  shows "notify_state x (ad_alerts (foldl (process_alert env) d as)) =
     (if x \<in> nt_id ` set as \<and> marks env x then map_option (\<lambda>(t, n). (Some (mark_time env x), n + 1)) (notify_state x (ad_alerts d))
      else notify_state x (ad_alerts d))"
  using assms
proof (induction as arbitrary: d)
  case (Cons a as)
  have "x = nt_id a \<Longrightarrow> x \<notin> nt_id ` set as" using Cons.prems(2) by auto
  moreover have "notify_state x (ad_alerts (process_alert env d a)) =
      (if x = nt_id a \<and> marks env x then map_option (\<lambda>(t, n). (Some (mark_time env x), n + 1)) (notify_state x (ad_alerts d))
       else notify_state x (ad_alerts d))"
    using Cons.prems(1) by (auto simp: process_alert_alerts mark_notified_state)
  ultimately show ?case using Cons.IH [OF process_sending [OF Cons.prems(1), of env a]] Cons.prems(2) by auto
qed simp

lemma foldl_process_frame:
  "ad_resend_interval_s (foldl (process_alert env) d as) = ad_resend_interval_s d"
  "ad_batch_size (foldl (process_alert env) d as) = ad_batch_size d"
  by (induction as arbitrary: d) (simp_all add: process_frame)

text \<open>How often an alert was notified; a step of the pipeline fires when it notifies the alert once more.\<close>

definition notified_count :: "string \<Rightarrow> Alert list \<Rightarrow> int" where
  "notified_count x tab = (case alert_get_by_id x tab of None \<Rightarrow> 0 | Some a \<Rightarrow> nt_last_notified_count a)"

definition notifying_step :: "string \<Rightarrow> AlertDispatcher \<Rightarrow> alert_op \<Rightarrow> bool \<times> AlertDispatcher" where
  "notifying_step x d op =
     (notified_count x (ad_alerts (alert_step d op)) \<noteq> notified_count x (ad_alerts d), alert_step d op)"

fun op_time :: "string \<Rightarrow> alert_op \<Rightarrow> dtime" where
  "op_time x (OpTick env) = mark_time env x"
| "op_time x _ = 0"

lemma notified_count_state: "notified_count x tab = (case notify_state x tab of None \<Rightarrow> 0 | Some (t, n) \<Rightarrow> n)"
  by (cases "alert_get_by_id x tab") (simp_all add: notified_count_def notify_state_def)

lemmas notified_by_state = notified_at_state notified_count_state

text \<open>The statements other than the dispatcher's mark leave both alone.\<close>

lemma get_append: "alert_get_by_id x (tab @ [a]) = (case alert_get_by_id x tab of None \<Rightarrow> if nt_id a = x then Some a else None | Some b \<Rightarrow> Some b)"
  by (induction tab) (simp_all add: alert_get_by_id_def)

lemma bump_state: "notify_state x (update_where p (bump_alert now sev title detail) tab) = notify_state x tab"
  by (rule update_where_notify_state) (simp_all add: bump_alert_def)

lemma new_notified:
  "notified_at x (tab @ [new_alert fresh now org depot ty sev title detail key]) = notified_at x tab"
  "notified_count x (tab @ [new_alert fresh now org depot ty sev title detail key]) = notified_count x tab"
  by (cases "alert_get_by_id x tab"; simp add: notified_at_def notified_count_def get_append new_alert_def)+

lemma upsert_notified:
  "notified_at x (snd (upsert_alert fresh now org depot ty sev title detail key tab)) = notified_at x tab \<and>
   notified_count x (snd (upsert_alert fresh now org depot ty sev title detail key tab)) = notified_count x tab"
proof (cases "updated_row (open_for org key) (bump_alert now sev title detail) tab")
  case None
  then show ?thesis by (simp add: upsert_alert_def Let_def new_notified)
next
  case (Some a)
  then show ?thesis by (simp add: upsert_alert_def notified_by_state bump_state)
qed

lemma row_updates_state:
  "notify_state x (snd (resolve_alert now org key tab)) = notify_state x tab"
  "notify_state x (snd (acknowledge now aid user tab)) = notify_state x tab"
  "notify_state x (snd (acknowledge_for_org em now aid org user email tab)) = notify_state x tab"
  "notify_state x (snd (resolve_by_id em now aid org user' email tab)) = notify_state x tab"
  unfolding resolve_alert_def acknowledge_def acknowledge_for_org_def resolve_by_id_def Let_def snd_conv
  by (rule update_where_notify_state; simp add: resolve_row_def acknowledge_row_def)+

text \<open>A tick: the rows it claims are rows of the table, due, and distinct.\<close>

lemma set_ranked [simp]: "set (ranked rows) = set rows" and length_ranked [simp]: "length (ranked rows) = length rows"
  by (simp_all add: ranked_def)

lemma claimed_due: "a \<in> set (claim_pending_alerts i l now tab) \<Longrightarrow> a \<in> set tab \<and> due i now a"
  by (auto simp: claim_pending_alerts_def dest: in_set_takeD)

lemma claimed_distinct:
  assumes "distinct (map nt_id tab)"
  shows "distinct (map nt_id (claim_pending_alerts i l now tab))"
proof -
  have "distinct (map nt_id (ranked (filter p tab)))" for p
    using assms by (auto simp: ranked_def distinct_map inj_on_def)
  then show ?thesis by (simp add: claim_pending_alerts_def take_map flip: take_map)
qed

lemma get_row: "distinct (map nt_id tab) \<Longrightarrow> a \<in> set tab \<Longrightarrow> alert_get_by_id (nt_id a) tab = Some a"
  by (induction tab) (auto simp: alert_get_by_id_def)

abbreviation claimed :: "tick_env \<Rightarrow> AlertDispatcher \<Rightarrow> Alert list" where
  "claimed env d \<equiv> claim_pending_alerts (ad_resend_interval_s d) (ad_batch_size d) (tk_now env) (ad_alerts d)"

lemma tick_state:
  assumes "pipeline_inv d"
  shows "notify_state x (ad_alerts (snd (tick env d))) =
     (if x \<in> nt_id ` set (claimed env d) \<and> marks env x
      then map_option (\<lambda>(t, n). (Some (mark_time env x), n + 1)) (notify_state x (ad_alerts d))
      else notify_state x (ad_alerts d))"
  using assms processed_state [of d "claimed env d" x env] claimed_distinct
  by (simp add: pipeline_inv_def table_inv_def tick_def Let_def)

lemma tick_frame:
  "ad_resend_interval_s (snd (tick env d)) = ad_resend_interval_s d" "ad_batch_size (snd (tick env d)) = ad_batch_size d"
  by (simp_all add: tick_def Let_def foldl_process_frame)

lemma claimed_state:
  assumes "pipeline_inv d" "x \<in> nt_id ` set (claimed env d)"
  shows "\<exists>a. alert_get_by_id x (ad_alerts d) = Some a \<and> due (ad_resend_interval_s d) (tk_now env) a"
  using assms claimed_due get_row by (fastforce simp: pipeline_inv_def table_inv_def)

definition notifies :: "string \<Rightarrow> AlertDispatcher \<Rightarrow> alert_op \<Rightarrow> bool" where
  "notifies x d op = (case op of OpTick env \<Rightarrow> x \<in> nt_id ` set (claimed env d) \<and> marks env x | _ \<Rightarrow> False)"

lemma step_notified:
  assumes "pipeline_inv d"
  shows "notified_at x (ad_alerts (alert_step d op)) = (if notifies x d op then Some (op_time x op) else notified_at x (ad_alerts d)) \<and>
    notified_count x (ad_alerts (alert_step d op)) = notified_count x (ad_alerts d) + (if notifies x d op then 1 else 0)"
proof (cases op)
  case (OpTick env)
  show ?thesis
  proof (cases "notifies x d op")
    case True
    with claimed_state [OF assms, of x env] OpTick obtain a where "alert_get_by_id x (ad_alerts d) = Some a" by (auto simp: notifies_def)
    with True OpTick tick_state [OF assms, of x env] show ?thesis
      by (simp add: notified_by_state notifies_def) (simp add: notify_state_def)
  next
    case False
    with OpTick tick_state [OF assms, of x env] have "notify_state x (ad_alerts (snd (tick env d))) = notify_state x (ad_alerts d)"
      by (auto simp: notifies_def)
    with OpTick False show ?thesis by (simp add: notified_by_state)
  qed
next
  case (OpUpsert fresh now org depot ty sev title detail key)
  then show ?thesis using upsert_notified [of x] by (simp add: notifies_def)
qed (simp_all add: notifies_def notified_by_state row_updates_state Let_def)

lemma step_fires: "pipeline_inv d \<Longrightarrow> fst (notifying_step x d op) = notifies x d op"
  using step_notified [of d x op] by (simp add: notifying_step_def)

lemma notifies_spaced:
  assumes "pipeline_inv d" "notifies x d op" "notified_at x (ad_alerts d) = Some t"
  shows "ad_resend_interval_s d * usec_per_sec \<le> op_time x op - t"
proof -
  obtain env where op: "op = OpTick env" and x: "x \<in> nt_id ` set (claimed env d)"
    using assms(2) by (auto simp: notifies_def split: alert_op.splits)
  with claimed_state [OF assms(1) x] assms(3) show ?thesis by (auto simp: notified_at_def due_def mark_time_def)
qed

interpretation notifications: guarded_events pipeline_inv "notifying_step x" "op_time x"
    "\<lambda>d. notified_at x (ad_alerts d)" "\<lambda>d. ad_resend_interval_s d * usec_per_sec" for x
proof
  fix d op t
  assume inv: "pipeline_inv d"
  then show "pipeline_inv (snd (notifying_step x d op))" by (simp add: notifying_step_def alert_step_inv)
  show "ad_resend_interval_s (snd (notifying_step x d op)) * usec_per_sec = ad_resend_interval_s d * usec_per_sec"
    by (cases op) (simp_all add: notifying_step_def tick_frame Let_def)
  show "notified_at x (ad_alerts (snd (notifying_step x d op))) =
      (if fst (notifying_step x d op) then Some (op_time x op) else notified_at x (ad_alerts d))"
    using step_notified [OF inv, of x op] step_fires [OF inv, of x op] by (simp add: notifying_step_def)
  show "ad_resend_interval_s d * usec_per_sec \<le> op_time x op - t"
    if "notified_at x (ad_alerts d) = Some t" "fst (notifying_step x d op)"
    using notifies_spaced [OF inv] that step_fires [OF inv] by blast
qed

section \<open>Lemmas: a backlog is worked off\<close>

text \<open>What a tick does to the table, row by row.\<close>

lemma mark_notified_table: "snd (mark_notified now y tab) = update_where (\<lambda>a. nt_id a = y) (notify_row now) tab"
proof (cases "List.find (\<lambda>a. nt_id a = y) tab")
  case None
  then have "nt_id a \<noteq> y" if "a \<in> set tab" for a using that by (auto simp: find_None_iff)
  with None show ?thesis by (simp add: mark_notified_def updated_row_def update_where_def map_idI)
qed (simp add: mark_notified_def updated_row_def)

definition ticked :: "tick_env \<Rightarrow> string set \<Rightarrow> Alert \<Rightarrow> Alert" where
  "ticked env ids a = (if nt_id a \<in> ids \<and> marks env (nt_id a) then notify_row (mark_time env (nt_id a)) a else a)"

lemma nt_id_ticked [simp]: "nt_id (ticked env ids a) = nt_id a"
  by (simp add: ticked_def notify_row_def)

lemma processed_table:
  assumes "ad_currently_sending d = []" "distinct (map nt_id as)"
  shows "ad_alerts (foldl (process_alert env) d as) = map (ticked env (nt_id ` set as)) (ad_alerts d)"
  using assms
proof (induction as arbitrary: d)
  case (Cons a as)
  have one: "ad_alerts (process_alert env d a) = map (ticked env {nt_id a}) (ad_alerts d)"
  proof (cases "marks env (nt_id a)")
    case True
    with Cons.prems(1) show ?thesis by (auto simp: process_alert_alerts mark_notified_table update_where_def ticked_def)
  next
    case False
    then have "ticked env {nt_id a} = (\<lambda>b. b)" by (auto simp: ticked_def fun_eq_iff)
    with False Cons.prems(1) show ?thesis by (simp add: process_alert_alerts)
  qed
  have two: "ticked env (nt_id ` set as) (ticked env {nt_id a} b) = ticked env (nt_id ` set (a # as)) b" for b
    using Cons.prems(2) by (auto simp: ticked_def notify_row_def)
  show ?case using Cons.IH [OF process_sending [OF Cons.prems(1), of env a]] Cons.prems(2) by (simp add: one two o_def)
qed (simp add: ticked_def map_idI)

lemma tick_table:
  "pipeline_inv d \<Longrightarrow> ad_alerts (snd (tick env d)) = map (ticked env (nt_id ` set (claimed env d))) (ad_alerts d)"
  using processed_table [of d "claimed env d" env] claimed_distinct
  by (simp add: pipeline_inv_def table_inv_def tick_def Let_def)

text \<open>The rows the backlog at a time holds at most: active and not notified since.\<close>

definition stale :: "dtime \<Rightarrow> Alert \<Rightarrow> bool" where
  "stale t a \<longleftrightarrow> nt_status a = Active \<and> (case nt_last_notified_at a of None \<Rightarrow> True | Some u \<Rightarrow> u < t)"

definition backlog :: "dtime \<Rightarrow> AlertDispatcher \<Rightarrow> nat" where
  "backlog t d = length (filter (stale t) (ad_alerts d))"

lemma due_stale: "due i now a \<Longrightarrow> now - i * usec_per_sec \<le> t \<Longrightarrow> stale t a"
  by (auto simp: due_def stale_def split: option.splits)

lemma due_later: "due i now a \<Longrightarrow> now \<le> now' \<Longrightarrow> due i now' a"
  by (auto simp: due_def split: option.splits)

lemma ticked_fresh: "nt_id a \<in> ids \<Longrightarrow> marks env (nt_id a) \<Longrightarrow> t \<le> tk_now env \<Longrightarrow> \<not> stale t (ticked env ids a)"
  by (simp add: ticked_def stale_def notify_row_def mark_time_def)

lemma tick_backlog:
  assumes inv: "pipeline_inv d" and marks: "\<And>x. marks env x"
    and now: "t \<le> tk_now env" "tk_now env - ad_resend_interval_s d * usec_per_sec \<le> t"
  shows "backlog t d = backlog t (snd (tick env d)) + length (claimed env d)"
proof -
  let ?ids = "nt_id ` set (claimed env d)" and ?tab = "ad_alerts d"
  have dist: "distinct ?tab" "inj_on nt_id (set ?tab)" "distinct (claimed env d)"
    using inv claimed_distinct by (auto simp: pipeline_inv_def table_inv_def distinct_map)
  have "set (filter (\<lambda>a. stale t a \<and> nt_id a \<in> ?ids) ?tab) = set (claimed env d)"
  proof (intro equalityI subsetI)
    fix a assume "a \<in> set (claimed env d)"
    then show "a \<in> set (filter (\<lambda>a. stale t a \<and> nt_id a \<in> ?ids) ?tab)"
      using claimed_due [of a] due_stale [OF _ now(2)] by simp
  next
    fix a assume "a \<in> set (filter (\<lambda>a. stale t a \<and> nt_id a \<in> ?ids) ?tab)"
    then obtain b where "b \<in> set (claimed env d)" "nt_id a = nt_id b" "a \<in> set ?tab" by auto
    then show "a \<in> set (claimed env d)" using claimed_due [of b] dist(2) by (metis inj_onD)
  qed
  then have "card (set (filter (\<lambda>a. stale t a \<and> nt_id a \<in> ?ids) ?tab)) = card (set (claimed env d))" by (rule arg_cong)
  then have in_claim: "length (filter (\<lambda>a. stale t a \<and> nt_id a \<in> ?ids) ?tab) = length (claimed env d)"
    using dist(1,3) by (simp only: distinct_card distinct_filter)
  have "stale t (ticked env ?ids a) \<longleftrightarrow> stale t a \<and> nt_id a \<notin> ?ids" for a
    using ticked_fresh [of a ?ids env t, OF _ marks now(1)] by (cases "nt_id a \<in> ?ids") (simp_all add: ticked_def)
  then have after: "backlog t (snd (tick env d)) = length (filter (\<lambda>a. stale t a \<and> nt_id a \<notin> ?ids) ?tab)"
    by (simp add: backlog_def tick_table [OF inv] filter_map o_def)
  have "length (filter (stale t) ?tab) =
      length (filter (\<lambda>a. nt_id a \<in> ?ids) (filter (stale t) ?tab)) + length (filter (\<lambda>a. nt_id a \<notin> ?ids) (filter (stale t) ?tab))"
    by (rule sum_length_filter_compl [symmetric])
  then show ?thesis using in_claim after by (simp add: backlog_def conj_commute)
qed

lemma unclaimed_full:
  assumes "a \<in> set tab" "due i now a" "a \<notin> set (claim_pending_alerts i l now tab)"
  shows "length (claim_pending_alerts i l now tab) = l"
proof (rule ccontr)
  assume "length (claim_pending_alerts i l now tab) \<noteq> l"
  then have "claim_pending_alerts i l now tab = ranked (filter (due i now) tab)" by (auto simp: claim_pending_alerts_def)
  with assms show False by simp
qed

fun is_tick :: "alert_op \<Rightarrow> bool" where
  "is_tick (OpTick env) = True"
| "is_tick _ = False"

fun is_upsert :: "alert_op \<Rightarrow> bool" where
  "is_upsert (OpUpsert fresh now org depot ty sev title detail key) = True"
| "is_upsert _ = False"

definition tick_ok :: "dtime \<Rightarrow> int \<Rightarrow> alert_op \<Rightarrow> bool" where
  "tick_ok t i op \<longleftrightarrow> (\<forall>env. op = OpTick env \<longrightarrow> t \<le> tk_now env \<and> tk_now env \<le> t + i * usec_per_sec \<and> (\<forall>y. marks env y))"

text \<open>An operation other than a tick does not notify: a row stays as stale as it was or leaves the backlog, and only an upsert adds
  one.\<close>

definition quiet :: "Alert \<Rightarrow> Alert \<Rightarrow> bool" where
  "quiet a b \<longleftrightarrow> nt_id b = nt_id a \<and> nt_last_notified_at b = nt_last_notified_at a \<and> (nt_status b = Active \<longrightarrow> nt_status a = Active)"

lemma update_where_quiet: "(\<And>a. p a \<Longrightarrow> quiet a (f a)) \<Longrightarrow> list_all2 quiet tab (update_where p f tab)"
  by (induction tab) (auto simp: update_where_def quiet_def)

lemma quiet_step:
  assumes "\<not> is_tick op"
  obtains tab rest where "ad_alerts (alert_step d op) = tab @ rest" "list_all2 quiet (ad_alerts d) tab" "length rest \<le> (if is_upsert op then 1 else 0)"
proof (cases "is_upsert op")
  case True
  then obtain fresh now org depot ty sev title detail key where op: "op = OpUpsert fresh now org depot ty sev title detail key"
    by (cases op) auto
  have same: "list_all2 quiet (ad_alerts d) (ad_alerts d)" by (rule list.rel_refl) (simp add: quiet_def)
  have bump: "list_all2 quiet (ad_alerts d) (update_where (open_for org key) (bump_alert now sev title detail) (ad_alerts d))"
    by (rule update_where_quiet) (simp add: quiet_def bump_alert_def)
  show thesis
  proof (cases "updated_row (open_for org key) (bump_alert now sev title detail) (ad_alerts d)")
    case (Some a)
    with bump op show thesis by (intro that [of _ "[]"]) (simp_all add: upsert_alert_def)
  next
    case None
    with same op show thesis
      by (cases "fresh \<in> nt_id ` set (ad_alerts d)") (auto intro: that [of "ad_alerts d" "[]"] that [of "ad_alerts d"] simp: upsert_alert_def Let_def)
  qed
next
  case False
  have "list_all2 quiet (ad_alerts d) (ad_alerts (alert_step d op))"
    using False assms
    by (cases op) (auto simp: resolve_alert_def acknowledge_def acknowledge_for_org_def resolve_by_id_def Let_def quiet_def resolve_row_def
        acknowledge_row_def intro!: update_where_quiet list.rel_refl)
  with False show thesis by (intro that [of _ "[]"]) simp_all
qed

lemma quiet_backlog: "list_all2 quiet tab tab' \<Longrightarrow> length (filter (stale t) tab') \<le> length (filter (stale t) tab)"
  by (induction rule: list_all2_induct) (auto simp: quiet_def stale_def)

lemma quiet_row: "list_all2 quiet tab tab' \<Longrightarrow> a \<in> set tab \<Longrightarrow> \<exists>b\<in>set tab'. quiet a b"
  by (induction rule: list_all2_induct) auto

lemma notified_since_kept:
  assumes "pipeline_inv d" "t \<le> u" "notified_at x (ad_alerts d) = Some u" "\<forall>op\<in>set ops. tick_ok t i op"
  shows "\<exists>v\<ge>t. notified_at x (ad_alerts (run_steps alert_step d ops)) = Some v"
  using assms
proof (induction ops arbitrary: d u)
  case (Cons op ops)
  have "\<exists>v\<ge>t. notified_at x (ad_alerts (alert_step d op)) = Some v"
    using step_notified [OF Cons.prems(1), of x op] Cons.prems(2,3,4)
    by (cases op) (auto simp: mark_time_def notifies_def tick_ok_def)
  with Cons.IH [OF alert_step_inv [OF Cons.prems(1), of op]] Cons.prems(4) show ?case by auto
qed auto

lemma backlog_tick:
  assumes inv: "pipeline_inv d" and a: "alert_get_by_id x (ad_alerts d) = Some a" "due (ad_resend_interval_s d) t a"
    and tick: "tick_ok t (ad_resend_interval_s d) (OpTick env)"
  obtains (notified) v where "t \<le> v" "notified_at x (ad_alerts (alert_step d (OpTick env))) = Some v"
  | (waits) "backlog t (snd (tick env d)) + ad_batch_size d = backlog t d" "alert_get_by_id x (ad_alerts (snd (tick env d))) = Some a"
proof -
  have now: "t \<le> tk_now env" "tk_now env - ad_resend_interval_s d * usec_per_sec \<le> t" and mk: "marks env y" for y
    using tick by (auto simp: tick_ok_def)
  from a(1) have row: "a \<in> set (ad_alerts d)" "nt_id a = x" by (auto simp: alert_get_by_id_def find_Some_iff)
  show thesis
  proof (cases "x \<in> nt_id ` set (claimed env d)")
    case True
    with mk have "notified_at x (ad_alerts (alert_step d (OpTick env))) = Some (mark_time env x)"
      using step_notified [OF inv, of x "OpTick env"] by (simp add: notifies_def)
    moreover have "t \<le> mark_time env x" using now(1) by (simp add: mark_time_def)
    ultimately show thesis by (intro notified)
  next
    case False
    then have "length (claimed env d) = ad_batch_size d"
      using unclaimed_full [OF row(1) due_later [OF a(2) now(1)]] row(2) by blast
    then have "backlog t (snd (tick env d)) + ad_batch_size d = backlog t d" using tick_backlog [OF inv mk now] by simp
    moreover have "alert_get_by_id x (ad_alerts (snd (tick env d))) = Some a"
      using get_row [of "ad_alerts (snd (tick env d))" a] row False inv tick_inv [OF inv, of env]
      by (force simp: tick_table pipeline_inv_def table_inv_def ticked_def)
    ultimately show thesis by (rule waits)
  qed
qed

lemma step_settings: "ad_resend_interval_s (alert_step d op) = ad_resend_interval_s d" "ad_batch_size (alert_step d op) = ad_batch_size d"
  by (cases op; simp add: tick_frame Let_def)+

lemma backlog_notified:
  assumes "pipeline_inv d" "alert_get_by_id x (ad_alerts d) = Some a" "due (ad_resend_interval_s d) t a"
    and "backlog t d + length (filter is_upsert ops) \<le> length (filter is_tick ops) * ad_batch_size d" "0 \<le> ad_resend_interval_s d"
    and "\<forall>op\<in>set ops. tick_ok t (ad_resend_interval_s d) op"
  shows "(\<exists>v\<ge>t. notified_at x (ad_alerts (run_steps alert_step d ops)) = Some v) \<or>
    (\<exists>before after b. ops = before @ after \<and> alert_get_by_id x (ad_alerts (run_steps alert_step d before)) = Some b \<and> nt_status b \<noteq> Active)"
  using assms
proof (induction ops arbitrary: d a)
  case Nil
  from Nil.prems(2) have "a \<in> set (ad_alerts d)" by (auto simp: alert_get_by_id_def find_Some_iff)
  moreover have "stale t a" using Nil.prems(3,5) by (rule_tac due_stale) (auto simp: usec_per_sec_def)
  ultimately have "0 < backlog t d" by (auto simp: backlog_def filter_empty_conv)
  with Nil.prems(4) show ?case by simp
next
  case (Cons op ops)
  note inv = Cons.prems(1)
  let ?d = "alert_step d op"
  have IH: ?case if "alert_get_by_id x (ad_alerts ?d) = Some b" "due (ad_resend_interval_s d) t b"
    "backlog t ?d + length (filter is_upsert ops) \<le> length (filter is_tick ops) * ad_batch_size d" for b
  proof -
    have "(\<exists>v\<ge>t. notified_at x (ad_alerts (run_steps alert_step ?d ops)) = Some v) \<or>
      (\<exists>before after b. ops = before @ after \<and> alert_get_by_id x (ad_alerts (run_steps alert_step ?d before)) = Some b \<and> nt_status b \<noteq> Active)"
      using that Cons.prems(5,6) by (intro Cons.IH alert_step_inv [OF inv]) (simp_all add: step_settings)
    moreover have "run_steps alert_step d (op # before) = run_steps alert_step ?d before" for before by simp
    ultimately show ?thesis by (metis append_Cons)
  qed
  show ?case
  proof (cases "is_tick op")
    case True
    then obtain env where op: "op = OpTick env" by (cases op) auto
    have ok: "tick_ok t (ad_resend_interval_s d) (OpTick env)" using Cons.prems(6) op by simp
    show ?thesis
    proof (rule backlog_tick [OF inv Cons.prems(2,3) ok])
      fix v
      assume "t \<le> v" "notified_at x (ad_alerts (alert_step d (OpTick env))) = Some v"
      with notified_since_kept [OF alert_step_inv [OF inv, of op], of t v x ops] Cons.prems(6) op show ?thesis by auto
    next
      assume "backlog t (snd (tick env d)) + ad_batch_size d = backlog t d" "alert_get_by_id x (ad_alerts (snd (tick env d))) = Some a"
      with Cons.prems(3,4) op show ?thesis by (intro IH [of a]) simp_all
    qed
  next
    case False
    then obtain tab rest where tab: "ad_alerts ?d = tab @ rest" "list_all2 quiet (ad_alerts d) tab" "length rest \<le> (if is_upsert op then 1 else 0)"
      by (rule quiet_step)
    from Cons.prems(2) have row: "a \<in> set (ad_alerts d)" "nt_id a = x" by (auto simp: alert_get_by_id_def find_Some_iff)
    then obtain b where b: "b \<in> set (ad_alerts ?d)" "quiet a b" using quiet_row [OF tab(2)] tab(1) by auto
    have "distinct (map nt_id (ad_alerts ?d))" using alert_step_inv [OF inv, of op] by (simp add: pipeline_inv_def table_inv_def)
    from get_row [OF this b(1)] have get: "alert_get_by_id x (ad_alerts ?d) = Some b" using b(2) row(2) by (simp add: quiet_def)
    have "length (filter (stale t) rest) \<le> (if is_upsert op then 1 else 0)" using tab(3) by (rule le_trans [OF length_filter_le])
    with tab(1) quiet_backlog [OF tab(2), of t] have less: "backlog t ?d \<le> backlog t d + (if is_upsert op then 1 else 0)"
      unfolding backlog_def by simp
    show ?thesis
    proof (cases "nt_status b = Active")
      case True
      then have "due (ad_resend_interval_s d) t b" using b(2) Cons.prems(3) by (simp add: due_def quiet_def)
      with get show ?thesis using less Cons.prems(4) False by (intro IH [of b]) (auto split: if_splits)
    next
      case False
      have "run_steps alert_step d [op] = ?d" by simp
      with get False show ?thesis by (metis append_Cons append_Nil)
    qed
  qed
qed

section \<open>Properties\<close>

text \<open>Whatever is done with the alerts, a run of the pipeline that starts with empty tables keeps
  their invariant: at most one open alert for each organisation and dedup key, ids unique, every row
  consistent, one delivery at most for each alert, recipient and round, each round one that took place.\<close>
theorem pipeline_run_inv: "pipeline_inv (run_steps alert_step (ad_init resend_interval_s batch_size) ops)"
  by (rule pipeline.run_inv) blast

text \<open>C27: The notifications of one alert are at least the resend interval apart, whatever happens to the
  alerts in between: in every run from empty tables, the times at which the counter of notifications of
  the alert moves are spaced by it.\<close>
theorem notifications_spaced:
  "successively (\<lambda>a b. resend_interval_s * usec_per_sec \<le> b - a)
     (fired_times (notifying_step x) (op_time x) (ad_init resend_interval_s batch_size) ops)"
  using notifications.ok_fired_times_spaced [OF ad_init_inv, where ?x = x and ?i1 = resend_interval_s and ?b1 = batch_size and ?es = ops]
  by (simp add: ad_init_def)

text \<open>C33: A backlog is worked off, also while alerts go on being raised. Take any sequence of operations from a time \<open>t\<close> on, in which
  the dispatcher's ticks fall within one resend interval, with recipients that can be read and marks that succeed. If the batches
  of the ticks together hold the alerts that were active and not notified since \<open>t\<close> and one more for every upsert in
  between, then an alert that was due at \<open>t\<close>, whatever its severity, has been notified at \<open>t\<close> or later when the
  operations are over, unless it was acknowledged or resolved meanwhile. Severe alerts that are raised come first: without room for them
  in the batches, a less severe one can wait for longer.\<close>
theorem due_alert_gets_notified:
  assumes "pipeline_inv d" and "alert_get_by_id x (ad_alerts d) = Some a" and "due (ad_resend_interval_s d) t a"
    and "backlog t d + length (filter is_upsert ops) \<le> length (filter is_tick ops) * ad_batch_size d" and "0 \<le> ad_resend_interval_s d"
    and "\<forall>env. OpTick env \<in> set ops \<longrightarrow> t \<le> tk_now env \<and> tk_now env \<le> t + ad_resend_interval_s d * usec_per_sec \<and> (\<forall>y. marks env y)"
  shows "(\<exists>v\<ge>t. notified_at x (ad_alerts (run_steps alert_step d ops)) = Some v) \<or>
    (\<exists>before after b. ops = before @ after \<and> alert_get_by_id x (ad_alerts (run_steps alert_step d before)) = Some b \<and> nt_status b \<noteq> Active)"
proof -
  have "\<forall>op\<in>set ops. tick_ok t (ad_resend_interval_s d) op" using assms(6) by (auto simp: tick_ok_def)
  with assms(1-5) show ?thesis by (rule backlog_notified)
qed

definition example_env :: "dtime \<Rightarrow> tick_env" where
  "example_env now =
     \<lparr>tk_now = now, tk_recipients_ok = \<lambda>_. True, tk_mark_delay = \<lambda>_. 0, tk_mark_ok = \<lambda>_. True,
      tk_send = \<lambda>_ _. SendResult None ''sent'' [], tk_record_ok = \<lambda>_ _. True\<rparr>"

definition example_backlog :: AlertDispatcher where
  "example_backlog = run_steps alert_step (ad_init 3600 1)
     [OpUpsert ''a1'' 10 ''org'' None ''charger_offline'' WARNING ''t'' [] ''k1'',
      OpUpsert ''a2'' 20 ''org'' None ''charger_offline'' CRITICAL ''t'' [] ''k2'']"

definition example_ops :: "alert_op list" where
  "example_ops = [OpTick (example_env 30), OpUpsert ''a3'' 35 ''org'' None ''charger_offline'' CRITICAL ''t'' [] ''k3'',
     OpTick (example_env 40), OpTick (example_env 50)]"

text \<open>Two alerts, batches of one, and a severe alert after the first tick: the less severe one is notified by the third tick.\<close>
theorem due_alert_gets_notified_witness:
  "\<exists>v\<ge>30. notified_at ''a1'' (ad_alerts (run_steps alert_step example_backlog example_ops)) = Some v"
proof -
  let ?a = "new_alert ''a1'' 10 ''org'' None ''charger_offline'' WARNING ''t'' [] ''k1''"
  have "pipeline_inv example_backlog" unfolding example_backlog_def by (rule pipeline.run_inv) blast
  moreover have "alert_get_by_id ''a1'' (ad_alerts example_backlog) = Some ?a" by code_simp
  moreover have "due (ad_resend_interval_s example_backlog) 30 ?a" by code_simp
  moreover have "backlog 30 example_backlog + length (filter is_upsert example_ops) \<le> length (filter is_tick example_ops) * ad_batch_size example_backlog"
    by code_simp
  moreover have "0 \<le> ad_resend_interval_s example_backlog" by code_simp
  moreover have "\<forall>env. OpTick env \<in> set example_ops \<longrightarrow> 30 \<le> tk_now env \<and>
      tk_now env \<le> 30 + ad_resend_interval_s example_backlog * usec_per_sec \<and> (\<forall>y. marks env y)"
  proof -
    have "ad_resend_interval_s example_backlog = 3600" by code_simp
    then show ?thesis by (auto simp: example_ops_def example_env_def marks_def usec_per_sec_def)
  qed
  ultimately have out: "(\<exists>v\<ge>30. notified_at ''a1'' (ad_alerts (run_steps alert_step example_backlog example_ops)) = Some v) \<or>
    (\<exists>before after b. example_ops = before @ after \<and> alert_get_by_id ''a1'' (ad_alerts (run_steps alert_step example_backlog before)) = Some b \<and> nt_status b \<noteq> Active)"
    by (rule due_alert_gets_notified)
  have "list_all (\<lambda>n. case alert_get_by_id ''a1'' (ad_alerts (run_steps alert_step example_backlog (take n example_ops))) of
      Some b \<Rightarrow> nt_status b = Active | None \<Rightarrow> True) [0..<5]" by code_simp
  then have active: "nt_status b = Active" if "alert_get_by_id ''a1'' (ad_alerts (run_steps alert_step example_backlog (take n example_ops))) = Some b" "n < 5" for n b
  proof -
    have "n \<in> set [0..<5]" using that(2) by simp
    with \<open>list_all _ _\<close> that(1) show ?thesis unfolding list_all_iff by fastforce
  qed
  have "nt_status b = Active"
    if "example_ops = before @ after" "alert_get_by_id ''a1'' (ad_alerts (run_steps alert_step example_backlog before)) = Some b" for before after b
  proof -
    have "length (before @ after) = 4" using that(1) by (simp flip: that(1) add: example_ops_def)
    then have "length before < 5" by simp
    moreover have "before = take (length before) example_ops" using that(1) by (metis append_eq_conv_conj)
    ultimately show ?thesis using that(2) active [of "length before" b] by simp
  qed
  with out show ?thesis by blast
qed

end
