(* ===== verification/Offline_Monitor.thy ===== *)
theory Offline_Monitor
  imports Alerts Report_Timing
begin

text \<open>
  The monitor of disconnected chargers, \<open>src/src/websocket_handler/offline_monitor.py\<close>: the queries on
  \<open>connector_status\<close>, the plan of a sweep, and the sweep that applies it to the alerts of \<open>Alerts\<close>. The
  table \<open>connector_status\<close> is the list of its rows; two rows that \<open>ORDER BY\<close> leaves equal are taken in that
  order. A sweep reads the table twice, so both readings are arguments, as are the ids and times of the
  alerts it writes. A time is in UTC, as the driver returns it.
\<close>

section \<open>Model: data\<close>

definition ALERT_TYPE_3H :: string where
  "ALERT_TYPE_3H = ''charger_offline_3h''"

definition ALERT_TYPE_24H :: string where
  "ALERT_TYPE_24H = ''charger_offline_24h''"

definition OFFLINE_ALERT_TYPES :: "string list" where
  "OFFLINE_ALERT_TYPES = [ALERT_TYPE_3H, ALERT_TYPE_24H]"

record OfflineCharger =
  oc_station :: string
  oc_offline_since :: dtime
  oc_offline_seconds :: pyfloat
  oc_org :: "string option"
  oc_depot :: "string option"

record PlannedUpsert =
  pu_station :: string
  pu_org :: string
  pu_depot :: "string option"
  pu_type :: string
  pu_severity :: Severity
  pu_title :: string
  pu_detail :: "(string, pyval) pydict"
  pu_dedup_key :: string

record PlannedResolve =
  pr_org :: string
  pr_dedup_key :: string

record SweepPlan =
  sw_upserts :: "PlannedUpsert list"
  sw_resolves :: "PlannedResolve list"
  sw_skipped_no_tenant :: "string list"

section \<open>Model: the texts of an alert\<close>

definition hour_label :: "int \<Rightarrow> int" where
  "hour_label seconds = max 1 (round_half_even (of_int seconds / 3600))"

text \<open>\<open>round(x, 1)\<close>, \<open>:.1f\<close>, and the two texts of a time.\<close>

definition round1 :: "pyfloat \<Rightarrow> pyfloat" where
  "round1 x = of_int (round_half_even (x * 10)) / 10"

definition fixed1 :: "pyfloat \<Rightarrow> string" where
  "fixed1 x =
     (let n = round_half_even (x * 10)
      in (if x < 0 then ''-'' else []) @ int_str (\<bar>n\<bar> div 10) @ ''.'' @ int_str (\<bar>n\<bar> mod 10))"

definition pad_to :: "nat \<Rightarrow> int \<Rightarrow> string" where
  "pad_to w n = replicate (w - length (int_str n)) (CHR ''0'') @ int_str n"

definition date_text :: "nat \<Rightarrow> dtime \<Rightarrow> string" where
  "date_text w t = (case date_of_ord (t div usec_per_day + 1) of (y, m, d) \<Rightarrow> pad_to w y @ ''-'' @ pad_to 2 m @ ''-'' @ pad_to 2 d)"

definition minute_text :: "dtime \<Rightarrow> string" where
  "minute_text t = pad_to 2 (hour_of_day t) @ '':'' @ pad_to 2 ((t div usec_per_min) mod 60)"

definition isoformat :: "dtime \<Rightarrow> string" where
  "isoformat t =
     date_text 4 t @ ''T'' @ minute_text t @ '':'' @ pad_to 2 ((t div usec_per_sec) mod 60) @
     (if t mod usec_per_sec = 0 then [] else ''.'' @ pad_to 6 (t mod usec_per_sec)) @ ''+00:00''"

definition dedup_key_of :: "string \<Rightarrow> string \<Rightarrow> string" where
  "dedup_key_of alert_type station = alert_type @ '':'' @ station"

definition upsert_detail :: "OfflineCharger \<Rightarrow> int \<Rightarrow> (string, pyval) pydict" where
  "upsert_detail c tier =
     (let st = oc_station c; hours = oc_offline_seconds c / 3600
      in [(''description'', PStr (''Charger '' @ st @ '' has been offline for '' @ fixed1 hours @
             '' h (no connection to the platform since '' @ date_text 0 (oc_offline_since c) @ '' '' @
             minute_text (oc_offline_since c) @ '' UTC).'')),
          (''suggestedAction'', PStr (''Check the charger's power and network/Ethernet link at the depot. '' @
             ''It has stopped connecting; if a shared switch or circuit serves '' @
             ''multiple chargers, check those too.'')),
          (''context'', PDict [(''kind'', PStr ''charger''), (''id'', PStr st), (''label'', PStr st)]),
          (''station_id'', PStr st),
          (''offline_since'', PStr (isoformat (oc_offline_since c))),
          (''offline_hours'', PFloat (round1 hours)),
          (''threshold_hours'', PInt tier)])"

text \<open>The callers pass a charger that has an organisation: \<open>org\<close> is its value.\<close>

definition build_upsert :: "OfflineCharger \<Rightarrow> string \<Rightarrow> int \<Rightarrow> Severity \<Rightarrow> string \<Rightarrow> PlannedUpsert" where
  "build_upsert c org threshold_seconds sev alert_type =
     (let tier = hour_label threshold_seconds
      in \<lparr>pu_station = oc_station c, pu_org = org, pu_depot = oc_depot c, pu_type = alert_type, pu_severity = sev,
          pu_title = ''Charger '' @ oc_station c @ '' offline '' @ int_str tier @ ''h+'',
          pu_detail = upsert_detail c tier, pu_dedup_key = dedup_key_of alert_type (oc_station c)\<rparr>)"

text \<open>A non-empty value of \<open>station_id\<close> that is not a string has a \<open>str\<close> form; the monitor never writes
  one, and \<open>str_of\<close> gives it.\<close>

definition station_of :: "(pyval \<Rightarrow> string) \<Rightarrow> Alert \<Rightarrow> string option" where
  "station_of str_of a =
     (case map_of (nt_detail a) ''station_id'' of
        Some v \<Rightarrow>
          if truthy v then Some (case v of PStr s \<Rightarrow> s | _ \<Rightarrow> str_of v) else map_option snd (split_colon (nt_dedup_key a))
      | None \<Rightarrow> map_option snd (split_colon (nt_dedup_key a)))"

section \<open>Model: planning a sweep\<close>

definition plan_charger :: "int \<Rightarrow> int \<Rightarrow> OfflineCharger \<Rightarrow> string \<Rightarrow> PlannedUpsert list" where
  "plan_charger warn_after_s escalate_after_s c org =
     (if oc_offline_seconds c \<ge> of_int escalate_after_s then [build_upsert c org escalate_after_s CRITICAL ALERT_TYPE_24H] else []) @
     (if oc_offline_seconds c \<ge> of_int warn_after_s then [build_upsert c org warn_after_s WARNING ALERT_TYPE_3H] else [])"

text \<open>A breach set: the organisation and station of every charger over a threshold.\<close>

definition breach :: "int \<Rightarrow> OfflineCharger list \<Rightarrow> (string \<times> string) list" where
  "breach threshold offline =
     List.map_filter (\<lambda>c. case oc_org c of None \<Rightarrow> None
        | Some org \<Rightarrow> if oc_offline_seconds c \<ge> of_int threshold then Some (org, oc_station c) else None) offline"

definition clears :: "(pyval \<Rightarrow> string) \<Rightarrow> (string \<times> string) list \<Rightarrow> (string \<times> string) list \<Rightarrow> Alert \<Rightarrow> bool" where
  "clears str_of breach_3h breach_24h a \<longleftrightarrow>
     (let gone = (\<lambda>b. case station_of str_of a of None \<Rightarrow> True | Some st \<Rightarrow> (nt_org a, st) \<notin> set b)
      in nt_type a = ALERT_TYPE_3H \<and> gone breach_3h \<or> nt_type a = ALERT_TYPE_24H \<and> gone breach_24h)"

definition resolve_of :: "Alert \<Rightarrow> PlannedResolve" where
  "resolve_of a = \<lparr>pr_org = nt_org a, pr_dedup_key = nt_dedup_key a\<rparr>"

definition plan_sweep :: "(pyval \<Rightarrow> string) \<Rightarrow> int \<Rightarrow> int \<Rightarrow> OfflineCharger list \<Rightarrow> Alert list \<Rightarrow> SweepPlan" where
  "plan_sweep str_of warn_after_s escalate_after_s offline active =
     \<lparr>sw_upserts = concat (map (\<lambda>c. case oc_org c of None \<Rightarrow> [] | Some org \<Rightarrow> plan_charger warn_after_s escalate_after_s c org) offline),
      sw_resolves = map resolve_of (filter (clears str_of (breach warn_after_s offline) (breach escalate_after_s offline)) active),
      sw_skipped_no_tenant = map oc_station (filter (\<lambda>c. oc_org c = None) offline)\<rparr>"

section \<open>Model: the queries\<close>

record StatusRow =
  cs_station :: string
  cs_status :: string
  cs_error_code :: "string option"
  cs_timestamp :: dtime
  cs_created_at :: dtime
  cs_org :: "string option"
  cs_depot :: "string option"

text \<open>\<open>DISTINCT ON (station_id) ... ORDER BY station_id, (timestamp > NOW()) ASC, created_at DESC, timestamp DESC\<close>.\<close>

definition latest_row :: "dtime \<Rightarrow> StatusRow list \<Rightarrow> string \<Rightarrow> StatusRow option" where
  "latest_row now rows st =
     (case sort_key (\<lambda>r. (cs_timestamp r > now, - cs_created_at r, - cs_timestamp r)) (filter (\<lambda>r. cs_station r = st) rows) of
        [] \<Rightarrow> None
      | r # _ \<Rightarrow> Some r)"

definition disconnected :: "StatusRow \<Rightarrow> bool" where
  "disconnected r \<longleftrightarrow> cs_status r = ''Unavailable'' \<and> cs_error_code r = Some ''ConnectionLost''"

definition offline_of :: "dtime \<Rightarrow> pyfloat \<Rightarrow> StatusRow list \<Rightarrow> string \<Rightarrow> OfflineCharger option" where
  "offline_of now min_s rows st =
     (case latest_row now rows st of
        None \<Rightarrow> None
      | Some l \<Rightarrow>
          if disconnected l \<and> total_seconds (now - cs_timestamp l) \<ge> min_s
          then let t = latest_row now (filter (\<lambda>r. cs_org r \<noteq> None) rows) st
               in Some \<lparr>oc_station = st, oc_offline_since = cs_timestamp l,
                        oc_offline_seconds = total_seconds (now - cs_timestamp l),
                        oc_org = coalesce (cs_org l) (Option.bind t cs_org), oc_depot = coalesce (cs_depot l) (Option.bind t cs_depot)\<rparr>
          else None)"

definition fetch_offline_chargers :: "dtime \<Rightarrow> pyfloat \<Rightarrow> StatusRow list \<Rightarrow> OfflineCharger list" where
  "fetch_offline_chargers now min_offline_seconds rows =
     List.map_filter (offline_of now min_offline_seconds rows) (sort (remdups (map cs_station rows)))"

definition stations_still_offline :: "dtime \<Rightarrow> StatusRow list \<Rightarrow> string list \<Rightarrow> string list" where
  "stations_still_offline now rows stations =
     filter (\<lambda>st. case latest_row now rows st of None \<Rightarrow> False | Some r \<Rightarrow> disconnected r) stations"

section \<open>Model: a sweep\<close>

record OfflineChargerMonitor =
  om_warn_after_s :: int
  om_escalate_after_s :: int

text \<open>The second half of \<open>resolves\<close>: alerts of reconnected stations whose key is not yet among them.\<close>

fun add_reconnected :: "(pyval \<Rightarrow> string) \<Rightarrow> string list \<Rightarrow> Alert list \<Rightarrow> string list \<Rightarrow> PlannedResolve list" where
  "add_reconnected str_of reconnected [] seen_dedup = []"
| "add_reconnected str_of reconnected (a # active) seen_dedup =
     (if (case station_of str_of a of None \<Rightarrow> False | Some st \<Rightarrow> st \<in> set reconnected) \<and>
         nt_type a \<in> set OFFLINE_ALERT_TYPES \<and> nt_dedup_key a \<notin> set seen_dedup
      then resolve_of a # add_reconnected str_of reconnected active (nt_dedup_key a # seen_dedup)
      else add_reconnected str_of reconnected active seen_dedup)"

text \<open>What the sweep will write: the upserts of stations that are still offline, and the resolves.\<close>

definition sweep_writes ::
  "(pyval \<Rightarrow> string) \<Rightarrow> SweepPlan \<Rightarrow> Alert list \<Rightarrow> dtime \<Rightarrow> StatusRow list \<Rightarrow> PlannedUpsert list \<times> PlannedResolve list" where
  "sweep_writes str_of plan active now rows =
     (let planned = map pu_station (sw_upserts plan);
          still_offline = stations_still_offline now rows planned;
          reconnected = filter (\<lambda>st. st \<notin> set still_offline) planned
      in (filter (\<lambda>u. pu_station u \<in> set still_offline) (sw_upserts plan),
          sw_resolves plan @ (if reconnected = [] then [] else add_reconnected str_of reconnected active (map pr_dedup_key (sw_resolves plan)))))"

text \<open>The id and the time of the \<open>n\<close>-th upsert come from the database, \<open>ids n\<close>.\<close>

fun apply_upserts :: "(nat \<Rightarrow> string \<times> dtime) \<Rightarrow> nat \<Rightarrow> PlannedUpsert list \<Rightarrow> Alert list \<Rightarrow> py_error option \<times> Alert list" where
  "apply_upserts ids n [] tab = (None, tab)"
| "apply_upserts ids n (u # us) tab =
     (case upsert_alert (fst (ids n)) (snd (ids n)) (pu_org u) (pu_depot u) (pu_type u) (pu_severity u) (pu_title u)
         (pu_detail u) (pu_dedup_key u) tab of
        (Inl e, tab') \<Rightarrow> (Some e, tab')
      | (Inr a, tab') \<Rightarrow> apply_upserts ids (Suc n) us tab')"

definition apply_resolves :: "dtime \<Rightarrow> PlannedResolve list \<Rightarrow> Alert list \<Rightarrow> Alert list" where
  "apply_resolves now rs tab = foldl (\<lambda>tab r. snd (resolve_alert now (pr_org r) (pr_dedup_key r) tab)) tab rs"

record sweep_env =
  sv_now :: dtime
  sv_rows :: "StatusRow list"
  sv_recheck_now :: dtime
  sv_recheck_rows :: "StatusRow list"
  sv_ids :: "nat \<Rightarrow> string \<times> dtime"
  sv_resolve_now :: dtime
  sv_str_of :: "pyval \<Rightarrow> string"

definition sweep_plan :: "OfflineChargerMonitor \<Rightarrow> sweep_env \<Rightarrow> Alert list \<Rightarrow> SweepPlan" where
  "sweep_plan mon env tab =
     plan_sweep (sv_str_of env) (om_warn_after_s mon) (om_escalate_after_s mon)
       (fetch_offline_chargers (sv_now env) (of_int (min (om_warn_after_s mon) (om_escalate_after_s mon))) (sv_rows env))
       (list_active_by_types OFFLINE_ALERT_TYPES tab)"

definition run_once :: "OfflineChargerMonitor \<Rightarrow> sweep_env \<Rightarrow> Alert list \<Rightarrow> SweepPlan result \<times> Alert list" where
  "run_once mon env tab =
     (let active = list_active_by_types OFFLINE_ALERT_TYPES tab; plan = sweep_plan mon env tab;
          (upserts, resolves) = sweep_writes (sv_str_of env) plan active (sv_recheck_now env) (sv_recheck_rows env)
      in case apply_upserts (sv_ids env) 0 upserts tab of
           (Some e, tab') \<Rightarrow> (Inl e, tab')
         | (None, tab') \<Rightarrow> (Inr plan, apply_resolves (sv_resolve_now env) resolves tab'))"

section \<open>Lemmas: the keys of the open alerts\<close>

definition open_keys :: "Alert list \<Rightarrow> (string \<times> string) set" where
  "open_keys tab = {(nt_org a, nt_dedup_key a) |a. a \<in> set tab \<and> nt_status a \<noteq> Resolved}"

lemma open_keys_simps [simp]:
  "open_keys [] = {}"
  "open_keys (a # tab) = (if nt_status a \<noteq> Resolved then insert (nt_org a, nt_dedup_key a) (open_keys tab) else open_keys tab)"
  by (auto simp: open_keys_def)

lemma open_keys_append [simp]: "open_keys (as @ bs) = open_keys as \<union> open_keys bs"
  by (induction as) auto

lemma open_keys_iff: "(org, key) \<in> open_keys tab \<longleftrightarrow> (\<exists>a\<in>set tab. open_for org key a)"
  by (auto simp: open_keys_def open_for_def)

lemma resolve_open_keys: "open_keys (snd (resolve_alert now org key tab)) = open_keys tab - {(org, key)}"
  by (induction tab) (auto simp: resolve_alert_def update_where_def resolve_row_def open_for_def)

lemma resolves_open_keys: "open_keys (apply_resolves now rs tab) = open_keys tab - (\<lambda>r. (pr_org r, pr_dedup_key r)) ` set rs"
  by (induction rs arbitrary: tab) (auto simp: apply_resolves_def resolve_open_keys)

lemma bump_open_keys: "open_keys (update_where p (bump_alert now sev title detail) tab) = open_keys tab"
  by (induction tab) (auto simp: update_where_def bump_alert_def)

lemma upsert_ok:
  assumes "fresh \<notin> nt_id ` set tab"
  shows "\<exists>a. fst (upsert_alert fresh now org depot ty sev title detail key tab) = Inr a"
    "open_keys (snd (upsert_alert fresh now org depot ty sev title detail key tab)) = insert (org, key) (open_keys tab)"
    "nt_id ` set (snd (upsert_alert fresh now org depot ty sev title detail key tab)) \<subseteq> insert fresh (nt_id ` set tab)"
proof -
  show "\<exists>a. fst (upsert_alert fresh now org depot ty sev title detail key tab) = Inr a"
    using assms by (auto simp: upsert_alert_def Let_def split: option.split)
  show "open_keys (snd (upsert_alert fresh now org depot ty sev title detail key tab)) = insert (org, key) (open_keys tab)"
  proof (cases "List.find (open_for org key) tab")
    case None
    with assms show ?thesis by (simp add: upsert_alert_def updated_row_def Let_def) (simp add: new_alert_def)
  next
    case (Some a)
    then have "(org, key) \<in> open_keys tab" by (auto simp: open_keys_iff find_Some_iff)
    with Some show ?thesis by (simp add: upsert_alert_def updated_row_def bump_open_keys insert_absorb)
  qed
  show "nt_id ` set (snd (upsert_alert fresh now org depot ty sev title detail key tab)) \<subseteq> insert fresh (nt_id ` set tab)"
    by (auto simp: upsert_alert_def updated_row_def Let_def update_where_def bump_alert_def new_alert_def split: option.split if_splits)
qed

text \<open>The ids the database hands out: new ones.\<close>

definition fresh_ids :: "(nat \<Rightarrow> string \<times> dtime) \<Rightarrow> Alert list \<Rightarrow> bool" where
  "fresh_ids ids tab \<longleftrightarrow> inj (fst \<circ> ids) \<and> (\<forall>n. fst (ids n) \<notin> nt_id ` set tab)"

lemma apply_upserts_ok:
  assumes "inj (fst \<circ> ids)" "\<forall>m\<ge>n. fst (ids m) \<notin> nt_id ` set tab"
  shows "fst (apply_upserts ids n us tab) = None \<and>
     open_keys (snd (apply_upserts ids n us tab)) = open_keys tab \<union> (\<lambda>u. (pu_org u, pu_dedup_key u)) ` set us"
  using assms(2)
proof (induction us arbitrary: n tab)
  case (Cons u us)
  let ?r = "upsert_alert (fst (ids n)) (snd (ids n)) (pu_org u) (pu_depot u) (pu_type u) (pu_severity u) (pu_title u)
      (pu_detail u) (pu_dedup_key u) tab"
  have fresh: "fst (ids n) \<notin> nt_id ` set tab" using Cons.prems by blast
  then obtain a tab' where r: "?r = (Inr a, tab')" using upsert_ok(1) by (metis prod.collapse)
  have ne: "fst (ids m) \<noteq> fst (ids n)" if "Suc n \<le> m" for m using injD [OF assms(1), of m n] that by auto
  have "fst (ids m) \<notin> nt_id ` set tab'" if "Suc n \<le> m" for m
    using upsert_ok(3) [OF fresh, of "snd (ids n)" "pu_org u" "pu_depot u" "pu_type u" "pu_severity u" "pu_title u" "pu_detail u" "pu_dedup_key u"]
      r ne [OF that] spec [OF Cons.prems, of m] that by (metis Suc_leD insertE snd_conv subsetD)
  moreover have "open_keys tab' = insert (pu_org u, pu_dedup_key u) (open_keys tab)"
    using upsert_ok(2) [OF fresh] r by (metis snd_conv)
  ultimately show ?case using Cons.IH [of "Suc n" tab'] r by auto
qed simp

section \<open>Lemmas: offline alerts\<close>

text \<open>The tiers with their thresholds, and the alerts as the monitor writes them.\<close>

definition threshold_of :: "OfflineChargerMonitor \<Rightarrow> string \<Rightarrow> int" where
  "threshold_of mon ty = (if ty = ALERT_TYPE_24H then om_escalate_after_s mon else om_warn_after_s mon)"

definition offline_row_ok :: "Alert \<Rightarrow> bool" where
  "offline_row_ok a \<longleftrightarrow>
     (if nt_type a \<in> set OFFLINE_ALERT_TYPES
      then \<exists>st. nt_dedup_key a = dedup_key_of (nt_type a) st \<and> map_of (nt_detail a) ''station_id'' = Some (PStr st)
      else \<forall>ty\<in>set OFFLINE_ALERT_TYPES. \<forall>st. nt_dedup_key a \<noteq> dedup_key_of ty st)"

definition offline_table_ok :: "Alert list \<Rightarrow> bool" where
  "offline_table_ok tab \<longleftrightarrow> (\<forall>a\<in>set tab. offline_row_ok a)"

lemma types_no_colon: "ty \<in> set OFFLINE_ALERT_TYPES \<Longrightarrow> CHR '':'' \<notin> set ty"
  by (auto simp: OFFLINE_ALERT_TYPES_def ALERT_TYPE_3H_def ALERT_TYPE_24H_def)

lemma types_distinct [simp]: "ALERT_TYPE_3H \<noteq> ALERT_TYPE_24H" "ALERT_TYPE_24H \<noteq> ALERT_TYPE_3H"
  by (simp_all add: ALERT_TYPE_3H_def ALERT_TYPE_24H_def)

lemma split_dedup: "ty \<in> set OFFLINE_ALERT_TYPES \<Longrightarrow> split_colon (dedup_key_of ty st) = Some (ty, st)"
  unfolding dedup_key_of_def by (rule split_colon_join) (rule types_no_colon)

lemma dedup_inject:
  "ty \<in> set OFFLINE_ALERT_TYPES \<Longrightarrow> ty' \<in> set OFFLINE_ALERT_TYPES \<Longrightarrow> dedup_key_of ty st = dedup_key_of ty' st' \<longleftrightarrow> ty = ty' \<and> st = st'"
  by (metis option.inject prod.inject split_dedup)

lemma station_of_offline:
  assumes "offline_row_ok a" "nt_type a \<in> set OFFLINE_ALERT_TYPES" "nt_dedup_key a = dedup_key_of ty st" "ty \<in> set OFFLINE_ALERT_TYPES"
  shows "nt_type a = ty" "station_of str_of a = Some st"
proof -
  obtain st' where st': "nt_dedup_key a = dedup_key_of (nt_type a) st'" "map_of (nt_detail a) ''station_id'' = Some (PStr st')"
    using assms(1,2) by (auto simp: offline_row_ok_def)
  with assms dedup_inject have "nt_type a = ty" "st' = st" by metis+
  with st' assms(3,4) show "nt_type a = ty" "station_of str_of a = Some st"
    by (auto simp: station_of_def split_dedup)
qed

lemma row_of_key:
  assumes "offline_row_ok a" "nt_dedup_key a = dedup_key_of ty st" "ty \<in> set OFFLINE_ALERT_TYPES"
  shows "nt_type a \<in> set OFFLINE_ALERT_TYPES"
  using assms by (auto simp: offline_row_ok_def split: if_splits)

section \<open>Lemmas: what a sweep writes\<close>

text \<open>A charger over the threshold of a tier when the sweep fetched, and a station that is offline at a reading.\<close>

definition breaching :: "OfflineChargerMonitor \<Rightarrow> OfflineCharger list \<Rightarrow> string \<Rightarrow> string \<Rightarrow> string \<Rightarrow> bool" where
  "breaching mon offline org ty st \<longleftrightarrow>
     (\<exists>c\<in>set offline. oc_org c = Some org \<and> oc_station c = st \<and> of_int (threshold_of mon ty) \<le> oc_offline_seconds c)"

definition station_offline :: "dtime \<Rightarrow> StatusRow list \<Rightarrow> string \<Rightarrow> bool" where
  "station_offline now rows st \<longleftrightarrow> (\<exists>r. latest_row now rows st = Some r \<and> disconnected r)"

lemma set_still_offline: "set (stations_still_offline now rows sts) = {st \<in> set sts. station_offline now rows st}"
  by (auto simp: stations_still_offline_def station_offline_def split: option.splits)

lemma set_active: "set (list_active_by_types tys tab) = {a \<in> set tab. nt_status a \<noteq> Resolved \<and> nt_type a \<in> set tys}"
  by (simp add: list_active_by_types_def)

lemma set_types: "set OFFLINE_ALERT_TYPES = {ALERT_TYPE_3H, ALERT_TYPE_24H}"
  by (simp add: OFFLINE_ALERT_TYPES_def)

lemma threshold_simps [simp]:
  "threshold_of mon ALERT_TYPE_3H = om_warn_after_s mon" "threshold_of mon ALERT_TYPE_24H = om_escalate_after_s mon"
  by (simp_all add: threshold_of_def)

lemma set_breach: "(org, st) \<in> set (breach (threshold_of mon ty) offline) \<longleftrightarrow> breaching mon offline org ty st"
  by (force simp: breach_def breaching_def List.map_filter_def split: option.splits if_splits)

lemma build_upsert_fields [simp]:
  "pu_station (build_upsert c org s sev ty) = oc_station c" "pu_org (build_upsert c org s sev ty) = org"
  "pu_type (build_upsert c org s sev ty) = ty" "pu_dedup_key (build_upsert c org s sev ty) = dedup_key_of ty (oc_station c)"
  "map_of (pu_detail (build_upsert c org s sev ty)) ''station_id'' = Some (PStr (oc_station c))"
  by (simp_all add: build_upsert_def upsert_detail_def Let_def)

abbreviation plan_for where
  "plan_for mon str_of offline active \<equiv> plan_sweep str_of (om_warn_after_s mon) (om_escalate_after_s mon) offline active"

abbreviation clears_for where
  "clears_for mon str_of offline \<equiv> clears str_of (breach (om_warn_after_s mon) offline) (breach (om_escalate_after_s mon) offline)"

definition active_ok :: "Alert list \<Rightarrow> bool" where
  "active_ok active \<longleftrightarrow> (\<forall>a\<in>set active. nt_type a \<in> set OFFLINE_ALERT_TYPES \<and> offline_row_ok a)"

lemma upsert_planned:
  assumes "u \<in> set (sw_upserts (plan_for mon str_of offline active))"
  shows "\<exists>ty\<in>set OFFLINE_ALERT_TYPES. pu_type u = ty \<and> pu_dedup_key u = dedup_key_of ty (pu_station u) \<and>
     breaching mon offline (pu_org u) ty (pu_station u) \<and> map_of (pu_detail u) ''station_id'' = Some (PStr (pu_station u))"
  using assms by (auto simp: plan_sweep_def plan_charger_def set_types breaching_def split: option.splits if_splits)

lemma breach_planned:
  assumes "breaching mon offline org ty st" "ty \<in> set OFFLINE_ALERT_TYPES"
  shows "\<exists>u\<in>set (sw_upserts (plan_for mon str_of offline active)). pu_org u = org \<and> pu_station u = st \<and> pu_dedup_key u = dedup_key_of ty st"
proof -
  obtain c where c: "c \<in> set offline" "oc_org c = Some org" "oc_station c = st" "of_int (threshold_of mon ty) \<le> oc_offline_seconds c"
    using assms(1) by (auto simp: breaching_def)
  then have "\<exists>u\<in>set (plan_charger (om_warn_after_s mon) (om_escalate_after_s mon) c org). pu_org u = org \<and> pu_station u = st \<and>
      pu_dedup_key u = dedup_key_of ty st"
    using assms(2) by (auto simp: plan_charger_def set_types)
  moreover have "set (plan_charger (om_warn_after_s mon) (om_escalate_after_s mon) c org) \<subseteq> set (sw_upserts (plan_for mon str_of offline active))"
    using c by (force simp: plan_sweep_def)
  ultimately show ?thesis by blast
qed

lemma clears_iff:
  assumes "active_ok active" "a \<in> set active" "nt_dedup_key a = dedup_key_of ty st" "ty \<in> set OFFLINE_ALERT_TYPES"
  shows "clears_for mon str_of offline a \<longleftrightarrow>
     \<not> breaching mon offline (nt_org a) ty st"
proof -
  have a: "nt_type a = ty" "station_of str_of a = Some st" using station_of_offline assms unfolding active_ok_def by blast+
  show ?thesis
    using assms(4) a set_breach [of "nt_org a" st mon ALERT_TYPE_3H offline] set_breach [of "nt_org a" st mon ALERT_TYPE_24H offline]
    by (auto simp: clears_def set_types)
qed

lemma active_key:
  "active_ok active \<Longrightarrow> a \<in> set active \<Longrightarrow> \<exists>ty\<in>set OFFLINE_ALERT_TYPES. \<exists>st. nt_dedup_key a = dedup_key_of ty st"
  unfolding active_ok_def offline_row_ok_def by (metis (no_types, lifting))

lemma resolve_planned:
  "r \<in> set (sw_resolves (plan_for mon str_of offline active)) \<longleftrightarrow>
     (\<exists>a\<in>set active. r = resolve_of a \<and>
        clears_for mon str_of offline a)"
  by (auto simp: plan_sweep_def)

lemma reconnected_subset:
  "r \<in> set (add_reconnected str_of sts as seen) \<Longrightarrow>
     \<exists>a\<in>set as. r = resolve_of a \<and> (\<exists>st\<in>set sts. station_of str_of a = Some st)"
proof (induction as arbitrary: seen)
  case (Cons a as)
  then show ?case by (fastforce split: if_splits option.splits)
qed simp

lemma reconnected_complete:
  assumes "a \<in> set as" "station_of str_of a = Some st" "st \<in> set sts" "nt_type a \<in> set OFFLINE_ALERT_TYPES" "nt_dedup_key a \<notin> set seen"
  shows "\<exists>b\<in>set as. resolve_of b \<in> set (add_reconnected str_of sts as seen) \<and> nt_dedup_key b = nt_dedup_key a"
  using assms(1,5)
proof (induction as arbitrary: seen)
  case (Cons b as)
  let ?adds = "(case station_of str_of b of None \<Rightarrow> False | Some st \<Rightarrow> st \<in> set sts) \<and>
    nt_type b \<in> set OFFLINE_ALERT_TYPES \<and> nt_dedup_key b \<notin> set seen"
  consider (same) ?adds "nt_dedup_key b = nt_dedup_key a" | (other) ?adds "nt_dedup_key b \<noteq> nt_dedup_key a" | (skip) "\<not> ?adds" by blast
  then show ?case
  proof cases
    case other
    with Cons.prems have "a \<in> set as" "nt_dedup_key a \<notin> set (nt_dedup_key b # seen)" by auto
    from Cons.IH [OF this] other show ?thesis by auto
  next
    case skip
    with Cons.prems assms(2-4) have "a \<in> set as" by auto
    from Cons.IH [OF this Cons.prems(2)] skip show ?thesis by auto
  qed auto
qed simp

text \<open>No station has open offline alerts under two organisations.\<close>

definition single_tenant :: "Alert list \<Rightarrow> bool" where
  "single_tenant tab \<longleftrightarrow>
     (\<forall>a\<in>set tab. \<forall>b\<in>set tab. nt_status a \<noteq> Resolved \<longrightarrow> nt_status b \<noteq> Resolved \<longrightarrow> nt_type a \<in> set OFFLINE_ALERT_TYPES \<longrightarrow>
        nt_dedup_key a = nt_dedup_key b \<longrightarrow> nt_org a = nt_org b)"

abbreviation rkey :: "PlannedResolve \<Rightarrow> string \<times> string" where
  "rkey r \<equiv> (pr_org r, pr_dedup_key r)"

abbreviation ukey :: "PlannedUpsert \<Rightarrow> string \<times> string" where
  "ukey u \<equiv> (pu_org u, pu_dedup_key u)"

lemma rkey_resolve_of [simp]: "rkey (resolve_of a) = (nt_org a, nt_dedup_key a)"
  by (simp add: resolve_of_def)

lemma written_upserts:
  assumes "ty \<in> set OFFLINE_ALERT_TYPES"
  shows "(org, dedup_key_of ty st) \<in> ukey ` set (fst (sweep_writes str_of (plan_for mon str_of offline active) active now rows)) \<longleftrightarrow>
     breaching mon offline org ty st \<and> station_offline now rows st"
    (is "_ \<in> ukey ` set ?us \<longleftrightarrow> _")
proof
  assume "(org, dedup_key_of ty st) \<in> ukey ` set ?us"
  then obtain u where u: "u \<in> set (sw_upserts (plan_for mon str_of offline active))" "pu_org u = org" "pu_dedup_key u = dedup_key_of ty st"
    "station_offline now rows (pu_station u)"
    by (auto simp: sweep_writes_def Let_def set_still_offline)
  with upsert_planned [OF u(1)] dedup_inject assms show "breaching mon offline org ty st \<and> station_offline now rows st" by metis
next
  assume b: "breaching mon offline org ty st \<and> station_offline now rows st"
  then obtain u where "u \<in> set (sw_upserts (plan_for mon str_of offline active))" "pu_org u = org" "pu_station u = st"
    "pu_dedup_key u = dedup_key_of ty st" using breach_planned assms by blast
  with b show "(org, dedup_key_of ty st) \<in> ukey ` set ?us"
    by (force simp: sweep_writes_def Let_def set_still_offline)
qed

lemma written_resolve_sound:
  assumes "active_ok active" "ty \<in> set OFFLINE_ALERT_TYPES"
    and "(org, dedup_key_of ty st) \<in> rkey ` set (snd (sweep_writes str_of (plan_for mon str_of offline active) active now rows))"
  shows "\<not> (breaching mon offline org ty st \<and> station_offline now rows st)"
proof -
  let ?sts = "filter (\<lambda>st. st \<notin> set (stations_still_offline now rows (map pu_station (sw_upserts (plan_for mon str_of offline active)))))
      (map pu_station (sw_upserts (plan_for mon str_of offline active)))"
  obtain r where r: "rkey r = (org, dedup_key_of ty st)"
    and "r \<in> set (sw_resolves (plan_for mon str_of offline active)) \<or> (\<exists>seen. r \<in> set (add_reconnected str_of ?sts active seen))"
    using assms(3) by (auto simp: sweep_writes_def Let_def split: if_splits) blast+
  then consider
      (gone) a where "a \<in> set active" "r = resolve_of a" "clears_for mon str_of offline a"
    | (returned) a st' where "a \<in> set active" "r = resolve_of a" "st' \<in> set ?sts" "station_of str_of a = Some st'"
  proof (elim disjE exE)
    fix seen assume "r \<in> set (add_reconnected str_of ?sts active seen)"
    from reconnected_subset [OF this] show ?thesis using that(2) by blast
  qed (auto simp only: resolve_planned intro: that(1))
  then show ?thesis
  proof cases
    case gone
    with r clears_iff [OF assms(1) gone(1) _ assms(2)] show ?thesis by simp
  next
    case returned
    with r assms(1,2) have "st' = st" using station_of_offline(2) [of a ty st] by (auto simp: active_ok_def)
    with returned(3) show ?thesis by (auto simp: set_still_offline)
  qed
qed

lemma written_resolve_complete:
  assumes "active_ok active" "ty \<in> set OFFLINE_ALERT_TYPES" "a \<in> set active" "nt_dedup_key a = dedup_key_of ty st"
    and "\<And>b. b \<in> set active \<Longrightarrow> nt_dedup_key b = nt_dedup_key a \<Longrightarrow> nt_org b = nt_org a"
    and "\<not> (breaching mon offline (nt_org a) ty st \<and> station_offline now rows st)"
  shows "(nt_org a, nt_dedup_key a) \<in> rkey ` set (snd (sweep_writes str_of (plan_for mon str_of offline active) active now rows))"
    (is "_ \<in> rkey ` set ?rs")
proof -
  let ?plan = "plan_for mon str_of offline active"
  let ?sts = "filter (\<lambda>st. st \<notin> set (stations_still_offline now rows (map pu_station (sw_upserts ?plan)))) (map pu_station (sw_upserts ?plan))"
  have planned: "set (sw_resolves ?plan) \<subseteq> set ?rs" by (simp add: sweep_writes_def Let_def)
  show ?thesis
  proof (cases "nt_dedup_key a \<in> set (map pr_dedup_key (sw_resolves ?plan))")
    case True
    then obtain r where r: "r \<in> set (sw_resolves ?plan)" "pr_dedup_key r = nt_dedup_key a" by auto
    then obtain b where "b \<in> set active" "r = resolve_of b" by (auto simp only: resolve_planned)
    with r have b: "b \<in> set active" "resolve_of b \<in> set (sw_resolves ?plan)" "nt_dedup_key b = nt_dedup_key a"
      by (simp_all add: resolve_of_def)
    then show ?thesis using assms(5) planned by (metis (no_types, lifting) image_eqI rkey_resolve_of subsetD)
  next
    case False
    then have "resolve_of a \<notin> set (sw_resolves ?plan)" by (force simp: resolve_of_def)
    then have br: "breaching mon offline (nt_org a) ty st"
      using clears_iff [OF assms(1,3,4,2), where mon = mon and str_of = str_of and offline = offline] assms(3) by (auto simp: resolve_planned)
    then obtain u where "u \<in> set (sw_upserts ?plan)" "pu_station u = st" using breach_planned assms(2) by blast
    then have st: "st \<in> set ?sts" using assms(6) br by (auto simp: set_still_offline)
    then have "?sts \<noteq> []" by (metis empty_iff list.set(1))
    then have rs: "?rs = sw_resolves ?plan @ add_reconnected str_of ?sts active (map pr_dedup_key (sw_resolves ?plan))"
      by (simp only: sweep_writes_def Let_def snd_conv if_False)
    have "nt_type a \<in> set OFFLINE_ALERT_TYPES" "station_of str_of a = Some st"
      using assms(1-4) station_of_offline(2) by (auto simp: active_ok_def)
    from reconnected_complete [OF assms(3) this(2) st this(1) False] rs assms(5) show ?thesis
      by (metis (no_types, lifting) Un_iff image_eqI rkey_resolve_of set_append)
  qed
qed

text \<open>The organisation a station belongs to, and a station that has been disconnected for a tier's time.\<close>

definition tenant_of :: "dtime \<Rightarrow> StatusRow list \<Rightarrow> string \<Rightarrow> string option" where
  "tenant_of now rows st =
     coalesce (Option.bind (latest_row now rows st) cs_org)
       (Option.bind (latest_row now (filter (\<lambda>r. cs_org r \<noteq> None) rows) st) cs_org)"

definition overdue :: "OfflineChargerMonitor \<Rightarrow> dtime \<Rightarrow> StatusRow list \<Rightarrow> string \<Rightarrow> string \<Rightarrow> string \<Rightarrow> bool" where
  "overdue mon now rows org ty st \<longleftrightarrow>
     tenant_of now rows st = Some org \<and>
     (\<exists>l. latest_row now rows st = Some l \<and> disconnected l \<and> of_int (threshold_of mon ty) \<le> total_seconds (now - cs_timestamp l))"

abbreviation floor_s :: "OfflineChargerMonitor \<Rightarrow> pyfloat" where
  "floor_s mon \<equiv> of_int (min (om_warn_after_s mon) (om_escalate_after_s mon))"

lemma latest_station: "latest_row now rows st = Some l \<Longrightarrow> l \<in> set rows \<and> cs_station l = st"
proof -
  let ?rs = "sort_key (\<lambda>r. (cs_timestamp r > now, - cs_created_at r, - cs_timestamp r)) (filter (\<lambda>r. cs_station r = st) rows)"
  assume "latest_row now rows st = Some l"
  then obtain rest where "?rs = l # rest" by (auto simp: latest_row_def split: list.splits)
  then have "l \<in> set ?rs" by (simp only: list.set_intros)
  then show ?thesis by simp
qed

lemma fetched: "c \<in> set (fetch_offline_chargers now m rows) \<longleftrightarrow> (\<exists>st. offline_of now m rows st = Some c)"
proof -
  have "st \<in> cs_station ` set rows" if "offline_of now m rows st = Some c" for st
    using that latest_station by (fastforce simp: offline_of_def split: option.splits)
  then show ?thesis by (auto simp: fetch_offline_chargers_def List.map_filter_def) force+
qed

lemma fetch_breaching:
  assumes "ty \<in> set OFFLINE_ALERT_TYPES"
  shows "breaching mon (fetch_offline_chargers now (floor_s mon) rows) org ty st \<longleftrightarrow> overdue mon now rows org ty st"
proof -
  have floor: "floor_s mon \<le> of_int (threshold_of mon ty)" by (simp add: threshold_of_def)
  have "offline_of now (floor_s mon) rows st' = Some c \<Longrightarrow> oc_station c = st'" for c st'
    by (auto simp: offline_of_def Let_def split: option.splits if_splits)
  then have "breaching mon (fetch_offline_chargers now (floor_s mon) rows) org ty st \<longleftrightarrow>
      (\<exists>c. offline_of now (floor_s mon) rows st = Some c \<and> oc_org c = Some org \<and> of_int (threshold_of mon ty) \<le> oc_offline_seconds c)"
    by (auto simp: breaching_def Bex_def fetched)
  also have "\<dots> \<longleftrightarrow> overdue mon now rows org ty st"
    using floor by (cases "latest_row now rows st") (auto simp: offline_of_def overdue_def tenant_of_def Let_def)
  finally show ?thesis .
qed

section \<open>Lemmas: the sweep keeps the table\<close>

lemma offline_ok_append: "offline_table_ok (as @ bs) \<longleftrightarrow> offline_table_ok as \<and> offline_table_ok bs"
  by (auto simp: offline_table_ok_def)

lemma resolve_offline_ok: "offline_table_ok tab \<Longrightarrow> offline_table_ok (snd (resolve_alert now org key tab))"
  by (auto simp: offline_table_ok_def resolve_alert_def update_where_def resolve_row_def offline_row_ok_def)

lemma upsert_offline_ok:
  assumes "offline_table_ok tab" "ty \<in> set OFFLINE_ALERT_TYPES" "map_of detail ''station_id'' = Some (PStr st)"
  shows "offline_table_ok (snd (upsert_alert fresh now org depot ty sev title detail (dedup_key_of ty st) tab))"
proof -
  have "offline_row_ok (bump_alert now sev title detail a)" if "a \<in> set tab" "open_for org (dedup_key_of ty st) a" for a
  proof -
    have a: "offline_row_ok a" "nt_dedup_key a = dedup_key_of ty st" using assms(1) that by (auto simp: offline_table_ok_def open_for_def)
    then show ?thesis
      using row_of_key [OF a assms(2)] station_of_offline(1) [OF a(1) _ a(2) assms(2)] assms(3)
      by (auto simp: offline_row_ok_def bump_alert_def)
  qed
  then have "offline_table_ok (update_where (open_for org (dedup_key_of ty st)) (bump_alert now sev title detail) tab)"
    using assms(1) by (auto simp: offline_table_ok_def update_where_def)
  moreover have "offline_row_ok (new_alert fresh now org depot ty sev title detail (dedup_key_of ty st))"
    using assms(2,3) by (auto simp: offline_row_ok_def new_alert_def)
  ultimately show ?thesis
    using assms(1) by (auto simp: upsert_alert_def Let_def offline_table_ok_def split: option.split)
qed

lemma apply_upserts_offline_ok:
  assumes "\<And>u. u \<in> set us \<Longrightarrow> \<exists>ty\<in>set OFFLINE_ALERT_TYPES. pu_type u = ty \<and> pu_dedup_key u = dedup_key_of ty (pu_station u) \<and>
      map_of (pu_detail u) ''station_id'' = Some (PStr (pu_station u))"
    and "offline_table_ok tab \<and> table_inv tab"
  shows "offline_table_ok (snd (apply_upserts ids n us tab)) \<and> table_inv (snd (apply_upserts ids n us tab))"
  using assms
proof (induction us arbitrary: n tab)
  case (Cons u us)
  obtain r tab' where r: "upsert_alert (fst (ids n)) (snd (ids n)) (pu_org u) (pu_depot u) (pu_type u) (pu_severity u) (pu_title u)
      (pu_detail u) (pu_dedup_key u) tab = (r, tab')" by fastforce
  have "offline_table_ok tab'" using upsert_offline_ok [of tab "pu_type u" "pu_detail u" "pu_station u"] Cons.prems r by (metis list.set_intros(1) snd_conv)
  moreover have "table_inv tab'" using upsert_table_inv Cons.prems(2) r by (metis snd_conv)
  ultimately show ?case using Cons.IH [of tab' "Suc n"] Cons.prems(1) r by (auto split: sum.split)
qed simp

lemma apply_resolves_offline_ok:
  "offline_table_ok tab \<and> table_inv tab \<Longrightarrow> offline_table_ok (apply_resolves now rs tab) \<and> table_inv (apply_resolves now rs tab)"
proof (induction rs arbitrary: tab)
  case (Cons r rs)
  let ?tab = "snd (resolve_alert now (pr_org r) (pr_dedup_key r) tab)"
  have "offline_table_ok ?tab \<and> table_inv ?tab"
    using Cons.prems resolve_offline_ok evolve_table_inv [OF resolve_alert_evolves] by blast
  from Cons.IH [OF this] show ?case by (simp add: apply_resolves_def)
qed (simp add: apply_resolves_def)

section \<open>Properties\<close>

text \<open>C31: After a sweep the open offline alerts are exactly those the connector states call for: the sweep
  returns, and an organisation has an open alert of a tier for a station if and only if the station was
  disconnected for the tier's time when the sweep fetched, belongs to that organisation, and is still
  disconnected when the sweep checks again; all others, of stations that came back, fell under a threshold
  or changed their organisation, are resolved. It needs that no station has open alerts under two
  organisations.\<close>
theorem sweep_exact:
  assumes "offline_table_ok tab" and "single_tenant tab" and "fresh_ids (sv_ids env) tab" and "ty \<in> set OFFLINE_ALERT_TYPES"
  shows "fst (run_once mon env tab) = Inr (sweep_plan mon env tab) \<and>
    ((\<exists>a\<in>set (snd (run_once mon env tab)). open_for org (dedup_key_of ty st) a) \<longleftrightarrow>
       overdue mon (sv_now env) (sv_rows env) org ty st \<and> station_offline (sv_recheck_now env) (sv_recheck_rows env) st)"
proof -
  let ?active = "list_active_by_types OFFLINE_ALERT_TYPES tab" and ?str = "sv_str_of env" and ?now = "sv_recheck_now env"
    and ?rows = "sv_recheck_rows env" and ?key = "(org, dedup_key_of ty st)"
  define offline where "offline = fetch_offline_chargers (sv_now env) (floor_s mon) (sv_rows env)"
  obtain us rs where w: "sweep_writes ?str (plan_for mon ?str offline ?active) ?active ?now ?rows = (us, rs)" by fastforce
  note act = written_upserts [of ty org st ?str mon offline ?active ?now ?rows, OF assms(4)]
    written_resolve_sound [of ?active ty org st ?str mon offline ?now ?rows, OF _ assms(4)]
  have ok: "active_ok ?active" using assms(1) by (simp add: active_ok_def set_active offline_table_ok_def)
  obtain tab' where u: "apply_upserts (sv_ids env) 0 us tab = (None, tab')" "open_keys tab' = open_keys tab \<union> ukey ` set us"
    using apply_upserts_ok [of "sv_ids env" 0 tab us] assms(3) unfolding fresh_ids_def by (metis prod.collapse)
  have run: "run_once mon env tab = (Inr (sweep_plan mon env tab), apply_resolves (sv_resolve_now env) rs tab')"
    using w u(1) by (simp add: run_once_def sweep_plan_def offline_def Let_def)
  have keys: "?key \<in> open_keys (snd (run_once mon env tab)) \<longleftrightarrow> (?key \<in> open_keys tab \<or> ?key \<in> ukey ` set us) \<and> ?key \<notin> rkey ` set rs"
    by (simp add: run resolves_open_keys u(2))
  have "?key \<in> rkey ` set rs" if open_key: "?key \<in> open_keys tab" "?key \<notin> ukey ` set us"
  proof -
    obtain a where a: "a \<in> set tab" "nt_status a \<noteq> Resolved" "nt_org a = org" "nt_dedup_key a = dedup_key_of ty st"
      using open_key(1) by (auto simp: open_keys_def)
    then have "a \<in> set ?active" using row_of_key assms(1,4) by (auto simp: set_active offline_table_ok_def)
    moreover have "nt_org b = nt_org a" if "b \<in> set ?active" "nt_dedup_key b = nt_dedup_key a" for b
      using that assms(2) a(1,2) unfolding single_tenant_def set_active by blast
    ultimately show ?thesis
      using written_resolve_complete [OF ok assms(4) _ a(4), of mon offline ?now ?rows ?str] act(1) w open_key(2) a(3,4) by auto
  qed
  then have "?key \<in> open_keys (snd (run_once mon env tab)) \<longleftrightarrow> breaching mon offline org ty st \<and> station_offline ?now ?rows st"
    using keys act(1) act(2) [OF ok] w by auto
  with run show ?thesis by (simp add: open_keys_iff fetch_breaching [OF assms(4)] offline_def)
qed

definition lost_row :: "string \<Rightarrow> dtime \<Rightarrow> StatusRow" where
  "lost_row st t = \<lparr>cs_station = st, cs_status = ''Unavailable'', cs_error_code = Some ''ConnectionLost'', cs_timestamp = t, cs_created_at = t,
     cs_org = Some ''org'', cs_depot = None\<rparr>"

definition demo_monitor :: OfflineChargerMonitor where
  "demo_monitor = \<lparr>om_warn_after_s = 10800, om_escalate_after_s = 86400\<rparr>"

definition demo_sweep :: sweep_env where
  "demo_sweep = \<lparr>sv_now = 4 * usec_per_hour, sv_rows = [lost_row ''s1'' 0], sv_recheck_now = 4 * usec_per_hour, sv_recheck_rows = [lost_row ''s1'' 0],
     sv_ids = \<lambda>n. (nat_str n, 0), sv_resolve_now = 0, sv_str_of = \<lambda>_. []\<rparr>"

text \<open>Four hours after the drop the warning is open.\<close>
theorem sweep_exact_witness:
  "\<exists>a\<in>set (snd (run_once demo_monitor demo_sweep [])). open_for ''org'' (dedup_key_of ALERT_TYPE_3H ''s1'') a"
proof -
  have latest: "latest_row t [lost_row ''s1'' 0] ''s1'' = Some (lost_row ''s1'' 0)" for t by (simp add: latest_row_def lost_row_def)
  have "overdue demo_monitor (sv_now demo_sweep) (sv_rows demo_sweep) ''org'' ALERT_TYPE_3H ''s1''"
    by (simp add: overdue_def tenant_of_def latest demo_sweep_def demo_monitor_def total_seconds_def usec_values coalesce_def)
      (simp add: lost_row_def disconnected_def)
  moreover have "station_offline (sv_recheck_now demo_sweep) (sv_recheck_rows demo_sweep) ''s1''"
    by (simp add: station_offline_def demo_sweep_def latest) (simp add: lost_row_def disconnected_def)
  moreover have "offline_table_ok []" "single_tenant []" by (simp_all add: offline_table_ok_def single_tenant_def)
  moreover have "fresh_ids (sv_ids demo_sweep) []" by (auto simp: fresh_ids_def demo_sweep_def inj_on_def dest: nat_str_inject)
  ultimately show ?thesis using sweep_exact [of "[]" demo_sweep ALERT_TYPE_3H demo_monitor "''org''" "''s1''"] by (simp add: set_types)
qed


text \<open>Every sweep, one that the database interrupts included, keeps the table of the alerts
  well-formed: one open alert at most for a key, and the key and the station of an offline alert agree.\<close>
theorem sweep_keeps_table:
  assumes "offline_table_ok tab" and "table_inv tab"
  shows "offline_table_ok (snd (run_once mon env tab)) \<and> table_inv (snd (run_once mon env tab))"
proof -
  let ?active = "list_active_by_types OFFLINE_ALERT_TYPES tab"
  obtain us rs where w: "sweep_writes (sv_str_of env) (sweep_plan mon env tab) ?active (sv_recheck_now env) (sv_recheck_rows env) = (us, rs)"
    by fastforce
  have "us = fst (sweep_writes (sv_str_of env) (sweep_plan mon env tab) ?active (sv_recheck_now env) (sv_recheck_rows env))" by (simp add: w)
  then have "set us \<subseteq> set (sw_upserts (sweep_plan mon env tab))" by (auto simp: sweep_writes_def Let_def)
  then have planned: "\<exists>ty\<in>set OFFLINE_ALERT_TYPES. pu_type u = ty \<and> pu_dedup_key u = dedup_key_of ty (pu_station u) \<and>
      map_of (pu_detail u) ''station_id'' = Some (PStr (pu_station u))" if "u \<in> set us" for u
    using upsert_planned that unfolding sweep_plan_def by blast
  obtain e tab' where t: "apply_upserts (sv_ids env) 0 us tab = (e, tab')" by fastforce
  then have "offline_table_ok tab' \<and> table_inv tab'" using apply_upserts_offline_ok [OF planned] assms by (metis snd_conv)
  then show ?thesis using w t apply_resolves_offline_ok by (auto simp: run_once_def Let_def split: option.split)
qed

theorem sweep_keeps_table_witness:
  "offline_table_ok (snd (run_once demo_monitor demo_sweep [])) \<and> table_inv (snd (run_once demo_monitor demo_sweep []))"
  by (rule sweep_keeps_table) (simp_all add: offline_table_ok_def table_inv_def open_count_def)

section \<open>Two organisations and one key\<close>

text \<open>Without the last hypothesis of the first property it fails: a station changed its organisation during
  an outage, so the same key is open under both; when it reconnects between the two readings, only the
  former organisation's alert is resolved, because the keys already seen carry no organisation.\<close>

definition moved_alert :: "string \<Rightarrow> string \<Rightarrow> Alert" where
  "moved_alert aid org =
     new_alert aid 0 org None ALERT_TYPE_3H WARNING [] [(''station_id'', PStr ''s1'')] (dedup_key_of ALERT_TYPE_3H ''s1'')"

definition moved_sweep :: sweep_env where
  "moved_sweep = demo_sweep\<lparr>sv_recheck_rows := [lost_row ''s1'' 0, (lost_row ''s1'' 1)\<lparr>cs_status := ''Available'', cs_error_code := None\<rparr>]\<rparr>"

lemma reconnected_alert_stays_open:
  "map nt_status (snd (run_once demo_monitor moved_sweep [moved_alert ''a'' ''former'', moved_alert ''b'' ''org''])) = [Resolved, Active]"
  by code_simp

end
