(* ===== verification/Recurring.thy ===== *)
theory Recurring
  imports Report_Timing "HOL-Library.Multiset"
begin

text \<open>
  Recurring schedules, \<open>src/src/core/scheduling/recurring.py\<close>: templates of daily trips are expanded into
  the trips of an optimisation horizon, and merged with the trips entered by hand. The zone is that of
  \<open>Report_Timing\<close>; a naive local time is a date and the microseconds of the day. A row is a record: the
  internal keys of the source (\<open>created_at\<close>, \<open>_template_id\<close>, \<dots>) are the fields by which a row extends the
  trip, and stripping them is \<open>truncate\<close>. The range of the years is not modelled.
\<close>

section \<open>Model: templates\<close>

definition DAYS_OF_WEEK :: "string list" where
  "DAYS_OF_WEEK = [''mon'', ''tue'', ''wed'', ''thu'', ''fri'', ''sat'', ''sun'']"

record RecurringTemplate =
  rt_template_id :: string
  rt_depot_id :: string
  rt_vehicle_id :: string
  rt_route_id :: string
  rt_departure :: int
  rt_return :: int
  rt_days_of_week :: "string list"
  rt_start_date :: pydate
  rt_end_date :: "pydate option"
  rt_required_soc :: pyfloat
  rt_energy_kwh :: "pyfloat option"
  rt_active :: bool
  rt_created_at :: dtime

definition crosses_midnight :: "RecurringTemplate \<Rightarrow> bool" where
  "crosses_midnight tpl \<longleftrightarrow> rt_return tpl \<le> rt_departure tpl"

record ScheduleCancellation =
  cx_template_id :: string
  cx_occurrence_date :: pydate

record Trip =
  tp_vehicle_id :: string
  tp_departure :: dtime
  tp_return :: dtime
  tp_energy_kwh :: "pyfloat option"
  tp_route_id :: string

record ManualRow = Trip +
  mr_created_at :: dtime

record RecurringRow = Trip +
  rr_source :: string
  rr_template_id :: string
  rr_created_at :: dtime
  rr_occurrence_date :: pydate

section \<open>Model: local times\<close>

type_synonym naive = "pydate \<times> int"

fun plus_minute :: "naive \<Rightarrow> naive" where
  "plus_minute (d, us) = (if us + usec_per_min < usec_per_day then (d, us + usec_per_min) else (next_day d, us + usec_per_min - usec_per_day))"

text \<open>The round trip is compared on the date, the hour and the minute.\<close>

definition is_nonexistent :: "zone \<Rightarrow> naive \<Rightarrow> bool" where
  "is_nonexistent z n \<longleftrightarrow>
     (let r = z_local z (z_utc z n)
      in snd r div usec_per_hour \<noteq> snd n div usec_per_hour \<or>
         (snd r div usec_per_min) mod 60 \<noteq> (snd n div usec_per_min) mod 60 \<or> fst r \<noteq> fst n)"

fun step_forward :: "nat \<Rightarrow> zone \<Rightarrow> naive \<Rightarrow> naive option" where
  "step_forward 0 z n = None"
| "step_forward (Suc k) z n =
     (let stepped = plus_minute n in if \<not> is_nonexistent z stepped then Some stepped else step_forward k z stepped)"

definition to_utc :: "zone \<Rightarrow> pydate \<Rightarrow> int \<Rightarrow> dtime" where
  "to_utc z d us =
     (if is_nonexistent z (d, us)
      then (case step_forward 120 z (d, us) of Some stepped \<Rightarrow> z_utc z stepped | None \<Rightarrow> z_utc z (d, us))
      else z_utc z (d, us))"

section \<open>Model: expansion\<close>

text \<open>The days of the \<open>while\<close> loop.\<close>

definition days_between :: "pydate \<Rightarrow> pydate \<Rightarrow> pydate list" where
  "days_between a b = map (plus_days a) [0..<nat (toordinal b - toordinal a + 1)]"

definition weekday_name :: "pydate \<Rightarrow> string" where
  "weekday_name d = DAYS_OF_WEEK ! nat (weekday d)"

definition occurs_on :: "(string \<times> pydate) set \<Rightarrow> RecurringTemplate \<Rightarrow> pydate \<Rightarrow> bool" where
  "occurs_on cancelled tpl d \<longleftrightarrow>
     rt_active tpl \<and> weekday_name d \<in> set (rt_days_of_week tpl) \<and> \<not> toordinal d < toordinal (rt_start_date tpl) \<and>
     (case rt_end_date tpl of None \<Rightarrow> True | Some e \<Rightarrow> \<not> toordinal d > toordinal e) \<and> (rt_template_id tpl, d) \<notin> cancelled"

definition occurrence :: "zone \<Rightarrow> RecurringTemplate \<Rightarrow> pydate \<Rightarrow> RecurringRow" where
  "occurrence z tpl d =
     \<lparr>tp_vehicle_id = rt_vehicle_id tpl, tp_departure = to_utc z d (rt_departure tpl),
      tp_return = to_utc z (if crosses_midnight tpl then next_day d else d) (rt_return tpl),
      tp_energy_kwh = rt_energy_kwh tpl, tp_route_id = rt_route_id tpl, rr_source = ''recurring'',
      rr_template_id = rt_template_id tpl, rr_created_at = rt_created_at tpl, rr_occurrence_date = d\<rparr>"

text \<open>\<open>aware\<close>: whether both ends of the horizon carry a time zone.\<close>

definition expand_recurring_templates ::
  "RecurringTemplate list \<Rightarrow> ScheduleCancellation list \<Rightarrow> zone \<Rightarrow> bool \<Rightarrow> dtime \<Rightarrow> dtime \<Rightarrow> RecurringRow list result" where
  "expand_recurring_templates templates cancellations z aware horizon_start horizon_end =
     (if \<not> aware then Inl ValueError
      else if horizon_end \<le> horizon_start then Inr []
      else let cancelled = set (map (\<lambda>c. (cx_template_id c, cx_occurrence_date c)) cancellations);
               walk_date = prev_day (fst (z_local z horizon_start));
               last_date = fst (z_local z horizon_end)
           in Inr (concat (map (\<lambda>d.
                List.map_filter (\<lambda>tpl.
                  if occurs_on cancelled tpl d \<and> horizon_start \<le> tp_departure (occurrence z tpl d) \<and>
                     tp_departure (occurrence z tpl d) < horizon_end
                  then Some (occurrence z tpl d) else None) templates) (days_between walk_date last_date))))"

section \<open>Model: merging with the manual rows\<close>

type_synonym trip_key = "string \<times> pydate"
type_synonym bucket = "ManualRow list \<times> RecurringRow list"

definition manual_key :: "zone \<Rightarrow> ManualRow \<Rightarrow> trip_key" where
  "manual_key z r = (tp_vehicle_id r, fst (z_local z (tp_departure r)))"

definition recurring_key :: "RecurringRow \<Rightarrow> trip_key" where
  "recurring_key r = (tp_vehicle_id r, rr_occurrence_date r)"

definition ensure :: "trip_key \<Rightarrow> (trip_key, bucket) pydict \<Rightarrow> bucket" where
  "ensure key by_key = (case map_of by_key key of None \<Rightarrow> ([], []) | Some b \<Rightarrow> b)"

definition add_manual :: "zone \<Rightarrow> (trip_key, bucket) pydict \<Rightarrow> ManualRow \<Rightarrow> (trip_key, bucket) pydict" where
  "add_manual z by_key r = (let k = manual_key z r; b = ensure k by_key in AList.update k (fst b @ [r], snd b) by_key)"

definition add_recurring :: "(trip_key, bucket) pydict \<Rightarrow> RecurringRow \<Rightarrow> (trip_key, bucket) pydict" where
  "add_recurring by_key r = (let k = recurring_key r; b = ensure k by_key in AList.update k (fst b, snd b @ [r]) by_key)"

definition max_of :: "dtime list \<Rightarrow> dtime" where
  "max_of xs = foldl max (hd xs) (tl xs)"

definition strip_manual :: "ManualRow \<Rightarrow> Trip" where
  "strip_manual r = Trip.truncate r"

definition strip_recurring :: "RecurringRow \<Rightarrow> Trip" where
  "strip_recurring r = Trip.truncate r"

definition merge_day :: "bucket \<Rightarrow> Trip list" where
  "merge_day b =
     (let manual = fst b; recurring = snd b
      in if manual \<noteq> [] \<and> recurring \<noteq> [] then
           (if max_of (map mr_created_at manual) \<ge> max_of (map rr_created_at recurring)
            then map strip_manual manual else map strip_recurring recurring)
         else if manual \<noteq> [] then map strip_manual manual else map strip_recurring recurring)"

definition by_key :: "zone \<Rightarrow> ManualRow list \<Rightarrow> RecurringRow list \<Rightarrow> (trip_key, bucket) pydict" where
  "by_key z manual_rows recurring_rows = foldl add_recurring (foldl (add_manual z) [] manual_rows) recurring_rows"

definition merge_recurring_with_manual :: "zone \<Rightarrow> ManualRow list \<Rightarrow> RecurringRow list \<Rightarrow> Trip list" where
  "merge_recurring_with_manual z manual_rows recurring_rows =
     sort_key tp_departure (concat (map (merge_day \<circ> snd) (by_key z manual_rows recurring_rows)))"

section \<open>Lemmas: local times\<close>

definition valid_naive :: "naive \<Rightarrow> bool" where
  "valid_naive n \<longleftrightarrow> valid_date (fst n) \<and> 0 \<le> snd n \<and> snd n < usec_per_day"

lemma plus_minute_valid: "valid_naive n \<Longrightarrow> valid_naive (plus_minute n)"
  using toordinal_next_day by (cases n) (auto simp: valid_naive_def usec_values)

lemma plus_minute_wall: "valid_naive n \<Longrightarrow> wall (plus_minute n) = wall n + usec_per_min"
  using toordinal_next_day by (cases n) (auto simp: valid_naive_def left_diff_distrib ring_distribs)

lemma plus_minutes:
  "valid_naive n \<Longrightarrow> valid_naive ((plus_minute ^^ k) n) \<and> wall ((plus_minute ^^ k) n) = wall n + int k * usec_per_min"
  by (induction k) (simp_all add: plus_minute_valid plus_minute_wall ring_distribs)

lemma wall_date: "valid_naive n \<Longrightarrow> toordinal (fst n) - 1 = wall n div usec_per_day"
proof (cases n)
  case (Pair d us)
  assume "valid_naive n"
  then have "us div usec_per_day = 0" by (simp add: valid_naive_def Pair div_pos_pos_trivial)
  moreover have "((toordinal d - 1) * usec_per_day + us) div usec_per_day = toordinal d - 1 + us div usec_per_day"
    by (simp add: usec_values)
  ultimately show ?thesis by (simp add: Pair)
qed

lemma plus_minutes_date:
  assumes "valid_naive n" "k \<le> 120"
  shows "toordinal (fst n) \<le> toordinal (fst ((plus_minute ^^ k) n))" "toordinal (fst ((plus_minute ^^ k) n)) \<le> toordinal (fst n) + 1"
proof -
  note m = plus_minutes [OF assms(1), of k]
  have "wall n \<le> wall ((plus_minute ^^ k) n)" "wall ((plus_minute ^^ k) n) \<le> wall n + usec_per_day"
    using m assms(2) by (auto simp: usec_values)
  then have "wall n div usec_per_day \<le> wall ((plus_minute ^^ k) n) div usec_per_day"
    "wall ((plus_minute ^^ k) n) div usec_per_day \<le> (wall n + usec_per_day) div usec_per_day"
    by (simp_all add: zdiv_mono1)
  moreover have "(wall n + usec_per_day) div usec_per_day = wall n div usec_per_day + 1" by (simp add: usec_values)
  ultimately show "toordinal (fst n) \<le> toordinal (fst ((plus_minute ^^ k) n))" "toordinal (fst ((plus_minute ^^ k) n)) \<le> toordinal (fst n) + 1"
    using wall_date [OF assms(1)] wall_date [of "(plus_minute ^^ k) n"] m by linarith+
qed

text \<open>The step forward finds the first minute that exists, if there is one within two hours.\<close>

lemma minutes_shift: "(plus_minute ^^ j) (plus_minute n) = (plus_minute ^^ Suc j) n"
  by (simp add: funpow_swap1)

lemma step_forward_Some:
  "step_forward k z n = Some m \<Longrightarrow>
     \<exists>j\<le>k. m = (plus_minute ^^ j) n \<and> \<not> is_nonexistent z m \<and> (\<forall>i. 0 < i \<longrightarrow> i < j \<longrightarrow> is_nonexistent z ((plus_minute ^^ i) n))"
proof (induction k arbitrary: n)
  case (Suc k)
  show ?case
  proof (cases "is_nonexistent z (plus_minute n)")
    case True
    with Suc.prems have "step_forward k z (plus_minute n) = Some m" by (simp add: Let_def)
    from Suc.IH [OF this] obtain j where j: "j \<le> k" "m = (plus_minute ^^ Suc j) n" "\<not> is_nonexistent z m"
      "\<forall>i. 0 < i \<longrightarrow> i < j \<longrightarrow> is_nonexistent z ((plus_minute ^^ Suc i) n)" unfolding minutes_shift by blast
    have "is_nonexistent z ((plus_minute ^^ i) n)" if "0 < i" "i < Suc j" for i
    proof (cases "i = 1")
      case False
      with that j(4) [rule_format, of "i - 1"] show ?thesis by simp
    qed (simp add: True)
    with j show ?thesis by (intro exI [of _ "Suc j"]) simp
  next
    case False
    with Suc.prems show ?thesis by (intro exI [of _ 1]) (auto simp: Let_def)
  qed
qed simp

lemma step_forward_None: "step_forward k z n = None \<Longrightarrow> 0 < i \<Longrightarrow> i \<le> k \<Longrightarrow> is_nonexistent z ((plus_minute ^^ i) n)"
proof (induction k arbitrary: n i)
  case (Suc k)
  then have first: "is_nonexistent z (plus_minute n)" "step_forward k z (plus_minute n) = None" by (auto simp: Let_def split: if_splits)
  show ?case
  proof (cases "i = 1")
    case False
    with Suc.IH [OF first(2), of "i - 1"] Suc.prems show ?thesis by (simp only: minutes_shift) simp
  qed (simp add: first)
qed simp

lemma to_utc_cases:
  obtains (resolved) k where "k \<le> 120" "to_utc z d us = z_utc z ((plus_minute ^^ k) (d, us))" "\<not> is_nonexistent z ((plus_minute ^^ k) (d, us))"
    "\<forall>i<k. is_nonexistent z ((plus_minute ^^ i) (d, us))"
  | (unresolved) "to_utc z d us = z_utc z (d, us)" "\<forall>i\<le>120. is_nonexistent z ((plus_minute ^^ i) (d, us))"
proof (cases "is_nonexistent z (d, us)")
  case False
  then show ?thesis using resolved [of 0] by (simp add: to_utc_def)
next
  case True
  have zero: "is_nonexistent z ((plus_minute ^^ i) (d, us))" if "i = 0" for i using that True by simp
  show ?thesis
  proof (cases "step_forward 120 z (d, us)")
    case None
    then have "\<forall>i\<le>120. is_nonexistent z ((plus_minute ^^ i) (d, us))" using step_forward_None zero by blast
    moreover have "to_utc z d us = z_utc z (d, us)" using None True by (simp add: to_utc_def)
    ultimately show ?thesis by (rule unresolved [rotated])
  next
    case (Some m)
    from step_forward_Some [OF this] obtain j where j: "j \<le> 120" "m = (plus_minute ^^ j) (d, us)" "\<not> is_nonexistent z m"
      "\<forall>i. 0 < i \<longrightarrow> i < j \<longrightarrow> is_nonexistent z ((plus_minute ^^ i) (d, us))" by blast
    have "to_utc z d us = z_utc z m" using Some True by (simp add: to_utc_def)
    moreover have "\<forall>i<j. is_nonexistent z ((plus_minute ^^ i) (d, us))" using j(4) zero by blast
    ultimately show ?thesis using j resolved by blast
  qed
qed

section \<open>Lemmas: expansion\<close>

text \<open>
  What the walk over the days relies on in a zone: a date before the local date of an instant has no
  wall-clock time after that instant (two dates before, none at it), and a date after it none before it.
\<close>

definition zone_days_ok :: "zone \<Rightarrow> bool" where
  "zone_days_ok z \<longleftrightarrow>
     (\<forall>u. valid_date (fst (z_local z u))) \<and>
     (\<forall>u n. valid_naive n \<longrightarrow> toordinal (fst n) < toordinal (fst (z_local z u)) \<longrightarrow> z_utc z n \<le> u) \<and>
     (\<forall>u n. valid_naive n \<longrightarrow> toordinal (fst n) + 2 \<le> toordinal (fst (z_local z u)) \<longrightarrow> z_utc z n < u) \<and>
     (\<forall>u n. valid_naive n \<longrightarrow> toordinal (fst (z_local z u)) < toordinal (fst n) \<longrightarrow> u \<le> z_utc z n)"

lemma to_utc_early:
  assumes "zone_days_ok z" "valid_naive (d, us)" "toordinal d + 2 \<le> toordinal (fst (z_local z u))"
  shows "to_utc z d us < u"
proof (rule to_utc_cases [of z d us])
  fix k assume k: "k \<le> 120" "to_utc z d us = z_utc z ((plus_minute ^^ k) (d, us))" "\<not> is_nonexistent z ((plus_minute ^^ k) (d, us))"
  let ?m = "(plus_minute ^^ k) (d, us)"
  have m: "valid_naive ?m" "toordinal (fst ?m) < toordinal (fst (z_local z u))"
    using plus_minutes [OF assms(2), of k] plus_minutes_date(2) [OF assms(2) k(1)] assms(3) by auto
  then have "z_utc z ?m \<le> u" using assms(1) unfolding zone_days_ok_def by blast
  moreover have "z_utc z ?m \<noteq> u" using k(3) m(2) by (auto simp: is_nonexistent_def Let_def)
  ultimately show ?thesis using k(2) by simp
next
  assume "to_utc z d us = z_utc z (d, us)"
  with assms show ?thesis unfolding zone_days_ok_def by (metis fst_conv)
qed

lemma to_utc_late:
  assumes "zone_days_ok z" "valid_naive (d, us)" "toordinal (fst (z_local z u)) < toordinal d"
  shows "u \<le> to_utc z d us"
proof (rule to_utc_cases [of z d us])
  fix k assume k: "k \<le> 120" "to_utc z d us = z_utc z ((plus_minute ^^ k) (d, us))"
  let ?m = "(plus_minute ^^ k) (d, us)"
  have "valid_naive ?m" "toordinal (fst (z_local z u)) < toordinal (fst ?m)"
    using plus_minutes [OF assms(2), of k] plus_minutes_date(1) [OF assms(2) k(1)] assms(3) by auto
  with assms(1) k(2) show ?thesis unfolding zone_days_ok_def by metis
next
  assume "to_utc z d us = z_utc z (d, us)"
  with assms show ?thesis unfolding zone_days_ok_def by (metis fst_conv)
qed

lemma set_days_between:
  assumes "valid_date a"
  shows "set (days_between a b) = {d. valid_date d \<and> toordinal a \<le> toordinal d \<and> toordinal d \<le> toordinal b}"
proof (intro equalityI subsetI)
  fix d assume "d \<in> set (days_between a b)"
  then show "d \<in> {d. valid_date d \<and> toordinal a \<le> toordinal d \<and> toordinal d \<le> toordinal b}"
    using plus_days_ord [OF assms] by (auto simp: days_between_def)
next
  fix d assume d: "d \<in> {d. valid_date d \<and> toordinal a \<le> toordinal d \<and> toordinal d \<le> toordinal b}"
  let ?n = "nat (toordinal d - toordinal a)"
  have "plus_days a ?n = d" using plus_days_ord [OF assms, of ?n] d by (intro toordinal_inject) auto
  with d show "d \<in> set (days_between a b)" unfolding days_between_def by (force intro: rev_image_eqI [of ?n])
qed

definition template_ok :: "RecurringTemplate \<Rightarrow> bool" where
  "template_ok tpl \<longleftrightarrow> 0 \<le> rt_departure tpl \<and> rt_departure tpl < usec_per_day"

definition cancelled_by :: "ScheduleCancellation list \<Rightarrow> (string \<times> pydate) set" where
  "cancelled_by cs = (\<lambda>c. (cx_template_id c, cx_occurrence_date c)) ` set cs"

lemma set_expanded:
  "set (concat (map (\<lambda>d. List.map_filter (\<lambda>t. if p t d then Some (g t d) else None) ts) ds)) = {g t d |t d. t \<in> set ts \<and> d \<in> set ds \<and> p t d}"
proof -
  have "set (List.map_filter (\<lambda>t. if p t d then Some (g t d) else None) ts) = {g t d |t. t \<in> set ts \<and> p t d}" for d
    by (induction ts) (auto simp: List.map_filter_simps)
  then show ?thesis by auto
qed

section \<open>Properties: expansion\<close>

text \<open>C28: The expansion is exact: for an aware, non-empty horizon and a zone whose clock changes keep the
  order of the dates, the rows are precisely the occurrences of the templates, over all dates, that the
  template's days, dates and cancellations admit and that depart within the horizon; the bounds of the
  walk over the local days lose none.\<close>
theorem expansion_exact:
  assumes "zone_days_ok z" and "\<forall>tpl\<in>set templates. template_ok tpl" and "horizon_start < horizon_end"
  shows "\<exists>rows. expand_recurring_templates templates cancellations z True horizon_start horizon_end = Inr rows \<and>
    set rows = {occurrence z tpl d |tpl d. tpl \<in> set templates \<and> valid_date d \<and> occurs_on (cancelled_by cancellations) tpl d \<and>
      horizon_start \<le> to_utc z d (rt_departure tpl) \<and> to_utc z d (rt_departure tpl) < horizon_end}"
proof -
  let ?walk = "prev_day (fst (z_local z horizon_start))" and ?stop = "fst (z_local z horizon_end)"
  have start: "valid_date (fst (z_local z horizon_start))" using assms(1) by (simp add: zone_days_ok_def)
  note walk = toordinal_prev_day [OF start]
  have dep: "tp_departure (occurrence z tpl d) = to_utc z d (rt_departure tpl)" for tpl d by (simp add: occurrence_def)
  have walked: "d \<in> set (days_between ?walk ?stop)"
    if "tpl \<in> set templates" "valid_date d" "horizon_start \<le> to_utc z d (rt_departure tpl)" "to_utc z d (rt_departure tpl) < horizon_end" for tpl d
  proof -
    have n: "valid_naive (d, rt_departure tpl)" using that(1,2) assms(2) by (auto simp: valid_naive_def template_ok_def)
    have "toordinal (fst (z_local z horizon_start)) < toordinal d + 2" using to_utc_early [OF assms(1) n, of horizon_start] that(3) by linarith
    moreover have "toordinal d \<le> toordinal ?stop" using to_utc_late [OF assms(1) n, of horizon_end] that(4) by linarith
    ultimately show ?thesis using walk that(2) by (simp add: set_days_between)
  qed
  have days: "d \<in> set (days_between ?walk ?stop) \<Longrightarrow> valid_date d" for d using walk by (simp add: set_days_between)
  let ?p = "\<lambda>tpl d. occurs_on (cancelled_by cancellations) tpl d \<and> horizon_start \<le> to_utc z d (rt_departure tpl) \<and>
      to_utc z d (rt_departure tpl) < horizon_end"
  have "expand_recurring_templates templates cancellations z True horizon_start horizon_end =
      Inr (concat (map (\<lambda>d. List.map_filter (\<lambda>tpl. if ?p tpl d then Some (occurrence z tpl d) else None) templates) (days_between ?walk ?stop)))"
    using assms(3) by (simp add: expand_recurring_templates_def Let_def dep cancelled_by_def)
  moreover have "{occurrence z tpl d |tpl d. tpl \<in> set templates \<and> d \<in> set (days_between ?walk ?stop) \<and> ?p tpl d} =
      {occurrence z tpl d |tpl d. tpl \<in> set templates \<and> valid_date d \<and> ?p tpl d}"
    using days walked by blast
  ultimately show ?thesis by (simp only: set_expanded sum.inject ex_simps simp_thms)
qed

section \<open>Lemmas: merging\<close>

lemma ensure_manual: "ensure k (add_manual z d r) = (if manual_key z r = k then (fst (ensure k d) @ [r], snd (ensure k d)) else ensure k d)"
  by (simp add: ensure_def add_manual_def Let_def)

lemma ensure_recurring: "ensure k (add_recurring d r) = (if recurring_key r = k then (fst (ensure k d), snd (ensure k d) @ [r]) else ensure k d)"
  by (simp add: ensure_def add_recurring_def Let_def)

lemma ensure_manuals: "ensure k (foldl (add_manual z) d ms) = (fst (ensure k d) @ filter (\<lambda>r. manual_key z r = k) ms, snd (ensure k d))"
  by (induction ms arbitrary: d) (simp_all add: ensure_manual)

lemma ensure_recurrings: "ensure k (foldl add_recurring d rs) = (fst (ensure k d), snd (ensure k d) @ filter (\<lambda>r. recurring_key r = k) rs)"
  by (induction rs arbitrary: d) (simp_all add: ensure_recurring)

lemma ensure_by_key: "ensure k (by_key z ms rs) = (filter (\<lambda>r. manual_key z r = k) ms, filter (\<lambda>r. recurring_key r = k) rs)"
  by (simp add: by_key_def ensure_recurrings ensure_manuals) (simp add: ensure_def)

lemma by_key_ok: "dict_ok (by_key z ms rs) \<and> keys (by_key z ms rs) = manual_key z ` set ms \<union> recurring_key ` set rs"
proof -
  have m: "dict_ok d \<Longrightarrow> dict_ok (foldl (add_manual z) d ms) \<and> keys (foldl (add_manual z) d ms) = keys d \<union> manual_key z ` set ms" for d
    by (induction ms arbitrary: d) (simp_all add: add_manual_def Let_def)
  have r: "dict_ok d \<Longrightarrow> dict_ok (foldl add_recurring d rs) \<and> keys (foldl add_recurring d rs) = keys d \<union> recurring_key ` set rs" for d
    by (induction rs arbitrary: d) (simp_all add: add_recurring_def Let_def)
  show ?thesis using m [of "[]"] r [of "foldl (add_manual z) [] ms"] by (simp add: by_key_def)
qed

lemma foldl_max_le: "foldl max a xs \<le> b \<longleftrightarrow> a \<le> b \<and> (\<forall>x\<in>set xs. x \<le> b)" for a :: int
  by (induction xs arbitrary: a) auto

lemma foldl_max_in: "foldl max a xs \<in> set (a # xs)" for a :: int
  by (induction xs arbitrary: a) (auto simp: max_def split: if_splits)

lemma max_of_in: "xs \<noteq> [] \<Longrightarrow> max_of xs \<in> set xs"
  unfolding max_of_def using foldl_max_in [of "hd xs" "tl xs"] by simp

lemma max_of_ge: "x \<in> set xs \<Longrightarrow> x \<le> max_of xs"
  unfolding max_of_def using foldl_max_le [of "hd xs" "tl xs" "foldl max (hd xs) (tl xs)"] by (cases xs) auto

lemma max_of_le: "xs \<noteq> [] \<Longrightarrow> ys \<noteq> [] \<Longrightarrow> max_of xs \<le> max_of ys \<longleftrightarrow> (\<forall>x\<in>set xs. \<exists>y\<in>set ys. x \<le> y)"
  by (meson max_of_in max_of_ge order_trans)

lemma max_of_less: "xs \<noteq> [] \<Longrightarrow> ys \<noteq> [] \<Longrightarrow> max_of xs < max_of ys \<longleftrightarrow> (\<forall>x\<in>set xs. \<exists>y\<in>set ys. x < y)"
  by (meson max_of_in max_of_ge order_le_less_trans order_less_le_trans)

text \<open>A list, split by a key whose values are listed without repetition.\<close>

lemma mset_by_key:
  "distinct ks \<Longrightarrow> f ` set xs \<subseteq> set ks \<Longrightarrow> mset (concat (map (\<lambda>k. filter (\<lambda>x. f x = k) xs) ks)) = mset xs"
proof (induction ks arbitrary: xs)
  case (Cons k ks)
  let ?ys = "filter (\<lambda>x. f x \<noteq> k) xs"
  have "filter (\<lambda>x. f x = k') xs = filter (\<lambda>x. f x = k') ?ys" if "k' \<in> set ks" for k'
    using that Cons.prems(1) by (auto intro: filter_cong)
  then have "map (\<lambda>k. filter (\<lambda>x. f x = k) xs) ks = map (\<lambda>k. filter (\<lambda>x. f x = k) ?ys) ks" by simp
  moreover have "mset (concat (map (\<lambda>k. filter (\<lambda>x. f x = k) ?ys) ks)) = mset ?ys" using Cons.prems by (intro Cons.IH) auto
  moreover have "mset (filter (\<lambda>x. f x = k) xs) + mset ?ys = mset xs" by (simp add: union_filter_mset_complement)
  ultimately show ?case by (simp only: list.map concat.simps mset_append)
qed simp

lemma mset_concat_append: "mset (concat (map (\<lambda>k. f k @ g k) ks)) = mset (concat (map f ks)) + mset (concat (map g ks))"
  by (induction ks) simp_all

lemma mset_map_by_key:
  assumes "distinct ks" "f ` set xs \<subseteq> set ks"
  shows "mset (concat (map (\<lambda>k. map g (filter (\<lambda>x. f x = k) xs)) ks)) = mset (map g xs)"
proof -
  have "concat (map (\<lambda>k. map g (filter (\<lambda>x. f x = k) xs)) ks) = map g (concat (map (\<lambda>k. filter (\<lambda>x. f x = k) xs) ks))"
    by (simp add: map_concat o_def)
  then show ?thesis by (simp only: mset_map mset_by_key [OF assms])
qed

definition keeps_manual :: "zone \<Rightarrow> ManualRow list \<Rightarrow> RecurringRow list \<Rightarrow> ManualRow \<Rightarrow> bool" where
  "keeps_manual z ms rs r \<longleftrightarrow>
     (\<forall>q\<in>set rs. recurring_key q = manual_key z r \<longrightarrow>
        (\<exists>m\<in>set ms. manual_key z m = manual_key z r \<and> rr_created_at q \<le> mr_created_at m))"

definition keeps_recurring :: "zone \<Rightarrow> ManualRow list \<Rightarrow> RecurringRow list \<Rightarrow> RecurringRow \<Rightarrow> bool" where
  "keeps_recurring z ms rs q \<longleftrightarrow>
     (\<forall>m\<in>set ms. manual_key z m = recurring_key q \<longrightarrow>
        (\<exists>r\<in>set rs. recurring_key r = recurring_key q \<and> mr_created_at m < rr_created_at r))"

definition merge_spec :: "zone \<Rightarrow> ManualRow list \<Rightarrow> RecurringRow list \<Rightarrow> Trip list" where
  "merge_spec z ms rs = map strip_manual (filter (keeps_manual z ms rs) ms) @ map strip_recurring (filter (keeps_recurring z ms rs) rs)"

lemma merge_day_by_key:
  fixes ms rs z
  defines "km \<equiv> (\<lambda>k. filter (\<lambda>r. manual_key z r = k) ms)" and "kr \<equiv> (\<lambda>k. filter (\<lambda>r. recurring_key r = k) rs)"
  shows "merge_day (km k, kr k) =
     map strip_manual (filter (\<lambda>r. manual_key z r = k) (filter (keeps_manual z ms rs) ms)) @
     map strip_recurring (filter (\<lambda>r. recurring_key r = k) (filter (keeps_recurring z ms rs) rs))"
proof -
  let ?wins = "\<forall>q\<in>set (kr k). \<exists>m\<in>set (km k). rr_created_at q \<le> mr_created_at m"
  let ?loses = "\<forall>m\<in>set (km k). \<exists>q\<in>set (kr k). mr_created_at m < rr_created_at q"
  have m: "filter (\<lambda>r. manual_key z r = k) (filter (keeps_manual z ms rs) ms) = (if ?wins then km k else [])"
    unfolding km_def kr_def by (auto simp: keeps_manual_def filter_empty_conv intro!: filter_cong)
  have r: "filter (\<lambda>r. recurring_key r = k) (filter (keeps_recurring z ms rs) rs) = (if ?loses then kr k else [])"
    unfolding km_def kr_def by (auto simp: keeps_recurring_def filter_empty_conv intro!: filter_cong)
  consider (both) "km k \<noteq> []" "kr k \<noteq> []" | (manual) "kr k = []" | (recurring) "km k = []" by blast
  then show ?thesis
  proof cases
    case both
    have wins: "max_of (map rr_created_at (kr k)) \<le> max_of (map mr_created_at (km k)) \<longleftrightarrow> ?wins" using both by (simp add: max_of_le)
    have loses: "max_of (map mr_created_at (km k)) < max_of (map rr_created_at (kr k)) \<longleftrightarrow> ?loses" using both by (simp add: max_of_less)
    show ?thesis unfolding m r wins [symmetric] loses [symmetric] using both by (simp add: merge_day_def Let_def not_less [symmetric])
  next
    case manual
    then show ?thesis unfolding m r by (cases "km k") (simp_all add: merge_day_def Let_def)
  next
    case recurring
    then show ?thesis unfolding m r by (cases "kr k") (simp_all add: merge_day_def Let_def)
  qed
qed

section \<open>Properties: merging\<close>

text \<open>C35: The merge keeps exactly the winners, each as often as it came in: it is, sorted by departure, the
  reference that keeps a manual row unless a recurring row of the same vehicle and local date was
  created later than all manual rows of that day, and a recurring row unless some manual row of its day
  is as new as all recurring rows of the day.\<close>
theorem merge_exact:
  "mset (merge_recurring_with_manual z manual_rows recurring_rows) = mset (merge_spec z manual_rows recurring_rows) \<and>
   sorted (map tp_departure (merge_recurring_with_manual z manual_rows recurring_rows))"
proof -
  let ?d = "by_key z manual_rows recurring_rows"
  let ?ms = "filter (keeps_manual z manual_rows recurring_rows) manual_rows" and ?rs = "filter (keeps_recurring z manual_rows recurring_rows) recurring_rows"
  let ?fm = "\<lambda>k. map strip_manual (filter (\<lambda>r. manual_key z r = k) ?ms)" and ?fr = "\<lambda>k. map strip_recurring (filter (\<lambda>r. recurring_key r = k) ?rs)"
  have dist: "distinct (map fst ?d)" and ks: "set (map fst ?d) = manual_key z ` set manual_rows \<union> recurring_key ` set recurring_rows"
    using by_key_ok [of z manual_rows recurring_rows] by (simp_all add: dict_ok_def keys_def)
  have "merge_day (snd e) = ?fm (fst e) @ ?fr (fst e)" if "e \<in> set ?d" for e
  proof -
    have "ensure (fst e) ?d = snd e" using that dist by (simp add: ensure_def map_of_is_SomeI [of ?d "fst e" "snd e"])
    then show ?thesis using merge_day_by_key [of z "fst e" manual_rows recurring_rows] by (simp add: ensure_by_key)
  qed
  then have "map (merge_day \<circ> snd) ?d = map (\<lambda>k. ?fm k @ ?fr k) (map fst ?d)" by simp
  then have "mset (merge_recurring_with_manual z manual_rows recurring_rows) = mset (concat (map (\<lambda>k. ?fm k @ ?fr k) (map fst ?d)))"
    by (simp only: merge_recurring_with_manual_def mset_sort)
  also have "\<dots> = mset (concat (map ?fm (map fst ?d))) + mset (concat (map ?fr (map fst ?d)))"
    by (rule mset_concat_append)
  also have "mset (concat (map ?fm (map fst ?d))) = mset (map strip_manual ?ms)"
    using ks by (intro mset_map_by_key [OF dist]) auto
  also have "mset (concat (map ?fr (map fst ?d))) = mset (map strip_recurring ?rs)"
    using ks by (intro mset_map_by_key [OF dist]) auto
  finally show ?thesis by (simp add: merge_spec_def merge_recurring_with_manual_def)
qed

section \<open>Properties: clock changes\<close>

text \<open>A departure that a clock change skips is moved to the first minute that exists: if some minute
  within two hours of the local time exists, \<open>_to_utc\<close> returns the instant of the first such minute, the
  local time itself if it exists, and the zone's clock shows that minute at that instant.\<close>
theorem to_utc_first_existing:
  assumes "k \<le> 120" and "\<not> is_nonexistent z ((plus_minute ^^ k) (d, us))" and "\<forall>i<k. is_nonexistent z ((plus_minute ^^ i) (d, us))"
  shows "to_utc z d us = z_utc z ((plus_minute ^^ k) (d, us)) \<and>
    fst (z_local z (to_utc z d us)) = fst ((plus_minute ^^ k) (d, us)) \<and>
    snd (z_local z (to_utc z d us)) div usec_per_min = snd ((plus_minute ^^ k) (d, us)) div usec_per_min"
proof (rule to_utc_cases [of z d us])
  fix j assume j: "j \<le> 120" "to_utc z d us = z_utc z ((plus_minute ^^ j) (d, us))" "\<not> is_nonexistent z ((plus_minute ^^ j) (d, us))"
    "\<forall>i<j. is_nonexistent z ((plus_minute ^^ i) (d, us))"
  with assms(2,3) have "j = k" by (metis linorder_neqE_nat)
  let ?m = "(plus_minute ^^ k) (d, us)"
  have minute: "x div usec_per_min = y div usec_per_min"
    if "x div usec_per_hour = y div usec_per_hour" "(x div usec_per_min) mod 60 = (y div usec_per_min) mod 60" for x y
  proof -
    have "v div usec_per_hour = v div usec_per_min div 60" for v by (simp add: usec_values zdiv_zmult2_eq [symmetric])
    with that show ?thesis by (metis mult_div_mod_eq)
  qed
  show ?thesis using j(2,3) \<open>j = k\<close> minute by (auto simp: is_nonexistent_def Let_def)
next
  assume "\<forall>i\<le>120. is_nonexistent z ((plus_minute ^^ i) (d, us))"
  with assms show ?thesis by blast
qed

text \<open>A zone that puts its clock forward by one hour at 02:00 of the second day of the calendar.\<close>

definition spring_zone :: zone where
  "spring_zone =
     \<lparr>z_local = \<lambda>u. let w = (if u < 26 * usec_per_hour then u else u + usec_per_hour)
                   in (date_of_ord (w div usec_per_day + 1), w mod usec_per_day),
      z_utc = \<lambda>n. if wall n < 27 * usec_per_hour then wall n else wall n - usec_per_hour\<rparr>"

text \<open>On that day 02:15 does not exist; the departure is at 03:00 local time, 02:00 UTC.\<close>
theorem to_utc_first_existing_witness:
  "to_utc spring_zone (1, 1, 2) (135 * usec_per_min) = 26 * usec_per_hour"
proof -
  have "to_utc spring_zone (1, 1, 2) (135 * usec_per_min) = z_utc spring_zone ((plus_minute ^^ 45) ((1, 1, 2), 135 * usec_per_min)) \<and>
    fst (z_local spring_zone (to_utc spring_zone (1, 1, 2) (135 * usec_per_min))) = fst ((plus_minute ^^ 45) ((1, 1, 2), 135 * usec_per_min)) \<and>
    snd (z_local spring_zone (to_utc spring_zone (1, 1, 2) (135 * usec_per_min))) div usec_per_min =
      snd ((plus_minute ^^ 45) ((1, 1, 2), 135 * usec_per_min)) div usec_per_min"
  proof (rule to_utc_first_existing)
    show "\<not> is_nonexistent spring_zone ((plus_minute ^^ 45) ((1, 1, 2), 135 * usec_per_min))" by code_simp
    show "\<forall>i<45. is_nonexistent spring_zone ((plus_minute ^^ i) ((1, 1, 2), 135 * usec_per_min))" by code_simp
  qed simp
  moreover have "z_utc spring_zone ((plus_minute ^^ 45) ((1, 1, 2), 135 * usec_per_min)) = 26 * usec_per_hour" by code_simp
  ultimately show ?thesis by simp
qed

definition demo_template :: RecurringTemplate where
  "demo_template =
     \<lparr>rt_template_id = ''t'', rt_depot_id = ''d'', rt_vehicle_id = ''v'', rt_route_id = ''r'', rt_departure = 6 * usec_per_hour,
      rt_return = 5 * usec_per_hour, rt_days_of_week = [''tue''], rt_start_date = (1, 1, 1), rt_end_date = None, rt_required_soc = 80,
      rt_energy_kwh = None, rt_active = True, rt_created_at = 0\<rparr>"

lemma fixed_zone_days_ok: "zone_days_ok (fixed_zone 0)"
proof -
  have local: "toordinal (fst (z_local (fixed_zone 0) u)) - 1 = u div usec_per_day" "valid_date (fst (z_local (fixed_zone 0) u))" for u
    by (simp_all add: fixed_zone_def date_of_ord)
  have utc: "z_utc (fixed_zone 0) n = wall n" for n by (simp add: fixed_zone_def)
  have less: "a < b" if "a div usec_per_day < b div usec_per_day" for a b :: int using that by (meson div_le_mono leD leI usec_pos(4) zdiv_mono1)
  show ?thesis
    unfolding zone_days_ok_def utc using local wall_date less
    by (smt (verit))
qed

text \<open>A template of the Tuesdays: the second day of the calendar is one.\<close>
theorem expansion_exact_witness:
  "\<exists>rows. expand_recurring_templates [demo_template] [] (fixed_zone 0) True 0 (2 * usec_per_day) = Inr rows \<and>
     occurrence (fixed_zone 0) demo_template (1, 1, 2) \<in> set rows"
proof -
  have "occurs_on (cancelled_by []) demo_template (1, 1, 2)" "valid_date (1, 1, 2)"
    "0 \<le> to_utc (fixed_zone 0) (1, 1, 2) (rt_departure demo_template)"
    "to_utc (fixed_zone 0) (1, 1, 2) (rt_departure demo_template) < 2 * usec_per_day" by code_simp+
  moreover have "template_ok demo_template" by code_simp
  ultimately show ?thesis
    using expansion_exact [OF fixed_zone_days_ok, of "[demo_template]" 0 "2 * usec_per_day" "[]"] by fastforce
qed

text \<open>A trip that departed before the horizon and returns within it is not emitted.\<close>

lemma overnight_trip_dropped:
  "expand_recurring_templates [demo_template\<lparr>rt_departure := 22 * usec_per_hour, rt_days_of_week := [''mon'']\<rparr>] [] (fixed_zone 0) True
     usec_per_day (usec_per_day + 12 * usec_per_hour) = Inr []"
  by code_simp

end
