(* ===== verification/Reconciliation.thy ===== *)
theory Reconciliation
  imports Session_Cost
begin

text \<open>
  The reconciliation of a charger's session log with the recorded session,
  \<open>src/src/core/reconciliation/session_log_reconciliation.py\<close>: the aggregate over the log entries, the
  integral of the telemetry (rows and samples are those of \<open>Session_Cost\<close>), the result with its source,
  and the upsert of the result. The tables the function reads are a record of lists; the columns it
  passes through \<open>_as_float\<close> are numeric, so that the conversion only keeps \<open>NULL\<close>.
\<close>

section \<open>Model: tables and results\<close>

record recon_session =
  rs_session_id :: string
  rs_station_id :: "string option"
  rs_connector_id :: "int option"
  rs_transaction_id :: "int option"
  rs_start_time :: "dtime option"
  rs_end_time :: "dtime option"
  rs_energy_delivered_kwh :: "pyfloat option"

record log_import =
  li_id :: string
  li_status :: string
  li_error_message :: "string option"

record log_entry =
  le_import_id :: string
  le_station_id :: "string option"
  le_transaction_id :: "int option"
  le_connector_id :: "int option"
  le_time :: dtime
  le_energy_kwh :: "pyfloat option"

record recon_db =
  db_sessions :: "recon_session list"
  db_imports :: "log_import list"
  db_entries :: "log_entry list"
  db_telemetry :: "telemetry_row list"

datatype ReconciliationSource = Reconciled | Partial | No_log_entries | No_session | Parse_failed

record ReconciliationResult =
  re_source :: ReconciliationSource
  re_our_energy_kwh :: "pyfloat option"
  re_charger_energy_kwh :: "pyfloat option"
  re_energy_delta_pct :: "pyfloat option"
  re_our_duration_s :: "int option"
  re_charger_duration_s :: "int option"
  re_our_start_time :: "dtime option"
  re_charger_start_time :: "dtime option"
  re_our_end_time :: "dtime option"
  re_charger_end_time :: "dtime option"
  re_notes :: "(string, pyval) pydict"

definition bare_result :: "ReconciliationSource \<Rightarrow> (string, pyval) pydict \<Rightarrow> ReconciliationResult" where
  "bare_result src notes =
     \<lparr>re_source = src, re_our_energy_kwh = None, re_charger_energy_kwh = None, re_energy_delta_pct = None, re_our_duration_s = None,
      re_charger_duration_s = None, re_our_start_time = None, re_charger_start_time = None, re_our_end_time = None,
      re_charger_end_time = None, re_notes = notes\<rparr>"

section \<open>Model: the charger's side\<close>

text \<open>The \<open>WHERE\<close> clause of \<open>_CHARGER_AGGREGATE_SQL\<close>, for the import and the session.\<close>

definition entry_matches :: "string \<Rightarrow> recon_session \<Rightarrow> log_entry \<Rightarrow> bool" where
  "entry_matches imp s e \<longleftrightarrow>
     le_import_id e = imp \<and> (rs_station_id s = None \<or> le_station_id e = rs_station_id s) \<and>
     (case rs_transaction_id s of
        Some tx \<Rightarrow> le_transaction_id e = Some tx
      | None \<Rightarrow>
          (rs_connector_id s = None \<or> le_connector_id e = rs_connector_id s) \<and>
          (case rs_start_time s of None \<Rightarrow> True | Some t \<Rightarrow> t \<le> le_time e) \<and>
          (case rs_end_time s of None \<Rightarrow> True | Some t \<Rightarrow> le_time e \<le> t))"

text \<open>\<open>MIN\<close> and \<open>MAX\<close> of a column: \<open>NULL\<close> over no rows, and ignoring \<open>NULL\<close>s.\<close>

definition sql_min :: "'a :: linorder list \<Rightarrow> 'a option" where
  "sql_min xs = (if xs = [] then None else Some (foldl min (hd xs) (tl xs)))"

definition sql_max :: "'a :: linorder list \<Rightarrow> 'a option" where
  "sql_max xs = (if xs = [] then None else Some (foldl max (hd xs) (tl xs)))"

record charger_row =
  ch_sample_count :: nat
  ch_min_time :: "dtime option"
  ch_max_time :: "dtime option"
  ch_max_energy_kwh :: "pyfloat option"
  ch_min_energy_kwh :: "pyfloat option"

definition charger_aggregate :: "string \<Rightarrow> recon_session \<Rightarrow> log_entry list \<Rightarrow> charger_row" where
  "charger_aggregate imp s entries =
     (let es = filter (entry_matches imp s) entries; kwh = List.map_filter le_energy_kwh es
      in \<lparr>ch_sample_count = length es, ch_min_time = sql_min (map le_time es), ch_max_time = sql_max (map le_time es),
          ch_max_energy_kwh = sql_max kwh, ch_min_energy_kwh = sql_min kwh\<rparr>)"

definition charger_total_kwh :: "pyfloat option \<Rightarrow> pyfloat option \<Rightarrow> pyfloat option" where
  "charger_total_kwh max_energy_kwh min_energy_kwh =
     (case max_energy_kwh of
        None \<Rightarrow> None
      | Some hi \<Rightarrow>
          if hi \<le> 0 then None
          else case min_energy_kwh of
                 None \<Rightarrow> Some hi
               | Some lo \<Rightarrow> let delta = hi - lo in if delta \<le> 0 then Some 0 else Some delta)"

section \<open>Model: our side\<close>

definition TAIL_EXTRAPOLATION_CAP_SECONDS :: int where
  "TAIL_EXTRAPOLATION_CAP_SECONDS = 300"

definition recon_rows :: "(telemetry_row \<Rightarrow> bool) \<Rightarrow> dtime \<Rightarrow> dtime \<Rightarrow> telemetry_row list \<Rightarrow> (dtime \<times> pyfloat) list" where
  "recon_rows where_clause start end' tab =
     sort_key fst
       (map (\<lambda>r. (tr_time r, the (tr_charging_kw r)))
         (filter (\<lambda>r. where_clause r \<and> tr_time r \<ge> start - 15 * usec_per_min \<and> tr_time r < end' \<and> tr_charging_kw r \<noteq> None) tab))"

text \<open>One term of the two sums of \<open>_OUR_ENERGY_SQL\<close>: a trapezoid, or the capped tail.\<close>

definition recon_kwh :: "dtime \<Rightarrow> sample \<Rightarrow> pyfloat" where
  "recon_kwh end' s =
     (case sp_next s of
        Some (t', kw') \<Rightarrow> (sp_kw s + kw') / 2 * total_seconds (min t' end' - sp_time s) / 3600
      | None \<Rightarrow> sp_kw s * min (total_seconds (end' - sp_time s)) (of_int TAIL_EXTRAPOLATION_CAP_SECONDS) / 3600)"

definition energy_sql :: "(telemetry_row \<Rightarrow> bool) \<Rightarrow> dtime \<Rightarrow> dtime \<Rightarrow> telemetry_row list \<Rightarrow> pyfloat" where
  "energy_sql where_clause start end' tab =
     (let ss = bucketed start (with_lead (recon_rows where_clause start end' tab))
      in sum_list (map (recon_kwh end') (filter (\<lambda>s. sp_next s \<noteq> None) ss)) +
         sum_list (map (recon_kwh end') (filter (\<lambda>s. sp_next s = None) ss)))"

definition energy_query :: "(telemetry_row \<Rightarrow> bool) \<Rightarrow> dtime \<Rightarrow> dtime \<Rightarrow> telemetry_row list \<Rightarrow> pyfloat option" where
  "energy_query where_clause start end' tab =
     (let value = energy_sql where_clause start end' tab in if value \<le> 0 then None else Some value)"

definition our_energy_kwh ::
  "string option \<Rightarrow> int option \<Rightarrow> int option \<Rightarrow> dtime option \<Rightarrow> dtime option \<Rightarrow> telemetry_row list \<Rightarrow> pyfloat option" where
  "our_energy_kwh station_id connector_id transaction_id start_time end_time tab =
     (case (start_time, end_time, station_id, connector_id) of
        (Some start, Some end', Some st, Some cn) \<Rightarrow>
          (let here = (\<lambda>r. tr_station_id r = Some st \<and> tr_connector_id r = Some cn)
           in case transaction_id of
                Some tx \<Rightarrow>
                  (case energy_query (\<lambda>r. here r \<and> tr_transaction_id r = Some tx) start end' tab of
                     Some v \<Rightarrow> Some v
                   | None \<Rightarrow> energy_query (\<lambda>r. here r \<and> tr_transaction_id r \<in> {None, Some tx}) start end' tab)
              | None \<Rightarrow> energy_query here start end' tab)
      | _ \<Rightarrow> None)"

definition duration_s :: "dtime option \<Rightarrow> dtime option \<Rightarrow> int option" where
  "duration_s start end' =
     (case (start, end') of
        (Some a, Some b) \<Rightarrow> if b - a < 0 then None else Some ((b - a) div usec_per_sec)
      | _ \<Rightarrow> None)"

section \<open>Model: the reconciliation\<close>

definition delta_pct :: "pyfloat option \<Rightarrow> pyfloat option \<Rightarrow> pyfloat option" where
  "delta_pct ours charger =
     (case (ours, charger) of (Some o', Some c) \<Rightarrow> if o' > 0 then Some ((c - o') / o') else None | _ \<Rightarrow> None)"

definition have_both_sides :: "pyfloat option \<Rightarrow> pyfloat option \<Rightarrow> bool" where
  "have_both_sides ours charger \<longleftrightarrow> (case (ours, charger) of (Some o', Some c) \<Rightarrow> o' > 0 \<and> c > 0 | _ \<Rightarrow> False)"

definition reconcile_session_log :: "recon_db \<Rightarrow> string \<Rightarrow> string \<Rightarrow> ReconciliationResult" where
  "reconcile_session_log db session_id log_import_id =
     (case List.find (\<lambda>s. rs_session_id s = session_id) (db_sessions db) of
        None \<Rightarrow> bare_result No_session []
      | Some s \<Rightarrow>
          case List.find (\<lambda>i. li_id i = log_import_id) (db_imports db) of
            None \<Rightarrow> bare_result Parse_failed []
          | Some i \<Rightarrow>
              if li_status i = ''failed''
              then bare_result Parse_failed [(''import_error'', popt PStr (li_error_message i))]
              else let ch = charger_aggregate log_import_id s (db_entries db)
                   in if ch_sample_count ch = 0 then bare_result No_log_entries []
                      else let ours = our_energy_kwh (rs_station_id s) (rs_connector_id s) (rs_transaction_id s) (rs_start_time s)
                                 (rs_end_time s) (db_telemetry db);
                               charger = charger_total_kwh (ch_max_energy_kwh ch) (ch_min_energy_kwh ch)
                           in \<lparr>re_source = (if have_both_sides ours charger then Reconciled else Partial),
                               re_our_energy_kwh = ours, re_charger_energy_kwh = charger, re_energy_delta_pct = delta_pct ours charger,
                               re_our_duration_s = duration_s (rs_start_time s) (rs_end_time s),
                               re_charger_duration_s = duration_s (ch_min_time ch) (ch_max_time ch),
                               re_our_start_time = rs_start_time s, re_charger_start_time = ch_min_time ch,
                               re_our_end_time = rs_end_time s, re_charger_end_time = ch_max_time ch,
                               re_notes = [(''charger_entries'', PInt (int (ch_sample_count ch))),
                                           (''energy_delivered_kwh_recorded'', popt PFloat (rs_energy_delivered_kwh s))]\<rparr>)"

text \<open>The rows of \<open>session_log_reconciliations\<close>: when computed, and the result, by the unique key.\<close>

definition write_session_log_reconciliation ::
  "dtime \<Rightarrow> string \<Rightarrow> string \<Rightarrow> ReconciliationResult \<Rightarrow> (string \<times> string, dtime \<times> ReconciliationResult) pydict \<Rightarrow>
     (string \<times> string, dtime \<times> ReconciliationResult) pydict" where
  "write_session_log_reconciliation now session_id log_import_id r tab = AList.update (session_id, log_import_id) (now, r) tab"

section \<open>Lemmas: the integral\<close>

lemma with_lead_sample:
  assumes "sorted (map fst xs)" "s \<in> set (with_lead xs)"
  shows "(sp_time s, sp_kw s) \<in> set xs \<and> (\<forall>t kw. sp_next s = Some (t, kw) \<longrightarrow> (t, kw) \<in> set xs \<and> sp_time s \<le> t)"
  using assms by (induction xs rule: with_lead.induct) auto

lemma bucketed_sample:
  assumes "sorted (map fst xs)" "\<forall>x\<in>set xs. fst x < e" "start \<le> e" "s \<in> set (bucketed start (with_lead xs))"
  shows "0 \<le> sample_seconds e s \<and> sp_kw s \<in> snd ` set xs \<and> (\<forall>t kw. sp_next s = Some (t, kw) \<longrightarrow> kw \<in> snd ` set xs)"
proof -
  obtain r where r: "r \<in> set (with_lead xs)" "s = r\<lparr>sp_time := max (sp_time r) start\<rparr>"
    "\<forall>t kw. sp_next r = Some (t, kw) \<longrightarrow> start < t"
    using assms(4) by (auto simp: bucketed_def split: option.splits)
  note lead = with_lead_sample [OF assms(1) r(1)]
  have "0 \<le> sample_seconds e s"
    using lead r(2,3) assms(2,3) by (auto simp: sample_seconds_def total_seconds_def usec_per_sec_def split: option.splits)
  with lead r(2) show ?thesis by force
qed

lemma recon_kwh_bounds:
  assumes "0 \<le> sample_seconds e s" "0 \<le> sp_kw s" "sp_kw s \<le> p" "\<forall>t kw. sp_next s = Some (t, kw) \<longrightarrow> 0 \<le> kw \<and> kw \<le> p"
  shows "0 \<le> recon_kwh e s \<and> recon_kwh e s \<le> p * sample_seconds e s / 3600"
proof (cases "sp_next s")
  case None
  let ?x = "total_seconds (e - sp_time s)"
  have x: "0 \<le> ?x" using assms(1) None by (simp add: sample_seconds_def)
  then have "sp_kw s * min ?x 300 \<le> p * ?x" using assms(2,3) by (intro mult_mono) auto
  with None x assms(2) show ?thesis by (simp add: recon_kwh_def sample_seconds_def TAIL_EXTRAPOLATION_CAP_SECONDS_def divide_right_mono)
next
  case (Some n)
  obtain t kw where n: "n = (t, kw)" by fastforce
  let ?x = "total_seconds (min t e - sp_time s)"
  have x: "0 \<le> ?x" using assms(1) Some n by (simp add: sample_seconds_def)
  have "0 \<le> (sp_kw s + kw) / 2" "(sp_kw s + kw) / 2 \<le> p" using assms Some n by auto
  then have "0 \<le> (sp_kw s + kw) / 2 * ?x" "(sp_kw s + kw) / 2 * ?x \<le> p * ?x" using x by (simp, intro mult_right_mono)
  then show ?thesis using Some n by (simp add: recon_kwh_def sample_seconds_def divide_right_mono)
qed

lemma recon_rows_sorted: "sorted (map fst (recon_rows w start e tab))"
  by (simp add: recon_rows_def)

lemma recon_rows_in: "x \<in> set (recon_rows w start e tab) \<Longrightarrow> fst x < e \<and> (\<exists>r\<in>set tab. tr_charging_kw r = Some (snd x))"
  by (auto simp: recon_rows_def)

lemma sum_list_split: "sum_list (map f (filter p xs)) + sum_list (map f (filter (\<lambda>x. \<not> p x) xs)) = sum_list (map f xs)"
  for f :: "'a \<Rightarrow> pyfloat"
  by (induction xs) simp_all

lemma energy_sql_sum: "energy_sql w start e tab = sum_list (map (recon_kwh e) (bucketed start (with_lead (recon_rows w start e tab))))"
  unfolding energy_sql_def Let_def using sum_list_split [of "recon_kwh e" "\<lambda>s. sp_next s \<noteq> None"] by (simp only: not_not)

lemma energy_sql_bounds:
  assumes "start \<le> e" and kw: "\<forall>r\<in>set tab. \<forall>x. tr_charging_kw r = Some x \<longrightarrow> 0 \<le> x \<and> x \<le> p" and "0 \<le> p"
  shows "0 \<le> energy_sql w start e tab \<and> energy_sql w start e tab \<le> p * total_seconds (e - start) / 3600"
proof -
  let ?xs = "recon_rows w start e tab"
  let ?ss = "bucketed start (with_lead ?xs)"
  have before: "\<forall>x\<in>set ?xs. fst x < e" using recon_rows_in by blast
  have each: "0 \<le> recon_kwh e s \<and> recon_kwh e s \<le> p / 3600 * sample_seconds e s" if "s \<in> set ?ss" for s
  proof -
    note b = bucketed_sample [OF recon_rows_sorted before assms(1) that]
    have "x \<in> snd ` set ?xs \<Longrightarrow> 0 \<le> x \<and> x \<le> p" for x using kw recon_rows_in by fastforce
    with b recon_kwh_bounds [of e s p] show ?thesis by auto
  qed
  then have lo: "0 \<le> sum_list (map (recon_kwh e) ?ss)" by (intro sum_list_nonneg) auto
  have "sum_list (map (recon_kwh e) ?ss) \<le> sum_list (map (\<lambda>s. p / 3600 * sample_seconds e s) ?ss)"
    using each by (intro sum_list_mono) auto
  also have "\<dots> = p / 3600 * sum_list (map (sample_seconds e) ?ss)" by (rule sum_list_const_mult)
  also have "\<dots> \<le> p / 3600 * total_seconds (e - start)"
  proof (cases "?xs = []")
    case True
    with assms show ?thesis by (simp add: bucketed_def total_seconds_def usec_per_sec_def)
  next
    case False
    have "sum_list (map (sample_seconds e) ?ss) = total_seconds (e - max start (fst (hd ?xs)))"
      by (rule with_lead_seconds [OF recon_rows_sorted False before assms(1)])
    also have "\<dots> \<le> total_seconds (e - start)" by (simp add: total_seconds_mono)
    finally show ?thesis using assms(3) by (intro mult_left_mono) auto
  qed
  finally show ?thesis using lo by (simp add: energy_sql_sum)
qed

section \<open>Lemmas: the sides of a reconciliation\<close>

lemma our_energy_pos: "our_energy_kwh st cn tx start e tab = Some v \<Longrightarrow> 0 < v"
  by (auto simp: our_energy_kwh_def energy_query_def Let_def split: option.splits if_splits)

lemma our_energy_sql: "our_energy_kwh st cn tx (Some start) (Some e) tab = Some v \<Longrightarrow> \<exists>w. v = energy_sql w start e tab"
  by (auto simp: our_energy_kwh_def energy_query_def Let_def split: option.splits if_splits)

lemma our_energy_window: "our_energy_kwh st cn tx start e tab = Some v \<Longrightarrow> \<exists>a b. start = Some a \<and> e = Some b"
  by (cases start; cases e) (simp_all add: our_energy_kwh_def)

lemma charger_count: "ch_sample_count (charger_aggregate imp s es) = 0 \<longleftrightarrow> \<not> (\<exists>e\<in>set es. entry_matches imp s e)"
  by (auto simp: charger_aggregate_def Let_def filter_empty_conv)

lemma both_sides: "have_both_sides a b \<longleftrightarrow> (\<exists>x y. a = Some x \<and> b = Some y \<and> 0 < x \<and> 0 < y)"
  by (cases a; cases b) (simp_all add: have_both_sides_def)

lemma delta_pct_iff: "delta_pct a b = Some p \<longleftrightarrow> (\<exists>x y. a = Some x \<and> b = Some y \<and> 0 < x \<and> y = x * (1 + p))"
  by (cases a; cases b) (auto simp: delta_pct_def field_simps)

text \<open>A pass that reaches the end, and the passes that stop before.\<close>

definition healthy :: "recon_db \<Rightarrow> string \<Rightarrow> string \<Rightarrow> bool" where
  "healthy db session_id log_import_id \<longleftrightarrow>
     (\<exists>s i. List.find (\<lambda>s. rs_session_id s = session_id) (db_sessions db) = Some s \<and>
        List.find (\<lambda>i. li_id i = log_import_id) (db_imports db) = Some i \<and> li_status i \<noteq> ''failed'' \<and>
        (\<exists>e\<in>set (db_entries db). entry_matches log_import_id s e))"

lemma reconcile_cases:
  fixes db sid imp
  defines "r \<equiv> reconcile_session_log db sid imp"
  obtains (no_session) "List.find (\<lambda>s. rs_session_id s = sid) (db_sessions db) = None" "r = bare_result No_session []"
  | (failed) s where "List.find (\<lambda>s. rs_session_id s = sid) (db_sessions db) = Some s"
      "\<forall>i. List.find (\<lambda>i. li_id i = imp) (db_imports db) = Some i \<longrightarrow> li_status i = ''failed''" "\<exists>n. r = bare_result Parse_failed n"
  | (empty) s i where "List.find (\<lambda>s. rs_session_id s = sid) (db_sessions db) = Some s" "List.find (\<lambda>i. li_id i = imp) (db_imports db) = Some i"
      "li_status i \<noteq> ''failed''" "\<forall>e\<in>set (db_entries db). \<not> entry_matches imp s e" "r = bare_result No_log_entries []"
  | (ended) s where "List.find (\<lambda>s. rs_session_id s = sid) (db_sessions db) = Some s" "healthy db sid imp"
      "re_our_energy_kwh r = our_energy_kwh (rs_station_id s) (rs_connector_id s) (rs_transaction_id s) (rs_start_time s) (rs_end_time s) (db_telemetry db)"
      "re_energy_delta_pct r = delta_pct (re_our_energy_kwh r) (re_charger_energy_kwh r)"
      "re_source r = (if have_both_sides (re_our_energy_kwh r) (re_charger_energy_kwh r) then Reconciled else Partial)"
      "re_our_start_time r = rs_start_time s" "re_our_end_time r = rs_end_time s"
proof (cases "List.find (\<lambda>s. rs_session_id s = sid) (db_sessions db)")
  case None
  then show ?thesis by (intro no_session) (simp_all add: r_def reconcile_session_log_def)
next
  case s: (Some s)
  show ?thesis
  proof (cases "List.find (\<lambda>i. li_id i = imp) (db_imports db)")
    case None
    with s show ?thesis by (intro failed) (auto simp: r_def reconcile_session_log_def)
  next
    case i: (Some i)
    show ?thesis
    proof (cases "li_status i = ''failed''")
      case True
      with s i show ?thesis by (intro failed) (auto simp: r_def reconcile_session_log_def)
    next
      case False
      note found = s i False
      show ?thesis
      proof (cases "\<exists>e\<in>set (db_entries db). entry_matches imp s e")
        case True
        with found show ?thesis by (intro ended [of s]) (auto simp: r_def reconcile_session_log_def healthy_def Let_def charger_count)
      next
        case False
        with found show ?thesis by (intro empty) (auto simp: r_def reconcile_session_log_def Let_def charger_count)
      qed
    qed
  qed
qed

section \<open>Properties\<close>

text \<open>Every state of the tables has one documented outcome: the reconciliation never fails, it answers
  no_session exactly when the session is missing, parse_failed when the import is missing or failed,
  no_log_entries when no entry of the import belongs to the session, and otherwise reconciled exactly when
  both energies are positive, else partial; an outcome of the first three kinds carries no numbers, and a
  delta is there exactly when our energy is positive and the charger's is known, and then our energy
  times one plus the delta is the charger's.\<close>
theorem reconcile_outcomes:
  fixes db session_id log_import_id
  defines "r \<equiv> reconcile_session_log db session_id log_import_id"
    and "s \<equiv> List.find (\<lambda>s. rs_session_id s = session_id) (db_sessions db)" and "i \<equiv> List.find (\<lambda>i. li_id i = log_import_id) (db_imports db)"
  shows "(re_source r = No_session \<longleftrightarrow> s = None) \<and>
    (re_source r = Parse_failed \<longleftrightarrow> s \<noteq> None \<and> (\<nexists>x. i = Some x \<and> li_status x \<noteq> ''failed'')) \<and>
    (re_source r = No_log_entries \<longleftrightarrow>
       (\<exists>x y. s = Some x \<and> i = Some y \<and> li_status y \<noteq> ''failed'' \<and> \<not> (\<exists>e\<in>set (db_entries db). entry_matches log_import_id x e))) \<and>
    (re_source r = Reconciled \<longleftrightarrow> (\<exists>a b. re_our_energy_kwh r = Some a \<and> re_charger_energy_kwh r = Some b \<and> 0 < a \<and> 0 < b)) \<and>
    (r = bare_result (re_source r) (re_notes r) \<or> re_source r \<in> {Reconciled, Partial}) \<and>
    (\<forall>p. re_energy_delta_pct r = Some p \<longleftrightarrow>
       (\<exists>a b. re_our_energy_kwh r = Some a \<and> re_charger_energy_kwh r = Some b \<and> 0 < a \<and> b = a * (1 + p)))"
proof (rule reconcile_cases [where db = db and sid = session_id and imp = log_import_id, folded r_def s_def i_def])
  assume "s = None" "r = bare_result No_session []"
  then show ?thesis by (simp add: bare_result_def)
next
  fix x assume "s = Some x" "\<forall>y. i = Some y \<longrightarrow> li_status y = ''failed''" "\<exists>n. r = bare_result Parse_failed n"
  then show ?thesis by (auto simp: bare_result_def)
next
  fix x y assume "s = Some x" "i = Some y" "li_status y \<noteq> ''failed''" "\<forall>e\<in>set (db_entries db). \<not> entry_matches log_import_id x e"
    "r = bare_result No_log_entries []"
  then show ?thesis by (auto simp: bare_result_def)
next
  fix x assume x: "s = Some x" "healthy db session_id log_import_id" "re_energy_delta_pct r = delta_pct (re_our_energy_kwh r) (re_charger_energy_kwh r)"
    "re_source r = (if have_both_sides (re_our_energy_kwh r) (re_charger_energy_kwh r) then Reconciled else Partial)"
  have src: "re_source r \<in> {Reconciled, Partial}" "re_source r = Reconciled \<longleftrightarrow> have_both_sides (re_our_energy_kwh r) (re_charger_energy_kwh r)"
    using x(4) by auto
  obtain y where "i = Some y" "li_status y \<noteq> ''failed''" "\<exists>e\<in>set (db_entries db). entry_matches log_import_id x e"
    using x(1,2) by (auto simp: healthy_def s_def i_def)
  with src x(1) show ?thesis by (auto simp: x(3) delta_pct_iff both_sides)
qed

definition demo_session :: recon_session where
  "demo_session = \<lparr>rs_session_id = ''s'', rs_station_id = Some ''st'', rs_connector_id = Some 1, rs_transaction_id = Some 7,
     rs_start_time = Some usec_per_hour, rs_end_time = Some (2 * usec_per_hour), rs_energy_delivered_kwh = Some 11\<rparr>"

definition demo_entry :: "int \<Rightarrow> dtime \<Rightarrow> pyfloat \<Rightarrow> log_entry" where
  "demo_entry tx t kwh = \<lparr>le_import_id = ''i'', le_station_id = Some ''st'', le_transaction_id = Some tx, le_connector_id = Some 1, le_time = t,
     le_energy_kwh = Some kwh\<rparr>"

definition demo_sample :: "int \<Rightarrow> dtime \<Rightarrow> pyfloat \<Rightarrow> telemetry_row" where
  "demo_sample tx t kw = \<lparr>tr_vehicle_id = None, tr_station_id = Some ''st'', tr_connector_id = Some 1, tr_transaction_id = Some tx, tr_time = t,
     tr_charging_kw = Some kw\<rparr>"

definition demo_db :: recon_db where
  "demo_db = \<lparr>db_sessions = [demo_session], db_imports = [\<lparr>li_id = ''i'', li_status = ''parsed'', li_error_message = None\<rparr>],
     db_entries = [demo_entry 7 usec_per_hour 100, demo_entry 7 (2 * usec_per_hour) 111],
     db_telemetry = [demo_sample 7 usec_per_hour 10, demo_sample 7 (2 * usec_per_hour - usec_per_min) 10]\<rparr>"

text \<open>Ten kilowatts for an hour on our side, eleven kilowatt hours on the charger's: ten percent more.\<close>
theorem reconcile_outcomes_witness:
  "re_source (reconcile_session_log demo_db ''s'' ''i'') = Reconciled \<and>
   re_energy_delta_pct (reconcile_session_log demo_db ''s'' ''i'') = Some (1 / 10)"
proof -
  have "re_our_energy_kwh (reconcile_session_log demo_db ''s'' ''i'') = Some 10"
    "re_charger_energy_kwh (reconcile_session_log demo_db ''s'' ''i'') = Some 11" by code_simp+
  then show ?thesis using reconcile_outcomes [of demo_db "''s''" "''i''"] by simp
qed

text \<open>The integral of the telemetry is bounded by the power: for a session whose window is not reversed,
  when all recorded powers lie between zero and \<open>p\<close>, our energy is at most \<open>p\<close> times the length of the
  window, whatever the gaps between the samples, the samples before the window and the extrapolated tail.\<close>
theorem our_energy_within_power:
  assumes "re_our_energy_kwh (reconcile_session_log db session_id log_import_id) = Some v"
    and "re_our_start_time (reconcile_session_log db session_id log_import_id) = Some start"
    and "re_our_end_time (reconcile_session_log db session_id log_import_id) = Some end'" and "start \<le> end'" and "0 \<le> p"
    and "\<forall>r\<in>set (db_telemetry db). \<forall>x. tr_charging_kw r = Some x \<longrightarrow> 0 \<le> x \<and> x \<le> p"
  shows "0 < v \<and> v \<le> p * (total_seconds (end' - start) / 3600)"
proof (rule reconcile_cases [where db = db and sid = session_id and imp = log_import_id])
  fix s assume "re_our_energy_kwh (reconcile_session_log db session_id log_import_id) =
      our_energy_kwh (rs_station_id s) (rs_connector_id s) (rs_transaction_id s) (rs_start_time s) (rs_end_time s) (db_telemetry db)"
    and "re_our_start_time (reconcile_session_log db session_id log_import_id) = rs_start_time s"
      "re_our_end_time (reconcile_session_log db session_id log_import_id) = rs_end_time s"
  with assms(1-3) have v: "our_energy_kwh (rs_station_id s) (rs_connector_id s) (rs_transaction_id s) (Some start) (Some end') (db_telemetry db) = Some v"
    by simp
  obtain w where "v = energy_sql w start end' (db_telemetry db)" using our_energy_sql [OF v] by blast
  with energy_sql_bounds [OF assms(4,6,5), of w] our_energy_pos [OF v] show ?thesis by simp
qed (use assms(1) in \<open>auto simp: bare_result_def\<close>)

theorem our_energy_within_power_witness:
  "\<exists>v. re_our_energy_kwh (reconcile_session_log demo_db ''s'' ''i'') = Some v \<and> v \<le> 22 * (total_seconds (2 * usec_per_hour - usec_per_hour) / 3600)"
proof -
  have "re_our_energy_kwh (reconcile_session_log demo_db ''s'' ''i'') = Some 10"
    "re_our_start_time (reconcile_session_log demo_db ''s'' ''i'') = Some usec_per_hour"
    "re_our_end_time (reconcile_session_log demo_db ''s'' ''i'') = Some (2 * usec_per_hour)" by code_simp+
  moreover have "\<forall>r\<in>set (db_telemetry demo_db). \<forall>x. tr_charging_kw r = Some x \<longrightarrow> 0 \<le> x \<and> x \<le> 22" by (simp add: demo_db_def demo_sample_def)
  ultimately show ?thesis
    using our_energy_within_power [of demo_db "''s''" "''i''" 10 usec_per_hour "2 * usec_per_hour" 22] by (simp add: usec_values)
qed

text \<open>Nothing bleeds in from another transaction: for a session with a known transaction, log entries of
  other imports or transactions and samples tagged with another transaction do not change the result,
  however many the tables hold.\<close>
theorem foreign_rows_ignored:
  assumes "List.find (\<lambda>s. rs_session_id s = session_id) (db_sessions db) = Some s" and "rs_transaction_id s = Some tx"
    and "\<forall>e\<in>set es. le_import_id e \<noteq> log_import_id \<or> le_transaction_id e \<noteq> Some tx"
    and "\<forall>r\<in>set ts. tr_transaction_id r \<notin> {None, Some tx}"
  shows "reconcile_session_log (db\<lparr>db_entries := db_entries db @ es, db_telemetry := db_telemetry db @ ts\<rparr>) session_id log_import_id =
    reconcile_session_log db session_id log_import_id"
proof -
  have none: "filter (entry_matches log_import_id s) es = []" using assms(2,3) by (auto simp: filter_empty_conv entry_matches_def)
  have agg: "charger_aggregate log_import_id s (db_entries db @ es) = charger_aggregate log_import_id s (db_entries db)"
    by (simp add: charger_aggregate_def none)
  have rows: "recon_rows w start e (tab @ ts) = recon_rows w start e tab" if "\<And>r. r \<in> set ts \<Longrightarrow> \<not> w r" for w start e tab
  proof -
    have "filter (\<lambda>r. w r \<and> q r) ts = []" for q using that by (auto simp: filter_empty_conv)
    then show ?thesis unfolding recon_rows_def filter_append by simp
  qed
  have query: "energy_query w start e (tab @ ts) = energy_query w start e tab" if "\<And>r. r \<in> set ts \<Longrightarrow> \<not> w r" for w start e tab
    by (simp only: energy_query_def energy_sql_def rows [OF that])
  have ours: "our_energy_kwh st cn (Some tx) start e (tab @ ts) = our_energy_kwh st cn (Some tx) start e tab" for st cn start e tab
  proof -
    have "energy_query (\<lambda>r. h r \<and> tr_transaction_id r = Some tx) a b (tab @ ts) = energy_query (\<lambda>r. h r \<and> tr_transaction_id r = Some tx) a b tab"
      "energy_query (\<lambda>r. h r \<and> tr_transaction_id r \<in> {None, Some tx}) a b (tab @ ts) =
        energy_query (\<lambda>r. h r \<and> tr_transaction_id r \<in> {None, Some tx}) a b tab" for h a b
      using assms(4) by (intro query; auto)+
    note same = this
    show ?thesis
      by (cases start; cases e; cases st; cases cn; simp only: our_energy_kwh_def Let_def option.case prod.case same cong: option.case_cong)
  qed
  show ?thesis using assms(1,2) by (simp add: reconcile_session_log_def Let_def agg ours split: option.split)
qed

theorem foreign_rows_ignored_witness:
  "reconcile_session_log (demo_db\<lparr>db_entries := db_entries demo_db @ [demo_entry 8 usec_per_hour 5000],
      db_telemetry := db_telemetry demo_db @ [demo_sample 8 (usec_per_hour + 1) 150]\<rparr>) ''s'' ''i'' =
   reconcile_session_log demo_db ''s'' ''i''"
  by (rule foreign_rows_ignored [where s = demo_session and tx = 7])
    (simp_all add: demo_db_def, simp_all add: demo_session_def demo_entry_def demo_sample_def)

text \<open>A rerun replaces the row of its key and touches no other.\<close>

lemma rerun_overwrites:
  assumes "dict_ok tab"
  shows "dict_ok (write_session_log_reconciliation now sid imp r tab)"
    and "write_session_log_reconciliation now' sid imp r' (write_session_log_reconciliation now sid imp r tab) =
      write_session_log_reconciliation now' sid imp r' tab"
    and "map_of (write_session_log_reconciliation now sid imp r tab) = (map_of tab)((sid, imp) \<mapsto> (now, r))"
proof -
  have "AList.update k v' (AList.update k v d) = AList.update k v' d" for k v v' and d :: "('k \<times> 'v) list" by (induction d) auto
  then show "write_session_log_reconciliation now' sid imp r' (write_session_log_reconciliation now sid imp r tab) =
      write_session_log_reconciliation now' sid imp r' tab"
    by (simp add: write_session_log_reconciliation_def)
qed (simp_all add: assms write_session_log_reconciliation_def)

end
