(* ===== verification/Command_Queue.thy ===== *)
theory Command_Queue
  imports Interfaces "HOL-Library.Sublist"
begin

text \<open>
  The queue between optimiser and chargers: \<open>charging_command_queue\<close> and \<open>charger_log_imports\<close> with the
  statements of \<open>src/src/websocket_handler/timescale_client.py\<close>, the enqueueing of optimised schedules
  (\<open>src/src/adapters/ocpp/dispatch.py\<close>, \<open>charge_point.py\<close>), the consumer that drains the queue (class
  \<open>ChargingCommandQueueConsumer\<close> of \<open>charging_profile_manager.py\<close>) and the replay after a charger's boot
  (\<open>ocpp16_adapter.py\<close>). What a charger answers, what \<open>cp_lookup\<close> finds, the clocks and the failures of
  the database are arguments. A payload is a dictionary, as every enqueuer writes one. \<open>UUID(...)\<close> is the
  argument \<open>parse\<close>. A drain and a replay are one step each, although they await at every row: in the code a replay may come
  between the fetch and the push of a drain, and a row is then pushed twice. What is shown of the rows themselves rests on
  single statements, each guarded by its own condition on the status, and does not depend on this.
\<close>

section \<open>Model: the tables\<close>

datatype command_status = Pending | Sent | Acked | Failed | Expired

record command =
  cq_id :: int
  cq_cp :: string
  cq_connector :: int
  cq_type :: string
  cq_payload :: "(string, pyval) pydict"
  cq_status :: command_status
  cq_enqueued_at :: dtime
  cq_expires_at :: dtime
  cq_attempts :: int
  cq_last_error :: "string option"
  cq_sent_at :: "dtime option"
  cq_acked_at :: "dtime option"

definition enqueue_charging_command ::
  "int \<Rightarrow> dtime \<Rightarrow> string \<Rightarrow> int \<Rightarrow> (string, pyval) pydict \<Rightarrow> int \<Rightarrow> string \<Rightarrow> command list \<Rightarrow> command list" where
  "enqueue_charging_command qid now cp connector payload expires_in_min command_type tab =
     tab @ [\<lparr>cq_id = qid, cq_cp = cp, cq_connector = connector, cq_type = command_type, cq_payload = payload, cq_status = Pending,
             cq_enqueued_at = now, cq_expires_at = now + expires_in_min * usec_per_min, cq_attempts = 0, cq_last_error = None,
             cq_sent_at = None, cq_acked_at = None\<rparr>]"

definition live :: "dtime \<Rightarrow> command \<Rightarrow> bool" where
  "live now c \<longleftrightarrow> cq_status c = Pending \<and> cq_expires_at c > now"

definition fetch_pending_commands :: "dtime \<Rightarrow> string \<Rightarrow> command list \<Rightarrow> command list" where
  "fetch_pending_commands now cp tab = sort_key cq_enqueued_at (filter (\<lambda>c. cq_cp c = cp \<and> live now c) tab)"

definition fetch_pending_commands_all :: "dtime \<Rightarrow> nat \<Rightarrow> string list \<Rightarrow> command list \<Rightarrow> command list" where
  "fetch_pending_commands_all now limit excluded tab =
     take limit (sort_key cq_enqueued_at (filter (\<lambda>c. live now c \<and> cq_cp c \<notin> set excluded) tab))"

abbreviation pending_row :: "int \<Rightarrow> command \<Rightarrow> bool" where
  "pending_row qid c \<equiv> cq_id c = qid \<and> cq_status c = Pending"

definition mark_command_acked :: "dtime \<Rightarrow> int \<Rightarrow> command list \<Rightarrow> command list" where
  "mark_command_acked now qid tab =
     update_where (pending_row qid)
       (\<lambda>c. c\<lparr>cq_status := Acked, cq_sent_at := Some now, cq_acked_at := Some now, cq_attempts := cq_attempts c + 1\<rparr>) tab"

definition mark_command_failed :: "int \<Rightarrow> string \<Rightarrow> command list \<Rightarrow> command list" where
  "mark_command_failed qid error tab =
     update_where (pending_row qid)
       (\<lambda>c. c\<lparr>cq_status := Failed, cq_last_error := Some (take 500 error), cq_attempts := cq_attempts c + 1\<rparr>) tab"

definition mark_command_sent :: "dtime \<Rightarrow> int \<Rightarrow> command list \<Rightarrow> command list" where
  "mark_command_sent now qid tab =
     update_where (pending_row qid) (\<lambda>c. c\<lparr>cq_status := Sent, cq_sent_at := Some now, cq_attempts := cq_attempts c + 1\<rparr>) tab"

definition expire_overdue_commands :: "dtime \<Rightarrow> command list \<Rightarrow> nat \<times> command list" where
  "expire_overdue_commands now tab =
     (let p = (\<lambda>c. cq_status c = Pending \<and> cq_expires_at c \<le> now)
      in (length (filter p tab), update_where p (\<lambda>c. c\<lparr>cq_status := Expired\<rparr>) tab))"

definition queue_depth_by_status :: "command list \<Rightarrow> command_status \<Rightarrow> nat" where
  "queue_depth_by_status tab st = length (filter (\<lambda>c. cq_status c = st) tab)"

record log_import_row =
  im_id :: string
  im_status :: string
  im_requested_at :: dtime
  im_file_name :: "string option"
  im_error_message :: "string option"

definition expire_overdue_charger_log_imports :: "dtime \<Rightarrow> int \<Rightarrow> log_import_row list \<Rightarrow> nat \<times> log_import_row list" where
  "expire_overdue_charger_log_imports now ttl_seconds tab =
     (let p = (\<lambda>i. im_status i = ''requested'' \<and> im_requested_at i \<le> now - ttl_seconds * usec_per_sec \<or>
                   im_status i = ''uploading'' \<and> im_requested_at i \<le> now - ttl_seconds * 2 * usec_per_sec)
      in (length (filter p tab),
          update_where p (\<lambda>i. i\<lparr>im_status := ''expired'',
            im_error_message := coalesce (im_error_message i) (Some ''upload window elapsed without receiving file'')\<rparr>) tab))"

section \<open>Model: from a schedule to the queue\<close>

text \<open>\<open>convert_schedule_to_ocpp_profile\<close> with its two units.\<close>

record ocpp_period =
  op_start :: int
  op_limit :: pyfloat
  op_phases :: int

definition convert_schedule_to_ocpp_profile :: "(nat \<times> pyfloat) list \<Rightarrow> pyfloat \<Rightarrow> int \<Rightarrow> string \<Rightarrow> ocpp_period list" where
  "convert_schedule_to_ocpp_profile schedule delta_t number_phases charging_rate_unit =
     map (\<lambda>(t, power_kw).
       \<lparr>op_start = trunc (of_nat t * delta_t * 3600),
        op_limit = (if charging_rate_unit = ''A'' then (power_kw * 1000) / (of_int number_phases * 230) else of_int (trunc (power_kw * 1000))),
        op_phases = number_phases\<rparr>) schedule"

definition period_dict :: "ocpp_period \<Rightarrow> pyval" where
  "period_dict p = PDict [(''startPeriod'', PInt (op_start p)), (''limit'', PFloat (op_limit p)), (''numberPhases'', PInt (op_phases p))]"

definition profile_payload :: "ocpp_period list \<Rightarrow> (string, pyval) pydict" where
  "profile_payload periods =
     [(''chargingProfilePurpose'', PStr ''TxDefaultProfile''), (''chargingProfileKind'', PStr ''Absolute''), (''stackLevel'', PInt 0),
      (''chargingSchedule'', PDict [(''chargingRateUnit'', PStr ''A''), (''chargingSchedulePeriod'', PList (map period_dict periods))])]"

text \<open>\<open>enumerate(charging_power)\<close>, filtered.\<close>

definition positive_steps :: "pyfloat option list \<Rightarrow> (nat \<times> pyfloat) list" where
  "positive_steps charging_power =
     List.map_filter (\<lambda>(t, power). case power of None \<Rightarrow> None | Some p \<Rightarrow> if p > 0 then Some (t, p) else None) (enumerate 0 charging_power)"

text \<open>For each vehicle: the queue id and time the insert gets, or that it fails. The audit insert into
  \<open>charging_commands\<close> is best effort and read by no component.\<close>

fun dispatch_vehicles ::
  "(string \<Rightarrow> (int \<times> dtime) option) \<Rightarrow> (string, string \<times> int) pydict \<Rightarrow> pyfloat \<Rightarrow> int \<Rightarrow> (string \<times> pyfloat option list) list \<Rightarrow>
     (string, bool) pydict \<Rightarrow> command list \<Rightarrow> (string, bool) pydict \<times> command list" where
  "dispatch_vehicles env vmap delta_t expires_in_min [] results tab = (results, tab)"
| "dispatch_vehicles env vmap delta_t expires_in_min ((v, charging_power) # rest) results tab =
     (let skip = dispatch_vehicles env vmap delta_t expires_in_min rest (AList.update v False results) tab;
          schedule = positive_steps charging_power
      in case map_of vmap v of
           None \<Rightarrow> skip
         | Some (cp, connector) \<Rightarrow>
             if schedule = [] then skip
             else case env v of
                    None \<Rightarrow> skip
                  | Some (qid, now) \<Rightarrow>
                      dispatch_vehicles env vmap delta_t expires_in_min rest (AList.update v True results)
                        (enqueue_charging_command qid now cp connector
                          (profile_payload (convert_schedule_to_ocpp_profile schedule delta_t 3 ''A'')) expires_in_min
                          ''set_charging_profile'' tab))"

definition dispatch_charging_profiles ::
  "(string \<Rightarrow> (int \<times> dtime) option) \<Rightarrow> (string, string \<times> int) pydict result \<Rightarrow> pyfloat \<Rightarrow> int \<Rightarrow> (string \<times> pyfloat option list) list \<Rightarrow>
     command list \<Rightarrow> (string, bool) pydict result \<times> command list" where
  "dispatch_charging_profiles env vmap delta_t expires_in_min schedule tab =
     (case vmap of
        Inl e \<Rightarrow> (Inl e, tab)
      | Inr m \<Rightarrow> (let r = dispatch_vehicles env m delta_t expires_in_min schedule [] tab in (Inr (fst r), snd r)))"

section \<open>Model: the consumer\<close>

text \<open>A connected session: the calls it has, and whether \<open>send_charging_profile\<close> takes \<open>allow_enqueue\<close>.\<close>

record session =
  se_send_reset :: bool
  se_send_remote_start :: bool
  se_get_diagnostics :: bool
  se_allow_enqueue :: bool

datatype answer = Answer bool | Raised string

datatype file_answer = FileAnswer "string option" | FileRaised string

datatype push =
    PushProfile string int "(string, pyval) pydict"
  | PushReset string pyval
  | PushStart string int pyval
  | PushDiagnostics string "(string, pyval) pydict"

record row_env =
  rv_session :: "session option"
  rv_mono :: pyfloat
  rv_now :: dtime
  rv_answer :: answer
  rv_file :: file_answer
  rv_still_connected :: bool
  rv_mark_ok :: bool
  rv_import_ok :: bool

record ChargingCommandQueueConsumer =
  qc_queue :: "command list"
  qc_imports :: "log_import_row list"
  qc_offline :: "(string, pyfloat) pydict"
  qc_last_expiry_scan :: pyfloat

definition EXCLUDED_OFFLINE_RETRY_SECONDS :: pyfloat where
  "EXCLUDED_OFFLINE_RETRY_SECONDS = 30"

definition EXPIRY_SCAN_INTERVAL_SECONDS :: pyfloat where
  "EXPIRY_SCAN_INTERVAL_SECONDS = 60"

text \<open>\<open>_coerce_uuid\<close> with \<open>parse\<close> for the constructor, which may raise.\<close>

definition coerce_uuid :: "(pyval \<Rightarrow> string option) \<Rightarrow> pyval \<Rightarrow> string option" where
  "coerce_uuid parse v = (if v = PNone then None else parse v)"

definition set_failed :: "row_env \<Rightarrow> int \<Rightarrow> string \<Rightarrow> ChargingCommandQueueConsumer \<Rightarrow> ChargingCommandQueueConsumer" where
  "set_failed env qid error s = (if rv_mark_ok env then s\<lparr>qc_queue := mark_command_failed qid error (qc_queue s)\<rparr> else s)"

definition set_sent :: "row_env \<Rightarrow> int \<Rightarrow> ChargingCommandQueueConsumer \<Rightarrow> ChargingCommandQueueConsumer" where
  "set_sent env qid s = (if rv_mark_ok env then s\<lparr>qc_queue := mark_command_sent (rv_now env) qid (qc_queue s)\<rparr> else s)"

definition set_offline :: "row_env \<Rightarrow> string \<Rightarrow> ChargingCommandQueueConsumer \<Rightarrow> ChargingCommandQueueConsumer" where
  "set_offline env cp s = s\<lparr>qc_offline := AList.update cp (rv_mono env) (qc_offline s)\<rparr>"

definition mark_import_uploading ::
  "(pyval \<Rightarrow> string option) \<Rightarrow> row_env \<Rightarrow> (string, pyval) pydict \<Rightarrow> string \<Rightarrow> ChargingCommandQueueConsumer \<Rightarrow> ChargingCommandQueueConsumer" where
  "mark_import_uploading parse env payload filename s =
     (case coerce_uuid parse (pget payload ''import_id'') of
        None \<Rightarrow> s
      | Some iid \<Rightarrow>
          if rv_import_ok env
          then s\<lparr>qc_imports := update_where (\<lambda>i. im_id i = iid \<and> im_status i = ''requested'')
                   (\<lambda>i. i\<lparr>im_status := ''uploading'', im_file_name := coalesce (im_file_name i) (Some filename)\<rparr>) (qc_imports s)\<rparr>
          else s)"

definition mark_import_failed ::
  "(pyval \<Rightarrow> string option) \<Rightarrow> row_env \<Rightarrow> (string, pyval) pydict \<Rightarrow> string \<Rightarrow> ChargingCommandQueueConsumer \<Rightarrow> ChargingCommandQueueConsumer" where
  "mark_import_failed parse env payload reason s =
     (case coerce_uuid parse (pget payload ''import_id'') of
        None \<Rightarrow> s
      | Some iid \<Rightarrow>
          if rv_import_ok env
          then s\<lparr>qc_imports := update_where (\<lambda>i. im_id i = iid \<and> im_status i \<in> {''requested'', ''uploading''})
                   (\<lambda>i. i\<lparr>im_status := ''failed'', im_error_message := Some (take 500 reason)\<rparr>) (qc_imports s)\<rparr>
          else s)"

type_synonym handled = "bool \<times> push list \<times> ChargingCommandQueueConsumer"

definition handle_remote_reset ::
  "row_env \<Rightarrow> int \<Rightarrow> string \<Rightarrow> session \<Rightarrow> (string, pyval) pydict \<Rightarrow> ChargingCommandQueueConsumer \<Rightarrow> handled" where
  "handle_remote_reset env qid cp se payload s =
     (if \<not> se_send_reset se then (True, [], set_failed env qid ''session does not support send_reset'' s)
      else let reset_type = (case map_of payload ''type'' of None \<Rightarrow> PStr ''Soft'' | Some v \<Rightarrow> v); pushes = [PushReset cp reset_type]
           in case rv_answer env of
                Raised e \<Rightarrow> (True, pushes, set_failed env qid e s)
              | Answer ok \<Rightarrow> (True, pushes, if ok then set_sent env qid s else set_failed env qid ''charger Rejected Reset'' s))"

definition handle_remote_start_transaction ::
  "row_env \<Rightarrow> int \<Rightarrow> string \<Rightarrow> session \<Rightarrow> int \<Rightarrow> (string, pyval) pydict \<Rightarrow> ChargingCommandQueueConsumer \<Rightarrow> handled" where
  "handle_remote_start_transaction env qid cp se connector payload s =
     (if \<not> se_send_remote_start se then (True, [], set_failed env qid ''session does not support send_remote_start_transaction'' s)
      else let id_tag = (if truthy (pget payload ''id_tag'') then pget payload ''id_tag'' else pget payload ''idTag'')
           in if \<not> truthy id_tag then (True, [], set_failed env qid ''payload missing id_tag'' s)
              else let pushes = [PushStart cp connector id_tag]
                   in case rv_answer env of
                        Raised e \<Rightarrow> (True, pushes, set_failed env qid e s)
                      | Answer ok \<Rightarrow>
                          (True, pushes, if ok then set_sent env qid s else set_failed env qid ''charger Rejected RemoteStartTransaction'' s))"

definition diagnostics_kwargs :: "(string, pyval) pydict \<Rightarrow> (string, pyval) pydict" where
  "diagnostics_kwargs payload =
     (''location'', pget payload ''location'') #
     List.map_filter (\<lambda>k. if pget payload k = PNone then None else Some (k, pget payload k)) [''retries'', ''retry_interval'', ''start_time'', ''stop_time'']"

definition handle_get_diagnostics ::
  "(pyval \<Rightarrow> string option) \<Rightarrow> row_env \<Rightarrow> int \<Rightarrow> string \<Rightarrow> session \<Rightarrow> (string, pyval) pydict \<Rightarrow> ChargingCommandQueueConsumer \<Rightarrow> handled" where
  "handle_get_diagnostics parse env qid cp se payload s =
     (let failed = (\<lambda>error reason s. mark_import_failed parse env payload reason (set_failed env qid error s))
      in if \<not> se_get_diagnostics se
         then (True, [], failed ''session does not support get_diagnostics'' ''session does not support get_diagnostics'' s)
         else if \<not> truthy (pget payload ''location'') then (True, [], failed ''payload missing location'' ''payload missing location'' s)
         else let pushes = [PushDiagnostics cp (diagnostics_kwargs payload)]
              in case rv_file env of
                   FileRaised e \<Rightarrow> (True, pushes, failed e e s)
                 | FileAnswer None \<Rightarrow>
                     (True, pushes, failed ''charger Rejected GetDiagnostics or returned no filename'' ''charger Rejected GetDiagnostics'' s)
                 | FileAnswer (Some filename) \<Rightarrow> (True, pushes, mark_import_uploading parse env payload filename (set_sent env qid s)))"

definition handle_profile ::
  "row_env \<Rightarrow> int \<Rightarrow> string \<Rightarrow> session \<Rightarrow> int \<Rightarrow> (string, pyval) pydict \<Rightarrow> ChargingCommandQueueConsumer \<Rightarrow> handled" where
  "handle_profile env qid cp se connector payload s =
     (let pushes = [PushProfile cp connector payload]
      in case rv_answer env of
           Raised e \<Rightarrow>
             if se_allow_enqueue se \<and> \<not> rv_still_connected env then (False, pushes, set_offline env cp s)
             else (True, pushes, set_failed env qid e s)
         | Answer ok \<Rightarrow>
             (True, pushes, if ok then set_sent env qid s else set_failed env qid ''charger Rejected SetChargingProfile'' s))"

definition handle_row :: "(pyval \<Rightarrow> string option) \<Rightarrow> row_env \<Rightarrow> command \<Rightarrow> ChargingCommandQueueConsumer \<Rightarrow> handled" where
  "handle_row parse env c s =
     (let qid = cq_id c; cp = cq_cp c; payload = cq_payload c
      in case rv_session env of
           None \<Rightarrow> (False, [], set_offline env cp s)
         | Some se \<Rightarrow>
             if cq_type c = ''remote_reset'' then handle_remote_reset env qid cp se payload s
             else if cq_type c = ''remote_start_transaction'' then handle_remote_start_transaction env qid cp se (cq_connector c) payload s
             else if cq_type c = ''get_diagnostics'' then handle_get_diagnostics parse env qid cp se payload s
             else if cq_type c \<noteq> ''set_charging_profile'' then (True, [], set_failed env qid (''unknown command_type: '' @ cq_type c) s)
             else handle_profile env qid cp se (cq_connector c) payload s)"

record drain_env =
  dn_mono :: pyfloat
  dn_now :: dtime
  dn_fetch_ok :: bool
  dn_row :: "int \<Rightarrow> row_env"
  dn_parse :: "pyval \<Rightarrow> string option"

fun drain_rows :: "drain_env \<Rightarrow> command list \<Rightarrow> ChargingCommandQueueConsumer \<Rightarrow> nat \<times> push list \<times> ChargingCommandQueueConsumer" where
  "drain_rows env [] s = (0, [], s)"
| "drain_rows env (c # cs) s =
     (let r = handle_row (dn_parse env) (dn_row env (cq_id c)) c s; rest = drain_rows env cs (snd (snd r))
      in ((if fst r then 1 else 0) + fst rest, fst (snd r) @ fst (snd rest), snd (snd rest)))"

definition recently_offline :: "pyfloat \<Rightarrow> (string, pyfloat) pydict \<Rightarrow> (string, pyfloat) pydict" where
  "recently_offline now d = filter (\<lambda>e. now - snd e < EXCLUDED_OFFLINE_RETRY_SECONDS) d"

definition fetched :: "drain_env \<Rightarrow> ChargingCommandQueueConsumer \<Rightarrow> command list" where
  "fetched env s = fetch_pending_commands_all (dn_now env) 200 (map fst (recently_offline (dn_mono env) (qc_offline s))) (qc_queue s)"

definition drain_once :: "drain_env \<Rightarrow> ChargingCommandQueueConsumer \<Rightarrow> nat \<times> push list \<times> ChargingCommandQueueConsumer" where
  "drain_once env s =
     (let s1 = s\<lparr>qc_offline := recently_offline (dn_mono env) (qc_offline s)\<rparr>
      in if \<not> dn_fetch_ok env then (0, [], s1) else drain_rows env (fetched env s) s1)"

text \<open>The trigger's payload is \<open><queue_id>:<charge_point_id>\<close>.\<close>

definition on_notify :: "string \<Rightarrow> ChargingCommandQueueConsumer \<Rightarrow> ChargingCommandQueueConsumer" where
  "on_notify payload s =
     (if payload = [] then s\<lparr>qc_offline := []\<rparr>
      else case split_colon payload of
             None \<Rightarrow> s\<lparr>qc_offline := []\<rparr>
           | Some (_, cp) \<Rightarrow> if strip cp = [] then s else s\<lparr>qc_offline := AList.delete (strip cp) (qc_offline s)\<rparr>)"

text \<open>An iteration of \<open>_consume_loop\<close>: the clock after the drain, the times of the two updates with whether
  each succeeded, and the lifetime of an upload token.\<close>

record scan_env =
  sc_mono :: pyfloat
  sc_now :: dtime
  sc_commands_ok :: bool
  sc_imports_ok :: bool
  sc_ttl :: int

definition consume_iteration :: "drain_env \<Rightarrow> scan_env \<Rightarrow> ChargingCommandQueueConsumer \<Rightarrow> push list \<times> ChargingCommandQueueConsumer" where
  "consume_iteration env sc s =
     (let r = drain_once env s; s1 = snd (snd r)
      in (fst (snd r),
          if sc_mono sc - qc_last_expiry_scan s1 \<ge> EXPIRY_SCAN_INTERVAL_SECONDS then
            (let s2 = (if sc_commands_ok sc then s1\<lparr>qc_queue := snd (expire_overdue_commands (sc_now sc) (qc_queue s1))\<rparr> else s1);
                 s3 = (if sc_imports_ok sc
                       then s2\<lparr>qc_imports := snd (expire_overdue_charger_log_imports (sc_now sc) (sc_ttl sc) (qc_imports s2))\<rparr> else s2)
             in s3\<lparr>qc_last_expiry_scan := sc_mono sc\<rparr>)
          else s1))"

section \<open>Model: an OCPP 1.6 session\<close>

text \<open>
  What a push meets: the id from the sequence or the fallback, the charger's answer, whether the socket is
  open when asked after a raise and at the end, and what the insert into the queue gets.
\<close>

record send_env =
  sd_sequence_id :: "int option"
  sd_fallback_count :: int
  sd_answer :: answer
  sd_open_after_raise :: bool
  sd_open :: bool
  sd_enqueue :: "(int \<times> dtime) option"

record profile_call =
  pc_connector :: int
  pc_periods :: pyval
  pc_purpose :: pyval
  pc_kind :: pyval
  pc_rate_unit :: pyval
  pc_stack_level :: pyval
  pc_profile_id :: pyval

definition PROFILE_ID_FALLBACK_START :: int where
  "PROFILE_ID_FALLBACK_START = 9000000000000000000"

definition PROFILE_ID_FALLBACK_SPAN :: int where
  "PROFILE_ID_FALLBACK_SPAN = 100000000"

definition profile_call_of :: "send_env \<Rightarrow> int \<Rightarrow> (string, pyval) pydict \<Rightarrow> profile_call" where
  "profile_call_of env evse profile =
     (let cp_schedule = (case as_dict (get_or profile ''chargingSchedule'' (PDict [])) of None \<Rightarrow> [] | Some d \<Rightarrow> d);
          pid = (if pget profile ''chargingProfileId'' \<noteq> PNone then pget profile ''chargingProfileId''
                 else PInt (case sd_sequence_id env of
                              Some i \<Rightarrow> i
                            | None \<Rightarrow> PROFILE_ID_FALLBACK_START + sd_fallback_count env mod PROFILE_ID_FALLBACK_SPAN))
      in \<lparr>pc_connector = evse,
          pc_periods = get_or (if cp_schedule \<noteq> [] then cp_schedule else profile) ''chargingSchedulePeriod'' (PList []),
          pc_purpose = get_or profile ''chargingProfilePurpose'' (PStr ''TxDefaultProfile''),
          pc_kind = get_or profile ''chargingProfileKind'' (PStr ''Absolute''),
          pc_rate_unit = get_or cp_schedule ''chargingRateUnit'' (get_or profile ''chargingRateUnit'' (PStr ''A'')),
          pc_stack_level = get_or profile ''stackLevel'' (PInt 0), pc_profile_id = pid\<rparr>)"

definition send_charging_profile ::
  "send_env \<Rightarrow> string \<Rightarrow> int \<Rightarrow> (string, pyval) pydict \<Rightarrow> bool \<Rightarrow> command list \<Rightarrow> answer \<times> profile_call \<times> command list" where
  "send_charging_profile env station evse profile allow_enqueue tab =
     (let call = profile_call_of env evse profile;
          deferred = (if sd_open env then tab
                      else case sd_enqueue env of
                             None \<Rightarrow> tab
                           | Some (qid, now) \<Rightarrow> enqueue_charging_command qid now station evse profile 60 ''set_charging_profile'' tab)
      in case sd_answer env of
           Answer True \<Rightarrow> (Answer True, call, tab)
         | Answer False \<Rightarrow> (Answer False, call, if allow_enqueue then deferred else tab)
         | Raised e \<Rightarrow>
             if \<not> allow_enqueue then (Raised e, call, tab)
             else if sd_open_after_raise env then (Answer False, call, tab)
             else (Answer False, call, deferred))"

record replay_env =
  rp_now :: dtime
  rp_fetch_ok :: bool
  rp_send :: "int \<Rightarrow> send_env"
  rp_mark_now :: "int \<Rightarrow> dtime"
  rp_mark_ok :: "int \<Rightarrow> bool"

fun replay_rows :: "replay_env \<Rightarrow> string \<Rightarrow> command list \<Rightarrow> nat \<Rightarrow> command list \<Rightarrow> nat \<times> command list" where
  "replay_rows env station [] sent tab = (sent, tab)"
| "replay_rows env station (c # cs) sent tab =
     (if cq_type c \<noteq> ''set_charging_profile'' then replay_rows env station cs sent tab
      else let qid = cq_id c; ok = rp_mark_ok env qid
           in case fst (send_charging_profile (rp_send env qid) station (cq_connector c) (cq_payload c) False tab) of
                Raised e \<Rightarrow> replay_rows env station cs sent (if ok then mark_command_failed qid e tab else tab)
              | Answer True \<Rightarrow>
                  (if ok then replay_rows env station cs (sent + 1) (mark_command_acked (rp_mark_now env qid) qid tab)
                   else replay_rows env station cs sent tab)
              | Answer False \<Rightarrow>
                  replay_rows env station cs sent (if ok then mark_command_failed qid ''charger rejected SetChargingProfile'' tab else tab))"

definition replay_queued_commands :: "replay_env \<Rightarrow> string \<Rightarrow> command list \<Rightarrow> nat \<times> command list" where
  "replay_queued_commands env station tab =
     (if \<not> rp_fetch_ok env then (0, tab) else replay_rows env station (fetch_pending_commands (rp_now env) station tab) 0 tab)"

section \<open>Model: a run of the queue\<close>

datatype queue_op =
    QEnqueue int dtime string int "(string, pyval) pydict" int string
  | QDispatch "string \<Rightarrow> (int \<times> dtime) option" "(string, string \<times> int) pydict result" pyfloat int "(string \<times> pyfloat option list) list"
  | QConsume drain_env scan_env
  | QNotify string
  | QReplay replay_env string
  | QSend send_env string int "(string, pyval) pydict" bool

fun queue_step :: "ChargingCommandQueueConsumer \<Rightarrow> queue_op \<Rightarrow> ChargingCommandQueueConsumer" where
  "queue_step s (QEnqueue qid now cp connector payload expires_in_min command_type) =
     s\<lparr>qc_queue := enqueue_charging_command qid now cp connector payload expires_in_min command_type (qc_queue s)\<rparr>"
| "queue_step s (QDispatch env vmap delta_t expires_in_min schedule) =
     s\<lparr>qc_queue := snd (dispatch_charging_profiles env vmap delta_t expires_in_min schedule (qc_queue s))\<rparr>"
| "queue_step s (QConsume env sc) = snd (consume_iteration env sc s)"
| "queue_step s (QNotify payload) = on_notify payload s"
| "queue_step s (QReplay env station) = s\<lparr>qc_queue := snd (replay_queued_commands env station (qc_queue s))\<rparr>"
| "queue_step s (QSend env station evse profile allow_enqueue) =
     s\<lparr>qc_queue := snd (snd (send_charging_profile env station evse profile allow_enqueue (qc_queue s)))\<rparr>"

section \<open>Lemmas: the life of a command\<close>

text \<open>A row that is not pending is final; a pending one keeps its identity and is counted one attempt when it
  is settled otherwise than by its expiry.\<close>

definition same_command :: "command \<Rightarrow> command \<Rightarrow> bool" where
  "same_command a b \<longleftrightarrow>
     cq_id b = cq_id a \<and> cq_cp b = cq_cp a \<and> cq_connector b = cq_connector a \<and> cq_type b = cq_type a \<and> cq_payload b = cq_payload a \<and>
     cq_enqueued_at b = cq_enqueued_at a \<and> cq_expires_at b = cq_expires_at a"

definition settled_by :: "command \<Rightarrow> command \<Rightarrow> bool" where
  "settled_by a b \<longleftrightarrow>
     cq_status a = Pending \<and> cq_status b \<noteq> Pending \<and> same_command a b \<and>
     cq_attempts b = cq_attempts a + (if cq_status b = Expired then 0 else 1)"

definition cmd_evolves :: "command \<Rightarrow> command \<Rightarrow> bool" where
  "cmd_evolves a b \<longleftrightarrow> b = a \<or> settled_by a b"

interpretation command_rows: row_evolution cmd_evolves
  by unfold_locales (auto simp: cmd_evolves_def settled_by_def)

named_theorems queue_rows

lemmas queue_defs = mark_command_acked_def mark_command_failed_def mark_command_sent_def expire_overdue_commands_def

lemma marks_evolve [queue_rows]:
  "rows_evolve cmd_evolves tab (mark_command_acked now qid tab)" "rows_evolve cmd_evolves tab (mark_command_failed qid e tab)"
  "rows_evolve cmd_evolves tab (mark_command_sent now qid tab)" "rows_evolve cmd_evolves tab (snd (expire_overdue_commands now tab))"
  unfolding queue_defs Let_def snd_conv
  by (rule command_rows.rows_update; simp add: cmd_evolves_def settled_by_def same_command_def)+

lemma enqueue_evolves [queue_rows]: "rows_evolve cmd_evolves tab (enqueue_charging_command qid now cp cn p ex ty tab)"
  unfolding enqueue_charging_command_def by (rule command_rows.rows_append)

lemma dispatch_evolves [queue_rows]: "rows_evolve cmd_evolves tab (snd (dispatch_vehicles env m dt ex vs res tab))"
proof (induction vs arbitrary: res tab)
  case (Cons v vs)
  show ?case
    by (cases v) (simp add: Let_def Cons.IH command_rows.rows_trans [OF enqueue_evolves Cons.IH] split: option.split prod.split)
qed (simp add: command_rows.rows_refl)

lemma send_evolves [queue_rows]: "rows_evolve cmd_evolves tab (snd (snd (send_charging_profile env st ev pr al tab)))"
  by (auto simp: send_charging_profile_def Let_def command_rows.rows_refl enqueue_evolves split: answer.split bool.split option.split prod.split)

lemma replay_rows_evolve [queue_rows]: "rows_evolve cmd_evolves tab (snd (replay_rows env st cs n tab))"
proof (induction cs arbitrary: n tab)
  case (Cons c cs)
  show ?case
    by (simp add: Let_def Cons.IH command_rows.rows_trans [OF marks_evolve(1) Cons.IH]
        command_rows.rows_trans [OF marks_evolve(2) Cons.IH] split: answer.split bool.split)
qed (simp add: command_rows.rows_refl)

text \<open>What handling a row does: it settles the row, or leaves the queue alone and notes that the charger is offline.\<close>

definition settles :: "(command \<Rightarrow> command) \<Rightarrow> bool" where
  "settles f \<longleftrightarrow> (\<forall>c. cq_status c = Pending \<longrightarrow> settled_by c (f c))"

lemma settlers:
  "settles (\<lambda>c. c\<lparr>cq_status := Failed, cq_last_error := Some e, cq_attempts := cq_attempts c + 1\<rparr>)"
  "settles (\<lambda>c. c\<lparr>cq_status := Sent, cq_sent_at := Some t, cq_attempts := cq_attempts c + 1\<rparr>)"
  by (simp_all add: settles_def settled_by_def same_command_def)

definition settled_in :: "row_env \<Rightarrow> int \<Rightarrow> ChargingCommandQueueConsumer \<Rightarrow> ChargingCommandQueueConsumer \<Rightarrow> bool" where
  "settled_in env qid s s' \<longleftrightarrow>
     qc_offline s' = qc_offline s \<and> qc_last_expiry_scan s' = qc_last_expiry_scan s \<and>
     (\<exists>f. settles f \<and> qc_queue s' = (if rv_mark_ok env then update_where (pending_row qid) f (qc_queue s) else qc_queue s))"

lemma set_failed_settled: "settled_in env qid s (set_failed env qid e s)"
  using settlers(1) by (auto simp: settled_in_def set_failed_def mark_command_failed_def intro!: exI [of _ "\<lambda>c. c\<lparr>cq_status := Failed, cq_last_error := Some (take 500 e), cq_attempts := cq_attempts c + 1\<rparr>"])

lemma set_sent_settled: "settled_in env qid s (set_sent env qid s)"
  using settlers(2) by (auto simp: settled_in_def set_sent_def mark_command_sent_def intro!: exI [of _ "\<lambda>c. c\<lparr>cq_status := Sent, cq_sent_at := Some (rv_now env), cq_attempts := cq_attempts c + 1\<rparr>"])

lemma import_marks_settled:
  "settled_in env qid s s' \<Longrightarrow> settled_in env qid s (mark_import_failed p env pl r s')"
  "settled_in env qid s s' \<Longrightarrow> settled_in env qid s (mark_import_uploading p env pl r s')"
  by (auto simp: settled_in_def mark_import_failed_def mark_import_uploading_def split: option.split)

lemmas settled_intros = set_failed_settled set_sent_settled import_marks_settled

definition push_of :: "command \<Rightarrow> push" where
  "push_of c =
     (if cq_type c = ''remote_reset'' then PushReset (cq_cp c) (get_or (cq_payload c) ''type'' (PStr ''Soft''))
      else if cq_type c = ''remote_start_transaction''
      then PushStart (cq_cp c) (cq_connector c) (if truthy (pget (cq_payload c) ''id_tag'') then pget (cq_payload c) ''id_tag'' else pget (cq_payload c) ''idTag'')
      else if cq_type c = ''get_diagnostics'' then PushDiagnostics (cq_cp c) (diagnostics_kwargs (cq_payload c))
      else PushProfile (cq_cp c) (cq_connector c) (cq_payload c))"

lemmas handler_defs = handle_remote_reset_def handle_remote_start_transaction_def handle_get_diagnostics_def handle_profile_def

lemma handler_pushes:
  "fst (snd (handle_remote_reset env qid cp se pl s)) \<in> {[], [PushReset cp (get_or pl ''type'' (PStr ''Soft''))]}"
  "fst (snd (handle_remote_start_transaction env qid cp se cn pl s)) \<in>
     {[], [PushStart cp cn (if truthy (pget pl ''id_tag'') then pget pl ''id_tag'' else pget pl ''idTag'')]}"
  "fst (snd (handle_get_diagnostics p env qid cp se pl s)) \<in> {[], [PushDiagnostics cp (diagnostics_kwargs pl)]}"
  "fst (snd (handle_profile env qid cp se cn pl s)) \<in> {[], [PushProfile cp cn pl]}"
  by (simp_all add: handler_defs get_or_def Let_def split: option.split answer.split file_answer.split)

lemma handle_row_pushes: "fst (snd (handle_row p env c s)) \<in> {[], [push_of c]}"
proof (cases "rv_session env")
  case None
  then show ?thesis by (simp add: handle_row_def)
next
  case (Some se)
  have "fst (snd (handle_row p env c s)) \<in> {[], [push_of c]}" if "cq_type c \<noteq> ''remote_start_transaction''"
    using Some that handler_pushes(1,3,4) [where qid = "cq_id c" and cp = "cq_cp c" and pl = "cq_payload c" and env = env and se = se and s = s]
    by (simp add: handle_row_def push_of_def Let_def)
  moreover have "fst (snd (handle_row p env c s)) \<in> {[], [push_of c]}" if "cq_type c = ''remote_start_transaction''"
    using Some that handler_pushes(2) [of env "cq_id c" "cq_cp c" se "cq_connector c" "cq_payload c" s]
    by (simp add: handle_row_def push_of_def Let_def)
  ultimately show ?thesis by blast
qed

lemma attempts_settled:
  "fst (handle_remote_reset env qid cp se pl s) \<and> settled_in env qid s (snd (snd (handle_remote_reset env qid cp se pl s)))"
  "fst (handle_remote_start_transaction env qid cp se cn pl s) \<and> settled_in env qid s (snd (snd (handle_remote_start_transaction env qid cp se cn pl s)))"
  "fst (handle_get_diagnostics p env qid cp se pl s) \<and> settled_in env qid s (snd (snd (handle_get_diagnostics p env qid cp se pl s)))"
  by (simp_all add: handler_defs Let_def settled_intros split: option.split answer.split file_answer.split)

lemma profile_settled:
  "if fst (handle_profile env qid cp se cn pl s) then settled_in env qid s (snd (snd (handle_profile env qid cp se cn pl s)))
   else snd (snd (handle_profile env qid cp se cn pl s)) = set_offline env cp s \<and> \<not> rv_still_connected env"
  by (simp add: handle_profile_def Let_def settled_intros split: answer.split)

lemma handle_row_cases:
  "if fst (handle_row p env c s) then settled_in env (cq_id c) s (snd (snd (handle_row p env c s)))
   else snd (snd (handle_row p env c s)) = set_offline env (cq_cp c) s \<and> (rv_session env = None \<or> \<not> rv_still_connected env)"
proof (cases "rv_session env")
  case None
  then show ?thesis by (simp add: handle_row_def)
next
  case (Some se)
  then show ?thesis
    using profile_settled [of env "cq_id c" "cq_cp c" se "cq_connector c" "cq_payload c" s]
    by (simp add: handle_row_def Let_def attempts_settled settled_intros split: if_splits)
qed

lemma settled_evolves: "settled_in env qid s s' \<Longrightarrow> rows_evolve cmd_evolves (qc_queue s) (qc_queue s')"
  by (auto simp: settled_in_def settles_def cmd_evolves_def command_rows.rows_refl intro!: command_rows.rows_update)

lemma handle_row_evolves: "rows_evolve cmd_evolves (qc_queue s) (qc_queue (snd (snd (handle_row p env c s))))"
  using handle_row_cases [of p env c s] settled_evolves
  by (cases "fst (handle_row p env c s)") (auto simp: set_offline_def command_rows.rows_refl)

lemma drain_rows_evolve: "rows_evolve cmd_evolves (qc_queue s) (qc_queue (snd (snd (drain_rows env cs s))))"
proof (induction cs arbitrary: s)
  case (Cons c cs)
  show ?case by (simp add: Let_def command_rows.rows_trans [OF handle_row_evolves Cons.IH])
qed (simp add: command_rows.rows_refl)

lemma drain_evolves: "rows_evolve cmd_evolves (qc_queue s) (qc_queue (snd (snd (drain_once env s))))"
  using drain_rows_evolve [of "s\<lparr>qc_offline := recently_offline (dn_mono env) (qc_offline s)\<rparr>" env "fetched env s"]
  by (simp add: drain_once_def Let_def command_rows.rows_refl)

lemma consume_evolves: "rows_evolve cmd_evolves (qc_queue s) (qc_queue (snd (consume_iteration env sc s)))"
  using drain_evolves [of s env] command_rows.rows_trans [OF drain_evolves marks_evolve(4)]
  by (simp add: consume_iteration_def Let_def)

lemma queue_step_evolves: "rows_evolve cmd_evolves (qc_queue s) (qc_queue (queue_step s op))"
proof (cases op)
  case (QConsume env sc)
  then show ?thesis by (simp add: consume_evolves)
next
  case (QDispatch env m dt ex vs)
  then show ?thesis by (simp add: dispatch_charging_profiles_def Let_def dispatch_evolves command_rows.rows_refl split: sum.split)
next
  case (QReplay env st)
  then show ?thesis by (simp add: replay_queued_commands_def replay_rows_evolve command_rows.rows_refl)
next
  case (QNotify payload)
  then show ?thesis by (simp add: on_notify_def command_rows.rows_refl split: option.split prod.split)
qed (simp_all add: queue_rows)

lemma queue_run_evolves: "rows_evolve cmd_evolves (qc_queue s) (qc_queue (run_steps queue_step s ops))"
  by (rule command_rows.rows_run) (rule queue_step_evolves)

section \<open>Lemmas: what a drain pushes\<close>

lemma drain_pushes: "\<exists>cs. subseq cs rows \<and> fst (snd (drain_rows env rows s)) = map push_of cs"
proof (induction rows arbitrary: s)
  case (Cons c rows)
  obtain cs where cs: "subseq cs rows" "fst (snd (drain_rows env rows (snd (snd (handle_row (dn_parse env) (dn_row env (cq_id c)) c s))))) = map push_of cs"
    using Cons.IH by blast
  show ?case
    using handle_row_pushes [of "dn_parse env" "dn_row env (cq_id c)" c s] cs
    by (auto simp: Let_def intro: exI [of _ cs] exI [of _ "c # cs"])
qed auto

lemma fetched_in:
  "c \<in> set (fetched env s) \<Longrightarrow>
     c \<in> set (qc_queue s) \<and> live (dn_now env) c \<and> cq_cp c \<notin> keys (recently_offline (dn_mono env) (qc_offline s))"
  using in_set_takeD [of c 200] by (fastforce simp: fetched_def fetch_pending_commands_all_def keys_def)

lemma fetched_sorted: "sorted (map cq_enqueued_at (fetched env s)) \<and> length (fetched env s) \<le> 200"
  unfolding fetched_def fetch_pending_commands_all_def by (simp add: sorted_wrt_take flip: take_map)

lemma fetched_distinct:
  assumes "distinct (map cq_id (qc_queue s))"
  shows "distinct (map cq_id (fetched env s))"
proof -
  have "distinct (map cq_id (sort_key cq_enqueued_at (filter p (qc_queue s))))" for p
    using assms by (auto simp: distinct_map inj_on_def)
  then show ?thesis by (simp add: fetched_def fetch_pending_commands_all_def flip: take_map)
qed

lemma subseq_sorted: "subseq xs ys \<Longrightarrow> sorted (map f ys) \<Longrightarrow> sorted (map f xs)"
proof (induction rule: list_emb.induct)
  case (list_emb_Cons2 x y xs ys)
  then show ?case by (auto dest: list_emb_set)
qed auto

section \<open>Lemmas: a connected charger's turn comes\<close>

definition ident :: "command \<Rightarrow> int \<times> string \<times> dtime" where
  "ident c = (cq_id c, cq_cp c, cq_expires_at c)"

lemma fst_ident [simp]: "fst (ident c) = cq_id c" "fst (snd (ident c)) = cq_cp c" "snd (snd (ident c)) = cq_expires_at c"
  by (simp_all add: ident_def)

text \<open>The chargers noted offline since a time, the pending rows, and those of them that can be fetched.\<close>

definition noted :: "pyfloat \<Rightarrow> ChargingCommandQueueConsumer \<Rightarrow> string set" where
  "noted m s = {cp. \<exists>t\<ge>m. (cp, t) \<in> set (qc_offline s)}"

definition open_rows :: "ChargingCommandQueueConsumer \<Rightarrow> (int \<times> string \<times> dtime) set" where
  "open_rows s = ident ` {c \<in> set (qc_queue s). cq_status c = Pending}"

definition reachable_rows :: "pyfloat \<Rightarrow> ChargingCommandQueueConsumer \<Rightarrow> (int \<times> string \<times> dtime) set" where
  "reachable_rows m s = {r \<in> open_rows s. fst (snd r) \<notin> noted m s}"

lemma set_dict_update:
  "(k, v) \<in> set (AList.update k v d)" "j \<noteq> k \<Longrightarrow> (j, t) \<in> set (AList.update k v d) \<longleftrightarrow> (j, t) \<in> set d"
  by (induction d) auto

lemma noted_offline: "m \<le> rv_mono env \<Longrightarrow> noted m (set_offline env cp s) = insert cp (noted m s)"
proof (intro set_eqI)
  fix x
  assume m: "m \<le> rv_mono env"
  show "x \<in> noted m (set_offline env cp s) \<longleftrightarrow> x \<in> insert cp (noted m s)"
    using m set_dict_update(1) [of cp "rv_mono env" "qc_offline s"]
    by (cases "x = cp") (auto simp: noted_def set_offline_def set_dict_update(2))
qed

lemma finite_reachable [simp]: "finite (reachable_rows m s)"
  by (simp add: reachable_rows_def open_rows_def)

lemma image_updated: "(\<And>c. h (g c) = h c) \<Longrightarrow> h ` {c \<in> g ` Q. P c} = h ` {c \<in> Q. P (g c)}"
  by (auto simp: image_iff) (metis imageI)+

lemma settled_open_rows:
  assumes "settled_in env qid s s'" "rv_mark_ok env"
  shows "open_rows s' = {r \<in> open_rows s. fst r \<noteq> qid}" "map ident (qc_queue s') = map ident (qc_queue s)"
proof -
  obtain f where f: "settles f" "qc_queue s' = update_where (pending_row qid) f (qc_queue s)"
    using assms by (auto simp: settled_in_def)
  have each: "ident (if pending_row qid c then f c else c) = ident c"
    "cq_status (if pending_row qid c then f c else c) = Pending \<longleftrightarrow> cq_status c = Pending \<and> cq_id c \<noteq> qid" for c
    using f(1) by (auto simp: settles_def settled_by_def same_command_def ident_def)
  show "map ident (qc_queue s') = map ident (qc_queue s)" using each(1) by (simp add: f(2) update_where_def)
  have "open_rows s' = ident ` {c \<in> set (qc_queue s). cq_status c = Pending \<and> cq_id c \<noteq> qid}"
    unfolding open_rows_def f(2) update_where_def set_map by (rule trans [OF image_updated [of ident, OF each(1)]]) (simp only: each(2))
  also have "\<dots> = {r \<in> open_rows s. fst r \<noteq> qid}" unfolding open_rows_def by (auto simp only: mem_Collect_eq image_iff fst_ident)
  finally show "open_rows s' = {r \<in> open_rows s. fst r \<noteq> qid}" .
qed

lemma handle_row_reachable:
  assumes "rv_mark_ok env" "m \<le> rv_mono env" "s' = snd (snd (handle_row p env c s))"
  shows "reachable_rows m s' \<subseteq> reachable_rows m s - {ident c}" "map ident (qc_queue s') = map ident (qc_queue s)"
    "cp \<notin> keys (qc_offline s) \<Longrightarrow> cq_cp c \<noteq> cp \<or> (rv_session env \<noteq> None \<and> rv_still_connected env) \<Longrightarrow> cp \<notin> keys (qc_offline s')"
proof -
  note cases = handle_row_cases [of p env c s, folded assms(3)]
  have "reachable_rows m s' \<subseteq> reachable_rows m s - {ident c} \<and> map ident (qc_queue s') = map ident (qc_queue s) \<and>
      (cp \<notin> keys (qc_offline s) \<longrightarrow> cq_cp c \<noteq> cp \<or> (rv_session env \<noteq> None \<and> rv_still_connected env) \<longrightarrow> cp \<notin> keys (qc_offline s'))"
  proof (cases "fst (handle_row p env c s)")
    case True
    then have settled: "settled_in env (cq_id c) s s'" using cases by simp
    then have "noted m s' = noted m s" "qc_offline s' = qc_offline s" by (simp_all add: settled_in_def noted_def)
    with settled_open_rows [OF settled assms(1)] show ?thesis by (auto simp: reachable_rows_def ident_def)
  next
    case False
    then have off: "s' = set_offline env (cq_cp c) s" "rv_session env = None \<or> \<not> rv_still_connected env" using cases by auto
    then have "noted m s' = insert (cq_cp c) (noted m s)" using assms(2) by (simp add: noted_offline)
    moreover have "open_rows s' = open_rows s" "keys (qc_offline s') = insert (cq_cp c) (keys (qc_offline s))"
      by (simp_all add: off open_rows_def set_offline_def)
    ultimately show ?thesis using off by (auto simp: reachable_rows_def ident_def set_offline_def)
  qed
  then show "reachable_rows m s' \<subseteq> reachable_rows m s - {ident c}" "map ident (qc_queue s') = map ident (qc_queue s)"
    "cp \<notin> keys (qc_offline s) \<Longrightarrow> cq_cp c \<noteq> cp \<or> (rv_session env \<noteq> None \<and> rv_still_connected env) \<Longrightarrow> cp \<notin> keys (qc_offline s')"
    by blast+
qed

text \<open>What the drains of one period of exclusion, from \<open>m\<close> on, meet: fetches and marks succeed, and the rows
  \<open>Q\<close> of a charger find it connected.\<close>

definition good_drain :: "pyfloat \<Rightarrow> int set \<Rightarrow> drain_env \<Rightarrow> bool" where
  "good_drain m Q env \<longleftrightarrow>
     dn_fetch_ok env \<and> m \<le> dn_mono env \<and> dn_mono env < m + EXCLUDED_OFFLINE_RETRY_SECONDS \<and>
     (\<forall>q. rv_mark_ok (dn_row env q) \<and> m \<le> rv_mono (dn_row env q)) \<and>
     (\<forall>q\<in>Q. rv_session (dn_row env q) \<noteq> None \<and> rv_still_connected (dn_row env q))"

lemma drain_rows_reachable:
  assumes "good_drain m Q env" "\<forall>c\<in>set cs. cq_cp c = cp \<longrightarrow> cq_id c \<in> Q"
  shows "reachable_rows m (snd (snd (drain_rows env cs s))) \<subseteq> reachable_rows m s - ident ` set cs \<and>
    map ident (qc_queue (snd (snd (drain_rows env cs s)))) = map ident (qc_queue s) \<and>
    (cp \<notin> keys (qc_offline s) \<longrightarrow> cp \<notin> keys (qc_offline (snd (snd (drain_rows env cs s)))))"
  using assms(2)
proof (induction cs arbitrary: s)
  case (Cons c cs)
  define s' where "s' = snd (snd (handle_row (dn_parse env) (dn_row env (cq_id c)) c s))"
  have row: "rv_mark_ok (dn_row env (cq_id c))" "m \<le> rv_mono (dn_row env (cq_id c))" using assms(1) by (auto simp: good_drain_def)
  note step = handle_row_reachable [OF row s'_def]
  have "cp \<notin> keys (qc_offline s) \<Longrightarrow> cp \<notin> keys (qc_offline s')" using step(3) assms(1) Cons.prems by (auto simp: good_drain_def)
  with Cons.IH [of s'] Cons.prems step(1,2) show ?case by (auto simp: Let_def s'_def)
qed simp

lemma pruned_noted:
  assumes "good_drain m Q env"
  shows "noted m (s\<lparr>qc_offline := recently_offline (dn_mono env) (qc_offline s)\<rparr>) = noted m s"
proof -
  have "dn_mono env - t < EXCLUDED_OFFLINE_RETRY_SECONDS" if "m \<le> t" for t using assms that by (simp add: good_drain_def)
  then show ?thesis by (auto simp: noted_def recently_offline_def)
qed

lemma noted_excluded: "good_drain m Q env \<Longrightarrow> noted m s \<subseteq> keys (recently_offline (dn_mono env) (qc_offline s))"
  using pruned_noted [of m Q env s] by (force simp: noted_def keys_def)

lemma drain_reachable:
  assumes "good_drain m Q env" "\<forall>c\<in>set (qc_queue s). cq_cp c = cp \<longrightarrow> cq_id c \<in> Q"
  shows "reachable_rows m (snd (snd (drain_once env s))) \<subseteq> reachable_rows m s - ident ` set (fetched env s)"
    "map ident (qc_queue (snd (snd (drain_once env s)))) = map ident (qc_queue s)"
    "cp \<notin> keys (qc_offline s) \<Longrightarrow> cp \<notin> keys (qc_offline (snd (snd (drain_once env s))))"
proof -
  let ?s = "s\<lparr>qc_offline := recently_offline (dn_mono env) (qc_offline s)\<rparr>"
  have ok: "dn_fetch_ok env" using assms(1) by (simp add: good_drain_def)
  have same: "reachable_rows m ?s = reachable_rows m s" by (simp add: reachable_rows_def pruned_noted [OF assms(1)] open_rows_def)
  have Q: "\<forall>c\<in>set (fetched env s). cq_cp c = cp \<longrightarrow> cq_id c \<in> Q" using assms(2) fetched_in by blast
  note d = drain_rows_reachable [where cs = "fetched env s" and s = ?s and cp = cp, OF assms(1) Q]
  show "reachable_rows m (snd (snd (drain_once env s))) \<subseteq> reachable_rows m s - ident ` set (fetched env s)"
    using d same ok by (simp add: drain_once_def Let_def)
  show "map ident (qc_queue (snd (snd (drain_once env s)))) = map ident (qc_queue s)" using d ok by (simp add: drain_once_def Let_def)
  show "cp \<notin> keys (qc_offline s) \<Longrightarrow> cp \<notin> keys (qc_offline (snd (snd (drain_once env s))))" using d ok by (auto simp: drain_once_def Let_def keys_def recently_offline_def)
qed

lemma fetched_reachable: "good_drain m Q env \<Longrightarrow> ident ` set (fetched env s) \<subseteq> reachable_rows m s"
  using fetched_in noted_excluded by (fastforce simp: reachable_rows_def open_rows_def live_def)

lemma unfetched_full:
  assumes "c \<in> set (qc_queue s)" "live (dn_now env) c" "cq_cp c \<notin> keys (qc_offline s)" "c \<notin> set (fetched env s)"
  shows "length (fetched env s) = 200"
proof -
  have "c \<in> set (filter (\<lambda>c. live (dn_now env) c \<and> cq_cp c \<notin> set (map fst (recently_offline (dn_mono env) (qc_offline s)))) (qc_queue s))"
    using assms(1-3) by (auto simp: keys_def recently_offline_def)
  with assms(4) show ?thesis unfolding fetched_def fetch_pending_commands_all_def
    by (metis (no_types, lifting) length_take linorder_not_le min.absorb2 nat_le_linear set_sort take_all)
qed

text \<open>The drains one after the other.\<close>

definition drains :: "ChargingCommandQueueConsumer \<Rightarrow> drain_env list \<Rightarrow> ChargingCommandQueueConsumer" where
  "drains s envs = foldl (\<lambda>s env. snd (snd (drain_once env s))) s envs"

lemma evolved_open:
  assumes "rows_evolve cmd_evolves a b" "length b = length a"
  shows "{c \<in> set b. cq_status c = Pending} \<subseteq> {c \<in> set a. cq_status c = Pending}"
proof
  fix c assume "c \<in> {c \<in> set b. cq_status c = Pending}"
  then obtain i where "i < length b" "c = b ! i" "cq_status (b ! i) = Pending" by (auto simp: in_set_conv_nth)
  moreover from this assms have "b ! i = a ! i" by (auto simp: command_rows.rows_nth cmd_evolves_def settled_by_def)
  ultimately show "c \<in> {c \<in> set a. cq_status c = Pending}" using assms(2) by auto
qed

lemma drain_rows_length: "length (qc_queue (snd (snd (drain_rows env cs s)))) = length (qc_queue s)"
proof (induction cs arbitrary: s)
  case (Cons c cs)
  have "length (qc_queue (snd (snd (handle_row p e c s)))) = length (qc_queue s)" for p e
    using handle_row_cases [of p e c s] by (auto simp: settled_in_def set_offline_def update_where_def split: if_splits)
  with Cons.IH show ?case by (simp add: Let_def)
qed simp

lemma drain_shrinks: "open_rows (snd (snd (drain_once env s))) \<subseteq> open_rows s"
proof -
  have "length (qc_queue (snd (snd (drain_once env s)))) = length (qc_queue s)" by (simp add: drain_once_def Let_def drain_rows_length)
  from evolved_open [OF drain_evolves this] show ?thesis unfolding open_rows_def by (rule image_mono)
qed

lemma drains_shrink: "open_rows (drains s envs) \<subseteq> open_rows s"
proof (induction envs arbitrary: s)
  case (Cons env envs)
  show ?case using Cons.IH [of "snd (snd (drain_once env s))"] drain_shrinks [of env s] by (simp add: drains_def)
qed (simp add: drains_def)

lemma open_row_shrinks:
  assumes "good_drain m Q env" "\<forall>c\<in>set (qc_queue s). cq_cp c = cp \<longrightarrow> cq_id c \<in> Q" "cp \<notin> keys (qc_offline s)" "fst (snd r) = cp"
  shows "r \<in> open_rows (snd (snd (drain_once env s))) \<Longrightarrow> r \<in> reachable_rows m s - ident ` set (fetched env s)"
proof -
  note d = drain_reachable [OF assms(1,2)]
  have "cp \<notin> noted m (snd (snd (drain_once env s)))" using d(3) assms(3) by (force simp: noted_def keys_def)
  then show "r \<in> open_rows (snd (snd (drain_once env s))) \<Longrightarrow> r \<in> reachable_rows m s - ident ` set (fetched env s)"
    using d(1) assms(4) by (auto simp: reachable_rows_def)
qed

lemma turn_comes:
  assumes "distinct (map cq_id (qc_queue s))" "\<forall>c\<in>set (qc_queue s). cq_cp c = cp \<longrightarrow> cq_id c \<in> Q"
    and "cp \<notin> keys (qc_offline s)" "\<forall>env\<in>set envs. good_drain m Q env \<and> dn_now env < ex"
    and "card (reachable_rows m s) \<le> 200 * length envs"
  shows "(q, cp, ex) \<notin> open_rows (drains s envs)"
  using assms
proof (induction envs arbitrary: s)
  case Nil
  then have "reachable_rows m s = {}" by simp
  then show ?case using Nil.prems(3) by (force simp: drains_def reachable_rows_def noted_def keys_def)
next
  case (Cons env envs)
  let ?s = "snd (snd (drain_once env s))"
  have good: "good_drain m Q env" "dn_now env < ex" using Cons.prems(4) by auto
  note d = drain_reachable [OF good(1) Cons.prems(2)]
  have queue: "map cq_id (qc_queue ?s) = map cq_id (qc_queue s)" "ident ` set (qc_queue ?s) = ident ` set (qc_queue s)"
    using arg_cong [OF d(2), of "map fst"] arg_cong [OF d(2), of set] by (simp_all only: map_map o_def fst_ident set_map)
  have "cq_id c \<in> Q" if "c \<in> set (qc_queue ?s)" "cq_cp c = cp" for c
  proof -
    have "ident c \<in> ident ` set (qc_queue s)" using that(1) unfolding queue(2) [symmetric] by (rule imageI)
    then obtain c' where "c' \<in> set (qc_queue s)" "ident c = ident c'" by blast
    with Cons.prems(2) that(2) show ?thesis by (simp add: ident_def)
  qed
  then have Q: "\<forall>c\<in>set (qc_queue ?s). cq_cp c = cp \<longrightarrow> cq_id c \<in> Q" by blast
  show ?case
  proof (cases "(q, cp, ex) \<in> open_rows ?s")
    case False
    then show ?thesis using drains_shrink [of ?s envs] by (auto simp: drains_def)
  next
    case True
    then have r: "(q, cp, ex) \<in> reachable_rows m s - ident ` set (fetched env s)" using open_row_shrinks [OF good(1) Cons.prems(2,3)] by simp
    then obtain c where c: "c \<in> set (qc_queue s)" "ident c = (q, cp, ex)" "cq_status c = Pending" "c \<notin> set (fetched env s)"
      by (force simp: reachable_rows_def open_rows_def)
    then have "length (fetched env s) = 200" using unfetched_full [of c s env] good(2) Cons.prems(3) by (simp add: live_def ident_def)
    moreover have "distinct (map ident (fetched env s))"
      using fetched_distinct [OF Cons.prems(1), of env] by (auto simp: distinct_map inj_on_def ident_def)
    ultimately have "card (ident ` set (fetched env s)) = 200" by (metis distinct_card length_map set_map)
    then have "card (reachable_rows m s - ident ` set (fetched env s)) \<le> 200 * length envs"
      using card_Diff_subset [OF _ fetched_reachable [OF good(1)], of s] Cons.prems(5) by simp
    then have "card (reachable_rows m ?s) \<le> 200 * length envs"
      using card_mono [OF _ d(1)] by (meson finite_Diff finite_reachable order_trans)
    then show ?thesis
      using Cons.IH [of ?s] Cons.prems(1,3,4) queue(1) Q d(3) by (simp add: drains_def)
  qed
qed

section \<open>Lemmas: a dispatched profile\<close>

text \<open>The limit a charger applies at a second of the schedule: that of the last period that has begun.\<close>

definition limit_at :: "ocpp_period list \<Rightarrow> int \<Rightarrow> pyfloat option" where
  "limit_at ps x = map_option op_limit (List.find (\<lambda>p. op_start p \<le> x) (rev ps))"

definition last_positive :: "pyfloat option list \<Rightarrow> pyfloat option" where
  "last_positive ps = (case List.find (\<lambda>p. case p of None \<Rightarrow> False | Some x \<Rightarrow> 0 < x) (rev ps) of None \<Rightarrow> None | Some p \<Rightarrow> p)"

lemma positive_steps_snoc:
  "positive_steps (ps @ [p]) = positive_steps ps @ (case p of None \<Rightarrow> [] | Some x \<Rightarrow> if 0 < x then [(length ps, x)] else [])"
  by (simp add: positive_steps_def enumerate_append_eq List.map_filter_def split: option.split)

lemma last_positive_snoc: "last_positive (ps @ [p]) = (case p of None \<Rightarrow> last_positive ps | Some x \<Rightarrow> if 0 < x then p else last_positive ps)"
  by (simp add: last_positive_def split: option.split)

lemma trunc_steps: "delta_t * 3600 = of_nat k \<Longrightarrow> trunc (of_nat t * delta_t * 3600) = int (t * k)"
proof -
  assume "delta_t * 3600 = of_nat k"
  then have "of_nat t * delta_t * 3600 = (of_nat (t * k) :: pyfloat)" by simp
  also have "\<dots> = of_int (int (t * k))" by simp
  finally show ?thesis unfolding trunc_def by (simp only: ceiling_of_int floor_of_int if_cancel)
qed

lemma dispatched_limit:
  assumes "delta_t * 3600 = of_nat k" "0 < k"
  shows "limit_at (convert_schedule_to_ocpp_profile (positive_steps ps) delta_t 3 ''A'') (int x) =
    map_option (\<lambda>p. p * 1000 / 690) (last_positive (take (x div k + 1) ps))"
proof (induction ps rule: rev_induct)
  case Nil
  then show ?case by (simp add: limit_at_def positive_steps_def last_positive_def convert_schedule_to_ocpp_profile_def List.map_filter_def)
next
  case (snoc p ps)
  have begun: "length ps * k \<le> x \<longleftrightarrow> length ps \<le> x div k" using assms(2) by (simp add: less_eq_div_iff_mult_less_eq)
  have all: "length ps \<le> x div k \<Longrightarrow> take (x div k + 1) (ps @ [p]) = ps @ [p] \<and> take (x div k + 1) ps = ps" by simp
  have some: "\<not> length ps \<le> x div k \<Longrightarrow> take (x div k + 1) (ps @ [p]) = take (x div k + 1) ps" by simp
  show ?case
    using snoc begun all some
    by (cases "length ps \<le> x div k"; cases p)
      (auto simp: positive_steps_snoc last_positive_snoc convert_schedule_to_ocpp_profile_def limit_at_def trunc_steps [OF assms(1)] zle_int
        simp del: of_nat_mult)
qed

section \<open>Properties\<close>

text \<open>C23: A command that left the pending state is final: whatever enqueues, drains, boots, notifications and
  expiries follow, in any order, its row stays as it is; so it is never sent, failed or expired a second
  time, and its count of attempts stands.\<close>
theorem settled_commands_final:
  assumes "i < length (qc_queue s)" and "cq_status (qc_queue s ! i) \<noteq> Pending"
  shows "qc_queue (run_steps queue_step s ops) ! i = qc_queue s ! i"
  using queue_run_evolves [of s ops] assms by (auto simp: command_rows.rows_nth cmd_evolves_def settled_by_def)

text \<open>What a drain pushes: in the order of enqueueing, at most once each and at most two hundred, the
  commands of rows that were pending, not expired and not of a charger noted offline when the drain
  fetched, each with the charger, connector and content of its row.\<close>
theorem drain_pushes_pending:
  assumes "distinct (map cq_id (qc_queue s))"
  shows "\<exists>cs. fst (snd (drain_once env s)) = map push_of cs \<and> sorted (map cq_enqueued_at cs) \<and> distinct (map cq_id cs) \<and> length cs \<le> 200 \<and>
    (\<forall>c. c \<notin> set cs \<or> c \<in> set (qc_queue s) \<and> live (dn_now env) c \<and> cq_cp c \<notin> keys (recently_offline (dn_mono env) (qc_offline s)))"
proof (cases "dn_fetch_ok env")
  case True
  obtain cs where cs: "subseq cs (fetched env s)" "fst (snd (drain_once env s)) = map push_of cs"
    using drain_pushes [of "fetched env s" env "s\<lparr>qc_offline := recently_offline (dn_mono env) (qc_offline s)\<rparr>"] True
    by (auto simp: drain_once_def Let_def)
  have "sorted (map cq_enqueued_at cs)" using subseq_sorted [OF cs(1)] fetched_sorted by blast
  moreover have "distinct (map cq_id cs)" using subseq_map [OF cs(1), of cq_id] fetched_distinct [OF assms, of env] subseqs_distinctD by auto
  moreover have "length cs \<le> 200" using list_emb_length [OF cs(1)] fetched_sorted [of env s] by linarith
  moreover have "set cs \<subseteq> set (fetched env s)" using cs(1) by (auto dest: list_emb_set)
  ultimately show ?thesis using cs(2) fetched_in by blast
qed (auto simp: drain_once_def Let_def intro: exI [of _ "[]"])

definition demo_command :: command where
  "demo_command = \<lparr>cq_id = 1, cq_cp = ''cp1'', cq_connector = 1, cq_type = ''set_charging_profile'', cq_payload = [], cq_status = Pending,
     cq_enqueued_at = 0, cq_expires_at = usec_per_hour, cq_attempts = 0, cq_last_error = None, cq_sent_at = None, cq_acked_at = None\<rparr>"

definition demo_row :: row_env where
  "demo_row = \<lparr>rv_session = Some \<lparr>se_send_reset = True, se_send_remote_start = True, se_get_diagnostics = True, se_allow_enqueue = True\<rparr>,
     rv_mono = 0, rv_now = 5, rv_answer = Answer True, rv_file = FileAnswer None, rv_still_connected = True, rv_mark_ok = True, rv_import_ok = True\<rparr>"

definition demo_drain :: drain_env where
  "demo_drain = \<lparr>dn_mono = 0, dn_now = 5, dn_fetch_ok = True, dn_row = \<lambda>_. demo_row, dn_parse = \<lambda>_. None\<rparr>"

definition demo_consumer :: ChargingCommandQueueConsumer where
  "demo_consumer = \<lparr>qc_queue = [demo_command, demo_command\<lparr>cq_id := 2, cq_status := Failed\<rparr>], qc_imports = [], qc_offline = [], qc_last_expiry_scan = 0\<rparr>"

theorem settled_commands_final_witness:
  "qc_queue (run_steps queue_step demo_consumer [QNotify [], QEnqueue 3 9 ''cp1'' 1 [] 60 ''remote_reset'']) ! 1 = demo_command\<lparr>cq_id := 2, cq_status := Failed\<rparr>"
  using settled_commands_final [of 1 demo_consumer "[QNotify [], QEnqueue 3 9 ''cp1'' 1 [] 60 ''remote_reset'']"]
  by (simp add: demo_consumer_def)

theorem drain_pushes_pending_witness:
  "\<exists>cs. fst (snd (drain_once demo_drain demo_consumer)) = map push_of cs \<and> list_all (live 5) cs"
  using drain_pushes_pending [of demo_consumer demo_drain]
  by (auto simp: demo_consumer_def demo_command_def demo_drain_def list_all_iff)

text \<open>The turn of a connected charger's command comes, however many rows of unreachable chargers stand
  before it: if within one period of exclusion, from \<open>m\<close> on, the consumer drains so often that two hundred
  rows for each drain cover the pending rows of chargers not noted offline since \<open>m\<close>, the charger is
  connected, and fetches and updates succeed, then its command is no longer pending, provided it does not
  expire before.\<close>
theorem connected_command_attempted:
  assumes "c \<in> set (qc_queue s)" and "distinct (map cq_id (qc_queue s))" and "cq_cp c \<notin> keys (qc_offline s)"
    and "\<forall>env\<in>set envs. good_drain m (cq_id ` {r \<in> set (qc_queue s). cq_cp r = cq_cp c}) env \<and> dn_now env < cq_expires_at c"
    and "card (reachable_rows m s) \<le> 200 * length envs"
  shows "\<forall>r\<in>set (qc_queue (drains s envs)). ident r = ident c \<longrightarrow> cq_status r \<noteq> Pending"
proof -
  have "\<forall>r\<in>set (qc_queue s). cq_cp r = cq_cp c \<longrightarrow> cq_id r \<in> cq_id ` {r \<in> set (qc_queue s). cq_cp r = cq_cp c}" by blast
  from turn_comes [OF assms(2) this assms(3,4,5), of "cq_id c"] have "ident c \<notin> open_rows (drains s envs)" by (simp add: ident_def)
  then show ?thesis unfolding open_rows_def by (metis (mono_tags, lifting) imageI mem_Collect_eq)
qed

theorem connected_command_attempted_witness:
  "filter (\<lambda>r. ident r = ident demo_command \<and> cq_status r = Pending) (qc_queue (drains demo_consumer [demo_drain])) = []"
proof -
  have "reachable_rows 0 demo_consumer \<subseteq> {ident demo_command}"
    by (auto simp: reachable_rows_def open_rows_def demo_consumer_def)
  then have "card (reachable_rows 0 demo_consumer) \<le> 1" using card_mono [of "{ident demo_command}"] by simp
  then have "card (reachable_rows 0 demo_consumer) \<le> 200 * length [demo_drain]" by simp
  from connected_command_attempted [OF _ _ _ _ this, of demo_command] show ?thesis
    by (simp add: filter_empty_conv demo_consumer_def demo_command_def demo_drain_def demo_row_def good_drain_def
        EXCLUDED_OFFLINE_RETRY_SECONDS_def usec_values)
qed

text \<open>What an optimised schedule becomes at the charger: for steps of a whole number of seconds, the
  profile that is enqueued for a vehicle applies at every second the last positive power the schedule had
  up to then, converted to amperes, and no limit before the first. A step of zero power is not a pause: the
  power before it goes on.\<close>
theorem dispatched_profile_holds_power:
  assumes "delta_t * 3600 = of_nat k" and "0 < k"
  shows "limit_at (convert_schedule_to_ocpp_profile (positive_steps charging_power) delta_t 3 ''A'') (int x) =
    map_option (\<lambda>p. p * 1000 / (3 * 230)) (last_positive (take (x div k + 1) charging_power))"
  using dispatched_limit [OF assms, of charging_power x] by simp

text \<open>Ten kilowatts, a pause, ten kilowatts: in the pause the charger goes on with ten.\<close>
theorem dispatched_profile_holds_power_witness:
  "limit_at (convert_schedule_to_ocpp_profile (positive_steps [Some 10, Some 0, Some 10]) (1 / 4) 3 ''A'') (int 1000) = Some (10000 / 690)"
  using dispatched_profile_holds_power [of "1 / 4" 900 "[Some 10, Some 0, Some 10]" 1000] by (simp add: last_positive_def)

end
