(* ===== verification/Charging_Profiles.thy ===== *)
theory Charging_Profiles
  imports Interfaces Cache_Manager
begin

text \<open>
  OCPP 2.0.1 charging profiles: class \<open>ChargingProfileManager\<close> of
  \<open>src/src/websocket_handler/charging_profile_manager.py\<close> with the statements on \<open>charging_profiles\<close> of
  \<open>timescale_client.py\<close>. Messages are dynamically typed; the fields of a profile keep the value of the
  message. The columns of the table are integers and text; \<open>ts\<close> is what the driver makes of a validity
  bound, \<open>fromiso\<close> is \<open>datetime.fromisoformat\<close> (with whether the result has a time zone), and \<open>db n\<close> the failure,
  if any, of an operation's \<open>n\<close>-th statement. JSON text is its value. The text of a rejection is a
  constructor with the values it prints.
\<close>

section \<open>Model: profiles\<close>

datatype ChargingProfilePurpose =
    CHARGING_STATION_EXTERNAL_CONSTRAINTS | CHARGING_STATION_MAX_PROFILE | TX_DEFAULT_PROFILE
  | TX_PROFILE | PRIORITY_CHARGING | LOCAL_GENERATION

datatype ChargingProfileKind = ABSOLUTE | RECURRING | RELATIVE

datatype ChargingRateUnit = UNIT_W | UNIT_A

fun purpose_value :: "ChargingProfilePurpose \<Rightarrow> string" where
  "purpose_value CHARGING_STATION_EXTERNAL_CONSTRAINTS = ''ChargingStationExternalConstraints''"
| "purpose_value CHARGING_STATION_MAX_PROFILE = ''ChargingStationMaxProfile''"
| "purpose_value TX_DEFAULT_PROFILE = ''TxDefaultProfile''"
| "purpose_value TX_PROFILE = ''TxProfile''"
| "purpose_value PRIORITY_CHARGING = ''PriorityCharging''"
| "purpose_value LOCAL_GENERATION = ''LocalGeneration''"

fun kind_value :: "ChargingProfileKind \<Rightarrow> string" where
  "kind_value ABSOLUTE = ''Absolute''"
| "kind_value RECURRING = ''Recurring''"
| "kind_value RELATIVE = ''Relative''"

fun unit_value :: "ChargingRateUnit \<Rightarrow> string" where
  "unit_value UNIT_W = ''W''"
| "unit_value UNIT_A = ''A''"

text \<open>\<open>Enum(value)\<close>: the member with that value.\<close>

definition enum_of :: "('e \<Rightarrow> string) \<Rightarrow> 'e list \<Rightarrow> pyval \<Rightarrow> 'e result" where
  "enum_of val members v = (case List.find (\<lambda>m. v = PStr (val m)) members of None \<Rightarrow> Inl ValueError | Some m \<Rightarrow> Inr m)"

definition purpose_of :: "pyval \<Rightarrow> ChargingProfilePurpose result" where
  "purpose_of = enum_of purpose_value
     [CHARGING_STATION_EXTERNAL_CONSTRAINTS, CHARGING_STATION_MAX_PROFILE, TX_DEFAULT_PROFILE, TX_PROFILE, PRIORITY_CHARGING, LOCAL_GENERATION]"

definition kind_of :: "pyval \<Rightarrow> ChargingProfileKind result" where
  "kind_of = enum_of kind_value [ABSOLUTE, RECURRING, RELATIVE]"

definition unit_of :: "pyval \<Rightarrow> ChargingRateUnit result" where
  "unit_of = enum_of unit_value [UNIT_W, UNIT_A]"

record ChargingSchedulePeriod =
  sp_start_period :: pyval
  sp_limit :: pyval
  sp_discharging_limit :: pyval
  sp_setpoint :: pyval
  sp_setpoint_reactive :: pyval
  sp_number_phases :: pyval
  sp_phase_to_use :: pyval
  sp_operation_mode :: pyval
  sp_v2x_freq_watt_curve :: pyval
  sp_v2x_signal_watt_curve :: pyval
  sp_v2x_baseline :: pyval

record ChargingSchedule =
  cs_id :: pyval
  cs_start_schedule :: pyval
  cs_duration :: pyval
  cs_charging_rate_unit :: ChargingRateUnit
  cs_periods :: "ChargingSchedulePeriod list"
  cs_min_charging_rate :: pyval

record ChargingProfile =
  cp_id :: pyval
  cp_stack_level :: pyval
  cp_purpose :: ChargingProfilePurpose
  cp_kind :: ChargingProfileKind
  cp_schedule :: ChargingSchedule
  cp_valid_from :: pyval
  cp_valid_to :: pyval
  cp_recurrency_kind :: pyval
  cp_transaction_id :: pyval

text \<open>\<open>d[k]\<close>, and \<open>d.get\<close> on what may not be a dictionary.\<close>

definition item :: "pyval \<Rightarrow> string \<Rightarrow> pyval result" where
  "item v k = (case v of PDict d \<Rightarrow> (case map_of d k of None \<Rightarrow> Inl KeyError | Some x \<Rightarrow> Inr x) | _ \<Rightarrow> Inl TypeError)"

definition dict_of :: "pyval \<Rightarrow> (string, pyval) pydict result" where
  "dict_of v = (case v of PDict d \<Rightarrow> Inr d | _ \<Rightarrow> Inl (OtherError ''AttributeError''))"

definition parse_period :: "pyval \<Rightarrow> ChargingSchedulePeriod result" where
  "parse_period v =
     rbind (item v ''startPeriod'') (\<lambda>start_period. rbind (item v ''limit'') (\<lambda>limit. rbind (dict_of v) (\<lambda>d. Inr
       \<lparr>sp_start_period = start_period, sp_limit = limit, sp_discharging_limit = pget d ''dischargingLimit'',
        sp_setpoint = pget d ''setpoint'', sp_setpoint_reactive = pget d ''setpointReactive'',
        sp_number_phases = pget d ''numberPhases'', sp_phase_to_use = pget d ''phaseToUse'',
        sp_operation_mode = pget d ''operationMode'', sp_v2x_freq_watt_curve = pget d ''v2xFreqWattCurve'',
        sp_v2x_signal_watt_curve = pget d ''v2xSignalWattCurve'', sp_v2x_baseline = pget d ''v2xBaseline''\<rparr>)))"

definition parse_charging_profile :: "pyval \<Rightarrow> ChargingProfile result" where
  "parse_charging_profile profile_data =
     rbind (dict_of profile_data) (\<lambda>d. rbind (dict_of (get_or d ''chargingSchedule'' (PDict []))) (\<lambda>sd.
     rbind (iterate (get_or sd ''chargingSchedulePeriod'' (PList []))) (\<lambda>ps. rbind (traverse parse_period ps) (\<lambda>periods.
     rbind (item (PDict sd) ''id'') (\<lambda>sid. rbind (unit_of (get_or sd ''chargingRateUnit'' (PStr ''W''))) (\<lambda>unit.
     rbind (item profile_data ''id'') (\<lambda>pid. rbind (item profile_data ''stackLevel'') (\<lambda>stack_level.
     rbind (rbind (item profile_data ''chargingProfilePurpose'') purpose_of) (\<lambda>purpose.
     rbind (rbind (item profile_data ''chargingProfileKind'') kind_of) (\<lambda>kind. Inr
       \<lparr>cp_id = pid, cp_stack_level = stack_level, cp_purpose = purpose, cp_kind = kind,
        cp_schedule = \<lparr>cs_id = sid, cs_start_schedule = pget sd ''startSchedule'', cs_duration = pget sd ''duration'',
          cs_charging_rate_unit = unit, cs_periods = periods, cs_min_charging_rate = pget sd ''minChargingRate''\<rparr>,
        cp_valid_from = pget d ''validFrom'', cp_valid_to = pget d ''validTo'',
        cp_recurrency_kind = pget d ''recurrencyKind'', cp_transaction_id = pget d ''transactionId''\<rparr>))))))))))"

definition period_to_dict :: "ChargingSchedulePeriod \<Rightarrow> pyval" where
  "period_to_dict p = PDict
     [(''startPeriod'', sp_start_period p), (''limit'', sp_limit p), (''dischargingLimit'', sp_discharging_limit p),
      (''setpoint'', sp_setpoint p), (''setpointReactive'', sp_setpoint_reactive p), (''numberPhases'', sp_number_phases p),
      (''phaseToUse'', sp_phase_to_use p), (''operationMode'', sp_operation_mode p),
      (''v2xFreqWattCurve'', sp_v2x_freq_watt_curve p), (''v2xSignalWattCurve'', sp_v2x_signal_watt_curve p),
      (''v2xBaseline'', sp_v2x_baseline p)]"

definition profile_to_dict :: "ChargingProfile \<Rightarrow> pyval" where
  "profile_to_dict p = PDict
     [(''id'', cp_id p), (''stackLevel'', cp_stack_level p), (''chargingProfilePurpose'', PStr (purpose_value (cp_purpose p))),
      (''chargingProfileKind'', PStr (kind_value (cp_kind p))),
      (''chargingSchedule'', PDict
        [(''id'', cs_id (cp_schedule p)), (''startSchedule'', cs_start_schedule (cp_schedule p)), (''duration'', cs_duration (cp_schedule p)),
         (''chargingRateUnit'', PStr (unit_value (cs_charging_rate_unit (cp_schedule p)))),
         (''chargingSchedulePeriod'', PList (map period_to_dict (cs_periods (cp_schedule p)))),
         (''minChargingRate'', cs_min_charging_rate (cp_schedule p))]),
      (''validFrom'', cp_valid_from p), (''validTo'', cp_valid_to p), (''recurrencyKind'', cp_recurrency_kind p),
      (''transactionId'', cp_transaction_id p)]"

section \<open>Model: the table\<close>

record profile_row =
  pr_station :: string
  pr_evse :: int
  pr_profile_id :: int
  pr_stack_level :: int
  pr_purpose :: string
  pr_kind :: string
  pr_schedule :: pyval
  pr_valid_from :: "dtime option"
  pr_valid_to :: "dtime option"
  pr_transaction_id :: pyval
  pr_created_at :: dtime

definition same_key :: "profile_row \<Rightarrow> profile_row \<Rightarrow> bool" where
  "same_key a b \<longleftrightarrow> pr_station a = pr_station b \<and> pr_evse a = pr_evse b \<and> pr_profile_id a = pr_profile_id b"

definition store_charging_profile :: "profile_row \<Rightarrow> profile_row list \<Rightarrow> profile_row list" where
  "store_charging_profile r tab =
     (if \<exists>x\<in>set tab. same_key r x
      then update_where (same_key r)
        (\<lambda>x. x\<lparr>pr_stack_level := pr_stack_level r, pr_purpose := pr_purpose r, pr_kind := pr_kind r, pr_schedule := pr_schedule r,
               pr_valid_from := pr_valid_from r, pr_valid_to := pr_valid_to r, pr_transaction_id := pr_transaction_id r\<rparr>) tab
      else tab @ [r])"

definition remove_charging_profile :: "string \<Rightarrow> int \<Rightarrow> int \<Rightarrow> profile_row list \<Rightarrow> profile_row list" where
  "remove_charging_profile station evse pid tab =
     filter (\<lambda>r. \<not> (pr_station r = station \<and> pr_evse r = evse \<and> pr_profile_id r = pid)) tab"

definition newest_first :: "profile_row list \<Rightarrow> profile_row list" where
  "newest_first rows = sort_key (\<lambda>r. (- pr_stack_level r, - pr_created_at r)) rows"

text \<open>Only the first filter that is given is used; \<open>evse_id = NULL\<close> holds for no row.\<close>

definition row_filter :: "int option \<Rightarrow> string option \<Rightarrow> int option \<Rightarrow> profile_row \<Rightarrow> bool" where
  "row_filter pid purpose level r =
     (case pid of
        Some i \<Rightarrow> pr_profile_id r = i
      | None \<Rightarrow> (case purpose of
                   Some p \<Rightarrow> pr_purpose r = p
                 | None \<Rightarrow> (case level of Some l \<Rightarrow> pr_stack_level r = l | None \<Rightarrow> True)))"

definition ts_get_charging_profiles ::
  "profile_row list \<Rightarrow> string \<Rightarrow> int option \<Rightarrow> int option \<Rightarrow> string option \<Rightarrow> int option \<Rightarrow> pyval list" where
  "ts_get_charging_profiles tab station evse pid purpose level =
     map pr_schedule (newest_first (filter (\<lambda>r. pr_station r = station \<and> evse = Some (pr_evse r) \<and> row_filter pid purpose level r) tab))"

definition get_active_charging_profiles :: "profile_row list \<Rightarrow> string \<Rightarrow> int \<Rightarrow> dtime \<Rightarrow> pyval list" where
  "get_active_charging_profiles tab station evse now =
     map pr_schedule (newest_first (filter (\<lambda>r. pr_station r = station \<and> pr_evse r = evse \<and>
       (case pr_valid_from r of None \<Rightarrow> True | Some t \<Rightarrow> t \<le> now) \<and> (case pr_valid_to r of None \<Rightarrow> True | Some t \<Rightarrow> t \<ge> now)) tab))"

section \<open>Model: validation\<close>

datatype rejection =
    DuplicateId pyval | StackLevelRange | NoPeriods | StartNegative nat | LimitNegative nat | DischargePositive nat
  | SetpointAboveLimit nat | SetpointBelowDischarge nat | ValidityOrder | ValidityFormat
  | StackFull nat ChargingProfilePurpose pyval | NoActiveProfile | ProfileNotFound int | InternalError py_error

fun reason_code :: "rejection \<Rightarrow> string" where
  "reason_code (DuplicateId i) = ''Duplicate''"
| "reason_code NoActiveProfile = ''NoActiveChargingProfile''"
| "reason_code (ProfileNotFound i) = ''NotFound''"
| "reason_code (InternalError e) = ''InternalError''"
| "reason_code _ = ''PropertyConstraintViolation''"

datatype 'a response = Accepted 'a | Rejected rejection

definition py_less :: "pyval \<Rightarrow> pyval \<Rightarrow> bool result" where
  "py_less a b = (case (num a, num b) of (Some x, Some y) \<Rightarrow> Inr (x < y) | _ \<Rightarrow> Inl TypeError)"

text \<open>A check yields the rejection, if any; the first one counts.\<close>

definition check :: "bool result \<Rightarrow> rejection \<Rightarrow> rejection option result \<Rightarrow> rejection option result" where
  "check b why rest = rbind b (\<lambda>bad. if bad then Inr (Some why) else rest)"

definition validate_period :: "nat \<Rightarrow> ChargingSchedulePeriod \<Rightarrow> rejection option result" where
  "validate_period i p =
     check (py_less (sp_start_period p) (PInt 0)) (StartNegative i)
    (check (py_less (sp_limit p) (PInt 0)) (LimitNegative i)
    (check (if sp_discharging_limit p = PNone then Inr False else py_less (PInt 0) (sp_discharging_limit p)) (DischargePositive i)
    (if sp_setpoint p = PNone then Inr None
     else
       check (rbind (py_less (PInt 0) (sp_limit p)) (\<lambda>b. if b then py_less (sp_limit p) (sp_setpoint p) else Inr False)) (SetpointAboveLimit i)
      (check (if sp_discharging_limit p = PNone then Inr False else py_less (sp_setpoint p) (sp_discharging_limit p)) (SetpointBelowDischarge i)
      (Inr None)))))"

fun validate_periods :: "nat \<Rightarrow> ChargingSchedulePeriod list \<Rightarrow> rejection option result" where
  "validate_periods i [] = Inr None"
| "validate_periods i (p # ps) = rbind (validate_period i p) (\<lambda>r. if r = None then validate_periods (i + 1) ps else Inr r)"

text \<open>\<open>datetime.fromisoformat(v.replace("Z", "+00:00"))\<close>; two times are comparable when both or neither have a
  zone.\<close>

definition replace_Z :: "string \<Rightarrow> string" where
  "replace_Z s = concat (map (\<lambda>c. if c = CHR ''Z'' then ''+00:00'' else [c]) s)"

fun iso_time :: "(string \<Rightarrow> (bool \<times> dtime) option) \<Rightarrow> pyval \<Rightarrow> (bool \<times> dtime) result" where
  "iso_time fromiso (PStr s) = (case fromiso (replace_Z s) of None \<Rightarrow> Inl ValueError | Some t \<Rightarrow> Inr t)"
| "iso_time fromiso v = Inl (OtherError ''AttributeError'')"

definition validity_ends_first :: "(string \<Rightarrow> (bool \<times> dtime) option) \<Rightarrow> pyval \<Rightarrow> pyval \<Rightarrow> bool result" where
  "validity_ends_first fromiso from to =
     rbind (iso_time fromiso from) (\<lambda>a. rbind (iso_time fromiso to) (\<lambda>b. if fst a = fst b then Inr (snd a \<ge> snd b) else Inl TypeError))"

definition validate_validity :: "(string \<Rightarrow> (bool \<times> dtime) option) \<Rightarrow> pyval \<Rightarrow> pyval \<Rightarrow> rejection option result" where
  "validate_validity fromiso from to =
     (if truthy from \<and> truthy to
      then case validity_ends_first fromiso from to of
             Inl ValueError \<Rightarrow> Inr (Some ValidityFormat)
           | Inl e \<Rightarrow> Inl e
           | Inr b \<Rightarrow> Inr (if b then Some ValidityOrder else None)
      else Inr None)"

definition validate_profile :: "(string \<Rightarrow> (bool \<times> dtime) option) \<Rightarrow> ChargingProfile list \<Rightarrow> ChargingProfile \<Rightarrow> rejection option result" where
  "validate_profile fromiso existing_profiles p =
     check (Inr (\<exists>q\<in>set existing_profiles. py_eq (cp_id q) (cp_id p))) (DuplicateId (cp_id p))
    (check (rbind (py_less (cp_stack_level p) (PInt 0)) (\<lambda>b. if b then Inr True else py_less (PInt 10) (cp_stack_level p))) StackLevelRange
    (check (Inr (cs_periods (cp_schedule p) = [])) NoPeriods
    (rbind (validate_periods 0 (cs_periods (cp_schedule p))) (\<lambda>r.
       if r = None then validate_validity fromiso (cp_valid_from p) (cp_valid_to p) else Inr r))))"

definition stacking_limits :: "(string, nat) pydict" where
  "stacking_limits =
     [(''ChargingStationMaxProfile'', 1), (''TxDefaultProfile'', 1), (''TxProfile'', 1), (''PriorityCharging'', 1),
      (''LocalGeneration'', 1), (''ChargingStationExternalConstraints'', 1)]"

definition check_stacking_limits :: "ChargingProfile list \<Rightarrow> ChargingProfile \<Rightarrow> rejection option" where
  "check_stacking_limits existing_profiles p =
     (let max_profiles = (case map_of stacking_limits (purpose_value (cp_purpose p)) of None \<Rightarrow> 1 | Some n \<Rightarrow> n);
          same_purpose_level = filter (\<lambda>q. cp_purpose q = cp_purpose p \<and> py_eq (cp_stack_level q) (cp_stack_level p)) existing_profiles
      in if length same_purpose_level \<ge> max_profiles then Some (StackFull max_profiles (cp_purpose p) (cp_stack_level p)) else None)"

section \<open>Model: the manager\<close>

record ChargingProfileManager =
  pm_table :: "profile_row list"
  pm_reported :: "(string \<times> int \<times> int \<times> pyval) list"
  pm_cache_manager :: "ChargingProfile list CacheManager"
  pm_profile_cache :: "(string, ChargingProfile list) pydict"

type_synonym db = "nat \<Rightarrow> py_error option"

definition statement :: "db \<Rightarrow> nat \<Rightarrow> 'a \<Rightarrow> 'a result" where
  "statement db n x = (case db n of None \<Rightarrow> Inr x | Some e \<Rightarrow> Inl e)"

definition get_profiles ::
  "profile_row list \<Rightarrow> string \<Rightarrow> int \<Rightarrow> int option \<Rightarrow> string option \<Rightarrow> int option \<Rightarrow> ChargingProfile list result" where
  "get_profiles tab station evse pid purpose level =
     traverse parse_charging_profile (ts_get_charging_profiles tab station (Some evse) pid purpose level)"

definition legacy_key :: "string \<Rightarrow> int \<Rightarrow> string" where
  "legacy_key station evse = station @ '':'' @ int_str evse"

definition active_key :: "string \<Rightarrow> int \<Rightarrow> string" where
  "active_key station evse = ''active_profiles:'' @ station @ '':'' @ int_str evse"

definition sql_int :: "pyval \<Rightarrow> int result" where
  "sql_int v = (case as_int v of None \<Rightarrow> Inl (OtherError ''DataError'') | Some i \<Rightarrow> Inr i)"

definition sql_time :: "(pyval \<Rightarrow> dtime result) \<Rightarrow> pyval \<Rightarrow> dtime option result" where
  "sql_time ts v = (if v = PNone then Inr None else rbind (ts v) (\<lambda>t. Inr (Some t)))"

definition profile_to_row :: "(pyval \<Rightarrow> dtime result) \<Rightarrow> dtime \<Rightarrow> string \<Rightarrow> int \<Rightarrow> ChargingProfile \<Rightarrow> profile_row result" where
  "profile_to_row ts now station evse p =
     rbind (sql_int (cp_id p)) (\<lambda>pid. rbind (sql_int (cp_stack_level p)) (\<lambda>level.
     rbind (sql_time ts (cp_valid_from p)) (\<lambda>from. rbind (sql_time ts (cp_valid_to p)) (\<lambda>to. Inr
       \<lparr>pr_station = station, pr_evse = evse, pr_profile_id = pid, pr_stack_level = level, pr_purpose = purpose_value (cp_purpose p),
        pr_kind = kind_value (cp_kind p), pr_schedule = profile_to_dict p, pr_valid_from = from, pr_valid_to = to,
        pr_transaction_id = cp_transaction_id p, pr_created_at = now\<rparr>))))"

definition update_cache :: "string \<Rightarrow> int \<Rightarrow> ChargingProfile \<Rightarrow> ChargingProfileManager \<Rightarrow> ChargingProfileManager" where
  "update_cache station evse p s =
     (let k = legacy_key station evse; old = (case map_of (pm_profile_cache s) k of None \<Rightarrow> [] | Some ps \<Rightarrow> ps)
      in s\<lparr>pm_profile_cache := AList.update k (filter (\<lambda>q. \<not> py_eq (cp_id q) (cp_id p)) old @ [p]) (pm_profile_cache s)\<rparr>)"

text \<open>\<open>set_charging_profile\<close> reads the table twice before it writes, with the loop free in between and no lock: its
  checks and its write are two definitions, and \<open>set_charging_profile\<close> below is their composition when no
  other request comes in between. What happens otherwise is in \<open>interleaved_sets_stack\<close> at the end.\<close>

definition set_check ::
  "(string \<Rightarrow> (bool \<times> dtime) option) \<Rightarrow> db \<Rightarrow> profile_row list \<Rightarrow> profile_row list \<Rightarrow> string \<Rightarrow> int \<Rightarrow> pyval \<Rightarrow> rejection + ChargingProfile" where
  "set_check fromiso db tab tab' station evse message =
     (let r = rbind (parse_charging_profile message) (\<lambda>p.
              rbind (rbind (statement db 0 ()) (\<lambda>_. get_profiles tab station evse None None None)) (\<lambda>existing.
              rbind (validate_profile fromiso existing p) (\<lambda>bad.
                if bad \<noteq> None then Inr (bad, p)
                else rbind (rbind (statement db 1 ()) (\<lambda>_. get_profiles tab' station evse None None None)) (\<lambda>existing'.
                     Inr (check_stacking_limits existing' p, p)))))
      in case r of Inl e \<Rightarrow> Inl (InternalError e) | Inr (Some why, _) \<Rightarrow> Inl why | Inr (None, p) \<Rightarrow> Inr p)"

definition set_commit ::
  "(pyval \<Rightarrow> dtime result) \<Rightarrow> db \<Rightarrow> dtime \<Rightarrow> string \<Rightarrow> int \<Rightarrow> ChargingProfile \<Rightarrow> ChargingProfileManager \<Rightarrow> unit response \<times> ChargingProfileManager" where
  "set_commit ts db now station evse p s =
     (case rbind (statement db 2 ()) (\<lambda>_. profile_to_row ts now station evse p) of
        Inl e \<Rightarrow> (Rejected (InternalError e), s)
      | Inr r \<Rightarrow> (Accepted (), update_cache station evse p (s\<lparr>pm_table := store_charging_profile r (pm_table s)\<rparr>)))"

definition set_charging_profile ::
  "(string \<Rightarrow> (bool \<times> dtime) option) \<Rightarrow> (pyval \<Rightarrow> dtime result) \<Rightarrow> db \<Rightarrow> dtime \<Rightarrow> string \<Rightarrow> int \<Rightarrow> pyval \<Rightarrow> ChargingProfileManager \<Rightarrow>
     unit response \<times> ChargingProfileManager" where
  "set_charging_profile fromiso ts db now station evse message s =
     (case set_check fromiso db (pm_table s) (pm_table s) station evse message of
        Inl why \<Rightarrow> (Rejected why, s)
      | Inr p \<Rightarrow> set_commit ts db now station evse p s)"

fun remove_profiles :: "db \<Rightarrow> nat \<Rightarrow> string \<Rightarrow> int \<Rightarrow> ChargingProfile list \<Rightarrow> profile_row list \<Rightarrow> py_error option \<times> profile_row list" where
  "remove_profiles db n station evse [] tab = (None, tab)"
| "remove_profiles db n station evse (p # ps) tab =
     (case rbind (statement db n ()) (\<lambda>_. sql_int (cp_id p)) of
        Inl e \<Rightarrow> (Some e, tab)
      | Inr pid \<Rightarrow> remove_profiles db (n + 1) station evse ps (remove_charging_profile station evse pid tab))"

definition refresh_cache :: "db \<Rightarrow> nat \<Rightarrow> string \<Rightarrow> int \<Rightarrow> ChargingProfileManager \<Rightarrow> unit response \<times> ChargingProfileManager" where
  "refresh_cache db n station evse s =
     (case rbind (statement db n ()) (\<lambda>_. get_profiles (pm_table s) station evse None None None) of
        Inl e \<Rightarrow> (Rejected (InternalError e), s)
      | Inr ps \<Rightarrow> (Accepted (), s\<lparr>pm_profile_cache := AList.update (legacy_key station evse) ps (pm_profile_cache s)\<rparr>))"

definition clear_charging_profile ::
  "db \<Rightarrow> string \<Rightarrow> int \<Rightarrow> int option \<Rightarrow> string option \<Rightarrow> int option \<Rightarrow> ChargingProfileManager \<Rightarrow> unit response \<times> ChargingProfileManager" where
  "clear_charging_profile db station evse pid purpose level s =
     (case rbind (statement db 0 ()) (\<lambda>_. get_profiles (pm_table s) station evse pid purpose level) of
        Inl e \<Rightarrow> (Rejected (InternalError e), s)
      | Inr [] \<Rightarrow> (Accepted (), s)
      | Inr ps \<Rightarrow>
          (case remove_profiles db 1 station evse ps (pm_table s) of
             (Some e, tab) \<Rightarrow> (Rejected (InternalError e), s\<lparr>pm_table := tab\<rparr>)
           | (None, tab) \<Rightarrow> refresh_cache db (length ps + 1) station evse (s\<lparr>pm_table := tab\<rparr>)))"

definition get_charging_profiles ::
  "db \<Rightarrow> string \<Rightarrow> int \<Rightarrow> int option \<Rightarrow> string option \<Rightarrow> int option \<Rightarrow> ChargingProfileManager \<Rightarrow> pyval list response" where
  "get_charging_profiles db station evse pid purpose level s =
     (case rbind (statement db 0 ()) (\<lambda>_. get_profiles (pm_table s) station evse pid purpose level) of
        Inl e \<Rightarrow> Rejected (InternalError e)
      | Inr ps \<Rightarrow> Accepted (map profile_to_dict ps))"

definition get_active_profiles ::
  "db \<Rightarrow> dtime \<Rightarrow> string \<Rightarrow> int \<Rightarrow> ChargingProfileManager \<Rightarrow> ChargingProfile list result \<times> ChargingProfileManager" where
  "get_active_profiles db now station evse s =
     (let r = cm_get (active_key station evse) None now now (pm_cache_manager s); s1 = s\<lparr>pm_cache_manager := snd r\<rparr>
      in case fst r of
           Some (p # ps) \<Rightarrow> (Inr (p # ps), s1)
         | _ \<Rightarrow>
             (case map_of (pm_profile_cache s) (legacy_key station evse) of
                Some ps \<Rightarrow> (Inr ps, s1)
              | None \<Rightarrow>
                  (case rbind (statement db 0 ()) (\<lambda>_. traverse parse_charging_profile (get_active_charging_profiles (pm_table s) station evse now)) of
                     Inl e \<Rightarrow> (Inl e, s1)
                   | Inr ps \<Rightarrow>
                       (Inr ps, s1\<lparr>pm_cache_manager := cm_set (active_key station evse) (Some ps) (Some (300 * usec_per_sec)) TTL now now (pm_cache_manager s1),
                                   pm_profile_cache := AList.update (legacy_key station evse) ps (pm_profile_cache s1)\<rparr>))))"

fun report_profiles :: "db \<Rightarrow> nat \<Rightarrow> string \<Rightarrow> int \<Rightarrow> int \<Rightarrow> pyval list \<Rightarrow> ChargingProfileManager \<Rightarrow> ChargingProfileManager" where
  "report_profiles db n station evse request_id [] s = s"
| "report_profiles db n station evse request_id (m # ms) s =
     (case rbind (parse_charging_profile m) (statement db n) of
        Inl e \<Rightarrow> s
      | Inr p \<Rightarrow> report_profiles db (n + 1) station evse request_id ms
          (s\<lparr>pm_reported := pm_reported s @ [(station, evse, request_id, profile_to_dict p)]\<rparr>))"

definition update_dynamic_schedule :: "db \<Rightarrow> string \<Rightarrow> int \<Rightarrow> ChargingProfileManager \<Rightarrow> unit response" where
  "update_dynamic_schedule db station pid s =
     (case statement db 0 (ts_get_charging_profiles (pm_table s) station None None None None) of
        Inl e \<Rightarrow> Rejected (InternalError e)
      | Inr [] \<Rightarrow> Rejected (ProfileNotFound pid)
      | Inr (row # rows) \<Rightarrow> Rejected (InternalError KeyError))"

section \<open>Model: the composite schedule\<close>

record slot_data =
  sl_charge_limit :: pyval
  sl_discharge_limit :: pyval
  sl_setpoint :: pyval
  sl_setpoint_reactive :: pyval
  sl_operation_mode :: pyval
  sl_v2x_freq_watt_curve :: pyval
  sl_v2x_signal_watt_curve :: pyval
  sl_v2x_baseline :: pyval
  sl_source :: "pyfloat option"
  sl_priority :: int

definition new_slot :: slot_data where
  "new_slot = \<lparr>sl_charge_limit = PFloat 0, sl_discharge_limit = PFloat 0, sl_setpoint = PNone, sl_setpoint_reactive = PNone,
     sl_operation_mode = PNone, sl_v2x_freq_watt_curve = PNone, sl_v2x_signal_watt_curve = PNone, sl_v2x_baseline = PNone,
     sl_source = None, sl_priority = 0\<rparr>"

text \<open>\<open>range(a, b, 60)\<close>.\<close>

definition minutes :: "int \<Rightarrow> int \<Rightarrow> int list" where
  "minutes a b = map (\<lambda>k. a + 60 * int k) [0..<nat ((b - a + 59) div 60)]"

fun profile_priority :: "ChargingProfilePurpose \<Rightarrow> int" where
  "profile_priority CHARGING_STATION_EXTERNAL_CONSTRAINTS = 100"
| "profile_priority CHARGING_STATION_MAX_PROFILE = 90"
| "profile_priority PRIORITY_CHARGING = 80"
| "profile_priority TX_PROFILE = 70"
| "profile_priority TX_DEFAULT_PROFILE = 60"
| "profile_priority LOCAL_GENERATION = 50"

definition should_override_slot_v2g :: "ChargingProfilePurpose \<Rightarrow> pyfloat \<Rightarrow> slot_data \<Rightarrow> bool" where
  "should_override_slot_v2g purpose level d =
     (case sl_source d of
        None \<Rightarrow> True
      | Some source \<Rightarrow>
          if level > source then True
          else if level = source then
            (if purpose = PRIORITY_CHARGING then True
             else if purpose = LOCAL_GENERATION then False
             else purpose = CHARGING_STATION_EXTERNAL_CONSTRAINTS \<and> sl_priority d < profile_priority purpose)
          else False)"

definition apply_to_slot :: "ChargingProfilePurpose \<Rightarrow> pyfloat \<Rightarrow> ChargingSchedulePeriod \<Rightarrow> slot_data \<Rightarrow> slot_data" where
  "apply_to_slot purpose level p d =
     (if should_override_slot_v2g purpose level d
      then \<lparr>sl_charge_limit = sp_limit p, sl_discharge_limit = sp_discharging_limit p, sl_setpoint = sp_setpoint p,
            sl_setpoint_reactive = sp_setpoint_reactive p, sl_operation_mode = sp_operation_mode p,
            sl_v2x_freq_watt_curve = sp_v2x_freq_watt_curve p, sl_v2x_signal_watt_curve = sp_v2x_signal_watt_curve p,
            sl_v2x_baseline = sp_v2x_baseline p, sl_source = Some level, sl_priority = profile_priority purpose\<rparr>
      else d)"

definition update_slot :: "(slot_data \<Rightarrow> slot_data) \<Rightarrow> (int, slot_data) pydict \<Rightarrow> int \<Rightarrow> (int, slot_data) pydict" where
  "update_slot f time_slots slot = (case map_of time_slots slot of None \<Rightarrow> time_slots | Some d \<Rightarrow> AList.update slot (f d) time_slots)"

text \<open>The stack levels of stored profiles are numbers, as they were validated; the comparison of others is
  taken to raise. \<open>range\<close> raises on a start that is not an integer.\<close>

definition apply_period ::
  "ChargingProfilePurpose \<Rightarrow> pyfloat \<Rightarrow> int \<Rightarrow> ChargingSchedulePeriod \<Rightarrow> (int, slot_data) pydict \<Rightarrow> (int, slot_data) pydict result" where
  "apply_period purpose level duration p time_slots =
     (case as_int (sp_start_period p) of
        None \<Rightarrow> Inl TypeError
      | Some start_time \<Rightarrow>
          Inr (foldl (update_slot (apply_to_slot purpose level p)) time_slots (minutes start_time (min (start_time + 60) duration))))"

fun apply_periods ::
  "ChargingProfilePurpose \<Rightarrow> pyfloat \<Rightarrow> int \<Rightarrow> ChargingSchedulePeriod list \<Rightarrow> (int, slot_data) pydict \<Rightarrow> (int, slot_data) pydict result" where
  "apply_periods purpose level duration [] time_slots = Inr time_slots"
| "apply_periods purpose level duration (p # ps) time_slots =
     rbind (apply_period purpose level duration p time_slots) (apply_periods purpose level duration ps)"

definition stack_level :: "ChargingProfile \<Rightarrow> pyfloat result" where
  "stack_level p = (case num (cp_stack_level p) of None \<Rightarrow> Inl TypeError | Some x \<Rightarrow> Inr x)"

definition apply_profile_to_slots_v2g ::
  "int \<Rightarrow> pyfloat \<times> ChargingProfile \<Rightarrow> (int, slot_data) pydict \<Rightarrow> (int, slot_data) pydict result" where
  "apply_profile_to_slots_v2g duration lp = apply_periods (cp_purpose (snd lp)) (fst lp) duration (cs_periods (cp_schedule (snd lp)))"

fun apply_profiles :: "int \<Rightarrow> (pyfloat \<times> ChargingProfile) list \<Rightarrow> (int, slot_data) pydict \<Rightarrow> (int, slot_data) pydict result" where
  "apply_profiles duration [] time_slots = Inr time_slots"
| "apply_profiles duration (p # ps) time_slots = rbind (apply_profile_to_slots_v2g duration p time_slots) (apply_profiles duration ps)"

type_synonym state_key = "pyval \<times> pyval \<times> pyval \<times> pyval"

definition state_key :: "slot_data \<Rightarrow> state_key" where
  "state_key d = (sl_charge_limit d, sl_discharge_limit d, sl_setpoint d, sl_operation_mode d)"

definition same_state :: "state_key \<Rightarrow> state_key \<Rightarrow> bool" where
  "same_state k k' \<longleftrightarrow>
     (case k of (a, b, c, d) \<Rightarrow> case k' of (a', b', c', d') \<Rightarrow> py_eq a a' \<and> py_eq b b' \<and> py_eq c c' \<and> py_eq d d')"

definition optional_field :: "string \<Rightarrow> pyval \<Rightarrow> (string \<times> pyval) list" where
  "optional_field k v = (if v = PNone then [] else [(k, v)])"

definition create_period_from_slot_data :: "int \<Rightarrow> slot_data \<Rightarrow> (string, pyval) pydict" where
  "create_period_from_slot_data start_period d =
     [(''startPeriod'', PInt start_period), (''limit'', sl_charge_limit d), (''numberPhases'', PInt 3)] @
     optional_field ''dischargingLimit'' (sl_discharge_limit d) @ optional_field ''setpoint'' (sl_setpoint d) @
     optional_field ''setpointReactive'' (sl_setpoint_reactive d) @ optional_field ''operationMode'' (sl_operation_mode d) @
     optional_field ''v2xFreqWattCurve'' (sl_v2x_freq_watt_curve d) @ optional_field ''v2xSignalWattCurve'' (sl_v2x_signal_watt_curve d) @
     optional_field ''v2xBaseline'' (sl_v2x_baseline d)"

text \<open>Every slot the loop looks up is a key.\<close>

definition slot_at :: "(int, slot_data) pydict \<Rightarrow> int \<Rightarrow> slot_data" where
  "slot_at time_slots t = (case map_of time_slots t of None \<Rightarrow> new_slot | Some d \<Rightarrow> d)"

fun merge_slots :: "(int, slot_data) pydict \<Rightarrow> int list \<Rightarrow> state_key option \<Rightarrow> int \<Rightarrow> (int \<times> slot_data) list" where
  "merge_slots time_slots [] current start = (if current = None then [] else [(start, slot_at time_slots start)])"
| "merge_slots time_slots (t # ts) current start =
     (let k = state_key (slot_at time_slots t)
      in if (case current of None \<Rightarrow> True | Some c \<Rightarrow> \<not> same_state c k)
         then (if current = None then [] else [(start, slot_at time_slots start)]) @ merge_slots time_slots ts (Some k) t
         else merge_slots time_slots ts current start)"

definition composite_slots :: "ChargingProfile list \<Rightarrow> int \<Rightarrow> (int, slot_data) pydict result" where
  "composite_slots profiles duration =
     rbind (traverse (\<lambda>p. rbind (stack_level p) (\<lambda>l. Inr (l, p))) profiles) (\<lambda>lps.
       apply_profiles duration (sort_key (\<lambda>lp. - fst lp) lps) (map (\<lambda>t. (t, new_slot)) (minutes 0 duration)))"

record composite =
  co_duration :: int
  co_charging_rate_unit :: string
  co_periods :: "(string, pyval) pydict list"

definition calculate_composite_schedule :: "ChargingProfile list \<Rightarrow> int \<Rightarrow> string option \<Rightarrow> composite result" where
  "calculate_composite_schedule profiles duration unit =
     rbind (composite_slots profiles duration) (\<lambda>time_slots. Inr
       \<lparr>co_duration = duration,
        co_charging_rate_unit = (case unit of None \<Rightarrow> ''W'' | Some u \<Rightarrow> if u = [] then ''W'' else u),
        co_periods = map (\<lambda>(t, d). create_period_from_slot_data t d) (merge_slots time_slots (sort (map fst time_slots)) None 0)\<rparr>)"

definition get_composite_schedule ::
  "db \<Rightarrow> dtime \<Rightarrow> string \<Rightarrow> int \<Rightarrow> int \<Rightarrow> string option \<Rightarrow> ChargingProfileManager \<Rightarrow> composite response \<times> ChargingProfileManager" where
  "get_composite_schedule db now station evse duration unit s =
     (let r = get_active_profiles db now station evse s
      in (case fst r of
            Inl e \<Rightarrow> Rejected (InternalError e)
          | Inr [] \<Rightarrow> Rejected NoActiveProfile
          | Inr ps \<Rightarrow> (case calculate_composite_schedule ps duration unit of Inl e \<Rightarrow> Rejected (InternalError e) | Inr c \<Rightarrow> Accepted c),
          snd r))"

section \<open>Model: a run of the manager\<close>

datatype profile_op =
    SetProfile db dtime string int pyval
  | ClearProfile db string int "int option" "string option" "int option"
  | CompositeSchedule db dtime string int int "string option"
  | ReportProfiles db string int int "pyval list"

fun profile_step :: "(string \<Rightarrow> (bool \<times> dtime) option) \<Rightarrow> (pyval \<Rightarrow> dtime result) \<Rightarrow> ChargingProfileManager \<Rightarrow> profile_op \<Rightarrow> ChargingProfileManager" where
  "profile_step fromiso ts s (SetProfile db now station evse message) = snd (set_charging_profile fromiso ts db now station evse message s)"
| "profile_step fromiso ts s (ClearProfile db station evse pid purpose level) = snd (clear_charging_profile db station evse pid purpose level s)"
| "profile_step fromiso ts s (CompositeSchedule db now station evse duration unit) =
     snd (get_composite_schedule db now station evse duration unit s)"
| "profile_step fromiso ts s (ReportProfiles db station evse request_id messages) = report_profiles db 0 station evse request_id messages s"

section \<open>Lemmas: parsing and validation\<close>

lemma enum_values [simp]:
  "purpose_of (PStr (purpose_value x)) = Inr x" "kind_of (PStr (kind_value k)) = Inr k" "unit_of (PStr (unit_value u)) = Inr u"
  by (cases x; simp add: purpose_of_def enum_of_def; fail | cases k; simp add: kind_of_def enum_of_def; fail | cases u; simp add: unit_of_def enum_of_def; fail)+

lemma purpose_value_inject: "purpose_value a = purpose_value b \<Longrightarrow> a = b"
  by (cases a; cases b) simp_all

lemma parse_period_to_dict: "parse_period (period_to_dict p) = Inr p"
  by (simp add: parse_period_def period_to_dict_def item_def dict_of_def pget_def)

lemma parse_profile_to_dict: "parse_charging_profile (profile_to_dict p) = Inr p"
  by (simp add: parse_charging_profile_def profile_to_dict_def item_def dict_of_def pget_def get_or_def
      traverse_map parse_period_to_dict)

text \<open>What validation establishes of a profile.\<close>

definition period_valid :: "ChargingSchedulePeriod \<Rightarrow> bool" where
  "period_valid p \<longleftrightarrow>
     (\<exists>start limit. num (sp_start_period p) = Some start \<and> 0 \<le> start \<and> num (sp_limit p) = Some limit \<and> 0 \<le> limit \<and>
       (sp_discharging_limit p \<noteq> PNone \<longrightarrow> (\<exists>d. num (sp_discharging_limit p) = Some d \<and> d \<le> 0)) \<and>
       (sp_setpoint p \<noteq> PNone \<longrightarrow>
          (0 < limit \<longrightarrow> (\<exists>x. num (sp_setpoint p) = Some x \<and> x \<le> limit)) \<and>
          (sp_discharging_limit p \<noteq> PNone \<longrightarrow>
             (\<exists>x d. num (sp_setpoint p) = Some x \<and> num (sp_discharging_limit p) = Some d \<and> d \<le> x))))"

definition profile_valid :: "ChargingProfile \<Rightarrow> bool" where
  "profile_valid p \<longleftrightarrow>
     (\<exists>l. num (cp_stack_level p) = Some l \<and> 0 \<le> l \<and> l \<le> 10) \<and> cs_periods (cp_schedule p) \<noteq> [] \<and> list_all period_valid (cs_periods (cp_schedule p))"

lemma py_less_Inr: "py_less a b = Inr c \<longleftrightarrow> (\<exists>x y. num a = Some x \<and> num b = Some y \<and> c = (x < y))"
  by (auto simp: py_less_def split: option.split)

lemma check_None: "check b why rest = Inr None \<longleftrightarrow> b = Inr False \<and> rest = Inr None"
  by (auto simp: check_def rbind_Inr_iff split: if_splits)

lemma validated_period: "validate_period i p = Inr None \<Longrightarrow> period_valid p"
  unfolding validate_period_def period_valid_def check_None
  by (auto simp: check_None rbind_Inr_iff py_less_Inr not_less split: if_splits)

lemma validated_periods: "validate_periods i ps = Inr None \<Longrightarrow> list_all period_valid ps"
  by (induction ps arbitrary: i) (auto simp: rbind_Inr_iff validated_period split: if_splits)

lemma validated_profile:
  assumes "validate_profile fromiso existing p = Inr None"
  shows "profile_valid p \<and> (\<forall>q\<in>set existing. \<not> py_eq (cp_id q) (cp_id p))"
proof -
  have "rbind (py_less (cp_stack_level p) (PInt 0)) (\<lambda>b. if b then Inr True else py_less (PInt 10) (cp_stack_level p)) = Inr False"
    and "cs_periods (cp_schedule p) \<noteq> []" and "\<forall>q\<in>set existing. \<not> py_eq (cp_id q) (cp_id p)"
    and "validate_periods 0 (cs_periods (cp_schedule p)) = Inr None"
    using assms by (auto simp: validate_profile_def check_None rbind_Inr_iff split: if_splits)
  then show ?thesis
    by (auto simp: profile_valid_def validated_periods rbind_Inr_iff py_less_Inr not_less split: if_splits)
qed

section \<open>Lemmas: the table\<close>

definition row_of :: "profile_row \<Rightarrow> ChargingProfile \<Rightarrow> bool" where
  "row_of r p \<longleftrightarrow>
     pr_schedule r = profile_to_dict p \<and> as_int (cp_id p) = Some (pr_profile_id r) \<and> as_int (cp_stack_level p) = Some (pr_stack_level r) \<and>
     pr_purpose r = purpose_value (cp_purpose p)"

abbreviation row_key :: "profile_row \<Rightarrow> string \<times> int \<times> int" where
  "row_key r \<equiv> (pr_station r, pr_evse r, pr_profile_id r)"

abbreviation row_stack :: "profile_row \<Rightarrow> string \<times> int \<times> string \<times> int" where
  "row_stack r \<equiv> (pr_station r, pr_evse r, pr_purpose r, pr_stack_level r)"

definition table_ok :: "profile_row list \<Rightarrow> bool" where
  "table_ok tab \<longleftrightarrow>
     (\<forall>r\<in>set tab. \<exists>p. row_of r p \<and> profile_valid p) \<and> distinct (map row_key tab) \<and> distinct (map row_stack tab)"

lemma as_int_eq: "as_int a = Some i \<Longrightarrow> as_int b = Some i \<Longrightarrow> py_eq a b"
  by (cases a; cases b) (auto simp: py_eq_def split: if_splits)

lemma stored_profiles:
  assumes "get_profiles tab station evse None None None = Inr ps" "table_ok tab" "r \<in> set tab" "pr_station r = station" "pr_evse r = evse"
  shows "\<exists>p\<in>set ps. row_of r p"
proof -
  obtain p where p: "row_of r p" using assms(2,3) by (auto simp: table_ok_def)
  let ?rows = "ts_get_charging_profiles tab station (Some evse) None None None"
  have "profile_to_dict p \<in> set ?rows"
    using assms(3-5) p by (auto simp: ts_get_charging_profiles_def newest_first_def row_filter_def row_of_def image_iff)
  then obtain i where i: "i < length ?rows" "?rows ! i = profile_to_dict p" by (auto simp: in_set_conv_nth)
  moreover have "list_all2 (\<lambda>x y. parse_charging_profile x = Inr y) ?rows ps" using assms(1) by (simp add: get_profiles_def traverse_Inr)
  ultimately have "ps ! i = p" "i < length ps" by (auto simp: list_all2_conv_all_nth parse_profile_to_dict)
  with p show ?thesis by auto
qed

lemma row_of_profile:
  assumes "profile_to_row ts now station evse p = Inr r"
  shows "row_of r p \<and> pr_station r = station \<and> pr_evse r = evse"
  using assms by (auto simp: profile_to_row_def rbind_Inr_iff row_of_def sql_int_def split: option.splits)

lemma new_row_other:
  assumes "table_ok tab" and ps: "get_profiles tab station evse None None None = Inr ps"
    and valid: "validate_profile fromiso ps p = Inr None" and stack: "check_stacking_limits ps p = None"
    and row: "profile_to_row ts now station evse p = Inr r" and x: "x \<in> set tab"
  shows "row_key r \<noteq> row_key x \<and> row_stack r \<noteq> row_stack x"
proof (cases "pr_station x = station \<and> pr_evse x = evse")
  case True
  have lim: "map_of stacking_limits (purpose_value (cp_purpose p)) = Some 1"
    by (cases "cp_purpose p") (simp_all add: stacking_limits_def)
  obtain q where q: "q \<in> set ps" "row_of x q" using True stored_profiles [OF ps assms(1) x] by auto
  then have "\<not> (cp_purpose q = cp_purpose p \<and> py_eq (cp_stack_level q) (cp_stack_level p))"
    using stack by (auto simp: check_stacking_limits_def lim Let_def not_le filter_empty_conv split: if_splits)
  then show ?thesis
    using q validated_profile [OF valid] row_of_profile [OF row] as_int_eq [of "cp_id q" _ "cp_id p"]
      as_int_eq [of "cp_stack_level q" _ "cp_stack_level p"] purpose_value_inject [of "cp_purpose q" "cp_purpose p"]
    by (auto simp: row_of_def)
qed (use row_of_profile [OF row] in auto)

lemma new_row_appended:
  assumes "table_ok tab" "get_profiles tab station evse None None None = Inr ps"
    "validate_profile fromiso ps p = Inr None" "check_stacking_limits ps p = None" "profile_to_row ts now station evse p = Inr r"
  shows "store_charging_profile r tab = tab @ [r]"
  using new_row_other [OF assms] by (fastforce simp: store_charging_profile_def same_key_def)

lemma new_row_ok:
  assumes "table_ok tab" "get_profiles tab station evse None None None = Inr ps"
    "validate_profile fromiso ps p = Inr None" "check_stacking_limits ps p = None" "profile_to_row ts now station evse p = Inr r"
  shows "table_ok (store_charging_profile r tab)"
proof -
  have "\<exists>p. row_of r p \<and> profile_valid p" using row_of_profile [OF assms(5)] validated_profile [OF assms(3)] by blast
  then show ?thesis using assms(1) new_row_other [OF assms] unfolding new_row_appended [OF assms] by (auto simp: table_ok_def image_iff)
qed

lemma set_check_Inr:
  assumes "set_check fromiso db tab tab' station evse message = Inr p"
  obtains ps ps' where "parse_charging_profile message = Inr p" "get_profiles tab station evse None None None = Inr ps"
    "validate_profile fromiso ps p = Inr None" "get_profiles tab' station evse None None None = Inr ps'" "check_stacking_limits ps' p = None"
  using assms by (auto simp: set_check_def Let_def rbind_Inr_iff split: sum.splits option.splits if_splits)

lemma set_profile_ok:
  assumes "table_ok (pm_table s)"
  shows "table_ok (pm_table (snd (set_charging_profile fromiso ts db now station evse message s)))"
proof (cases "set_check fromiso db (pm_table s) (pm_table s) station evse message")
  case (Inr p)
  obtain ps where ps: "get_profiles (pm_table s) station evse None None None = Inr ps" "validate_profile fromiso ps p = Inr None"
    "check_stacking_limits ps p = None"
    by (rule set_check_Inr [OF Inr]) auto
  show ?thesis using assms new_row_ok [OF assms ps]
    by (auto simp: set_charging_profile_def Inr set_commit_def update_cache_def Let_def rbind_Inr_iff split: sum.split)
qed (simp add: set_charging_profile_def assms)

lemma remove_profiles_ok: "table_ok tab \<Longrightarrow> table_ok (snd (remove_profiles db n station evse ps tab))"
proof (induction ps arbitrary: n tab)
  case (Cons p ps)
  have "table_ok (remove_charging_profile station evse pid tab)" for pid
    using Cons.prems by (auto simp: table_ok_def remove_charging_profile_def distinct_map_filter)
  then show ?case using Cons by (auto split: sum.split)
qed simp

lemma clear_profile_ok:
  assumes "table_ok (pm_table s)"
  shows "table_ok (pm_table (snd (clear_charging_profile db station evse pid purpose level s)))"
proof -
  have "table_ok tab" if "remove_profiles db 1 station evse ps (pm_table s) = (e, tab)" for ps e tab
    using remove_profiles_ok [OF assms, of db 1 station evse ps] that by simp
  then show ?thesis using assms
    by (auto simp: clear_charging_profile_def refresh_cache_def simp del: remove_profiles.simps One_nat_def
        split: sum.split list.split prod.split option.split)
qed

lemma active_profiles_table [simp]: "pm_table (snd (get_active_profiles db now station evse s)) = pm_table s"
  by (simp add: get_active_profiles_def Let_def split: option.split list.split sum.split)

lemma report_profiles_table [simp]: "pm_table (report_profiles db n station evse request_id ms s) = pm_table s"
  by (induction ms arbitrary: n s) (auto split: sum.split)

lemma profile_step_ok: "table_ok (pm_table s) \<Longrightarrow> table_ok (pm_table (profile_step fromiso ts s op))"
  by (cases op) (simp_all add: set_profile_ok clear_profile_ok get_composite_schedule_def Let_def)

section \<open>Lemmas: the composite schedule\<close>

lemma minutes_short: "minutes a (min (a + 60) b) = (if a < b then [a] else [])"
proof -
  have "(min (a + 60) b - a + 59) div 60 = (if a < b then 1 else 0) \<or> \<not> a < b \<and> (min (a + 60) b - a + 59) div 60 \<le> 0" by auto
  then show ?thesis by (auto simp: minutes_def)
qed

lemma minutes_nth: "minutes 0 d = map (\<lambda>k. 60 * int k) [0..<nat ((d + 59) div 60)]"
  by (simp add: minutes_def)

lemma minutes_strict: "sorted_wrt (<) (minutes 0 d)"
  by (simp add: minutes_nth sorted_wrt_map sorted_wrt_upt)

lemma minutes_set: "t \<in> set (minutes 0 d) \<longleftrightarrow> 0 \<le> t \<and> t < d \<and> t mod 60 = 0"
proof
  assume "0 \<le> t \<and> t < d \<and> t mod 60 = 0"
  then have k: "t = 60 * int (nat (t div 60))" by auto
  define k where "k = nat (t div 60)"
  have "t = 60 * int k" using k by (simp add: k_def)
  moreover from this have "int k < (d + 59) div 60" using \<open>0 \<le> t \<and> t < d \<and> t mod 60 = 0\<close> by linarith
  ultimately show "t \<in> set (minutes 0 d)" by (auto simp: minutes_nth)
next
  assume "t \<in> set (minutes 0 d)"
  then obtain k where "t = 60 * int k" "k < nat ((d + 59) div 60)" by (auto simp: minutes_nth)
  then show "0 \<le> t \<and> t < d \<and> t mod 60 = 0" by auto
qed

text \<open>The periods that start with a slot, in the order they are applied, and what they make of it.\<close>

definition starts_at :: "int \<Rightarrow> ChargingSchedulePeriod \<Rightarrow> bool" where
  "starts_at t p \<longleftrightarrow> as_int (sp_start_period p) = Some t"

type_synonym hit = "ChargingProfilePurpose \<times> pyfloat \<times> ChargingSchedulePeriod"

definition hits_of :: "int \<Rightarrow> pyfloat \<times> ChargingProfile \<Rightarrow> hit list" where
  "hits_of t lp = map (\<lambda>p. (cp_purpose (snd lp), fst lp, p)) (filter (starts_at t) (cs_periods (cp_schedule (snd lp))))"

definition apply_hit :: "slot_data \<Rightarrow> hit \<Rightarrow> slot_data" where
  "apply_hit d h = (case h of (purpose, level, p) \<Rightarrow> apply_to_slot purpose level p d)"

definition slots_below :: "int \<Rightarrow> (int, slot_data) pydict \<Rightarrow> bool" where
  "slots_below duration m \<longleftrightarrow> (\<forall>t. \<forall>d. map_of m t = Some d \<longrightarrow> t < duration)"

lemma apply_period_slots:
  assumes "apply_period purpose level duration p m = Inr m'" "slots_below duration m"
  shows "map fst m' = map fst m"
    and "map_of m' t = (if starts_at t p then map_option (apply_to_slot purpose level p) (map_of m t) else map_of m t)"
proof -
  obtain a where a: "as_int (sp_start_period p) = Some a" and
    m': "m' = (if a < duration then update_slot (apply_to_slot purpose level p) m a else m)"
    using assms(1) by (auto simp: apply_period_def minutes_short split: option.splits)
  show "map fst m' = map fst m"
    using map_of_SomeD [of m a] by (force simp: m' update_slot_def update_keys split: option.split)
  show "map_of m' t = (if starts_at t p then map_option (apply_to_slot purpose level p) (map_of m t) else map_of m t)"
    using a assms(2) by (cases "map_of m a") (auto simp: m' update_slot_def starts_at_def slots_below_def)
qed

lemma slots_below_keys: "map fst m' = map fst m \<Longrightarrow> slots_below duration m \<longleftrightarrow> slots_below duration m'"
proof -
  have "slots_below duration m \<longleftrightarrow> (\<forall>t\<in>set (map fst m). t < duration)" for m
    unfolding slots_below_def set_map by (metis domD domI dom_map_of_conv_image_fst)
  then show "map fst m' = map fst m \<Longrightarrow> slots_below duration m \<longleftrightarrow> slots_below duration m'" by metis
qed

lemma apply_periods_slots:
  assumes "apply_periods purpose level duration ps m = Inr m'" "slots_below duration m"
  shows "map fst m' = map fst m \<and>
    map_of m' t = map_option (\<lambda>d. foldl apply_hit d (map (\<lambda>p. (purpose, level, p)) (filter (starts_at t) ps))) (map_of m t)"
  using assms
proof (induction ps arbitrary: m)
  case Nil
  then show ?case by (simp add: option.map_ident)
next
  case (Cons p ps)
  then obtain m1 where m1: "apply_period purpose level duration p m = Inr m1" "apply_periods purpose level duration ps m1 = Inr m'"
    by (auto simp: rbind_Inr_iff)
  note one = apply_period_slots [OF m1(1) Cons.prems(2)]
  have "slots_below duration m1" using Cons.prems(2) slots_below_keys [OF one(1)] by simp
  from Cons.IH [OF m1(2) this] one show ?case
    by (auto simp: option.map_comp comp_def apply_hit_def)
qed

lemma apply_profiles_slots:
  assumes "apply_profiles duration lps m = Inr m'" "slots_below duration m"
  shows "map fst m' = map fst m \<and> map_of m' t = map_option (\<lambda>d. foldl apply_hit d (concat (map (hits_of t) lps))) (map_of m t)"
  using assms
proof (induction lps arbitrary: m)
  case Nil
  then show ?case by (simp add: option.map_ident)
next
  case (Cons lp lps)
  then obtain m1 where m1: "apply_profile_to_slots_v2g duration lp m = Inr m1" "apply_profiles duration lps m1 = Inr m'"
    by (auto simp: rbind_Inr_iff)
  note one = apply_periods_slots [OF m1(1) [unfolded apply_profile_to_slots_v2g_def] Cons.prems(2)]
  have "slots_below duration m1" using Cons.prems(2) slots_below_keys [of m1 m] one by simp
  from Cons.IH [OF m1(2) this] one [of t] show ?case by (auto simp: option.map_comp comp_def hits_of_def)
qed

text \<open>Hits come by falling level, so the first decides and only its equals may replace it.\<close>

definition slot_of :: "hit \<Rightarrow> slot_data" where
  "slot_of h = apply_hit new_slot h"

abbreviation hit_level :: "hit \<Rightarrow> pyfloat" where
  "hit_level h \<equiv> fst (snd h)"

lemma apply_hit_cases: "apply_hit d h = slot_of h \<or> apply_hit d h = d"
  by (auto simp: slot_of_def apply_hit_def apply_to_slot_def should_override_slot_v2g_def new_slot_def split: prod.split)

lemma apply_hit_lower: "sl_source d = Some l \<Longrightarrow> hit_level h < l \<Longrightarrow> apply_hit d h = d"
  by (auto simp: apply_hit_def apply_to_slot_def should_override_slot_v2g_def split: prod.split)

lemma slot_of_source [simp]: "sl_source (slot_of h) = Some (hit_level h)"
  by (auto simp: slot_of_def apply_hit_def apply_to_slot_def should_override_slot_v2g_def new_slot_def split: prod.split)

lemma foldl_hits:
  assumes "\<forall>h\<in>set hs. hit_level h \<le> l" "sl_source d = Some l"
  shows "foldl apply_hit d hs = d \<or> (\<exists>h\<in>set hs. hit_level h = l \<and> foldl apply_hit d hs = slot_of h)"
  using assms
proof (induction hs arbitrary: d)
  case (Cons h hs)
  show ?case
  proof (cases "apply_hit d h = d")
    case True
    then show ?thesis using Cons by auto
  next
    case False
    then have new: "apply_hit d h = slot_of h" using apply_hit_cases by blast
    have "hit_level h = l" using False Cons.prems apply_hit_lower [of d l h] by force
    then show ?thesis using Cons.IH [of "slot_of h"] Cons.prems new by auto
  qed
qed simp

lemma winning_hit:
  assumes "sorted_wrt (\<lambda>a b. hit_level b \<le> hit_level a) hs" "hs \<noteq> []"
  shows "\<exists>h\<in>set hs. (\<forall>h'\<in>set hs. hit_level h' \<le> hit_level h) \<and> foldl apply_hit new_slot hs = slot_of h"
proof -
  obtain h ts where hs: "hs = h # ts" using assms(2) by (cases hs) auto
  have le: "\<forall>h'\<in>set ts. hit_level h' \<le> hit_level h" using assms(1) hs by simp
  have "foldl apply_hit new_slot hs = foldl apply_hit (slot_of h) ts" by (simp add: hs slot_of_def)
  with foldl_hits [OF le slot_of_source]
  have "\<exists>h'\<in>set hs. hit_level h' = hit_level h \<and> foldl apply_hit new_slot hs = slot_of h'"
    unfolding hs by (metis list.set_intros)
  then obtain h' where "h' \<in> set hs" "hit_level h' = hit_level h" "foldl apply_hit new_slot hs = slot_of h'" by blast
  with le hs show ?thesis by (intro bexI [of _ h']) auto
qed

lemma hits_sorted:
  "sorted_wrt (\<lambda>a b. fst b \<le> fst a) lps \<Longrightarrow> sorted_wrt (\<lambda>a b. hit_level b \<le> hit_level a) (concat (map (hits_of t) lps))"
proof (induction lps)
  case (Cons lp lps)
  have "sorted_wrt (\<lambda>a b. hit_level b \<le> hit_level a) (hits_of t lp)"
    by (simp add: hits_of_def sorted_wrt_map sorted_wrt_iff_nth_less)
  then show ?case using Cons by (auto simp: sorted_wrt_append hits_of_def)
qed simp

text \<open>Slots of the same state are merged into one period, so the period in force at a slot has its state.\<close>

lemma same_state_refl [simp]: "same_state k k"
  by (simp add: same_state_def split: prod.split)

abbreviation begun :: "int \<Rightarrow> (int \<times> 'a) list \<Rightarrow> (int \<times> 'a) list" where
  "begun x es \<equiv> filter (\<lambda>e. fst e \<le> x) es"

lemma merge_starts:
  "sorted_wrt (<) (start # ts) \<Longrightarrow> \<exists>es. merge_slots m ts (Some k) start = (start, slot_at m start) # es \<and> (\<forall>e\<in>set es. fst e \<in> set ts)"
proof (induction ts arbitrary: start k)
  case (Cons t ts)
  show ?case
  proof (cases "same_state k (state_key (slot_at m t))")
    case True
    have "sorted_wrt (<) (start # ts)" using Cons.prems by simp
    from Cons.IH [OF this, of k] True show ?thesis by (auto simp: Let_def)
  next
    case False
    have "sorted_wrt (<) (t # ts)" using Cons.prems by simp
    from Cons.IH [OF this, of "state_key (slot_at m t)"] False show ?thesis by (auto simp: Let_def)
  qed
qed simp

lemma merge_in_force:
  assumes "sorted_wrt (<) (start # ts)" "u \<in> set (start # ts)"
  shows "same_state (state_key (snd (last (begun u (merge_slots m ts (Some (state_key (slot_at m start))) start))))) (state_key (slot_at m u))"
  using assms
proof (induction ts arbitrary: start)
  case (Cons t ts)
  let ?k = "state_key (slot_at m start)"
  have lt: "start < t" "\<forall>t'\<in>set ts. t < t'" using Cons.prems(1) by auto
  show ?case
  proof (cases "same_state ?k (state_key (slot_at m t))")
    case True
    then have same: "merge_slots m (t # ts) (Some ?k) start = merge_slots m ts (Some ?k) start" by (simp add: Let_def)
    have sorted: "sorted_wrt (<) (start # ts)" using Cons.prems(1) by simp
    obtain es where es: "merge_slots m ts (Some ?k) start = (start, slot_at m start) # es" "\<forall>e\<in>set es. fst e \<in> set ts"
      using merge_starts [OF sorted] by blast
    show ?thesis
    proof (cases "u = t")
      case u: True
      have "begun t es = []" unfolding filter_empty_conv using es(2) lt(2) by (meson not_le)
      then show ?thesis using True lt(1) by (simp only: same es(1) u) simp
    next
      case False
      then show ?thesis using Cons.IH [OF sorted] Cons.prems(2) by (simp only: same) simp
    qed
  next
    case False
    let ?rest = "merge_slots m ts (Some (state_key (slot_at m t))) t"
    have eq: "merge_slots m (t # ts) (Some ?k) start = (start, slot_at m start) # ?rest" using False by (simp add: Let_def)
    have sorted: "sorted_wrt (<) (t # ts)" using Cons.prems(1) by simp
    obtain es where es: "?rest = (t, slot_at m t) # es" "\<forall>e\<in>set es. fst e \<in> set ts" using merge_starts [OF sorted] by blast
    show ?thesis
    proof (cases "u = start")
      case True
      have "begun u ?rest = []" unfolding es(1) using es(2) lt True by (fastforce simp: filter_empty_conv)
      then show ?thesis by (simp only: eq) (simp add: True)
    next
      case False
      then have u: "u \<in> set (t # ts)" "t \<le> u" using Cons.prems(2) lt by auto
      then have "begun u ?rest \<noteq> []" by (simp add: es(1))
      then have "last (begun u ((start, slot_at m start) # ?rest)) = last (begun u ?rest)" by simp
      then show ?thesis using Cons.IH [OF sorted u(1)] by (simp only: eq)
    qed
  qed
qed simp

lemma merged_in_force:
  assumes "sorted_wrt (<) ts" "u \<in> set ts"
  shows "begun u (merge_slots m ts None z) \<noteq> []"
    and "same_state (state_key (snd (last (begun u (merge_slots m ts None z))))) (state_key (slot_at m u))"
    and "fst ` set (merge_slots m ts None z) \<subseteq> set ts"
proof -
  obtain t ts' where ts: "ts = t # ts'" using assms(2) by (cases ts) auto
  have eq: "merge_slots m ts None z = merge_slots m ts' (Some (state_key (slot_at m t))) t" by (simp add: ts Let_def)
  obtain es where es: "merge_slots m ts None z = (t, slot_at m t) # es" "\<forall>e\<in>set es. fst e \<in> set ts'"
    unfolding eq using merge_starts assms(1) ts by blast
  have "t \<le> u" using assms ts by auto
  then show "begun u (merge_slots m ts None z) \<noteq> []" by (simp add: es)
  show "same_state (state_key (snd (last (begun u (merge_slots m ts None z))))) (state_key (slot_at m u))"
    unfolding eq using merge_in_force assms ts by blast
  show "fst ` set (merge_slots m ts None z) \<subseteq> set ts" using es ts by auto
qed

text \<open>A period of the answer and the one in force at a second.\<close>

definition dict_state :: "(string, pyval) pydict \<Rightarrow> state_key" where
  "dict_state d = (pget d ''limit'', pget d ''dischargingLimit'', pget d ''setpoint'', pget d ''operationMode'')"

definition period_in_force :: "(string, pyval) pydict list \<Rightarrow> int \<Rightarrow> (string, pyval) pydict" where
  "period_in_force ds x = last (filter (\<lambda>d. case pget d ''startPeriod'' of PInt s \<Rightarrow> s \<le> x | _ \<Rightarrow> False) ds)"

lemma dict_state_created [simp]: "dict_state (create_period_from_slot_data t d) = state_key d"
  by (simp add: dict_state_def create_period_from_slot_data_def optional_field_def state_key_def pget_def)

lemma start_created [simp]: "pget (create_period_from_slot_data t d) ''startPeriod'' = PInt t"
  by (simp add: create_period_from_slot_data_def pget_def)

lemma created_in_force:
  "begun x es \<noteq> [] \<Longrightarrow> dict_state (period_in_force (map (\<lambda>(t, d). create_period_from_slot_data t d) es) x) = state_key (snd (last (begun x es)))"
  by (simp add: period_in_force_def filter_map comp_def case_prod_unfold last_map)

lemma merged_state:
  assumes "map fst m = minutes 0 duration" "0 \<le> x" "x < duration"
  shows "same_state (dict_state (period_in_force (map (\<lambda>(t, d). create_period_from_slot_data t d) (merge_slots m (sort (map fst m)) None z)) x))
    (state_key (slot_at m (60 * (x div 60))))"
proof -
  let ?t = "60 * (x div 60)" and ?es = "merge_slots m (sort (map fst m)) None z"
  have s: "sort (map fst m) = minutes 0 duration"
    using minutes_strict [of duration] assms(1) by (simp add: strict_sorted_iff sorted_sort_id)
  have t: "?t \<in> set (minutes 0 duration)" using assms(2,3) by (auto simp: minutes_set)
  note force = merged_in_force [OF minutes_strict t, of m z, folded s]
  have "begun x ?es = begun ?t ?es"
  proof (rule filter_cong [OF refl])
    fix e assume "e \<in> set ?es"
    then have "fst e \<in> set (minutes 0 duration)" using force(3) unfolding s by blast
    then have "fst e mod 60 = 0" by (simp only: minutes_set)
    then obtain k where k: "fst e = 60 * k" by (metis dvdE dvd_eq_mod_eq_0)
    have "60 * k \<le> x \<longleftrightarrow> k \<le> x div 60" by (rule iffI; linarith)
    then show "(fst e \<le> x) = (fst e \<le> ?t)" by (simp add: k)
  qed
  then show ?thesis using force(1,2) created_in_force [of x ?es] by (simp only: not_False_eq_True)
qed

definition integer_starts :: "ChargingProfile \<Rightarrow> bool" where
  "integer_starts p \<longleftrightarrow> (\<forall>q\<in>set (cs_periods (cp_schedule p)). as_int (sp_start_period q) \<noteq> None)"

definition level_of :: "ChargingProfile \<Rightarrow> pyfloat" where
  "level_of p = the (num (cp_stack_level p))"

lemma levels_read:
  assumes "\<forall>p\<in>set profiles. profile_valid p"
  shows "traverse (\<lambda>p. rbind (stack_level p) (\<lambda>l. Inr (l, p))) profiles = Inr (map (\<lambda>p. (level_of p, p)) profiles)"
  using assms by (induction profiles) (auto simp: stack_level_def level_of_def profile_valid_def)

lemma apply_periods_total: "\<forall>q\<in>set ps. as_int (sp_start_period q) \<noteq> None \<Longrightarrow> \<exists>m'. apply_periods purpose level duration ps m = Inr m'"
  by (induction ps arbitrary: m) (auto simp: apply_period_def)

lemma apply_profiles_total: "\<forall>lp\<in>set lps. integer_starts (snd lp) \<Longrightarrow> \<exists>m'. apply_profiles duration lps m = Inr m'"
proof (induction lps arbitrary: m)
  case (Cons lp lps)
  then obtain m1 where "apply_profile_to_slots_v2g duration lp m = Inr m1"
    using apply_periods_total [of "cs_periods (cp_schedule (snd lp))"] by (force simp: apply_profile_to_slots_v2g_def integer_starts_def)
  then show ?case using Cons by simp
qed simp

definition starting :: "ChargingProfile list \<Rightarrow> int \<Rightarrow> (ChargingProfile \<times> ChargingSchedulePeriod) set" where
  "starting profiles t = {(p, q). p \<in> set profiles \<and> q \<in> set (cs_periods (cp_schedule p)) \<and> starts_at t q}"

definition period_state :: "ChargingSchedulePeriod \<Rightarrow> state_key" where
  "period_state q = (sp_limit q, sp_discharging_limit q, sp_setpoint q, sp_operation_mode q)"

definition idle_state :: state_key where
  "idle_state = (PFloat 0, PFloat 0, PNone, PNone)"

lemma slot_of_state: "state_key (slot_of (purpose, level, q)) = period_state q"
  by (simp add: slot_of_def apply_hit_def apply_to_slot_def should_override_slot_v2g_def new_slot_def state_key_def period_state_def)

lemma composite_slot:
  fixes profiles :: "ChargingProfile list"
  assumes "\<forall>p\<in>set profiles. profile_valid p \<and> integer_starts p"
  obtains m where "composite_slots profiles duration = Inr m" "map fst m = minutes 0 duration"
    "\<forall>t\<in>set (minutes 0 duration).
       if starting profiles t = {} then state_key (slot_at m t) = idle_state
       else \<exists>(p, q)\<in>starting profiles t. (\<forall>(p', q')\<in>starting profiles t. level_of p' \<le> level_of p) \<and> state_key (slot_at m t) = period_state q"
proof -
  let ?lps = "sort_key (\<lambda>lp. - fst lp) (map (\<lambda>p. (level_of p, p)) profiles)"
  let ?m0 = "map (\<lambda>t. (t, new_slot)) (minutes 0 duration)"
  obtain m where m: "apply_profiles duration ?lps ?m0 = Inr m"
    using apply_profiles_total [of ?lps duration ?m0] assms by auto
  have "slots_below duration ?m0" by (auto simp: slots_below_def minutes_set dest!: map_of_SomeD)
  note slots = apply_profiles_slots [OF m this]
  have "sorted_wrt (\<lambda>a b. fst b \<le> fst a) ?lps"
    using sorted_sort_key [of "\<lambda>lp. - fst lp" "map (\<lambda>p. (level_of p, p)) profiles"] by (simp add: sorted_wrt_map)
  note order = hits_sorted [OF this]
  have fst_m: "map fst m = minutes 0 duration" using slots by (simp add: comp_def)
  have hit: "h \<in> set (concat (map (hits_of t) ?lps)) \<longleftrightarrow> (\<exists>(p, q)\<in>starting profiles t. h = (cp_purpose p, level_of p, q))" for h t
    by (auto simp: hits_of_def starting_def)
  have "(if starting profiles t = {} then state_key (slot_at m t) = idle_state
        else \<exists>(p, q)\<in>starting profiles t. (\<forall>(p', q')\<in>starting profiles t. level_of p' \<le> level_of p) \<and> state_key (slot_at m t) = period_state q)"
    if t: "t \<in> set (minutes 0 duration)" for t
  proof -
    let ?hs = "concat (map (hits_of t) ?lps)"
    have "map_of ?m0 t = Some new_slot" using t by (simp add: map_of_map_restrict)
    then have at: "slot_at m t = foldl apply_hit new_slot ?hs" using slots [of t] by (simp add: slot_at_def)
    show ?thesis
    proof (cases "starting profiles t = {}")
      case True
      then have "?hs = []" using hit by (metis (no_types, lifting) empty_iff last_in_set)
      then have "slot_at m t = new_slot" unfolding at by (simp only: foldl_Nil)
      then show ?thesis using True by (simp add: state_key_def new_slot_def idle_state_def)
    next
      case False
      then obtain p q where "(p, q) \<in> starting profiles t" by auto
      then have "(cp_purpose p, level_of p, q) \<in> set ?hs" unfolding hit by blast
      then have "?hs \<noteq> []" by (metis empty_iff empty_set)
      from winning_hit [OF order this] obtain h where h: "h \<in> set ?hs" "\<forall>h'\<in>set ?hs. hit_level h' \<le> hit_level h" "slot_at m t = slot_of h"
        unfolding at by blast
      from h(1) hit obtain p q where pq: "(p, q) \<in> starting profiles t" "h = (cp_purpose p, level_of p, q)" by blast
      moreover have "level_of p' \<le> level_of p" if "(p', q') \<in> starting profiles t" for p' q'
        using h(2) hit [of "(cp_purpose p', level_of p', q')" t] that pq(2) by fastforce
      ultimately show ?thesis using False h(3) by (auto simp: slot_of_state intro!: bexI [of _ "(p, q)"])
    qed
  qed
  moreover have "composite_slots profiles duration = Inr m" using m assms by (simp add: composite_slots_def levels_read)
  ultimately show thesis using that fst_m by blast
qed

section \<open>Lemmas: what the caches hide\<close>

lemma set_keeps_cache: "pm_cache_manager (snd (set_charging_profile fromiso ts db now station evse message s)) = pm_cache_manager s"
  by (simp add: set_charging_profile_def set_commit_def update_cache_def Let_def split: sum.split)

lemma clear_keeps_cache: "pm_cache_manager (snd (clear_charging_profile db station evse pid purpose level s)) = pm_cache_manager s"
  by (simp add: clear_charging_profile_def refresh_cache_def split: sum.split list.split prod.split option.split)

lemma report_keeps_cache: "pm_cache_manager (report_profiles db n station evse request_id ms s) = pm_cache_manager s"
  by (induction ms arbitrary: n s) (auto split: sum.split)

fun writes :: "profile_op \<Rightarrow> bool" where
  "writes (CompositeSchedule db now station evse duration unit) = False"
| "writes _ = True"

lemma writes_keep_cache: "list_all writes ops \<Longrightarrow> pm_cache_manager (run_steps (profile_step fromiso ts) s ops) = pm_cache_manager s"
proof (induction ops arbitrary: s)
  case (Cons op ops)
  then have "pm_cache_manager (profile_step fromiso ts s op) = pm_cache_manager s"
    by (cases op) (simp_all add: set_keeps_cache clear_keeps_cache report_keeps_cache)
  then show ?case using Cons by simp
qed simp

section \<open>Lemmas: runs of the manager\<close>

definition pm_init :: "ChargingProfile list CacheManager \<Rightarrow> ChargingProfileManager" where
  "pm_init cache = \<lparr>pm_table = [], pm_reported = [], pm_cache_manager = cache, pm_profile_cache = []\<rparr>"

definition manager_ok :: "ChargingProfileManager \<Rightarrow> bool" where
  "manager_ok s \<longleftrightarrow> table_ok (pm_table s) \<and> cache_inv (pm_cache_manager s)"

lemma active_profiles_cache: "cache_inv (pm_cache_manager s) \<Longrightarrow> cache_inv (pm_cache_manager (snd (get_active_profiles db now station evse s)))"
  by (auto simp: get_active_profiles_def Let_def cm_get_inv cm_set_inv split: option.split list.split sum.split)

interpretation profiles: invariant_machine "\<lambda>s. \<exists>n ttl. s = pm_init (cm_init n ttl None)" "profile_step fromiso ts" manager_ok
  for fromiso ts
proof unfold_locales
  fix s op
  assume "manager_ok s"
  then show "manager_ok (profile_step fromiso ts s op)"
    using profile_step_ok [of s fromiso ts op]
    by (cases op) (simp_all add: manager_ok_def set_keeps_cache clear_keeps_cache report_keeps_cache get_composite_schedule_def Let_def active_profiles_cache)
next
  fix s :: ChargingProfileManager
  assume "\<exists>n ttl. s = pm_init (cm_init n ttl None)"
  then obtain n ttl where s: "s = pm_init (cm_init n ttl None)" by blast
  have "cache_initial (pm_cache_manager s)" unfolding cache_initial_def s pm_init_def ChargingProfileManager.simps by (intro exI, rule refl)
  then show "manager_ok s" by (simp add: s manager_ok_def pm_init_def table_ok_def cache_initial_inv)
qed

lemma accepted_set:
  assumes "set_charging_profile fromiso ts db now station evse message s = (Accepted (), s')" "table_ok (pm_table s)"
  obtains p r where "parse_charging_profile message = Inr p" "profile_valid p" "row_of r p" "pr_station r = station" "pr_evse r = evse"
    "pm_table s' = pm_table s @ [r]" "table_ok (pm_table s @ [r])"
proof -
  from assms(1) obtain p where p: "set_check fromiso db (pm_table s) (pm_table s) station evse message = Inr p"
    and commit: "set_commit ts db now station evse p s = (Accepted (), s')"
    by (auto simp: set_charging_profile_def split: sum.splits)
  obtain ps where ps: "parse_charging_profile message = Inr p" "get_profiles (pm_table s) station evse None None None = Inr ps"
    "validate_profile fromiso ps p = Inr None" "check_stacking_limits ps p = None"
    by (rule set_check_Inr [OF p]) auto
  from commit obtain r where r: "profile_to_row ts now station evse p = Inr r" "pm_table s' = store_charging_profile r (pm_table s)"
    by (auto simp: set_commit_def rbind_Inr_iff update_cache_def Let_def split: sum.splits)
  show thesis
    using that [OF ps(1)] validated_profile [OF ps(3)] row_of_profile [OF r(1)] r(2) new_row_appended [OF assms(2) ps(2-4) r(1)] new_row_ok [OF assms(2) ps(2-4) r(1)]
    by auto
qed

text \<open>What a message comes back as: each field under its own key with the value of the message, \<open>None\<close> where the
  message has none, and the default for the unit.\<close>

definition fields_of :: "string list \<Rightarrow> (string, pyval) pydict \<Rightarrow> (string, pyval) pydict" where
  "fields_of ks d = map (\<lambda>k. (k, pget d k)) ks"

definition echoed_period :: "(string, pyval) pydict \<Rightarrow> pyval" where
  "echoed_period q = PDict (fields_of
     [''startPeriod'', ''limit'', ''dischargingLimit'', ''setpoint'', ''setpointReactive'', ''numberPhases'', ''phaseToUse'',
      ''operationMode'', ''v2xFreqWattCurve'', ''v2xSignalWattCurve'', ''v2xBaseline''] q)"

definition echoed_profile :: "(string, pyval) pydict \<Rightarrow> (string, pyval) pydict \<Rightarrow> (string, pyval) pydict list \<Rightarrow> pyval" where
  "echoed_profile d sd qs = PDict
     (fields_of [''id'', ''stackLevel'', ''chargingProfilePurpose'', ''chargingProfileKind''] d @
      [(''chargingSchedule'', PDict
        (fields_of [''id'', ''startSchedule'', ''duration''] sd @
         [(''chargingRateUnit'', get_or sd ''chargingRateUnit'' (PStr ''W'')), (''chargingSchedulePeriod'', PList (map echoed_period qs))] @
         fields_of [''minChargingRate''] sd))] @
      fields_of [''validFrom'', ''validTo'', ''recurrencyKind'', ''transactionId''] d)"

lemma enum_of_Inr: "enum_of val members v = Inr m \<Longrightarrow> v = PStr (val m)"
  by (auto simp: enum_of_def find_Some_iff split: option.splits)

lemma item_Inr: "item v k = Inr x \<longleftrightarrow> (\<exists>d. v = PDict d \<and> map_of d k = Some x)"
  by (auto simp: item_def split: pyval.split option.split)

lemma dict_of_Inr: "dict_of v = Inr d \<longleftrightarrow> v = PDict d"
  by (auto simp: dict_of_def split: pyval.split)

lemma parsed_period: "parse_period v = Inr q \<Longrightarrow> \<exists>d. v = PDict d \<and> period_to_dict q = echoed_period d"
  by (auto simp: parse_period_def rbind_Inr_iff item_Inr dict_of_Inr period_to_dict_def echoed_period_def fields_of_def pget_def)

lemma parsed_periods:
  "list_all2 (\<lambda>v q. parse_period v = Inr q) vs qs \<Longrightarrow> \<exists>ds. vs = map PDict ds \<and> map period_to_dict qs = map echoed_period ds"
proof (induction rule: list_all2_induct)
  case (Cons v vs q qs)
  then obtain d ds where "v = PDict d" "period_to_dict q = echoed_period d" "vs = map PDict ds" "map period_to_dict qs = map echoed_period ds"
    using parsed_period by blast
  then show ?case by (intro exI [of _ "d # ds"]) simp
qed simp

lemma iterate_dicts: "iterate v = Inr (map PDict ds) \<Longrightarrow> ds \<noteq> [] \<Longrightarrow> v = PList (map PDict ds)"
  by (cases v; cases ds) (auto simp: map_eq_Cons_conv)

lemma parsed_profile:
  assumes "parse_charging_profile message = Inr p" "cs_periods (cp_schedule p) \<noteq> []"
  obtains d sd qs where "message = PDict d" "pget d ''chargingSchedule'' = PDict sd"
    "pget sd ''chargingSchedulePeriod'' = PList (map PDict qs)" "cp_id p = pget d ''id''" "profile_to_dict p = echoed_profile d sd qs"
proof -
  from assms(1) obtain d sd vs sid u pid level purpose kind where
    d: "message = PDict d" "get_or d ''chargingSchedule'' (PDict []) = PDict sd"
    and vs: "iterate (get_or sd ''chargingSchedulePeriod'' (PList [])) = Inr vs" "traverse parse_period vs = Inr (cs_periods (cp_schedule p))"
    and read: "map_of sd ''id'' = Some sid" "unit_of (get_or sd ''chargingRateUnit'' (PStr ''W'')) = Inr u" "map_of d ''id'' = Some pid"
      "map_of d ''stackLevel'' = Some level" "rbind (item message ''chargingProfilePurpose'') purpose_of = Inr purpose"
      "rbind (item message ''chargingProfileKind'') kind_of = Inr kind"
    and p: "p = \<lparr>cp_id = pid, cp_stack_level = level, cp_purpose = purpose, cp_kind = kind,
        cp_schedule = \<lparr>cs_id = sid, cs_start_schedule = pget sd ''startSchedule'', cs_duration = pget sd ''duration'',
          cs_charging_rate_unit = u, cs_periods = cs_periods (cp_schedule p), cs_min_charging_rate = pget sd ''minChargingRate''\<rparr>,
        cp_valid_from = pget d ''validFrom'', cp_valid_to = pget d ''validTo'',
        cp_recurrency_kind = pget d ''recurrencyKind'', cp_transaction_id = pget d ''transactionId''\<rparr>"
    unfolding parse_charging_profile_def rbind_Inr_iff item_Inr dict_of_Inr by auto
  have "list_all2 (\<lambda>v q. parse_period v = Inr q) vs (cs_periods (cp_schedule p))" using vs(2) by (simp add: traverse_Inr)
  then obtain qs where qs: "vs = map PDict qs" "map period_to_dict (cs_periods (cp_schedule p)) = map echoed_period qs"
    using parsed_periods by blast
  then have "qs \<noteq> []" using assms(2) by auto
  moreover from this have "get_or sd ''chargingSchedulePeriod'' (PList []) = PList (map PDict qs)"
    using vs(1) qs(1) by (intro iterate_dicts) simp_all
  ultimately have periods: "pget sd ''chargingSchedulePeriod'' = PList (map PDict qs)" by (auto simp: get_or_def pget_def split: option.splits)
  have schedule: "pget d ''chargingSchedule'' = PDict sd" using d(2) read(1) by (auto simp: get_or_def pget_def split: option.splits)
  have enums: "get_or sd ''chargingRateUnit'' (PStr ''W'') = PStr (unit_value u)" "pget d ''chargingProfilePurpose'' = PStr (purpose_value purpose)"
    "pget d ''chargingProfileKind'' = PStr (kind_value kind)"
    using read(2,5,6) d(1) unfolding unit_of_def purpose_of_def kind_of_def
    by (auto simp: rbind_Inr_iff item_Inr pget_def dest!: enum_of_Inr)
  have "cp_id p = pget d ''id''" using p read(3) by (metis ChargingProfile.select_convs(1) option.case(2) pget_def)
  moreover have "profile_to_dict p = echoed_profile d sd qs"
    by (subst p) (simp add: profile_to_dict_def echoed_profile_def fields_of_def qs(2) enums, simp add: pget_def read(1,3,4))
  ultimately show thesis using that [OF d(1) schedule periods] by blast
qed

lemma dynamic_update_rejected:
  "update_dynamic_schedule db station pid s = Rejected (case db 0 of None \<Rightarrow> ProfileNotFound pid | Some e \<Rightarrow> InternalError e)"
  by (simp add: update_dynamic_schedule_def ts_get_charging_profiles_def newest_first_def statement_def split: option.split)

section \<open>Properties\<close>

text \<open>C25: Over every run of requests to set, clear, report and compose profiles that are handled one after another, each
  completed before the next one begins, whatever the messages and the failures of the database: profile ids are unique per station and EVSE, at most one profile has a given
  purpose and stack level there, every stored profile has passed validation and reads back from its row,
  and the cache of active profiles stays well formed. The condition on the order is needed: the manager has no lock
  between its checks and its write, and two requests to set that both check before either writes are both
  accepted and leave two profiles of one purpose at one stack level (\<open>interleaved_sets_stack\<close>).\<close>
theorem profile_run_inv: "manager_ok (run_steps (profile_step fromiso ts) (pm_init (cm_init n ttl None)) ops)"
  by (rule profiles.run_inv) blast

text \<open>C37: A profile that is accepted reads back, while no other request is handled in between: the message was a
  dictionary with a schedule and a list of periods, its id reads as an integer, and asked for that id the
  station's EVSE has exactly one profile, in which every field of the profile, of the schedule and of each period
  (as \<open>echoed_profile\<close> lists them) has the value it has in the message, \<open>None\<close> when it is absent there, and
  \<open>W\<close> for an absent unit.\<close>
theorem set_then_get:
  assumes "manager_ok s" and "set_charging_profile fromiso ts db now station evse message s = (Accepted (), s')" and "db' 0 = None"
  shows "\<exists>d sd qs i. message = PDict d \<and> pget d ''chargingSchedule'' = PDict sd \<and> pget sd ''chargingSchedulePeriod'' = PList (map PDict qs) \<and>
    as_int (pget d ''id'') = Some i \<and> get_charging_profiles db' station evse (Some i) purpose level s' = Accepted [echoed_profile d sd qs]"
proof -
  have "table_ok (pm_table s)" using assms(1) by (simp add: manager_ok_def)
  then obtain p r where p: "parse_charging_profile message = Inr p" "profile_valid p"
    and r: "row_of r p" "pr_station r = station" "pr_evse r = evse" "pm_table s' = pm_table s @ [r]" "table_ok (pm_table s @ [r])"
    by (rule accepted_set [OF assms(2)])
  then obtain i where i: "as_int (cp_id p) = Some i" "pr_profile_id r = i" by (simp add: row_of_def)
  have "row_key r \<notin> row_key ` set (pm_table s)" using r(5) by (simp add: table_ok_def)
  then have "(station, evse, i) \<notin> row_key ` set (pm_table s)" using r(2,3) i by simp
  then have "\<not> (pr_station x = station \<and> pr_evse x = evse \<and> pr_profile_id x = i)" if "x \<in> set (pm_table s)" for x using that by force
  then have "filter (\<lambda>x. pr_station x = station \<and> evse = pr_evse x \<and> pr_profile_id x = i) (pm_table s) = []"
    by (auto simp: filter_empty_conv)
  then have "ts_get_charging_profiles (pm_table s') station (Some evse) (Some i) purpose level = [profile_to_dict p]"
    using r i by (simp add: ts_get_charging_profiles_def row_filter_def newest_first_def row_of_def)
  then have get: "get_charging_profiles db' station evse (Some i) purpose level s' = Accepted [profile_to_dict p]"
    using assms(3) by (simp add: get_charging_profiles_def get_profiles_def statement_def parse_profile_to_dict)
  obtain d sd qs where "message = PDict d" "pget d ''chargingSchedule'' = PDict sd" "pget sd ''chargingSchedulePeriod'' = PList (map PDict qs)"
    "cp_id p = pget d ''id''" "profile_to_dict p = echoed_profile d sd qs"
    by (rule parsed_profile [OF p(1)]) (use p(2) in \<open>auto simp: profile_valid_def\<close>)
  with get i show ?thesis by auto
qed

text \<open>C24: What the composite schedule says of a second of its duration, for valid profiles whose periods start at
  whole seconds: limits, setpoint and mode are those of a period that starts exactly with the minute of
  that second, of a profile with the highest stack level among those that have one; where no period starts
  with the minute, the schedule allows nothing. So a period counts for its first minute only, and not at
  all when it starts within a minute.\<close>
theorem composite_exact:
  assumes "\<forall>p\<in>set profiles. profile_valid p \<and> integer_starts p" and "0 \<le> x" and "x < duration"
  shows "\<exists>c. calculate_composite_schedule profiles duration unit = Inr c \<and>
    (let st = dict_state (period_in_force (co_periods c) x); C = starting profiles (60 * (x div 60))
     in if C = {} then same_state st idle_state
        else \<exists>(p, q)\<in>C. (\<forall>(p', q')\<in>C. level_of p' \<le> level_of p) \<and> same_state st (period_state q))"
proof -
  obtain m where m: "composite_slots profiles duration = Inr m" "map fst m = minutes 0 duration"
    and at: "\<forall>t\<in>set (minutes 0 duration).
       if starting profiles t = {} then state_key (slot_at m t) = idle_state
       else \<exists>(p, q)\<in>starting profiles t. (\<forall>(p', q')\<in>starting profiles t. level_of p' \<le> level_of p) \<and> state_key (slot_at m t) = period_state q"
    by (rule composite_slot [OF assms(1)])
  have "60 * (x div 60) \<in> set (minutes 0 duration)" using assms(2,3) by (auto simp: minutes_set)
  note slot = bspec [OF at this]
  obtain c where c: "calculate_composite_schedule profiles duration unit = Inr c"
    and periods: "co_periods c = map (\<lambda>(t, d). create_period_from_slot_data t d) (merge_slots m (sort (map fst m)) None 0)"
    by (simp add: calculate_composite_schedule_def m(1))
  have force: "same_state (dict_state (period_in_force (co_periods c) x)) (state_key (slot_at m (60 * (x div 60))))"
    unfolding periods by (rule merged_state [OF m(2) assms(2,3)])
  show ?thesis
  proof (cases "starting profiles (60 * (x div 60)) = {}")
    case True
    then show ?thesis using c slot force by (simp add: Let_def)
  next
    case False
    then obtain p q where pq: "(p, q) \<in> starting profiles (60 * (x div 60))"
      "\<forall>(p', q')\<in>starting profiles (60 * (x div 60)). level_of p' \<le> level_of p" "state_key (slot_at m (60 * (x div 60))) = period_state q"
      using slot by auto
    then show ?thesis using c force False unfolding Let_def by (intro exI [of _ c]) (auto intro!: bexI [of _ "(p, q)"])
  qed
qed

text \<open>As long as a cache entry of active profiles has not expired, the composite schedule is computed from it,
  whatever profiles were set, cleared or reported in the meantime: none of these requests removes the
  entry, so a cleared profile goes on to count and a new one does not, for up to five minutes.\<close>
theorem cached_composite_stale:
  assumes "map_of (cm_cache (pm_cache_manager s)) (active_key station evse) = Some e" and "ce_value e = Some ps" and "ps \<noteq> []"
    and "\<not> entry_expired e now" and "list_all writes ops"
  shows "fst (get_composite_schedule db now station evse duration unit (run_steps (profile_step fromiso ts) s ops)) =
    (case calculate_composite_schedule ps duration unit of Inl err \<Rightarrow> Rejected (InternalError err) | Inr c \<Rightarrow> Accepted c)"
proof -
  obtain q qs where "ps = q # qs" using assms(3) by (cases ps) auto
  then have "fst (cm_get (active_key station evse) None now now (pm_cache_manager s)) = Some (q # qs)"
    using assms(1,2,4) by (simp add: cm_get_def Let_def)
  then show ?thesis
    using \<open>ps = q # qs\<close> by (simp add: get_composite_schedule_def get_active_profiles_def Let_def writes_keep_cache [OF assms(5)])
qed

definition demo_period :: ChargingSchedulePeriod where
  "demo_period = \<lparr>sp_start_period = PInt 0, sp_limit = PInt 7000, sp_discharging_limit = PNone, sp_setpoint = PNone, sp_setpoint_reactive = PNone,
     sp_number_phases = PNone, sp_phase_to_use = PNone, sp_operation_mode = PNone, sp_v2x_freq_watt_curve = PNone,
     sp_v2x_signal_watt_curve = PNone, sp_v2x_baseline = PNone\<rparr>"

definition demo_profile :: ChargingProfile where
  "demo_profile = \<lparr>cp_id = PInt 5, cp_stack_level = PInt 1, cp_purpose = TX_DEFAULT_PROFILE, cp_kind = ABSOLUTE,
     cp_schedule = \<lparr>cs_id = PInt 1, cs_start_schedule = PNone, cs_duration = PNone, cs_charging_rate_unit = UNIT_W, cs_periods = [demo_period],
       cs_min_charging_rate = PNone\<rparr>, cp_valid_from = PNone, cp_valid_to = PNone, cp_recurrency_kind = PNone, cp_transaction_id = PNone\<rparr>"

definition demo_manager :: ChargingProfileManager where
  "demo_manager = pm_init (cm_init 10 100 None)"

definition demo_entry :: "ChargingProfile list CacheEntry" where
  "demo_entry = \<lparr>ce_key = active_key ''s'' 1, ce_value = Some [demo_profile], ce_created_at = 0, ce_last_accessed = 0, ce_access_count = 0,
     ce_ttl = Some 100, ce_strategy = TTL\<rparr>"

lemma demo_valid: "validate_profile fromiso [] demo_profile = Inr None" "validate_profile fromiso [] (demo_profile\<lparr>cp_id := i\<rparr>) = Inr None"
  by (simp_all add: validate_profile_def demo_profile_def demo_period_def check_def py_less_def validate_period_def validate_validity_def)

lemma demo_set:
  "fst (set_charging_profile fromiso ts (\<lambda>_. None) 0 ''s'' 1 (profile_to_dict demo_profile) demo_manager) = Accepted ()"
  by (simp add: set_charging_profile_def set_check_def Let_def parse_profile_to_dict statement_def get_profiles_def ts_get_charging_profiles_def
      newest_first_def demo_manager_def pm_init_def demo_valid check_stacking_limits_def stacking_limits_def)
    (simp add: set_commit_def statement_def profile_to_row_def sql_int_def sql_time_def demo_profile_def)

theorem set_then_get_witness:
  "\<exists>d sd qs. profile_to_dict demo_profile = PDict d \<and> pget d ''chargingSchedule'' = PDict sd \<and>
   pget sd ''chargingSchedulePeriod'' = PList (map PDict qs) \<and> length qs = 1 \<and>
   get_charging_profiles (\<lambda>_. None) ''s'' 1 (Some 5) None None
     (snd (set_charging_profile (\<lambda>_. None) (\<lambda>_. Inl ValueError) (\<lambda>_. None) 0 ''s'' 1 (profile_to_dict demo_profile) demo_manager)) =
   Accepted [echoed_profile d sd qs]"
proof -
  let ?set = "set_charging_profile (\<lambda>_. None) (\<lambda>_. Inl ValueError) (\<lambda>_. None) 0 ''s'' 1 (profile_to_dict demo_profile) demo_manager"
  have "?set = (Accepted (), snd ?set)" by (rule prod_eqI) (simp_all add: demo_set)
  moreover have "manager_ok demo_manager" using profiles.run_inv [of demo_manager _ _ "[]"] by (auto simp: demo_manager_def)
  ultimately obtain d sd qs i where out: "profile_to_dict demo_profile = PDict d" "pget d ''chargingSchedule'' = PDict sd"
    "pget sd ''chargingSchedulePeriod'' = PList (map PDict qs)" "as_int (pget d ''id'') = Some i"
    "get_charging_profiles (\<lambda>_. None) ''s'' 1 (Some i) None None (snd ?set) = Accepted [echoed_profile d sd qs]"
    using set_then_get [of demo_manager "\<lambda>_. None" "\<lambda>_. Inl ValueError" "\<lambda>_. None" 0 "''s''" 1 "profile_to_dict demo_profile" "snd ?set" "\<lambda>_. None" None None]
    by auto
  have "i = 5" using out(1,4) by (auto simp: profile_to_dict_def pget_def demo_profile_def)
  moreover have "length qs = 1" using out(1,2,3) by (auto simp: profile_to_dict_def pget_def demo_profile_def map_eq_Cons_conv Cons_eq_map_conv)
  ultimately show ?thesis using out by blast
qed

theorem composite_exact_witness:
  "\<exists>c. calculate_composite_schedule [demo_profile] 120 None = Inr c \<and> same_state (dict_state (period_in_force (co_periods c) 90)) idle_state"
  using composite_exact [of "[demo_profile]" 90 120 None]
  by (auto simp: starting_def starts_at_def demo_profile_def demo_period_def profile_valid_def period_valid_def integer_starts_def)

theorem cached_composite_stale_witness:
  "fst (get_composite_schedule (\<lambda>_. None) 10 ''s'' 1 60 None
     (run_steps (profile_step (\<lambda>_. None) (\<lambda>_. Inl ValueError))
       (pm_init ((cm_init 10 100 None)\<lparr>cm_cache := [(active_key ''s'' 1, demo_entry)]\<rparr>))
       [ClearProfile (\<lambda>_. None) ''s'' 1 None None None])) =
   (case calculate_composite_schedule [demo_profile] 60 None of Inl err \<Rightarrow> Rejected (InternalError err) | Inr c \<Rightarrow> Accepted c)"
  by (rule cached_composite_stale [where e = demo_entry]) (simp_all add: pm_init_def demo_entry_def entry_expired_def)

text \<open>Two requests that check before either writes are both accepted, and the stack level holds two profiles of
  one purpose.\<close>

lemma interleaved_sets_stack:
  "set_check fromiso (\<lambda>_. None) [] [] ''s'' 1 (profile_to_dict demo_profile) = Inr demo_profile \<and>
   set_check fromiso (\<lambda>_. None) [] [] ''s'' 1 (profile_to_dict (demo_profile\<lparr>cp_id := PInt 6\<rparr>)) = Inr (demo_profile\<lparr>cp_id := PInt 6\<rparr>) \<and>
   \<not> table_ok (pm_table (snd (set_commit ts (\<lambda>_. None) 2 ''s'' 1 (demo_profile\<lparr>cp_id := PInt 6\<rparr>)
     (snd (set_commit ts (\<lambda>_. None) 1 ''s'' 1 demo_profile demo_manager)))))"
proof (intro conjI)
  have "check_stacking_limits [] p = None" if "cp_purpose p = TX_DEFAULT_PROFILE" for p
    using that by (simp add: check_stacking_limits_def stacking_limits_def)
  then show "set_check fromiso (\<lambda>_. None) [] [] ''s'' 1 (profile_to_dict demo_profile) = Inr demo_profile"
    "set_check fromiso (\<lambda>_. None) [] [] ''s'' 1 (profile_to_dict (demo_profile\<lparr>cp_id := PInt 6\<rparr>)) = Inr (demo_profile\<lparr>cp_id := PInt 6\<rparr>)"
    by (simp_all add: set_check_def Let_def parse_profile_to_dict statement_def get_profiles_def ts_get_charging_profiles_def
        newest_first_def demo_valid, simp_all add: demo_profile_def)
  show "\<not> table_ok (pm_table (snd (set_commit ts (\<lambda>_. None) 2 ''s'' 1 (demo_profile\<lparr>cp_id := PInt 6\<rparr>)
     (snd (set_commit ts (\<lambda>_. None) 1 ''s'' 1 demo_profile demo_manager)))))"
    by (simp add: set_commit_def statement_def profile_to_row_def sql_int_def sql_time_def demo_profile_def update_cache_def Let_def
        demo_manager_def pm_init_def store_charging_profile_def same_key_def table_ok_def)
qed

end
