(* ===== verification/Optimizer.thy ===== *)
theory Optimizer
  imports Depot_Controller
begin

text \<open>
  The optimisation of a depot's charging (\<open>src/src/core/optimizer/milp_model.py\<close>, \<open>solver.py\<close>,
  \<open>warm_start.py\<close>, \<open>exceptions.py\<close>). The mixed-integer model is data: its variables are the fields of a
  solution, every constraint and bound is a test of a solution, and the objective a number. What a solver
  delivers (its termination, the values it loads) is an argument; nothing is assumed of it. A variable that
  is fixed has the value it holds when the model is solved. Times are all on one time line: comparing a naive
  with an aware one, which raises in Python, is not modelled; what a
  preconditioning request says of its power is a number, as the assembler writes it.
\<close>

section \<open>Model: validation\<close>

datatype opt_error =
    InvalidStateError string | InvalidConfigError string | InfeasibleModelError | SolverTimeoutError
  | SolverFailure string | ConstraintViolationError string | Raises py_error

definition validate_inputs :: "DepotState \<Rightarrow> DepotConfig \<Rightarrow> opt_error option" where
  "validate_inputs state config =
     (if vehicle_socs state = [] then Some (InvalidStateError ''vehicle_socs'')
      else if int (length (prices state)) \<noteq> n_timesteps config then Some (InvalidStateError ''prices'')
      else if int (length (building_power state)) \<noteq> n_timesteps config then Some (InvalidStateError ''building_power'')
      else if set (map fst (vehicle_socs state)) \<noteq> set (map fst (vehicle_availability state))
        then Some (InvalidStateError ''vehicle_availability'')
      else if \<exists>a\<in>set (vehicle_availability state). int (length (snd a)) \<noteq> n_timesteps config
        then Some (InvalidStateError ''vehicle_availability'')
      else if set (map fst (vehicle_socs state)) \<noteq> set (map fst (vehicle_capacities config))
        then Some (InvalidConfigError ''vehicle_capacities'')
      else if charger_groups config = [] then Some (InvalidConfigError ''charger_groups'')
      else if \<exists>g\<in>set (charger_groups config). fst g \<le> 0 \<or> snd g \<le> 0 then Some (InvalidConfigError ''charger_groups'')
      else if max_site_power config \<le> 0 then Some (InvalidConfigError ''max_site_power'')
      else if \<not> (0 < charger_efficiency config \<and> charger_efficiency config \<le> 1) then Some (InvalidConfigError ''charger_efficiency'')
      else if battery_capacity config < 0 then Some (InvalidConfigError ''battery_capacity'')
      else if battery_power config < 0 then Some (InvalidConfigError ''battery_power'')
      else None)"

section \<open>Model: sets, parameters and variables\<close>

record solution =
  x_P_charge :: "string \<Rightarrow> nat \<Rightarrow> pyfloat"
  x_SoC :: "string \<Rightarrow> nat \<Rightarrow> pyfloat"
  x_y_charge :: "string \<Rightarrow> nat \<Rightarrow> pyfloat"
  x_P_grid :: "nat \<Rightarrow> pyfloat"
  x_P_peak :: pyfloat
  x_P_batt :: "nat \<Rightarrow> pyfloat"
  x_SoC_batt :: "nat \<Rightarrow> pyfloat"
  x_P_batt_discharge :: "nat \<Rightarrow> pyfloat"
  x_P_batt_charge :: "nat \<Rightarrow> pyfloat"
  x_P_precond :: "nat \<Rightarrow> pyfloat"
  x_precond_slack :: "nat \<Rightarrow> pyfloat"
  x_total_kwh_period :: pyfloat
  x_kwh_under :: pyfloat
  x_kwh_over :: pyfloat

type_synonym test = "solution \<Rightarrow> bool"

definition vehicles :: "DepotState \<Rightarrow> string list" where
  "vehicles state = map fst (vehicle_socs state)"

definition steps :: "DepotConfig \<Rightarrow> nat list" where
  "steps config = [0..<nat (n_timesteps config)]"

definition max_kw :: "DepotConfig \<Rightarrow> string \<Rightarrow> pyfloat" where
  "max_kw config b = (case map_of (vehicle_max_charge_kw config) b of None \<Rightarrow> 80 | Some p \<Rightarrow> p)"

text \<open>Parameters are read at keys and indices that validation has checked.\<close>

definition soc_init :: "DepotState \<Rightarrow> string \<Rightarrow> pyfloat" where
  "soc_init state b = (case map_of (vehicle_socs state) b of None \<Rightarrow> 0 | Some s \<Rightarrow> s)"

definition E_batt :: "DepotConfig \<Rightarrow> string \<Rightarrow> pyfloat" where
  "E_batt config b = (case map_of (vehicle_capacities config) b of None \<Rightarrow> 0 | Some e \<Rightarrow> e)"

definition available :: "DepotState \<Rightarrow> string \<Rightarrow> nat \<Rightarrow> bool" where
  "available state b t = (case map_of (vehicle_availability state) b of None \<Rightarrow> False | Some av \<Rightarrow> t < length av \<and> av ! t)"

definition has_battery :: "DepotConfig \<Rightarrow> bool" where
  "has_battery config \<longleftrightarrow> battery_capacity config > 0 \<and> battery_power config > 0"

definition batt_power :: "DepotConfig \<Rightarrow> pyfloat" where
  "batt_power config = (if has_battery config then battery_power config else 0)"

definition total_chargers :: "DepotConfig \<Rightarrow> int" where
  "total_chargers config = sum_list (map snd (charger_groups config))"

definition total_charger_power :: "DepotConfig \<Rightarrow> pyfloat" where
  "total_charger_power config = sum_list (map (\<lambda>(kw, n). kw * of_int n) (charger_groups config))"

definition timestep :: "DepotConfig \<Rightarrow> dtime \<Rightarrow> dtime \<Rightarrow> int" where
  "timestep config horizon_start t = trunc (total_seconds (t - horizon_start) / (delta_t config * 3600))"

definition is_incoming :: "DepotState \<Rightarrow> string \<Rightarrow> bool" where
  "is_incoming state b \<longleftrightarrow> b \<in> set (map iv_vehicle_id (incoming_vehicles state))"

definition incoming_arrival_timesteps :: "DepotState \<Rightarrow> DepotConfig \<Rightarrow> dtime \<Rightarrow> (string, nat \<times> pyfloat) pydict" where
  "incoming_arrival_timesteps state config h =
     foldl (\<lambda>d iv. let a = timestep config h (iv_arrival_time iv)
                   in if 0 \<le> a \<and> a < n_timesteps config then AList.update (iv_vehicle_id iv) (nat a, iv_expected_soc iv) d else d)
       [] (incoming_vehicles state)"

definition precond_power :: "(string, pyval) pydict \<Rightarrow> pyfloat result" where
  "precond_power req =
     (let v = pget req ''power_kw'' in if \<not> truthy v then Inr 0 else case num v of None \<Rightarrow> Inl TypeError | Some x \<Rightarrow> Inr x)"

definition precond_window :: "DepotConfig \<Rightarrow> dtime \<Rightarrow> (string, pyval) pydict \<Rightarrow> (int \<times> int \<times> pyfloat) result" where
  "precond_window config h req =
     rbind (precond_power req) (\<lambda>power.
       case (pget req ''start_time'', pget req ''end_time'') of
         (PTime a, PTime b) \<Rightarrow>
           if delta_t config = 0 then Inl ZeroDivisionError else Inr (timestep config h a, timestep config h b, power)
       | _ \<Rightarrow> Inr (0, 0, power))"

definition required_precond :: "(int \<times> int \<times> pyfloat) list \<Rightarrow> nat \<Rightarrow> pyfloat" where
  "required_precond windows t = sum_list (map (\<lambda>(t_start, t_end, power). if t_start \<le> int t \<and> int t < t_end then power else 0) windows)"

section \<open>Model: the constraints\<close>

definition soc_bounds :: "pyfloat \<times> pyfloat" where
  "soc_bounds = (1 / 10, 1)"

definition vehicle_bounds :: "DepotState \<Rightarrow> DepotConfig \<Rightarrow> test list" where
  "vehicle_bounds state config =
     concat (map (\<lambda>b. concat (map (\<lambda>t.
       [\<lambda>x. 0 \<le> x_P_charge x b t \<and> x_P_charge x b t \<le> max_kw config b,
        \<lambda>x. fst soc_bounds \<le> x_SoC x b t \<and> x_SoC x b t \<le> snd soc_bounds,
        \<lambda>x. x_y_charge x b t = 0 \<or> x_y_charge x b t = 1]) (steps config))) (vehicles state))"

definition site_bounds :: "DepotConfig \<Rightarrow> test list" where
  "site_bounds config =
     (\<lambda>x. 0 \<le> x_P_peak x) #
     concat (map (\<lambda>t.
       [\<lambda>x. 0 \<le> x_P_grid x t,
        \<lambda>x. - batt_power config \<le> x_P_batt x t \<and> x_P_batt x t \<le> batt_power config,
        \<lambda>x. 2 / 10 \<le> x_SoC_batt x t \<and> x_SoC_batt x t \<le> 8 / 10,
        \<lambda>x. 0 \<le> x_P_batt_discharge x t \<and> x_P_batt_discharge x t \<le> batt_power config,
        \<lambda>x. 0 \<le> x_P_batt_charge x t \<and> x_P_batt_charge x t \<le> batt_power config,
        \<lambda>x. 0 \<le> x_P_precond x t, \<lambda>x. 0 \<le> x_precond_slack x t]) (steps config))"

definition soc_init_con :: "DepotState \<Rightarrow> test list" where
  "soc_init_con state =
     map (\<lambda>b x. x_SoC x b 0 = soc_init state b) (filter (\<lambda>b. \<not> is_incoming state b) (vehicles state))"

definition incoming_vehicle_soc :: "DepotState \<Rightarrow> DepotConfig \<Rightarrow> dtime \<Rightarrow> test list" where
  "incoming_vehicle_soc state config h =
     List.map_filter (\<lambda>b. map_option (\<lambda>(a, s) x. x_SoC x b a = s) (map_of (incoming_arrival_timesteps state config h) b)) (vehicles state)"

definition soc_dynamics :: "DepotState \<Rightarrow> DepotConfig \<Rightarrow> test list" where
  "soc_dynamics state config =
     concat (map (\<lambda>b. map (\<lambda>t x.
       x_SoC x b t = x_SoC x b (t - 1) + charger_efficiency config * x_P_charge x b (t - 1) * delta_t config / E_batt config b)
       (filter (\<lambda>t. t \<noteq> 0) (steps config))) (vehicles state))"

definition availability_con :: "DepotState \<Rightarrow> DepotConfig \<Rightarrow> test list" where
  "availability_con state config =
     concat (map (\<lambda>b. map (\<lambda>t x. x_P_charge x b t = 0) (filter (\<lambda>t. \<not> available state b t) (steps config))) (vehicles state))"

definition departure_soc_min :: "DepotState \<Rightarrow> DepotConfig \<Rightarrow> string \<Rightarrow> (nat \<times> pyfloat) option" where
  "departure_soc_min state config b =
     (case map_of (departure_times state) b of
        Some t \<Rightarrow> if t < n_timesteps config
          then Some (nat t, case map_of (vehicle_departure_soc_min state) b of None \<Rightarrow> 99 / 100 | Some s \<Rightarrow> s) else None
      | None \<Rightarrow> None)"

definition departure_soc_max :: "DepotState \<Rightarrow> DepotConfig \<Rightarrow> string \<Rightarrow> (nat \<times> pyfloat) option" where
  "departure_soc_max state config b =
     (case map_of (departure_times state) b of
        Some t \<Rightarrow> (let soc_max = (case map_of (vehicle_departure_soc_max state) b of None \<Rightarrow> 1 | Some s \<Rightarrow> s)
                   in if t < n_timesteps config \<and> soc_max < 1 then Some (nat t, soc_max) else None)
      | None \<Rightarrow> None)"

definition departure_con :: "DepotState \<Rightarrow> DepotConfig \<Rightarrow> test list" where
  "departure_con state config =
     List.map_filter (\<lambda>b. map_option (\<lambda>(t, s) x. x_SoC x b t \<ge> s) (departure_soc_min state config b)) (vehicles state) @
     List.map_filter (\<lambda>b. map_option (\<lambda>(t, s) x. x_SoC x b t \<le> s) (departure_soc_max state config b)) (vehicles state)"

definition charger_con :: "DepotState \<Rightarrow> DepotConfig \<Rightarrow> test list" where
  "charger_con state config =
     concat (map (\<lambda>b. map (\<lambda>t x. x_P_charge x b t \<le> max_kw config b * x_y_charge x b t) (steps config)) (vehicles state)) @
     map (\<lambda>t x. sum_list (map (\<lambda>b. x_y_charge x b t) (vehicles state)) \<le> of_int (total_chargers config)) (steps config) @
     map (\<lambda>t x. sum_list (map (\<lambda>b. x_P_charge x b t) (vehicles state)) \<le> total_charger_power config) (steps config)"

text \<open>Neighbours in the sorted list of vehicles.\<close>

definition symmetry_break :: "DepotState \<Rightarrow> DepotConfig \<Rightarrow> test list" where
  "symmetry_break state config =
     (let vehicle_list = sort (vehicles state)
      in if 1 < length vehicle_list \<and> int (length vehicle_list) \<le> total_chargers config
         then concat (map (\<lambda>(i, j). map (\<lambda>t x. x_y_charge x i t \<ge> x_y_charge x j t)
                (filter (\<lambda>t. available state i t \<and> available state j t) (steps config))) (zip vehicle_list (tl vehicle_list)))
         else [])"

definition battery_con :: "DepotState \<Rightarrow> DepotConfig \<Rightarrow> test list" where
  "battery_con state config =
     map (\<lambda>t x. x_P_batt x t = x_P_batt_discharge x t - x_P_batt_charge x t) (steps config) @
     (if has_battery config
      then (\<lambda>x. x_SoC_batt x 0 = battery_soc state) #
        map (\<lambda>t x. x_SoC_batt x t = x_SoC_batt x (t - 1) - x_P_batt x (t - 1) * delta_t config / battery_capacity config)
          (filter (\<lambda>t. t \<noteq> 0) (steps config))
      else [])"

definition precond_con :: "DepotConfig \<Rightarrow> (int \<times> int \<times> pyfloat) list \<Rightarrow> test list" where
  "precond_con config windows = map (\<lambda>t x. x_P_precond x t + x_precond_slack x t \<ge> required_precond windows t) (steps config)"

definition P_batt_effective :: "DepotConfig \<Rightarrow> solution \<Rightarrow> nat \<Rightarrow> pyfloat" where
  "P_batt_effective config x t =
     x_P_batt_discharge x t * battery_efficiency config - x_P_batt_charge x t / battery_efficiency config"

definition grid_con :: "DepotState \<Rightarrow> DepotConfig \<Rightarrow> test list" where
  "grid_con state config =
     map (\<lambda>t x. x_P_grid x t = sum_list (map (\<lambda>b. x_P_charge x b t) (vehicles state)) + building_power state ! t +
       building_load_assumption_kw config + x_P_precond x t - P_batt_effective config x t) (steps config) @
     map (\<lambda>t x. x_P_grid x t \<le> max_site_power config) (steps config) @
     map (\<lambda>t x. x_P_peak x \<ge> x_P_grid x t) (steps config) @
     [\<lambda>x. x_P_peak x \<ge> current_month_peak state]"

text \<open>The tariff with a cap: its three parameters, when all are there.\<close>

definition energy_cap :: "DepotConfig \<Rightarrow> (pyfloat \<times> pyfloat \<times> pyfloat) option" where
  "energy_cap config =
     (case (energy_cap_kwh config, under_cap_rate_per_kwh config, over_cap_penalty_per_kwh config) of
        (Some cap, Some under_rate, Some over_rate) \<Rightarrow> if tariff_type config = ''energy_cap'' then Some (cap, under_rate, over_rate) else None
      | _ \<Rightarrow> None)"

definition horizon_kwh :: "DepotState \<Rightarrow> DepotConfig \<Rightarrow> solution \<Rightarrow> pyfloat" where
  "horizon_kwh state config x =
     sum_list (concat (map (\<lambda>b. map (\<lambda>t. x_P_charge x b t * delta_t config) (steps config)) (vehicles state)))"

definition tariff_con :: "DepotState \<Rightarrow> DepotConfig \<Rightarrow> test list" where
  "tariff_con state config =
     (case energy_cap config of
        None \<Rightarrow> []
      | Some (cap, under_rate, over_rate) \<Rightarrow>
          [\<lambda>x. 0 \<le> x_total_kwh_period x, \<lambda>x. 0 \<le> x_kwh_under x, \<lambda>x. 0 \<le> x_kwh_over x,
           \<lambda>x. x_total_kwh_period x = cumulative_kwh_period state + horizon_kwh state config x,
           \<lambda>x. x_kwh_under x + x_kwh_over x = x_total_kwh_period x,
           \<lambda>x. x_kwh_under x \<le> cap])"

definition fixed_energy_cap_cost :: "DepotState \<Rightarrow> pyfloat \<times> pyfloat \<times> pyfloat \<Rightarrow> pyfloat" where
  "fixed_energy_cap_cost state p =
     (case p of (cap, under_rate, over_rate) \<Rightarrow>
        under_rate * min (cumulative_kwh_period state) cap + over_rate * max 0 (cumulative_kwh_period state - cap))"

definition M_PRECOND :: pyfloat where
  "M_PRECOND = 1000"

definition objective :: "DepotState \<Rightarrow> DepotConfig \<Rightarrow> solution \<Rightarrow> pyfloat" where
  "objective state config x =
     sum_list (map (\<lambda>t. prices state ! t * x_P_grid x t * delta_t config) (steps config)) +
     (case energy_cap config of
        Some (cap, under_rate, over_rate) \<Rightarrow> under_rate * x_kwh_under x + over_rate * x_kwh_over x - fixed_energy_cap_cost state (cap, under_rate, over_rate)
      | None \<Rightarrow> demand_charge_rate state * x_P_peak x) +
     M_PRECOND * sum_list (map (\<lambda>t. x_precond_slack x t) (steps config))"

section \<open>Model: building the model\<close>

text \<open>The values variables hold (\<open>None\<close>: none yet); the fixed ones among them.\<close>

record var_values =
  v_P_charge :: "string \<Rightarrow> nat \<Rightarrow> pyfloat option"
  v_y_charge :: "string \<Rightarrow> nat \<Rightarrow> pyfloat option"
  v_SoC :: "string \<Rightarrow> nat \<Rightarrow> pyfloat option"
  v_P_batt :: "nat \<Rightarrow> pyfloat option"
  v_SoC_batt :: "nat \<Rightarrow> pyfloat option"
  v_P_grid :: "nat \<Rightarrow> pyfloat option"
  v_P_peak :: "pyfloat option"

record milp_model =
  mm_B :: "string list"
  mm_T :: "nat list"
  mm_constraints :: "test list"
  mm_objective :: "solution \<Rightarrow> pyfloat"
  mm_fixed :: "string list"
  mm_values :: var_values

definition vehicles_on_route :: "DepotState \<Rightarrow> string list" where
  "vehicles_on_route state = filter (\<lambda>b. \<not> available state b 0) (vehicles state)"

definition initial_values :: "DepotState \<Rightarrow> var_values" where
  "initial_values state =
     (let v = (\<lambda>b t. if b \<in> set (vehicles_on_route state) \<and> t = 0 then Some 0 else None)
      in \<lparr>v_P_charge = v, v_y_charge = v, v_SoC = (\<lambda>b t. None), v_P_batt = (\<lambda>t. None), v_SoC_batt = (\<lambda>t. None),
          v_P_grid = (\<lambda>t. None), v_P_peak = None\<rparr>)"

text \<open>What raises while the rules run, in their order: an index that is no element of a set, a division by
  a parameter that is zero, a value that is no number.\<close>

definition rules_raise :: "DepotState \<Rightarrow> DepotConfig \<Rightarrow> dtime \<Rightarrow> py_error option" where
  "rules_raise state config h =
     (if n_timesteps config = 0 \<and> (\<exists>b\<in>set (vehicles state). \<not> is_incoming state b) then Some KeyError
      else if incoming_vehicles state \<noteq> [] \<and> delta_t config = 0 then Some ZeroDivisionError
      else if 2 \<le> n_timesteps config \<and> (\<exists>b\<in>set (vehicles state). E_batt config b = 0) then Some ZeroDivisionError
      else if n_timesteps config = 0 then Some IndexError
      else if \<exists>b\<in>set (vehicles state). (case map_of (departure_times state) b of None \<Rightarrow> False | Some t \<Rightarrow> t < 0) then Some KeyError
      else case traverse (precond_window config h) (preconditioning_requests state) of
             Inl e \<Rightarrow> Some e
           | Inr ws \<Rightarrow>
               if battery_efficiency config = 0 then Some ZeroDivisionError
               else if tariff_type config = ''energy_cap'' \<and> energy_cap config = None then Some ValueError
               else None)"

definition model_constraints :: "DepotState \<Rightarrow> DepotConfig \<Rightarrow> dtime \<Rightarrow> (int \<times> int \<times> pyfloat) list \<Rightarrow> test list" where
  "model_constraints state config h windows =
     vehicle_bounds state config @ site_bounds config @ soc_init_con state @ incoming_vehicle_soc state config h @ soc_dynamics state config @
     availability_con state config @ departure_con state config @ charger_con state config @ battery_con state config @
     precond_con config windows @ grid_con state config @ tariff_con state config"

definition build_optimization_model :: "DepotState \<Rightarrow> DepotConfig \<Rightarrow> dtime \<Rightarrow> opt_error + milp_model" where
  "build_optimization_model state config h =
     (case validate_inputs state config of
        Some e \<Rightarrow> Inl e
      | None \<Rightarrow>
          (case (rules_raise state config h, traverse (precond_window config h) (preconditioning_requests state)) of
             (None, Inr windows) \<Rightarrow>
               Inr \<lparr>mm_B = vehicles state, mm_T = steps config,
                    mm_constraints = model_constraints state config h windows @ symmetry_break state config,
                    mm_objective = objective state config, mm_fixed = vehicles_on_route state, mm_values = initial_values state\<rparr>
           | (Some e, _) \<Rightarrow> Inl (Raises e)
           | (None, Inl e) \<Rightarrow> Inl (Raises e)))"

definition satisfies :: "test list \<Rightarrow> solution \<Rightarrow> bool" where
  "satisfies cs x \<longleftrightarrow> list_all (\<lambda>c. c x) cs"

definition fixed_ok :: "milp_model \<Rightarrow> solution \<Rightarrow> bool" where
  "fixed_ok m x \<longleftrightarrow>
     list_all (\<lambda>b. v_P_charge (mm_values m) b 0 = Some (x_P_charge x b 0) \<and> v_y_charge (mm_values m) b 0 = Some (x_y_charge x b 0)) (mm_fixed m)"

definition feasible :: "milp_model \<Rightarrow> solution \<Rightarrow> bool" where
  "feasible m x \<longleftrightarrow> satisfies (mm_constraints m) x \<and> fixed_ok m x"

section \<open>Model: warm start\<close>

definition nth_opt :: "'a list \<Rightarrow> nat \<Rightarrow> 'a option" where
  "nth_opt xs i = (if i < length xs then Some (xs ! i) else None)"

definition warm_P_charge :: "vehicle_schedule \<Rightarrow> nat \<Rightarrow> pyfloat" where
  "warm_P_charge prev t = (case nth_opt (case vs_charging_power prev of None \<Rightarrow> [] | Some ps \<Rightarrow> ps) t of Some p \<Rightarrow> p | None \<Rightarrow> 0)"

definition warm_y_charge :: "vehicle_schedule \<Rightarrow> nat \<Rightarrow> pyfloat" where
  "warm_y_charge prev t =
     (case nth_opt (case vs_charging_power prev of None \<Rightarrow> [] | Some ps \<Rightarrow> ps) t of Some p \<Rightarrow> if p > 1 / 10 then 1 else 0 | None \<Rightarrow> 0)"

definition warm_SoC :: "DepotState \<Rightarrow> string \<Rightarrow> vehicle_schedule \<Rightarrow> nat \<Rightarrow> pyfloat option \<Rightarrow> pyfloat option" where
  "warm_SoC state b prev t old =
     (case nth_opt (case vs_soc prev of None \<Rightarrow> [] | Some ss \<Rightarrow> ss) t of
        Some s \<Rightarrow> Some (max (1 / 10) (min 1 s))
      | None \<Rightarrow> if t = 0 then Some (case map_of (vehicle_socs state) b of None \<Rightarrow> 1 / 2 | Some s \<Rightarrow> s) else old)"

definition warm_start_model :: "milp_model \<Rightarrow> OptimizationResult \<Rightarrow> DepotState \<Rightarrow> DepotConfig \<Rightarrow> milp_model" where
  "warm_start_model m previous state config =
     (let v = mm_values m; prev = map_of (or_schedule previous); B = set (vehicles state); T = set (mm_T m);
          per_vehicle = (\<lambda>old fresh seen b t. if b \<in> B \<and> t \<in> T then (case prev b of None \<Rightarrow> fresh b t | Some p \<Rightarrow> seen b p t) else old b t)
      in m\<lparr>mm_values := \<lparr>
           v_P_charge = per_vehicle (v_P_charge v) (\<lambda>b t. Some 0) (\<lambda>b p t. Some (warm_P_charge p t)),
           v_y_charge = per_vehicle (v_y_charge v) (\<lambda>b t. Some 0) (\<lambda>b p t. Some (warm_y_charge p t)),
           v_SoC = per_vehicle (v_SoC v) (\<lambda>b t. Some (soc_init state b)) (\<lambda>b p t. warm_SoC state b p t (v_SoC v b t)),
           v_P_batt = (\<lambda>t. case nth_opt (or_battery_dispatch previous) t of
                         Some p \<Rightarrow> if t \<in> T then Some (max (- battery_power config) (min (battery_power config) p)) else v_P_batt v t
                       | None \<Rightarrow> v_P_batt v t),
           v_SoC_batt = (\<lambda>t. if t \<in> T then Some (battery_soc state) else v_SoC_batt v t),
           v_P_grid = (\<lambda>t. case nth_opt (or_grid_power previous) t of
                         Some p \<Rightarrow> if t \<in> T then Some (max 0 p) else v_P_grid v t | None \<Rightarrow> v_P_grid v t),
           v_P_peak = Some (max 0 (or_peak_demand_kw previous))\<rparr>\<rparr>)"

section \<open>Model: solving\<close>

datatype termination_condition = Optimal | MaxTimeLimit | Feasible | Infeasible | Unbounded | OtherTermination string

text \<open>A solver's run: how it ended, the values it loaded, if any, and its time. \<open>None\<close>: it was not available or raised.\<close>

record solver_run =
  sr_termination :: termination_condition
  sr_values :: "solution option"
  sr_time :: pyfloat

record solve_result =
  sv_values :: solution
  sv_time :: pyfloat
  sv_solver :: string

definition solve_model :: "solver_run option \<Rightarrow> solver_run option \<Rightarrow> opt_error + solve_result" where
  "solve_model gurobi highs =
     (case (case gurobi of Some r \<Rightarrow> Some (''gurobi'', r) | None \<Rightarrow> map_option (Pair ''highs'') highs) of
        None \<Rightarrow> Inl (SolverFailure ''solver_failure'')
      | Some (used, r) \<Rightarrow>
          (let extract = (case sr_values r of None \<Rightarrow> Inl (Raises ValueError)
                          | Some x \<Rightarrow> Inr \<lparr>sv_values = x, sv_time = sr_time r, sv_solver = used\<rparr>)
           in case sr_termination r of
                Optimal \<Rightarrow> extract
              | MaxTimeLimit \<Rightarrow> if sr_values r = None then Inl SolverTimeoutError else extract
              | Feasible \<Rightarrow> extract
              | Infeasible \<Rightarrow> Inl InfeasibleModelError
              | Unbounded \<Rightarrow> Inl (SolverFailure ''unbounded'')
              | OtherTermination c \<Rightarrow> Inl (SolverFailure c)))"

definition validate_solution :: "DepotState \<Rightarrow> DepotConfig \<Rightarrow> string list \<Rightarrow> solution \<Rightarrow> opt_error option" where
  "validate_solution state config B x =
     (case List.find (\<lambda>b. case departure_soc_min state config b of None \<Rightarrow> False | Some (t, soc_min) \<Rightarrow> x_SoC x b t < soc_min) B of
        None \<Rightarrow> None
      | Some b \<Rightarrow> Some (ConstraintViolationError b))"

definition extract_schedule :: "milp_model \<Rightarrow> solution \<Rightarrow> (string, vehicle_schedule) pydict" where
  "extract_schedule m x =
     map (\<lambda>b. (b, \<lparr>vs_charging_power = Some (map (x_P_charge x b) (mm_T m)), vs_soc = Some (map (x_SoC x b) (mm_T m))\<rparr>)) (mm_B m)"

definition optimize ::
  "solver_run option \<Rightarrow> solver_run option \<Rightarrow> string \<Rightarrow> dtime \<Rightarrow> DepotState \<Rightarrow> DepotConfig \<Rightarrow> OptimizationResult option \<Rightarrow>
     opt_error + OptimizationResult" where
  "optimize gurobi highs run_id h state config previous =
     (case build_optimization_model state config h of
        Inl e \<Rightarrow> Inl e
      | Inr m0 \<Rightarrow>
          (let m = (case previous of None \<Rightarrow> m0 | Some p \<Rightarrow> warm_start_model m0 p state config)
           in case solve_model gurobi highs of
                Inl e \<Rightarrow> Inl e
              | Inr r \<Rightarrow>
                  (case validate_solution state config (mm_B m) (sv_values r) of
                     Some e \<Rightarrow> Inl e
                   | None \<Rightarrow>
                       (let x = sv_values r
                        in Inr \<lparr>or_run_id = run_id, or_schedule = extract_schedule m x,
                                or_battery_dispatch = map (x_P_batt x) (mm_T m), or_grid_power = map (x_P_grid x) (mm_T m),
                                or_peak_demand_kw = x_P_peak x, or_objective_value = mm_objective m x,
                                or_solve_time_s = sv_time r, or_status = ''completed'', or_solver_used = sv_solver r\<rparr>))))"

section \<open>Lemmas: what feasibility means\<close>

lemma satisfies_simps [simp]:
  "satisfies [] x" "satisfies (c # cs) x \<longleftrightarrow> c x \<and> satisfies cs x" "satisfies (cs @ ds) x \<longleftrightarrow> satisfies cs x \<and> satisfies ds x"
  "satisfies (concat (map f as)) x \<longleftrightarrow> (\<forall>a\<in>set as. satisfies (f a) x)" "satisfies (map g as) x \<longleftrightarrow> (\<forall>a\<in>set as. g a x)"
  by (auto simp: satisfies_def list_all_iff)

lemma satisfies_map_filter: "satisfies (List.map_filter f as) x \<longleftrightarrow> (\<forall>a\<in>set as. \<forall>c. f a = Some c \<longrightarrow> c x)"
  by (auto simp: satisfies_def list_all_iff List.map_filter_def)

lemmas test_defs = vehicle_bounds_def site_bounds_def soc_init_con_def incoming_vehicle_soc_def soc_dynamics_def availability_con_def
  departure_con_def charger_con_def battery_con_def precond_con_def grid_con_def tariff_con_def

lemma built:
  assumes "build_optimization_model state config h = Inr m"
  obtains windows where "traverse (precond_window config h) (preconditioning_requests state) = Inr windows"
    "mm_constraints m = model_constraints state config h windows @ symmetry_break state config"
    "mm_B m = vehicles state" "mm_T m = steps config" "mm_objective m = objective state config"
    "mm_fixed m = vehicles_on_route state" "mm_values m = initial_values state"
  using assms by (auto simp: build_optimization_model_def split: option.splits sum.splits)

lemma built_valid:
  assumes "build_optimization_model state config h = Inr m"
  shows "validate_inputs state config = None" "rules_raise state config h = None"
  using assms by (auto simp: build_optimization_model_def split: option.splits sum.splits)

lemma built_steps: "build_optimization_model state config h = Inr m \<Longrightarrow> int 0 < n_timesteps config"
  using built_valid [of state config h m] by (auto simp: validate_inputs_def rules_raise_def split: if_splits)

lemma feasible_constraints:
  assumes "build_optimization_model state config h = Inr m" "feasible m x"
  obtains windows where "traverse (precond_window config h) (preconditioning_requests state) = Inr windows"
    "satisfies (model_constraints state config h windows) x"
  by (rule built [OF assms(1)]) (use assms(2) in \<open>auto simp: feasible_def\<close>)

lemma steps_iff [simp]: "t \<in> set (steps config) \<longleftrightarrow> int t < n_timesteps config"
  by (auto simp: steps_def)

lemma plan_vehicle:
  assumes "satisfies (model_constraints state config h windows) x" "b \<in> set (vehicles state)" "int t < n_timesteps config"
  shows "0 \<le> x_P_charge x b t" "x_P_charge x b t \<le> max_kw config b" "1 / 10 \<le> x_SoC x b t" "x_SoC x b t \<le> 1"
    "x_y_charge x b t = 0 \<or> x_y_charge x b t = 1" "\<not> available state b t \<Longrightarrow> x_P_charge x b t = 0"
    "x_P_charge x b t \<le> max_kw config b * x_y_charge x b t"
    "t \<noteq> 0 \<Longrightarrow> x_SoC x b t = x_SoC x b (t - 1) + charger_efficiency config * x_P_charge x b (t - 1) * delta_t config / E_batt config b"
proof -
  have t: "t \<in> set (steps config)" using assms(3) by simp
  show "0 \<le> x_P_charge x b t" "x_P_charge x b t \<le> max_kw config b" "1 / 10 \<le> x_SoC x b t" "x_SoC x b t \<le> 1"
    "x_y_charge x b t = 0 \<or> x_y_charge x b t = 1"
    using assms(1,2) t unfolding model_constraints_def vehicle_bounds_def soc_bounds_def satisfies_simps fst_conv snd_conv by blast+
  show "\<not> available state b t \<Longrightarrow> x_P_charge x b t = 0"
    using assms(1,2) t unfolding model_constraints_def availability_con_def satisfies_simps by simp
  show "x_P_charge x b t \<le> max_kw config b * x_y_charge x b t"
    using assms(1,2) t unfolding model_constraints_def charger_con_def satisfies_simps by blast
  show "t \<noteq> 0 \<Longrightarrow> x_SoC x b t = x_SoC x b (t - 1) + charger_efficiency config * x_P_charge x b (t - 1) * delta_t config / E_batt config b"
    using assms(1,2) t unfolding model_constraints_def soc_dynamics_def satisfies_simps by simp
qed

lemma plan_site:
  assumes "satisfies (model_constraints state config h windows) x" "int t < n_timesteps config"
  shows "x_P_grid x t \<le> max_site_power config"
    "sum_list (map (\<lambda>b. x_P_charge x b t) (vehicles state)) \<le> total_charger_power config"
    "sum_list (map (\<lambda>b. x_y_charge x b t) (vehicles state)) \<le> of_int (total_chargers config)"
    "0 \<le> x_P_grid x t" "x_P_grid x t \<le> x_P_peak x" "0 \<le> x_precond_slack x t"
    "required_precond windows t \<le> x_P_precond x t + x_precond_slack x t"
    "x_P_batt x t = x_P_batt_discharge x t - x_P_batt_charge x t" "0 \<le> x_P_batt_discharge x t" "0 \<le> x_P_batt_charge x t"
    "2 / 10 \<le> x_SoC_batt x t" "x_SoC_batt x t \<le> 8 / 10"
    "x_P_grid x t = sum_list (map (\<lambda>b. x_P_charge x b t) (vehicles state)) + building_power state ! t +
       building_load_assumption_kw config + x_P_precond x t - P_batt_effective config x t"
    "has_battery config \<Longrightarrow> t \<noteq> 0 \<Longrightarrow>
       x_SoC_batt x t = x_SoC_batt x (t - 1) - x_P_batt x (t - 1) * delta_t config / battery_capacity config"
proof -
  have t: "t \<in> set (steps config)" using assms(2) by simp
  note un = model_constraints_def site_bounds_def charger_con_def battery_con_def precond_con_def grid_con_def satisfies_simps
  show "x_P_grid x t \<le> max_site_power config"
    "sum_list (map (\<lambda>b. x_P_charge x b t) (vehicles state)) \<le> total_charger_power config"
    "sum_list (map (\<lambda>b. x_y_charge x b t) (vehicles state)) \<le> of_int (total_chargers config)"
    "0 \<le> x_P_grid x t" "x_P_grid x t \<le> x_P_peak x" "0 \<le> x_precond_slack x t"
    "required_precond windows t \<le> x_P_precond x t + x_precond_slack x t"
    "x_P_batt x t = x_P_batt_discharge x t - x_P_batt_charge x t" "0 \<le> x_P_batt_discharge x t" "0 \<le> x_P_batt_charge x t"
    "2 / 10 \<le> x_SoC_batt x t" "x_SoC_batt x t \<le> 8 / 10"
    "x_P_grid x t = sum_list (map (\<lambda>b. x_P_charge x b t) (vehicles state)) + building_power state ! t +
       building_load_assumption_kw config + x_P_precond x t - P_batt_effective config x t"
    using assms(1) t unfolding un by blast+
  show "has_battery config \<Longrightarrow> t \<noteq> 0 \<Longrightarrow>
       x_SoC_batt x t = x_SoC_batt x (t - 1) - x_P_batt x (t - 1) * delta_t config / battery_capacity config"
    using assms(1) t unfolding un by simp
qed

lemma plan_start:
  assumes "satisfies (model_constraints state config h windows) x"
  shows "b \<in> set (vehicles state) \<Longrightarrow> \<not> is_incoming state b \<Longrightarrow> x_SoC x b 0 = soc_init state b"
    "has_battery config \<Longrightarrow> x_SoC_batt x 0 = battery_soc state" "current_month_peak state \<le> x_P_peak x" "0 \<le> x_P_peak x"
    "b \<in> set (vehicles state) \<Longrightarrow> map_of (incoming_arrival_timesteps state config h) b = Some (a, s) \<Longrightarrow> x_SoC x b a = s"
    "b \<in> set (vehicles state) \<Longrightarrow> departure_soc_min state config b = Some (t, s) \<Longrightarrow> s \<le> x_SoC x b t"
  using assms by (auto simp: model_constraints_def soc_init_con_def battery_con_def grid_con_def site_bounds_def
      incoming_vehicle_soc_def departure_con_def satisfies_map_filter)

lemma plan_tariff:
  assumes "satisfies (model_constraints state config h windows) x" "energy_cap config = Some (cap, low, high)"
  shows "0 \<le> x_total_kwh_period x" "0 \<le> x_kwh_under x" "0 \<le> x_kwh_over x" "x_kwh_under x \<le> cap"
    "x_total_kwh_period x = cumulative_kwh_period state + horizon_kwh state config x" "x_kwh_under x + x_kwh_over x = x_total_kwh_period x"
  using assms by (simp_all add: model_constraints_def tariff_con_def)

section \<open>Lemmas: energy\<close>

text \<open>The energy a vehicle takes in the steps from \<open>a\<close> to \<open>t\<close>, at the charger, while it is at the depot.\<close>

definition energy_taken :: "DepotState \<Rightarrow> DepotConfig \<Rightarrow> solution \<Rightarrow> string \<Rightarrow> nat \<Rightarrow> nat \<Rightarrow> pyfloat" where
  "energy_taken state config x b a t = (\<Sum>u\<leftarrow>filter (available state b) [a..<t]. x_P_charge x b u * delta_t config)"

lemma energy_taken_Suc:
  "a \<le> t \<Longrightarrow> energy_taken state config x b a (Suc t) =
     energy_taken state config x b a t + (if available state b t then x_P_charge x b t * delta_t config else 0)"
  by (simp add: energy_taken_def)

lemma soc_from:
  assumes plan: "satisfies (model_constraints state config h windows) x" and b: "b \<in> set (vehicles state)"
    and "a \<le> t" "int t < n_timesteps config"
  shows "x_SoC x b t = x_SoC x b a + charger_efficiency config * energy_taken state config x b a t / E_batt config b"
  using assms(3,4)
proof (induction t)
  case 0
  then show ?case by (simp add: energy_taken_def)
next
  case (Suc t)
  show ?case
  proof (cases "a = Suc t")
    case True
    then show ?thesis by (simp add: energy_taken_def)
  next
    case False
    then have t: "a \<le> t" "int t < n_timesteps config" using Suc.prems by auto
    have "x_SoC x b (Suc t) = x_SoC x b t + charger_efficiency config * x_P_charge x b t * delta_t config / E_batt config b"
      using plan_vehicle(8) [OF plan b Suc.prems(2)] by simp
    then show ?thesis
      using Suc.IH [OF t] plan_vehicle(6) [OF plan b t(2)] t(1)
      by (auto simp: energy_taken_Suc add_divide_distrib distrib_left mult.assoc)
  qed
qed

text \<open>From when on the model knows a vehicle's state of charge, and which.\<close>

definition start_soc :: "DepotState \<Rightarrow> DepotConfig \<Rightarrow> dtime \<Rightarrow> string \<Rightarrow> (nat \<times> pyfloat) option" where
  "start_soc state config h b =
     (if is_incoming state b then map_of (incoming_arrival_timesteps state config h) b else Some (0, soc_init state b))"

lemma start_soc_value:
  assumes "satisfies (model_constraints state config h windows) x" "b \<in> set (vehicles state)" "start_soc state config h b = Some (a, s)"
  shows "x_SoC x b a = s"
  using assms plan_start(1,5) [OF assms(1)] by (auto simp: start_soc_def split: if_splits)

lemma departure_in_horizon:
  assumes "rules_raise state config h = None" "b \<in> set (vehicles state)" "departure_soc_min state config b = Some (t, s)"
  shows "int t < n_timesteps config"
  using assms by (auto simp: departure_soc_min_def rules_raise_def split: option.splits if_splits)

text \<open>The battery gives the site no more than its state of charge loses.\<close>

definition battery_given :: "DepotConfig \<Rightarrow> solution \<Rightarrow> nat \<Rightarrow> pyfloat" where
  "battery_given config x t = (\<Sum>u\<leftarrow>[0..<t]. P_batt_effective config x u * delta_t config)"

lemma effective_le:
  assumes "0 < battery_efficiency config" "battery_efficiency config \<le> 1" "0 \<le> x_P_batt_discharge x t" "0 \<le> x_P_batt_charge x t"
  shows "P_batt_effective config x t \<le> x_P_batt_discharge x t - x_P_batt_charge x t"
proof -
  have "x_P_batt_discharge x t * battery_efficiency config \<le> x_P_batt_discharge x t" using assms by (simp add: mult_left_le)
  moreover have "x_P_batt_charge x t \<le> x_P_batt_charge x t / battery_efficiency config"
    using assms by (simp add: pos_le_divide_eq mult_left_le)
  ultimately show ?thesis by (simp add: P_batt_effective_def)
qed

lemma battery_given_le:
  assumes plan: "satisfies (model_constraints state config h windows) x" and batt: "has_battery config"
    and eta: "0 < battery_efficiency config" "battery_efficiency config \<le> 1" and dt: "0 \<le> delta_t config"
    and "int t < n_timesteps config"
  shows "battery_given config x t \<le> (battery_soc state - x_SoC_batt x t) * battery_capacity config"
  using assms(6)
proof (induction t)
  case 0
  then show ?case using plan_start(2) [OF plan batt] by (simp add: battery_given_def)
next
  case (Suc t)
  then have t: "int t < n_timesteps config" by simp
  have cap: "0 < battery_capacity config" using batt by (simp add: has_battery_def)
  have "x_SoC_batt x (Suc t) = x_SoC_batt x t - x_P_batt x t * delta_t config / battery_capacity config"
    using plan_site(14) [OF plan Suc.prems batt] by simp
  then have "(x_SoC_batt x t - x_SoC_batt x (Suc t)) * battery_capacity config = x_P_batt x t * delta_t config" using cap by simp
  moreover have "P_batt_effective config x t * delta_t config \<le> x_P_batt x t * delta_t config"
    using effective_le [OF eta plan_site(9,10) [OF plan t]] plan_site(8) [OF plan t] dt by (simp add: mult_right_mono)
  ultimately show ?case using Suc.IH [OF t] by (simp add: battery_given_def algebra_simps)
qed

section \<open>Lemmas: the chargers in use\<close>

lemma sum_list_distinct: "distinct bs \<Longrightarrow> sum_list (map f bs) = sum f (set bs)"
  by (simp add: sum_list_distinct_conv_sum_set)

lemma charging_count:
  assumes plan: "satisfies (model_constraints state config h windows) x" and "dict_ok (vehicle_socs state)" and t: "int t < n_timesteps config"
  shows "int (card {b \<in> set (vehicles state). 0 < x_P_charge x b t}) \<le> total_chargers config"
proof -
  let ?B = "set (vehicles state)" and ?on = "{b \<in> set (vehicles state). 0 < x_P_charge x b t}"
  have "distinct (vehicles state)" using assms(2) by (simp add: vehicles_def dict_ok_def)
  then have "(\<Sum>b\<in>?B. x_y_charge x b t) \<le> of_int (total_chargers config)"
    using plan_site(3) [OF plan t] by (simp add: sum_list_distinct)
  moreover have "(\<Sum>b\<in>?on. (1 :: pyfloat)) \<le> (\<Sum>b\<in>?B. x_y_charge x b t)"
  proof (rule order_trans [OF sum_mono sum_mono2])
    fix b assume "b \<in> ?on"
    then show "1 \<le> x_y_charge x b t"
      using plan_vehicle(5,7) [OF plan _ t, of b] by auto
  next
    fix b assume "b \<in> ?B - ?on"
    then show "0 \<le> x_y_charge x b t" using plan_vehicle(5) [OF plan _ t, of b] by auto
  qed auto
  ultimately have "(of_nat (card ?on) :: pyfloat) \<le> of_int (total_chargers config)" by simp
  then show ?thesis by (metis of_int_le_iff of_int_of_nat_eq)
qed

section \<open>Lemmas: what the auxiliary variables hide\<close>

lemma satisfies_map_filter_option:
  "satisfies (List.map_filter (\<lambda>b. map_option (\<lambda>(t, s) x. f b t s x) (g b)) as) x \<longleftrightarrow>
     (\<forall>b\<in>set as. \<forall>t s. g b = Some (t, s) \<longrightarrow> f b t s x)"
  by (auto simp: satisfies_map_filter)

lemmas frame_simps = incoming_vehicle_soc_def departure_con_def soc_init_con_def soc_dynamics_def availability_con_def battery_con_def
  precond_con_def grid_con_def tariff_con_def site_bounds_def satisfies_map_filter_option P_batt_effective_def horizon_kwh_def

lemma y_charge_frame:
  "satisfies (soc_init_con state) (x\<lparr>x_y_charge := y\<rparr>) = satisfies (soc_init_con state) x"
  "satisfies (site_bounds config) (x\<lparr>x_y_charge := y\<rparr>) = satisfies (site_bounds config) x"
  "satisfies (incoming_vehicle_soc state config h) (x\<lparr>x_y_charge := y\<rparr>) = satisfies (incoming_vehicle_soc state config h) x"
  "satisfies (soc_dynamics state config) (x\<lparr>x_y_charge := y\<rparr>) = satisfies (soc_dynamics state config) x"
  "satisfies (availability_con state config) (x\<lparr>x_y_charge := y\<rparr>) = satisfies (availability_con state config) x"
  "satisfies (departure_con state config) (x\<lparr>x_y_charge := y\<rparr>) = satisfies (departure_con state config) x"
  "satisfies (battery_con state config) (x\<lparr>x_y_charge := y\<rparr>) = satisfies (battery_con state config) x"
  "satisfies (precond_con config windows) (x\<lparr>x_y_charge := y\<rparr>) = satisfies (precond_con config windows) x"
  "satisfies (grid_con state config) (x\<lparr>x_y_charge := y\<rparr>) = satisfies (grid_con state config) x"
  "satisfies (tariff_con state config) (x\<lparr>x_y_charge := y\<rparr>) = satisfies (tariff_con state config) x"
  "objective state config (x\<lparr>x_y_charge := y\<rparr>) = objective state config x"
  by (simp_all add: frame_simps objective_def split: option.split)

text \<open>Every vehicle at the depot may hold a charger when there are chargers for all.\<close>

definition everyone_on :: "DepotState \<Rightarrow> solution \<Rightarrow> solution" where
  "everyone_on state x = x\<lparr>x_y_charge := \<lambda>b t. if available state b t then 1 else 0\<rparr>"

lemma everyone_on_satisfies:
  assumes plan: "satisfies (model_constraints state config h windows) x" and enough: "int (length (vehicles state)) \<le> total_chargers config"
  shows "satisfies (model_constraints state config h windows @ symmetry_break state config) (everyone_on state x)"
proof -
  let ?x = "everyone_on state x"
  have "satisfies (vehicle_bounds state config) ?x"
    using plan by (simp add: model_constraints_def vehicle_bounds_def everyone_on_def)
  moreover have "satisfies (charger_con state config) ?x"
  proof -
    have "x_P_charge x b t \<le> max_kw config b * (if available state b t then 1 else 0)"
      if "b \<in> set (vehicles state)" "int t < n_timesteps config" for b t
      using plan_vehicle(2,6) [OF plan that] by simp
    moreover have "sum_list (map (\<lambda>b. if available state b t then 1 else 0) (vehicles state)) \<le> (of_int (total_chargers config) :: pyfloat)" for t
    proof -
      have "sum_list (map (\<lambda>b. if available state b t then 1 else (0 :: pyfloat)) bs) \<le> of_nat (length bs)" for bs :: "string list"
        by (induction bs) auto
      from this [of "vehicles state"] enough show ?thesis
        by (metis (mono_tags, lifting) of_int_le_iff of_int_of_nat_eq order_trans)
    qed
    ultimately show ?thesis using plan by (simp add: charger_con_def everyone_on_def model_constraints_def)
  qed
  moreover have "satisfies (symmetry_break state config) ?x"
    by (auto simp: symmetry_break_def Let_def everyone_on_def)
  ultimately show ?thesis
    using plan by (simp add: model_constraints_def everyone_on_def y_charge_frame)
qed

lemma symmetry_break_empty:
  "\<not> (1 < length (vehicles state) \<and> int (length (vehicles state)) \<le> total_chargers config) \<Longrightarrow> symmetry_break state config = []"
  by (auto simp: symmetry_break_def Let_def)

text \<open>The cost of a plan, without the variables that only measure it.\<close>

definition tiered :: "pyfloat \<times> pyfloat \<times> pyfloat \<Rightarrow> pyfloat \<Rightarrow> pyfloat" where
  "tiered p kwh = (case p of (cap, low, high) \<Rightarrow> low * min kwh cap + high * max 0 (kwh - cap))"

definition plan_peak :: "DepotState \<Rightarrow> DepotConfig \<Rightarrow> solution \<Rightarrow> pyfloat" where
  "plan_peak state config x = fold max (map (x_P_grid x) (steps config)) (max 0 (current_month_peak state))"

definition shortfall :: "(int \<times> int \<times> pyfloat) list \<Rightarrow> solution \<Rightarrow> nat \<Rightarrow> pyfloat" where
  "shortfall windows x t = max 0 (required_precond windows t - x_P_precond x t)"

definition plan_cost :: "DepotState \<Rightarrow> DepotConfig \<Rightarrow> (int \<times> int \<times> pyfloat) list \<Rightarrow> solution \<Rightarrow> pyfloat" where
  "plan_cost state config windows x =
     (\<Sum>t\<leftarrow>steps config. prices state ! t * x_P_grid x t * delta_t config) +
     (case energy_cap config of
        Some p \<Rightarrow> tiered p (cumulative_kwh_period state + horizon_kwh state config x) - tiered p (cumulative_kwh_period state)
      | None \<Rightarrow> demand_charge_rate state * plan_peak state config x) +
     M_PRECOND * (\<Sum>t\<leftarrow>steps config. shortfall windows x t)"

definition sensible_tariff :: "DepotState \<Rightarrow> DepotConfig \<Rightarrow> bool" where
  "sensible_tariff state config \<longleftrightarrow>
     (case energy_cap config of Some (cap, low, high) \<Rightarrow> low \<le> high | None \<Rightarrow> 0 \<le> demand_charge_rate state)"

lemma fold_max_le: "fold max ys a \<le> z \<longleftrightarrow> a \<le> z \<and> (\<forall>y\<in>set ys. y \<le> z)" for a z :: pyfloat
  by (induction ys arbitrary: a) auto

lemma plan_peak_le: "plan_peak state config x \<le> z \<longleftrightarrow> 0 \<le> z \<and> current_month_peak state \<le> z \<and> (\<forall>t. int t < n_timesteps config \<longrightarrow> x_P_grid x t \<le> z)"
  by (auto simp: plan_peak_def fold_max_le)

lemma tiered_least:
  assumes "low \<le> high" "k + e = kwh" "0 \<le> e" "k \<le> cap"
  shows "tiered (cap, low, high) kwh \<le> low * k + high * e"
proof -
  have "low * kwh + (high - low) * max 0 (kwh - cap) \<le> low * kwh + (high - low) * e"
    using assms by (intro add_left_mono mult_left_mono) auto
  moreover have "low * kwh + (high - low) * max 0 (kwh - cap) = tiered (cap, low, high) kwh"
    by (cases "kwh \<le> cap") (simp_all add: tiered_def algebra_simps)
  moreover have "low * kwh + (high - low) * e = low * k + high * e" using assms(2) by (auto simp: algebra_simps)
  ultimately show ?thesis by simp
qed

lemma objective_bound:
  assumes plan: "satisfies (model_constraints state config h windows) x" and "sensible_tariff state config"
  shows "plan_cost state config windows x \<le> objective state config x"
proof -
  have "(\<Sum>t\<leftarrow>steps config. shortfall windows x t) \<le> (\<Sum>t\<leftarrow>steps config. x_precond_slack x t)"
    using plan_site(6,7) [OF plan] by (intro sum_list_mono) (auto simp: shortfall_def algebra_simps)
  moreover have "(case energy_cap config of
        Some p \<Rightarrow> tiered p (cumulative_kwh_period state + horizon_kwh state config x) - tiered p (cumulative_kwh_period state)
      | None \<Rightarrow> demand_charge_rate state * plan_peak state config x) \<le>
     (case energy_cap config of
        Some (cap, low, high) \<Rightarrow> low * x_kwh_under x + high * x_kwh_over x - fixed_energy_cap_cost state (cap, low, high)
      | None \<Rightarrow> demand_charge_rate state * x_P_peak x)"
  proof (cases "energy_cap config")
    case None
    have "plan_peak state config x \<le> x_P_peak x"
      using plan_start(3,4) [OF plan] plan_site(5) [OF plan] by (auto simp: plan_peak_le)
    then show ?thesis using None assms(2) by (simp add: sensible_tariff_def mult_left_mono)
  next
    case (Some p)
    obtain cap low high where p: "p = (cap, low, high)" by (cases p)
    note t = plan_tariff [OF plan Some [unfolded p]]
    have "low \<le> high" using assms(2) Some p by (simp add: sensible_tariff_def)
    from tiered_least [OF this t(6) t(3,4)] show ?thesis using Some p t(5)
      by (simp add: fixed_energy_cap_cost_def tiered_def)
  qed
  ultimately show ?thesis by (simp add: plan_cost_def objective_def M_PRECOND_def)
qed

text \<open>The measuring variables at their least.\<close>

definition measured :: "DepotState \<Rightarrow> DepotConfig \<Rightarrow> (int \<times> int \<times> pyfloat) list \<Rightarrow> solution \<Rightarrow> solution" where
  "measured state config windows x =
     (let kwh = cumulative_kwh_period state + horizon_kwh state config x; cap = (case energy_cap config of None \<Rightarrow> 0 | Some p \<Rightarrow> fst p)
      in x\<lparr>x_P_peak := plan_peak state config x, x_precond_slack := shortfall windows x,
           x_kwh_under := min kwh cap, x_kwh_over := max 0 (kwh - cap)\<rparr>)"

lemma measured_fields [simp]:
  "x_P_charge (measured state config windows x) = x_P_charge x" "x_SoC (measured state config windows x) = x_SoC x"
  "x_y_charge (measured state config windows x) = x_y_charge x" "x_P_grid (measured state config windows x) = x_P_grid x"
  "x_P_batt (measured state config windows x) = x_P_batt x" "x_SoC_batt (measured state config windows x) = x_SoC_batt x"
  "x_P_batt_discharge (measured state config windows x) = x_P_batt_discharge x"
  "x_P_batt_charge (measured state config windows x) = x_P_batt_charge x" "x_P_precond (measured state config windows x) = x_P_precond x"
  "x_precond_slack (measured state config windows x) = shortfall windows x"
  "x_P_peak (measured state config windows x) = plan_peak state config x"
  "x_total_kwh_period (measured state config windows x) = x_total_kwh_period x"
  by (simp_all add: measured_def Let_def)

lemma measured_frame:
  "satisfies (vehicle_bounds state config) (measured state config windows x) = satisfies (vehicle_bounds state config) x"
  "satisfies (soc_init_con state) (measured state config windows x) = satisfies (soc_init_con state) x"
  "satisfies (incoming_vehicle_soc state config h) (measured state config windows x) = satisfies (incoming_vehicle_soc state config h) x"
  "satisfies (soc_dynamics state config) (measured state config windows x) = satisfies (soc_dynamics state config) x"
  "satisfies (availability_con state config) (measured state config windows x) = satisfies (availability_con state config) x"
  "satisfies (departure_con state config) (measured state config windows x) = satisfies (departure_con state config) x"
  "satisfies (charger_con state config) (measured state config windows x) = satisfies (charger_con state config) x"
  "satisfies (battery_con state config) (measured state config windows x) = satisfies (battery_con state config) x"
  by (simp_all add: frame_simps vehicle_bounds_def charger_con_def)

lemma measured_satisfies:
  assumes plan: "satisfies (model_constraints state config h windows) x"
  shows "satisfies (model_constraints state config h windows) (measured state config windows x)"
proof -
  let ?x = "measured state config windows x"
  have peak: "0 \<le> plan_peak state config x" "current_month_peak state \<le> plan_peak state config x"
    "int t < n_timesteps config \<Longrightarrow> x_P_grid x t \<le> plan_peak state config x" for t
    using plan_peak_le [of state config x "plan_peak state config x"] by auto
  have "satisfies (tariff_con state config) ?x"
  proof (cases "energy_cap config")
    case (Some p)
    obtain cap low high where p: "p = (cap, low, high)" by (cases p)
    note t = plan_tariff [OF plan Some [unfolded p]]
    show ?thesis using t Some p by (auto simp: tariff_con_def measured_def Let_def horizon_kwh_def)
  qed (simp add: tariff_con_def)
  moreover have "satisfies (precond_con config windows) ?x" by (auto simp: precond_con_def shortfall_def)
  moreover have "satisfies (site_bounds config) ?x"
    using plan peak(1) by (auto simp: model_constraints_def site_bounds_def shortfall_def)
  moreover have "satisfies (grid_con state config) ?x"
    using plan peak(2,3) by (auto simp: model_constraints_def grid_con_def P_batt_effective_def)
  ultimately show ?thesis using plan by (simp add: model_constraints_def measured_frame)
qed

lemma measured_objective: "objective state config (measured state config windows x) = plan_cost state config windows x"
proof (cases "energy_cap config")
  case (Some p)
  obtain cap low high where "p = (cap, low, high)" by (cases p)
  with Some show ?thesis
    by (simp add: objective_def plan_cost_def measured_def Let_def tiered_def fixed_energy_cap_cost_def)
qed (simp add: objective_def plan_cost_def)

lemma symmetry_break_measured:
  "satisfies (symmetry_break state config) (measured state config windows x) \<longleftrightarrow> satisfies (symmetry_break state config) x"
  by (simp add: symmetry_break_def Let_def case_prod_unfold)

section \<open>Lemmas: warm start\<close>

lemma warm_start_frame [simp]:
  "mm_constraints (warm_start_model m p state config) = mm_constraints m" "mm_fixed (warm_start_model m p state config) = mm_fixed m"
  "mm_B (warm_start_model m p state config) = mm_B m" "mm_T (warm_start_model m p state config) = mm_T m"
  "mm_objective (warm_start_model m p state config) = mm_objective m"
  by (simp_all add: warm_start_model_def Let_def)

lemma extract_warm_start [simp]: "extract_schedule (warm_start_model m p state config) x = extract_schedule m x"
  by (simp add: extract_schedule_def)

lemma optimize_result:
  assumes "optimize gurobi highs run_id h state config previous = Inr r"
  obtains m sv where "build_optimization_model state config h = Inr m" "solve_model gurobi highs = Inr sv"
    "validate_solution state config (mm_B m) (sv_values sv) = None" "or_schedule r = extract_schedule m (sv_values sv)" "or_status r = ''completed''"
  using assms by (auto simp: optimize_def Let_def split: sum.splits option.splits)

text \<open>Whatever a solver delivers, a result of \<open>optimize\<close> meets every departure.\<close>

lemma departures_met:
  assumes "optimize gurobi highs run_id h state config previous = Inr r" and "b \<in> set (vehicles state)"
    and "departure_soc_min state config b = Some (t, need)"
  shows "\<exists>vs socs. map_of (or_schedule r) b = Some vs \<and> vs_soc vs = Some socs \<and> t < length socs \<and> need \<le> socs ! t"
proof -
  obtain m and sv :: solve_result where m: "build_optimization_model state config h = Inr m"
    and v: "validate_solution state config (mm_B m) (sv_values sv) = None" and r: "or_schedule r = extract_schedule m (sv_values sv)"
    by (rule optimize_result [OF assms(1)]) blast
  have B: "mm_B m = vehicles state" "mm_T m = steps config" by (rule built [OF m], simp)+
  have t: "int t < n_timesteps config" by (rule departure_in_horizon [OF built_valid(2) [OF m] assms(2,3)])
  have "\<not> x_SoC (sv_values sv) b t < need"
    using v assms(2,3) by (auto simp: validate_solution_def B find_None_iff split: option.splits)
  moreover have "map_of (extract_schedule m (sv_values sv)) b =
      Some \<lparr>vs_charging_power = Some (map (x_P_charge (sv_values sv) b) (mm_T m)), vs_soc = Some (map (x_SoC (sv_values sv) b) (mm_T m))\<rparr>"
    using assms(2) by (simp add: extract_schedule_def B map_of_map_restrict)
  moreover have "map (x_SoC (sv_values sv) b) (mm_T m) ! t = x_SoC (sv_values sv) b t" "t < length (mm_T m)"
    using t by (simp_all add: B steps_def nat_less_iff)
  ultimately show ?thesis using r by (intro exI [of _ "map (x_SoC (sv_values sv) b) (mm_T m)"] exI conjI) auto
qed

lemma warm_start_P_charge:
  assumes "b \<in> set (vehicles state)" "t \<in> set (mm_T m)" "map_of (or_schedule p) b = Some vs"
  shows "v_P_charge (mm_values (warm_start_model m p state config)) b t = Some (warm_P_charge vs t)"
  using assms by (simp add: warm_start_model_def Let_def)

section \<open>Properties\<close>

text \<open>C2: The depot's limits hold in every step of every feasible plan: the grid draw stays within the site's
  power, the chargers' total power and their number suffice for the vehicles that charge, no vehicle
  charges beyond its maximum, and none charges while it is away.\<close>
theorem plan_within_limits:
  assumes "build_optimization_model state config h = Inr m" and "feasible m x" and "dict_ok (vehicle_socs state)"
    and "int t < n_timesteps config"
  shows "x_P_grid x t \<le> max_site_power config \<and>
    (\<Sum>b\<leftarrow>vehicles state. x_P_charge x b t) \<le> total_charger_power config \<and>
    int (card {b \<in> set (vehicles state). 0 < x_P_charge x b t}) \<le> total_chargers config \<and>
    list_all (\<lambda>b. 0 \<le> x_P_charge x b t \<and> x_P_charge x b t \<le> (if available state b t then max_kw config b else 0)) (vehicles state)"
proof -
  obtain windows where plan: "satisfies (model_constraints state config h windows) x" by (rule feasible_constraints [OF assms(1,2)])
  show ?thesis
    using plan_site(1,2) [OF plan assms(4)] charging_count [OF plan assms(3,4)] plan_vehicle(1,2,6) [OF plan _ assms(4)]
    by (auto simp: list_all_iff)
qed

text \<open>C3: A vehicle leaves charged: in every feasible plan, a vehicle whose state of charge the model knows at some
  step before its departure takes, while it is at the depot between the two, at least the energy that
  brings it to its required state of charge, at the chargers' efficiency.\<close>
theorem departure_energy:
  assumes "build_optimization_model state config h = Inr m" and "feasible m x" and "b \<in> set (vehicles state)"
    and "0 < E_batt config b" and "start_soc state config h b = Some (a, soc)"
    and "departure_soc_min state config b = Some (t, need)" and "a \<le> t"
  shows "(need - soc) * E_batt config b \<le> charger_efficiency config * energy_taken state config x b a t"
proof -
  obtain windows where plan: "satisfies (model_constraints state config h windows) x" by (rule feasible_constraints [OF assms(1,2)])
  have t: "int t < n_timesteps config" by (rule departure_in_horizon [OF built_valid(2) [OF assms(1)] assms(3,6)])
  have "need \<le> soc + charger_efficiency config * energy_taken state config x b a t / E_batt config b"
    using plan_start(6) [OF plan assms(3,6)] soc_from [OF plan assms(3,7) t] start_soc_value [OF plan assms(3,5)] by simp
  then show ?thesis using assms(4) by (simp add: field_simps)
qed

text \<open>The symmetry-breaking constraints cost nothing: every solution of the model without them becomes one of
  the whole model by changing charging flags only, so every power plan stays available at its price.\<close>
theorem symmetry_break_sound:
  assumes "build_optimization_model state config h = Inr m"
    and "traverse (precond_window config h) (preconditioning_requests state) = Inr windows"
    and "satisfies (model_constraints state config h windows) x" and "fixed_ok m x"
  shows "\<exists>y. feasible m (x\<lparr>x_y_charge := y\<rparr>) \<and> mm_objective m (x\<lparr>x_y_charge := y\<rparr>) = mm_objective m x"
proof (rule built [OF assms(1)])
  fix ws
  assume ws: "traverse (precond_window config h) (preconditioning_requests state) = Inr ws"
    and m: "mm_constraints m = model_constraints state config h ws @ symmetry_break state config" "mm_objective m = objective state config"
      "mm_fixed m = vehicles_on_route state" "mm_values m = initial_values state"
  have [simp]: "ws = windows" using ws assms(2) by simp
  show ?thesis
  proof (cases "1 < length (vehicles state) \<and> int (length (vehicles state)) \<le> total_chargers config")
    case True
    have "fixed_ok m (everyone_on state x)"
      using assms(4) by (auto simp: fixed_ok_def m list_all_iff everyone_on_def initial_values_def vehicles_on_route_def Let_def)
    then have "feasible m (everyone_on state x)" using everyone_on_satisfies [OF assms(3)] True m by (simp add: feasible_def)
    then show ?thesis unfolding everyone_on_def by (intro exI conjI) (simp_all add: m y_charge_frame)
  next
    case False
    then have "feasible m x" using assms(3,4) m by (simp add: feasible_def symmetry_break_empty)
    then show ?thesis by (intro exI [of _ "x_y_charge x"]) simp
  qed
qed

text \<open>C10: The objective is the cost: for a tariff whose rates make sense, no feasible solution has an objective
  below the cost of its plan (energy at the prices, the demand charge on the true peak or the tiered price
  of the period's energy beyond what is already consumed, and the penalty on the true shortfall of
  preconditioning), and with the measuring variables at their least the same plan is feasible at exactly
  that cost. So an optimal solution is a plan of least cost.\<close>
theorem objective_is_plan_cost:
  assumes "build_optimization_model state config h = Inr m" and "feasible m x" and "sensible_tariff state config"
    and "traverse (precond_window config h) (preconditioning_requests state) = Inr windows"
  shows "plan_cost state config windows x \<le> mm_objective m x \<and>
    (\<exists>peak slack low high. let x' = x\<lparr>x_P_peak := peak, x_precond_slack := slack, x_kwh_under := low, x_kwh_over := high\<rparr>
      in feasible m x' \<and> mm_objective m x' = plan_cost state config windows x)"
proof (rule built [OF assms(1)])
  fix ws
  assume ws: "traverse (precond_window config h) (preconditioning_requests state) = Inr ws"
    and m: "mm_constraints m = model_constraints state config h ws @ symmetry_break state config" "mm_objective m = objective state config"
      "mm_fixed m = vehicles_on_route state" "mm_values m = initial_values state"
  have [simp]: "ws = windows" using ws assms(4) by simp
  have plan: "satisfies (model_constraints state config h windows) x" "satisfies (symmetry_break state config) x" "fixed_ok m x"
    using assms(2) m by (auto simp: feasible_def)
  have "feasible m (measured state config windows x)"
    using measured_satisfies [OF plan(1)] plan(2,3) by (simp add: feasible_def m symmetry_break_measured fixed_ok_def)
  then have "feasible m (measured state config windows x) \<and> mm_objective m (measured state config windows x) = plan_cost state config windows x"
    by (simp add: m measured_objective)
  then show ?thesis
    using objective_bound [OF plan(1) assms(3)] unfolding measured_def Let_def m(2) by blast
qed

text \<open>The stationary battery is no source: with an efficiency of at most one, what it has given the site over
  the first steps of a feasible plan is at most the energy its state of charge has lost since the start.\<close>
theorem battery_conserves:
  assumes "build_optimization_model state config h = Inr m" and "feasible m x" and "has_battery config"
    and "0 < battery_efficiency config" and "battery_efficiency config \<le> 1" and "0 \<le> delta_t config" and "int t < n_timesteps config"
  shows "battery_given config x t \<le> (battery_soc state - x_SoC_batt x t) * battery_capacity config \<and>
    battery_given config x t \<le> (battery_soc state - 2 / 10) * battery_capacity config"
proof -
  obtain windows where plan: "satisfies (model_constraints state config h windows) x" by (rule feasible_constraints [OF assms(1,2)])
  have "(battery_soc state - x_SoC_batt x t) * battery_capacity config \<le> (battery_soc state - 2 / 10) * battery_capacity config"
    using plan_site(11) [OF plan assms(7)] assms(3) by (intro mult_right_mono) (auto simp: has_battery_def)
  then show ?thesis using battery_given_le [OF plan assms(3-7)] by simp
qed

text \<open>One low measurement stops the whole depot: when a vehicle at the depot reports less than ten percent, or the
  battery storage a state of charge outside of twenty to eighty percent, no plan is feasible for anyone.\<close>
theorem low_soc_infeasible:
  assumes "build_optimization_model state config h = Inr m"
    and "b \<in> set (vehicles state) \<and> \<not> is_incoming state b \<and> soc_init state b < 1 / 10 \<or>
         has_battery config \<and> \<not> (2 / 10 \<le> battery_soc state \<and> battery_soc state \<le> 8 / 10)"
  shows "\<not> feasible m x"
proof
  assume "feasible m x"
  then obtain windows where plan: "satisfies (model_constraints state config h windows) x" by (rule feasible_constraints [OF assms(1)])
  have zero: "int 0 < n_timesteps config" by (rule built_steps [OF assms(1)])
  show False
    using assms(2) plan_vehicle(3) [OF plan _ zero, of b] plan_start(1,2) [OF plan] plan_site(11,12) [OF plan zero] by auto
qed

text \<open>A warm start can make the model infeasible: the charging variable of a vehicle that is away at the first step
  is fixed, and the warm start overwrites the value it is fixed at with the power of the previous schedule.
  If that was positive, no solution is left.\<close>
theorem warm_start_infeasible:
  assumes "build_optimization_model state config h = Inr m" and "b \<in> set (vehicles state)" and "\<not> available state b 0"
    and "map_of (or_schedule previous) b = Some vs" and "warm_P_charge vs 0 \<noteq> 0"
  shows "\<not> feasible (warm_start_model m previous state config) x"
proof (rule built [OF assms(1)], rule notI)
  fix windows
  assume m: "mm_constraints m = model_constraints state config h windows @ symmetry_break state config" "mm_T m = steps config"
    "mm_fixed m = vehicles_on_route state" and f: "feasible (warm_start_model m previous state config) x"
  have zero: "int 0 < n_timesteps config" by (rule built_steps [OF assms(1)])
  have "x_P_charge x b 0 = warm_P_charge vs 0"
    using f assms(2,3) warm_start_P_charge [OF assms(2) _ assms(4), of 0 m] zero m
    by (auto simp: feasible_def fixed_ok_def list_all_iff vehicles_on_route_def)
  moreover have "x_P_charge x b 0 = 0"
    using f assms(2,3) m by (intro plan_vehicle(6) [OF _ _ zero]) (auto simp: feasible_def)
  ultimately show False using assms(5) by simp
qed

section \<open>Witnesses\<close>

text \<open>A depot with one vehicle at ninety percent that leaves after a quarter of an hour with ninety-five, and a battery.\<close>

definition demo_state :: DepotState where
  "demo_state = base_state\<lparr>vehicle_socs := [(''v'', 9 / 10)], battery_soc := 1 / 2, prices := [1, 2], demand_charge_rate := 10,
     current_month_peak := 5, vehicle_availability := [(''v'', [True, True])], departure_times := [(''v'', 1)], building_power := [3, 3],
     vehicle_departure_soc_min := [(''v'', 95 / 100)]\<rparr>"

definition demo_config :: DepotConfig where
  "demo_config = base_config\<lparr>vehicle_capacities := [(''v'', 100)], charger_groups := [(50, 1)], charger_efficiency := 1,
     battery_capacity := 100, battery_power := 50, n_timesteps := 2\<rparr>"

definition demo_x :: solution where
  "demo_x = \<lparr>x_P_charge = (\<lambda>b t. if t = 0 then 20 else 0), x_SoC = (\<lambda>b t. if t = 0 then 9 / 10 else 95 / 100),
     x_y_charge = (\<lambda>b t. if t = 0 then 1 else 0), x_P_grid = (\<lambda>t. if t = 0 then 23 else 3), x_P_peak = 23, x_P_batt = (\<lambda>t. 0),
     x_SoC_batt = (\<lambda>t. 1 / 2), x_P_batt_discharge = (\<lambda>t. 0), x_P_batt_charge = (\<lambda>t. 0), x_P_precond = (\<lambda>t. 0), x_precond_slack = (\<lambda>t. 0),
     x_total_kwh_period = 0, x_kwh_under = 0, x_kwh_over = 0\<rparr>"

definition demo_model :: milp_model where
  "demo_model = \<lparr>mm_B = vehicles demo_state, mm_T = steps demo_config,
     mm_constraints = model_constraints demo_state demo_config 0 [] @ symmetry_break demo_state demo_config,
     mm_objective = objective demo_state demo_config, mm_fixed = vehicles_on_route demo_state, mm_values = initial_values demo_state\<rparr>"

lemma demo_built: "build_optimization_model demo_state demo_config 0 = Inr demo_model"
  by (simp add: build_optimization_model_def demo_model_def validate_inputs_def rules_raise_def demo_state_def demo_config_def base_state_def
      base_config_def vehicles_def is_incoming_def E_batt_def)

lemma demo_steps: "steps demo_config = [0, 1]"
  by (simp add: steps_def demo_config_def base_config_def upt_rec)

lemma demo_vehicles: "vehicles demo_state = [''v'']"
  by (simp add: vehicles_def demo_state_def)

lemma demo_plan: "satisfies (model_constraints demo_state demo_config 0 []) demo_x"
  by (simp add: model_constraints_def test_defs demo_steps demo_vehicles satisfies_map_filter_option)
    (simp add: demo_state_def demo_config_def demo_x_def base_state_def base_config_def soc_bounds_def max_kw_def batt_power_def has_battery_def
      is_incoming_def soc_init_def incoming_arrival_timesteps_def E_batt_def departure_soc_min_def departure_soc_max_def total_chargers_def
      total_charger_power_def required_precond_def P_batt_effective_def energy_cap_def available_def)

lemma demo_feasible: "feasible demo_model demo_x"
proof -
  have "vehicles_on_route demo_state = []" by (simp add: vehicles_on_route_def demo_vehicles) (simp add: demo_state_def available_def)
  then show ?thesis using demo_plan by (simp add: feasible_def demo_model_def fixed_ok_def symmetry_break_empty demo_vehicles)
qed

theorem plan_within_limits_witness:
  "x_P_grid demo_x 0 \<le> max_site_power demo_config \<and> int (card {b \<in> set (vehicles demo_state). 0 < x_P_charge demo_x b 0}) \<le> total_chargers demo_config"
  using plan_within_limits [OF demo_built demo_feasible, of 0] by (simp add: demo_state_def demo_config_def base_config_def dict_ok_def)

theorem departure_energy_witness:
  "(95 / 100 - 9 / 10) * E_batt demo_config ''v'' \<le> charger_efficiency demo_config * energy_taken demo_state demo_config demo_x ''v'' 0 1"
  by (rule departure_energy [OF demo_built demo_feasible])
    (simp_all add: vehicles_def start_soc_def is_incoming_def soc_init_def departure_soc_min_def E_batt_def demo_state_def demo_config_def
      base_state_def base_config_def)

theorem symmetry_break_sound_witness:
  "\<exists>y. feasible demo_model (demo_x\<lparr>x_y_charge := y\<rparr>) \<and> mm_objective demo_model (demo_x\<lparr>x_y_charge := y\<rparr>) = mm_objective demo_model demo_x"
  by (rule symmetry_break_sound [OF demo_built _ demo_plan])
    (use demo_feasible in \<open>simp_all add: feasible_def demo_state_def base_state_def\<close>)

theorem objective_is_plan_cost_witness: "plan_cost demo_state demo_config [] demo_x \<le> mm_objective demo_model demo_x"
  by (rule objective_is_plan_cost [OF demo_built demo_feasible, THEN conjunct1])
    (simp_all add: sensible_tariff_def energy_cap_def demo_state_def demo_config_def base_state_def base_config_def)

theorem battery_conserves_witness: "battery_given demo_config demo_x 1 \<le> (battery_soc demo_state - 2 / 10) * battery_capacity demo_config"
  by (rule battery_conserves [OF demo_built demo_feasible, THEN conjunct2])
    (simp_all add: has_battery_def demo_config_def base_config_def)

definition demo_run :: solver_run where
  "demo_run = \<lparr>sr_termination = Optimal, sr_values = Some demo_x, sr_time = 1\<rparr>"

lemma demo_departure: "departure_soc_min demo_state demo_config ''v'' = Some (1, 95 / 100)"
  by (simp add: departure_soc_min_def demo_state_def demo_config_def)

lemma demo_optimized: "\<exists>r. optimize None (Some demo_run) ''id'' 0 demo_state demo_config None = Inr r"
  by (simp add: optimize_def demo_built solve_model_def demo_run_def validate_solution_def demo_model_def demo_vehicles demo_departure)
    (simp add: demo_x_def)

definition low_state :: DepotState where
  "low_state = demo_state\<lparr>vehicle_socs := [(''v'', 9 / 100)]\<rparr>"

lemma low_built: "\<exists>m. build_optimization_model low_state demo_config 0 = Inr m"
  by (simp add: build_optimization_model_def validate_inputs_def rules_raise_def low_state_def demo_state_def demo_config_def base_state_def
      base_config_def vehicles_def is_incoming_def E_batt_def)

theorem low_soc_infeasible_witness: "\<exists>m. build_optimization_model low_state demo_config 0 = Inr m \<and> \<not> feasible m demo_x"
proof -
  obtain m where m: "build_optimization_model low_state demo_config 0 = Inr m" using low_built by blast
  from low_soc_infeasible [OF m, of "''v''"] show ?thesis
    using m by (auto simp: low_state_def demo_state_def base_state_def vehicles_def is_incoming_def soc_init_def)
qed

definition away_state :: DepotState where
  "away_state = demo_state\<lparr>vehicle_availability := [(''v'', [False, True])]\<rparr>"

definition demo_previous :: OptimizationResult where
  "demo_previous = \<lparr>or_run_id = [], or_schedule = [(''v'', \<lparr>vs_charging_power = Some [20, 0], vs_soc = None\<rparr>)], or_battery_dispatch = [],
     or_grid_power = [], or_peak_demand_kw = 0, or_objective_value = 0, or_solve_time_s = 0, or_status = [], or_solver_used = []\<rparr>"

lemma away_built: "\<exists>m. build_optimization_model away_state demo_config 0 = Inr m"
  by (simp add: build_optimization_model_def validate_inputs_def rules_raise_def away_state_def demo_state_def demo_config_def base_state_def
      base_config_def vehicles_def is_incoming_def E_batt_def)

theorem warm_start_infeasible_witness:
  "\<exists>m. build_optimization_model away_state demo_config 0 = Inr m \<and> \<not> feasible (warm_start_model m demo_previous away_state demo_config) demo_x"
proof -
  obtain m where m: "build_optimization_model away_state demo_config 0 = Inr m" using away_built by blast
  have "\<not> feasible (warm_start_model m demo_previous away_state demo_config) demo_x"
    by (rule warm_start_infeasible [OF m, where b = "''v''" and vs = "\<lparr>vs_charging_power = Some [20, 0], vs_soc = None\<rparr>"])
      (simp_all add: away_state_def demo_state_def vehicles_def available_def demo_previous_def warm_P_charge_def nth_opt_def)
  with m show ?thesis by blast
qed

end
