(* ===== verification/Electricity_Prices.thy ===== *)
theory Electricity_Prices
  imports Session_Cost
begin

text \<open>
  Day-ahead electricity prices: the bidding zones (\<open>src/src/adapters/entsoe/mappings.py\<close>), the adapter of the
  ENTSO-E platform (\<open>src/src/adapters/entsoe/prices.py\<close>) and the queries on the table
  \<open>electricity_prices\<close> (\<open>src/src/db/queries.py\<close>). An XML document is the tree its parser delivers; the parser,
  the reading of a number or a date from text, and the platform's answer to a request are arguments.
  Times are UTC instants. The table has the unique index of its migration: one row for a time, a node
  and a market.
\<close>

section \<open>Model: bidding zones\<close>

definition COUNTRY_TO_BIDDING_ZONE :: "(string, string) pydict" where
  "COUNTRY_TO_BIDDING_ZONE =
     [(''AL'', ''10YAL-KESH-----5''), (''AT'', ''10YAT-APG------L''), (''BE'', ''10YBE----------2''), (''BA'', ''10YBA-JPCC-----D''),
      (''BG'', ''10YCA-BULGARIA-R''), (''HR'', ''10YHR-HEP------M''), (''CZ'', ''10YCZ-CEPS-----N''), (''DK'', ''10YDK-1--------W''),
      (''EE'', ''10Y1001A1001A39I''), (''FI'', ''10YFI-1--------U''), (''FR'', ''10YFR-RTE------C''), (''DE'', ''10Y1001A1001A82H''),
      (''GB'', ''10YGB----------A''), (''GR'', ''10YGR-HTSO-----Y''), (''HU'', ''10YHU-MAVIR----U''), (''IE'', ''10Y1001A1001A59C''),
      (''IT'', ''10Y1001A1001A73I''), (''LV'', ''10YLV-1001A00074''), (''LT'', ''10YLT-1001A0008Q''), (''LU'', ''10YLU-CEGEDEL-NQ''),
      (''MT'', ''10Y1001A1001A93C''), (''ME'', ''10YCS-CG-TSO---S''), (''NL'', ''10YNL----------L''), (''MK'', ''10YMK-MEPSO----8''),
      (''NO'', ''10YNO-1--------2''), (''PL'', ''10YPL-AREA-----S''), (''PT'', ''10YPT-REN------W''), (''RO'', ''10YRO-TEL------P''),
      (''RS'', ''10YCS-SERBIATSOV''), (''SK'', ''10YSK-SEPS-----K''), (''SI'', ''10YSI-ELES-----O''), (''ES'', ''10YES-REE------0''),
      (''SE'', ''10Y1001A1001A46L''), (''CH'', ''10YCH-SWISSGRIDZ'')]"

definition TIMEZONE_TO_COUNTRY :: "(string, string) pydict" where
  "TIMEZONE_TO_COUNTRY =
     [(''Europe/Tirane'', ''AL''), (''Europe/Vienna'', ''AT''), (''Europe/Brussels'', ''BE''), (''Europe/Sarajevo'', ''BA''),
      (''Europe/Sofia'', ''BG''), (''Europe/Zagreb'', ''HR''), (''Europe/Prague'', ''CZ''), (''Europe/Copenhagen'', ''DK''),
      (''Europe/Tallinn'', ''EE''), (''Europe/Helsinki'', ''FI''), (''Europe/Paris'', ''FR''), (''Europe/Berlin'', ''DE''),
      (''Europe/London'', ''GB''), (''Europe/Athens'', ''GR''), (''Europe/Budapest'', ''HU''), (''Europe/Dublin'', ''IE''),
      (''Europe/Rome'', ''IT''), (''Europe/Milan'', ''IT''), (''Europe/Riga'', ''LV''), (''Europe/Vilnius'', ''LT''),
      (''Europe/Luxembourg'', ''LU''), (''Europe/Malta'', ''MT''), (''Europe/Podgorica'', ''ME''), (''Europe/Amsterdam'', ''NL''),
      (''Europe/Skopje'', ''MK''), (''Europe/Oslo'', ''NO''), (''Europe/Warsaw'', ''PL''), (''Europe/Lisbon'', ''PT''),
      (''Europe/Bucharest'', ''RO''), (''Europe/Belgrade'', ''RS''), (''Europe/Bratislava'', ''SK''), (''Europe/Ljubljana'', ''SI''),
      (''Europe/Madrid'', ''ES''), (''Europe/Stockholm'', ''SE''), (''Europe/Zurich'', ''CH''), (''Europe/Munich'', ''DE''),
      (''Europe/Frankfurt'', ''DE''), (''Europe/Hamburg'', ''DE''), (''Europe/Dusseldorf'', ''DE''), (''Europe/Cologne'', ''DE''),
      (''Europe/Marseille'', ''FR''), (''Europe/Lyon'', ''FR''), (''Europe/Barcelona'', ''ES'')]"

definition TIMEZONE_TO_BIDDING_ZONE :: "(string, string) pydict" where
  "TIMEZONE_TO_BIDDING_ZONE =
     List.map_filter (\<lambda>(tz, cc). map_option (Pair tz) (map_of COUNTRY_TO_BIDDING_ZONE cc)) TIMEZONE_TO_COUNTRY"

definition is_european_timezone :: "string \<Rightarrow> bool" where
  "is_european_timezone tz \<longleftrightarrow> starts_with ''Europe/'' tz"

definition get_bidding_zone :: "string \<Rightarrow> string option" where
  "get_bidding_zone tz = map_of TIMEZONE_TO_BIDDING_ZONE tz"

text \<open>\<open>str.upper\<close>: of the lower-case letters of Latin-1 one has two capitals, and two have theirs outside of it.\<close>

definition upper_char :: "char \<Rightarrow> string" where
  "upper_char c =
     (let n = (of_char c :: nat)
      in if n = 223 then ''SS'' else if n \<in> {97..122} \<or> n \<in> {224..254} - {247} then [char_of (n - 32)] else [c])"

definition get_bidding_zone_for_country :: "string \<Rightarrow> string option" where
  "get_bidding_zone_for_country cc = map_of COUNTRY_TO_BIDDING_ZONE (concat (map upper_char cc))"

section \<open>Model: the price document\<close>

datatype xml = Elem (xe_tag: string) (xe_text: "string option") (xe_children: "xml list")

text \<open>\<open>iter\<close> yields an element and its descendants in the order of the document, \<open>find\<close> the first child.\<close>

fun xml_iter :: "string \<Rightarrow> xml \<Rightarrow> xml list" where
  "xml_iter tag (Elem t txt cs) = (if t = tag then [Elem t txt cs] else []) @ concat (map (xml_iter tag) cs)"

definition xml_find :: "string \<Rightarrow> xml \<Rightarrow> xml option" where
  "xml_find tag e = List.find (\<lambda>c. xe_tag c = tag) (xe_children e)"

definition NS :: "string \<Rightarrow> string" where
  "NS tag = ''{urn:iec62325.351:tc57wg16:451-3:publicationdocument:7:3}'' @ tag"

text \<open>What text is parsed to; \<open>None\<close>: it raises.\<close>

record text_lib =
  tl_int :: "string \<Rightarrow> int option"
  tl_float :: "string \<Rightarrow> pyfloat option"
  tl_fromisoformat :: "string \<Rightarrow> dtime option"
  tl_xml :: "string \<Rightarrow> xml option"

record ENTSOEPrice =
  en_timestamp :: dtime
  en_price_eur_mwh :: pyfloat
  en_bidding_zone :: string
  en_currency :: "string option"
  en_resolution :: "string option"

definition price_per_kwh :: "ENTSOEPrice \<Rightarrow> pyfloat" where
  "price_per_kwh p = en_price_eur_mwh p / 1000"

definition parse_utc_time :: "text_lib \<Rightarrow> string \<Rightarrow> dtime result" where
  "parse_utc_time lib s =
     (let t = strip s;
          t' = (if t \<noteq> [] \<and> last t = CHR ''Z'' then butlast t @ ''+00:00'' else t)
      in case tl_fromisoformat lib t' of None \<Rightarrow> Inl ValueError | Some u \<Rightarrow> Inr u)"

definition point_map :: "text_lib \<Rightarrow> xml \<Rightarrow> (int, pyfloat) pydict" where
  "point_map lib period =
     foldl (\<lambda>pm point.
       case (xml_find (NS ''position'') point, xml_find (NS ''price.amount'') point) of
         (Some pos_el, Some price_el) \<Rightarrow>
           (case (Option.bind (xe_text pos_el) (tl_int lib), Option.bind (xe_text price_el) (tl_float lib)) of
              (Some position, Some price_amount) \<Rightarrow> AList.update position price_amount pm
            | _ \<Rightarrow> pm)
       | _ \<Rightarrow> pm) [] (xml_iter (NS ''Point'') period)"

text \<open>The loop over the positions, with the last price seen.\<close>

fun fill_positions :: "(int, pyfloat) pydict \<Rightarrow> pyfloat \<Rightarrow> int list \<Rightarrow> (int \<times> pyfloat) list" where
  "fill_positions pm last_price [] = []"
| "fill_positions pm last_price (pos # ps) =
     (let p = (case map_of pm pos of None \<Rightarrow> last_price | Some x \<Rightarrow> x) in (pos, p) # fill_positions pm p ps)"

definition price_series :: "(int, pyfloat) pydict \<Rightarrow> (int \<times> pyfloat) list" where
  "price_series pm = (if pm = [] then [] else fill_positions pm 0 [1..Max (set (map fst pm))])"

definition step_minutes :: "string option \<Rightarrow> int" where
  "step_minutes resolution = (if resolution = Some ''PT15M'' then 15 else 60)"

definition parse_price_period :: "text_lib \<Rightarrow> string \<Rightarrow> string option \<Rightarrow> xml \<Rightarrow> ENTSOEPrice list result" where
  "parse_price_period lib zone currency period =
     (case Option.bind (Option.bind (xml_find (NS ''timeInterval'') period) (xml_find (NS ''start''))) xe_text of
        None \<Rightarrow> Inr []
      | Some txt \<Rightarrow>
          rbind (parse_utc_time lib txt) (\<lambda>period_start.
            let resolution = (case xml_find (NS ''resolution'') period of None \<Rightarrow> Some ''PT60M'' | Some r \<Rightarrow> xe_text r)
            in Inr (map (\<lambda>(pos, price).
                 \<lparr>en_timestamp = period_start + (pos - 1) * step_minutes resolution * usec_per_min, en_price_eur_mwh = price,
                  en_bidding_zone = zone, en_currency = currency, en_resolution = resolution\<rparr>) (price_series (point_map lib period)))))"

definition parse_time_series :: "text_lib \<Rightarrow> string \<Rightarrow> xml \<Rightarrow> ENTSOEPrice list result" where
  "parse_time_series lib zone ts =
     (let currency = (case xml_find (NS ''currency_Unit.name'') ts of None \<Rightarrow> Some ''EUR'' | Some c \<Rightarrow> xe_text c)
      in rbind (traverse (parse_price_period lib zone currency) (xml_iter (NS ''Period'') ts)) (\<lambda>pss. Inr (concat pss)))"

fun unique_prices :: "dtime set \<Rightarrow> ENTSOEPrice list \<Rightarrow> ENTSOEPrice list" where
  "unique_prices seen [] = []"
| "unique_prices seen (p # ps) =
     (if en_timestamp p \<notin> seen then p # unique_prices (insert (en_timestamp p) seen) ps else unique_prices seen ps)"

definition parse_price_document :: "text_lib \<Rightarrow> string \<Rightarrow> string \<Rightarrow> ENTSOEPrice list result" where
  "parse_price_document lib xml_text zone =
     (case tl_xml lib xml_text of
        None \<Rightarrow> Inl (OtherError ''ParseError'')
      | Some doc \<Rightarrow>
          rbind (traverse (parse_time_series lib zone) (xml_iter (NS ''TimeSeries'') doc)) (\<lambda>pss.
            Inr (unique_prices {} (sort_key en_timestamp (concat pss)))))"

section \<open>Model: the table\<close>

record price_row =
  ep_time :: dtime
  ep_node_id :: string
  ep_market_type :: string
  ep_lmp_price_mwh :: "pyfloat option"

definition ep_key :: "price_row \<Rightarrow> dtime \<times> string \<times> string" where
  "ep_key r = (ep_time r, ep_node_id r, ep_market_type r)"

definition dam_row :: "string \<Rightarrow> dtime \<times> pyfloat \<Rightarrow> price_row" where
  "dam_row zone tp = \<lparr>ep_time = fst tp, ep_node_id = zone, ep_market_type = ''ENTSOE_DAM'', ep_lmp_price_mwh = Some (snd tp)\<rparr>"

text \<open>\<open>ON CONFLICT (time, node_id, market_type) DO NOTHING\<close>.\<close>

definition insert_row :: "price_row list \<Rightarrow> price_row \<Rightarrow> price_row list" where
  "insert_row tab r = (if ep_key r \<in> set (map ep_key tab) then tab else tab @ [r])"

definition insert_rows :: "price_row list \<Rightarrow> price_row list \<Rightarrow> price_row list" where
  "insert_rows tab rs = foldl insert_row tab rs"

text \<open>The rows of a zone in a window, in order of time.\<close>

definition dam_rows :: "price_row list \<Rightarrow> string \<Rightarrow> dtime \<Rightarrow> dtime \<Rightarrow> price_row list" where
  "dam_rows tab zone lower upper =
     sort_key ep_time (filter (\<lambda>r. ep_node_id r = zone \<and> ep_market_type r = ''ENTSOE_DAM'' \<and> lower \<le> ep_time r \<and> ep_time r < upper) tab)"

section \<open>Model: the adapter\<close>

text \<open>The platform answers a request, for a zone and two minutes, with a status and a text, or raises.\<close>

record entsoe_adapter =
  ea_security_token :: string
  ea_has_pool :: bool
  ea_get :: "string \<Rightarrow> int \<Rightarrow> int \<Rightarrow> (int \<times> string) result"
  ea_lib :: text_lib

definition format_entsoe_time :: "dtime \<Rightarrow> int" where
  "format_entsoe_time t = t div usec_per_min"

definition chosen_zone :: "string option \<Rightarrow> string option \<Rightarrow> string option" where
  "chosen_zone bidding_zone depot_timezone =
     (case bidding_zone of
        Some (c # cs) \<Rightarrow> Some (c # cs)
      | _ \<Rightarrow> (case depot_timezone of Some (c # cs) \<Rightarrow> get_bidding_zone (c # cs) | _ \<Rightarrow> None))"

definition get_day_ahead_prices :: "entsoe_adapter \<Rightarrow> dtime \<Rightarrow> dtime \<Rightarrow> string option \<Rightarrow> string option \<Rightarrow> ENTSOEPrice list result" where
  "get_day_ahead_prices a start_date end_date bidding_zone depot_timezone =
     (case chosen_zone bidding_zone depot_timezone of
        None \<Rightarrow> Inl ValueError
      | Some zone \<Rightarrow>
          if ea_security_token a = [] then Inl ValueError
          else rbind (ea_get a zone (format_entsoe_time start_date) (format_entsoe_time end_date)) (\<lambda>(status, text).
                 if status = 429 then Inl RuntimeError
                 else if status \<noteq> 200 then Inl RuntimeError
                 else parse_price_document (ea_lib a) text zone))"

definition get_current_price :: "entsoe_adapter \<Rightarrow> dtime \<Rightarrow> string option \<Rightarrow> string option \<Rightarrow> ENTSOEPrice option" where
  "get_current_price a now bidding_zone depot_timezone =
     (case get_day_ahead_prices a now (now + usec_per_hour) bidding_zone depot_timezone of
        Inl _ \<Rightarrow> None
      | Inr [] \<Rightarrow> None
      | Inr (p # _) \<Rightarrow> Some p)"

text \<open>\<open>db_ok\<close>: whether the database answers. The number of rows inserted, and the table after.\<close>

definition store_prices_to_db ::
  "entsoe_adapter \<Rightarrow> bool \<Rightarrow> ENTSOEPrice list \<Rightarrow> string \<Rightarrow> price_row list \<Rightarrow> nat result \<times> price_row list" where
  "store_prices_to_db a db_ok ps zone tab =
     (if \<not> ea_has_pool a then (Inl RuntimeError, tab)
      else if ps = [] then (Inr 0, tab)
      else if \<not> db_ok then (Inl (OtherError ''PostgresError''), tab)
      else let tab' = insert_rows tab (map (\<lambda>p. dam_row zone (en_timestamp p, en_price_eur_mwh p)) ps)
           in (Inr (length tab' - length tab), tab'))"

definition get_cached_prices :: "entsoe_adapter \<Rightarrow> bool \<Rightarrow> string \<Rightarrow> dtime \<Rightarrow> dtime \<Rightarrow> price_row list \<Rightarrow> ENTSOEPrice list result" where
  "get_cached_prices a db_ok zone start_time end_time tab =
     (if \<not> ea_has_pool a then Inr []
      else if \<not> db_ok then Inl (OtherError ''PostgresError'')
      else Inr (List.map_filter (\<lambda>r. map_option (\<lambda>raw.
             \<lparr>en_timestamp = ep_time r, en_price_eur_mwh = raw, en_bidding_zone = zone, en_currency = Some ''EUR'',
              en_resolution = Some ''PT60M''\<rparr>) (ep_lmp_price_mwh r)) (dam_rows tab zone start_time end_time)))"

definition get_prices_for_depot ::
  "entsoe_adapter \<Rightarrow> bool \<Rightarrow> bool \<Rightarrow> dtime \<Rightarrow> dtime \<Rightarrow> string option \<Rightarrow> string option \<Rightarrow> bool \<Rightarrow> price_row list \<Rightarrow>
     ENTSOEPrice list result \<times> price_row list" where
  "get_prices_for_depot a read_ok write_ok start_date end_date depot_timezone bidding_zone use_cache tab =
     (case chosen_zone bidding_zone depot_timezone of
        None \<Rightarrow> (Inl ValueError, tab)
      | Some zone \<Rightarrow>
          (let cached = (if use_cache \<and> ea_has_pool a
                         then (case get_cached_prices a read_ok zone start_date end_date tab of Inl _ \<Rightarrow> [] | Inr ps \<Rightarrow> ps) else [])
           in if cached \<noteq> [] then (Inr cached, tab)
              else case get_day_ahead_prices a start_date end_date (Some zone) depot_timezone of
                     Inl e \<Rightarrow> (Inl e, tab)
                   | Inr ps \<Rightarrow>
                       (Inr ps, if ea_has_pool a \<and> ps \<noteq> [] then snd (store_prices_to_db a write_ok ps zone tab) else tab)))"

section \<open>Model: the queries\<close>

definition hour_floor_utc :: "dtime \<Rightarrow> dtime" where
  "hour_floor_utc t = floor_hour t"

text \<open>The inner loop, which ends at the first row after the hour.\<close>

fun fill_candidate :: "int \<Rightarrow> dtime \<Rightarrow> pyfloat option \<Rightarrow> (dtime \<times> pyfloat) list \<Rightarrow> pyfloat option" where
  "fill_candidate window cursor candidate [] = candidate"
| "fill_candidate window cursor candidate ((ts, price) # known) =
     (if ts \<le> cursor \<and> cursor - ts \<le> window then fill_candidate window cursor (Some price) known
      else if ts > cursor then candidate
      else fill_candidate window cursor candidate known)"

definition known_prices :: "price_row list \<Rightarrow> (dtime \<times> pyfloat) list" where
  "known_prices rows = List.map_filter (\<lambda>r. map_option (\<lambda>raw. (ep_time r, raw / 1000)) (ep_lmp_price_mwh r)) rows"

definition fetch_prices_by_zone :: "price_row list \<Rightarrow> string \<Rightarrow> dtime \<Rightarrow> dtime \<Rightarrow> int \<Rightarrow> (dtime, pyfloat) pydict" where
  "fetch_prices_by_zone tab zone start_time end_time window =
     (let known = known_prices (dam_rows tab zone (hour_floor_utc start_time - window) end_time)
      in if known = [] then []
         else List.map_filter (\<lambda>h. map_option (Pair h) (fill_candidate window h None known))
                (hour_buckets_from (hour_floor_utc start_time) end_time))"

text \<open>
  \<open>fails k\<close>: the \<open>k\<close>-th call to the database raises; then the result is \<open>None\<close>. The adapter is built here, so that
  its token is the one of the environment. Several rows are inserted in one transaction.
\<close>

definition pulled_rows :: "price_row list \<Rightarrow> string \<Rightarrow> dtime \<Rightarrow> dtime \<Rightarrow> ENTSOEPrice list \<Rightarrow> price_row list" where
  "pulled_rows tab zone start_time end_time fetched =
     (let existing_times = set (map ep_time (dam_rows tab zone start_time end_time))
      in map (\<lambda>p. dam_row zone (en_timestamp p, price_per_kwh p * 1000)) (filter (\<lambda>p. en_timestamp p \<notin> existing_times) fetched))"

definition fetch_or_pull_prices_by_zone ::
  "(nat \<Rightarrow> bool) \<Rightarrow> entsoe_adapter \<Rightarrow> string \<Rightarrow> dtime \<Rightarrow> dtime \<Rightarrow> int \<Rightarrow> price_row list \<Rightarrow>
     (dtime, pyfloat) pydict option \<times> price_row list" where
  "fetch_or_pull_prices_by_zone fails a zone start_time end_time window tab =
     (if fails 0 then (None, tab)
      else let cached = fetch_prices_by_zone tab zone start_time end_time window;
               missing_hours = filter (\<lambda>h. map_of cached h = None) (hour_buckets_from (hour_floor_utc start_time) end_time)
           in if missing_hours = [] \<or> ea_security_token a = [] then (Some cached, tab)
              else case get_day_ahead_prices a start_time end_time (Some zone) None of
                     Inl _ \<Rightarrow> (Some cached, tab)
                   | Inr [] \<Rightarrow> (Some cached, tab)
                   | Inr fetched \<Rightarrow>
                       if fails 1 then (None, tab)
                       else let new_rows = pulled_rows tab zone start_time end_time fetched
                            in if new_rows \<noteq> [] \<and> fails 2 then (None, tab)
                               else let tab' = insert_rows tab new_rows
                                    in if fails 3 then (None, tab')
                                       else (Some (fetch_prices_by_zone tab' zone start_time end_time window), tab'))"

text \<open>
  The depot's zone: \<open>row\<close> is the row of \<open>sites\<close> with its time zone and tariff, \<open>loads\<close> reads a tariff that is
  stored as text.
\<close>

definition resolve_bidding_zone :: "(string \<Rightarrow> pyval option) \<Rightarrow> (string option \<times> pyval) option \<Rightarrow> string option" where
  "resolve_bidding_zone loads row =
     (case row of
        None \<Rightarrow> None
      | Some (tz, raw) \<Rightarrow>
          (let tariff = (case raw of PStr s \<Rightarrow> (case loads s of None \<Rightarrow> PNone | Some v \<Rightarrow> v) | _ \<Rightarrow> raw);
               explicit = (case tariff of
                  PDict d \<Rightarrow> (case pget d ''entsoe_zone'' of PStr s \<Rightarrow> if strip s \<noteq> [] then Some (strip s) else None | _ \<Rightarrow> None)
                | _ \<Rightarrow> None)
           in case explicit of
                Some zone \<Rightarrow> Some zone
              | None \<Rightarrow> (case tz of Some (c # cs) \<Rightarrow> get_bidding_zone (c # cs) | _ \<Rightarrow> None)))"

section \<open>Lemmas: the price document\<close>

text \<open>The price that a step curve has at a position: that of the last position listed before it.\<close>

definition curve_from :: "(int, pyfloat) pydict \<Rightarrow> pyfloat \<Rightarrow> int \<Rightarrow> int \<Rightarrow> pyfloat" where
  "curve_from pm before first k =
     (let ks = {i \<in> keys pm. first \<le> i \<and> i \<le> k} in if ks = {} then before else the (map_of pm (Max ks)))"

lemma finite_keys [simp]: "finite (keys d)"
  by (simp add: keys_def)

lemma curve_from_first: "curve_from pm l a a = (case map_of pm a of None \<Rightarrow> l | Some x \<Rightarrow> x)"
proof (cases "a \<in> keys pm")
  case True
  then have "{i \<in> keys pm. a \<le> i \<and> i \<le> a} = {a}" by auto
  with True show ?thesis by (auto simp: curve_from_def keys_map_of_Some)
next
  case False
  then have none: "{i \<in> keys pm. a \<le> i \<and> i \<le> a} = {}" by (metis (mono_tags, lifting) Collect_empty_eq order_antisym)
  show ?thesis using False unfolding curve_from_def none by (simp add: keys_map_of_None)
qed

lemma curve_from_step:
  assumes "a < k"
  shows "curve_from pm l a k = curve_from pm (curve_from pm l a a) (a + 1) k"
proof -
  let ?J = "{i \<in> keys pm. a \<le> i \<and> i \<le> k}" and ?K = "{i \<in> keys pm. a + 1 \<le> i \<and> i \<le> k}" and ?A = "{i \<in> keys pm. a \<le> i \<and> i \<le> a}"
  have split: "?J = ?A \<union> ?K" using assms by auto
  have fin: "finite ?K" "finite ?A" by simp_all
  show ?thesis
  proof (cases "?K = {}")
    case True
    then have "?J = ?A" unfolding split by (simp only: Un_empty_right)
    with True show ?thesis unfolding curve_from_def Let_def by (simp only: True if_True)
  next
    case False
    then have "Max ?J = Max ?K"
    proof (cases "?A = {}")
      case nonempty: False
      have "Max ?A \<le> a" "a < Max ?K" using fin False nonempty by (auto simp: Max_gr_iff)
      then show ?thesis unfolding split using fin False nonempty by (subst Max_Un) auto
    next
      case True
      then have "?J = ?K" unfolding split by (simp only: Un_empty_left)
      then show ?thesis by simp
    qed
    then show ?thesis using False split by (auto simp: curve_from_def Let_def)
  qed
qed

lemma fill_positions_curve: "fill_positions pm l [a..b] = map (\<lambda>k. (k, curve_from pm l a k)) [a..b]"
proof (induction "nat (b - a + 1)" arbitrary: a l)
  case 0
  then show ?case by simp
next
  case (Suc n)
  then have range: "[a..b] = a # [a + 1..b]" and n: "n = nat (b - (a + 1) + 1)" by (auto simp: upto_rec1)
  have "map (\<lambda>k. (k, curve_from pm (curve_from pm l a a) (a + 1) k)) [a + 1..b] = map (\<lambda>k. (k, curve_from pm l a k)) [a + 1..b]"
    by (simp add: curve_from_step)
  with Suc.hyps(1) [OF n, of "curve_from pm l a a"] show ?case unfolding range by (simp add: curve_from_first Let_def)
qed

text \<open>
  A price document lists the positions at which the price changes. The series has one price for every
  position up to the last one listed, that of the last position listed before it (0 before the first). The
  end of the interval is not read: the positions after the last change, where the curve keeps its price, are
  left out.
\<close>

theorem step_curve_filled:
  "price_series pm = (if pm = [] then [] else map (\<lambda>k. (k, curve_from pm 0 1 k)) [1..Max (keys pm)])"
  by (simp add: price_series_def fill_positions_curve keys_def)

lemma unique_prices_times:
  "distinct (map en_timestamp (unique_prices seen ps)) \<and>
   en_timestamp ` set (unique_prices seen ps) = en_timestamp ` set ps - seen \<and> set (unique_prices seen ps) \<subseteq> set ps"
  by (induction ps arbitrary: seen) auto

lemma unique_prices_sorted: "sorted (map en_timestamp ps) \<Longrightarrow> sorted (map en_timestamp (unique_prices seen ps))"
proof (induction ps arbitrary: seen)
  case (Cons p ps)
  then show ?case using unique_prices_times [of "insert (en_timestamp p) seen" ps] by auto
qed simp

lemma parsed_strictly_sorted:
  assumes "parse_price_document lib xml_text zone = Inr ps"
  shows "sorted_wrt (<) (map en_timestamp ps)"
proof -
  from assms obtain qs where ps: "ps = unique_prices {} (sort_key en_timestamp qs)"
    by (auto simp: parse_price_document_def rbind_Inr_iff split: option.splits)
  then have "sorted (map en_timestamp ps)" "distinct (map en_timestamp ps)"
    using unique_prices_sorted unique_prices_times by auto
  then show ?thesis by (simp add: strict_sorted_iff)
qed

section \<open>Lemmas: the table\<close>

definition prices_unique :: "price_row list \<Rightarrow> bool" where
  "prices_unique tab \<longleftrightarrow> distinct (map ep_key tab)"

definition zone_row :: "string \<Rightarrow> price_row \<Rightarrow> bool" where
  "zone_row zone r \<longleftrightarrow> ep_node_id r = zone \<and> ep_market_type r = ''ENTSOE_DAM''"

lemma insert_rows_grows: "\<exists>new. insert_rows tab rs = tab @ new \<and> set new \<subseteq> set rs"
proof (induction rs arbitrary: tab)
  case (Cons r rs)
  from Cons.IH [of "insert_row tab r"] obtain new where "insert_rows (insert_row tab r) rs = insert_row tab r @ new" "set new \<subseteq> set rs"
    by blast
  then have "insert_rows tab (r # rs) = insert_row tab r @ new" "set new \<subseteq> set (r # rs)" by (auto simp: insert_rows_def)
  then show ?case by (cases "ep_key r \<in> set (map ep_key tab)") (auto simp: insert_row_def)
qed (simp add: insert_rows_def)

lemma insert_row_unique: "prices_unique tab \<Longrightarrow> prices_unique (insert_row tab r)"
  by (auto simp: prices_unique_def insert_row_def)

lemma insert_rows_unique [inv_intros]: "prices_unique tab \<Longrightarrow> prices_unique (insert_rows tab rs)"
  unfolding insert_rows_def by (induction rs arbitrary: tab) (auto intro: insert_row_unique)

lemma insert_rows_keys: "ep_key ` set (insert_rows tab rs) = ep_key ` set tab \<union> ep_key ` set rs"
  unfolding insert_rows_def by (induction rs arbitrary: tab) (auto simp: insert_row_def)

lemma insert_rows_member:
  assumes "distinct (map ep_key rs)" "r \<in> set rs" "ep_key r \<notin> ep_key ` set tab"
  shows "r \<in> set (insert_rows tab rs)"
  using assms
proof (induction rs arbitrary: tab)
  case (Cons q rs)
  have grows: "set (insert_row tab q) \<subseteq> set (insert_rows (insert_row tab q) rs)"
    using insert_rows_grows [of "insert_row tab q" rs] by auto
  show ?case
  proof (cases "r = q")
    case True
    with Cons.prems(3) have "r \<in> set (insert_row tab q)" by (simp add: insert_row_def)
    with grows show ?thesis by (auto simp: insert_rows_def)
  next
    case False
    with Cons.prems have "r \<in> set rs" by simp
    moreover from this Cons.prems(1) have "ep_key r \<noteq> ep_key q" by (metis distinct.simps(2) image_eqI list.map(2) list.set_map)
    ultimately show ?thesis using Cons.prems Cons.IH [of "insert_row tab q"] by (auto simp: insert_rows_def insert_row_def split: if_splits)
  qed
qed simp

lemma dam_rows_set: "set (dam_rows tab zone lower upper) = {r \<in> set tab. zone_row zone r \<and> lower \<le> ep_time r \<and> ep_time r < upper}"
  by (auto simp: dam_rows_def zone_row_def)

lemma dam_rows_sorted: "sorted (map ep_time (dam_rows tab zone lower upper))"
  by (simp add: dam_rows_def)

lemma known_prices_sorted: "sorted (map ep_time rows) \<Longrightarrow> sorted (map fst (known_prices rows))"
proof (induction rows)
  case (Cons r rows)
  moreover have "fst ` set (known_prices rows) \<subseteq> ep_time ` set rows"
    by (auto simp: known_prices_def List.map_filter_def split: option.splits)
  ultimately show ?case by (auto simp: known_prices_def List.map_filter_def split: option.splits)
qed (simp add: known_prices_def)

lemma set_known_prices: "(t, p) \<in> set (known_prices rows) \<longleftrightarrow> (\<exists>r\<in>set rows. ep_time r = t \<and> ep_lmp_price_mwh r = Some (p * 1000))"
  by (force simp: known_prices_def List.map_filter_def)

section \<open>Lemmas: forward filling\<close>

text \<open>Stopping at the first later row changes nothing: the loop finds the last row of the window.\<close>

lemma fill_candidate_eq:
  "sorted (map fst known) \<Longrightarrow>
     fill_candidate w h c known =
       (let ks = filter (\<lambda>tp. h - w \<le> fst tp \<and> fst tp \<le> h) known in if ks = [] then c else Some (snd (last ks)))"
proof (induction w h c known rule: fill_candidate.induct)
  case (2 w h c ts price known)
  show ?case
  proof (cases "ts > h")
    case True
    then have "filter (\<lambda>tp. h - w \<le> fst tp \<and> fst tp \<le> h) ((ts, price) # known) = []"
      using "2.prems" by (auto simp: filter_empty_conv)
    with True show ?thesis by simp
  next
    case False
    with 2 show ?thesis by (auto simp: Let_def)
  qed
qed simp

lemma sorted_last:
  assumes "sorted (map fst xs)" "x \<in> set xs"
  shows "fst x \<le> fst (last xs)"
  using assms by (induction xs rule: rev_induct) (auto simp: sorted_append)

lemma hour_buckets_all: "c mod usec_per_hour = 0 \<Longrightarrow> h mod usec_per_hour = 0 \<Longrightarrow> c \<le> h \<Longrightarrow> h < e \<Longrightarrow> h \<in> set (hour_buckets_from c e)"
proof (induction c e rule: hour_buckets_from.induct)
  case (1 c e)
  then have "c < e" by linarith
  show ?case
  proof (cases "h = c")
    case False
    have "c + usec_per_hour \<le> h"
    proof -
      obtain i j where "c = usec_per_hour * i" "h = usec_per_hour * j" using "1.prems"(1,2) by (auto simp: mod_eq_0_iff_dvd elim!: dvdE)
      moreover from this False "1.prems"(3) have "i + 1 \<le> j" by (cases "i < j") (auto simp: usec_values)
      ultimately show ?thesis by (simp add: usec_values)
    qed
    with 1 \<open>c < e\<close> show ?thesis by (simp add: hour_buckets_step usec_values)
  qed (simp add: hour_buckets_step \<open>c < e\<close>)
qed

lemma set_price_hours:
  "set (hour_buckets_from (hour_floor_utc s) e) = {h. h mod usec_per_hour = 0 \<and> hour_floor_utc s \<le> h \<and> h < e}"
  using hour_buckets_aligned [of "hour_floor_utc s" _ e] hour_buckets_all [of "hour_floor_utc s" _ e]
  by (auto simp: hour_floor_utc_def)

lemma map_filter_Pair: "map_of (List.map_filter (\<lambda>h. map_option (Pair h) (f h)) hs) h = (if h \<in> set hs then f h else None)"
  by (induction hs) (auto simp: List.map_filter_def split: option.splits)

lemma map_of_zone_prices:
  "map_of (fetch_prices_by_zone tab zone s e w) h =
     (if h \<in> set (hour_buckets_from (hour_floor_utc s) e)
      then fill_candidate w h None (known_prices (dam_rows tab zone (hour_floor_utc s - w) e)) else None)"
  by (simp add: fetch_prices_by_zone_def Let_def map_filter_Pair)

text \<open>The row a price of an hour comes from: the latest with a price that is not older than the window.\<close>

definition prices_hour :: "price_row list \<Rightarrow> string \<Rightarrow> int \<Rightarrow> dtime \<Rightarrow> price_row \<Rightarrow> bool" where
  "prices_hour tab zone w h r \<longleftrightarrow>
     r \<in> set tab \<and> zone_row zone r \<and> ep_lmp_price_mwh r \<noteq> None \<and> h - w \<le> ep_time r \<and> ep_time r \<le> h \<and>
     (\<forall>q\<in>set tab. zone_row zone q \<and> ep_lmp_price_mwh q \<noteq> None \<and> ep_time q \<le> h \<longrightarrow> ep_time q \<le> ep_time r)"

lemma known_row:
  assumes "hour_floor_utc s \<le> h" "h < e" "h - w \<le> t" "t \<le> h"
  shows "(t, p) \<in> set (known_prices (dam_rows tab zone (hour_floor_utc s - w) e)) \<longleftrightarrow>
    (\<exists>r\<in>set tab. zone_row zone r \<and> ep_time r = t \<and> ep_lmp_price_mwh r = Some (p * 1000))"
  using assms by (auto simp: set_known_prices dam_rows_set)

lemma zone_price_row:
  assumes "h \<in> set (hour_buckets_from (hour_floor_utc s) e)"
    and "map_of (fetch_prices_by_zone tab zone s e w) h = Some p"
  shows "\<exists>r. prices_hour tab zone w h r \<and> ep_lmp_price_mwh r = Some (p * 1000)"
proof -
  let ?known = "known_prices (dam_rows tab zone (hour_floor_utc s - w) e)"
  let ?ks = "filter (\<lambda>tp. h - w \<le> fst tp \<and> fst tp \<le> h) ?known"
  have sorted: "sorted (map fst ?known)" by (intro known_prices_sorted dam_rows_sorted)
  have h: "hour_floor_utc s \<le> h" "h < e" using assms(1) by (simp_all add: set_price_hours)
  from assms sorted have ks: "?ks \<noteq> []" "p = snd (last ?ks)"
    by (auto simp: map_of_zone_prices fill_candidate_eq Let_def split: if_splits)
  obtain t where t: "last ?ks = (t, p)" using ks(2) by (metis prod.collapse)
  then have "(t, p) \<in> set ?ks" using ks(1) last_in_set by metis
  then obtain r where r: "r \<in> set tab" "zone_row zone r" "ep_time r = t" "ep_lmp_price_mwh r = Some (p * 1000)" "h - w \<le> t" "t \<le> h"
    using known_row [OF h] by auto
  have "ep_time q \<le> t" if q: "q \<in> set tab" "zone_row zone q" "ep_lmp_price_mwh q \<noteq> None" "ep_time q \<le> h" for q
  proof (cases "h - w \<le> ep_time q")
    case True
    obtain raw where "ep_lmp_price_mwh q = Some raw" using q(3) by blast
    then have "(ep_time q, raw / 1000) \<in> set ?ks" using known_row [OF h True q(4)] q True by auto
    moreover have "sorted (map fst ?ks)" using sorted sorted_filter by blast
    ultimately show ?thesis using sorted_last [of ?ks] t by fastforce
  qed (use r in simp)
  with r show ?thesis unfolding prices_hour_def by auto
qed

lemma zone_price_found:
  assumes "h \<in> set (hour_buckets_from (hour_floor_utc s) e)" "prices_hour tab zone w h r"
  shows "map_of (fetch_prices_by_zone tab zone s e w) h \<noteq> None"
proof -
  let ?known = "known_prices (dam_rows tab zone (hour_floor_utc s - w) e)"
  have h: "hour_floor_utc s \<le> h" "h < e" using assms(1) by (simp_all add: set_price_hours)
  have sorted: "sorted (map fst ?known)" by (intro known_prices_sorted dam_rows_sorted)
  obtain raw where "ep_lmp_price_mwh r = Some raw" using assms(2) by (auto simp: prices_hour_def)
  then have "(ep_time r, raw / 1000) \<in> set ?known" using assms(2) known_row [OF h] by (auto simp: prices_hour_def)
  moreover have "h - w \<le> ep_time r" "ep_time r \<le> h" using assms(2) by (simp_all add: prices_hour_def)
  ultimately have "filter (\<lambda>tp. h - w \<le> fst tp \<and> fst tp \<le> h) ?known \<noteq> []" by (force simp: filter_empty_conv)
  then show ?thesis using assms(1) sorted by (simp add: map_of_zone_prices fill_candidate_eq Let_def)
qed

lemma prices_hour_unique:
  assumes "prices_unique tab" "prices_hour tab zone w h r" "prices_hour tab zone w h q"
  shows "r = q"
proof -
  have "ep_time r = ep_time q" using assms(2,3) by (auto simp: prices_hour_def intro: order_antisym)
  then have "ep_key r = ep_key q" using assms(2,3) by (simp add: prices_hour_def zone_row_def ep_key_def)
  with assms show ?thesis by (auto simp: prices_unique_def prices_hour_def distinct_map dest: inj_onD)
qed

lemma zone_price_iff:
  assumes "prices_unique tab"
  shows "map_of (fetch_prices_by_zone tab zone s e w) h = Some p \<longleftrightarrow>
    h \<in> set (hour_buckets_from (hour_floor_utc s) e) \<and> (\<exists>r. prices_hour tab zone w h r \<and> ep_lmp_price_mwh r = Some (p * 1000))"
    (is "?price \<longleftrightarrow> ?hour \<and> ?row")
proof
  assume p: ?price
  then have "?hour" by (simp add: map_of_zone_prices split: if_splits)
  with p show "?hour \<and> ?row" using zone_price_row by blast
next
  assume "?hour \<and> ?row"
  then obtain r where r: "?hour" "prices_hour tab zone w h r" "ep_lmp_price_mwh r = Some (p * 1000)" by blast
  obtain x where x: "map_of (fetch_prices_by_zone tab zone s e w) h = Some x" using zone_price_found [OF r(1,2)] by blast
  obtain q where "prices_hour tab zone w h q" "ep_lmp_price_mwh q = Some (x * 1000)" using zone_price_row [OF r(1) x] by blast
  with r prices_hour_unique [OF assms r(2)] x show ?price by auto
qed

text \<open>A row at the hour itself gives the price of the hour, whatever the rows within the hour say.\<close>

lemma exact_row_priced:
  assumes "prices_unique tab" "r \<in> set tab" "zone_row zone r" "ep_lmp_price_mwh r = Some raw" "0 \<le> w"
    and "ep_time r \<in> set (hour_buckets_from (hour_floor_utc s) e)"
  shows "map_of (fetch_prices_by_zone tab zone s e w) (ep_time r) = Some (raw / 1000)"
proof -
  have "prices_hour tab zone w (ep_time r) r" using assms by (simp add: prices_hour_def)
  with assms show ?thesis unfolding zone_price_iff [OF assms(1)] by auto
qed

section \<open>Lemmas: the read-through cache\<close>

lemma day_ahead_distinct:
  assumes "get_day_ahead_prices a s e z tz = Inr ps"
  shows "distinct (map en_timestamp ps)"
proof -
  from assms obtain lib body zone where "parse_price_document lib body zone = Inr ps"
    by (auto simp: get_day_ahead_prices_def rbind_Inr_iff split: option.splits if_splits)
  then show ?thesis using parsed_strictly_sorted strict_sorted_iff by blast
qed


lemma pulled_rows_zone: "r \<in> set (pulled_rows tab zone s e fetched) \<Longrightarrow> zone_row zone r"
  by (auto simp: pulled_rows_def dam_row_def zone_row_def)

lemma pulled_rows_distinct: "distinct (map en_timestamp fetched) \<Longrightarrow> distinct (map ep_key (pulled_rows tab zone s e fetched))"
  by (induction fetched) (auto simp: pulled_rows_def dam_row_def ep_key_def Let_def)

lemma fetch_or_pull_cases:
  assumes "fetch_or_pull_prices_by_zone fails a zone s e w tab = (res, tab')"
  obtains (cached) "tab' = tab" "res \<in> {None, Some (fetch_prices_by_zone tab zone s e w)}"
      "res = None \<or> (\<forall>h\<in>set (hour_buckets_from (hour_floor_utc s) e). map_of (fetch_prices_by_zone tab zone s e w) h \<noteq> None)
         \<or> ea_security_token a = [] \<or> (\<forall>p ps. get_day_ahead_prices a s e (Some zone) None \<noteq> Inr (p # ps))"
    | (pulled) fetched where "get_day_ahead_prices a s e (Some zone) None = Inr fetched"
      "tab' = insert_rows tab (pulled_rows tab zone s e fetched)"
      "res \<in> {None, Some (fetch_prices_by_zone tab' zone s e w)}"
proof -
  let ?missing = "filter (\<lambda>h. map_of (fetch_prices_by_zone tab zone s e w) h = None) (hour_buckets_from (hour_floor_utc s) e)"
  note unf = assms [unfolded fetch_or_pull_prices_by_zone_def Let_def]
  show ?thesis
  proof (cases "fails 0 \<or> ?missing = [] \<or> ea_security_token a = []")
    case True
    with unf show ?thesis by (intro cached) (auto simp: filter_empty_conv split: if_splits)
  next
    case False
    show ?thesis
    proof (cases "get_day_ahead_prices a s e (Some zone) None")
      case (Inl err)
      with unf False show ?thesis by (intro cached) auto
    next
      case (Inr ps)
      show ?thesis
      proof (cases ps)
        case Nil
        with unf False Inr show ?thesis by (intro cached) auto
      next
        case (Cons q qs)
        with unf False Inr show ?thesis
          by (cases "fails 1 \<or> pulled_rows tab zone s e ps \<noteq> [] \<and> fails 2")
            (auto split: if_splits intro: cached pulled)
      qed
    qed
  qed
qed

lemma pull_answers: "(\<And>k. \<not> fails k) \<Longrightarrow> fst (fetch_or_pull_prices_by_zone fails a zone s e w tab) \<noteq> None"
  by (simp add: fetch_or_pull_prices_by_zone_def Let_def split: sum.split list.split)

lemma pulled_hour_priced:
  assumes "prices_unique tab" "0 \<le> w" "get_day_ahead_prices a s e (Some zone) None = Inr fetched" "p \<in> set fetched"
    and "en_timestamp p \<in> set (hour_buckets_from (hour_floor_utc s) e)"
    and "(en_timestamp p, zone, ''ENTSOE_DAM'') \<notin> ep_key ` set tab"
  shows "map_of (fetch_prices_by_zone (insert_rows tab (pulled_rows tab zone s e fetched)) zone s e w) (en_timestamp p) = Some (price_per_kwh p)"
proof -
  let ?r = "dam_row zone (en_timestamp p, price_per_kwh p * 1000)"
  have r: "ep_key ?r = (en_timestamp p, zone, ''ENTSOE_DAM'')" "ep_time ?r = en_timestamp p" "zone_row zone ?r"
    "ep_lmp_price_mwh ?r = Some (price_per_kwh p * 1000)" by (simp_all add: dam_row_def ep_key_def zone_row_def)
  have "en_timestamp p \<notin> set (map ep_time (dam_rows tab zone s e))"
    using assms(6) by (force simp: dam_rows_set zone_row_def ep_key_def)
  then have "?r \<in> set (pulled_rows tab zone s e fetched)" using assms(4) by (auto simp: pulled_rows_def)
  then have "?r \<in> set (insert_rows tab (pulled_rows tab zone s e fetched))"
    using assms(6) r(1) pulled_rows_distinct [OF day_ahead_distinct [OF assms(3)]] by (intro insert_rows_member) auto
  from exact_row_priced [OF insert_rows_unique [OF assms(1)] this r(3,4) assms(2), of s e] show ?thesis
    using assms(5) unfolding r(2) by simp
qed

section \<open>Properties\<close>

text \<open>the prices read for a zone are exact. Over a table with one row for each time and zone, an hour
  of the window has the price of the latest row of the zone that has one and is not later than the hour nor
  older than the fill window, in currency per kWh, and no price when there is none. The loop that stops
  early, its buckets and its widened query do not matter.\<close>

theorem zone_prices_exact:
  assumes "prices_unique tab"
  shows "map_of (fetch_prices_by_zone tab zone start_time end_time window) h = Some p \<longleftrightarrow>
    (h mod usec_per_hour = 0 \<and> hour_floor_utc start_time \<le> h \<and> h < end_time) \<and>
    (\<exists>r. prices_hour tab zone window h r \<and> ep_lmp_price_mwh r = Some (p * 1000))"
  using zone_price_iff [OF assms, of zone start_time end_time window h p] by (simp add: set_price_hours)

text \<open>the read-through cache only adds to the table. It never removes or changes a row, keeps the
  unique index, adds rows of the requested zone only, and answers with what the table holds afterwards. When
  an hour was missing, the platform delivered a price for it and the table had no row there, then, unless
  the database failed, the hour is priced with exactly that price.\<close>

theorem read_through_fills:
  assumes "prices_unique tab" "0 \<le> window"
    and "fetch_or_pull_prices_by_zone fails a zone start_time end_time window tab = (res, tab')"
  shows "(\<exists>new. tab' = tab @ new \<and> list_all (zone_row zone) new) \<and> prices_unique tab' \<and>
    res \<in> {None, Some (fetch_prices_by_zone tab' zone start_time end_time window)} \<and>
    (\<forall>fetched p pm. res = Some pm \<longrightarrow> ea_security_token a \<noteq> [] \<longrightarrow>
       get_day_ahead_prices a start_time end_time (Some zone) None = Inr fetched \<longrightarrow> p \<in> set fetched \<longrightarrow>
       en_timestamp p \<in> set (hour_buckets_from (hour_floor_utc start_time) end_time) \<longrightarrow>
       (en_timestamp p, zone, ''ENTSOE_DAM'') \<notin> ep_key ` set tab \<longrightarrow>
       map_of (fetch_prices_by_zone tab zone start_time end_time window) (en_timestamp p) = None \<longrightarrow>
       map_of pm (en_timestamp p) = Some (price_per_kwh p))"
  using assms(3)
proof (cases rule: fetch_or_pull_cases)
  case cached
  have "map_of pm (en_timestamp p) = Some (price_per_kwh p)"
    if "res = Some pm" "ea_security_token a \<noteq> []" "get_day_ahead_prices a start_time end_time (Some zone) None = Inr fetched" "p \<in> set fetched"
      "en_timestamp p \<in> set (hour_buckets_from (hour_floor_utc start_time) end_time)"
      "map_of (fetch_prices_by_zone tab zone start_time end_time window) (en_timestamp p) = None" for fetched p pm
    using that cached by (cases fetched) auto
  with cached assms(1) show ?thesis by auto
next
  case (pulled fetched)
  obtain new where new: "tab' = tab @ new" "set new \<subseteq> set (pulled_rows tab zone start_time end_time fetched)"
    using insert_rows_grows pulled(2) by blast
  then have "list_all (zone_row zone) new" using pulled_rows_zone by (fastforce simp: list_all_iff)
  moreover have "prices_unique tab'" using assms(1) pulled(2) by (simp add: insert_rows_unique)
  ultimately show ?thesis using new pulled pulled_hour_priced [OF assms(1,2) pulled(1)] by auto
qed

section \<open>Witnesses\<close>

text \<open>A document with a price at the first of three hours, and a table with one row before it.\<close>

definition demo_lib :: text_lib where
  "demo_lib =
     \<lparr>tl_int = (\<lambda>s. if s = ''1'' then Some 1 else if s = ''3'' then Some 3 else None),
      tl_float = (\<lambda>s. if s = ''50'' then Some 50 else None),
      tl_fromisoformat = (\<lambda>s. if s = ''2026-01-01T00:00+00:00'' then Some (10 * usec_per_hour) else None),
      tl_xml = (\<lambda>_. Some (Elem ''doc'' None [Elem (NS ''TimeSeries'') None [Elem (NS ''Period'') None
        [Elem (NS ''timeInterval'') None [Elem (NS ''start'') (Some ''2026-01-01T00:00Z'') []],
         Elem (NS ''Point'') None [Elem (NS ''position'') (Some ''1'') [], Elem (NS ''price.amount'') (Some ''50'') []],
         Elem (NS ''Point'') None [Elem (NS ''position'') (Some ''3'') [], Elem (NS ''price.amount'') (Some ''50'') []]]]]))\<rparr>"

definition demo_adapter :: entsoe_adapter where
  "demo_adapter = \<lparr>ea_security_token = ''t'', ea_has_pool = True, ea_get = (\<lambda>_ _ _. Inr (200, [])), ea_lib = demo_lib\<rparr>"

definition demo_prices :: "price_row list" where
  "demo_prices = [dam_row ''Z'' (8 * usec_per_hour, 40)]"

lemma demo_series:
  "price_series [(1, 50), (3, 50)] = [(1, 50), (2, 50), (3, 50)]"
  by (simp add: price_series_def upto_rec1)

lemma demo_fetched:
  "get_day_ahead_prices demo_adapter s e (Some ''Z'') None =
     Inr (map (\<lambda>k. \<lparr>en_timestamp = (10 + k) * usec_per_hour, en_price_eur_mwh = 50, en_bidding_zone = ''Z'',
       en_currency = Some ''EUR'', en_resolution = Some ''PT60M''\<rparr>) [0, 1, 2])"
  by (simp add: get_day_ahead_prices_def chosen_zone_def demo_adapter_def parse_price_document_def demo_lib_def
      parse_time_series_def parse_price_period_def parse_utc_time_def point_map_def xml_find_def Let_def NS_def strip_def is_space_def
      step_minutes_def demo_series usec_values)

lemma demo_hours: "hour_buckets_from (hour_floor_utc (8 * usec_per_hour)) (13 * usec_per_hour) = map (\<lambda>k. k * usec_per_hour) [8, 9, 10, 11, 12]"
  by (simp add: hour_floor_utc_def floor_hour_def usec_values hour_buckets_step hour_buckets_stop)

lemma demo_unique: "prices_unique demo_prices"
  by (simp add: prices_unique_def demo_prices_def)

theorem zone_prices_exact_witness:
  "prices_unique demo_prices \<and>
   map_of (fetch_prices_by_zone demo_prices ''Z'' (8 * usec_per_hour) (13 * usec_per_hour) usec_per_hour) (9 * usec_per_hour) = Some (1 / 25)"
proof (intro conjI demo_unique iffD2 [OF zone_prices_exact [OF demo_unique]])
  show "9 * usec_per_hour mod usec_per_hour = 0" "hour_floor_utc (8 * usec_per_hour) \<le> 9 * usec_per_hour" "9 * usec_per_hour < 13 * usec_per_hour"
    by (simp_all add: hour_floor_utc_def floor_hour_def usec_values)
  show "\<exists>r. prices_hour demo_prices ''Z'' usec_per_hour (9 * usec_per_hour) r \<and> ep_lmp_price_mwh r = Some (1 / 25 * 1000)"
    by (simp add: prices_hour_def demo_prices_def dam_row_def zone_row_def usec_values)
qed

theorem read_through_fills_witness:
  "map_of (the (fst (fetch_or_pull_prices_by_zone (\<lambda>_. False) demo_adapter ''Z'' (8 * usec_per_hour) (13 * usec_per_hour) usec_per_hour demo_prices)))
     (12 * usec_per_hour) = Some (1 / 20)"
proof -
  let ?r = "fetch_or_pull_prices_by_zone (\<lambda>_. False) demo_adapter ''Z'' (8 * usec_per_hour) (13 * usec_per_hour) usec_per_hour demo_prices"
  obtain pm where pm: "fst ?r = Some pm"
    using pull_answers [of "\<lambda>_. False"] by blast
  have none: "map_of (fetch_prices_by_zone demo_prices ''Z'' (8 * usec_per_hour) (13 * usec_per_hour) usec_per_hour) (12 * usec_per_hour) = None"
    unfolding map_of_zone_prices demo_hours
    by (simp add: known_prices_def dam_rows_def demo_prices_def dam_row_def List.map_filter_def usec_values hour_floor_utc_def floor_hour_def)
  let ?p = "\<lparr>en_timestamp = (10 + 2) * usec_per_hour, en_price_eur_mwh = 50, en_bidding_zone = ''Z'',
    en_currency = Some ''EUR'', en_resolution = Some ''PT60M''\<rparr>"
  note fills = conjunct2 [OF conjunct2 [OF conjunct2 [OF read_through_fills [OF demo_unique _ prod.collapse [symmetric]]]], rule_format]
  have "map_of pm (en_timestamp ?p) = Some (price_per_kwh ?p)"
  proof (rule fills)
    show "fst ?r = Some pm" by (rule pm)
    show "get_day_ahead_prices demo_adapter (8 * usec_per_hour) (13 * usec_per_hour) (Some ''Z'') None = Inr (map (\<lambda>k.
      \<lparr>en_timestamp = (10 + k) * usec_per_hour, en_price_eur_mwh = 50, en_bidding_zone = ''Z'',
       en_currency = Some ''EUR'', en_resolution = Some ''PT60M''\<rparr>) [0, 1, 2])" by (rule demo_fetched)
    show "map_of (fetch_prices_by_zone demo_prices ''Z'' (8 * usec_per_hour) (13 * usec_per_hour) usec_per_hour) (en_timestamp ?p) = None"
      using none by simp
  qed (simp_all add: demo_hours, simp_all add: demo_prices_def dam_row_def ep_key_def usec_values demo_adapter_def)
  with pm show ?thesis by (simp add: price_per_kwh_def)
qed

end
