(* ===== verification/State_Assembler.thy ===== *)
theory State_Assembler
  imports Optimizer Recurring Electricity_Prices
begin

text \<open>
  The assembly of a depot's state, \<open>src/src/core/state/assembler.py\<close>, with the queries of
  \<open>src/src/db/queries.py\<close> it calls. The tables of both databases are the fields of \<open>asm_db\<close>, the SQL is a
  definition over them, and \<open>db_fails\<close> says which queries raise a database error. Times are UTC instants; the
  session of the database is in UTC. Where SQL or a Python set leaves an order open, the rows are taken in
  the order of the table. The zone database, JSON and the format of a date are arguments. Columns that the
  code reads with \<open>float\<close> without a check for NULL and that the model does not make optional are not NULL.
\<close>

section \<open>Model: the tables\<close>

datatype query =
    QVehicles | QSocs | QZone | QPrices nat | QVdv463 | QTimezone | QSchedules | QPeak | QPriceRate | QSiteRate
  | QStations | QTelemetryEnergy | QBuildingLoad | QWeather | QOrganization | QIncoming | QRecentTelemetry | QConfig

record site_row =
  st_id :: string
  st_timezone :: "string option"
  st_tariff_config :: pyval
  st_max_grid_kw :: "pyfloat option"
  st_demand_charge_rate_kw :: "pyfloat option"
  st_building_load_assumption_kw :: "pyfloat option"
  st_access_default :: "string option"
  st_tariff_type :: "string option"
  st_energy_cap_kwh :: "pyfloat option"
  st_under_cap_rate :: "pyfloat option"
  st_over_cap_penalty :: "pyfloat option"
  st_cap_billing_period :: "string option"
  st_organization_id :: "string option"

record vehicle_row =
  vh_id :: string
  vh_site_id :: string
  vh_battery_capacity_kwh :: "pyfloat option"
  vh_max_charge_rate_kw :: "pyfloat option"
  vh_id_tag :: "string option"
  vh_external_id :: "string option"

record station_row =
  cs_id :: string
  cs_site_id :: string
  cs_max_power_kw :: "pyfloat option"
  cs_efficiency :: "pyfloat option"

record battery_row =
  bt_site_id :: string
  bt_capacity_kwh :: "pyfloat option"
  bt_max_power_kw :: "pyfloat option"
  bt_efficiency :: "pyfloat option"
  bt_soc_min :: "pyfloat option"
  bt_soc_max :: "pyfloat option"

record access_row =
  ac_charging_station_id :: string
  ac_vehicle_id :: string
  ac_is_accessible :: bool

record reading =
  rg_time :: dtime
  rg_vehicle_id :: "string option"
  rg_charger_id :: "string option"
  rg_soc :: "pyfloat option"
  rg_charging_kw :: "pyfloat option"
  rg_is_plugged :: "bool option"

record vdv463_row =
  vq_depot_id :: string
  vq_status :: string
  vq_vehicle_id :: string
  vq_expected_arrival :: "dtime option"
  vq_requested_departure :: "dtime option"
  vq_min_target_soc :: "pyfloat option"
  vq_max_target_soc :: "pyfloat option"
  vq_priority :: "int option"
  vq_preconditioning_type :: "string option"
  vq_preconditioning_start :: "dtime option"
  vq_ambient_temperature :: "pyfloat option"
  vq_requested_finish_time :: "dtime option"
  vq_hvac_aux_power :: "pyfloat option"

record run_row =
  rn_depot_id :: string
  rn_run_time :: dtime
  rn_peak_demand_kw :: "pyfloat option"

record demand_row =
  dr_depot_id :: string
  dr_time :: dtime
  dr_demand_kw :: "pyfloat option"

record load_row =
  bl_depot_id :: string
  bl_time :: dtime
  bl_power_kw :: pyfloat

record weather_row =
  wr_forecast_id :: string
  wr_depot_id :: string
  wr_source :: string
  wr_fetched_at :: dtime
  wr_forecast_for :: dtime
  wr_temp_f :: "pyfloat option"
  wr_temp_max_f :: "pyfloat option"
  wr_temp_min_f :: "pyfloat option"
  wr_precip_in :: "pyfloat option"
  wr_solar_rad :: "pyfloat option"

record message_row =
  im_dest_depot_id :: string
  im_status :: string
  im_vehicle_id :: string
  im_expected_soc :: pyfloat
  im_arrival_time :: dtime
  im_battery_kwh :: pyfloat
  im_max_charge_kw :: pyfloat
  im_origin_depot_id :: string

text \<open>The tables that a deployment may lack are optional; \<open>db_is_uuid\<close> says which texts \<open>UUID(...)\<close> accepts.\<close>

record asm_db =
  db_fails :: "query \<Rightarrow> bool"
  db_sites :: "site_row list"
  db_vehicles :: "vehicle_row list"
  db_stations :: "station_row list"
  db_batteries :: "battery_row list"
  db_access :: "access_row list"
  db_telemetry :: "reading list"
  db_vehicle_telemetry :: "reading list option"
  db_vdv463 :: "vdv463_row list option"
  db_schedules :: "ManualRow list"
  db_templates :: "RecurringTemplate list"
  db_cancellations :: "ScheduleCancellation list"
  db_runs :: "run_row list"
  db_demand :: "demand_row list"
  db_building_load :: "load_row list"
  db_weather :: "weather_row list"
  db_messages :: "message_row list"
  db_adapter :: entsoe_adapter
  db_loads :: "string \<Rightarrow> pyval option"
  db_zone_info :: "string \<Rightarrow> zone option"
  db_isoformat :: "dtime \<Rightarrow> string"
  db_is_uuid :: "string \<Rightarrow> bool"

definition PostgresError :: py_error where
  "PostgresError = OtherError ''PostgresError''"

definition site :: "asm_db \<Rightarrow> string \<Rightarrow> site_row option" where
  "site db depot = List.find (\<lambda>s. st_id s = depot) (db_sites db)"

definition depot_vehicles :: "asm_db \<Rightarrow> string \<Rightarrow> vehicle_row list" where
  "depot_vehicles db depot = filter (\<lambda>v. vh_site_id v = depot) (db_vehicles db)"

definition depot_stations :: "asm_db \<Rightarrow> string \<Rightarrow> station_row list" where
  "depot_stations db depot = filter (\<lambda>c. cs_site_id c = depot) (db_stations db)"

section \<open>Model: the assembler\<close>

record schedule =
  sd_vehicle_id :: string
  sd_return_time :: dtime
  sd_departure_time :: dtime
  sd_energy_kwh :: pyfloat

text \<open>The caches are \<open>None\<close> until they are filled.\<close>

record StateAssembler =
  sa_depot_id :: string
  sa_config :: DepotConfig
  sa_last_building_load_source :: string
  sa_last_schedules :: "schedule list"
  sa_last_schedules_present :: bool
  sa_last_weather_features :: "pyval list"
  sa_last_weather_forecast_id :: "string option"
  sa_last_horizon :: "(dtime \<times> dtime) option"
  sa_last_organization_id :: "string option"
  sa_last_recent_telemetry :: "pyval list"
  sa_bidding_zone_cache :: "string option option"
  sa_depot_timezone_cache :: "zone option"

definition sa_init :: "string \<Rightarrow> DepotConfig \<Rightarrow> StateAssembler" where
  "sa_init depot config =
     \<lparr>sa_depot_id = depot, sa_config = config, sa_last_building_load_source = ''absent'', sa_last_schedules = [],
      sa_last_schedules_present = False, sa_last_weather_features = [], sa_last_weather_forecast_id = None,
      sa_last_horizon = None, sa_last_organization_id = None, sa_last_recent_telemetry = [],
      sa_bidding_zone_cache = None, sa_depot_timezone_cache = None\<rparr>"

section \<open>Model: states of charge\<close>

text \<open>\<open>DISTINCT ON (vehicle_id) ... ORDER BY vehicle_id, time DESC, src_priority\<close>.\<close>

definition soc_readings :: "nat \<Rightarrow> string \<Rightarrow> dtime \<Rightarrow> reading list \<Rightarrow> ((dtime \<times> nat) \<times> pyfloat) list" where
  "soc_readings src_priority vid recency_floor rows =
     List.map_filter (\<lambda>r. if rg_vehicle_id r = Some vid \<and> rg_time r > recency_floor
       then map_option (Pair (- rg_time r, src_priority)) (rg_soc r) else None) rows"

definition freshest_soc :: "asm_db \<Rightarrow> string \<Rightarrow> dtime \<Rightarrow> pyfloat option" where
  "freshest_soc db vid recency_floor =
     (case sort_key fst (soc_readings 0 vid recency_floor (db_telemetry db) @
             (case db_vehicle_telemetry db of None \<Rightarrow> [] | Some rows \<Rightarrow> soc_readings 1 vid recency_floor rows)) of
        [] \<Rightarrow> None
      | r # _ \<Rightarrow> Some (snd r))"

definition fetch_freshest_vehicle_socs :: "asm_db \<Rightarrow> string list \<Rightarrow> dtime \<Rightarrow> (string \<times> pyfloat) list" where
  "fetch_freshest_vehicle_socs db vehicle_ids recency_floor =
     List.map_filter (\<lambda>vid. map_option (Pair vid) (freshest_soc db vid recency_floor)) (sort (remdups vehicle_ids))"

definition get_vehicle_socs :: "asm_db \<Rightarrow> string \<Rightarrow> dtime \<Rightarrow> (string, pyfloat) pydict result" where
  "get_vehicle_socs db depot now =
     (if db_fails db QVehicles then Inl PostgresError
      else let vehicle_ids = map vh_id (depot_vehicles db depot)
           in if vehicle_ids = [] then Inr []
              else if db_fails db QSocs then Inl PostgresError
              else Inr (dict_of_rows (fetch_freshest_vehicle_socs db vehicle_ids (now - 24 * usec_per_hour))))"

definition get_battery_soc :: pyfloat where
  "get_battery_soc = 1 / 2"

text \<open>The default for a vehicle without a reading.\<close>

definition with_default_socs :: "DepotConfig \<Rightarrow> (string, pyfloat) pydict \<Rightarrow> (string, pyfloat) pydict" where
  "with_default_socs config socs =
     (let socs' = (if socs = [] then map (\<lambda>vc. (fst vc, 1 / 2)) (vehicle_capacities config) else socs);
          missing_vehicles = filter (\<lambda>vid. map_of socs' vid = None) (map fst (vehicle_capacities config))
      in foldl (\<lambda>d vid. AList.update vid (1 / 2) d) socs' missing_vehicles)"

section \<open>Model: prices\<close>

text \<open>\<open>min(keys, key=distance)\<close>: the first of the closest.\<close>

definition closest :: "dtime \<Rightarrow> dtime list \<Rightarrow> dtime" where
  "closest t ks = foldl (\<lambda>b x. if \<bar>x - t\<bar> < \<bar>b - t\<bar> then x else b) (hd ks) (tl ks)"

definition default_price_kwh :: pyfloat where
  "default_price_kwh = 15 / 100"

definition step_price :: "(dtime, pyfloat) pydict \<Rightarrow> dtime \<Rightarrow> pyfloat" where
  "step_price price_map hour_floor =
     (case map_of price_map hour_floor of
        Some p \<Rightarrow> p
      | None \<Rightarrow>
          if price_map = [] then default_price_kwh
          else let closest_time = closest hour_floor (map fst price_map)
               in if total_seconds \<bar>closest_time - hour_floor\<bar> < 3600 then the (map_of price_map closest_time) else default_price_kwh)"

definition step_prices :: "pyfloat \<Rightarrow> dtime \<Rightarrow> int \<Rightarrow> (dtime, pyfloat) pydict \<Rightarrow> pyfloat list" where
  "step_prices dt start n_steps price_map =
     map (\<lambda>t. step_price price_map (hour_floor_utc (start + int t * timedelta_hours dt))) [0..<nat n_steps]"

text \<open>The zone is cached unless its query fails. The result, the assembler and the table of prices after.\<close>

definition resolve_zone :: "asm_db \<Rightarrow> StateAssembler \<Rightarrow> string option option \<times> StateAssembler" where
  "resolve_zone db sa =
     (case sa_bidding_zone_cache sa of
        Some zone \<Rightarrow> (Some zone, sa)
      | None \<Rightarrow>
          if db_fails db QZone then (None, sa)
          else let zone = resolve_bidding_zone (db_loads db) (map_option (\<lambda>s. (st_timezone s, st_tariff_config s)) (site db (sa_depot_id sa)))
               in (Some zone, sa\<lparr>sa_bidding_zone_cache := Some zone\<rparr>))"

definition get_prices ::
  "asm_db \<Rightarrow> dtime \<Rightarrow> dtime \<Rightarrow> int \<Rightarrow> StateAssembler \<Rightarrow> price_row list \<Rightarrow> pyfloat list \<times> StateAssembler \<times> price_row list" where
  "get_prices db start end' n_steps sa tab =
     (let default_prices = replicate (nat n_steps) default_price_kwh
      in case resolve_zone db sa of
           (Some (Some (c # cs)), sa1) \<Rightarrow>
             (case fetch_or_pull_prices_by_zone (\<lambda>k. db_fails db (QPrices k)) (db_adapter db) (c # cs) start end' usec_per_hour tab of
                (None, tab') \<Rightarrow> (default_prices, sa1, tab')
              | (Some price_map, tab') \<Rightarrow>
                  (if price_map = [] then default_prices else step_prices (delta_t (sa_config sa)) start n_steps price_map, sa1, tab'))
         | (_, sa1) \<Rightarrow> (default_prices, sa1, tab))"

section \<open>Model: VDV 463 requests\<close>

definition get_vdv463_charging_requests :: "asm_db \<Rightarrow> string \<Rightarrow> dtime \<Rightarrow> dtime \<Rightarrow> vdv463_row list result" where
  "get_vdv463_charging_requests db depot start end' =
     (case db_vdv463 db of
        None \<Rightarrow> Inr []
      | Some rows \<Rightarrow>
          if db_fails db QVdv463 then Inl PostgresError
          else Inr (sort_key (\<lambda>r. the (vq_expected_arrival r)) (filter (\<lambda>r. vq_depot_id r = depot \<and> vq_status r = ''active'' \<and>
                 (case vq_requested_departure r of None \<Rightarrow> False | Some d \<Rightarrow> d \<ge> start) \<and>
                 (case vq_expected_arrival r of None \<Rightarrow> False | Some a \<Rightarrow> a \<le> end')) rows)))"

record vdv_merge =
  vm_schedule_by_vehicle :: "(string, schedule) pydict"
  vm_departure_soc_min :: "(string, pyfloat) pydict"
  vm_departure_soc_max :: "(string, pyfloat) pydict"
  vm_priorities :: "(string, int) pydict"
  vm_preconditioning :: "(string, pyval) pydict list"

definition energy_or_default :: "pyfloat option \<Rightarrow> pyfloat" where
  "energy_or_default e = (case e of None \<Rightarrow> 100 | Some x \<Rightarrow> if x = 0 then 100 else x)"

definition schedule_of :: "Trip \<Rightarrow> schedule" where
  "schedule_of s =
     \<lparr>sd_vehicle_id = tp_vehicle_id s, sd_return_time = tp_return s, sd_departure_time = tp_departure s,
      sd_energy_kwh = energy_or_default (tp_energy_kwh s)\<rparr>"

text \<open>A state of charge above 1 is a percentage.\<close>

definition unit_soc :: "pyfloat \<Rightarrow> pyfloat" where
  "unit_soc s = (if s \<le> 1 then s else s / 100)"

definition precond_request :: "string \<Rightarrow> dtime \<Rightarrow> dtime \<Rightarrow> pyfloat \<Rightarrow> (string, pyval) pydict" where
  "precond_request vid start_ts end_ts power_kw =
     [(''vehicle_id'', PStr vid), (''start_time'', PTime start_ts), (''end_time'', PTime end_ts), (''power_kw'', PFloat power_kw)]"

definition preconditioning_of :: "vdv463_row \<Rightarrow> dtime \<Rightarrow> (string, pyval) pydict list" where
  "preconditioning_of r dep =
     (case (vq_preconditioning_type r = Some ''manual'', vq_preconditioning_start r, vq_hvac_aux_power r) of
        (True, Some start_ts, Some hvac) \<Rightarrow> [precond_request (vq_vehicle_id r) start_ts dep (hvac / 1000)]
      | _ \<Rightarrow>
          (case (vq_preconditioning_type r = Some ''automatic'', vq_requested_finish_time r, vq_ambient_temperature r) of
             (True, Some finish_ts, Some ambient) \<Rightarrow>
               (let duration_min = max 0 ((18 - ambient) * 3)
                in [precond_request (vq_vehicle_id r) (finish_ts - round_half_even (duration_min * of_int usec_per_min)) finish_ts 10])
           | _ \<Rightarrow> []))"

definition merge_request :: "vdv_merge \<Rightarrow> vdv463_row \<Rightarrow> vdv_merge" where
  "merge_request m r =
     (case (vq_expected_arrival r, vq_requested_departure r) of
        (Some ret, Some dep) \<Rightarrow>
          (let vid = vq_vehicle_id r
           in \<lparr>vm_schedule_by_vehicle = AList.update vid
                 \<lparr>sd_vehicle_id = vid, sd_return_time = ret, sd_departure_time = dep, sd_energy_kwh = 100\<rparr> (vm_schedule_by_vehicle m),
               vm_departure_soc_min = (case vq_min_target_soc r of None \<Rightarrow> vm_departure_soc_min m
                  | Some s \<Rightarrow> AList.update vid (unit_soc s) (vm_departure_soc_min m)),
               vm_departure_soc_max = (case vq_max_target_soc r of None \<Rightarrow> vm_departure_soc_max m
                  | Some s \<Rightarrow> AList.update vid (unit_soc s) (vm_departure_soc_max m)),
               vm_priorities = (case vq_priority r of None \<Rightarrow> vm_priorities m | Some p \<Rightarrow> AList.update vid p (vm_priorities m)),
               vm_preconditioning = vm_preconditioning m @ preconditioning_of r dep\<rparr>)
      | _ \<Rightarrow> m)"

definition by_vehicle :: "Trip list \<Rightarrow> (string, schedule) pydict" where
  "by_vehicle schedules = foldl (\<lambda>d s. AList.update (tp_vehicle_id s) (schedule_of s) d) [] schedules"

definition merge_vdv463_into_schedules :: "Trip list \<Rightarrow> vdv463_row list \<Rightarrow> vdv_merge" where
  "merge_vdv463_into_schedules schedules requests =
     foldl merge_request
       \<lparr>vm_schedule_by_vehicle = by_vehicle schedules, vm_departure_soc_min = [], vm_departure_soc_max = [], vm_priorities = [],
        vm_preconditioning = []\<rparr> requests"

definition merged_schedules :: "vdv_merge \<Rightarrow> schedule list" where
  "merged_schedules m = map snd (vm_schedule_by_vehicle m)"

section \<open>Model: schedules\<close>

definition get_depot_timezone :: "asm_db \<Rightarrow> StateAssembler \<Rightarrow> zone \<times> StateAssembler" where
  "get_depot_timezone db sa =
     (case sa_depot_timezone_cache sa of
        Some z \<Rightarrow> (z, sa)
      | None \<Rightarrow>
          (let z = (if db_fails db QTimezone then fixed_zone 0
                    else case Option.bind (site db (sa_depot_id sa)) st_timezone of
                           Some (c # cs) \<Rightarrow> (case db_zone_info db (c # cs) of Some z \<Rightarrow> z | None \<Rightarrow> fixed_zone 0)
                         | _ \<Rightarrow> fixed_zone 0)
           in (z, sa\<lparr>sa_depot_timezone_cache := Some z\<rparr>)))"

definition utc_date :: "dtime \<Rightarrow> pydate" where
  "utc_date t = fst (z_local (fixed_zone 0) t)"

definition fetch_recurring_horizon_data ::
  "RecurringTemplate list \<Rightarrow> ScheduleCancellation list \<Rightarrow> string \<Rightarrow> dtime \<Rightarrow> dtime \<Rightarrow>
     RecurringTemplate list \<times> ScheduleCancellation list" where
  "fetch_recurring_horizon_data templates cancellations depot horizon_start horizon_end =
     (let pad_start = toordinal (utc_date horizon_start) - 1;
          pad_end = toordinal (utc_date horizon_end) + 1;
          template_rows = filter (\<lambda>t. rt_depot_id t = depot \<and> rt_active t \<and> toordinal (rt_start_date t) \<le> pad_end \<and>
             (case rt_end_date t of None \<Rightarrow> True | Some e \<Rightarrow> toordinal e \<ge> pad_start)) templates
      in if template_rows = [] then ([], [])
         else (template_rows, filter (\<lambda>c. cx_template_id c \<in> set (map rt_template_id template_rows) \<and>
                 pad_start \<le> toordinal (cx_occurrence_date c) \<and> toordinal (cx_occurrence_date c) \<le> pad_end) cancellations))"

definition manual_rows :: "asm_db \<Rightarrow> string \<Rightarrow> dtime \<Rightarrow> dtime \<Rightarrow> ManualRow list" where
  "manual_rows db depot start end' =
     sort_key tp_departure (filter (\<lambda>r. tp_vehicle_id r \<in> set (map vh_id (depot_vehicles db depot)) \<and> start \<le> tp_departure r \<and>
       tp_departure r < end') (db_schedules db))"

definition get_schedules :: "asm_db \<Rightarrow> dtime \<Rightarrow> dtime \<Rightarrow> StateAssembler \<Rightarrow> Trip list result \<times> StateAssembler" where
  "get_schedules db start end' sa =
     (if db_fails db QSchedules then (Inl PostgresError, sa)
      else if \<not> db_is_uuid db (sa_depot_id sa) then (Inl ValueError, sa)
      else let manual = manual_rows db (sa_depot_id sa) start end';
               horizon = fetch_recurring_horizon_data (db_templates db) (db_cancellations db) (sa_depot_id sa) start end'
           in if fst horizon = [] then (Inr (map strip_manual manual), sa)
              else let tz = get_depot_timezone db sa
                   in (rbind (expand_recurring_templates (fst horizon) (snd horizon) (fst tz) True start end')
                         (\<lambda>recurring_rows. Inr (merge_recurring_with_manual (fst tz) manual recurring_rows)), snd tz))"

definition mark_away :: "int \<Rightarrow> dtime \<Rightarrow> schedule \<Rightarrow> bool list \<Rightarrow> bool list" where
  "mark_away step start sched row =
     map (\<lambda>(t, a). if sd_departure_time sched \<le> start + int t * step \<and> start + int t * step < sd_return_time sched then False else a)
       (enumerate 0 row)"

definition compute_availability :: "DepotConfig \<Rightarrow> schedule list \<Rightarrow> dtime \<Rightarrow> int \<Rightarrow> (string, bool list) pydict" where
  "compute_availability config schedules start n_steps =
     foldl (\<lambda>av sched. case map_of av (sd_vehicle_id sched) of
         None \<Rightarrow> av
       | Some row \<Rightarrow> AList.update (sd_vehicle_id sched) (mark_away (timedelta_hours (delta_t config)) start sched row) av)
       (map (\<lambda>vc. (fst vc, replicate (nat n_steps) True)) (vehicle_capacities config)) schedules"

definition departure_index :: "int \<Rightarrow> dtime \<Rightarrow> dtime \<Rightarrow> int" where
  "departure_index step start dep = trunc (of_int (dep - start) / of_int step)"

definition compute_departure_times :: "DepotConfig \<Rightarrow> schedule list \<Rightarrow> dtime \<Rightarrow> (string, int) pydict result" where
  "compute_departure_times config schedules start =
     (let step = timedelta_hours (delta_t config)
      in if schedules \<noteq> [] \<and> step = 0 then Inl ZeroDivisionError
         else Inr (foldl (\<lambda>d sched. let t_idx = departure_index step start (sd_departure_time sched)
                 in case map_of d (sd_vehicle_id sched) of
                      Some t \<Rightarrow> if t_idx < t then AList.update (sd_vehicle_id sched) t_idx d else d
                    | None \<Rightarrow> AList.update (sd_vehicle_id sched) t_idx d) [] schedules))"

definition compute_energy_requirements :: "schedule list \<Rightarrow> (string, pyfloat) pydict" where
  "compute_energy_requirements schedules =
     foldl (\<lambda>d sched. case map_of d (sd_vehicle_id sched) of
         Some _ \<Rightarrow> d
       | None \<Rightarrow> AList.update (sd_vehicle_id sched) (energy_or_default (Some (sd_energy_kwh sched))) d) [] schedules"

section \<open>Model: tariff\<close>

definition utc_month :: "dtime \<Rightarrow> int \<times> int" where
  "utc_month t = (let d = utc_date t in (fst d, fst (snd d)))"

definition get_current_month_peak :: "asm_db \<Rightarrow> string \<Rightarrow> dtime \<Rightarrow> pyfloat result" where
  "get_current_month_peak db depot now =
     (if db_fails db QPeak then Inl PostgresError
      else let peaks = List.map_filter (\<lambda>r. if rn_depot_id r = depot \<and> utc_month (rn_run_time r) = utc_month now
                         then rn_peak_demand_kw r else None) (db_runs db)
           in Inr (if peaks = [] then 0 else foldl max (hd peaks) (tl peaks)))"

definition get_demand_charge_rate :: "asm_db \<Rightarrow> string \<Rightarrow> pyfloat result" where
  "get_demand_charge_rate db depot =
     (if db_fails db QPriceRate then Inl PostgresError
      else case sort_key (\<lambda>r. - dr_time r) (filter (\<lambda>r. dr_depot_id r = depot \<and> dr_demand_kw r \<noteq> None) (db_demand db)) of
             r # _ \<Rightarrow> Inr (the (dr_demand_kw r))
           | [] \<Rightarrow>
               if db_fails db QSiteRate then Inl PostgresError
               else Inr (case Option.bind (site db depot) st_demand_charge_rate_kw of Some rate \<Rightarrow> rate | None \<Rightarrow> 20))"

text \<open>Energy of one charger and vehicle: each sample holds until the next, the end, or for half an hour.\<close>

definition capped_hours :: "dtime \<Rightarrow> dtime \<Rightarrow> dtime option \<Rightarrow> pyfloat" where
  "capped_hours now t next_time =
     max (total_seconds (min (min (case next_time of None \<Rightarrow> now | Some u \<Rightarrow> u) (t + 30 * usec_per_min)) now - t) / 3600) 0"

fun held_kwh :: "dtime \<Rightarrow> (dtime \<times> pyfloat) list \<Rightarrow> pyfloat" where
  "held_kwh now [] = 0"
| "held_kwh now [(t, kw)] = kw * capped_hours now t None"
| "held_kwh now ((t, kw) # (t', kw') # rest) = kw * capped_hours now t (Some t') + held_kwh now ((t', kw') # rest)"

definition period_start :: "dtime \<Rightarrow> dtime" where
  "period_start now = (let d = utc_date now in (toordinal (fst d, fst (snd d), 1) - 1) * usec_per_day)"

definition energy_samples :: "string list \<Rightarrow> dtime \<Rightarrow> dtime \<Rightarrow> reading list \<Rightarrow> ((string \<times> string option) \<times> dtime \<times> pyfloat) list" where
  "energy_samples charger_ids lower now rows =
     List.map_filter (\<lambda>r. case (rg_charger_id r, rg_charging_kw r) of
         (Some c, Some kw) \<Rightarrow> if c \<in> set charger_ids \<and> lower \<le> rg_time r \<and> rg_time r \<le> now then Some ((c, rg_vehicle_id r), rg_time r, kw) else None
       | _ \<Rightarrow> None) rows"

definition telemetry_kwh :: "string list \<Rightarrow> dtime \<Rightarrow> dtime \<Rightarrow> reading list \<Rightarrow> pyfloat" where
  "telemetry_kwh charger_ids lower now rows =
     (let samples = energy_samples charger_ids lower now rows
      in sum_list (map (\<lambda>k. held_kwh now (sort_key fst (map snd (filter (\<lambda>s. fst s = k) samples)))) (remdups (map fst samples))))"

definition get_cumulative_kwh_period :: "asm_db \<Rightarrow> StateAssembler \<Rightarrow> dtime \<Rightarrow> pyfloat" where
  "get_cumulative_kwh_period db sa now =
     (let fallback_kwh = (case energy_cap_kwh (sa_config sa) of None \<Rightarrow> 0 | Some c \<Rightarrow> c)
      in if db_fails db QStations then fallback_kwh
         else let charger_ids = map cs_id (depot_stations db (sa_depot_id sa))
              in if charger_ids = [] then 0
                 else if db_fails db QTelemetryEnergy then fallback_kwh
                 else telemetry_kwh charger_ids (period_start now) now (db_telemetry db))"

section \<open>Model: building load\<close>

definition building_power_forecast :: "pyfloat \<Rightarrow> dtime \<Rightarrow> int \<Rightarrow> pyfloat list result" where
  "building_power_forecast dt start n_steps =
     (if n_steps \<le> 0 then Inl ZeroDivisionError
      else Inr (map (\<lambda>t. let hour = hour_of_day (start + int t * timedelta_hours dt)
                  in if 8 \<le> hour \<and> hour < 18 then 50 + of_int (hour - 8) * 3 else 20) [0..<nat n_steps]))"

text \<open>The loop over the steps, with the last power; the division is that of the log line.\<close>

fun metered_power :: "(dtime, pyfloat) pydict \<Rightarrow> pyfloat \<Rightarrow> dtime list \<Rightarrow> pyfloat list" where
  "metered_power power_map last_power [] = []"
| "metered_power power_map last_power (step_time # ts) =
     (let p = (case map_of power_map step_time of
            Some x \<Rightarrow> x
          | None \<Rightarrow>
              if power_map = [] then last_power
              else let closest_time = closest step_time (map fst power_map)
                   in if total_seconds \<bar>closest_time - step_time\<bar> < 1800 then the (map_of power_map closest_time) else last_power)
      in p # metered_power power_map p ts)"

definition get_building_power ::
  "asm_db \<Rightarrow> dtime \<Rightarrow> dtime \<Rightarrow> int \<Rightarrow> StateAssembler \<Rightarrow> pyfloat list result \<times> StateAssembler" where
  "get_building_power db start end' n_steps sa =
     (let dt = delta_t (sa_config sa);
          rows = sort_key bl_time (filter (\<lambda>r. bl_depot_id r = sa_depot_id sa \<and> start \<le> bl_time r \<and> bl_time r < end') (db_building_load db))
      in if building_load_assumption_kw (sa_config sa) > 0
         then (Inr (replicate (nat n_steps) 0), sa\<lparr>sa_last_building_load_source := ''static_assumption''\<rparr>)
         else if db_fails db QBuildingLoad \<or> rows = []
         then (building_power_forecast dt start n_steps, sa\<lparr>sa_last_building_load_source := ''forecast_fallback''\<rparr>)
         else (if n_steps \<le> 0 then Inl ZeroDivisionError
               else Inr (metered_power (dict_of_rows (map (\<lambda>r. (bl_time r, bl_power_kw r)) rows)) 0
                      (map (\<lambda>t. start + int t * timedelta_hours dt) [0..<nat n_steps])),
               sa\<lparr>sa_last_building_load_source := ''meter''\<rparr>))"

section \<open>Model: snapshot extras\<close>

definition DEFAULT_WEATHER_SOURCE :: string where
  "DEFAULT_WEATHER_SOURCE = ''open_meteo''"

definition get_recent_telemetry :: "asm_db \<Rightarrow> string \<Rightarrow> dtime \<Rightarrow> pyval list" where
  "get_recent_telemetry db depot now =
     (let vehicle_ids = map vh_id (depot_vehicles db depot)
      in if db_fails db QVehicles \<or> vehicle_ids = [] \<or> db_fails db QRecentTelemetry then []
         else map (\<lambda>r. PDict
                [(''time'', PStr (db_isoformat db (rg_time r))), (''vehicle_id'', popt PStr (rg_vehicle_id r)),
                 (''soc'', popt PFloat (rg_soc r)), (''charging_kw'', popt PFloat (rg_charging_kw r)),
                 (''is_plugged'', popt PBool (rg_is_plugged r))])
              (sort_key rg_time (filter (\<lambda>r. (case rg_vehicle_id r of None \<Rightarrow> False | Some v \<Rightarrow> v \<in> set vehicle_ids) \<and>
                 rg_time r \<ge> now - usec_per_hour) (db_telemetry db))))"

text \<open>The bundle that was current at the start of the horizon.\<close>

definition bundle_rows :: "asm_db \<Rightarrow> string \<Rightarrow> weather_row list" where
  "bundle_rows db depot = filter (\<lambda>w. wr_depot_id w = depot \<and> wr_source w = DEFAULT_WEATHER_SOURCE) (db_weather db)"

definition get_weather_features :: "asm_db \<Rightarrow> string \<Rightarrow> dtime \<Rightarrow> dtime \<Rightarrow> pyval list \<times> string option" where
  "get_weather_features db depot start end' =
     (let visible = map wr_fetched_at (filter (\<lambda>w. wr_fetched_at w \<le> start) (bundle_rows db depot));
          rows = sort_key wr_forecast_for (filter (\<lambda>w. visible \<noteq> [] \<and> wr_fetched_at w = foldl max (hd visible) (tl visible) \<and>
            start \<le> wr_forecast_for w \<and> wr_forecast_for w < end') (bundle_rows db depot))
      in if db_fails db QWeather then ([], None)
         else case rows of
                [] \<Rightarrow> ([], None)
              | r # _ \<Rightarrow> (map (\<lambda>w. PDict [(''time'', PStr (db_isoformat db (wr_forecast_for w))), (''temp_f'', popt PFloat (wr_temp_f w)),
                           (''temp_max_f'', popt PFloat (wr_temp_max_f w)), (''temp_min_f'', popt PFloat (wr_temp_min_f w)),
                           (''precip_in'', popt PFloat (wr_precip_in w)), (''solar_rad'', popt PFloat (wr_solar_rad w))]) rows, Some (wr_forecast_id r)))"

definition get_organization_id :: "asm_db \<Rightarrow> string \<Rightarrow> string option" where
  "get_organization_id db depot = (if db_fails db QOrganization then None else Option.bind (site db depot) st_organization_id)"

definition fetch_snapshot_extras :: "asm_db \<Rightarrow> dtime \<Rightarrow> dtime \<Rightarrow> StateAssembler \<Rightarrow> StateAssembler" where
  "fetch_snapshot_extras db horizon_start horizon_end sa =
     (let weather = get_weather_features db (sa_depot_id sa) horizon_start horizon_end
      in sa\<lparr>sa_last_weather_features := fst weather, sa_last_weather_forecast_id := snd weather,
            sa_last_organization_id := get_organization_id db (sa_depot_id sa),
            sa_last_recent_telemetry := get_recent_telemetry db (sa_depot_id sa) horizon_start\<rparr>)"

section \<open>Model: incoming vehicles\<close>

definition external_id :: "asm_db \<Rightarrow> string \<Rightarrow> string" where
  "external_id db vid =
     (case Option.bind (List.find (\<lambda>v. vh_id v = vid) (db_vehicles db)) vh_external_id of
        Some (c # cs) \<Rightarrow> c # cs
      | _ \<Rightarrow> ''vehicle_'' @ vid)"

definition get_incoming_vehicles :: "asm_db \<Rightarrow> string \<Rightarrow> dtime \<Rightarrow> dtime \<Rightarrow> IncomingVehicle list" where
  "get_incoming_vehicles db depot start end' =
     (if db_fails db QIncoming then []
      else map (\<lambda>m. \<lparr>iv_vehicle_id = im_vehicle_id m, iv_external_id = external_id db (im_vehicle_id m),
                  iv_expected_soc = im_expected_soc m, iv_arrival_time = im_arrival_time m, iv_battery_kwh = im_battery_kwh m,
                  iv_max_charge_kw = im_max_charge_kw m, iv_origin_depot_id = im_origin_depot_id m\<rparr>)
             (sort_key im_arrival_time (filter (\<lambda>m. im_dest_depot_id m = depot \<and> start \<le> im_arrival_time m \<and> im_arrival_time m < end' \<and>
                im_status m \<in> {''pending'', ''acknowledged''}) (db_messages db))))"

text \<open>The loop over the incoming vehicles; it writes to the assembler's own configuration.\<close>

definition set_default :: "'k \<Rightarrow> 'v \<Rightarrow> ('k, 'v) pydict \<Rightarrow> ('k, 'v) pydict" where
  "set_default k v d = (case map_of d k of None \<Rightarrow> AList.update k v d | Some _ \<Rightarrow> d)"

definition integrate_incoming ::
  "dtime \<Rightarrow> int \<Rightarrow> (string, pyfloat) pydict \<times> (string, bool list) pydict \<times> DepotConfig \<Rightarrow> IncomingVehicle \<Rightarrow>
     (string, pyfloat) pydict \<times> (string, bool list) pydict \<times> DepotConfig" where
  "integrate_incoming now n_steps acc iv =
     (case acc of (socs, av, config) \<Rightarrow>
        (let vid = iv_vehicle_id iv;
             a = timestep config now (iv_arrival_time iv)
         in (AList.update vid (iv_expected_soc iv) socs,
             if 0 \<le> a \<and> a < n_steps
             then AList.update vid (replicate (nat a) False @ replicate (nat (n_steps - a)) True) av else av,
             config\<lparr>vehicle_capacities := set_default vid (iv_battery_kwh iv) (vehicle_capacities config),
                    vehicle_max_charge_kw := set_default vid (iv_max_charge_kw iv) (vehicle_max_charge_kw config)\<rparr>)))"

section \<open>Model: the state\<close>

text \<open>What follows the reads: the state of a depot from its parts.\<close>

record asm_inputs =
  ai_socs :: "(string, pyfloat) pydict"
  ai_prices :: "pyfloat list"
  ai_merge :: vdv_merge
  ai_departures :: "(string, int) pydict"
  ai_peak :: pyfloat
  ai_rate :: pyfloat
  ai_cumulative :: pyfloat
  ai_building :: "pyfloat list"
  ai_incoming :: "IncomingVehicle list"

definition assembled :: "dtime \<Rightarrow> int \<Rightarrow> DepotConfig \<Rightarrow> asm_inputs \<Rightarrow> DepotState \<times> DepotConfig" where
  "assembled now n_steps config inp =
     (let schedules = merged_schedules (ai_merge inp);
          r = foldl (integrate_incoming now n_steps)
                (with_default_socs config (ai_socs inp), compute_availability config schedules now n_steps, config) (ai_incoming inp)
      in (\<lparr>vehicle_socs = fst r, battery_soc = get_battery_soc, prices = ai_prices inp, demand_charge_rate = ai_rate inp,
           current_month_peak = ai_peak inp, vehicle_availability = fst (snd r),
           energy_requirements = compute_energy_requirements schedules, departure_times = ai_departures inp,
           building_power = ai_building inp, incoming_vehicles = ai_incoming inp,
           vehicle_departure_soc_min = vm_departure_soc_min (ai_merge inp), vehicle_departure_soc_max = vm_departure_soc_max (ai_merge inp),
           vehicle_priorities = vm_priorities (ai_merge inp), preconditioning_requests = vm_preconditioning (ai_merge inp),
           cumulative_kwh_period = ai_cumulative inp\<rparr>, snd (snd r)))"

definition steps_of :: "int \<Rightarrow> pyfloat \<Rightarrow> int result" where
  "steps_of horizon_hours dt = (if dt = 0 then Inl ZeroDivisionError else Inr (trunc (of_int horizon_hours / dt)))"

text \<open>The reads that follow the schedules.\<close>

definition finish_state ::
  "asm_db \<Rightarrow> dtime \<Rightarrow> dtime \<Rightarrow> int \<Rightarrow> (string, pyfloat) pydict \<Rightarrow> pyfloat list \<Rightarrow> Trip list \<Rightarrow> StateAssembler \<Rightarrow>
     DepotState result \<times> StateAssembler" where
  "finish_state db now horizon_end n_steps socs price_list trips sa =
     (case get_vdv463_charging_requests db (sa_depot_id sa) now horizon_end of
        Inl e \<Rightarrow> (Inl e, sa)
      | Inr requests \<Rightarrow>
          (let m = merge_vdv463_into_schedules trips requests
           in case compute_departure_times (sa_config sa) (merged_schedules m) now of
                Inl e \<Rightarrow> (Inl e, sa)
              | Inr departures \<Rightarrow>
                  (case get_current_month_peak db (sa_depot_id sa) now of
                     Inl e \<Rightarrow> (Inl e, sa)
                   | Inr peak \<Rightarrow>
                       (case get_demand_charge_rate db (sa_depot_id sa) of
                          Inl e \<Rightarrow> (Inl e, sa)
                        | Inr rate \<Rightarrow>
                            (let cumulative = (if tariff_type (sa_config sa) = ''energy_cap'' then get_cumulative_kwh_period db sa now else 0)
                             in case get_building_power db now horizon_end n_steps sa of
                                  (Inl e, sa1) \<Rightarrow> (Inl e, sa1)
                                | (Inr building, sa1) \<Rightarrow>
                                    (let r = assembled now n_steps (sa_config sa1)
                                           \<lparr>ai_socs = socs, ai_prices = price_list, ai_merge = m, ai_departures = departures, ai_peak = peak,
                                            ai_rate = rate, ai_cumulative = cumulative, ai_building = building,
                                            ai_incoming = get_incoming_vehicles db (sa_depot_id sa1) now horizon_end\<rparr>
                                     in (Inr (fst r),
                                         sa1\<lparr>sa_last_horizon := Some (now, horizon_end), sa_last_schedules := merged_schedules m,
                                             sa_config := snd r\<rparr>)))))))"

definition get_current_state ::
  "asm_db \<Rightarrow> dtime \<Rightarrow> int \<Rightarrow> StateAssembler \<Rightarrow> price_row list \<Rightarrow> DepotState result \<times> StateAssembler \<times> price_row list" where
  "get_current_state db now horizon_hours sa tab =
     (if horizon_hours \<le> 0 \<or> horizon_hours > 48 then (Inl ValueError, sa, tab)
      else case steps_of horizon_hours (delta_t (sa_config sa)) of
             Inl e \<Rightarrow> (Inl e, sa, tab)
           | Inr n_steps \<Rightarrow>
               (let horizon_end = now + horizon_hours * usec_per_hour
                in case get_vehicle_socs db (sa_depot_id sa) now of
                     Inl e \<Rightarrow> (Inl e, sa, tab)
                   | Inr socs \<Rightarrow>
                       (case get_prices db now horizon_end n_steps sa tab of (price_list, sa1, tab1) \<Rightarrow>
                          (case get_schedules db now horizon_end sa1 of
                             (Inl e, sa2) \<Rightarrow> (Inl e, sa2, tab1)
                           | (Inr trips, sa2) \<Rightarrow>
                               (let r = finish_state db now horizon_end n_steps socs price_list trips
                                      (sa2\<lparr>sa_last_schedules_present := trips \<noteq> []\<rparr>)
                                in (fst r, snd r, tab1))))))"

section \<open>Model: the configuration\<close>

definition access_default :: "string option \<Rightarrow> string" where
  "access_default v =
     (case v of
        None \<Rightarrow> ''explicit_matrix''
      | Some s \<Rightarrow> if s \<in> {''all_to_all'', ''explicit_matrix''} then s
                  else if s \<in> {''true'', ''t'', ''1''} then ''all_to_all'' else ''explicit_matrix'')"

text \<open>\<open>float\<close> of a column.\<close>

definition float_col :: "pyfloat option \<Rightarrow> pyfloat result" where
  "float_col v = (case v of None \<Rightarrow> Inl TypeError | Some x \<Rightarrow> Inr x)"

definition non_null :: "pyfloat option \<Rightarrow> pyfloat result" where
  "non_null v = (case v of None \<Rightarrow> Inl ValueError | Some x \<Rightarrow> Inr x)"

text \<open>\<open>GROUP BY max_power_kw, efficiency ORDER BY max_power_kw DESC\<close>, NULL first.\<close>

definition power_rank :: "pyfloat option \<Rightarrow> bool \<times> pyfloat" where
  "power_rank p = (case p of None \<Rightarrow> (False, 0) | Some x \<Rightarrow> (True, - x))"

definition charger_rows :: "station_row list \<Rightarrow> ((pyfloat option \<times> pyfloat option) \<times> nat) list" where
  "charger_rows stations =
     (let ks = map (\<lambda>c. (cs_max_power_kw c, cs_efficiency c)) stations
      in sort_key (power_rank \<circ> fst \<circ> fst) (map (\<lambda>k. (k, count_list ks k)) (remdups ks)))"

fun group_chargers ::
  "(pyfloat, int) pydict \<Rightarrow> pyfloat option \<Rightarrow> ((pyfloat option \<times> pyfloat option) \<times> nat) list \<Rightarrow>
     ((pyfloat, int) pydict \<times> pyfloat option) result" where
  "group_chargers groups efficiency [] = Inr (groups, efficiency)"
| "group_chargers groups efficiency (((p, e), n) # rows) =
     rbind (non_null p) (\<lambda>rated_kw.
       let groups' = AList.update rated_kw (int n) groups
       in case efficiency of
            Some x \<Rightarrow> group_chargers groups' (Some x) rows
          | None \<Rightarrow> rbind (float_col e) (\<lambda>x. group_chargers groups' (Some x) rows))"

definition load_chargers :: "station_row list \<Rightarrow> ((pyfloat, int) pydict \<times> pyfloat) result" where
  "load_chargers stations =
     (if stations = [] then Inr ([(80, 1)], 95 / 100)
      else rbind (group_chargers [] None (charger_rows stations)) (\<lambda>(groups, efficiency).
             Inr (groups, case efficiency of None \<Rightarrow> 95 / 100 | Some x \<Rightarrow> x)))"

definition load_battery :: "battery_row option \<Rightarrow> (pyfloat \<times> pyfloat \<times> pyfloat \<times> pyfloat \<times> pyfloat) result" where
  "load_battery row =
     (case row of
        None \<Rightarrow> Inr (0, 0, 92 / 100, 2 / 10, 8 / 10)
      | Some b \<Rightarrow>
          rbind (float_col (bt_capacity_kwh b)) (\<lambda>capacity. rbind (float_col (bt_max_power_kw b)) (\<lambda>power.
            rbind (float_col (bt_efficiency b)) (\<lambda>efficiency. rbind (float_col (bt_soc_min b)) (\<lambda>soc_min.
              rbind (float_col (bt_soc_max b)) (\<lambda>soc_max. Inr (capacity, power, efficiency, soc_min, soc_max)))))))"

definition load_access :: "asm_db \<Rightarrow> string \<Rightarrow> string \<Rightarrow> string list \<Rightarrow> (string, string list) pydict" where
  "load_access db depot default_access all_vehicle_ids =
     (let station_ids = map cs_id (depot_stations db depot)
      in if default_access = ''all_to_all'' then dict_of_rows (map (\<lambda>c. (c, all_vehicle_ids)) station_ids)
         else foldl (\<lambda>d r. AList.update (ac_charging_station_id r)
                 (List.insert (ac_vehicle_id r) (case map_of d (ac_charging_station_id r) of None \<Rightarrow> [] | Some vs \<Rightarrow> vs)) d) []
               (filter (\<lambda>r. ac_charging_station_id r \<in> set station_ids \<and> ac_is_accessible r) (db_access db)))"

definition load_depot_config :: "asm_db \<Rightarrow> string \<Rightarrow> (DepotConfig \<times> (string, string) pydict) result" where
  "load_depot_config db depot =
     (if db_fails db QConfig then Inl PostgresError
      else case site db depot of
             None \<Rightarrow> Inl ValueError
           | Some s \<Rightarrow>
               (let rows = depot_vehicles db depot; default_access = access_default (st_access_default s)
                in rbind (non_null (st_max_grid_kw s)) (\<lambda>max_power.
                   rbind (traverse (\<lambda>v. rbind (non_null (vh_battery_capacity_kwh v)) (\<lambda>x. Inr (vh_id v, x))) rows) (\<lambda>capacities.
                   rbind (load_chargers (depot_stations db depot)) (\<lambda>(groups, efficiency).
                   rbind (load_battery (List.find (\<lambda>b. bt_site_id b = depot) (db_batteries db)))
                     (\<lambda>(battery_cap, battery_pow, battery_eff, soc_min, soc_max).
                   rbind (traverse (\<lambda>v. rbind (float_col (vh_max_charge_rate_kw v)) (\<lambda>x. Inr (vh_id v, x))) rows) (\<lambda>max_charge.
                   Inr (\<lparr>vehicle_capacities = dict_of_rows capacities, vehicle_max_charge_kw = dict_of_rows max_charge,
                         charger_groups = groups, charger_efficiency = efficiency,
                         charger_vehicle_access = load_access db depot default_access (map fst (dict_of_rows capacities)),
                         battery_capacity = battery_cap, battery_power = battery_pow, battery_efficiency = battery_eff,
                         battery_soc_min = soc_min, battery_soc_max = soc_max, max_site_power = max_power,
                         building_load_assumption_kw = (case st_building_load_assumption_kw s of None \<Rightarrow> 0 | Some x \<Rightarrow> x),
                         delta_t = 1 / 4, n_timesteps = 96, charger_vehicle_access_default = default_access,
                         tariff_type = (case st_tariff_type s of None \<Rightarrow> ''simple_demand'' | Some t \<Rightarrow> t),
                         energy_cap_kwh = st_energy_cap_kwh s, under_cap_rate_per_kwh = st_under_cap_rate s,
                         over_cap_penalty_per_kwh = st_over_cap_penalty s,
                         cap_billing_period = (case st_cap_billing_period s of None \<Rightarrow> ''monthly'' | Some p \<Rightarrow> p)\<rparr>,
                        dict_of_rows (List.map_filter (\<lambda>v. case vh_id_tag v of Some (c # cs) \<Rightarrow> Some (vh_id v, c # cs) | _ \<Rightarrow> None) rows)))))))))"

section \<open>Lemmas: states of charge\<close>

lemma keys_iff: "k \<in> keys d \<longleftrightarrow> map_of d k \<noteq> None"
  by (simp add: keys_map_of_Some)

lemma fold_default_keys: "keys (foldl (\<lambda>d vid. AList.update vid x d) d vs) = keys d \<union> set vs"
  by (induction vs arbitrary: d) auto

lemma fold_default_map: "map_of (foldl (\<lambda>d vid. AList.update vid x d) d vs) k = (if k \<in> set vs then Some x else map_of d k)"
  by (induction vs arbitrary: d) auto

text \<open>A reading is kept; a configured vehicle without one has the default.\<close>

lemma with_default_socs_map:
  "map_of (with_default_socs config socs) v =
     (case map_of socs v of Some s \<Rightarrow> Some s | None \<Rightarrow> if v \<in> keys (vehicle_capacities config) then Some (1 / 2) else None)"
proof -
  have default: "map_of (map (\<lambda>vc. (fst vc, 1 / 2)) caps) v = (if v \<in> keys caps then Some (1 / 2) else None)"
    for caps :: "(string, pyfloat) pydict" by (induction caps) (auto simp: keys_def)
  have keys: "v \<in> fst ` set (vehicle_capacities config) \<longleftrightarrow> v \<in> keys (vehicle_capacities config)" by (simp add: keys_def)
  show ?thesis
    unfolding with_default_socs_def Let_def fold_default_map by (simp add: default keys split: option.split)
qed

lemma with_default_socs_keys: "keys (with_default_socs config socs) = keys socs \<union> keys (vehicle_capacities config)"
proof (rule set_eqI)
  fix v
  show "v \<in> keys (with_default_socs config socs) \<longleftrightarrow> v \<in> keys socs \<union> keys (vehicle_capacities config)"
    by (cases "map_of socs v") (simp_all add: keys_iff with_default_socs_map del: not_None_eq)
qed

section \<open>Lemmas: availability\<close>

definition on_route :: "int \<Rightarrow> dtime \<Rightarrow> schedule list \<Rightarrow> string \<Rightarrow> nat \<Rightarrow> bool" where
  "on_route step start schedules v t \<longleftrightarrow>
     (\<exists>s\<in>set schedules. sd_vehicle_id s = v \<and> sd_departure_time s \<le> start + int t * step \<and> start + int t * step < sd_return_time s)"

lemma mark_away_map: "mark_away step start s (map f [0..<n]) =
    map (\<lambda>t. if sd_departure_time s \<le> start + int t * step \<and> start + int t * step < sd_return_time s then False else f t) [0..<n]"
  by (rule nth_equalityI) (auto simp: mark_away_def nth_enumerate_eq)

lemma on_route_snoc: "on_route step start (ss @ [s]) v t \<longleftrightarrow>
    on_route step start ss v t \<or> sd_vehicle_id s = v \<and> sd_departure_time s \<le> start + int t * step \<and> start + int t * step < sd_return_time s"
  by (auto simp: on_route_def)

lemma availability_map:
  "map_of (compute_availability config ss start n) v =
     (if v \<in> keys (vehicle_capacities config)
      then Some (map (\<lambda>t. \<not> on_route (timedelta_hours (delta_t config)) start ss v t) [0..<nat n]) else None)"
proof (induction ss arbitrary: v rule: rev_induct)
  case Nil
  have "map_of (map (\<lambda>vc. (fst vc, row)) caps) v = (if v \<in> keys caps then Some row else None)"
    for caps :: "(string, pyfloat) pydict" and row :: "bool list" by (induction caps) (auto simp: keys_def)
  then show ?case by (simp add: compute_availability_def on_route_def map_replicate_const)
next
  case (snoc s ss)
  let ?av = "compute_availability config ss start n" and ?step = "timedelta_hours (delta_t config)"
  have unf: "compute_availability config (ss @ [s]) start n = (case map_of ?av (sd_vehicle_id s) of None \<Rightarrow> ?av
      | Some row \<Rightarrow> AList.update (sd_vehicle_id s) (mark_away ?step start s row) ?av)"
    unfolding compute_availability_def by simp
  show ?case
    unfolding unf snoc.IH by (auto simp: snoc.IH mark_away_map on_route_snoc)
qed

lemma availability_keys: "keys (compute_availability config ss start n) = keys (vehicle_capacities config)"
  by (auto simp: keys_dom availability_map dom_def)

lemma availability_dict: "dict_ok (vehicle_capacities config) \<Longrightarrow> dict_ok (compute_availability config ss start n)"
proof (induction ss rule: rev_induct)
  case Nil
  then show ?case by (simp add: compute_availability_def dict_ok_def comp_def)
next
  case (snoc s ss)
  then show ?case by (simp add: compute_availability_def split: option.split)
qed

section \<open>Lemmas: incoming vehicles\<close>

lemma set_default_keys [simp]: "keys (set_default k v d) = insert k (keys d)"
  by (auto simp: set_default_def keys_iff split: option.split)

text \<open>What of the configuration the assembly leaves alone.\<close>

definition same_plant :: "DepotConfig \<Rightarrow> DepotConfig \<Rightarrow> bool" where
  "same_plant c c' \<longleftrightarrow> c' = c\<lparr>vehicle_capacities := vehicle_capacities c', vehicle_max_charge_kw := vehicle_max_charge_kw c'\<rparr>"

lemma same_plant_refl [simp]: "same_plant c c"
  by (simp add: same_plant_def)

lemma same_plant_step: "same_plant c c' \<Longrightarrow> same_plant c (c'\<lparr>vehicle_capacities := x, vehicle_max_charge_kw := y\<rparr>)"
  by (cases c; cases c') (simp add: same_plant_def)

lemma same_plant_trans: "same_plant a b \<Longrightarrow> same_plant b c \<Longrightarrow> same_plant a c"
  by (cases a; cases b; cases c) (simp add: same_plant_def)

lemma same_plant_fields:
  assumes "same_plant c c'"
  shows "delta_t c' = delta_t c" "n_timesteps c' = n_timesteps c" "charger_groups c' = charger_groups c"
    "charger_efficiency c' = charger_efficiency c" "max_site_power c' = max_site_power c"
    "battery_capacity c' = battery_capacity c" "battery_power c' = battery_power c"
proof -
  obtain x y where c': "c' = c\<lparr>vehicle_capacities := x, vehicle_max_charge_kw := y\<rparr>" using assms unfolding same_plant_def by blast
  show "delta_t c' = delta_t c" "n_timesteps c' = n_timesteps c" "charger_groups c' = charger_groups c"
    "charger_efficiency c' = charger_efficiency c" "max_site_power c' = max_site_power c"
    "battery_capacity c' = battery_capacity c" "battery_power c' = battery_power c" by (simp_all add: c')
qed

definition arrival_row :: "int \<Rightarrow> int \<Rightarrow> bool list" where
  "arrival_row n a = replicate (nat a) False @ replicate (nat (n - a)) True"

lemma arrival_row_nth: "0 \<le> a \<Longrightarrow> a < n \<Longrightarrow> t < nat n \<Longrightarrow> arrival_row n a ! t \<longleftrightarrow> a \<le> int t"
  by (auto simp: arrival_row_def nth_append)

lemma arrival_row_length: "0 \<le> a \<Longrightarrow> a < n \<Longrightarrow> length (arrival_row n a) = nat n"
  by (simp add: arrival_row_def nat_diff_distrib)

definition in_horizon :: "DepotConfig \<Rightarrow> dtime \<Rightarrow> int \<Rightarrow> IncomingVehicle \<Rightarrow> bool" where
  "in_horizon config now n iv \<longleftrightarrow> 0 \<le> timestep config now (iv_arrival_time iv) \<and> timestep config now (iv_arrival_time iv) < n"

lemma integrate_incoming_eq:
  "integrate_incoming now n (s, a, c) iv =
     (AList.update (iv_vehicle_id iv) (iv_expected_soc iv) s,
      if in_horizon c now n iv then AList.update (iv_vehicle_id iv) (arrival_row n (timestep c now (iv_arrival_time iv))) a else a,
      c\<lparr>vehicle_capacities := set_default (iv_vehicle_id iv) (iv_battery_kwh iv) (vehicle_capacities c),
        vehicle_max_charge_kw := set_default (iv_vehicle_id iv) (iv_max_charge_kw iv) (vehicle_max_charge_kw c)\<rparr>)"
  by (simp add: integrate_incoming_def arrival_row_def in_horizon_def Let_def)

lemma incoming_fold:
  fixes now n socs av config ivs
  defines "r \<equiv> foldl (integrate_incoming now n) (socs, av, config) ivs"
  shows "keys (fst r) = keys socs \<union> iv_vehicle_id ` set ivs \<and>
    keys (vehicle_capacities (snd (snd r))) = keys (vehicle_capacities config) \<union> iv_vehicle_id ` set ivs \<and>
    same_plant config (snd (snd r)) \<and>
    (\<forall>v. map_of (fst (snd r)) v = (case filter (\<lambda>iv. iv_vehicle_id iv = v \<and> in_horizon config now n iv) ivs of
           [] \<Rightarrow> map_of av v
         | q # qs \<Rightarrow> Some (arrival_row n (timestep config now (iv_arrival_time (last (q # qs)))))))"
  unfolding r_def
proof (induction ivs rule: rev_induct)
  case (snoc iv ivs)
  obtain s a c where fold: "foldl (integrate_incoming now n) (socs, av, config) ivs = (s, a, c)"
    by (cases "foldl (integrate_incoming now n) (socs, av, config) ivs")
  note IH = snoc.IH [unfolded fold fst_conv snd_conv]
  then have "delta_t c = delta_t config" by (blast intro: same_plant_fields)
  then have step: "timestep c now t = timestep config now t" for t by (simp add: timestep_def)
  then have hor: "in_horizon c now n iv = in_horizon config now n iv" by (simp add: in_horizon_def)
  have r: "foldl (integrate_incoming now n) (socs, av, config) (ivs @ [iv]) = integrate_incoming now n (s, a, c) iv" by (simp add: fold)
  show ?case
    unfolding r integrate_incoming_eq fst_conv snd_conv step hor
  proof (intro conjI allI)
    fix v
    show "map_of (if in_horizon config now n iv then AList.update (iv_vehicle_id iv) (arrival_row n (timestep config now (iv_arrival_time iv))) a else a) v =
      (case filter (\<lambda>iv. iv_vehicle_id iv = v \<and> in_horizon config now n iv) (ivs @ [iv]) of [] \<Rightarrow> map_of av v
       | q # qs \<Rightarrow> Some (arrival_row n (timestep config now (iv_arrival_time (last (q # qs))))))"
      using IH [THEN conjunct2, THEN conjunct2, THEN conjunct2, rule_format, of v] by (auto split: list.splits)
  qed (use IH in \<open>auto intro: same_plant_step\<close>)
qed simp

section \<open>Lemmas: the reads\<close>

lemma resolve_zone_config:
  "resolve_zone db sa = (z, sa') \<Longrightarrow> sa_config sa' = sa_config sa \<and> sa_depot_id sa' = sa_depot_id sa \<and>
     sa_depot_timezone_cache sa' = sa_depot_timezone_cache sa"
  by (auto simp: resolve_zone_def Let_def split: option.splits if_splits)

lemma get_prices_config:
  assumes "get_prices db start e n sa tab = (ps, sa', tab')"
  shows "sa_config sa' = sa_config sa \<and> sa_depot_id sa' = sa_depot_id sa \<and>
    sa_depot_timezone_cache sa' = sa_depot_timezone_cache sa \<and> length ps = nat n"
proof -
  obtain z sa1 where z: "resolve_zone db sa = (z, sa1)" by (cases "resolve_zone db sa")
  have "sa' = sa1" "length ps = nat n"
    using assms z by (auto simp: get_prices_def Let_def step_prices_def split: option.splits list.splits prod.splits if_splits)
  with resolve_zone_config [OF z] show ?thesis by simp
qed

lemma get_schedules_config: "get_schedules db start e sa = (r, sa') \<Longrightarrow> sa_config sa' = sa_config sa \<and> sa_depot_id sa' = sa_depot_id sa"
  by (auto simp: get_schedules_def get_depot_timezone_def Let_def split: option.splits if_splits)

text \<open>The schedules depend on the assembler only through the depot and its cached time zone, and come in order of
  departure.\<close>

lemma get_schedules_cong:
  assumes "sa_depot_id sa' = sa_depot_id sa" "sa_depot_timezone_cache sa' = sa_depot_timezone_cache sa"
  shows "fst (get_schedules db start e sa') = fst (get_schedules db start e sa)"
  using assms by (simp add: get_schedules_def get_depot_timezone_def Let_def split: option.split)

lemma get_schedules_sorted:
  assumes "fst (get_schedules db start e sa) = Inr trips"
  shows "sorted (map tp_departure trips)"
proof -
  have "map tp_departure (map strip_manual rows) = map tp_departure rows" for rows
    by (simp add: strip_manual_def Trip.truncate_def)
  then have "sorted (map tp_departure (map strip_manual (manual_rows db (sa_depot_id sa) start e)))"
    by (simp only: manual_rows_def) simp
  moreover have "sorted (map tp_departure (merge_recurring_with_manual z manual recurring))" for z manual recurring
    by (simp add: merge_recurring_with_manual_def)
  ultimately show ?thesis
    using assms by (auto simp: get_schedules_def rbind_Inr_iff Let_def split: if_splits)
qed

lemma metered_power_length [simp]: "length (metered_power pm l ts) = length ts"
  by (induction ts arbitrary: l) (simp_all add: Let_def)

lemma get_building_power_config:
  "get_building_power db start e n sa = (r, sa') \<Longrightarrow> sa_config sa' = sa_config sa \<and> sa_depot_id sa' = sa_depot_id sa \<and>
     (\<forall>ps. r = Inr ps \<longrightarrow> length ps = nat n)"
  by (auto simp: get_building_power_def building_power_forecast_def Let_def split: if_splits)

lemma incoming_arrivals:
  "iv \<in> set (get_incoming_vehicles db depot start e) \<Longrightarrow> start \<le> iv_arrival_time iv \<and> iv_arrival_time iv < e"
  by (auto simp: get_incoming_vehicles_def split: if_splits)

text \<open>What a successful assembly has read.\<close>

lemma finish_state_Inr:
  assumes "finish_state db now he n socs ps trips sa = (Inr st, sa')"
  obtains inp where "(st, sa_config sa') = assembled now n (sa_config sa) inp" "ai_socs inp = socs" "ai_prices inp = ps"
    "length (ai_building inp) = nat n" "ai_incoming inp = get_incoming_vehicles db (sa_depot_id sa) now he"
    "sa_last_schedules sa' = merged_schedules (ai_merge inp)"
    "\<exists>reqs. get_vdv463_charging_requests db (sa_depot_id sa) now he = Inr reqs \<and> ai_merge inp = merge_vdv463_into_schedules trips reqs"
    "compute_departure_times (sa_config sa) (merged_schedules (ai_merge inp)) now = Inr (ai_departures inp)"
  using assms get_building_power_config [of db now he n sa]
  by (auto simp: finish_state_def Let_def split: sum.splits prod.splits) (metis asm_inputs.select_convs)

lemma get_current_state_Inr:
  assumes "get_current_state db now h sa tab = (Inr st, sa', tab')"
  obtains n inp where "0 < h" "h \<le> 48" "steps_of h (delta_t (sa_config sa)) = Inr n"
    "(st, sa_config sa') = assembled now n (sa_config sa) inp"
    "get_vehicle_socs db (sa_depot_id sa) now = Inr (ai_socs inp)"
    "length (ai_prices inp) = nat n" "length (ai_building inp) = nat n"
    "ai_incoming inp = get_incoming_vehicles db (sa_depot_id sa) now (now + h * usec_per_hour)"
    "sa_last_schedules sa' = merged_schedules (ai_merge inp)"
    "\<exists>trips reqs. fst (get_schedules db now (now + h * usec_per_hour) sa) = Inr trips \<and>
       get_vdv463_charging_requests db (sa_depot_id sa) now (now + h * usec_per_hour) = Inr reqs \<and>
       ai_merge inp = merge_vdv463_into_schedules trips reqs"
    "compute_departure_times (sa_config sa) (merged_schedules (ai_merge inp)) now = Inr (ai_departures inp)"
proof -
  from assms obtain n where n: "0 < h" "h \<le> 48" "steps_of h (delta_t (sa_config sa)) = Inr n"
    by (auto simp: get_current_state_def split: if_splits sum.splits)
  from assms n obtain socs where socs: "get_vehicle_socs db (sa_depot_id sa) now = Inr socs"
    by (auto simp: get_current_state_def Let_def split: sum.splits)
  obtain ps sa1 tab1 where ps: "get_prices db now (now + h * usec_per_hour) n sa tab = (ps, sa1, tab1)"
    by (cases "get_prices db now (now + h * usec_per_hour) n sa tab")
  note c1 = get_prices_config [OF ps]
  from assms n socs ps obtain trips sa2 where trips: "get_schedules db now (now + h * usec_per_hour) sa1 = (Inr trips, sa2)"
    by (auto simp: get_current_state_def Let_def split: sum.splits prod.splits)
  note c2 = get_schedules_config [OF trips]
  let ?sa = "sa2\<lparr>sa_last_schedules_present := trips \<noteq> []\<rparr>"
  have "finish_state db now (now + h * usec_per_hour) n socs ps trips ?sa = (Inr st, sa')"
    using assms n socs ps trips by (simp add: get_current_state_def Let_def prod_eq_iff)
  then obtain inp where inp: "(st, sa_config sa') = assembled now n (sa_config ?sa) inp" "ai_socs inp = socs" "ai_prices inp = ps"
    "length (ai_building inp) = nat n" "ai_incoming inp = get_incoming_vehicles db (sa_depot_id ?sa) now (now + h * usec_per_hour)"
    "sa_last_schedules sa' = merged_schedules (ai_merge inp)"
    "\<exists>reqs. get_vdv463_charging_requests db (sa_depot_id ?sa) now (now + h * usec_per_hour) = Inr reqs \<and>
       ai_merge inp = merge_vdv463_into_schedules trips reqs"
    "compute_departure_times (sa_config ?sa) (merged_schedules (ai_merge inp)) now = Inr (ai_departures inp)"
    by (rule finish_state_Inr)
  have "fst (get_schedules db now (now + h * usec_per_hour) sa) = Inr trips"
    using get_schedules_cong [of sa1 sa db now "now + h * usec_per_hour"] c1 trips by simp
  then show ?thesis
    by (intro that [of n inp]) (use inp n socs c1 c2 in auto)
qed

lemma assembled_parts:
  assumes "(st, config') = assembled now n config inp"
  shows "keys (vehicle_socs st) = keys (ai_socs inp) \<union> keys (vehicle_capacities config) \<union> iv_vehicle_id ` set (ai_incoming inp)"
    and "keys (vehicle_capacities config') = keys (vehicle_capacities config) \<union> iv_vehicle_id ` set (ai_incoming inp)"
    and "same_plant config config'"
    and "map_of (vehicle_availability st) v =
      (case filter (\<lambda>iv. iv_vehicle_id iv = v \<and> in_horizon config now n iv) (ai_incoming inp) of
         [] \<Rightarrow> map_of (compute_availability config (merged_schedules (ai_merge inp)) now n) v
       | q # qs \<Rightarrow> Some (arrival_row n (timestep config now (iv_arrival_time (last (q # qs))))))"
    and "prices st = ai_prices inp" "building_power st = ai_building inp" "incoming_vehicles st = ai_incoming inp"
    "departure_times st = ai_departures inp"
proof -
  let ?r = "foldl (integrate_incoming now n)
    (with_default_socs config (ai_socs inp), compute_availability config (merged_schedules (ai_merge inp)) now n, config) (ai_incoming inp)"
  have eq: "vehicle_socs st = fst ?r" "vehicle_availability st = fst (snd ?r)" "config' = snd (snd ?r)" "prices st = ai_prices inp"
    "building_power st = ai_building inp" "incoming_vehicles st = ai_incoming inp" "departure_times st = ai_departures inp"
    using assms by (simp_all add: assembled_def Let_def)
  note fold = incoming_fold [of now n "with_default_socs config (ai_socs inp)" "compute_availability config (merged_schedules (ai_merge inp)) now n"
      config "ai_incoming inp", folded eq(1,2,3)]
  show "keys (vehicle_socs st) = keys (ai_socs inp) \<union> keys (vehicle_capacities config) \<union> iv_vehicle_id ` set (ai_incoming inp)"
    "keys (vehicle_capacities config') = keys (vehicle_capacities config) \<union> iv_vehicle_id ` set (ai_incoming inp)"
    "same_plant config config'"
    "map_of (vehicle_availability st) v =
      (case filter (\<lambda>iv. iv_vehicle_id iv = v \<and> in_horizon config now n iv) (ai_incoming inp) of
         [] \<Rightarrow> map_of (compute_availability config (merged_schedules (ai_merge inp)) now n) v
       | q # qs \<Rightarrow> Some (arrival_row n (timestep config now (iv_arrival_time (last (q # qs))))))"
    using fold [THEN conjunct1] fold [THEN conjunct2, THEN conjunct1] fold [THEN conjunct2, THEN conjunct2, THEN conjunct1]
      fold [THEN conjunct2, THEN conjunct2, THEN conjunct2, rule_format, of v] by (simp_all add: with_default_socs_keys)
qed (use assms in \<open>simp_all add: assembled_def Let_def\<close>)

lemma quarter_steps: "steps_of h (1 / 4) = Inr (4 * h)"
proof -
  have "(of_int h / (1 / 4) :: pyfloat) = of_int (4 * h)" by simp
  moreover have "trunc (of_int (4 * h)) = 4 * h" unfolding trunc_def ceiling_of_int floor_of_int by simp
  ultimately have "trunc (of_int h / (1 / 4)) = 4 * h" by (simp only:)
  then show ?thesis by (simp only: steps_of_def) simp
qed

lemma arrival_in_horizon:
  assumes "delta_t config = 1 / 4" "now \<le> iv_arrival_time iv" "iv_arrival_time iv < now + h * usec_per_hour"
  shows "in_horizon config now (4 * h) iv"
proof -
  let ?x = "total_seconds (iv_arrival_time iv - now) / (1 / 4 * 3600)"
  have x: "?x = of_int (iv_arrival_time iv - now) / 900000000" by (simp add: total_seconds_def usec_values)
  have "0 \<le> ?x" unfolding x using assms(2) by simp
  moreover have "?x < of_int (4 * h)"
  proof -
    have "iv_arrival_time iv - now < 4 * h * 900000000" using assms(3) by (simp add: usec_values)
    then have "(of_int (iv_arrival_time iv - now) :: pyfloat) < of_int (4 * h * 900000000)" by (rule of_int_less_iff [THEN iffD2])
    then show ?thesis unfolding x by (simp add: field_simps)
  qed
  ultimately show ?thesis by (simp add: in_horizon_def timestep_def trunc_def assms(1) floor_less_iff)
qed

section \<open>Lemmas: the assembled state\<close>

text \<open>What the optimiser demands of the site itself.\<close>

definition plant_ok :: "DepotConfig \<Rightarrow> bool" where
  "plant_ok c \<longleftrightarrow>
     charger_groups c \<noteq> [] \<and> list_all (\<lambda>g. 0 < fst g \<and> 0 < snd g) (charger_groups c) \<and> 0 < max_site_power c \<and>
     0 < charger_efficiency c \<and> charger_efficiency c \<le> 1 \<and> 0 \<le> battery_capacity c \<and> 0 \<le> battery_power c"

lemma plant_ok_same: "same_plant c c' \<Longrightarrow> plant_ok c' = plant_ok c"
  by (simp add: plant_ok_def same_plant_fields)

lemma validate_inputs_None:
  "validate_inputs st c = None \<longleftrightarrow>
     vehicle_socs st \<noteq> [] \<and> int (length (prices st)) = n_timesteps c \<and> int (length (building_power st)) = n_timesteps c \<and>
     keys (vehicle_socs st) = keys (vehicle_availability st) \<and>
     list_all (\<lambda>a. int (length (snd a)) = n_timesteps c) (vehicle_availability st) \<and>
     keys (vehicle_socs st) = keys (vehicle_capacities c) \<and> plant_ok c"
  by (auto simp: validate_inputs_def plant_ok_def keys_def list_all_iff not_le not_less)

lemma availability_rows:
  assumes "dict_ok d" "\<And>v row. map_of d v = Some row \<Longrightarrow> length row = k"
  shows "list_all (\<lambda>a. length (snd a) = k) d"
  using assms by (force simp: list_all_iff map_of_in_set [OF assms(1)])

lemma fold_availability_dict:
  "dict_ok av \<Longrightarrow> dict_ok (fst (snd (foldl (integrate_incoming now n) (socs, av, config) ivs)))"
proof (induction ivs arbitrary: socs av config)
  case (Cons iv ivs)
  then show ?case unfolding foldl_Cons integrate_incoming_eq by (intro Cons.IH) simp
qed simp

lemma assembled_rows:
  assumes "(st, config') = assembled now n config inp" "dict_ok (vehicle_capacities config)"
  shows "list_all (\<lambda>a. length (snd a) = nat n) (vehicle_availability st)"
proof (rule availability_rows)
  show "dict_ok (vehicle_availability st)"
    using assms by (simp add: assembled_def Let_def fold_availability_dict availability_dict)
  fix v row assume "map_of (vehicle_availability st) v = Some row"
  note row = this [unfolded assembled_parts(4) [OF assms(1)]]
  show "length row = nat n"
  proof (cases "filter (\<lambda>iv. iv_vehicle_id iv = v \<and> in_horizon config now n iv) (ai_incoming inp)")
    case Nil
    with row show ?thesis by (auto simp: availability_map split: if_splits)
  next
    case (Cons q qs)
    then have "last (q # qs) \<in> set (filter (\<lambda>iv. iv_vehicle_id iv = v \<and> in_horizon config now n iv) (ai_incoming inp))"
      by (metis last_in_set list.distinct(1))
    then have "in_horizon config now n (last (q # qs))" by simp
    with row Cons show ?thesis by (auto simp: arrival_row_length in_horizon_def simp del: last.simps)
  qed
qed

lemma assembled_availability_keys:
  assumes "(st, config') = assembled now n config inp" "\<And>iv. iv \<in> set (ai_incoming inp) \<Longrightarrow> in_horizon config now n iv"
  shows "keys (vehicle_availability st) = keys (vehicle_capacities config) \<union> iv_vehicle_id ` set (ai_incoming inp)"
proof (rule set_eqI)
  fix v
  have flt: "filter (\<lambda>iv. iv_vehicle_id iv = v \<and> in_horizon config now n iv) (ai_incoming inp) = filter (\<lambda>iv. iv_vehicle_id iv = v) (ai_incoming inp)"
    using assms(2) by (intro filter_cong) auto
  show "v \<in> keys (vehicle_availability st) \<longleftrightarrow> v \<in> keys (vehicle_capacities config) \<union> iv_vehicle_id ` set (ai_incoming inp)"
  proof (cases "filter (\<lambda>iv. iv_vehicle_id iv = v) (ai_incoming inp)")
    case Nil
    then have "v \<notin> iv_vehicle_id ` set (ai_incoming inp)" by (auto simp: filter_empty_conv)
    then show ?thesis unfolding keys_iff assembled_parts(4) [OF assms(1)] flt Nil by (simp add: availability_map keys_iff)
  next
    case (Cons q qs)
    then have "q \<in> set (filter (\<lambda>iv. iv_vehicle_id iv = v) (ai_incoming inp))" by simp
    then have "q \<in> set (ai_incoming inp)" "iv_vehicle_id q = v" by simp_all
    then show ?thesis unfolding keys_iff assembled_parts(4) [OF assms(1)] flt Cons by auto
  qed
qed

lemma assembled_validation:
  assumes "get_current_state db now h sa tab = (Inr st, sa', tab')" "delta_t (sa_config sa) = 1 / 4"
    and "dict_ok (vehicle_capacities (sa_config sa))"
  shows "validate_inputs st (sa_config sa') = None \<longleftrightarrow>
    n_timesteps (sa_config sa) = 4 * h \<and> plant_ok (sa_config sa) \<and> vehicle_socs st \<noteq> [] \<and>
    (\<forall>socs. get_vehicle_socs db (sa_depot_id sa) now = Inr socs \<longrightarrow>
       keys socs \<subseteq> keys (vehicle_capacities (sa_config sa)) \<union> iv_vehicle_id ` set (incoming_vehicles st))"
  using assms(1)
proof (rule get_current_state_Inr)
  fix n inp
  assume h: "0 < h" and n: "steps_of h (delta_t (sa_config sa)) = Inr n" and st: "(st, sa_config sa') = assembled now n (sa_config sa) inp"
    and socs: "get_vehicle_socs db (sa_depot_id sa) now = Inr (ai_socs inp)" and len: "length (ai_prices inp) = nat n" "length (ai_building inp) = nat n"
    and inc: "ai_incoming inp = get_incoming_vehicles db (sa_depot_id sa) now (now + h * usec_per_hour)"
  have n4: "n = 4 * h" using n assms(2) quarter_steps [of h] by simp
  have hor: "in_horizon (sa_config sa) now n iv" if "iv \<in> set (ai_incoming inp)" for iv
    unfolding n4 using that incoming_arrivals [of iv] inc assms(2) by (intro arrival_in_horizon) auto
  note parts = assembled_parts [OF st]
  have avail: "keys (vehicle_availability st) = keys (vehicle_capacities (sa_config sa)) \<union> iv_vehicle_id ` set (ai_incoming inp)"
    using st hor by (rule assembled_availability_keys)
  have len': "int (length (prices st)) = n_timesteps (sa_config sa') \<longleftrightarrow> n_timesteps (sa_config sa) = 4 * h"
    "int (length (building_power st)) = n_timesteps (sa_config sa') \<longleftrightarrow> n_timesteps (sa_config sa) = 4 * h"
    using h len same_plant_fields(2) [OF parts(3)] by (auto simp: parts(5,6) n4)
  have rows: "n_timesteps (sa_config sa) = 4 * h \<Longrightarrow> list_all (\<lambda>a. int (length (snd a)) = n_timesteps (sa_config sa')) (vehicle_availability st)"
    using assembled_rows [OF st assms(3)] same_plant_fields(2) [OF parts(3)] h by (auto simp: list_all_iff n4)
  show ?thesis
    unfolding validate_inputs_None len' plant_ok_same [OF parts(3)] avail parts(1,2,7) using rows socs by auto
qed

lemma quarter_timedelta: "timedelta_hours (1 / 4) = 15 * usec_per_min"
proof -
  have "(1 / 4 * of_int usec_per_hour :: pyfloat) = of_int (15 * usec_per_min)" by (simp add: usec_values)
  then show ?thesis unfolding timedelta_hours_def by (metis round_half_even_of_int)
qed

lemma get_current_state_succeeds:
  assumes "\<And>q. \<not> db_fails db q" "0 < h" "h \<le> 48" "delta_t (sa_config sa) = 1 / 4" "db_is_uuid db (sa_depot_id sa)"
  obtains st sa' tab' where "get_current_state db now h sa tab = (Inr st, sa', tab')"
proof -
  let ?e = "now + h * usec_per_hour"
  obtain socs where socs: "get_vehicle_socs db (sa_depot_id sa) now = Inr socs"
    unfolding get_vehicle_socs_def Let_def by (metis assms(1))
  obtain ps sa1 tab1 where ps: "get_prices db now ?e (4 * h) sa tab = (ps, sa1, tab1)" by (cases "get_prices db now ?e (4 * h) sa tab")
  have "\<exists>trips. fst (get_schedules db now ?e sa1) = Inr trips"
    using assms(5) get_prices_config [OF ps] by (simp add: get_schedules_def expand_recurring_templates_def Let_def assms(1))
  then obtain trips sa2 where trips: "get_schedules db now ?e sa1 = (Inr trips, sa2)" by (metis prod.collapse)
  let ?sa = "sa2\<lparr>sa_last_schedules_present := trips \<noteq> []\<rparr>"
  have config: "sa_config ?sa = sa_config sa" using get_prices_config [OF ps] get_schedules_config [OF trips] by simp
  have "\<exists>reqs. get_vdv463_charging_requests db (sa_depot_id ?sa) now ?e = Inr reqs"
    by (simp add: get_vdv463_charging_requests_def assms(1) split: option.split)
  then obtain reqs where reqs: "get_vdv463_charging_requests db (sa_depot_id ?sa) now ?e = Inr reqs" ..
  have "\<exists>deps. compute_departure_times (sa_config ?sa) (merged_schedules (merge_vdv463_into_schedules trips reqs)) now = Inr deps"
    unfolding config by (simp add: compute_departure_times_def Let_def assms(4) quarter_timedelta usec_values)
  then obtain deps where deps: "compute_departure_times (sa_config ?sa) (merged_schedules (merge_vdv463_into_schedules trips reqs)) now = Inr deps" ..
  have "\<exists>peak. get_current_month_peak db (sa_depot_id ?sa) now = Inr peak" "\<exists>rate. get_demand_charge_rate db (sa_depot_id ?sa) = Inr rate"
    by (simp_all add: get_current_month_peak_def get_demand_charge_rate_def Let_def assms(1) split: list.split)
  then obtain peak rate where peak: "get_current_month_peak db (sa_depot_id ?sa) now = Inr peak"
    and rate: "get_demand_charge_rate db (sa_depot_id ?sa) = Inr rate" by blast
  have "\<exists>bp. fst (get_building_power db now ?e (4 * h) ?sa) = Inr bp"
    using assms(2) by (simp add: get_building_power_def building_power_forecast_def Let_def assms(1))
  then obtain bp sa3 where bp: "get_building_power db now ?e (4 * h) ?sa = (Inr bp, sa3)" by (metis prod.collapse)
  have "\<exists>st sa'. finish_state db now ?e (4 * h) socs ps trips ?sa = (Inr st, sa')"
    using reqs deps peak rate bp by (simp add: finish_state_def Let_def)
  then show ?thesis
    using that assms(2,3) quarter_steps [of h] socs ps trips by (auto simp: get_current_state_def assms(4) Let_def)
qed

section \<open>Lemmas: schedules\<close>

definition complete :: "vdv463_row \<Rightarrow> bool" where
  "complete r \<longleftrightarrow> vq_expected_arrival r \<noteq> None \<and> vq_requested_departure r \<noteq> None"

definition request_schedule :: "vdv463_row \<Rightarrow> schedule" where
  "request_schedule r = \<lparr>sd_vehicle_id = vq_vehicle_id r, sd_return_time = the (vq_expected_arrival r),
     sd_departure_time = the (vq_requested_departure r), sd_energy_kwh = 100\<rparr>"

lemma by_vehicle_map:
  "map_of (by_vehicle trips) v =
     (case filter (\<lambda>s. tp_vehicle_id s = v) trips of [] \<Rightarrow> None | s # ss \<Rightarrow> Some (schedule_of (last (s # ss))))"
  by (induction trips rule: rev_induct) (auto simp: by_vehicle_def split: list.splits)

definition keyed :: "(string, schedule) pydict \<Rightarrow> bool" where
  "keyed d \<longleftrightarrow> dict_ok d \<and> (\<forall>e\<in>set d. sd_vehicle_id (snd e) = fst e)"

lemma set_update_subset: "set (AList.update k v d) \<subseteq> insert (k, v) (set d)"
  by (induction d) auto

lemma keyed_update: "keyed d \<Longrightarrow> sd_vehicle_id s = v \<Longrightarrow> keyed (AList.update v s d)"
  using set_update_subset [of v s d] by (auto simp: keyed_def)

lemma by_vehicle_keyed: "keyed (by_vehicle trips)"
proof (induction trips rule: rev_induct)
  case Nil
  show ?case by (simp add: by_vehicle_def keyed_def)
next
  case (snoc t trips)
  then show ?case by (simp add: by_vehicle_def keyed_update schedule_of_def)
qed

lemma merge_request_schedule:
  "vm_schedule_by_vehicle (merge_request m r) =
     (if complete r then AList.update (vq_vehicle_id r) (request_schedule r) (vm_schedule_by_vehicle m) else vm_schedule_by_vehicle m)"
  by (auto simp: merge_request_def complete_def request_schedule_def Let_def split: option.splits)

lemma merged_keyed: "keyed (vm_schedule_by_vehicle (merge_vdv463_into_schedules trips reqs))"
proof -
  have "keyed (vm_schedule_by_vehicle m) \<Longrightarrow> keyed (vm_schedule_by_vehicle (foldl merge_request m reqs))" for m
  proof (induction reqs arbitrary: m)
    case (Cons r reqs)
    then have "keyed (vm_schedule_by_vehicle (merge_request m r))" by (simp add: merge_request_schedule request_schedule_def keyed_update)
    then show ?case using Cons.IH by simp
  qed simp
  then show ?thesis by (simp add: merge_vdv463_into_schedules_def by_vehicle_keyed)
qed

text \<open>The request of a vehicle that came last decides, else its last trip.\<close>

lemma merged_map:
  "map_of (vm_schedule_by_vehicle (merge_vdv463_into_schedules trips reqs)) v =
     (case filter (\<lambda>r. complete r \<and> vq_vehicle_id r = v) reqs of
        r # rs \<Rightarrow> Some (request_schedule (last (r # rs)))
      | [] \<Rightarrow> map_of (by_vehicle trips) v)"
  unfolding merge_vdv463_into_schedules_def
  by (induction reqs rule: rev_induct) (auto simp: merge_request_schedule split: list.splits)

lemma keyed_find: "keyed d \<Longrightarrow> List.find (\<lambda>s. sd_vehicle_id s = v) (map snd d) = map_of d v"
  by (induction d) (auto simp: keyed_def dict_ok_def)

lemma keyed_distinct: "keyed d \<Longrightarrow> distinct (map sd_vehicle_id (map snd d))"
proof -
  assume d: "keyed d"
  then have "map sd_vehicle_id (map snd d) = map fst d" by (simp add: keyed_def)
  with d show ?thesis unfolding keyed_def dict_ok_def by (simp only:)
qed

lemma departures_map:
  assumes "distinct (map sd_vehicle_id ss)" "compute_departure_times config ss start = Inr d"
  shows "map_of d v = map_option (\<lambda>s. departure_index (timedelta_hours (delta_t config)) start (sd_departure_time s))
    (List.find (\<lambda>s. sd_vehicle_id s = v) ss)"
proof -
  let ?idx = "\<lambda>s. departure_index (timedelta_hours (delta_t config)) start (sd_departure_time s)"
  let ?step = "\<lambda>d s. case map_of d (sd_vehicle_id s) of
      Some t \<Rightarrow> if ?idx s < t then AList.update (sd_vehicle_id s) (?idx s) d else d
    | None \<Rightarrow> AList.update (sd_vehicle_id s) (?idx s) d"
  have fold: "map_of (foldl ?step d0 ss) v = (case List.find (\<lambda>s. sd_vehicle_id s = v) ss of Some s \<Rightarrow> Some (?idx s) | None \<Rightarrow> map_of d0 v)"
    if "distinct (map sd_vehicle_id ss)" "\<And>s. s \<in> set ss \<Longrightarrow> map_of d0 (sd_vehicle_id s) = None" for d0
    using that
  proof (induction ss arbitrary: d0)
    case (Cons s ss)
    have "map_of (AList.update (sd_vehicle_id s) (?idx s) d0) (sd_vehicle_id q) = None" if "q \<in> set ss" for q
    proof -
      have "sd_vehicle_id q \<noteq> sd_vehicle_id s" using Cons.prems(1) that by (metis distinct.simps(2) image_eqI list.map(2) list.set_map)
      then show ?thesis using Cons.prems(2) [of q] that by simp
    qed
    with Cons.IH [of "AList.update (sd_vehicle_id s) (?idx s) d0"] Cons.prems
    have rest: "map_of (foldl ?step d0 (s # ss)) v = (case List.find (\<lambda>s. sd_vehicle_id s = v) ss of
        Some s \<Rightarrow> Some (?idx s) | None \<Rightarrow> map_of (AList.update (sd_vehicle_id s) (?idx s) d0) v)" by simp
    show ?case
    proof (cases "sd_vehicle_id s = v")
      case True
      then have "List.find (\<lambda>s. sd_vehicle_id s = v) ss = None" using Cons.prems(1) by (simp add: find_None_iff) (metis image_eqI)
      with True show ?thesis unfolding rest by simp
    next
      case False
      then show ?thesis unfolding rest by (simp split: option.split)
    qed
  qed simp
  from assms(2) have "d = foldl ?step [] ss" by (auto simp: compute_departure_times_def Let_def split: if_splits)
  with fold [of "[]"] assms(1) show ?thesis by (simp split: option.split)
qed

section \<open>Lemmas: prices and energy\<close>

lemma closest_in: "ks \<noteq> [] \<Longrightarrow> closest t ks \<in> set ks"
proof -
  assume "ks \<noteq> []"
  moreover have "foldl (\<lambda>b x. if \<bar>x - t\<bar> < \<bar>b - t\<bar> then x else b) b xs \<in> set (b # xs)" for b :: dtime and xs
    by (induction xs arbitrary: b) auto
  ultimately show ?thesis unfolding closest_def by (cases ks) simp_all
qed

text \<open>Over hours of the clock the search for a close hour finds nothing that the look-up missed.\<close>

lemma step_price_hour:
  assumes "\<And>k. k \<in> keys pm \<Longrightarrow> k mod usec_per_hour = 0"
  shows "step_price pm (hour_floor_utc t) = (case map_of pm (hour_floor_utc t) of Some p \<Rightarrow> p | None \<Rightarrow> default_price_kwh)"
proof (cases "map_of pm (hour_floor_utc t) = None \<and> pm \<noteq> []")
  case True
  let ?h = "hour_floor_utc t" and ?c = "closest (hour_floor_utc t) (map fst pm)"
  have "?c \<in> keys pm" using True closest_in [of "map fst pm"] by (simp add: keys_def)
  moreover from this have "?c \<noteq> ?h" using True by (metis keys_map_of_None)
  ultimately have "usec_per_hour dvd ?c - ?h" "?c - ?h \<noteq> 0"
    using assms by (auto simp: hour_floor_utc_def floor_hour_def mod_eq_0_iff_dvd)
  then have "\<bar>usec_per_hour\<bar> \<le> \<bar>?c - ?h\<bar>" by (intro dvd_imp_le_int)
  then have "usec_per_hour \<le> \<bar>?c - ?h\<bar>" by (simp add: usec_values)
  then have "total_seconds usec_per_hour \<le> total_seconds \<bar>?c - ?h\<bar>" by (simp only: total_seconds_mono)
  moreover have "total_seconds usec_per_hour = 3600" by (simp add: total_seconds_def usec_values)
  ultimately have "\<not> total_seconds \<bar>?c - ?h\<bar> < 3600" by linarith
  with True show ?thesis by (simp add: step_price_def Let_def)
qed (auto simp: step_price_def split: option.split)

text \<open>The power that counts at an instant: that of the latest sample up to then, for half an hour.\<close>

definition held_power :: "(dtime \<times> pyfloat) list \<Rightarrow> dtime \<Rightarrow> pyfloat" where
  "held_power xs u =
     (case filter (\<lambda>s. fst s \<le> u) xs of
        [] \<Rightarrow> 0
      | s # ss \<Rightarrow> if u < fst (last (s # ss)) + 30 * usec_per_min then snd (last (s # ss)) else 0)"

lemma sum_until:
  fixes k :: pyfloat
  assumes "a \<le> b" "a \<le> c"
  shows "(\<Sum>u\<in>{a..<b}. if u < c then k else 0) = k * of_int (min b c - a)"
proof -
  have "(\<Sum>u\<in>{a..<b}. if u < c then k else 0) = (\<Sum>u\<in>{u \<in> {a..<b}. u < c}. k)"
    by (simp only: sum.inter_filter finite_atLeastLessThan_int)
  moreover have "{u \<in> {a..<b}. u < c} = {a..<min b c}" by auto
  ultimately show ?thesis using assms by simp
qed

lemma held_power_first:
  assumes "t \<le> u" "\<And>s. s \<in> set rest \<Longrightarrow> u < fst s"
  shows "held_power ((t, kw) # rest) u = (if u < t + 30 * usec_per_min then kw else 0)"
proof -
  have "filter (\<lambda>s. fst s \<le> u) rest = []" using assms(2) by (auto simp: filter_empty_conv not_le)
  then show ?thesis using assms(1) by (simp add: held_power_def)
qed

lemma held_power_rest:
  assumes "t \<le> t'" "t' \<le> u"
  shows "held_power ((t, kw) # (t', kw') # rest) u = held_power ((t', kw') # rest) u"
  using assms by (simp add: held_power_def)

lemma held_power_before: "\<forall>s\<in>set xs. u < fst s \<Longrightarrow> held_power xs u = 0"
proof -
  assume "\<forall>s\<in>set xs. u < fst s"
  then have "filter (\<lambda>s. fst s \<le> u) xs = []" by (auto simp: filter_empty_conv not_le)
  then show ?thesis by (simp add: held_power_def)
qed

lemma capped_hours_held:
  assumes "t \<le> t'" "t' \<le> now"
  shows "capped_hours now t (Some t') = of_int (min t' (t + 30 * usec_per_min) - t) / of_int usec_per_hour"
proof -
  have "min (min t' (t + 30 * usec_per_min)) now = min t' (t + 30 * usec_per_min)" using assms(2) by simp
  moreover have "0 \<le> min t' (t + 30 * usec_per_min) - t" using assms(1) by (simp add: usec_values)
  ultimately show ?thesis by (simp add: capped_hours_def total_seconds_def usec_values)
qed

lemma held_kwh_integral:
  assumes "sorted (map fst xs)" "xs \<noteq> []" "\<And>s. s \<in> set xs \<Longrightarrow> fst s \<le> now"
  shows "held_kwh now xs = (\<Sum>u\<in>{fst (hd xs)..<now}. held_power xs u) / of_int usec_per_hour"
  using assms
proof (induction now xs rule: held_kwh.induct)
  case (2 now t kw)
  have "(\<Sum>u\<in>{t..<now}. held_power [(t, kw)] u) = (\<Sum>u\<in>{t..<now}. if u < t + 30 * usec_per_min then kw else 0)"
    by (rule sum.cong) (simp_all add: held_power_def)
  also have "\<dots> = kw * of_int (min now (t + 30 * usec_per_min) - t)" using 2 by (intro sum_until) (simp_all add: usec_values)
  moreover have "capped_hours now t None = capped_hours now t (Some now)" by (simp add: capped_hours_def)
  ultimately show ?case using 2 by (simp add: capped_hours_held)
next
  case (3 now t kw t' kw' rest)
  let ?xs = "(t, kw) # (t', kw') # rest"
  have le: "t \<le> t'" "t' \<le> now" using 3 by force+
  have later: "t' \<le> fst s" if "s \<in> set ((t', kw') # rest)" for s using that "3.prems"(1) by auto
  have "(\<Sum>u\<in>{t..<t'}. held_power ?xs u) = (\<Sum>u\<in>{t..<t'}. if u < t + 30 * usec_per_min then kw else 0)"
  proof (rule sum.cong)
    fix u assume "u \<in> {t..<t'}"
    then show "held_power ?xs u = (if u < t + 30 * usec_per_min then kw else 0)"
      using later by (intro held_power_first) (auto intro: order.strict_trans2)
  qed simp
  also have "\<dots> = kw * of_int (min t' (t + 30 * usec_per_min) - t)" using le by (intro sum_until) (simp_all add: usec_values)
  finally have first: "(\<Sum>u\<in>{t..<t'}. held_power ?xs u) / of_int usec_per_hour = kw * capped_hours now t (Some t')"
    using le by (simp add: capped_hours_held)
  have rest: "(\<Sum>u\<in>{t'..<now}. held_power ?xs u) = (\<Sum>u\<in>{t'..<now}. held_power ((t', kw') # rest) u)"
    by (rule sum.cong) (simp_all add: held_power_rest le)
  have "held_kwh now ((t', kw') # rest) = (\<Sum>u\<in>{t'..<now}. held_power ((t', kw') # rest) u) / of_int usec_per_hour"
    using "3.IH" "3.prems" by fastforce
  moreover have "(\<Sum>u\<in>{t..<now}. held_power ?xs u) = (\<Sum>u\<in>{t..<t'}. held_power ?xs u) + (\<Sum>u\<in>{t'..<now}. held_power ?xs u)"
    using le by (subst sum.union_disjoint [symmetric]) (auto intro!: sum.cong)
  ultimately show ?case using first rest by (simp add: add_divide_distrib)
qed simp

lemma held_kwh_since:
  assumes "sorted (map fst xs)" "\<And>s. s \<in> set xs \<Longrightarrow> lower \<le> fst s \<and> fst s \<le> now"
  shows "held_kwh now xs = (\<Sum>u\<in>{lower..<now}. held_power xs u) / of_int usec_per_hour"
proof (cases xs)
  case Nil
  then show ?thesis by (simp add: held_power_def)
next
  case (Cons x rest)
  have split: "{lower..<now} = {lower..<fst x} \<union> {fst x..<now}" using assms(2) [of x] Cons by auto
  have "held_power xs u = 0" if "u \<in> {lower..<fst x}" for u
    using that assms(1) Cons by (intro held_power_before) auto
  then have "(\<Sum>u\<in>{lower..<now}. held_power xs u) = (\<Sum>u\<in>{fst x..<now}. held_power xs u)"
    unfolding split by (subst sum.union_disjoint) auto
  with held_kwh_integral [OF assms(1), of now] assms(2) Cons show ?thesis by simp
qed

text \<open>The prices of the steps, from a map over hours of the clock.\<close>

lemma zone_prices_aligned: "k \<in> keys (fetch_prices_by_zone tab zone s e w) \<Longrightarrow> k mod usec_per_hour = 0"
  by (auto simp: keys_iff map_of_zone_prices set_price_hours split: if_splits)

lemma step_prices_hours:
  assumes "fetch_or_pull_prices_by_zone fails a zone start e w tab = (Some pm, tab')"
  shows "step_prices dt start n pm =
    map (\<lambda>t. case map_of pm (hour_floor_utc (start + int t * timedelta_hours dt)) of Some p \<Rightarrow> p | None \<Rightarrow> default_price_kwh) [0..<nat n]"
proof -
  have "\<exists>tab. pm = fetch_prices_by_zone tab zone start e w" using assms by (rule fetch_or_pull_cases) auto
  then show ?thesis unfolding step_prices_def using step_price_hour [of pm] zone_prices_aligned by (auto intro!: map_cong)
qed

text \<open>A vehicle that was announced stays in the configuration: a later assembly, which no longer reads the
  announcement, gives it the default state of charge and has it available unless a schedule is kept for it.\<close>

lemma incoming_vehicle_stays:
  assumes "(st, config') = assembled now n config inp" "iv \<in> set (ai_incoming inp)"
    and "(st2, config2) = assembled now2 n2 config' inp2" "ai_incoming inp2 = []" "iv_vehicle_id iv \<notin> keys (ai_socs inp2)"
  shows "map_of (vehicle_socs st2) (iv_vehicle_id iv) = Some (1 / 2)"
    and "map_of (vehicle_availability st2) (iv_vehicle_id iv) =
      Some (map (\<lambda>t. \<not> on_route (timedelta_hours (delta_t config')) now2 (merged_schedules (ai_merge inp2)) (iv_vehicle_id iv) t) [0..<nat n2])"
proof -
  have v: "iv_vehicle_id iv \<in> keys (vehicle_capacities config')" using assembled_parts(2) [OF assms(1)] assms(2) by simp
  have "vehicle_socs st2 = with_default_socs config' (ai_socs inp2)" using assms(3,4) by (simp add: assembled_def Let_def)
  then show "map_of (vehicle_socs st2) (iv_vehicle_id iv) = Some (1 / 2)" using v assms(5) by (simp add: with_default_socs_map keys_iff)
  show "map_of (vehicle_availability st2) (iv_vehicle_id iv) =
      Some (map (\<lambda>t. \<not> on_route (timedelta_hours (delta_t config')) now2 (merged_schedules (ai_merge inp2)) (iv_vehicle_id iv) t) [0..<nat n2])"
    using assembled_parts(4) [OF assms(3), of "iv_vehicle_id iv"] assms(4) v by (simp add: availability_map)
qed

section \<open>Lemmas: the fetched templates\<close>

text \<open>What the padding of the query relies on: a local day is over when the next one begins, and the local date is
  at most one day from the UTC date.\<close>

definition zone_near_utc :: "zone \<Rightarrow> bool" where
  "zone_near_utc z \<longleftrightarrow>
     (\<forall>u. valid_date (fst (z_local z u))) \<and>
     (\<forall>u d us. valid_naive (d, us) \<longrightarrow> toordinal d < toordinal (fst (z_local z u)) \<longrightarrow> to_utc z d us < u) \<and>
     (\<forall>u. \<bar>toordinal (fst (z_local z u)) - toordinal (utc_date u)\<bar> \<le> 1)"

lemma map_filter_filter:
  "(\<And>x. x \<in> set xs \<Longrightarrow> P x \<Longrightarrow> f x = g x) \<Longrightarrow> (\<And>x. x \<in> set xs \<Longrightarrow> \<not> P x \<Longrightarrow> g x = None) \<Longrightarrow>
     List.map_filter f (filter P xs) = List.map_filter g xs"
  by (induction xs) (auto simp: List.map_filter_simps split: option.split)

definition fetched_template :: "dtime \<Rightarrow> dtime \<Rightarrow> RecurringTemplate \<Rightarrow> bool" where
  "fetched_template s e t \<longleftrightarrow> rt_active t \<and> toordinal (rt_start_date t) \<le> toordinal (utc_date e) + 1 \<and>
     (case rt_end_date t of None \<Rightarrow> True | Some d \<Rightarrow> toordinal d \<ge> toordinal (utc_date s) - 1)"

lemma fetched_templates:
  "fst (fetch_recurring_horizon_data ts cs depot s e) = filter (fetched_template s e) (filter (\<lambda>t. rt_depot_id t = depot) ts)"
proof -
  have "filter (fetched_template s e) (filter (\<lambda>t. rt_depot_id t = depot) ts) =
      filter (\<lambda>t. rt_depot_id t = depot \<and> rt_active t \<and> toordinal (rt_start_date t) \<le> toordinal (utc_date e) + 1 \<and>
        (case rt_end_date t of None \<Rightarrow> True | Some d \<Rightarrow> toordinal d \<ge> toordinal (utc_date s) - 1)) ts"
    by (simp add: fetched_template_def conj_commute conj_left_commute)
  then show ?thesis by (simp add: fetch_recurring_horizon_data_def Let_def)
qed

lemma fetched_cancellations:
  assumes "tpl \<in> set (fst (fetch_recurring_horizon_data ts cs depot s e))"
    and "toordinal (utc_date s) - 1 \<le> toordinal d" "toordinal d \<le> toordinal (utc_date e) + 1"
  shows "(rt_template_id tpl, d) \<in> cancelled_by (snd (fetch_recurring_horizon_data ts cs depot s e)) \<longleftrightarrow> (rt_template_id tpl, d) \<in> cancelled_by cs"
proof -
  let ?hz = "fetch_recurring_horizon_data ts cs depot s e"
  have "snd ?hz = filter (\<lambda>c. cx_template_id c \<in> set (map rt_template_id (fst ?hz)) \<and>
      toordinal (utc_date s) - 1 \<le> toordinal (cx_occurrence_date c) \<and> toordinal (cx_occurrence_date c) \<le> toordinal (utc_date e) + 1) cs"
    by (simp add: fetch_recurring_horizon_data_def Let_def)
  then have "c \<in> set (snd ?hz) \<longleftrightarrow> c \<in> set cs" if "cx_template_id c = rt_template_id tpl" "cx_occurrence_date c = d" for c
    using assms that by auto
  then show ?thesis unfolding cancelled_by_def image_iff by (metis prod.inject)
qed

lemma horizon_day:
  assumes "zone_near_utc z" "template_ok tpl" "s \<le> to_utc z d (rt_departure tpl)"
    and "d \<in> set (days_between (prev_day (fst (z_local z s))) (fst (z_local z e)))"
  shows "toordinal (utc_date s) - 1 \<le> toordinal d" "toordinal d \<le> toordinal (utc_date e) + 1"
proof -
  have near: "\<bar>toordinal (fst (z_local z u)) - toordinal (utc_date u)\<bar> \<le> 1" and valid: "valid_date (fst (z_local z u))" for u
    using assms(1) by (auto simp: zone_near_utc_def)
  have d: "valid_date d" "toordinal d \<le> toordinal (fst (z_local z e))"
    using assms(4) set_days_between toordinal_prev_day [OF valid] by auto
  then have "valid_naive (d, rt_departure tpl)" using assms(2) by (simp add: valid_naive_def template_ok_def)
  then have "\<not> toordinal d < toordinal (fst (z_local z s))" using assms(1,3) unfolding zone_near_utc_def by (meson not_le)
  then show "toordinal (utc_date s) - 1 \<le> toordinal d" "toordinal d \<le> toordinal (utc_date e) + 1"
    using near [of s] near [of e] d(2) by linarith+
qed

text \<open>the query for recurring trips fetches enough. The templates and cancellations read for a horizon, by their
  dates padded by a day, expand to the same trips as all templates of the depot with all cancellations, in every
  zone whose local date is at most a day from the UTC date and whose days end before the next begins.\<close>

theorem fetched_horizon_exact:
  assumes "zone_near_utc z" "\<And>tpl. tpl \<in> set ts \<Longrightarrow> template_ok tpl"
  shows "expand_recurring_templates (fst (fetch_recurring_horizon_data ts cs depot s e)) (snd (fetch_recurring_horizon_data ts cs depot s e)) z True s e =
    expand_recurring_templates (filter (\<lambda>t. rt_depot_id t = depot) ts) cs z True s e"
proof -
  let ?hz = "fetch_recurring_horizon_data ts cs depot s e" and ?all = "filter (\<lambda>t. rt_depot_id t = depot) ts"
  let ?days = "days_between (prev_day (fst (z_local z s))) (fst (z_local z e))"
  let ?f = "\<lambda>cs d tpl. if occurs_on (cancelled_by cs) tpl d \<and> s \<le> to_utc z d (rt_departure tpl) \<and> to_utc z d (rt_departure tpl) < e
    then Some (occurrence z tpl d) else None"
  have unf: "expand_recurring_templates ts' cs' z True s e =
      (if e \<le> s then Inr [] else Inr (concat (map (\<lambda>d. List.map_filter (?f cs' d) ts') ?days)))" for ts' cs'
    by (simp add: expand_recurring_templates_def Let_def cancelled_by_def occurrence_def)
  have "List.map_filter (?f (snd ?hz) d) (fst ?hz) = List.map_filter (?f cs d) ?all" if d: "d \<in> set ?days" for d
    unfolding fetched_templates
  proof (rule map_filter_filter)
    fix tpl assume tpl: "tpl \<in> set ?all" "fetched_template s e tpl"
    then have "tpl \<in> set (fst ?hz)" by (simp add: fetched_templates)
    with tpl assms(2) horizon_day [OF assms(1) _ _ d] fetched_cancellations [of tpl ts cs depot s e d]
    show "?f (snd ?hz) d tpl = ?f cs d tpl" by (auto simp: occurs_on_def)
  next
    fix tpl assume tpl: "tpl \<in> set ?all" "\<not> fetched_template s e tpl"
    with assms(2) horizon_day [OF assms(1) _ _ d, of tpl] show "?f cs d tpl = None"
      by (auto simp: occurs_on_def fetched_template_def split: option.splits)
  qed
  then have "map (\<lambda>d. List.map_filter (?f (snd ?hz) d) (fst ?hz)) ?days = map (\<lambda>d. List.map_filter (?f cs d) ?all) ?days" by simp
  then show ?thesis unfolding unf by (simp only:)
qed

section \<open>Lemmas: chargers\<close>

lemma update_fresh: "k \<notin> keys d \<Longrightarrow> AList.update k v d = d @ [(k, v)]"
  by (induction d) (auto simp: keys_def)

lemma sum_list_sort_key: "sum_list (map f (sort_key g xs)) = sum_list (map f xs)" for f :: "'a \<Rightarrow> nat"
  by (metis mset_map mset_sort sum_mset_sum_list)

lemma charger_rows_count: "sum_list (map snd (charger_rows stations)) = length stations"
proof -
  let ?ks = "map (\<lambda>c. (cs_max_power_kw c, cs_efficiency c)) stations"
  have "sum_list (map (count_list ?ks) (remdups ?ks)) = sum (count_list ?ks) (set ?ks)"
    by (simp add: sum_list_distinct_conv_sum_set)
  also have "\<dots> = length ?ks" by (rule sum_count_set) auto
  finally show ?thesis by (simp add: charger_rows_def Let_def sum_list_sort_key comp_def)
qed

lemma charger_rows_distinct:
  assumes "\<And>c d. c \<in> set stations \<Longrightarrow> d \<in> set stations \<Longrightarrow> cs_max_power_kw c = cs_max_power_kw d \<Longrightarrow> cs_efficiency c = cs_efficiency d"
  shows "distinct (map (\<lambda>r. fst (fst r)) (charger_rows stations))"
proof -
  define ks where "ks = map (\<lambda>c. (cs_max_power_kw c, cs_efficiency c)) stations"
  have "inj_on fst (set ks)"
  proof (rule inj_onI)
    fix x y assume "x \<in> set ks" "y \<in> set ks" "fst x = fst y"
    then obtain c d where "c \<in> set stations" "d \<in> set stations" "x = (cs_max_power_kw c, cs_efficiency c)" "y = (cs_max_power_kw d, cs_efficiency d)"
      by (auto simp: ks_def)
    with assms [of c d] \<open>fst x = fst y\<close> show "x = y" by simp
  qed
  then have "distinct (map fst (remdups ks))" by (simp add: distinct_map)
  moreover have "mset (map (\<lambda>r. fst (fst r)) (charger_rows stations)) = mset (map fst (remdups ks))"
    unfolding charger_rows_def Let_def ks_def [symmetric] by (simp add: multiset.map_comp comp_def)
  ultimately show ?thesis by (metis mset_eq_imp_distinct_iff)
qed

lemma group_chargers_sum:
  assumes "group_chargers groups eff rows = Inr (groups', eff')" "distinct (map (\<lambda>r. fst (fst r)) rows)"
    and "\<And>r p. r \<in> set rows \<Longrightarrow> fst (fst r) = Some p \<Longrightarrow> p \<notin> keys groups"
  shows "sum_list (map snd groups') = sum_list (map snd groups) + int (sum_list (map snd rows))"
  using assms
proof (induction rows arbitrary: groups eff)
  case (Cons r rows)
  obtain p e n where r: "r = ((p, e), n)" by (metis prod.collapse)
  from Cons.prems(1) obtain kw where p: "p = Some kw" by (cases p) (simp_all add: non_null_def r)
  let ?g = "AList.update kw (int n) groups"
  have fresh: "kw \<notin> keys groups" using Cons.prems(3) [of r kw] p r by simp
  have rest: "q \<notin> keys ?g" if "c \<in> set rows" "fst (fst c) = Some q" for c q
  proof -
    have "q \<noteq> kw" using that Cons.prems(2) p r by force
    then show ?thesis using Cons.prems(3) [of c q] that by simp
  qed
  obtain x where "group_chargers ?g (Some x) rows = Inr (groups', eff')"
    using Cons.prems(1) p r by (cases eff; cases e) (simp_all add: non_null_def float_col_def Let_def)
  from Cons.IH [OF this _ rest] Cons.prems(2) show ?case by (simp add: update_fresh [OF fresh] r)
qed simp

section \<open>Properties\<close>

text \<open>C5: an assembled state is accepted by the optimiser's validation exactly when the configuration's number of
  steps is that of the horizon, the site's own data is sensible, there is a vehicle at all, and every vehicle that
  has telemetry is in the loaded configuration or on its way in. Nothing else that assembly delivers (defaulted
  states of charge, prices, building load, availability, incoming vehicles) can be refused.\<close>

theorem assembled_state_accepted:
  assumes "get_current_state db now h sa tab = (Inr st, sa', tab')"
    and "get_vehicle_socs db (sa_depot_id sa) now = Inr socs"
    and "delta_t (sa_config sa) = 1 / 4" "dict_ok (vehicle_capacities (sa_config sa))"
  shows "validate_inputs st (sa_config sa') = None \<longleftrightarrow>
    n_timesteps (sa_config sa) = 4 * h \<and> plant_ok (sa_config sa) \<and> vehicle_socs st \<noteq> [] \<and>
    keys socs \<subseteq> keys (vehicle_capacities (sa_config sa)) \<union> iv_vehicle_id ` set (incoming_vehicles st)"
  using assembled_validation [OF assms(1,3,4)] assms(2) by simp

text \<open>assembly succeeds. For a horizon of 1 to 48 hours and steps of a quarter of an hour, when no query
  fails and the depot's id is a UUID, a state is delivered, whatever the tables hold.\<close>

theorem assembly_succeeds:
  assumes "db_fails db = (\<lambda>_. False)" "0 < h" "h \<le> 48" "delta_t (sa_config sa) = 1 / 4" "db_is_uuid db (sa_depot_id sa)"
  shows "\<exists>st sa' tab'. get_current_state db now h sa tab = (Inr st, sa', tab')"
proof (rule get_current_state_succeeds [of db h sa now tab, OF _ assms(2-5)])
  show "\<not> db_fails db q" for q by (simp add: assms(1))
qed blast

lemma loaded_config:
  assumes "load_depot_config db depot = Inr (config, tags)"
  shows "delta_t config = 1 / 4" "n_timesteps config = 96" "keys (vehicle_capacities config) = vh_id ` set (depot_vehicles db depot)"
    "dict_ok (vehicle_capacities config)"
proof -
  from assms obtain s where s: "site db depot = Some s"
    by (auto simp: load_depot_config_def split: if_splits option.splits)
  let ?f = "\<lambda>v. rbind (non_null (vh_battery_capacity_kwh v)) (\<lambda>x. Inr (vh_id v, x))"
  obtain caps where caps: "traverse ?f (depot_vehicles db depot) = Inr caps"
    and fields: "vehicle_capacities config = dict_of_rows caps" "delta_t config = 1 / 4" "n_timesteps config = 96"
    using assms s by (auto simp: load_depot_config_def Let_def rbind_Inr_iff split: if_splits)
  show "delta_t config = 1 / 4" "n_timesteps config = 96" by (rule fields(2,3))+
  have "list_all2 (\<lambda>v c. fst c = vh_id v) (depot_vehicles db depot) caps"
    using caps by (auto simp: traverse_Inr rbind_Inr_iff elim: list_all2_mono)
  then have "map fst caps = map vh_id (depot_vehicles db depot)" by (simp add: list_all2_map1 list_all2_map2 list_all2_eq list.rel_map flip: list.rel_eq) (simp add: list_all2_conv_all_nth)
  then show "keys (vehicle_capacities config) = vh_id ` set (depot_vehicles db depot)"
    using fields(1) by (metis dict_of_rows_keys list.set_map)
  show "dict_ok (vehicle_capacities config)" unfolding fields(1) dict_of_rows_def
    by (induction caps rule: rev_induct) auto
qed

text \<open>The number of prices and of steps after an assembly.\<close>

lemma assembled_lengths:
  assumes "get_current_state db now h sa tab = (Inr st, sa', tab')" "delta_t (sa_config sa) = 1 / 4"
  shows "int (length (prices st)) = 4 * h \<and> same_plant (sa_config sa) (sa_config sa')"
  using assms(1)
proof (rule get_current_state_Inr)
  fix n inp
  assume n: "0 < h" "steps_of h (delta_t (sa_config sa)) = Inr n" and st: "(st, sa_config sa') = assembled now n (sa_config sa) inp"
    and len: "length (ai_prices inp) = nat n"
  show ?thesis using n quarter_steps [of h] assms(2) len assembled_parts(3,5) [OF st] by simp
qed

lemma failed_finish_config:
  assumes "finish_state db now he n socs ps trips sa = (Inl e, sa')"
  shows "sa_config sa' = sa_config sa"
  using assms get_building_power_config [of db now he n sa] by (auto simp: finish_state_def Let_def split: sum.splits prod.splits)

lemma failed_assembly_config:
  assumes "get_current_state db now h sa tab = (Inl e, sa', tab')"
  shows "sa_config sa' = sa_config sa"
proof (cases "\<exists>n socs. \<not> (h \<le> 0 \<or> h > 48) \<and> steps_of h (delta_t (sa_config sa)) = Inr n \<and> get_vehicle_socs db (sa_depot_id sa) now = Inr socs")
  case False
  with assms show ?thesis by (auto simp: get_current_state_def Let_def split: if_splits sum.splits)
next
  case True
  then obtain n socs where n: "\<not> (h \<le> 0 \<or> h > 48)" "steps_of h (delta_t (sa_config sa)) = Inr n" "get_vehicle_socs db (sa_depot_id sa) now = Inr socs"
    by blast
  obtain ps sa1 tab1 where ps: "get_prices db now (now + h * usec_per_hour) n sa tab = (ps, sa1, tab1)"
    by (cases "get_prices db now (now + h * usec_per_hour) n sa tab")
  obtain r sa2 where r: "get_schedules db now (now + h * usec_per_hour) sa1 = (r, sa2)" by (cases "get_schedules db now (now + h * usec_per_hour) sa1")
  have "sa_config sa2 = sa_config sa" using get_prices_config [OF ps] get_schedules_config [OF r] by simp
  moreover have "sa_config sa' = sa_config sa2"
  proof (cases r)
    case (Inl e')
    with assms n ps r show ?thesis by (simp add: get_current_state_def Let_def)
  next
    case (Inr trips)
    let ?f = "finish_state db now (now + h * usec_per_hour) n socs ps trips (sa2\<lparr>sa_last_schedules_present := trips \<noteq> []\<rparr>)"
    have "?f = (Inl e, sa')" using assms n ps r Inr by (simp add: get_current_state_def Let_def prod_eq_iff)
    from failed_finish_config [OF this] show ?thesis by simp
  qed
  ultimately show ?thesis by simp
qed

lemma last_filter_max:
  assumes "sorted (map f xs)" "x \<in> set xs" "P x"
  shows "last (filter P xs) \<in> set xs \<and> P (last (filter P xs)) \<and> (\<forall>q\<in>set xs. P q \<longrightarrow> f q \<le> f (last (filter P xs)))"
proof -
  have ne: "filter P xs \<noteq> []" using assms(2,3) by (auto simp: filter_empty_conv)
  have "sorted (map f (filter P xs))" using assms(1) by (rule sorted_filter)
  moreover have "sorted (map f ys) \<Longrightarrow> q \<in> set ys \<Longrightarrow> f q \<le> f (last ys)" for q ys
    by (induction ys rule: rev_induct) (auto simp: sorted_append)
  ultimately have "f q \<le> f (last (filter P xs))" if "q \<in> set (filter P xs)" for q using that by blast
  then show ?thesis using last_in_set [OF ne] by auto
qed

lemma requests_complete:
  assumes "get_vdv463_charging_requests db depot start e = Inr reqs"
  shows "sorted (map (\<lambda>r. the (vq_expected_arrival r)) reqs) \<and> (\<forall>r\<in>set reqs. complete r)"
  using assms by (auto simp: get_vdv463_charging_requests_def complete_def split: option.splits if_splits)

text \<open>The departure of a vehicle in an assembled state, over what the two reads of schedules deliver.\<close>

lemma departures_read:
  assumes "get_current_state db now h sa tab = (Inr st, sa', tab')"
  obtains trips reqs where "fst (get_schedules db now (now + h * usec_per_hour) sa) = Inr trips"
    "get_vdv463_charging_requests db (sa_depot_id sa) now (now + h * usec_per_hour) = Inr reqs"
    "\<And>v. map_of (departure_times st) v = map_option (\<lambda>s. departure_index (timedelta_hours (delta_t (sa_config sa))) now (sd_departure_time s))
       (map_of (vm_schedule_by_vehicle (merge_vdv463_into_schedules trips reqs)) v)"
proof (rule get_current_state_Inr [OF assms])
  fix n inp
  assume inp: "(st, sa_config sa') = assembled now n (sa_config sa) inp"
    "\<exists>trips reqs. fst (get_schedules db now (now + h * usec_per_hour) sa) = Inr trips \<and>
       get_vdv463_charging_requests db (sa_depot_id sa) now (now + h * usec_per_hour) = Inr reqs \<and>
       ai_merge inp = merge_vdv463_into_schedules trips reqs"
    "compute_departure_times (sa_config sa) (merged_schedules (ai_merge inp)) now = Inr (ai_departures inp)"
  then obtain trips reqs where read: "fst (get_schedules db now (now + h * usec_per_hour) sa) = Inr trips"
    "get_vdv463_charging_requests db (sa_depot_id sa) now (now + h * usec_per_hour) = Inr reqs"
    "ai_merge inp = merge_vdv463_into_schedules trips reqs" by blast
  have "map_of (departure_times st) v = map_option (\<lambda>s. departure_index (timedelta_hours (delta_t (sa_config sa))) now (sd_departure_time s))
       (map_of (vm_schedule_by_vehicle (merge_vdv463_into_schedules trips reqs)) v)" for v
    unfolding assembled_parts(8) [OF inp(1)] using departures_map [OF _ inp(3)] keyed_distinct [OF merged_keyed] keyed_find [OF merged_keyed]
    by (simp add: merged_schedules_def read(3))
  with read(1,2) show ?thesis by (rule that)
qed

text \<open>C7: the departure that an assembled state gives a vehicle, and the optimiser plans for, is that of its last trip of
  the horizon, not of its next one. Whatever trips and external requests the assembler reads: a vehicle with neither
  has no departure; a vehicle with a request has the departure of its request with the latest expected arrival; any other
  vehicle has the departure of one of its trips after which none of its trips departs, since merging keeps one schedule per
  vehicle and every earlier departure is dropped before the loop that keeps the earliest is reached.\<close>

theorem departure_of_last_trip:
  assumes "get_current_state db now h sa tab = (Inr st, sa', tab')"
  shows "\<exists>trips reqs. fst (get_schedules db now (now + h * usec_per_hour) sa) = Inr trips \<and>
    get_vdv463_charging_requests db (sa_depot_id sa) now (now + h * usec_per_hour) = Inr reqs \<and>
    (case map_of (departure_times st) v of
       None \<Rightarrow> v \<notin> tp_vehicle_id ` set trips \<and> v \<notin> vq_vehicle_id ` set reqs
     | Some i \<Rightarrow>
         (\<exists>r dep. r \<in> set reqs \<and> vq_vehicle_id r = v \<and> vq_requested_departure r = Some dep \<and>
            i = departure_index (timedelta_hours (delta_t (sa_config sa))) now dep \<and>
            (\<forall>q\<in>set reqs. vq_vehicle_id q = v \<longrightarrow> the (vq_expected_arrival q) \<le> the (vq_expected_arrival r))) \<or>
         v \<notin> vq_vehicle_id ` set reqs \<and>
         (\<exists>s. s \<in> set trips \<and> tp_vehicle_id s = v \<and>
            i = departure_index (timedelta_hours (delta_t (sa_config sa))) now (tp_departure s) \<and>
            (\<forall>q\<in>set trips. tp_vehicle_id q = v \<longrightarrow> tp_departure q \<le> tp_departure s)))"
proof -
  obtain trips reqs where read: "fst (get_schedules db now (now + h * usec_per_hour) sa) = Inr trips"
    "get_vdv463_charging_requests db (sa_depot_id sa) now (now + h * usec_per_hour) = Inr reqs"
    "map_of (departure_times st) v = map_option (\<lambda>s. departure_index (timedelta_hours (delta_t (sa_config sa))) now (sd_departure_time s))
       (map_of (vm_schedule_by_vehicle (merge_vdv463_into_schedules trips reqs)) v)"
    using departures_read [OF assms] by metis
  let ?P = "\<lambda>r. vq_vehicle_id r = v" and ?T = "\<lambda>s. tp_vehicle_id s = v"
  note complete = requests_complete [OF read(2)]
  have P: "filter (\<lambda>r. complete r \<and> ?P r) reqs = filter ?P reqs" using complete by (intro filter_cong) auto
  have merged: "map_of (vm_schedule_by_vehicle (merge_vdv463_into_schedules trips reqs)) v =
      (if v \<in> vq_vehicle_id ` set reqs then Some (request_schedule (last (filter ?P reqs)))
       else if v \<in> tp_vehicle_id ` set trips then Some (schedule_of (last (filter ?T trips))) else None)"
  proof -
    have last_of: "(case ys of r # rs \<Rightarrow> Some (f (last (r # rs))) | [] \<Rightarrow> z) = (if ys = [] then z else Some (f (last ys)))"
      for ys :: "'x list" and f :: "'x \<Rightarrow> schedule" and z by (cases ys) simp_all
    have "filter ?P reqs = [] \<longleftrightarrow> v \<notin> vq_vehicle_id ` set reqs" "filter ?T trips = [] \<longleftrightarrow> v \<notin> tp_vehicle_id ` set trips"
      by (auto simp: filter_empty_conv)
    then show ?thesis unfolding merged_map P by_vehicle_map last_of by simp
  qed
  show ?thesis
  proof (cases "v \<in> vq_vehicle_id ` set reqs")
    case True
    then obtain q where "q \<in> set reqs" "?P q" by auto
    note r = last_filter_max [where P = ?P, OF complete [THEN conjunct1] this]
    with complete obtain dep where "vq_requested_departure (last (filter ?P reqs)) = Some dep" by (auto simp: complete_def)
    with r True show ?thesis
      by (intro exI [of _ trips] exI [of _ reqs]) (auto simp: read merged request_schedule_def)
  next
    case no: False
    show ?thesis
    proof (cases "v \<in> tp_vehicle_id ` set trips")
      case True
      then obtain q where "q \<in> set trips" "?T q" by auto
      note r = last_filter_max [where P = ?T, OF get_schedules_sorted [OF read(1)] this]
      with no True show ?thesis
        by (intro exI [of _ trips] exI [of _ reqs]) (auto simp: read merged schedule_of_def)
    next
      case False
      with no show ?thesis by (intro exI [of _ trips] exI [of _ reqs]) (simp add: read merged)
    qed
  qed
qed

text \<open>C6: the availability of a vehicle is exact. A vehicle that does not come in from another depot is
  available at a step unless one of the schedules kept for it has departed and not returned by then; a vehicle that
  comes in is available from the step of its arrival (of its last message).\<close>

theorem availability_exact:
  assumes "get_current_state db now h sa tab = (Inr st, sa', tab')" "delta_t (sa_config sa) = 1 / 4" "t < nat (4 * h)"
  shows "(v \<in> keys (vehicle_capacities (sa_config sa)) \<and> v \<notin> iv_vehicle_id ` set (incoming_vehicles st) \<longrightarrow>
      (available st v t \<longleftrightarrow> \<not> on_route (15 * usec_per_min) now (sa_last_schedules sa') v t)) \<and>
    (\<forall>iv ivs. filter (\<lambda>iv. iv_vehicle_id iv = v) (incoming_vehicles st) = ivs @ [iv] \<longrightarrow>
      (available st v t \<longleftrightarrow> timestep (sa_config sa) now (iv_arrival_time iv) \<le> int t))"
  using assms(1)
proof (rule get_current_state_Inr)
  fix n inp
  assume h: "0 < h" and n: "steps_of h (delta_t (sa_config sa)) = Inr n" and st: "(st, sa_config sa') = assembled now n (sa_config sa) inp"
    and inc: "ai_incoming inp = get_incoming_vehicles db (sa_depot_id sa) now (now + h * usec_per_hour)"
    and last: "sa_last_schedules sa' = merged_schedules (ai_merge inp)"
  have n4: "n = 4 * h" using n assms(2) quarter_steps [of h] by simp
  have hor: "in_horizon (sa_config sa) now n iv" if "iv \<in> set (ai_incoming inp)" for iv
    unfolding n4 using that incoming_arrivals [of iv] inc assms(2) by (intro arrival_in_horizon) auto
  note parts = assembled_parts [OF st]
  have flt: "filter (\<lambda>iv. iv_vehicle_id iv = v \<and> in_horizon (sa_config sa) now n iv) (ai_incoming inp) = filter (\<lambda>iv. iv_vehicle_id iv = v) (ai_incoming inp)"
    using hor by (intro filter_cong) auto
  note row = parts(4) [of v, unfolded flt]
  have "available st v t \<longleftrightarrow> timestep (sa_config sa) now (iv_arrival_time iv) \<le> int t"
    if ivs: "filter (\<lambda>iv. iv_vehicle_id iv = v) (ai_incoming inp) = ivs @ [iv]" for iv ivs
  proof -
    have "iv \<in> set (filter (\<lambda>iv. iv_vehicle_id iv = v) (ai_incoming inp))" unfolding ivs by simp
    then have "in_horizon (sa_config sa) now n iv" using hor by simp
    moreover have "map_of (vehicle_availability st) v = Some (arrival_row n (timestep (sa_config sa) now (iv_arrival_time iv)))"
      using row unfolding ivs by (cases ivs) simp_all
    ultimately show ?thesis using assms(3) by (simp add: available_def in_horizon_def arrival_row_length arrival_row_nth n4)
  qed
  moreover have "available st v t \<longleftrightarrow> \<not> on_route (15 * usec_per_min) now (sa_last_schedules sa') v t"
    if v: "v \<in> keys (vehicle_capacities (sa_config sa))" "v \<notin> iv_vehicle_id ` set (ai_incoming inp)"
  proof -
    have "filter (\<lambda>iv. iv_vehicle_id iv = v) (ai_incoming inp) = []" using v(2) by (auto simp: filter_empty_conv)
    then have "map_of (vehicle_availability st) v = Some (map (\<lambda>t. \<not> on_route (15 * usec_per_min) now (merged_schedules (ai_merge inp)) v t) [0..<nat n])"
      using row v(1) by (simp add: availability_map assms(2) quarter_timedelta)
    then show ?thesis using assms(3) by (simp add: available_def last n4)
  qed
  ultimately show ?thesis unfolding parts(7) by blast
qed

text \<open>An independent account of the power of a pair of a charger and a vehicle at an instant: the pair's latest reading of the
  billing period up to that instant, while it is less than half an hour old.\<close>

definition counts_for :: "string \<times> string option \<Rightarrow> dtime \<Rightarrow> dtime \<Rightarrow> reading \<Rightarrow> bool" where
  "counts_for k lower u r \<longleftrightarrow>
     rg_charger_id r = Some (fst k) \<and> rg_vehicle_id r = snd k \<and> rg_charging_kw r \<noteq> None \<and> lower \<le> rg_time r \<and> rg_time r \<le> u"

definition counted_power :: "reading list \<Rightarrow> dtime \<Rightarrow> string \<times> string option \<Rightarrow> dtime \<Rightarrow> pyfloat" where
  "counted_power rows lower k u =
     (let past = sort_key rg_time (filter (counts_for k lower u) rows)
      in if past = [] \<or> rg_time (last past) + 30 * usec_per_min \<le> u then 0 else the (rg_charging_kw (last past)))"

lemma samples_of_pair:
  assumes "fst k \<in> set ids"
  shows "sort_key fst (map snd (filter (\<lambda>s. fst s = k) (energy_samples ids lower now rows))) =
    map (\<lambda>r. (rg_time r, the (rg_charging_kw r))) (sort_key rg_time (filter (counts_for k lower now) rows))"
proof -
  let ?f = "\<lambda>r. (rg_time r, the (rg_charging_kw r))"
  have "map snd (filter (\<lambda>s. fst s = k) (energy_samples ids lower now rows)) = map ?f (filter (counts_for k lower now) rows)"
    using assms by (induction rows) (auto simp: energy_samples_def List.map_filter_simps counts_for_def split: option.splits)
  moreover have "sort_key fst (map ?f rs) = map ?f (sort_key rg_time rs)" for rs
  proof (induction rs)
    case (Cons a rs)
    have "insort_key fst (?f x) (map ?f ys) = map ?f (insort_key rg_time x ys)" for x ys by (induction ys) auto
    with Cons show ?case by simp
  qed simp
  ultimately show ?thesis by simp
qed

lemma held_is_counted:
  assumes "fst k \<in> set ids" "u < now"
  shows "held_power (sort_key fst (map snd (filter (\<lambda>s. fst s = k) (energy_samples ids lower now rows)))) u = counted_power rows lower k u"
proof -
  let ?f = "\<lambda>r. (rg_time r, the (rg_charging_kw r))"
  let ?past = "sort_key rg_time (filter (counts_for k lower u) rows)"
  have "filter (\<lambda>s. fst s \<le> u) (map ?f (sort_key rg_time (filter (counts_for k lower now) rows))) =
      map ?f (filter (\<lambda>r. rg_time r \<le> u) (sort_key rg_time (filter (counts_for k lower now) rows)))"
    by (simp add: filter_map comp_def)
  also have "filter (\<lambda>r. rg_time r \<le> u) (sort_key rg_time (filter (counts_for k lower now) rows)) =
      sort_key rg_time (filter (\<lambda>r. rg_time r \<le> u) (filter (counts_for k lower now) rows))" by (rule filter_sort)
  also have "filter (\<lambda>r. rg_time r \<le> u) (filter (counts_for k lower now) rows) = filter (counts_for k lower u) rows"
    using assms(2) by (auto simp: counts_for_def intro: filter_cong)
  finally have past: "filter (\<lambda>s. fst s \<le> u) (map ?f (sort_key rg_time (filter (counts_for k lower now) rows))) = map ?f ?past" .
  have last: "(case ys of [] \<Rightarrow> 0 | s # ss \<Rightarrow> if u < fst (last (s # ss)) + 30 * usec_per_min then snd (last (s # ss)) else 0) =
      (if ys = [] \<or> fst (last ys) + 30 * usec_per_min \<le> u then 0 else snd (last ys))" for ys :: "(dtime \<times> pyfloat) list"
    by (cases ys) auto
  show ?thesis unfolding samples_of_pair [OF assms(1)] held_power_def past last
    by (cases "?past = []") (simp_all add: counted_power_def Let_def last_map)
qed

lemma telemetry_integral:
  "telemetry_kwh ids lower now rows =
     (\<Sum>k\<in>(\<lambda>r. (the (rg_charger_id r), rg_vehicle_id r)) ` {r \<in> set rows. rg_charger_id r \<in> Some ` set ids}.
        \<Sum>u\<in>{lower..<now}. counted_power rows lower k u) / of_int usec_per_hour"
    (is "_ = (\<Sum>k\<in>?pairs. ?e k) / _")
proof -
  let ?s = "energy_samples ids lower now rows"
  let ?xs = "\<lambda>k. sort_key fst (map snd (filter (\<lambda>s. fst s = k) ?s))"
  have pairs: "set (map fst ?s) \<subseteq> ?pairs"
    by (fastforce simp: energy_samples_def List.map_filter_def image_iff split: option.splits if_splits)
  have held: "held_kwh now (?xs k) = ?e k / of_int usec_per_hour" if "k \<in> ?pairs" for k
  proof -
    have k: "fst k \<in> set ids" using that by auto
    have "held_kwh now (?xs k) = (\<Sum>u\<in>{lower..<now}. held_power (?xs k) u) / of_int usec_per_hour"
      by (rule held_kwh_since) (auto simp: samples_of_pair [OF k] counts_for_def comp_def)
    also have "(\<Sum>u\<in>{lower..<now}. held_power (?xs k) u) = ?e k"
      by (rule sum.cong) (simp_all add: held_is_counted [OF k])
    finally show ?thesis .
  qed
  have "held_kwh now (?xs k) = 0" if "k \<notin> set (map fst ?s)" for k
  proof -
    have "filter (\<lambda>s. fst s = k) ?s = []" using that by (auto simp: filter_empty_conv)
    then show ?thesis by simp
  qed
  then have "(\<Sum>k\<in>?pairs. held_kwh now (?xs k)) = (\<Sum>k\<in>set (map fst ?s). held_kwh now (?xs k))"
    using pairs by (intro sum.mono_neutral_right) auto
  moreover have "telemetry_kwh ids lower now rows = (\<Sum>k\<in>set (map fst ?s). held_kwh now (?xs k))"
    unfolding telemetry_kwh_def Let_def by (subst sum_list_distinct_conv_sum_set) simp_all
  ultimately have "telemetry_kwh ids lower now rows = (\<Sum>k\<in>?pairs. ?e k / of_int usec_per_hour)"
    using held by (metis (no_types, lifting) sum.cong)
  then show ?thesis by (simp only: sum_divide_distrib)
qed

text \<open>C36: the energy counted against a cap is exact. Unless a query fails, it is, over all pairs of a charger of the depot
  and a vehicle (or none), the sum over every microsecond since the month began of the power the pair had then: the power of its latest
  reading of the month up to that instant, while that reading is less than half an hour old, and 0 afterwards, so a charger that falls
  silent stops counting half an hour after its last reading. When the chargers or the readings cannot be read, the whole cap
  counts as used (0 where no cap is configured).\<close>

theorem cap_energy_exact:
  "get_cumulative_kwh_period db sa now =
     (let ids = map cs_id (filter (\<lambda>c. cs_site_id c = sa_depot_id sa) (db_stations db))
      in if db_fails db QStations \<or> ids \<noteq> [] \<and> db_fails db QTelemetryEnergy
         then (case energy_cap_kwh (sa_config sa) of None \<Rightarrow> 0 | Some cap \<Rightarrow> cap)
         else (\<Sum>k\<in>(\<lambda>r. (the (rg_charger_id r), rg_vehicle_id r)) ` {r \<in> set (db_telemetry db). rg_charger_id r \<in> Some ` set ids}.
                 \<Sum>u\<in>{period_start now..<now}. counted_power (db_telemetry db) (period_start now) k u) / of_int usec_per_hour)"
proof -
  define ids where "ids = map cs_id (filter (\<lambda>c. cs_site_id c = sa_depot_id sa) (db_stations db))"
  have "get_cumulative_kwh_period db sa now =
      (let fallback = (case energy_cap_kwh (sa_config sa) of None \<Rightarrow> 0 | Some cap \<Rightarrow> cap)
       in if db_fails db QStations then fallback else if ids = [] then 0 else if db_fails db QTelemetryEnergy then fallback
          else telemetry_kwh ids (period_start now) now (db_telemetry db))"
    unfolding get_cumulative_kwh_period_def depot_stations_def Let_def ids_def ..
  then show ?thesis unfolding ids_def [symmetric] Let_def telemetry_integral by (cases "ids = []") simp_all
qed

text \<open>No charger is lost when chargers are grouped by their power, provided those of equal power have equal
  efficiency.\<close>

theorem charger_count_kept:
  assumes "load_chargers stations = Inr (groups, efficiency)" "stations \<noteq> []"
    and "\<And>c d. c \<in> set stations \<Longrightarrow> d \<in> set stations \<Longrightarrow> cs_max_power_kw c = cs_max_power_kw d \<Longrightarrow> cs_efficiency c = cs_efficiency d"
  shows "sum_list (map snd groups) = int (length stations)"
proof -
  from assms(1,2) obtain eff where "group_chargers [] None (charger_rows stations) = Inr (groups, eff)"
    by (auto simp: load_chargers_def rbind_Inr_iff)
  moreover have "distinct (map (\<lambda>r. fst (fst r)) (charger_rows stations))" by (rule charger_rows_distinct) (rule assms(3))
  ultimately have "sum_list (map snd groups) = sum_list (map snd ([] :: (pyfloat, int) pydict)) + int (sum_list (map snd (charger_rows stations)))"
    by (rule group_chargers_sum) simp
  then show ?thesis by (simp add: charger_rows_count)
qed

text \<open>Without that proviso they are: two chargers of equal power and different efficiency are two rows of the
  query, and the second overwrites the count of the first.\<close>

lemma mixed_efficiency_loses_charger:
  "load_chargers [\<lparr>cs_id = ''a'', cs_site_id = s, cs_max_power_kw = Some 50, cs_efficiency = Some (95 / 100)\<rparr>,
      \<lparr>cs_id = ''b'', cs_site_id = s, cs_max_power_kw = Some 50, cs_efficiency = Some (9 / 10)\<rparr>] = Inr ([(50, 1)], 95 / 100)"
  by (simp add: load_chargers_def charger_rows_def power_rank_def non_null_def float_col_def Let_def)

section \<open>Witnesses\<close>

definition demo_site :: site_row where
  "demo_site =
     \<lparr>st_id = ''d'', st_timezone = None, st_tariff_config = PNone, st_max_grid_kw = Some 500, st_demand_charge_rate_kw = Some 15,
      st_building_load_assumption_kw = None, st_access_default = Some ''all_to_all'', st_tariff_type = None, st_energy_cap_kwh = None,
      st_under_cap_rate = None, st_over_cap_penalty = None, st_cap_billing_period = None, st_organization_id = None\<rparr>"

text \<open>A depot with one vehicle that has two trips, one charger, and a vehicle that comes in.\<close>

definition demo_trip :: "int \<Rightarrow> int \<Rightarrow> ManualRow" where
  "demo_trip dep ret =
     \<lparr>tp_vehicle_id = ''v'', tp_departure = dep * usec_per_hour, tp_return = ret * usec_per_hour, tp_energy_kwh = Some 40,
      tp_route_id = ''r'', mr_created_at = 0\<rparr>"

definition demo_db :: asm_db where
  "demo_db =
     \<lparr>db_fails = (\<lambda>_. False), db_sites = [demo_site],
      db_vehicles = [\<lparr>vh_id = ''v'', vh_site_id = ''d'', vh_battery_capacity_kwh = Some 300, vh_max_charge_rate_kw = Some 100,
        vh_id_tag = None, vh_external_id = None\<rparr>],
      db_stations = [\<lparr>cs_id = ''c'', cs_site_id = ''d'', cs_max_power_kw = Some 80, cs_efficiency = Some (9 / 10)\<rparr>],
      db_batteries = [], db_access = [], db_telemetry = [], db_vehicle_telemetry = None, db_vdv463 = None,
      db_schedules = [demo_trip 2 4, demo_trip 8 9], db_templates = [], db_cancellations = [], db_runs = [], db_demand = [],
      db_building_load = [], db_weather = [],
      db_messages = [\<lparr>im_dest_depot_id = ''d'', im_status = ''pending'', im_vehicle_id = ''w'', im_expected_soc = 1 / 4,
        im_arrival_time = 3 * usec_per_hour, im_battery_kwh = 200, im_max_charge_kw = 50, im_origin_depot_id = ''e''\<rparr>],
      db_adapter = demo_adapter, db_loads = (\<lambda>_. None), db_zone_info = (\<lambda>_. None), db_isoformat = (\<lambda>_. []),
      db_is_uuid = (\<lambda>_. True)\<rparr>"

definition demo_depot :: DepotConfig where
  "demo_depot = base_config\<lparr>vehicle_capacities := [(''v'', 300)], vehicle_max_charge_kw := [(''v'', 100)], charger_groups := [(80, 1)],
     charger_efficiency := 9 / 10, charger_vehicle_access := [(''c'', [''v''])], max_site_power := 500, charger_vehicle_access_default := ''all_to_all''\<rparr>"

lemma demo_loaded: "load_depot_config demo_db ''d'' = Inr (demo_depot, [])"
  by (simp add: load_depot_config_def demo_db_def site_def demo_site_def depot_vehicles_def depot_stations_def non_null_def float_col_def
      load_chargers_def charger_rows_def power_rank_def load_battery_def load_access_def access_default_def dict_of_rows_def demo_depot_def
      base_config_def List.map_filter_def Let_def)

lemma demo_depot_fields: "delta_t demo_depot = 1 / 4" "n_timesteps demo_depot = 96" "vehicle_capacities demo_depot = [(''v'', 300)]"
  by (simp_all add: demo_depot_def base_config_def)

lemma fixed_zone_exists: "valid_naive n \<Longrightarrow> \<not> is_nonexistent (fixed_zone 0) n"
proof (cases n)
  case (Pair d us)
  assume n: "valid_naive n"
  then have "date_of_ord (wall n div usec_per_day + 1) = d"
    using wall_date [OF n] date_of_ord by (intro toordinal_inject) (auto simp: Pair valid_naive_def)
  moreover have "wall n mod usec_per_day = us"
  proof -
    have "us mod usec_per_day = us" using n by (simp add: Pair valid_naive_def)
    then show ?thesis unfolding Pair wall.simps mod_mult_self3 by simp
  qed
  ultimately have "z_local (fixed_zone 0) (z_utc (fixed_zone 0) n) = n" by (simp add: fixed_zone_def Pair)
  then show ?thesis by (simp add: is_nonexistent_def Let_def)
qed

lemma fixed_zone_near: "zone_near_utc (fixed_zone 0)"
proof -
  have local: "toordinal (fst (z_local (fixed_zone 0) u)) - 1 = u div usec_per_day" "valid_date (fst (z_local (fixed_zone 0) u))" for u
    by (simp_all add: fixed_zone_def date_of_ord)
  have "to_utc (fixed_zone 0) d us < u" if "valid_naive (d, us)" "toordinal d < toordinal (fst (z_local (fixed_zone 0) u))" for d us u
  proof -
    have "to_utc (fixed_zone 0) d us = wall (d, us)" using fixed_zone_exists [OF that(1)] by (simp add: to_utc_def fixed_zone_def)
    moreover have "wall (d, us) div usec_per_day < u div usec_per_day" using wall_date [OF that(1)] that(2) local(1) [of u] by simp
    ultimately show ?thesis by (metis linorder_not_less usec_pos(4) zdiv_mono1)
  qed
  with local(2) show ?thesis by (simp add: zone_near_utc_def utc_date_def)
qed

theorem fetched_horizon_exact_witness:
  "expand_recurring_templates (fst (fetch_recurring_horizon_data [demo_template] [] ''d'' 0 (2 * usec_per_day)))
       (snd (fetch_recurring_horizon_data [demo_template] [] ''d'' 0 (2 * usec_per_day))) (fixed_zone 0) True 0 (2 * usec_per_day) =
     expand_recurring_templates [demo_template] [] (fixed_zone 0) True 0 (2 * usec_per_day)"
  using fetched_horizon_exact [OF fixed_zone_near, of "[demo_template]" "[]" "''d''" 0 "2 * usec_per_day"]
  by (simp add: demo_template_def template_ok_def usec_values)

theorem assembly_succeeds_witness:
  "\<exists>st sa' tab'. get_current_state demo_db 0 24 (sa_init ''d'' demo_depot) [] = (Inr st, sa', tab')"
  by (rule assembly_succeeds) (simp_all add: demo_db_def sa_init_def demo_depot_fields)

text \<open>An arbitrary successful assembly of the demonstration depot.\<close>

definition demo_result :: "int \<Rightarrow> DepotState result \<times> StateAssembler \<times> price_row list" where
  "demo_result h = get_current_state demo_db 0 h (sa_init ''d'' demo_depot) []"

lemma demo_assembled:
  assumes "0 < h" "h \<le> 48"
  obtains st sa' tab' where "demo_result h = (Inr st, sa', tab')"
proof (rule get_current_state_succeeds [of demo_db h "sa_init ''d'' demo_depot" 0 "[]", OF _ assms])
  show "\<not> db_fails demo_db q" for q by (simp add: demo_db_def)
  show "delta_t (sa_config (sa_init ''d'' demo_depot)) = 1 / 4" by (simp add: sa_init_def demo_depot_fields)
  show "db_is_uuid demo_db (sa_depot_id (sa_init ''d'' demo_depot))" by (simp add: demo_db_def)
qed (rule that, unfold demo_result_def)

lemma demo_socs: "get_vehicle_socs demo_db ''d'' 0 = Inr []"
  by (simp add: get_vehicle_socs_def demo_db_def depot_vehicles_def fetch_freshest_vehicle_socs_def freshest_soc_def soc_readings_def
      List.map_filter_def dict_of_rows_def Let_def)

theorem assembled_state_accepted_witness:
  "\<exists>st sa' tab'. demo_result 24 = (Inr st, sa', tab') \<and> validate_inputs st (sa_config sa') = None"
proof -
  obtain st sa' tab' where r: "demo_result 24 = (Inr st, sa', tab')" using demo_assembled [of 24] by auto
  note r' = r [unfolded demo_result_def]
  have "vehicle_socs st \<noteq> []"
  proof (rule get_current_state_Inr [OF r'])
    fix n inp assume "(st, sa_config sa') = assembled 0 n (sa_config (sa_init ''d'' demo_depot)) inp"
    from assembled_parts(1) [OF this] show ?thesis by (auto simp: sa_init_def demo_depot_fields keys_def)
  qed
  moreover have "plant_ok demo_depot" by (simp add: plant_ok_def demo_depot_def base_config_def)
  ultimately have "validate_inputs st (sa_config sa') = None"
    unfolding assembled_state_accepted [OF r', of "[]", simplified sa_init_def StateAssembler.select_convs, OF demo_socs demo_depot_fields(1)]
    using assembled_state_accepted [OF r', of "[]"] demo_socs by (simp add: sa_init_def demo_depot_fields dict_ok_def)
  with r show ?thesis by blast
qed

text \<open>The vehicle leaves at two and at eight o'clock: its departure is at step 32.\<close>

theorem departure_of_last_trip_witness:
  "\<exists>st sa' tab'. demo_result 24 = (Inr st, sa', tab') \<and> map_of (departure_times st) ''v'' = Some 32"
proof -
  obtain st sa' tab' where r: "demo_result 24 = (Inr st, sa', tab')" using demo_assembled [of 24] by auto
  have trips: "fst (get_schedules demo_db 0 (0 + 24 * usec_per_hour) (sa_init ''d'' demo_depot)) = Inr [strip_manual (demo_trip 2 4), strip_manual (demo_trip 8 9)]"
    by (simp add: get_schedules_def manual_rows_def fetch_recurring_horizon_data_def demo_db_def sa_init_def depot_vehicles_def demo_trip_def usec_values Let_def)
  have reqs: "get_vdv463_charging_requests demo_db (sa_depot_id (sa_init ''d'' demo_depot)) 0 (0 + 24 * usec_per_hour) = Inr []"
    by (simp add: get_vdv463_charging_requests_def demo_db_def)
  have "map_of (departure_times st) ''v'' = Some 32"
    using departure_of_last_trip [OF r [unfolded demo_result_def], of "''v''"] trips reqs
    by (auto simp: strip_manual_def demo_trip_def Trip.truncate_def departure_index_def sa_init_def demo_depot_fields quarter_timedelta usec_values
        trunc_def split: option.splits)
  with r show ?thesis by blast
qed

theorem availability_exact_witness:
  "\<exists>st sa' tab'. demo_result 24 = (Inr st, sa', tab') \<and> (available st ''v'' 10 = (\<not> on_route (15 * usec_per_min) 0 (sa_last_schedules sa') ''v'' 10))"
proof -
  obtain st sa' tab' where r: "demo_result 24 = (Inr st, sa', tab')" using demo_assembled [of 24] by auto
  note r' = r [unfolded demo_result_def]
  have "''v'' \<notin> iv_vehicle_id ` set (incoming_vehicles st)"
  proof (rule get_current_state_Inr [OF r'])
    fix n inp assume "(st, sa_config sa') = assembled 0 n (sa_config (sa_init ''d'' demo_depot)) inp"
      and "ai_incoming inp = get_incoming_vehicles demo_db (sa_depot_id (sa_init ''d'' demo_depot)) 0 (0 + 24 * usec_per_hour)"
    with assembled_parts(7) show ?thesis by (auto simp: get_incoming_vehicles_def demo_db_def split: if_splits)
  qed
  with availability_exact [OF r', of 10 "''v''"] r show ?thesis by (auto simp: sa_init_def demo_depot_fields keys_def)
qed

theorem charger_count_kept_witness:
  "load_chargers (db_stations demo_db) = Inr ([(80, 1)], 9 / 10) \<and> sum_list (map snd [(80 :: pyfloat, 1)]) = int (length (db_stations demo_db))"
proof -
  have g: "load_chargers (db_stations demo_db) = Inr ([(80, 1)], 9 / 10)"
    by (simp add: load_chargers_def charger_rows_def power_rank_def non_null_def float_col_def demo_db_def Let_def)
  have "sum_list (map snd [(80 :: pyfloat, 1)]) = int (length (db_stations demo_db))"
    by (rule charger_count_kept [OF g]) (simp_all add: demo_db_def)
  with g show ?thesis by blast
qed

end
