(* ===== verification/Solver_Pool.thy ===== *)
theory Solver_Pool
  imports Optimizer
begin

text \<open>
  The pool of worker processes that solve (\<open>src/src/core/optimizer/pool.py\<close>), as a step relation: any number of
  coroutines are inside \<open>solve\<close>, beside calls of \<open>start\<close> and \<open>stop\<close>, and a step is what one of them does between
  two \<open>await\<close>s. An executor is the number under which it was made. What the worker computes for a task's
  arguments is a parameter; whether it finishes, breaks its executor or runs into the timeout is open. Memory
  limits, the alarm of a worker and the killing of old processes are not modelled.
\<close>

section \<open>Model\<close>

datatype failure = BrokenProcessPool | TimeoutError

datatype solve_outcome =
    Returned OptimizationResult | RaisedWorker opt_error | RaisedNotStarted | RaisedTimeout | RaisedBrokenTwice

text \<open>Where a call of \<open>solve\<close> is: before the semaphore; before reading the executor for an attempt; awaiting the
  executor; about to recreate it; over.\<close>

datatype phase =
    Waiting | Ready nat | Running nat nat | Failing nat nat failure | Done solve_outcome

record SolverPool =
  sp_max_workers :: int
  sp_executor :: "nat option"
  sp_next_executor :: nat
  sp_slots :: nat
  sp_calls :: "(nat, phase) pydict"

definition pool_slots :: "int \<Rightarrow> nat" where
  "pool_slots max_workers = nat (max 1 max_workers)"

definition sp_init :: "int \<Rightarrow> SolverPool" where
  "sp_init max_workers =
     \<lparr>sp_max_workers = max_workers, sp_executor = None, sp_next_executor = 0, sp_slots = pool_slots max_workers, sp_calls = []\<rparr>"

definition make_executor :: "SolverPool \<Rightarrow> SolverPool" where
  "make_executor s = s\<lparr>sp_executor := Some (sp_next_executor s), sp_next_executor := Suc (sp_next_executor s)\<rparr>"

definition sp_start :: "SolverPool \<Rightarrow> SolverPool" where
  "sp_start s = (if sp_executor s \<noteq> None then s else make_executor s)"

definition sp_stop :: "SolverPool \<Rightarrow> SolverPool" where
  "sp_stop s = s\<lparr>sp_executor := None\<rparr>"

definition recreate :: "nat \<Rightarrow> SolverPool \<Rightarrow> SolverPool" where
  "recreate failed_executor s = (if sp_executor s \<noteq> Some failed_executor then s else make_executor s)"

definition goto :: "nat \<Rightarrow> phase \<Rightarrow> SolverPool \<Rightarrow> SolverPool" where
  "goto c p s = s\<lparr>sp_calls := AList.update c p (sp_calls s)\<rparr>"

text \<open>Leaving the \<open>async with\<close> block.\<close>

definition leave :: "nat \<Rightarrow> solve_outcome \<Rightarrow> SolverPool \<Rightarrow> SolverPool" where
  "leave c r s = (goto c (Done r) s)\<lparr>sp_slots := Suc (sp_slots s)\<rparr>"

definition after_failure :: "nat \<Rightarrow> nat \<Rightarrow> failure \<Rightarrow> SolverPool \<Rightarrow> SolverPool" where
  "after_failure c attempt f s =
     (if attempt = 1 then goto c (Ready 2) s
      else leave c (case f of TimeoutError \<Rightarrow> RaisedTimeout | BrokenProcessPool \<Rightarrow> RaisedBrokenTwice) s)"

datatype pool_event = Start | Stop | Call nat | Acquire nat | Begin nat | Finish nat | Fail nat failure | Recreate nat

inductive pool_step :: "(nat \<Rightarrow> opt_error + OptimizationResult) \<Rightarrow> SolverPool \<Rightarrow> pool_event \<Rightarrow> SolverPool \<Rightarrow> bool" for worker where
  start: "pool_step worker s Start (sp_start s)"
| stop: "pool_step worker s Stop (sp_stop s)"
| call: "c \<notin> keys (sp_calls s) \<Longrightarrow> pool_step worker s (Call c) (goto c Waiting s)"
| acquire: "map_of (sp_calls s) c = Some Waiting \<Longrightarrow> sp_slots s = Suc n \<Longrightarrow>
    pool_step worker s (Acquire c) ((goto c (Ready 1) s)\<lparr>sp_slots := n\<rparr>)"
| not_started: "map_of (sp_calls s) c = Some (Ready a) \<Longrightarrow> sp_executor s = None \<Longrightarrow>
    pool_step worker s (Begin c) (leave c RaisedNotStarted s)"
| submit: "map_of (sp_calls s) c = Some (Ready a) \<Longrightarrow> sp_executor s = Some e \<Longrightarrow>
    pool_step worker s (Begin c) (goto c (Running a e) s)"
| finish: "map_of (sp_calls s) c = Some (Running a e) \<Longrightarrow> worker c = Inr r \<Longrightarrow>
    pool_step worker s (Finish c) (leave c (Returned r) s)"
| worker_raises: "map_of (sp_calls s) c = Some (Running a e) \<Longrightarrow> worker c = Inl err \<Longrightarrow>
    pool_step worker s (Finish c) (leave c (RaisedWorker err) s)"
| fail: "map_of (sp_calls s) c = Some (Running a e) \<Longrightarrow> pool_step worker s (Fail c f) (goto c (Failing a e f) s)"
| recreate: "map_of (sp_calls s) c = Some (Failing a e f) \<Longrightarrow>
    pool_step worker s (Recreate c) (after_failure c a f (recreate e s))"

inductive pool_run :: "(nat \<Rightarrow> opt_error + OptimizationResult) \<Rightarrow> SolverPool \<Rightarrow> pool_event list \<Rightarrow> SolverPool \<Rightarrow> bool" for worker where
  nil: "pool_run worker s [] s"
| snoc: "pool_run worker s es s' \<Longrightarrow> pool_step worker s' e s'' \<Longrightarrow> pool_run worker s (es @ [e]) s''"

inductive_cases pool_stepE: "pool_step worker s e s'"
inductive_cases pool_run_snocE: "pool_run worker s (es @ [e]) s'"
inductive_simps pool_run_nil: "pool_run worker s [] s'"

lemmas pool_defs = sp_start_def sp_stop_def make_executor_def recreate_def goto_def leave_def after_failure_def

section \<open>Lemmas: the invariant\<close>

definition holding :: "phase \<Rightarrow> bool" where
  "holding p = (case p of Ready _ \<Rightarrow> True | Running _ _ \<Rightarrow> True | Failing _ _ _ \<Rightarrow> True | _ \<Rightarrow> False)"

definition in_flight :: "SolverPool \<Rightarrow> nat" where
  "in_flight s = length (filter (\<lambda>c. holding (snd c)) (sp_calls s))"

definition attempts_ok :: "phase \<Rightarrow> bool" where
  "attempts_ok p = (case p of Ready a \<Rightarrow> a \<in> {1, 2} | Running a e \<Rightarrow> a \<in> {1, 2} | Failing a e f \<Rightarrow> a \<in> {1, 2} | _ \<Rightarrow> True)"

definition result_ok :: "opt_error + OptimizationResult \<Rightarrow> phase \<Rightarrow> bool" where
  "result_ok w p = (case p of Done (Returned r) \<Rightarrow> w = Inr r | Done (RaisedWorker e) \<Rightarrow> w = Inl e | _ \<Rightarrow> True)"

definition pool_inv :: "(nat \<Rightarrow> opt_error + OptimizationResult) \<Rightarrow> SolverPool \<Rightarrow> bool" where
  "pool_inv worker s \<longleftrightarrow>
     dict_ok (sp_calls s) \<and> sp_slots s + in_flight s = pool_slots (sp_max_workers s) \<and>
     (\<forall>c p. map_of (sp_calls s) c = Some p \<longrightarrow> attempts_ok p \<and> result_ok (worker c) p) \<and>
     (\<forall>e. sp_executor s = Some e \<longrightarrow> e < sp_next_executor s)"

lemma count_update:
  assumes "dict_ok d"
  shows "length (filter (\<lambda>c. P (snd c)) (AList.update c p d)) + (if \<exists>q. map_of d c = Some q \<and> P q then 1 else 0) =
    length (filter (\<lambda>c. P (snd c)) d) + (if P p then 1 else 0)"
  using assms
proof (induction d)
  case (Cons x d)
  show ?case
  proof (cases "fst x = c")
    case True
    then show ?thesis by (cases x) auto
  next
    case False
    moreover from Cons.prems have "dict_ok d" by (simp add: dict_ok_def)
    ultimately show ?thesis using Cons.IH by (cases x) auto
  qed
qed simp

lemma in_flight_goto:
  "dict_ok (sp_calls s) \<Longrightarrow> map_of (sp_calls s) c = Some q \<Longrightarrow>
     in_flight (goto c p s) + (if holding q then 1 else 0) = in_flight s + (if holding p then 1 else 0)"
  using count_update [of "sp_calls s" holding c p] by (simp add: in_flight_def goto_def)

lemma in_flight_new: "dict_ok (sp_calls s) \<Longrightarrow> map_of (sp_calls s) c = None \<Longrightarrow> in_flight (goto c Waiting s) = in_flight s"
  using count_update [of "sp_calls s" holding c Waiting] by (simp add: in_flight_def goto_def holding_def)

lemma in_flight_frame [simp]:
  "in_flight (s\<lparr>sp_slots := n\<rparr>) = in_flight s" "in_flight (s\<lparr>sp_executor := e\<rparr>) = in_flight s"
  "in_flight (make_executor s) = in_flight s" "in_flight (recreate f s) = in_flight s"
  by (simp_all add: in_flight_def make_executor_def recreate_def)

lemma frame [simp]:
  "sp_calls (goto c p s) = AList.update c p (sp_calls s)" "sp_slots (goto c p s) = sp_slots s"
  "sp_max_workers (goto c p s) = sp_max_workers s" "sp_executor (goto c p s) = sp_executor s"
  "sp_next_executor (goto c p s) = sp_next_executor s"
  "sp_calls (leave c r s) = AList.update c (Done r) (sp_calls s)" "sp_slots (leave c r s) = Suc (sp_slots s)"
  "sp_max_workers (leave c r s) = sp_max_workers s" "sp_executor (leave c r s) = sp_executor s"
  "sp_next_executor (leave c r s) = sp_next_executor s"
  "sp_calls (recreate f s) = sp_calls s" "sp_slots (recreate f s) = sp_slots s" "sp_max_workers (recreate f s) = sp_max_workers s"
  by (simp_all add: goto_def leave_def recreate_def make_executor_def)

lemma goto_inv:
  assumes "pool_inv worker s" "map_of (sp_calls s) c = Some q" "holding q" "holding p" "attempts_ok p" "result_ok (worker c) p"
  shows "pool_inv worker (goto c p s)"
  using assms in_flight_goto [of s c q p] by (simp add: pool_inv_def)

lemma leave_inv:
  assumes "pool_inv worker s" "map_of (sp_calls s) c = Some q" "holding q" "result_ok (worker c) (Done r)"
  shows "pool_inv worker (leave c r s)"
proof -
  have "in_flight (leave c r s) + 1 = in_flight s"
    using assms in_flight_goto [of s c q "Done r"] by (simp add: leave_def pool_inv_def holding_def)
  with assms show ?thesis by (simp add: pool_inv_def attempts_ok_def)
qed

lemma recreate_inv: "pool_inv worker s \<Longrightarrow> pool_inv worker (recreate e s)"
  by (auto simp: pool_inv_def recreate_def make_executor_def in_flight_def)

lemma after_failure_inv:
  assumes "pool_inv worker s" "map_of (sp_calls s) c = Some (Failing a e f)"
  shows "pool_inv worker (after_failure c a f s)"
  using assms by (auto simp: after_failure_def holding_def attempts_ok_def result_ok_def split: failure.split
      intro: goto_inv [of worker s c "Failing a e f"] leave_inv [of worker s c "Failing a e f"])

lemma pool_step_inv [inv_intros]: "pool_step worker s e s' \<Longrightarrow> pool_inv worker s \<Longrightarrow> pool_inv worker s'"
proof (induction rule: pool_step.induct)
  case (start s)
  then show ?case by (auto simp: pool_inv_def sp_start_def make_executor_def in_flight_def)
next
  case (stop s)
  then show ?case by (simp add: pool_inv_def sp_stop_def in_flight_def)
next
  case (call c s)
  then show ?case using in_flight_new [of s c]
    by (auto simp: pool_inv_def keys_map_of_None attempts_ok_def result_ok_def)
next
  case (acquire s c n)
  have "in_flight (goto c (Ready 1) s) = Suc (in_flight s)"
    using acquire in_flight_goto [of s c Waiting "Ready 1"] by (simp add: pool_inv_def holding_def)
  with acquire show ?case by (simp add: pool_inv_def attempts_ok_def result_ok_def)
next
  case (submit s c a e)
  then have "attempts_ok (Ready a)" by (simp add: pool_inv_def)
  with submit show ?case by (intro goto_inv [of worker s c "Ready a"]) (simp_all add: holding_def attempts_ok_def result_ok_def)
next
  case (fail s c a e f)
  then have "attempts_ok (Running a e)" by (simp add: pool_inv_def)
  with fail show ?case by (intro goto_inv [of worker s c "Running a e"]) (simp_all add: holding_def attempts_ok_def result_ok_def)
next
  case (recreate s c a e f)
  then show ?case by (simp add: after_failure_inv [where e = e] recreate_inv)
qed (auto simp: holding_def result_ok_def intro: leave_inv)

lemma sp_init_inv: "pool_inv worker (sp_init n)"
  by (simp add: pool_inv_def sp_init_def in_flight_def)

lemma pool_run_inv: "pool_run worker s es s' \<Longrightarrow> pool_inv worker s \<Longrightarrow> pool_inv worker s'"
  by (induction rule: pool_run.induct) (auto intro: pool_step_inv)

lemma pool_run_workers: "pool_run worker s es s' \<Longrightarrow> sp_max_workers s' = sp_max_workers s"
  by (induction rule: pool_run.induct)
    (auto elim!: pool_stepE simp: sp_start_def sp_stop_def make_executor_def after_failure_def)

section \<open>Lemmas: progress\<close>

text \<open>The steps a call has left at most: two attempts of three steps each, and the semaphore.\<close>

definition steps_left :: "phase \<Rightarrow> nat" where
  "steps_left p = (case p of Waiting \<Rightarrow> 7 | Ready a \<Rightarrow> if a = 1 then 6 else 3 | Running a e \<Rightarrow> if a = 1 then 5 else 2
     | Failing a e f \<Rightarrow> if a = 1 then 4 else 1 | Done r \<Rightarrow> 0)"

definition work :: "SolverPool \<Rightarrow> nat" where
  "work s = dict_sum steps_left (sp_calls s)"

definition is_call_step :: "pool_event \<Rightarrow> bool" where
  "is_call_step e \<longleftrightarrow> (case e of Start \<Rightarrow> False | Stop \<Rightarrow> False | Call _ \<Rightarrow> False | _ \<Rightarrow> True)"

lemma work_step:
  assumes "dict_ok (sp_calls s)" "map_of (sp_calls s) c = Some q" "sp_calls s' = AList.update c p (sp_calls s)" "steps_left p < steps_left q"
  shows "work s' < work s"
  using dict_sum_update [OF assms(1,2), of steps_left p] assms(3,4) by (simp add: work_def)

lemma call_step_works:
  assumes "pool_step worker s e s'" "pool_inv worker s" "is_call_step e"
  shows "work s' < work s"
proof -
  have ok: "dict_ok (sp_calls s)" and att: "\<And>c p. map_of (sp_calls s) c = Some p \<Longrightarrow> attempts_ok p" using assms(2) by (simp_all add: pool_inv_def)
  from assms(1,3) obtain c q p where "map_of (sp_calls s) c = Some q" "sp_calls s' = AList.update c p (sp_calls s)" "steps_left p < steps_left q"
  proof (cases rule: pool_step.cases)
    case (recreate c a e f)
    with att show ?thesis by (intro that [of c "Failing a e f" "if a = 1 then Ready 2 else Done (case f of TimeoutError \<Rightarrow> RaisedTimeout | BrokenProcessPool \<Rightarrow> RaisedBrokenTwice)"])
        (auto simp: after_failure_def steps_left_def attempts_ok_def)
  qed (use att that in \<open>auto simp: steps_left_def is_call_step_def\<close>)
  with ok show ?thesis using work_step by blast
qed

lemma other_step_work:
  assumes "pool_step worker s e s'" "\<And>c. e \<noteq> Call c" "\<not> is_call_step e"
  shows "work s' = work s"
  using assms by (cases rule: pool_step.cases) (auto simp: work_def is_call_step_def sp_start_def sp_stop_def make_executor_def)

lemma call_step_enabled:
  assumes "pool_inv worker s" "map_of (sp_calls s) c = Some p" "\<And>r. p \<noteq> Done r"
  shows "\<exists>e s'. is_call_step e \<and> pool_step worker s e s'"
proof -
  have call: "is_call_step (Acquire d)" "is_call_step (Begin d)" "is_call_step (Fail d f)" "is_call_step (Recreate d)" for d f
    by (simp_all add: is_call_step_def)
  have running: "\<exists>e s'. is_call_step e \<and> pool_step worker s e s'" if q: "map_of (sp_calls s) d = Some q" "holding q" for d q
  proof (cases q)
    case (Ready a)
    with q call(2) [of d] show ?thesis by (cases "sp_executor s") (blast intro: not_started submit)+
  next
    case (Running a e)
    with q call(3) [of d TimeoutError] show ?thesis by (blast intro: fail)
  next
    case (Failing a e f)
    with q call(4) [of d] show ?thesis by (blast intro: pool_step.recreate)
  qed (use q in \<open>simp_all add: holding_def\<close>)
  show ?thesis
  proof (cases "holding p")
    case True
    with running assms(2) show ?thesis by blast
  next
    case False
    with assms(3) have p: "p = Waiting" by (cases p) (auto simp: holding_def)
    show ?thesis
    proof (cases "sp_slots s")
      case 0
      then have "0 < in_flight s" using assms(1) by (auto simp: pool_inv_def pool_slots_def)
      then obtain x where "x \<in> set (sp_calls s)" "holding (snd x)" by (auto simp: in_flight_def filter_empty_conv)
      moreover from assms(1) have "dict_ok (sp_calls s)" by (simp add: pool_inv_def)
      ultimately have "map_of (sp_calls s) (fst x) = Some (snd x)" "holding (snd x)" using map_of_in_set [of "sp_calls s" "fst x" "snd x"] by simp_all
      then show ?thesis using running by blast
    next
      case (Suc n)
      with p assms(2) call(1) [of c] show ?thesis by (blast intro: acquire)
    qed
  qed
qed

lemma run_work:
  "pool_run worker s es s' \<Longrightarrow> pool_inv worker s \<Longrightarrow> (\<And>c. Call c \<notin> set es) \<Longrightarrow> work s' + length (filter is_call_step es) \<le> work s"
proof (induction rule: pool_run.induct)
  case (snoc s es s' e s'')
  from snoc have IH: "work s' + length (filter is_call_step es) \<le> work s" and inv: "pool_inv worker s'" by (auto intro: pool_run_inv)
  from snoc.prems(2) have "e \<noteq> Call c" for c by (metis in_set_conv_decomp)
  with IH snoc.hyps inv show ?case
    using call_step_works [OF snoc.hyps(2) inv] other_step_work [OF snoc.hyps(2)] by (cases "is_call_step e") auto
qed simp

lemma stopped_step:
  assumes "pool_step worker s e s'" "sp_executor s = None" "e \<noteq> Start"
  shows "sp_executor s' = None \<and> sp_next_executor s' = sp_next_executor s"
  using assms by (cases rule: pool_step.cases) (auto simp: sp_stop_def after_failure_def recreate_def)

lemma work_bound: "work s \<le> 7 * length (sp_calls s)"
proof -
  have "steps_left p \<le> 7" for p by (cases p) (auto simp: steps_left_def)
  then have "dict_sum steps_left cs \<le> 7 * length cs" for cs :: "(nat, phase) pydict"
    by (induction cs) (simp_all add: dict_sum_def add_le_mono)
  then show ?thesis by (simp add: work_def)
qed

section \<open>Properties\<close>

text \<open>C26: over every interleaving of calls, starts, stops, failures and recreations of the pool, no more solves are in
  flight than it has workers (one at least), so that no solve spends its time limit waiting for a worker; and a
  result that a call returns is what the worker computed for that call's own arguments.\<close>

theorem pool_bounded:
  assumes "pool_run worker (sp_init max_workers) es s"
  shows "in_flight s \<le> pool_slots max_workers \<and>
    (\<forall>c r. map_of (sp_calls s) c = Some (Done (Returned r)) \<longrightarrow> worker c = Inr r)"
proof -
  have "pool_inv worker s" using pool_run_inv [OF assms sp_init_inv] .
  moreover have "sp_max_workers s = max_workers" using pool_run_workers [OF assms] by (simp add: sp_init_def)
  ultimately show ?thesis by (fastforce simp: pool_inv_def result_ok_def)
qed

text \<open>C34: every solve ends. From any reachable state, the calls that are in the pool take at most seven steps each
  (the semaphore, and three for each of two attempts), whatever fails and whoever starts or stops the pool; and as
  long as one of them has not ended, some call can take a step.\<close>

theorem solves_end:
  assumes "pool_run worker (sp_init max_workers) es s" "pool_run worker s fs s'" "\<And>c. Call c \<notin> set fs"
  shows "length (filter is_call_step fs) \<le> 7 * length (sp_calls s) \<and>
    (\<forall>c p. map_of (sp_calls s') c = Some p \<longrightarrow> (\<forall>r. p \<noteq> Done r) \<longrightarrow> (\<exists>e s''. is_call_step e \<and> pool_step worker s' e s''))"
proof -
  have inv: "pool_inv worker s" using pool_run_inv [OF assms(1) sp_init_inv] .
  have "length (filter is_call_step fs) \<le> work s" using run_work [OF assms(2) inv assms(3)] by linarith
  moreover have "pool_inv worker s'" using pool_run_inv [OF assms(2) inv] .
  ultimately show ?thesis using work_bound [of s] call_step_enabled by (meson order_trans)
qed

text \<open>A stopped pool is not started again by a failure of a solve that was in flight when it was stopped.\<close>

theorem stopped_pool_stays_stopped:
  assumes "pool_run worker s es s'" "sp_executor s = None" "Start \<notin> set es"
  shows "sp_executor s' = None \<and> sp_next_executor s' = sp_next_executor s"
  using assms by (induction rule: pool_run.induct) (use stopped_step in fastforce)+

section \<open>Witnesses\<close>

definition demo_worker :: "nat \<Rightarrow> opt_error + OptimizationResult" where
  "demo_worker c = Inl InfeasibleModelError"

definition demo_pool :: SolverPool where
  "demo_pool = \<lparr>sp_max_workers = 2, sp_executor = Some 0, sp_next_executor = 1, sp_slots = 1, sp_calls = [(0, Running 1 0)]\<rparr>"

lemma demo_pool_run: "pool_run demo_worker (sp_init 2) [Start, Call 0, Acquire 0, Begin 0] demo_pool"
proof -
  let ?s1 = "sp_start (sp_init 2)"
  let ?s2 = "goto 0 Waiting ?s1"
  let ?s3 = "(goto 0 (Ready 1) ?s2)\<lparr>sp_slots := 1\<rparr>"
  have s1: "pool_run demo_worker (sp_init 2) ([] @ [Start]) ?s1" by (rule pool_run.snoc [OF nil start])
  have s2: "pool_run demo_worker (sp_init 2) (([] @ [Start]) @ [Call 0]) ?s2"
    by (rule pool_run.snoc [OF s1 call]) (simp add: pool_defs sp_init_def)
  have s3: "pool_run demo_worker (sp_init 2) ((([] @ [Start]) @ [Call 0]) @ [Acquire 0]) ?s3"
    by (rule pool_run.snoc [OF s2 acquire]) (simp_all add: pool_defs sp_init_def pool_slots_def)
  have "pool_run demo_worker (sp_init 2) (((([] @ [Start]) @ [Call 0]) @ [Acquire 0]) @ [Begin 0]) (goto 0 (Running 1 0) ?s3)"
    by (rule pool_run.snoc [OF s3 submit]) (simp_all add: pool_defs sp_init_def)
  moreover have "goto 0 (Running 1 0) ?s3 = demo_pool" by (simp add: pool_defs sp_init_def demo_pool_def)
  ultimately show ?thesis by simp
qed

theorem pool_bounded_witness: "in_flight demo_pool \<le> 2"
  using pool_bounded [OF demo_pool_run] by (simp add: pool_slots_def)

theorem solves_end_witness: "\<exists>e s''. is_call_step e \<and> pool_step demo_worker demo_pool e s''"
proof -
  have "map_of (sp_calls demo_pool) 0 = Some (Running 1 0)" by (simp add: demo_pool_def)
  with solves_end [OF demo_pool_run nil] show ?thesis by fastforce
qed

end
