(* ===== verification/Token_Budget.thy ===== *)
theory Token_Budget
  imports Report_Timing
begin

text \<open>
  The monthly token budget of the chat agent (\<open>src/src/api/agent/budget.py\<close>). The tracker's methods await the
  database in the middle, so the model is a machine whose events are what one coroutine does between two
  \<open>await\<close>s: turns that reserve and record, flushes, reconciliations, and other workers that write the table. An
  event that does not apply to the state leaves it as it is. A failed write has no effect (asyncpg runs
  \<open>executemany\<close> in one transaction). \<open>bw_ledger\<close> is not in the code: it lists the usage ever recorded, for the
  statements.
\<close>

section \<open>Model: budget and estimate\<close>

definition DEFAULT_TOKEN_BUDGET_MONTHLY :: int where
  "DEFAULT_TOKEN_BUDGET_MONTHLY = 10000000"

definition PER_TURN_OVERHEAD_TOKENS :: int where
  "PER_TURN_OVERHEAD_TOKENS = 4096"

text \<open>\<open>int\<close> of a text: a sign, decimal digits, single underscores between digits.\<close>

fun digits_value :: "bool \<Rightarrow> int \<Rightarrow> string \<Rightarrow> int option" where
  "digits_value after_digit n [] = (if after_digit then Some n else None)"
| "digits_value after_digit n (c # cs) =
     (if is_decimal c then digits_value True (10 * n + (int (of_char c) - 48)) cs
      else if c = CHR ''_'' \<and> after_digit then digits_value False n cs else None)"

definition int_of_text :: "string \<Rightarrow> int option" where
  "int_of_text s =
     (case strip s of
        [] \<Rightarrow> None
      | c # cs \<Rightarrow> if c = CHR ''-'' then map_option uminus (digits_value False 0 cs)
                  else if c = CHR ''+'' then digits_value False 0 cs else digits_value False 0 (c # cs))"

definition parse_positive_int :: "string option \<Rightarrow> int option" where
  "parse_positive_int raw =
     (case raw of None \<Rightarrow> None
      | Some s \<Rightarrow> (case int_of_text s of None \<Rightarrow> None | Some v \<Rightarrow> if v > 0 then Some v else None))"

text \<open>What the read of \<open>organizations\<close> gives: no pool, an error, or the text of the column.\<close>

datatype budget_answer = NoStaticPool | BudgetReadFailed | BudgetColumn "string option"

definition resolve_org_token_budget :: "budget_answer \<Rightarrow> int" where
  "resolve_org_token_budget answer =
     (case answer of
        NoStaticPool \<Rightarrow> DEFAULT_TOKEN_BUDGET_MONTHLY
      | BudgetReadFailed \<Rightarrow> DEFAULT_TOKEN_BUDGET_MONTHLY
      | BudgetColumn raw \<Rightarrow> (case parse_positive_int raw of None \<Rightarrow> DEFAULT_TOKEN_BUDGET_MONTHLY | Some v \<Rightarrow> v))"

definition current_period_yyyymm :: "pydate \<Rightarrow> string" where
  "current_period_yyyymm today = (case today of (y, m, d) \<Rightarrow> int_str y @ pad2 m)"

definition estimate_turn_tokens :: "string \<Rightarrow> int" where
  "estimate_turn_tokens system_prompt = max 0 (int (length system_prompt) div 4) + PER_TURN_OVERHEAD_TOKENS"

section \<open>Model: the tracker\<close>

type_synonym org_period = "string \<times> string"

record Reservation =
  rv_organization_id :: "string option"
  rv_period_yyyymm :: string
  rv_est_tokens :: int

record PeriodCounter =
  committed_input :: int
  committed_output :: int
  reserved :: int
  unflushed_input :: int
  unflushed_output :: int

definition empty_counter :: PeriodCounter where
  "empty_counter = \<lparr>committed_input = 0, committed_output = 0, reserved = 0, unflushed_input = 0, unflushed_output = 0\<rparr>"

definition counter_total :: "PeriodCounter \<Rightarrow> int" where
  "counter_total c = committed_input c + committed_output c + reserved c"

record TokenBudgetTracker =
  tb_ts_pool :: bool
  tb_flush_every_writes :: int
  tb_flush_every_seconds :: pyfloat
  tb_counters :: "(org_period, PeriodCounter) pydict"
  tb_hydrated :: "org_period set"
  tb_hydration_lock :: "nat option"
  tb_writes_since_flush :: int
  tb_last_flush_at :: pyfloat
  tb_flush_task :: bool

text \<open>A turn: waiting for the lock, reading the table, holding the row, awaiting the ceiling; what
  \<open>check_and_reserve\<close> returned or raised; usage recorded.\<close>

datatype turn =
    AwaitingLock org_period int
  | HydrateReading org_period int
  | HydrateRow org_period int "(int \<times> int) option"
  | Resolving org_period int
  | TurnReserved Reservation
  | TurnRefused
  | TurnRaised
  | TurnRecorded

datatype flusher = Background | Caller nat | Reconciler nat

text \<open>A reconciliation after its flush: reading a key, holding the row; with the keys left.\<close>

datatype sweep = SweepReading org_period "org_period list" | SweepRow org_period "org_period list" "(int \<times> int) option"

type_synonym usage_list = "(org_period \<times> int \<times> int) list"

record budget_world = TokenBudgetTracker +
  bw_table :: "(org_period, int \<times> int) pydict"
  bw_turns :: "(nat, turn) pydict"
  bw_flights :: "(flusher, usage_list) pydict"
  bw_sweeps :: "(nat, sweep) pydict"
  bw_ledger :: usage_list

definition counter_of :: "'a TokenBudgetTracker_scheme \<Rightarrow> org_period \<Rightarrow> PeriodCounter" where
  "counter_of s k = (case map_of (tb_counters s) k of None \<Rightarrow> empty_counter | Some c \<Rightarrow> c)"

definition set_counter :: "org_period \<Rightarrow> PeriodCounter \<Rightarrow> 'a TokenBudgetTracker_scheme \<Rightarrow> 'a TokenBudgetTracker_scheme" where
  "set_counter k c s = s\<lparr>tb_counters := AList.update k c (tb_counters s)\<rparr>"

text \<open>\<open>self._counters.setdefault(key, _PeriodCounter())\<close>.\<close>

definition default_counter :: "org_period \<Rightarrow> 'a TokenBudgetTracker_scheme \<Rightarrow> 'a TokenBudgetTracker_scheme" where
  "default_counter k s = set_counter k (counter_of s k) s"

definition set_turn :: "nat \<Rightarrow> turn \<Rightarrow> budget_world \<Rightarrow> budget_world" where
  "set_turn t p s = s\<lparr>bw_turns := AList.update t p (bw_turns s)\<rparr>"

definition reserve_more :: "int \<Rightarrow> PeriodCounter \<Rightarrow> PeriodCounter" where
  "reserve_more est c = c\<lparr>reserved := reserved c + est\<rparr>"

definition release_hold :: "int \<Rightarrow> PeriodCounter \<Rightarrow> PeriodCounter" where
  "release_hold est c = c\<lparr>reserved := max 0 (reserved c - est)\<rparr>"

text \<open>After the hydration: the hold, before the ceiling is awaited.\<close>

definition pin :: "nat \<Rightarrow> org_period \<Rightarrow> int \<Rightarrow> budget_world \<Rightarrow> budget_world" where
  "pin t k est s = set_turn t (Resolving k est) (set_counter k (reserve_more est (counter_of s k)) s)"

definition hydration_done :: "org_period \<Rightarrow> 'a TokenBudgetTracker_scheme \<Rightarrow> 'a TokenBudgetTracker_scheme" where
  "hydration_done k s = s\<lparr>tb_hydrated := insert k (tb_hydrated s), tb_hydration_lock := None\<rparr>"

definition check_begin :: "nat \<Rightarrow> string option \<Rightarrow> string \<Rightarrow> pydate \<Rightarrow> budget_world \<Rightarrow> budget_world" where
  "check_begin t organization_id system_prompt today s =
     (let period = current_period_yyyymm today; est = max 0 (estimate_turn_tokens system_prompt)
      in case organization_id of
           None \<Rightarrow> set_turn t (TurnReserved \<lparr>rv_organization_id = None, rv_period_yyyymm = period, rv_est_tokens = 0\<rparr>) s
         | Some org \<Rightarrow>
             if (org, period) \<in> tb_hydrated s then pin t (org, period) est s
             else set_turn t (AwaitingLock (org, period) est) s)"

text \<open>Under the lock the key is checked again; without a pool there is nothing to read.\<close>

definition hydrate_begin :: "nat \<Rightarrow> org_period \<Rightarrow> int \<Rightarrow> budget_world \<Rightarrow> budget_world" where
  "hydrate_begin t k est s =
     (if k \<in> tb_hydrated s then pin t k est s
      else let s1 = default_counter k s
           in if \<not> tb_ts_pool s1 then pin t k est (hydration_done k s1)
              else set_turn t (HydrateReading k est) (s1\<lparr>tb_hydration_lock := Some t\<rparr>))"

definition row_amounts :: "(int \<times> int) option \<Rightarrow> int \<times> int" where
  "row_amounts row = (case row of None \<Rightarrow> (0, 0) | Some r \<Rightarrow> r)"

definition hydrate_end :: "nat \<Rightarrow> org_period \<Rightarrow> int \<Rightarrow> (int \<times> int) option \<Rightarrow> budget_world \<Rightarrow> budget_world" where
  "hydrate_end t k est row s =
     (let s1 = (case row of
                  None \<Rightarrow> s
                | Some (i, j) \<Rightarrow> set_counter k ((counter_of s k)\<lparr>committed_input := i, committed_output := j\<rparr>) s)
      in pin t k est (hydration_done k s1))"

definition check_end :: "nat \<Rightarrow> org_period \<Rightarrow> int \<Rightarrow> int \<Rightarrow> budget_world \<Rightarrow> budget_world" where
  "check_end t k est limit s =
     (let c = counter_of s k
      in if counter_total c > limit then set_turn t TurnRefused (set_counter k (c\<lparr>reserved := reserved c - est\<rparr>) s)
         else set_turn t (TurnReserved \<lparr>rv_organization_id = Some (fst k), rv_period_yyyymm = snd k, rv_est_tokens = est\<rparr>) s)"

text \<open>A turn that is cancelled, or whose resolver raises, at each of its \<open>await\<close>s.\<close>

definition check_cancel :: "nat \<Rightarrow> turn \<Rightarrow> budget_world \<Rightarrow> budget_world" where
  "check_cancel t p s =
     (case p of
        AwaitingLock k est \<Rightarrow> set_turn t TurnRaised s
      | HydrateReading k est \<Rightarrow> set_turn t TurnRaised (s\<lparr>tb_hydration_lock := None\<rparr>)
      | HydrateRow k est row \<Rightarrow> set_turn t TurnRaised (s\<lparr>tb_hydration_lock := None\<rparr>)
      | Resolving k est \<Rightarrow> set_turn t TurnRaised (set_counter k (release_hold est (counter_of s k)) s)
      | _ \<Rightarrow> s)"

definition maybe_schedule_flush :: "pyfloat \<Rightarrow> pyfloat \<Rightarrow> 'a TokenBudgetTracker_scheme \<Rightarrow> 'a TokenBudgetTracker_scheme" where
  "maybe_schedule_flush now later s =
     (if \<not> (tb_writes_since_flush s \<ge> tb_flush_every_writes s \<or> now - tb_last_flush_at s \<ge> tb_flush_every_seconds s) then s
      else if tb_flush_task s then s
      else s\<lparr>tb_writes_since_flush := 0, tb_last_flush_at := later, tb_flush_task := True\<rparr>)"

definition record_counter :: "int \<Rightarrow> int \<Rightarrow> int \<Rightarrow> PeriodCounter \<Rightarrow> PeriodCounter" where
  "record_counter est ai ao c =
     (release_hold est c)\<lparr>committed_input := committed_input c + ai, committed_output := committed_output c + ao,
        unflushed_input := unflushed_input c + ai, unflushed_output := unflushed_output c + ao\<rparr>"

definition record_actual :: "Reservation \<Rightarrow> int \<Rightarrow> int \<Rightarrow> pyfloat \<Rightarrow> pyfloat \<Rightarrow> 'a TokenBudgetTracker_scheme \<Rightarrow> 'a TokenBudgetTracker_scheme" where
  "record_actual rv actual_input_tokens actual_output_tokens now later s =
     (case rv_organization_id rv of
        None \<Rightarrow> s
      | Some org \<Rightarrow>
          if org = [] then s
          else let k = (org, rv_period_yyyymm rv);
                   s1 = set_counter k (record_counter (rv_est_tokens rv) (max 0 actual_input_tokens) (max 0 actual_output_tokens) (counter_of s k)) s
               in maybe_schedule_flush now later (s1\<lparr>tb_writes_since_flush := tb_writes_since_flush s1 + 1\<rparr>))"

section \<open>Model: flush and reconciliation\<close>

definition pending_of :: "(org_period, PeriodCounter) pydict \<Rightarrow> usage_list" where
  "pending_of counters =
     map (\<lambda>(k, c). (k, unflushed_input c, unflushed_output c))
       (filter (\<lambda>(k, c). unflushed_input c \<noteq> 0 \<or> unflushed_output c \<noteq> 0) counters)"

definition clear_unflushed :: "PeriodCounter \<Rightarrow> PeriodCounter" where
  "clear_unflushed c = c\<lparr>unflushed_input := 0, unflushed_output := 0\<rparr>"

definition add_unflushed :: "int \<Rightarrow> int \<Rightarrow> PeriodCounter \<Rightarrow> PeriodCounter" where
  "add_unflushed di dj c = c\<lparr>unflushed_input := unflushed_input c + di, unflushed_output := unflushed_output c + dj\<rparr>"

text \<open>The upsert of one row, which adds to what the table has.\<close>

fun upsert_usage :: "(org_period, int \<times> int) pydict \<Rightarrow> org_period \<times> int \<times> int \<Rightarrow> (org_period, int \<times> int) pydict" where
  "upsert_usage tab (k, i, j) =
     (let (a, b) = row_amounts (map_of tab k) in AList.update k (a + i, b + j) tab)"

fun roll_back :: "(org_period, PeriodCounter) pydict \<Rightarrow> org_period \<times> int \<times> int \<Rightarrow> (org_period, PeriodCounter) pydict" where
  "roll_back counters (k, di, dj) =
     (case map_of counters k of None \<Rightarrow> counters | Some c \<Rightarrow> AList.update k (add_unflushed di dj c) counters)"

definition settled_past :: "string \<Rightarrow> 'a TokenBudgetTracker_scheme \<Rightarrow> org_period \<times> PeriodCounter \<Rightarrow> bool" where
  "settled_past current s e \<longleftrightarrow>
     snd (fst e) \<noteq> current \<and> fst e \<in> tb_hydrated s \<and>
     reserved (snd e) = 0 \<and> unflushed_input (snd e) = 0 \<and> unflushed_output (snd e) = 0"

definition evict_settled_past_periods :: "string \<Rightarrow> 'a TokenBudgetTracker_scheme \<Rightarrow> 'a TokenBudgetTracker_scheme" where
  "evict_settled_past_periods current s =
     s\<lparr>tb_counters := filter (\<lambda>e. \<not> settled_past current s e) (tb_counters s),
       tb_hydrated := tb_hydrated s - fst ` set (filter (settled_past current s) (tb_counters s))\<rparr>"

text \<open>The loop of \<open>reconcile\<close> goes on to the next key that is hydrated.\<close>

definition sweep_next :: "nat \<Rightarrow> org_period list \<Rightarrow> budget_world \<Rightarrow> budget_world" where
  "sweep_next r ks s =
     (case dropWhile (\<lambda>k. k \<notin> tb_hydrated s) ks of
        [] \<Rightarrow> s\<lparr>bw_sweeps := AList.delete r (bw_sweeps s)\<rparr>
      | k # ks' \<Rightarrow> s\<lparr>bw_sweeps := AList.update r (SweepReading k ks') (bw_sweeps s)\<rparr>)"

text \<open>What follows a flush: the background task is over, a reconciliation evicts and starts its sweep.\<close>

definition after_flush :: "flusher \<Rightarrow> pydate \<Rightarrow> budget_world \<Rightarrow> budget_world" where
  "after_flush f today s =
     (case f of
        Background \<Rightarrow> s\<lparr>tb_flush_task := False\<rparr>
      | Caller _ \<Rightarrow> s
      | Reconciler r \<Rightarrow>
          (let s1 = evict_settled_past_periods (current_period_yyyymm today) s
           in if tb_ts_pool s1 then sweep_next r (map fst (tb_counters s1)) s1 else s1))"

definition budget_flush_begin :: "flusher \<Rightarrow> pydate \<Rightarrow> budget_world \<Rightarrow> budget_world" where
  "budget_flush_begin f today s =
     (if \<not> tb_ts_pool s then after_flush f today s
      else let pending = pending_of (tb_counters s);
               s1 = s\<lparr>tb_counters := map (map_prod id clear_unflushed) (tb_counters s)\<rparr>
           in if pending = [] then after_flush f today s1
              else s1\<lparr>bw_flights := AList.update f pending (bw_flights s1)\<rparr>)"

definition budget_flush_end :: "flusher \<Rightarrow> usage_list \<Rightarrow> bool \<Rightarrow> pydate \<Rightarrow> budget_world \<Rightarrow> budget_world" where
  "budget_flush_end f pending written today s =
     (let s1 = s\<lparr>bw_flights := AList.delete f (bw_flights s)\<rparr>
      in after_flush f today
           (if written then s1\<lparr>bw_table := foldl upsert_usage (bw_table s1) pending\<rparr>
            else s1\<lparr>tb_counters := foldl roll_back (tb_counters s1) pending\<rparr>))"

definition refresh_counter :: "(int \<times> int) option \<Rightarrow> PeriodCounter \<Rightarrow> PeriodCounter" where
  "refresh_counter row c =
     (let (db_in, db_out) = row_amounts row
      in c\<lparr>committed_input := db_in + unflushed_input c, committed_output := db_out + unflushed_output c\<rparr>)"

definition sweep_assign :: "nat \<Rightarrow> org_period \<Rightarrow> org_period list \<Rightarrow> (int \<times> int) option \<Rightarrow> budget_world \<Rightarrow> budget_world" where
  "sweep_assign r k ks row s =
     sweep_next r ks
       (case map_of (tb_counters s) k of None \<Rightarrow> s | Some c \<Rightarrow> set_counter k (refresh_counter row c) s)"

section \<open>Model: interleavings\<close>

datatype budget_event =
    Check nat "string option" string pydate
  | AcquireLock nat
  | ReadUsage nat bool
  | Hydrate nat
  | Ceiling nat budget_answer
  | CancelTurn nat
  | RecordTurn nat int int pyfloat pyfloat
  | FlushBegin flusher pydate
  | FlushEnd flusher bool pydate
  | SweepRead nat bool
  | SweepAssign nat
  | OtherWorker org_period int int

text \<open>A background flush runs only when one was scheduled; a reconciliation starts with its flush.\<close>

definition may_flush :: "flusher \<Rightarrow> budget_world \<Rightarrow> bool" where
  "may_flush f s \<longleftrightarrow>
     f \<notin> keys (bw_flights s) \<and>
     (case f of Background \<Rightarrow> tb_flush_task s | Caller _ \<Rightarrow> True | Reconciler r \<Rightarrow> r \<notin> keys (bw_sweeps s))"

definition record_turn :: "nat \<Rightarrow> Reservation \<Rightarrow> int \<Rightarrow> int \<Rightarrow> pyfloat \<Rightarrow> pyfloat \<Rightarrow> budget_world \<Rightarrow> budget_world" where
  "record_turn t rv i j now later s =
     (let s1 = set_turn t TurnRecorded (record_actual rv i j now later s)
      in case rv_organization_id rv of
           None \<Rightarrow> s1
         | Some org \<Rightarrow> if org = [] then s1
                       else s1\<lparr>bw_ledger := bw_ledger s @ [((org, rv_period_yyyymm rv), max 0 i, max 0 j)]\<rparr>)"

text \<open>An organisation is a UUID, whose text is not empty.\<close>

fun budget_step :: "budget_world \<Rightarrow> budget_event \<Rightarrow> budget_world" where
  "budget_step s (Check t org prompt today) = (if t \<in> keys (bw_turns s) \<or> org = Some [] then s else check_begin t org prompt today s)"
| "budget_step s (AcquireLock t) =
     (case map_of (bw_turns s) t of
        Some (AwaitingLock k est) \<Rightarrow> if tb_hydration_lock s = None then hydrate_begin t k est s else s
      | _ \<Rightarrow> s)"
| "budget_step s (ReadUsage t read_ok) =
     (case map_of (bw_turns s) t of
        Some (HydrateReading k est) \<Rightarrow>
          if read_ok then set_turn t (HydrateRow k est (map_of (bw_table s) k)) s else pin t k est (hydration_done k s)
      | _ \<Rightarrow> s)"
| "budget_step s (Hydrate t) =
     (case map_of (bw_turns s) t of Some (HydrateRow k est row) \<Rightarrow> hydrate_end t k est row s | _ \<Rightarrow> s)"
| "budget_step s (Ceiling t answer) =
     (case map_of (bw_turns s) t of Some (Resolving k est) \<Rightarrow> check_end t k est (resolve_org_token_budget answer) s | _ \<Rightarrow> s)"
| "budget_step s (CancelTurn t) = (case map_of (bw_turns s) t of Some p \<Rightarrow> check_cancel t p s | None \<Rightarrow> s)"
| "budget_step s (RecordTurn t i j now later) =
     (case map_of (bw_turns s) t of Some (TurnReserved rv) \<Rightarrow> record_turn t rv i j now later s | _ \<Rightarrow> s)"
| "budget_step s (FlushBegin f today) = (if may_flush f s then budget_flush_begin f today s else s)"
| "budget_step s (FlushEnd f written today) =
     (case map_of (bw_flights s) f of Some pending \<Rightarrow> budget_flush_end f pending written today s | None \<Rightarrow> s)"
| "budget_step s (SweepRead r read_ok) =
     (case map_of (bw_sweeps s) r of
        Some (SweepReading k ks) \<Rightarrow>
          if read_ok then s\<lparr>bw_sweeps := AList.update r (SweepRow k ks (map_of (bw_table s) k)) (bw_sweeps s)\<rparr> else sweep_next r ks s
      | _ \<Rightarrow> s)"
| "budget_step s (SweepAssign r) =
     (case map_of (bw_sweeps s) r of Some (SweepRow k ks row) \<Rightarrow> sweep_assign r k ks row s | _ \<Rightarrow> s)"
| "budget_step s (OtherWorker k i j) =
     s\<lparr>bw_table := upsert_usage (bw_table s) (k, max 0 i, max 0 j), bw_ledger := bw_ledger s @ [(k, max 0 i, max 0 j)]\<rparr>"

text \<open>A tracker that was just made, over a table of earlier usage.\<close>

definition tb_init :: "bool \<Rightarrow> int \<Rightarrow> pyfloat \<Rightarrow> pyfloat \<Rightarrow> usage_list \<Rightarrow> budget_world" where
  "tb_init ts_pool flush_every_writes flush_every_seconds now earlier =
     \<lparr>tb_ts_pool = ts_pool, tb_flush_every_writes = max 1 flush_every_writes, tb_flush_every_seconds = flush_every_seconds,
      tb_counters = [], tb_hydrated = {}, tb_hydration_lock = None, tb_writes_since_flush = 0, tb_last_flush_at = now,
      tb_flush_task = False, bw_table = foldl upsert_usage [] earlier, bw_turns = [], bw_flights = [], bw_sweeps = [],
      bw_ledger = earlier\<rparr>"

section \<open>Vocabulary of the statements\<close>

text \<open>Input and output tokens are counted apart; the statements are about either.\<close>

datatype side = Input | Output

definition amount :: "side \<Rightarrow> int \<times> int \<Rightarrow> int" where
  "amount d a = (case d of Input \<Rightarrow> fst a | Output \<Rightarrow> snd a)"

definition committed :: "side \<Rightarrow> PeriodCounter \<Rightarrow> int" where
  "committed d c = (case d of Input \<Rightarrow> committed_input c | Output \<Rightarrow> committed_output c)"

definition unflushed :: "side \<Rightarrow> PeriodCounter \<Rightarrow> int" where
  "unflushed d c = (case d of Input \<Rightarrow> unflushed_input c | Output \<Rightarrow> unflushed_output c)"

definition tokens :: "side \<Rightarrow> org_period \<Rightarrow> usage_list \<Rightarrow> int" where
  "tokens d k xs = sum_list (map (\<lambda>e. if fst e = k then amount d (snd e) else 0) xs)"

text \<open>The usage ever recorded for an organisation and month; what the table has; what is being written.\<close>

definition spent :: "side \<Rightarrow> budget_world \<Rightarrow> org_period \<Rightarrow> int" where
  "spent d s k = tokens d k (bw_ledger s)"

definition in_table :: "side \<Rightarrow> budget_world \<Rightarrow> org_period \<Rightarrow> int" where
  "in_table d s k = amount d (row_amounts (map_of (bw_table s) k))"

definition flying :: "side \<Rightarrow> budget_world \<Rightarrow> org_period \<Rightarrow> int" where
  "flying d s k = dict_sum (tokens d k) (bw_flights s)"

definition accounted :: "side \<Rightarrow> budget_world \<Rightarrow> org_period \<Rightarrow> int" where
  "accounted d s k = in_table d s k + unflushed d (counter_of s k) + flying d s k"

text \<open>The estimates of the turns that hold a reservation or await their ceiling.\<close>

definition hold :: "org_period \<Rightarrow> turn \<Rightarrow> int" where
  "hold k p = (case p of Resolving k' est \<Rightarrow> if k' = k then est else 0
     | TurnReserved rv \<Rightarrow> if rv_organization_id rv = Some (fst k) \<and> rv_period_yyyymm rv = snd k then rv_est_tokens rv else 0
     | _ \<Rightarrow> 0)"

definition holds :: "budget_world \<Rightarrow> org_period \<Rightarrow> int" where
  "holds s k = dict_sum (hold k) (bw_turns s)"

section \<open>Lemmas: counters and tables\<close>

declare split_paired_All [simp del] split_paired_Ex [simp del]

definition look :: "(org_period, PeriodCounter) pydict \<Rightarrow> org_period \<Rightarrow> PeriodCounter" where
  "look cs k = (case map_of cs k of None \<Rightarrow> empty_counter | Some c \<Rightarrow> c)"

lemma counter_of_look: "counter_of s k = look (tb_counters s) k"
  by (simp add: counter_of_def look_def)

lemma look_update [simp]: "look (AList.update k c cs) k' = (if k' = k then c else look cs k')"
  by (simp add: look_def)

lemma look_absent: "k \<notin> keys cs \<Longrightarrow> look cs k = empty_counter"
  by (simp add: look_def keys_map_of_None)

lemma counter_fields [simp]:
  "committed d empty_counter = 0" "unflushed d empty_counter = 0" "reserved empty_counter = 0"
  "committed d (reserve_more n c) = committed d c" "unflushed d (reserve_more n c) = unflushed d c"
  "committed d (release_hold n c) = committed d c" "unflushed d (release_hold n c) = unflushed d c"
  "committed d (c\<lparr>reserved := m\<rparr>) = committed d c" "unflushed d (c\<lparr>reserved := m\<rparr>) = unflushed d c"
  "committed d (clear_unflushed c) = committed d c" "unflushed d (clear_unflushed c) = 0" "reserved (clear_unflushed c) = reserved c"
  "committed d (record_counter n i j c) = committed d c + amount d (i, j)"
  "unflushed d (record_counter n i j c) = unflushed d c + amount d (i, j)"
  "committed d (add_unflushed i j c) = committed d c" "unflushed d (add_unflushed i j c) = unflushed d c + amount d (i, j)"
  "reserved (add_unflushed i j c) = reserved c"
  "committed d (refresh_counter row c) = amount d (row_amounts row) + unflushed d c"
  "unflushed d (refresh_counter row c) = unflushed d c" "reserved (refresh_counter row c) = reserved c"
  by (cases d; simp add: committed_def unflushed_def empty_counter_def reserve_more_def release_hold_def clear_unflushed_def
      record_counter_def add_unflushed_def refresh_counter_def amount_def split: prod.split)+

lemma tokens_simps [simp]:
  "tokens d k [] = 0" "tokens d k (e # xs) = (if fst e = k then amount d (snd e) else 0) + tokens d k xs"
  "tokens d k (xs @ ys) = tokens d k xs + tokens d k ys"
  by (simp_all add: tokens_def)

lemma amount_row_None [simp]: "amount d (row_amounts None) = 0"
  by (cases d) (simp_all add: amount_def row_amounts_def)

lemma upsert_amount: "amount d (row_amounts (map_of (upsert_usage tab e) k)) =
  amount d (row_amounts (map_of tab k)) + (if fst e = k then amount d (snd e) else 0)"
  by (cases e; cases d) (auto simp: amount_def row_amounts_def Let_def split: prod.split)

lemma upserts_amount: "amount d (row_amounts (map_of (foldl upsert_usage tab xs) k)) =
  amount d (row_amounts (map_of tab k)) + tokens d k xs"
  by (induction xs arbitrary: tab) (simp_all add: upsert_amount)

lemma pending_tokens: "dict_ok cs \<Longrightarrow> tokens d k (pending_of cs) = unflushed d (look cs k)"
proof (induction cs)
  case Nil
  then show ?case by (simp add: pending_of_def look_def)
next
  case (Cons x cs)
  obtain k' c where x: "x = (k', c)" by (cases x)
  from Cons.prems x have ok: "dict_ok cs" and fresh: "k' \<notin> keys cs" by (auto simp: dict_ok_def keys_def)
  have pend: "tokens d k (pending_of (x # cs)) = (if k' = k then unflushed d c else 0) + tokens d k (pending_of cs)"
    by (cases d) (auto simp: x pending_of_def amount_def unflushed_def)
  show ?case
  proof (cases "k' = k")
    case True
    then have "unflushed d (look cs k) = 0" using fresh by (simp add: look_absent)
    with pend True Cons.IH [OF ok] show ?thesis by (simp add: look_def x)
  next
    case False
    with pend Cons.IH [OF ok] show ?thesis by (simp add: look_def x)
  qed
qed

lemma pending_keys: "fst ` set (pending_of cs) \<subseteq> keys cs"
  by (force simp: pending_of_def keys_def)

lemma pending_Nil: "dict_ok cs \<Longrightarrow> pending_of cs = [] \<Longrightarrow> unflushed d (look cs k) = 0"
  using pending_tokens [of cs d k] by simp

lemma look_clear: "look (map (map_prod id clear_unflushed) cs) k = clear_unflushed (look cs k)"
  by (induction cs) (auto simp: look_def empty_counter_def clear_unflushed_def)

lemma clear_keys [simp]: "keys (map (map_prod id clear_unflushed) cs) = keys cs" "dict_ok (map (map_prod id clear_unflushed) cs) = dict_ok cs"
  by (simp_all add: keys_def dict_ok_def image_image comp_def)

lemma roll_back_look:
  "look (roll_back cs e) k = (if fst e = k \<and> k \<in> keys cs then add_unflushed (fst (snd e)) (snd (snd e)) (look cs k) else look cs k)"
  by (cases e) (auto simp: look_def keys_map_of_None keys_map_of_Some split: option.split)

lemma roll_back_keys [simp]: "keys (roll_back cs e) = keys cs" "dict_ok cs \<Longrightarrow> dict_ok (roll_back cs e)"
  by (cases e; auto simp: keys_map_of_Some split: option.split)+

lemma roll_backs_keys [simp]: "keys (foldl roll_back cs xs) = keys cs" "dict_ok cs \<Longrightarrow> dict_ok (foldl roll_back cs xs)"
  by (induction xs arbitrary: cs) simp_all

lemma roll_backs_look:
  "reserved (look (foldl roll_back cs xs) k) = reserved (look cs k)"
  "committed d (look (foldl roll_back cs xs) k) = committed d (look cs k)"
  "unflushed d (look (foldl roll_back cs xs) k) = unflushed d (look cs k) + (if k \<in> keys cs then tokens d k xs else 0)"
  by (induction xs arbitrary: cs) (auto simp: roll_back_look)

lemma filter_look:
  "dict_ok cs \<Longrightarrow> look (filter P cs) k = (if P (k, look cs k) then look cs k else empty_counter)"
  by (auto simp: look_def map_of_filter split: option.split)

lemma tokens_nonneg: "list_all (\<lambda>e. 0 \<le> fst (snd e) \<and> 0 \<le> snd (snd e)) xs \<Longrightarrow> 0 \<le> tokens d k xs"
  by (induction xs) (auto simp: amount_def split: side.split)

section \<open>Lemmas: holds\<close>

text \<open>What a counter reserves is the sum of the estimates of the turns in flight.\<close>

definition turn_ok :: "turn \<Rightarrow> bool" where
  "turn_ok p = (case p of
     AwaitingLock k est \<Rightarrow> fst k \<noteq> [] \<and> 0 < est
   | HydrateReading k est \<Rightarrow> fst k \<noteq> [] \<and> 0 < est
   | HydrateRow k est row \<Rightarrow> fst k \<noteq> [] \<and> 0 < est
   | Resolving k est \<Rightarrow> fst k \<noteq> [] \<and> 0 < est
   | TurnReserved rv \<Rightarrow> rv_organization_id rv \<noteq> Some [] \<and> (rv_organization_id rv \<noteq> None \<longrightarrow> 0 < rv_est_tokens rv)
   | _ \<Rightarrow> True)"

definition holds_inv :: "budget_world \<Rightarrow> bool" where
  "holds_inv s \<longleftrightarrow> dict_ok (tb_counters s) \<and> dict_ok (bw_turns s) \<and>
     (\<forall>t p. map_of (bw_turns s) t = Some p \<longrightarrow> turn_ok p) \<and> (\<forall>k. reserved (counter_of s k) = holds s k)"

lemma estimate_pos: "0 < estimate_turn_tokens prompt"
  by (simp add: estimate_turn_tokens_def PER_TURN_OVERHEAD_TOKENS_def)

lemma hold_nonneg: "turn_ok p \<Longrightarrow> 0 \<le> hold k p"
  by (cases p) (auto simp: hold_def turn_ok_def)

lemma holds_member:
  assumes "holds_inv s" "map_of (bw_turns s) t = Some p"
  shows "hold k p \<le> holds s k"
proof -
  from assms have ok: "\<forall>x\<in>set (bw_turns s). 0 \<le> hold k (snd x)" by (auto simp: holds_inv_def map_of_in_set intro!: hold_nonneg)
  have "(t, p) \<in> set (bw_turns s)" using assms(2) by (rule map_of_SomeD)
  then have "hold k p \<in> set (map (hold k \<circ> snd) (bw_turns s))" by force
  then show ?thesis unfolding holds_def dict_sum_def using ok by (intro member_le_sum_list) auto
qed

lemma holds_nonneg: "holds_inv s \<Longrightarrow> 0 \<le> holds s k"
  unfolding holds_def dict_sum_def by (intro sum_list_nonneg) (auto simp: holds_inv_def map_of_in_set intro!: hold_nonneg)

lemma world_frame [simp]:
  "bw_turns (set_counter k c s) = bw_turns s" "bw_table (set_counter k c s) = bw_table s" "bw_flights (set_counter k c s) = bw_flights s"
  "bw_sweeps (set_counter k c s) = bw_sweeps s" "bw_ledger (set_counter k c s) = bw_ledger s"
  "tb_counters (set_turn t p s) = tb_counters s" "bw_turns (set_turn t p s) = AList.update t p (bw_turns s)"
  "bw_table (set_turn t p s) = bw_table s" "bw_flights (set_turn t p s) = bw_flights s" "bw_sweeps (set_turn t p s) = bw_sweeps s"
  "bw_ledger (set_turn t p s) = bw_ledger s" "tb_hydrated (set_turn t p s) = tb_hydrated s" "tb_ts_pool (set_turn t p s) = tb_ts_pool s"
  "tb_hydration_lock (set_turn t p s) = tb_hydration_lock s"
  "bw_turns (hydration_done k s) = bw_turns s" "bw_table (hydration_done k s) = bw_table s" "bw_flights (hydration_done k s) = bw_flights s"
  "bw_sweeps (hydration_done k s) = bw_sweeps s" "bw_ledger (hydration_done k s) = bw_ledger s" "tb_counters (hydration_done k s) = tb_counters s"
  "tb_hydrated (hydration_done k s) = insert k (tb_hydrated s)" "tb_hydration_lock (hydration_done k s) = None"
  "tb_ts_pool (hydration_done k s) = tb_ts_pool s"
  by (simp_all add: set_counter_def set_turn_def hydration_done_def)

lemma tracker_frame [simp]:
  "tb_counters (set_counter k c w) = AList.update k c (tb_counters w)" "tb_hydrated (set_counter k c w) = tb_hydrated w"
  "tb_ts_pool (set_counter k c w) = tb_ts_pool w" "tb_hydration_lock (set_counter k c w) = tb_hydration_lock w"
  by (simp_all add: set_counter_def)

lemma counter_of_set [simp]: "counter_of (set_counter k c s) k' = (if k' = k then c else counter_of s k')"
  by (simp add: counter_of_look)

lemma counter_of_frame [simp]:
  "counter_of (set_turn t p s) = counter_of s" "counter_of (hydration_done k s) = counter_of s"
  "counter_of (s\<lparr>bw_table := tab\<rparr>) = counter_of s" "counter_of (s\<lparr>bw_flights := fl\<rparr>) = counter_of s"
  "counter_of (s\<lparr>bw_sweeps := sw\<rparr>) = counter_of s" "counter_of (s\<lparr>bw_ledger := le\<rparr>) = counter_of s"
  "counter_of (w\<lparr>tb_hydrated := h\<rparr>) = counter_of w" "counter_of (w\<lparr>tb_hydration_lock := l\<rparr>) = counter_of w"
  "counter_of (w\<lparr>tb_writes_since_flush := n\<rparr>) = counter_of w" "counter_of (w\<lparr>tb_last_flush_at := now\<rparr>) = counter_of w"
  "counter_of (w\<lparr>tb_flush_task := b\<rparr>) = counter_of w" "counter_of (w\<lparr>tb_counters := cs\<rparr>) = look cs"
  by (simp_all add: counter_of_look fun_eq_iff)

lemma default_counter_frame [simp]:
  fixes s :: budget_world
  shows
  "counter_of (default_counter k s) = counter_of s" "bw_turns (default_counter k s) = bw_turns s" "bw_table (default_counter k s) = bw_table s"
  "bw_flights (default_counter k s) = bw_flights s" "bw_sweeps (default_counter k s) = bw_sweeps s" "bw_ledger (default_counter k s) = bw_ledger s"
  "tb_hydrated (default_counter k s) = tb_hydrated s" "tb_ts_pool (default_counter k s) = tb_ts_pool s"
  "tb_hydration_lock (default_counter k s) = tb_hydration_lock s" "keys (tb_counters (default_counter k s)) = insert k (keys (tb_counters s))"
  "dict_ok (tb_counters s) \<Longrightarrow> dict_ok (tb_counters (default_counter k s))"
  by (simp_all add: default_counter_def fun_eq_iff)

lemma holds_cong: "bw_turns s' = bw_turns s \<Longrightarrow> holds s' k = holds s k"
  by (simp add: holds_def)

text \<open>Turns and holds change together; everything else keeps the invariant by keeping both.\<close>

lemma holds_inv_turn:
  assumes inv: "holds_inv s" and new: "turn_ok p" and turn: "bw_turns s' = AList.update t p (bw_turns s)" and ok: "dict_ok (tb_counters s')"
    and res: "\<And>k. reserved (counter_of s' k) =
      reserved (counter_of s k) + hold k p - (case map_of (bw_turns s) t of None \<Rightarrow> 0 | Some q \<Rightarrow> hold k q)"
  shows "holds_inv s'"
proof -
  have "holds s' k = holds s k + hold k p - (case map_of (bw_turns s) t of None \<Rightarrow> 0 | Some q \<Rightarrow> hold k q)" for k
  proof (cases "map_of (bw_turns s) t")
    case None
    then show ?thesis by (simp add: holds_def turn dict_sum_new)
  next
    case (Some q)
    with inv dict_sum_update [of "bw_turns s" t q "hold k" p] show ?thesis by (simp add: holds_def turn holds_inv_def)
  qed
  with assms show ?thesis by (auto simp: holds_inv_def)
qed

lemma holds_inv_frame:
  assumes "holds_inv s" "bw_turns s' = bw_turns s" "dict_ok (tb_counters s')" "\<And>k. reserved (counter_of s' k) = reserved (counter_of s k)"
  shows "holds_inv s'"
  using assms by (simp add: holds_inv_def holds_def)

lemma evicted_counter:
  "dict_ok (tb_counters s) \<Longrightarrow> counter_of (evict_settled_past_periods p s) k =
     (if settled_past p s (k, counter_of s k) then empty_counter else counter_of s k)"
  by (simp add: evict_settled_past_periods_def filter_look counter_of_look)

lemma after_flush_frame [simp]:
  "bw_turns (after_flush f today s) = bw_turns s" "bw_table (after_flush f today s) = bw_table s"
  "bw_flights (after_flush f today s) = bw_flights s" "bw_ledger (after_flush f today s) = bw_ledger s"
  "tb_ts_pool (after_flush f today s) = tb_ts_pool s" "tb_hydration_lock (after_flush f today s) = tb_hydration_lock s"
  by (simp_all add: after_flush_def sweep_next_def evict_settled_past_periods_def Let_def split: flusher.split list.split)

lemma after_flush_counter:
  "dict_ok (tb_counters s) \<Longrightarrow> counter_of (after_flush f today s) k =
     (if \<exists>r. f = Reconciler r \<and> settled_past (current_period_yyyymm today) s (k, counter_of s k) then empty_counter else counter_of s k)"
  by (auto simp: after_flush_def sweep_next_def Let_def evicted_counter split: flusher.split list.split)

lemma after_flush_ok: "dict_ok (tb_counters s) \<Longrightarrow> dict_ok (tb_counters (after_flush f today s))"
  by (auto simp: after_flush_def sweep_next_def Let_def evict_settled_past_periods_def split: flusher.split list.split)

lemma sweep_next_frame [simp]:
  "bw_turns (sweep_next r ks s) = bw_turns s" "bw_table (sweep_next r ks s) = bw_table s" "bw_flights (sweep_next r ks s) = bw_flights s"
  "bw_ledger (sweep_next r ks s) = bw_ledger s" "tb_counters (sweep_next r ks s) = tb_counters s" "counter_of (sweep_next r ks s) = counter_of s"
  "tb_hydrated (sweep_next r ks s) = tb_hydrated s" "tb_ts_pool (sweep_next r ks s) = tb_ts_pool s"
  "tb_hydration_lock (sweep_next r ks s) = tb_hydration_lock s"
  by (simp_all add: sweep_next_def split: list.split)

lemma schedule_frame [simp]:
  "counter_of (maybe_schedule_flush now later w) = counter_of w" "tb_counters (maybe_schedule_flush now later w) = tb_counters w"
  "tb_hydrated (maybe_schedule_flush now later w) = tb_hydrated w" "tb_ts_pool (maybe_schedule_flush now later w) = tb_ts_pool w"
  "tb_hydration_lock (maybe_schedule_flush now later w) = tb_hydration_lock w"
  "bw_turns (maybe_schedule_flush now later s) = bw_turns s" "bw_table (maybe_schedule_flush now later s) = bw_table s"
  "bw_flights (maybe_schedule_flush now later s) = bw_flights s" "bw_sweeps (maybe_schedule_flush now later s) = bw_sweeps s"
  "bw_ledger (maybe_schedule_flush now later s) = bw_ledger s"
  by (simp_all add: maybe_schedule_flush_def)

lemma holds_invD:
  "holds_inv s \<Longrightarrow> dict_ok (tb_counters s)" "holds_inv s \<Longrightarrow> dict_ok (bw_turns s)" "holds_inv s \<Longrightarrow> map_of (bw_turns s) t = Some p \<Longrightarrow> turn_ok p"
  "holds_inv s \<Longrightarrow> reserved (counter_of s k) = holds s k"
  by (auto simp: holds_inv_def)

lemma reserved_simps [simp]:
  "reserved (reserve_more n c) = reserved c + n" "reserved (release_hold n c) = max 0 (reserved c - n)"
  "reserved (record_counter n i j c) = max 0 (reserved c - n)"
  by (simp_all add: reserve_more_def release_hold_def record_counter_def)

lemma pin_holds [inv_intros]:
  assumes "holds_inv s" "fst k \<noteq> []" "0 < est" "\<And>q. map_of (bw_turns s) t = Some q \<Longrightarrow> (\<forall>k. hold k q = 0)"
  shows "holds_inv (pin t k est s)"
proof (rule holds_inv_turn [OF assms(1), of "Resolving k est" _ t])
  fix k'
  from assms(4) have "(case map_of (bw_turns s) t of None \<Rightarrow> 0 | Some q \<Rightarrow> hold k' q) = 0" by (auto split: option.split)
  then show "reserved (counter_of (pin t k est s) k') = reserved (counter_of s k') + hold k' (Resolving k est) -
      (case map_of (bw_turns s) t of None \<Rightarrow> 0 | Some q \<Rightarrow> hold k' q)"
    by (simp add: pin_def hold_def)
qed (use assms in \<open>simp_all add: pin_def turn_ok_def holds_inv_def\<close>)

lemma set_turn_holds [inv_intros]:
  assumes "holds_inv s" "turn_ok p" "\<And>k. hold k p = (case map_of (bw_turns s) t of None \<Rightarrow> 0 | Some q \<Rightarrow> hold k q)"
  shows "holds_inv (set_turn t p s)"
  by (rule holds_inv_turn [OF assms(1,2), of _ t]) (use assms in \<open>simp_all add: holds_inv_def\<close>)

lemma tracker_holds [inv_intros]:
  "holds_inv s \<Longrightarrow> holds_inv (hydration_done k s)" "holds_inv s \<Longrightarrow> holds_inv (default_counter k s)"
  "holds_inv s \<Longrightarrow> holds_inv (s\<lparr>tb_hydration_lock := l\<rparr>)" "holds_inv s \<Longrightarrow> holds_inv (sweep_next r ks s)"
  "holds_inv s \<Longrightarrow> holds_inv (s\<lparr>bw_sweeps := sw\<rparr>)" "holds_inv s \<Longrightarrow> holds_inv (s\<lparr>bw_flights := fl\<rparr>)"
  "holds_inv s \<Longrightarrow> holds_inv (s\<lparr>bw_table := tab\<rparr>)" "holds_inv s \<Longrightarrow> holds_inv (s\<lparr>bw_ledger := le\<rparr>)"
  "holds_inv s \<Longrightarrow> reserved c = reserved (counter_of s k) \<Longrightarrow> holds_inv (set_counter k c s)"
  by (rule holds_inv_frame [of s]; simp add: holds_invD)+

lemma check_end_holds [inv_intros]:
  assumes "holds_inv s" "map_of (bw_turns s) t = Some (Resolving k est)"
  shows "holds_inv (check_end t k est limit s)"
proof (cases "counter_total (counter_of s k) > limit")
  case True
  then show ?thesis using assms
    by (auto simp: check_end_def Let_def holds_invD(1) turn_ok_def hold_def intro!: holds_inv_turn [OF assms(1), of TurnRefused _ t])
next
  case False
  from assms have "turn_ok (Resolving k est)" unfolding holds_inv_def by blast
  with False assms show ?thesis
    by (simp add: check_end_def Let_def) (rule set_turn_holds, auto simp: turn_ok_def hold_def prod_eq_iff)
qed

lemma check_cancel_holds [inv_intros]:
  assumes "holds_inv s" "map_of (bw_turns s) t = Some p"
  shows "holds_inv (check_cancel t p s)"
proof (cases p)
  case (Resolving k est)
  with assms holds_member [of s t p k] have "est \<le> reserved (counter_of s k)" by (simp add: hold_def holds_invD)
  then show ?thesis using assms Resolving
    by (auto simp: check_cancel_def holds_invD(1) turn_ok_def hold_def intro!: holds_inv_turn [OF assms(1), of TurnRaised _ t])
qed (use assms in \<open>auto simp: check_cancel_def turn_ok_def hold_def intro!: set_turn_holds tracker_holds\<close>)

lemma record_turn_holds [inv_intros]:
  assumes "holds_inv s" "map_of (bw_turns s) t = Some (TurnReserved rv)"
  shows "holds_inv (record_turn t rv i j now later s)"
proof (cases "rv_organization_id rv")
  case None
  with assms show ?thesis by (auto simp: record_turn_def record_actual_def turn_ok_def hold_def intro!: set_turn_holds)
next
  case (Some org)
  let ?k = "(org, rv_period_yyyymm rv)"
  from assms have "turn_ok (TurnReserved rv)" unfolding holds_inv_def by blast
  with Some have org: "org \<noteq> []" by (simp add: turn_ok_def)
  from assms holds_member [OF assms, of ?k] Some have "rv_est_tokens rv \<le> reserved (counter_of s ?k)" by (simp add: hold_def holds_invD)
  then show ?thesis using assms Some org
    by (auto simp: record_turn_def record_actual_def Let_def holds_invD(1) turn_ok_def hold_def intro!: holds_inv_turn [OF assms(1), of TurnRecorded _ t])
qed

lemma after_flush_holds [inv_intros]: "holds_inv s \<Longrightarrow> holds_inv (after_flush f today s)"
  by (rule holds_inv_frame [of s]) (auto simp: after_flush_ok after_flush_counter holds_invD(1) settled_past_def)

lemma budget_flush_begin_holds [inv_intros]:
  assumes "holds_inv s"
  shows "holds_inv (budget_flush_begin f today s)"
proof -
  have "holds_inv (s\<lparr>tb_counters := map (map_prod id clear_unflushed) (tb_counters s)\<rparr>)"
    by (rule holds_inv_frame [of s]) (use assms in \<open>auto simp: look_clear counter_of_look holds_invD(1)\<close>)
  with assms show ?thesis by (auto simp: budget_flush_begin_def Let_def intro!: after_flush_holds tracker_holds)
qed

lemma budget_flush_end_holds [inv_intros]:
  assumes "holds_inv s"
  shows "holds_inv (budget_flush_end f pending written today s)"
proof -
  have "holds_inv (s\<lparr>bw_flights := fl, tb_counters := foldl roll_back (tb_counters s) pending\<rparr>)" for fl
    by (rule holds_inv_frame [of s]) (use assms in \<open>auto simp: roll_backs_look counter_of_look holds_invD(1)\<close>)
  with assms show ?thesis by (auto simp: budget_flush_end_def Let_def intro!: after_flush_holds tracker_holds)
qed

lemma hydrate_holds [inv_intros]:
  assumes "holds_inv s" "map_of (bw_turns s) t = Some p" "turn_ok p \<Longrightarrow> fst k \<noteq> [] \<and> 0 < est" "\<forall>k. hold k p = 0"
  shows "holds_inv (hydrate_begin t k est s)" "holds_inv (hydrate_end t k est row s)"
    "holds_inv (pin t k est (hydration_done k s))" "holds_inv (set_turn t (HydrateRow k est row) s)"
proof -
  from assms have k: "fst k \<noteq> []" "0 < est" unfolding holds_inv_def by blast+
  show "holds_inv (set_turn t (HydrateRow k est row) s)"
    using assms k by (intro set_turn_holds) (auto simp: turn_ok_def hold_def)
  show "holds_inv (pin t k est (hydration_done k s))" using assms k by (intro pin_holds tracker_holds) auto
  show "holds_inv (hydrate_end t k est row s)"
    using assms k unfolding hydrate_end_def Let_def by (cases row) (auto intro!: pin_holds tracker_holds)
  have "holds_inv (set_turn t (HydrateReading k est) ((default_counter k s)\<lparr>tb_hydration_lock := Some t\<rparr>))"
    using assms k by (intro set_turn_holds tracker_holds) (auto simp: turn_ok_def hold_def)
  moreover have "holds_inv (pin t k est (hydration_done k (default_counter k s)))" using assms k by (intro pin_holds tracker_holds) auto
  moreover have "holds_inv (pin t k est s)" using assms k by (intro pin_holds) auto
  ultimately show "holds_inv (hydrate_begin t k est s)" by (simp add: hydrate_begin_def Let_def)
qed

lemma check_begin_holds [inv_intros]:
  assumes "holds_inv s" "t \<notin> keys (bw_turns s)" "org \<noteq> Some []"
  shows "holds_inv (check_begin t org prompt today s)"
proof (cases org)
  case None
  with assms show ?thesis by (auto simp: check_begin_def Let_def keys_map_of_None turn_ok_def hold_def intro!: set_turn_holds)
next
  case (Some x)
  with assms show ?thesis using estimate_pos [of prompt]
    by (auto simp: check_begin_def Let_def keys_map_of_None turn_ok_def hold_def intro!: set_turn_holds pin_holds)
qed

lemma sweep_assign_holds [inv_intros]: "holds_inv s \<Longrightarrow> holds_inv (sweep_assign r k ks row s)"
  unfolding sweep_assign_def by (intro tracker_holds) (auto simp: counter_of_def intro: tracker_holds split: option.split)

lemma budget_step_holds: "holds_inv s \<Longrightarrow> holds_inv (budget_step s e)"
proof (cases e)
  case (AcquireLock t)
  assume "holds_inv s"
  with AcquireLock show ?thesis by (auto split: option.split turn.split intro!: hydrate_holds(1) simp: turn_ok_def hold_def)
next
  case (ReadUsage t ok)
  assume "holds_inv s"
  with ReadUsage show ?thesis by (auto split: option.split turn.split intro!: hydrate_holds(3,4) simp: turn_ok_def hold_def)
next
  case (Hydrate t)
  assume "holds_inv s"
  with Hydrate show ?thesis by (auto split: option.split turn.split intro!: hydrate_holds(2) simp: turn_ok_def hold_def)
next
  case (OtherWorker k i j)
  assume "holds_inv s"
  then have "holds_inv (s\<lparr>bw_table := tab, bw_ledger := le\<rparr>)" for tab le by (intro tracker_holds)
  with OtherWorker show ?thesis by simp
qed (auto split: option.split turn.split sweep.split intro!: inv_intros)

lemma tb_init_holds: "holds_inv (tb_init pool n secs now earlier)"
  by (simp add: holds_inv_def tb_init_def counter_of_def holds_def)

section \<open>Lemmas: nothing is counted twice\<close>

definition usage_ok :: "usage_list \<Rightarrow> bool" where
  "usage_ok xs \<longleftrightarrow> list_all (\<lambda>e. 0 \<le> fst (snd e) \<and> 0 \<le> snd (snd e)) xs"

definition counted_inv :: "budget_world \<Rightarrow> bool" where
  "counted_inv s \<longleftrightarrow> dict_ok (tb_counters s) \<and> dict_ok (bw_flights s) \<and>
     (\<forall>f p. map_of (bw_flights s) f = Some p \<longrightarrow> usage_ok p) \<and>
     (\<forall>d k. 0 \<le> in_table d s k \<and> 0 \<le> unflushed d (counter_of s k) \<and>
        committed d (counter_of s k) \<le> accounted d s k \<and> accounted d s k \<le> spent d s k) \<and>
     (\<forall>t k est row. map_of (bw_turns s) t = Some (HydrateRow k est row) \<longrightarrow> (\<forall>d. amount d (row_amounts row) \<le> in_table d s k)) \<and>
     (\<forall>r k ks row. map_of (bw_sweeps s) r = Some (SweepRow k ks row) \<longrightarrow> (\<forall>d. amount d (row_amounts row) \<le> in_table d s k))"

lemma counted_invD:
  "counted_inv s \<Longrightarrow> dict_ok (tb_counters s)" "counted_inv s \<Longrightarrow> dict_ok (bw_flights s)"
  "counted_inv s \<Longrightarrow> map_of (bw_flights s) f = Some p \<Longrightarrow> usage_ok p"
  "counted_inv s \<Longrightarrow> 0 \<le> in_table d s k" "counted_inv s \<Longrightarrow> 0 \<le> unflushed d (counter_of s k)"
  "counted_inv s \<Longrightarrow> committed d (counter_of s k) \<le> accounted d s k" "counted_inv s \<Longrightarrow> accounted d s k \<le> spent d s k"
  "counted_inv s \<Longrightarrow> map_of (bw_turns s) t = Some (HydrateRow k est row) \<Longrightarrow> amount d (row_amounts row) \<le> in_table d s k"
  "counted_inv s \<Longrightarrow> map_of (bw_sweeps s) r = Some (SweepRow k ks row) \<Longrightarrow> amount d (row_amounts row) \<le> in_table d s k"
  unfolding counted_inv_def by blast+

lemma tokens_usage: "usage_ok xs \<Longrightarrow> 0 \<le> tokens d k xs"
  unfolding usage_ok_def by (rule tokens_nonneg)

lemma flying_nonneg:
  assumes "counted_inv s"
  shows "0 \<le> flying d s k"
  unfolding flying_def dict_sum_def
proof (rule sum_list_nonneg)
  fix x
  assume "x \<in> set (map (tokens d k \<circ> snd) (bw_flights s))"
  then obtain f p where fp: "(f, p) \<in> set (bw_flights s)" and x: "x = tokens d k p" by auto
  from fp assms have "map_of (bw_flights s) f = Some p" using map_of_in_set [OF counted_invD(2)] by blast
  with assms x show "0 \<le> x" by (auto intro: tokens_usage counted_invD(3))
qed

text \<open>A step that leaves table, flights and ledger, counts the same and reads no row.\<close>

lemma counted_frame:
  assumes inv: "counted_inv s" and eq: "bw_table s' = bw_table s" "bw_flights s' = bw_flights s" "bw_ledger s' = bw_ledger s" "dict_ok (tb_counters s')"
    and cnt: "\<And>d k. unflushed d (counter_of s' k) = unflushed d (counter_of s k)"
      "\<And>d k. committed d (counter_of s' k) \<le> accounted d s k"
    and rows: "\<And>t k est row. map_of (bw_turns s') t = Some (HydrateRow k est row) \<Longrightarrow> map_of (bw_turns s) t = Some (HydrateRow k est row)"
      "\<And>r k ks row. map_of (bw_sweeps s') r = Some (SweepRow k ks row) \<Longrightarrow> map_of (bw_sweeps s) r = Some (SweepRow k ks row)"
  shows "counted_inv s'"
proof -
  have "in_table d s' k = in_table d s k" "spent d s' k = spent d s k" "accounted d s' k = accounted d s k" for d k
    using eq cnt by (simp_all add: in_table_def spent_def accounted_def flying_def)
  with assms show ?thesis unfolding counted_inv_def by simp metis
qed

lemma sweep_next_rows: "map_of (bw_sweeps (sweep_next r ks s)) r' = Some (SweepRow k ks' row) \<Longrightarrow> map_of (bw_sweeps s) r' = Some (SweepRow k ks' row)"
  by (auto simp: sweep_next_def split: list.splits if_splits)

lemma after_flush_rows:
  "map_of (bw_sweeps (after_flush f today s)) r' = Some (SweepRow k ks' row) \<Longrightarrow> map_of (bw_sweeps s) r' = Some (SweepRow k ks' row)"
  by (auto simp: after_flush_def Let_def evict_settled_past_periods_def dest!: sweep_next_rows split: flusher.splits if_splits)

lemma accounted_nonneg: "counted_inv s \<Longrightarrow> 0 \<le> accounted d s k"
  unfolding accounted_def by (intro add_nonneg_nonneg) (simp_all add: counted_invD(4,5) flying_nonneg)

lemma after_flush_counted [inv_intros]:
  assumes "counted_inv s"
  shows "counted_inv (after_flush f today s)"
proof (rule counted_frame [OF assms])
  fix d k
  from assms show "committed d (counter_of (after_flush f today s) k) \<le> accounted d s k"
    by (simp add: after_flush_counter counted_invD(1,6) accounted_nonneg)
  from assms show "unflushed d (counter_of (after_flush f today s) k) = unflushed d (counter_of s k)"
    by (cases d) (auto simp: after_flush_counter counted_invD(1) settled_past_def unflushed_def empty_counter_def)
qed (use assms in \<open>auto simp: after_flush_ok counted_invD(1) dest: after_flush_rows\<close>)

lemma counted_simple [inv_intros]:
  assumes "counted_inv s"
  shows "(\<And>k est row. p \<noteq> HydrateRow k est row) \<Longrightarrow> counted_inv (set_turn t p s)"
    "counted_inv (hydration_done k s)" "counted_inv (default_counter k s)" "counted_inv (s\<lparr>tb_hydration_lock := l\<rparr>)"
    "counted_inv (sweep_next r ks s)"
    "unflushed Input c = unflushed Input (counter_of s k) \<Longrightarrow> unflushed Output c = unflushed Output (counter_of s k) \<Longrightarrow>
      committed Input c \<le> accounted Input s k \<Longrightarrow> committed Output c \<le> accounted Output s k \<Longrightarrow> counted_inv (set_counter k c s)"
  using side.exhaust
  by (rule counted_frame [OF assms]; use assms in \<open>auto simp: counted_invD(1,6) dest: sweep_next_rows split: if_splits\<close>; metis side.exhaust)+

lemma same_counts: "counted_inv s \<Longrightarrow> (\<And>d. unflushed d c = unflushed d (counter_of s k)) \<Longrightarrow> (\<And>d. committed d c = committed d (counter_of s k)) \<Longrightarrow>
  counted_inv (set_counter k c s)"
  by (rule counted_simple(6)) (simp_all add: counted_invD(6))

lemma pin_counted [inv_intros]: "counted_inv s \<Longrightarrow> counted_inv (pin t k est s)"
  unfolding pin_def by (intro counted_simple(1) same_counts) auto

lemma hydrate_begin_counted [inv_intros]: "counted_inv s \<Longrightarrow> counted_inv (hydrate_begin t k est s)"
  by (auto simp: hydrate_begin_def Let_def intro!: pin_counted counted_simple)

lemma hydrate_end_counted [inv_intros]:
  assumes "counted_inv s" "map_of (bw_turns s) t = Some (HydrateRow k est row)"
  shows "counted_inv (hydrate_end t k est row s)"
proof -
  have le: "amount d (row_amounts row) \<le> accounted d s k" for d
    using counted_invD(8) [OF assms, of d] counted_invD(5) [OF assms(1), of d k] flying_nonneg [OF assms(1), of d k] unfolding accounted_def by linarith
  have "counted_inv (set_counter k ((counter_of s k)\<lparr>committed_input := i, committed_output := j\<rparr>) s)" if "row = Some (i, j)" for i j
    using le [of Input] le [of Output] that
    by (intro counted_simple(6) assms) (simp_all add: unflushed_def committed_def row_amounts_def amount_def)
  with assms(1) show ?thesis
    unfolding hydrate_end_def Let_def by (intro pin_counted counted_simple(2)) (auto split: option.split)
qed

lemma check_end_counted [inv_intros]: "counted_inv s \<Longrightarrow> counted_inv (check_end t k est limit s)"
  by (auto simp: check_end_def Let_def intro!: counted_simple(1) same_counts)

lemma check_cancel_counted [inv_intros]: "counted_inv s \<Longrightarrow> counted_inv (check_cancel t p s)"
  by (cases p) (auto simp: check_cancel_def intro!: counted_simple(1,4) same_counts)

lemma check_begin_counted [inv_intros]: "counted_inv s \<Longrightarrow> counted_inv (check_begin t org prompt today s)"
  by (auto simp: check_begin_def Let_def split: option.split intro!: counted_simple(1) pin_counted)

lemma amount_max: "0 \<le> amount d (max 0 i, max 0 j)"
  by (cases d) (simp_all add: amount_def)

lemma record_turn_counted [inv_intros]:
  assumes "counted_inv s" "map_of (bw_turns s) t = Some (TurnReserved rv)"
  shows "counted_inv (record_turn t rv i j now later s)"
proof (cases "rv_organization_id rv = None \<or> rv_organization_id rv = Some []")
  case True
  with assms show ?thesis by (auto simp: record_turn_def record_actual_def Let_def intro!: counted_simple(1))
next
  case False
  then obtain org where org: "rv_organization_id rv = Some org" "org \<noteq> []" by auto
  let ?k = "(org, rv_period_yyyymm rv)" and ?a = "(max 0 i, max 0 j)" and ?s = "record_turn t rv i j now later s"
  have frame: "bw_table ?s = bw_table s" "bw_flights ?s = bw_flights s" "bw_sweeps ?s = bw_sweeps s" "dict_ok (tb_counters ?s)"
    "bw_turns ?s = AList.update t TurnRecorded (bw_turns s)"
    using org assms(1) by (simp_all add: record_turn_def record_actual_def Let_def counted_invD(1))
  have cnt: "unflushed d (counter_of ?s k) = unflushed d (counter_of s k) + (if k = ?k then amount d ?a else 0)"
    "committed d (counter_of ?s k) = committed d (counter_of s k) + (if k = ?k then amount d ?a else 0)"
    "spent d ?s k = spent d s k + (if k = ?k then amount d ?a else 0)" for d k
    using org by (auto simp: record_turn_def record_actual_def Let_def spent_def)
  then have "accounted d ?s k = accounted d s k + (if k = ?k then amount d ?a else 0)" for d k
    by (simp add: accounted_def in_table_def flying_def frame)
  moreover have "in_table d ?s k = in_table d s k" for d k by (simp add: in_table_def frame)
  ultimately show ?thesis using assms(1) amount_max unfolding counted_inv_def frame(2,3,5) cnt
    by (auto simp: frame(4) intro: add_nonneg_nonneg)
qed

lemma budget_flush_begin_counted [inv_intros]:
  assumes "counted_inv s" "may_flush f s"
  shows "counted_inv (budget_flush_begin f today s)"
proof -
  let ?s = "s\<lparr>tb_counters := map (map_prod id clear_unflushed) (tb_counters s)\<rparr>"
  let ?p = "pending_of (tb_counters s)"
  let ?t = "?s\<lparr>bw_flights := AList.update f ?p (bw_flights s)\<rparr>"
  have ok: "dict_ok (tb_counters s)" using assms(1) by (rule counted_invD)
  have p: "tokens d k ?p = unflushed d (counter_of s k)" for d k using pending_tokens [OF ok] by (simp add: counter_of_look)
  have new: "map_of (bw_flights s) f = None" using assms(2) by (simp add: may_flush_def keys_map_of_None)
  have "accounted d ?t k = accounted d s k" for d k
    by (simp add: accounted_def in_table_def flying_def look_clear dict_sum_new [OF new] p)
  moreover have "usage_ok ?p"
  proof -
    have "0 \<le> unflushed_input c \<and> 0 \<le> unflushed_output c" if "(k, c) \<in> set (tb_counters s)" for k c
      using counted_invD(5) [OF assms(1), of Input k] counted_invD(5) [OF assms(1), of Output k] that map_of_in_set [OF ok]
      by (simp add: unflushed_def counter_of_def)
    then show ?thesis by (auto simp: usage_ok_def list_all_iff pending_of_def)
  qed
  ultimately have t: "counted_inv ?t" using assms(1) unfolding counted_inv_def
    by (auto simp: in_table_def spent_def look_clear counter_of_look)
  have s: "counted_inv ?s" if "?p = []"
    using assms(1) pending_Nil [OF ok that] by (intro counted_frame [OF assms(1)]) (auto simp: look_clear counted_invD(1) counted_invD(6) [unfolded counter_of_look] counter_of_look)
  show ?thesis using t s assms(1) by (auto simp: budget_flush_begin_def Let_def intro!: after_flush_counted)
qed

lemma flight_le:
  assumes "counted_inv s" "map_of (bw_flights s) f = Some p"
  shows "tokens d k p \<le> flying d s k"
proof -
  have "0 \<le> tokens d k q" if "(f', q) \<in> set (bw_flights s)" for f' q
    using that assms(1) map_of_in_set [OF counted_invD(2)] by (blast intro: tokens_usage counted_invD(3))
  moreover have "tokens d k p \<in> set (map (tokens d k \<circ> snd) (bw_flights s))" using map_of_SomeD [OF assms(2)] by force
  ultimately show ?thesis unfolding flying_def dict_sum_def by (intro member_le_sum_list) auto
qed

lemma budget_flush_end_counted [inv_intros]:
  assumes "counted_inv s" "map_of (bw_flights s) f = Some pending"
  shows "counted_inv (budget_flush_end f pending written today s)"
proof -
  let ?t = "s\<lparr>bw_flights := AList.delete f (bw_flights s), bw_table := foldl upsert_usage (bw_table s) pending\<rparr>"
  let ?u = "s\<lparr>bw_flights := AList.delete f (bw_flights s), tb_counters := foldl roll_back (tb_counters s) pending\<rparr>"
  have ok: "dict_ok (tb_counters s)" "dict_ok (bw_flights s)" using assms(1) by (rule counted_invD)+
  have p: "0 \<le> tokens d k pending" for d k using assms by (intro tokens_usage counted_invD(3))
  have fly: "dict_sum (tokens d k) (AList.delete f (bw_flights s)) = flying d s k - tokens d k pending" for d k
    using dict_sum_delete [OF ok(2) assms(2), of "tokens d k"] by (simp add: flying_def)
  have tab: "in_table d ?t k = in_table d s k + tokens d k pending" for d k by (simp add: in_table_def upserts_amount)
  then have "accounted d ?t k = accounted d s k" for d k by (simp add: accounted_def flying_def fly)
  with tab have "counted_inv ?t" using assms(1) p unfolding counted_inv_def
    by (auto simp: spent_def intro: add_nonneg_nonneg order_trans [OF _ le_add_same_cancel1 [THEN iffD2]] split: if_splits)
  moreover have "counted_inv ?u"
  proof -
    have tab: "in_table d ?u k = in_table d s k" "spent d ?u k = spent d s k" for d k by (simp_all add: in_table_def spent_def)
    have cnt: "unflushed d (counter_of ?u k) = unflushed d (counter_of s k) + (if k \<in> keys (tb_counters s) then tokens d k pending else 0)"
      "committed d (counter_of ?u k) = committed d (counter_of s k)" for d k
      by (simp_all add: counter_of_look roll_backs_look)
    have acc: "accounted d ?u k = accounted d s k - (if k \<in> keys (tb_counters s) then 0 else tokens d k pending)" for d k
      using cnt(1) [of d k] by (simp add: accounted_def tab flying_def fly)
    have "committed d (counter_of ?u k) \<le> accounted d ?u k" "accounted d ?u k \<le> spent d s k" "0 \<le> unflushed d (counter_of ?u k)" for d k
    proof -
      show "accounted d ?u k \<le> spent d s k" using acc [of d k] p [of d k] counted_invD(7) [OF assms(1), of d k] by auto
      show "0 \<le> unflushed d (counter_of ?u k)" unfolding cnt using p [of d k] counted_invD(5) [OF assms(1), of d k] by auto
      show "committed d (counter_of ?u k) \<le> accounted d ?u k"
      proof (cases "k \<in> keys (tb_counters s)")
        case True
        then show ?thesis using counted_invD(6) [OF assms(1), of d k] unfolding cnt acc by simp
      next
        case False
        have "tokens d k pending \<le> flying d s k" using flight_le [OF assms] .
        then show ?thesis using False counted_invD(4,5) [OF assms(1), of d k] unfolding cnt acc by (simp add: accounted_def counter_of_look look_absent)
      qed
    qed
    with assms(1) show ?thesis unfolding counted_inv_def tab by (auto simp: ok split: if_splits)
  qed
  ultimately show ?thesis using assms by (auto simp: budget_flush_end_def Let_def intro!: after_flush_counted)
qed

lemma counted_row:
  assumes "counted_inv s" "row = map_of (bw_table s) k"
  shows "counted_inv (set_turn t (HydrateRow k est row) s)" "counted_inv (s\<lparr>bw_sweeps := AList.update r (SweepRow k ks row) (bw_sweeps s)\<rparr>)"
  using assms unfolding counted_inv_def by (auto simp: in_table_def accounted_def flying_def spent_def split: if_splits)

lemma sweep_assign_counted [inv_intros]:
  assumes "counted_inv s" "map_of (bw_sweeps s) r = Some (SweepRow k ks row)"
  shows "counted_inv (sweep_assign r k ks row s)"
proof -
  have "counted_inv (set_counter k (refresh_counter row c) s)" if "map_of (tb_counters s) k = Some c" for c
    using counted_invD(9) [OF assms] flying_nonneg [OF assms(1), where k = k] that
    by (intro counted_simple(6) assms) (auto simp: counter_of_def accounted_def intro: add_increasing2)
  with assms(1) show ?thesis unfolding sweep_assign_def by (intro counted_simple(5)) (auto split: option.split)
qed

lemma other_worker_counted [inv_intros]:
  assumes "counted_inv s"
  shows "counted_inv (s\<lparr>bw_table := upsert_usage (bw_table s) (k, max 0 i, max 0 j), bw_ledger := bw_ledger s @ [(k, max 0 i, max 0 j)]\<rparr>)"
proof -
  let ?s = "s\<lparr>bw_table := upsert_usage (bw_table s) (k, max 0 i, max 0 j), bw_ledger := bw_ledger s @ [(k, max 0 i, max 0 j)]\<rparr>"
  define more where "more d k' = (if k = k' then amount d (max 0 i, max 0 j) else 0)" for d and k' :: org_period
  have more: "0 \<le> more d k'" for d k' using amount_max by (simp add: more_def)
  have tab: "in_table d ?s k' = in_table d s k' + more d k'" and sp: "spent d ?s k' = spent d s k' + more d k'" for d k'
    unfolding in_table_def spent_def more_def by (simp_all add: upsert_amount del: upsert_usage.simps)
  have acc: "accounted d ?s k' = accounted d s k' + more d k'" for d k' unfolding accounted_def tab by (simp add: flying_def)
  have grow: "x \<le> y \<Longrightarrow> x \<le> y + more d k'" for x y d k' using more [of d k'] by linarith
  show ?thesis using assms unfolding counted_inv_def tab sp acc
    by (auto simp del: upsert_usage.simps intro: grow)
qed

lemma budget_step_counted:
  assumes "counted_inv s"
  shows "counted_inv (budget_step s e)"
proof (cases e)
  case (ReadUsage t ok)
  with assms show ?thesis by (auto split: option.split turn.split intro!: counted_row(1) pin_counted counted_simple(2))
next
  case (SweepRead r ok)
  with assms show ?thesis by (auto split: option.split sweep.split intro!: counted_row(2) counted_simple(5))
next
  case (OtherWorker k i j)
  with assms other_worker_counted show ?thesis by (simp del: upsert_usage.simps)
qed (use assms in \<open>auto split: option.split turn.split sweep.split intro!: inv_intros simp del: upsert_usage.simps\<close>)

lemma tb_init_counted:
  assumes "usage_ok earlier"
  shows "counted_inv (tb_init pool n secs now earlier)"
  using tokens_usage [OF assms]
  by (simp add: counted_inv_def tb_init_def counter_of_def in_table_def accounted_def flying_def spent_def upserts_amount)

interpretation budget: invariant_machine "\<lambda>s. \<exists>pool n secs now earlier. usage_ok earlier \<and> s = tb_init pool n secs now earlier"
  budget_step "\<lambda>s. holds_inv s \<and> counted_inv s"
  by unfold_locales (auto intro: tb_init_holds tb_init_counted budget_step_holds budget_step_counted)

section \<open>Lemmas: one worker that does not overlap with itself\<close>

text \<open>
  The steps of a single worker whose reads of the table succeed and whose reconciliations overlap with no other
  flush. Other steps are left out; turns interleave with everything.
\<close>

definition calm :: "budget_world \<Rightarrow> budget_event \<Rightarrow> bool" where
  "calm s e = (case e of
     ReadUsage t read_ok \<Rightarrow> read_ok
   | OtherWorker k i j \<Rightarrow> False
   | FlushBegin f today \<Rightarrow> bw_sweeps s = [] \<and> (case f of Reconciler r \<Rightarrow> bw_flights s = [] | _ \<Rightarrow> True)
   | FlushEnd f written today \<Rightarrow> (case f of Reconciler r \<Rightarrow> length (bw_flights s) \<le> 1 | _ \<Rightarrow> True)
   | _ \<Rightarrow> True)"

definition calm_step :: "budget_world \<Rightarrow> budget_event \<Rightarrow> budget_world" where
  "calm_step s e = (if calm s e then budget_step s e else s)"

definition hydrating :: "budget_world \<Rightarrow> nat \<Rightarrow> org_period \<Rightarrow> bool" where
  "hydrating s t k \<longleftrightarrow> (\<exists>est. map_of (bw_turns s) t = Some (HydrateReading k est) \<or> (\<exists>row. map_of (bw_turns s) t = Some (HydrateRow k est row)))"

definition sweeping :: "budget_world \<Rightarrow> org_period \<Rightarrow> bool" where
  "sweeping s k \<longleftrightarrow> (\<exists>r ks. map_of (bw_sweeps s) r = Some (SweepReading k ks) \<or> (\<exists>row. map_of (bw_sweeps s) r = Some (SweepRow k ks row)))"

definition exact_inv :: "budget_world \<Rightarrow> bool" where
  "exact_inv s \<longleftrightarrow> tb_ts_pool s \<and> (\<forall>d k. accounted d s k = spent d s k) \<and>
     (\<forall>d k. k \<in> tb_hydrated s \<longrightarrow> committed d (counter_of s k) = accounted d s k) \<and>
     (\<forall>d k. k \<notin> tb_hydrated s \<longrightarrow> committed d (counter_of s k) = 0 \<and> unflushed d (counter_of s k) = 0 \<and> flying d s k = 0) \<and>
     (\<forall>k. k \<notin> tb_hydrated s \<longrightarrow> reserved (counter_of s k) = 0) \<and>
     (\<forall>t k. hydrating s t k \<longrightarrow> tb_hydration_lock s = Some t \<and> k \<notin> tb_hydrated s) \<and>
     (\<forall>t k est row. map_of (bw_turns s) t = Some (HydrateRow k est row) \<longrightarrow> row_amounts row = row_amounts (map_of (bw_table s) k)) \<and>
     (bw_sweeps s \<noteq> [] \<longrightarrow> bw_flights s = []) \<and> (\<forall>k. sweeping s k \<longrightarrow> k \<in> tb_hydrated s) \<and>
     (\<forall>r k ks row. map_of (bw_sweeps s) r = Some (SweepRow k ks row) \<longrightarrow> row_amounts row = row_amounts (map_of (bw_table s) k)) \<and>
     (\<forall>f p. map_of (bw_flights s) f = Some p \<longrightarrow> fst ` set p \<subseteq> keys (tb_counters s))"

lemma exact_invD:
  assumes "exact_inv s"
  shows "tb_ts_pool s" "accounted d s k = spent d s k" "k \<in> tb_hydrated s \<Longrightarrow> committed d (counter_of s k) = accounted d s k"
    "k \<notin> tb_hydrated s \<Longrightarrow> committed d (counter_of s k) = 0" "k \<notin> tb_hydrated s \<Longrightarrow> unflushed d (counter_of s k) = 0"
    "k \<notin> tb_hydrated s \<Longrightarrow> flying d s k = 0" "k \<notin> tb_hydrated s \<Longrightarrow> reserved (counter_of s k) = 0"
    "hydrating s t k \<Longrightarrow> tb_hydration_lock s = Some t" "hydrating s t k \<Longrightarrow> k \<notin> tb_hydrated s"
    "map_of (bw_turns s) t = Some (HydrateRow k est row) \<Longrightarrow> row_amounts row = row_amounts (map_of (bw_table s) k)"
    "bw_sweeps s \<noteq> [] \<Longrightarrow> bw_flights s = []" "sweeping s k \<Longrightarrow> k \<in> tb_hydrated s"
    "map_of (bw_sweeps s) r = Some (SweepRow k ks row) \<Longrightarrow> row_amounts row = row_amounts (map_of (bw_table s) k)"
    "map_of (bw_flights s) f = Some p \<Longrightarrow> fst ` set p \<subseteq> keys (tb_counters s)"
  using assms unfolding exact_inv_def by (elim conjE; simp)+

lemma exact_invI:
  assumes "tb_ts_pool s" "\<And>d k. accounted d s k = spent d s k" "\<And>d k. k \<in> tb_hydrated s \<Longrightarrow> committed d (counter_of s k) = accounted d s k"
    "\<And>d k. k \<notin> tb_hydrated s \<Longrightarrow> committed d (counter_of s k) = 0" "\<And>d k. k \<notin> tb_hydrated s \<Longrightarrow> unflushed d (counter_of s k) = 0"
    "\<And>d k. k \<notin> tb_hydrated s \<Longrightarrow> flying d s k = 0" "\<And>k. k \<notin> tb_hydrated s \<Longrightarrow> reserved (counter_of s k) = 0"
    "\<And>t k. hydrating s t k \<Longrightarrow> tb_hydration_lock s = Some t \<and> k \<notin> tb_hydrated s"
    "\<And>t k est row. map_of (bw_turns s) t = Some (HydrateRow k est row) \<Longrightarrow> row_amounts row = row_amounts (map_of (bw_table s) k)"
    "bw_sweeps s \<noteq> [] \<Longrightarrow> bw_flights s = []" "\<And>k. sweeping s k \<Longrightarrow> k \<in> tb_hydrated s"
    "\<And>r k ks row. map_of (bw_sweeps s) r = Some (SweepRow k ks row) \<Longrightarrow> row_amounts row = row_amounts (map_of (bw_table s) k)"
    "\<And>f p. map_of (bw_flights s) f = Some p \<Longrightarrow> fst ` set p \<subseteq> keys (tb_counters s)"
  shows "exact_inv s"
  using assms by (simp add: exact_inv_def)

lemma exact_frame:
  assumes inv: "exact_inv s"
    and eq: "tb_ts_pool s' = tb_ts_pool s" "bw_table s' = bw_table s" "bw_flights s' = bw_flights s" "bw_ledger s' = bw_ledger s" "tb_hydrated s' = tb_hydrated s"
      "keys (tb_counters s) \<subseteq> keys (tb_counters s')"
    and cnt: "\<And>d k. unflushed d (counter_of s' k) = unflushed d (counter_of s k)" "\<And>d k. committed d (counter_of s' k) = committed d (counter_of s k)"
      "\<And>k. k \<notin> tb_hydrated s \<Longrightarrow> reserved (counter_of s' k) = 0"
    and rows: "\<And>t k. hydrating s' t k \<Longrightarrow> tb_hydration_lock s' = Some t \<and> k \<notin> tb_hydrated s"
      "\<And>t k est row. map_of (bw_turns s') t = Some (HydrateRow k est row) \<Longrightarrow> row_amounts row = row_amounts (map_of (bw_table s) k)"
    and sweeps: "bw_sweeps s' \<noteq> [] \<Longrightarrow> bw_flights s = []" "\<And>k. sweeping s' k \<Longrightarrow> k \<in> tb_hydrated s"
      "\<And>r k ks row. map_of (bw_sweeps s') r = Some (SweepRow k ks row) \<Longrightarrow> row_amounts row = row_amounts (map_of (bw_table s) k)"
  shows "exact_inv s'"
proof -
  have same: "spent d s' k = spent d s k" "accounted d s' k = accounted d s k" "flying d s' k = flying d s k" for d k
    using eq cnt by (simp_all add: in_table_def spent_def accounted_def flying_def)
  have "\<forall>f p. map_of (bw_flights s') f = Some p \<longrightarrow> fst ` set p \<subseteq> keys (tb_counters s')"
    unfolding eq(3) using exact_invD(14) [OF inv] eq(6) by blast
  then show ?thesis unfolding exact_inv_def same eq(1,2,5) cnt(1,2)
    using exact_invD [OF inv] cnt(3) rows sweeps by (simp add: eq(3))
qed

text \<open>A turn moves on and changes what its own key reserves.\<close>

lemma exact_turn:
  assumes inv: "exact_inv s"
    and eq: "tb_ts_pool s' = tb_ts_pool s" "bw_table s' = bw_table s" "bw_flights s' = bw_flights s" "bw_ledger s' = bw_ledger s" "tb_hydrated s' = tb_hydrated s"
      "bw_sweeps s' = bw_sweeps s" "keys (tb_counters s) \<subseteq> keys (tb_counters s')"
    and cnt: "\<And>d k. unflushed d (counter_of s' k) = unflushed d (counter_of s k)" "\<And>d k. committed d (counter_of s' k) = committed d (counter_of s k)"
      "\<And>k. k \<notin> tb_hydrated s \<Longrightarrow> reserved (counter_of s' k) = 0"
    and turn: "bw_turns s' = AList.update t p (bw_turns s)"
    and plain: "\<And>k est. p \<noteq> HydrateReading k est" "\<And>k est row. p \<noteq> HydrateRow k est row"
    and lock: "tb_hydration_lock s' = tb_hydration_lock s \<or> (\<exists>k. hydrating s t k)"
  shows "exact_inv s'"
proof (rule exact_frame [OF inv eq(1-5) eq(7) cnt])
  fix t' k
  assume "hydrating s' t' k"
  with turn plain have h: "hydrating s t' k" "t' \<noteq> t" by (auto simp: hydrating_def split: if_splits)
  then have "\<not> (\<exists>k. hydrating s t k)" using exact_invD(8) [OF inv] by (metis option.inject)
  with lock h show "tb_hydration_lock s' = Some t' \<and> k \<notin> tb_hydrated s" using exact_invD(8,9) [OF inv h(1)] by simp
qed (use exact_invD [OF inv] turn plain in \<open>auto simp: eq(6) sweeping_def split: if_splits\<close>)

lemma reserved_hydrated:
  assumes "exact_inv s" "holds_inv s" "map_of (bw_turns s) t = Some p" "0 < hold k p"
  shows "k \<in> tb_hydrated s"
  using assms holds_member [OF assms(2,3), of k] exact_invD(7) [OF assms(1), of k] holds_invD(4) [OF assms(2), of k] by linarith

lemma pin_exact: "exact_inv s \<Longrightarrow> k \<in> tb_hydrated s \<Longrightarrow> (\<And>k est. map_of (bw_turns s) t \<noteq> Some (HydrateReading k est)) \<Longrightarrow> exact_inv (pin t k est s)"
  by (rule exact_turn [of s _ t "Resolving k est"]) (auto simp: pin_def exact_invD(7))

lemma check_begin_exact: "exact_inv s \<Longrightarrow> exact_inv (check_begin t org prompt today s)"
  by (auto simp: check_begin_def Let_def exact_invD(7) split: option.split intro!: exact_turn [of s _ t] simp: pin_def)

lemma check_end_exact:
  assumes "exact_inv s" "holds_inv s" "map_of (bw_turns s) t = Some (Resolving k est)"
  shows "exact_inv (check_end t k est limit s)"
proof -
  have "turn_ok (Resolving k est)" using assms(2,3) by (rule holds_invD(3))
  then have "k \<in> tb_hydrated s" using assms by (intro reserved_hydrated [of s t]) (auto simp: hold_def turn_ok_def)
  with assms(1) show ?thesis
    by (cases "counter_total (counter_of s k) > limit") (auto simp: check_end_def Let_def exact_invD(7) intro!: exact_turn [of s _ t])
qed

lemma check_cancel_exact:
  assumes "exact_inv s" "holds_inv s" "map_of (bw_turns s) t = Some p"
  shows "exact_inv (check_cancel t p s)"
proof (cases p)
  case (Resolving k est)
  have "turn_ok p" using assms(2,3) by (rule holds_invD(3))
  with Resolving have "k \<in> tb_hydrated s" using assms by (intro reserved_hydrated [of s t]) (auto simp: hold_def turn_ok_def)
  with assms(1) Resolving show ?thesis by (auto simp: check_cancel_def exact_invD(7) intro!: exact_turn [of s _ t TurnRaised])
next
  case (HydrateReading k est)
  with assms(3) have "hydrating s t k" by (auto simp: hydrating_def)
  with assms(1) HydrateReading show ?thesis by (auto simp: check_cancel_def exact_invD(7) intro!: exact_turn [of s _ t TurnRaised])
next
  case (HydrateRow k est row)
  with assms(3) have "hydrating s t k" by (auto simp: hydrating_def)
  with assms(1) HydrateRow show ?thesis by (auto simp: check_cancel_def exact_invD(7) intro!: exact_turn [of s _ t TurnRaised])
qed (use assms(1) in \<open>auto simp: check_cancel_def exact_invD(7) intro!: exact_turn [of s _ t TurnRaised]\<close>)

lemma committed_set [simp]:
  "committed d (c\<lparr>committed_input := i, committed_output := j\<rparr>) = amount d (i, j)"
  "unflushed d (c\<lparr>committed_input := i, committed_output := j\<rparr>) = unflushed d c"
  by (cases d; simp add: committed_def unflushed_def amount_def)+

lemma amount_zero [simp]: "amount d (0, 0) = 0"
  by (cases d) (simp_all add: amount_def)

lemma hydrate_begin_exact:
  assumes "exact_inv s" "tb_hydration_lock s = None" "map_of (bw_turns s) t = Some (AwaitingLock k est)"
  shows "exact_inv (hydrate_begin t k est s)"
proof (cases "k \<in> tb_hydrated s")
  case True
  with assms pin_exact show ?thesis by (simp add: hydrate_begin_def)
next
  case False
  have free: "\<not> hydrating s t' k'" for t' k' using assms(2) exact_invD(8) [OF assms(1), of t' k'] by auto
  let ?s = "set_turn t (HydrateReading k est) ((default_counter k s)\<lparr>tb_hydration_lock := Some t\<rparr>)"
  have "exact_inv ?s"
  proof (rule exact_frame [OF assms(1)])
    fix t' k'
    assume "hydrating ?s t' k'"
    with free [of t' k'] False show "tb_hydration_lock ?s = Some t' \<and> k' \<notin> tb_hydrated s" by (auto simp: hydrating_def split: if_splits)
  qed (use exact_invD [OF assms(1)] in \<open>auto simp: sweeping_def split: if_splits\<close>)
  with False exact_invD(1) [OF assms(1)] show ?thesis by (simp add: hydrate_begin_def Let_def)
qed

lemma read_usage_exact:
  assumes "exact_inv s" "map_of (bw_turns s) t = Some (HydrateReading k est)"
  shows "exact_inv (set_turn t (HydrateRow k est (map_of (bw_table s) k)) s)"
proof (rule exact_frame [OF assms(1)])
  fix t' k'
  assume "hydrating (set_turn t (HydrateRow k est (map_of (bw_table s) k)) s) t' k'"
  with assms(2) have "hydrating s t' k'" by (auto simp: hydrating_def split: if_splits)
  with exact_invD(8,9) [OF assms(1) this]
  show "tb_hydration_lock (set_turn t (HydrateRow k est (map_of (bw_table s) k)) s) = Some t' \<and> k' \<notin> tb_hydrated s" by simp
qed (use exact_invD [OF assms(1)] in \<open>auto simp: sweeping_def split: if_splits\<close>)

lemma hydrate_end_exact:
  assumes "exact_inv s" "map_of (bw_turns s) t = Some (HydrateRow k est row)"
  shows "exact_inv (hydrate_end t k est row s)"
proof -
  let ?s = "hydrate_end t k est row s"
  have h: "hydrating s t k" using assms(2) by (auto simp: hydrating_def)
  have cold: "k \<notin> tb_hydrated s" and row: "row_amounts row = row_amounts (map_of (bw_table s) k)" using exact_invD(9) [OF assms(1) h] exact_invD(10) [OF assms] by auto
  have frame: "bw_table ?s = bw_table s" "bw_flights ?s = bw_flights s" "bw_ledger ?s = bw_ledger s" "tb_ts_pool ?s = tb_ts_pool s"
    "bw_sweeps ?s = bw_sweeps s" "tb_hydrated ?s = insert k (tb_hydrated s)" "tb_hydration_lock ?s = None"
    "bw_turns ?s = AList.update t (Resolving k est) (bw_turns s)" "keys (tb_counters s) \<subseteq> keys (tb_counters ?s)"
    by (auto simp: hydrate_end_def pin_def Let_def split: option.split)
  have cnt: "unflushed d (counter_of ?s k') = unflushed d (counter_of s k')"
    "committed d (counter_of ?s k') = (if k' = k then amount d (row_amounts row) else committed d (counter_of s k'))"
    "k' \<noteq> k \<Longrightarrow> reserved (counter_of ?s k') = reserved (counter_of s k')" for d k'
    using exact_invD(4) [OF assms(1) cold] by (cases row; auto simp: hydrate_end_def pin_def Let_def row_amounts_def)+
  have acc: "accounted d ?s k' = accounted d s k'" "spent d ?s k' = spent d s k'" "flying d ?s k' = flying d s k'" for d k'
    by (simp_all add: accounted_def in_table_def flying_def spent_def frame cnt)
  have k: "amount d (row_amounts row) = accounted d s k" for d
    using exact_invD(5,6) [OF assms(1) cold, of d] by (simp add: accounted_def in_table_def row)
  have other: "\<not> hydrating ?s t' k'" for t' k'
  proof
    assume "hydrating ?s t' k'"
    then have "t' \<noteq> t" "hydrating s t' k'" unfolding hydrating_def frame by (auto split: if_splits)
    with exact_invD(8) [OF assms(1)] h show False by (metis option.inject)
  qed
  have rows: "\<not> map_of (bw_turns ?s) t' = Some (HydrateRow k' est' row')" for t' k' est' row' using other [of t' k'] by (auto simp: hydrating_def)
  have sw: "sweeping ?s k' \<Longrightarrow> k' \<in> tb_hydrated s" for k' using exact_invD(12) [OF assms(1)] by (simp add: sweeping_def frame)
  have fl: "fst ` set p \<subseteq> keys (tb_counters ?s)" if "map_of (bw_flights s) f = Some p" for f p
    using exact_invD(14) [OF assms(1) that] frame(9) by blast
  note old = exact_invD [OF assms(1)]
  show ?thesis
  proof (rule exact_invI)
    show "committed d (counter_of ?s k') = accounted d ?s k'" if "k' \<in> tb_hydrated ?s" for d k'
      using that old(3) [of k' d] by (auto simp: cnt acc k frame)
    show "row_amounts row' = row_amounts (map_of (bw_table ?s) k')" if "map_of (bw_sweeps ?s) r = Some (SweepRow k' ks row')" for r k' ks row'
      using that old(13) by (simp add: frame)
  qed (use old(1,2,11) in \<open>auto simp: frame(1-8) acc cnt old(4-7) other rows sw fl simp flip: frame(8)\<close>)
qed

lemma record_turn_exact:
  assumes "exact_inv s" "holds_inv s" "map_of (bw_turns s) t = Some (TurnReserved rv)"
  shows "exact_inv (record_turn t rv i j now later s)"
proof (cases "rv_organization_id rv")
  case None
  with assms(1) show ?thesis by (auto simp: record_turn_def record_actual_def Let_def exact_invD(7) intro!: exact_turn [of s _ t TurnRecorded])
next
  case (Some org)
  let ?k = "(org, rv_period_yyyymm rv)" and ?s = "record_turn t rv i j now later s"
  have "turn_ok (TurnReserved rv)" using assms(2,3) by (rule holds_invD(3))
  with Some have org: "org \<noteq> []" and "0 < hold ?k (TurnReserved rv)" by (auto simp: turn_ok_def hold_def)
  then have warm: "?k \<in> tb_hydrated s" using assms by (intro reserved_hydrated)
  define more where "more d k = (if k = ?k then amount d (max 0 i, max 0 j) else 0)" for d and k :: org_period
  have frame: "bw_table ?s = bw_table s" "bw_flights ?s = bw_flights s" "tb_ts_pool ?s = tb_ts_pool s" "bw_sweeps ?s = bw_sweeps s"
    "tb_hydrated ?s = tb_hydrated s" "tb_hydration_lock ?s = tb_hydration_lock s" "keys (tb_counters s) \<subseteq> keys (tb_counters ?s)"
    "bw_turns ?s = AList.update t TurnRecorded (bw_turns s)"
    using Some org by (auto simp: record_turn_def record_actual_def Let_def)
  have cnt: "unflushed d (counter_of ?s k) = unflushed d (counter_of s k) + more d k" "committed d (counter_of ?s k) = committed d (counter_of s k) + more d k"
    "spent d ?s k = spent d s k + more d k" "k \<notin> tb_hydrated s \<Longrightarrow> reserved (counter_of ?s k) = reserved (counter_of s k)" for d k
    using Some org warm by (auto simp: record_turn_def record_actual_def Let_def spent_def more_def)
  have acc: "accounted d ?s k = accounted d s k + more d k" "flying d ?s k = flying d s k" for d k
    by (simp_all add: accounted_def in_table_def flying_def frame cnt)
  have cold: "k \<notin> tb_hydrated s \<Longrightarrow> more d k = 0" for d k using warm by (auto simp: more_def)
  have hyd: "hydrating ?s t' k \<Longrightarrow> hydrating s t' k" for t' k unfolding hydrating_def frame by (auto split: if_splits)
  have sw: "sweeping ?s k = sweeping s k" for k by (simp add: sweeping_def frame)
  have fl: "fst ` set p \<subseteq> keys (tb_counters ?s)" if "map_of (bw_flights s) f = Some p" for f p
    using exact_invD(14) [OF assms(1) that] frame(7) by blast
  note old = exact_invD [OF assms(1)]
  show ?thesis
  proof (rule exact_invI)
    show "tb_hydration_lock ?s = Some t' \<and> k \<notin> tb_hydrated ?s" if "hydrating ?s t' k" for t' k
      using old(8,9) [OF hyd [OF that]] by (simp add: frame)
    show "row_amounts row = row_amounts (map_of (bw_table ?s) k)" if "map_of (bw_turns ?s) t' = Some (HydrateRow k est row)" for t' k est row
      using that old(10) by (auto simp: frame split: if_splits)
    show "row_amounts row = row_amounts (map_of (bw_table ?s) k)" if "map_of (bw_sweeps ?s) r = Some (SweepRow k ks row)" for r k ks row
      using that old(13) by (simp add: frame)
  qed (use old(1,2,11,12) in \<open>auto simp: frame(1-6) acc cnt old(3-7) cold sw fl\<close>)
qed

lemma sweep_next_exact:
  assumes "exact_inv s" "bw_flights s = []"
  shows "exact_inv (sweep_next r ks s)"
proof (rule exact_frame [OF assms(1)])
  fix k
  assume "sweeping (sweep_next r ks s) k"
  then have "sweeping s k \<or> (\<exists>ks'. dropWhile (\<lambda>k. k \<notin> tb_hydrated s) ks = k # ks')"
    by (fastforce simp: sweeping_def sweep_next_def split: list.splits if_splits)
  then show "k \<in> tb_hydrated s" using exact_invD(12) [OF assms(1), of k] by (auto simp: dropWhile_eq_Cons_conv)
next
  fix r' k ks' row
  assume "map_of (bw_sweeps (sweep_next r ks s)) r' = Some (SweepRow k ks' row)"
  then show "row_amounts row = row_amounts (map_of (bw_table s) k)" using exact_invD(13) [OF assms(1)] sweep_next_rows by blast
qed (use exact_invD [OF assms(1)] assms(2) in \<open>auto simp: hydrating_def\<close>)

lemma evict_frame [simp]:
  fixes s :: budget_world
  shows "bw_turns (evict_settled_past_periods p s) = bw_turns s" "bw_table (evict_settled_past_periods p s) = bw_table s"
    "bw_flights (evict_settled_past_periods p s) = bw_flights s" "bw_sweeps (evict_settled_past_periods p s) = bw_sweeps s"
    "bw_ledger (evict_settled_past_periods p s) = bw_ledger s" "tb_ts_pool (evict_settled_past_periods p s) = tb_ts_pool s"
    "tb_hydration_lock (evict_settled_past_periods p s) = tb_hydration_lock s"
  by (simp_all add: evict_settled_past_periods_def)

lemma evict_kept:
  assumes "dict_ok (tb_counters s)" "k \<in> tb_hydrated (evict_settled_past_periods p s)"
  shows "k \<in> tb_hydrated s \<and> counter_of (evict_settled_past_periods p s) k = counter_of s k"
proof -
  have "counter_of s k = empty_counter" if "settled_past p s (k, counter_of s k)"
  proof (cases "map_of (tb_counters s) k")
    case (Some c)
    with that assms(1) have "(k, c) \<in> set (filter (settled_past p s) (tb_counters s))" by (simp add: counter_of_def map_of_in_set)
    with assms(2) show ?thesis by (force simp: evict_settled_past_periods_def)
  qed (simp add: counter_of_def)
  with assms show ?thesis by (auto simp: evicted_counter) (auto simp: evict_settled_past_periods_def)
qed

lemma evict_gone:
  assumes "dict_ok (tb_counters s)" "k \<notin> tb_hydrated (evict_settled_past_periods p s)" "k \<in> tb_hydrated s"
  shows "counter_of (evict_settled_past_periods p s) k = empty_counter"
proof -
  from assms(2,3) obtain c where c: "(k, c) \<in> set (tb_counters s)" "settled_past p s (k, c)" by (auto simp: evict_settled_past_periods_def)
  then have "counter_of s k = c" using assms(1) by (simp add: counter_of_def map_of_in_set)
  with c(2) assms(1) show ?thesis by (simp add: evicted_counter)
qed

lemma evict_exact:
  assumes "exact_inv s" "dict_ok (tb_counters s)" "bw_flights s = []" "bw_sweeps s = []"
  shows "exact_inv (evict_settled_past_periods p s)"
proof -
  let ?s = "evict_settled_past_periods p s"
  note old = exact_invD [OF assms(1)]
  have unfl: "unflushed d (counter_of ?s k) = unflushed d (counter_of s k)" for d k
    using assms(2) by (cases d) (auto simp: evicted_counter settled_past_def unflushed_def empty_counter_def)
  then have acc: "accounted d ?s k = accounted d s k" "spent d ?s k = spent d s k" for d k
    by (simp_all add: accounted_def in_table_def flying_def spent_def)
  have cold: "counter_of ?s k = counter_of s k \<and> k \<notin> tb_hydrated s \<or> counter_of ?s k = empty_counter" if "k \<notin> tb_hydrated ?s" for k
    using evict_gone [OF assms(2) that] assms(2) that by (cases "k \<in> tb_hydrated s") (auto simp: evicted_counter settled_past_def)
  show ?thesis
  proof (rule exact_invI)
    show "committed d (counter_of ?s k) = accounted d ?s k" if "k \<in> tb_hydrated ?s" for d k
      using evict_kept [OF assms(2) that] old(3) [of k d] by (simp add: acc)
    show "tb_hydration_lock ?s = Some t \<and> k \<notin> tb_hydrated ?s" if "hydrating ?s t k" for t k
      using that old(8,9) [of t k] evict_kept [OF assms(2), of k p] by (auto simp: hydrating_def)
    show "committed d (counter_of ?s k) = 0" "unflushed d (counter_of ?s k) = 0" "reserved (counter_of ?s k) = 0" if "k \<notin> tb_hydrated ?s" for d k
      using cold [OF that] old(4,5,7) [of k] by auto
  qed (use old(1,2,10) in \<open>auto simp: acc assms(3,4) sweeping_def flying_def\<close>)
qed

lemma after_flush_exact:
  assumes "exact_inv s" "dict_ok (tb_counters s)" "\<And>r. f = Reconciler r \<Longrightarrow> bw_flights s = [] \<and> bw_sweeps s = []"
  shows "exact_inv (after_flush f today s)"
proof (cases f)
  case (Reconciler r)
  with assms have "exact_inv (evict_settled_past_periods (current_period_yyyymm today) s)" by (intro evict_exact) auto
  with Reconciler assms(3) show ?thesis by (auto simp: after_flush_def Let_def intro!: sweep_next_exact)
qed (use assms(1) in \<open>auto simp: after_flush_def hydrating_def sweeping_def exact_invD intro!: exact_frame [OF assms(1)]\<close>)

lemma budget_flush_begin_exact:
  assumes "exact_inv s" "dict_ok (tb_counters s)" "may_flush f s" "calm s (FlushBegin f today)"
  shows "exact_inv (budget_flush_begin f today s)"
proof -
  let ?s = "s\<lparr>tb_counters := map (map_prod id clear_unflushed) (tb_counters s)\<rparr>"
  let ?p = "pending_of (tb_counters s)"
  let ?t = "?s\<lparr>bw_flights := AList.update f ?p (bw_flights s)\<rparr>"
  note old = exact_invD [OF assms(1)]
  have quiet: "bw_sweeps s = []" "f = Reconciler r \<Longrightarrow> bw_flights s = []" for r using assms(4) by (auto simp: calm_def)
  have p: "tokens d k ?p = unflushed d (counter_of s k)" for d k using pending_tokens [OF assms(2)] by (simp add: counter_of_look)
  have new: "map_of (bw_flights s) f = None" using assms(3) by (simp add: may_flush_def keys_map_of_None)
  have fly: "flying d ?t k = flying d s k + unflushed d (counter_of s k)" for d k by (simp add: flying_def dict_sum_new [OF new] p)
  then have acc: "accounted d ?t k = accounted d s k" "spent d ?t k = spent d s k" for d k
    by (simp_all add: accounted_def in_table_def spent_def look_clear)
  have cnt: "look (map (map_prod id clear_unflushed) (tb_counters s)) k = clear_unflushed (counter_of s k)" for k
    by (simp add: look_clear counter_of_look)
  have t: "exact_inv ?t"
  proof (rule exact_invI)
    show "fst ` set q \<subseteq> keys (tb_counters ?t)" if "map_of (bw_flights ?t) g = Some q" for g q
      using that old(14) [of g q] pending_keys [of "tb_counters s"] by (auto split: if_splits)
    show "tb_hydration_lock ?t = Some t' \<and> k \<notin> tb_hydrated ?t" if "hydrating ?t t' k" for t' k
      using that old(8,9) [of t' k] by (simp add: hydrating_def)
  qed (use old(1,2,10) quiet in \<open>auto simp: acc cnt fly old(3-7) sweeping_def\<close>)
  have s: "exact_inv ?s" if "?p = []"
    using pending_Nil [OF assms(2) that] quiet old
    by (intro exact_frame [OF assms(1)]) (auto simp: look_clear old(7) [unfolded counter_of_look] counter_of_look hydrating_def sweeping_def)
  show ?thesis using t s assms(2) quiet old(1) by (auto simp: budget_flush_begin_def Let_def intro!: after_flush_exact)
qed

lemma exclusive:
  assumes "exact_inv s"
  shows "map_of (bw_flights s) f = Some p \<Longrightarrow> bw_sweeps s = []" "map_of (bw_sweeps s) r = Some w \<Longrightarrow> bw_flights s = []"
  using exact_invD(11) [OF assms] by (cases "bw_sweeps s = []"; simp)+

lemma amount_eqI: "(\<And>d. amount d a = amount d b) \<Longrightarrow> a = b"
proof (rule prod_eqI)
  assume eq: "\<And>d. amount d a = amount d b"
  show "fst a = fst b" "snd a = snd b" using eq [of Input] eq [of Output] by (simp_all add: amount_def)
qed

lemma flight_tokens_zero:
  assumes "exact_inv s" "counted_inv s" "map_of (bw_flights s) f = Some pending"
  shows "k \<notin> tb_hydrated s \<Longrightarrow> tokens d k pending = 0" "k \<notin> keys (tb_counters s) \<Longrightarrow> tokens d k pending = 0"
proof -
  show "tokens d k pending = 0" if "k \<notin> tb_hydrated s"
    using flight_le [OF assms(2,3), of d k] exact_invD(6) [OF assms(1) that, of d] tokens_usage [OF counted_invD(3) [OF assms(2,3)], of d k] by simp
  have "tokens d k xs = 0" if "k \<notin> fst ` set xs" for xs using that by (induction xs) auto
  then show "tokens d k pending = 0" if "k \<notin> keys (tb_counters s)" using exact_invD(14) [OF assms(1,3)] that by blast
qed

lemma flying_delete:
  assumes "counted_inv s" "map_of (bw_flights s) f = Some pending"
  shows "dict_sum (tokens d k) (AList.delete f (bw_flights s)) = flying d s k - tokens d k pending"
  using dict_sum_delete [OF counted_invD(2) [OF assms(1)] assms(2), of "tokens d k"] by (simp add: flying_def)

lemma written_exact:
  assumes "exact_inv s" "counted_inv s" "map_of (bw_flights s) f = Some pending"
  shows "exact_inv (s\<lparr>bw_flights := AList.delete f (bw_flights s), bw_table := foldl upsert_usage (bw_table s) pending\<rparr>)" (is "exact_inv ?t")
proof -
  note old = exact_invD [OF assms(1)]
  have sw: "bw_sweeps s = []" using assms(1,3) by (rule exclusive(1))
  have tab: "in_table d ?t k = in_table d s k + tokens d k pending" for d k by (simp add: in_table_def upserts_amount)
  have fly: "flying d ?t k = flying d s k - tokens d k pending" for d k by (simp add: flying_def [of d ?t] flying_delete [OF assms(2,3)])
  have acc: "accounted d ?t k = accounted d s k" "spent d ?t k = spent d s k" for d k
    unfolding accounted_def tab fly by (simp_all add: spent_def)
  note zero = flight_tokens_zero(1) [OF assms]
  show ?thesis
  proof (rule exact_invI)
    show "tb_hydration_lock ?t = Some t' \<and> k \<notin> tb_hydrated ?t" if "hydrating ?t t' k" for t' k
      using that old(8,9) [of t' k] by (simp add: hydrating_def)
    show "row_amounts row = row_amounts (map_of (bw_table ?t) k)" if "map_of (bw_turns ?t) t' = Some (HydrateRow k est row)" for t' k est row
    proof -
      have "hydrating s t' k" using that by (auto simp: hydrating_def)
      then have "k \<notin> tb_hydrated s" by (rule old(9))
      then have "row_amounts (map_of (bw_table ?t) k) = row_amounts (map_of (bw_table s) k)"
        by (intro amount_eqI) (simp add: upserts_amount zero)
      with that old(10) [of t' k est row] show ?thesis by simp
    qed
    show "fst ` set q \<subseteq> keys (tb_counters ?t)" if "map_of (bw_flights ?t) g = Some q" for g q
      using that old(14) [of g q] by (auto split: if_splits)
  qed (use old(1,2) sw in \<open>auto simp: acc fly old(3-7) zero sweeping_def\<close>)
qed

lemma rolled_back_exact:
  assumes "exact_inv s" "counted_inv s" "map_of (bw_flights s) f = Some pending"
  shows "exact_inv (s\<lparr>bw_flights := AList.delete f (bw_flights s), tb_counters := foldl roll_back (tb_counters s) pending\<rparr>)" (is "exact_inv ?u")
proof -
  note old = exact_invD [OF assms(1)]
  have sw: "bw_sweeps s = []" using assms(1,3) by (rule exclusive(1))
  note zero = flight_tokens_zero [OF assms]
  have cnt: "unflushed d (look (foldl roll_back (tb_counters s) pending) k) = unflushed d (counter_of s k) + tokens d k pending"
    "committed d (look (foldl roll_back (tb_counters s) pending) k) = committed d (counter_of s k)"
    "reserved (look (foldl roll_back (tb_counters s) pending) k) = reserved (counter_of s k)" for d k
    using zero(2) [of k d] by (simp_all add: counter_of_look roll_backs_look)
  have fly: "flying d ?u k = flying d s k - tokens d k pending" for d k by (simp add: flying_def [of d ?u] flying_delete [OF assms(2,3)])
  have acc: "accounted d ?u k = accounted d s k" "spent d ?u k = spent d s k" for d k
    unfolding accounted_def fly by (simp_all add: cnt spent_def in_table_def)
  show ?thesis
  proof (rule exact_invI)
    show "tb_hydration_lock ?u = Some t' \<and> k \<notin> tb_hydrated ?u" if "hydrating ?u t' k" for t' k
      using that old(8,9) [of t' k] by (simp add: hydrating_def)
    show "fst ` set q \<subseteq> keys (tb_counters ?u)" if "map_of (bw_flights ?u) g = Some q" for g q
      using that old(14) [of g q] by (auto split: if_splits)
  qed (use old(1,2,10) sw in \<open>auto simp: acc fly cnt old(3-7) zero(1) sweeping_def\<close>)
qed

lemma budget_flush_end_exact:
  assumes "exact_inv s" "counted_inv s" "map_of (bw_flights s) f = Some pending" "calm s (FlushEnd f written today)"
  shows "exact_inv (budget_flush_end f pending written today s)"
proof -
  have "bw_sweeps s = []" using assms(1,3) by (rule exclusive(1))
  moreover have "AList.delete f (bw_flights s) = []" if "f = Reconciler r" for r
    using assms(3,4) that by (cases "bw_flights s") (auto simp: calm_def split: if_splits)
  ultimately show ?thesis
    using written_exact [OF assms(1-3)] rolled_back_exact [OF assms(1-3)] counted_invD(1) [OF assms(2)]
    by (auto simp: budget_flush_end_def Let_def intro!: after_flush_exact)
qed

lemma sweep_assign_exact:
  assumes "exact_inv s" "map_of (bw_sweeps s) r = Some (SweepRow k ks row)"
  shows "exact_inv (sweep_assign r k ks row s)"
proof -
  note old = exact_invD [OF assms(1)]
  have quiet: "bw_flights s = []" using assms by (rule exclusive(2))
  have warm: "k \<in> tb_hydrated s" using assms(2) by (intro old(12)) (auto simp: sweeping_def)
  have row: "row_amounts row = row_amounts (map_of (bw_table s) k)" by (rule old(13) [OF assms(2)])
  have "exact_inv (set_counter k (refresh_counter row c) s)" if c: "map_of (tb_counters s) k = Some c" for c
  proof -
    have k: "counter_of s k = c" using c by (simp add: counter_of_def)
    have "committed d c = amount d (row_amounts row) + unflushed d c" for d
      using old(3) [OF warm, of d] by (simp add: k accounted_def in_table_def row flying_def quiet)
    then show ?thesis using k warm old by (intro exact_frame [OF assms(1)]) (auto simp: hydrating_def sweeping_def)
  qed
  then show ?thesis using assms(1) quiet unfolding sweep_assign_def by (intro sweep_next_exact) (auto split: option.split)
qed

lemma sweep_read_exact:
  assumes "exact_inv s" "map_of (bw_sweeps s) r = Some (SweepReading k ks)"
  shows "exact_inv (s\<lparr>bw_sweeps := AList.update r (SweepRow k ks (map_of (bw_table s) k)) (bw_sweeps s)\<rparr>)" (is "exact_inv ?s")
proof (rule exact_frame [OF assms(1)])
  note old = exact_invD [OF assms(1)]
  show "k' \<in> tb_hydrated s" if "sweeping ?s k'" for k'
  proof -
    have "sweeping s k'" using that assms(2) by (auto simp: sweeping_def split: if_splits)
    then show ?thesis by (rule old(12))
  qed
  show "bw_flights s = []" using assms by (rule exclusive(2))
qed (use exact_invD [OF assms(1)] in \<open>auto simp: hydrating_def split: if_splits\<close>)

lemma calm_step_exact:
  assumes "exact_inv s" "counted_inv s" "holds_inv s"
  shows "exact_inv (calm_step s e)"
proof (cases "calm s e")
  case calm: True
  then show ?thesis
  proof (cases e)
    case (FlushBegin f today)
    with calm assms show ?thesis by (auto simp: calm_step_def counted_invD(1) intro!: budget_flush_begin_exact)
  next
    case (FlushEnd f written today)
    with calm assms show ?thesis by (auto simp: calm_step_def split: option.split intro!: budget_flush_end_exact)
  next
    case (SweepRead r ok)
    with assms(1) show ?thesis
      by (auto simp: calm_step_def split: option.split sweep.split intro!: sweep_read_exact sweep_next_exact intro: exclusive(2))
  next
    case (OtherWorker k i j)
    with calm show ?thesis by (simp add: calm_def)
  qed (use assms in \<open>auto simp: calm_step_def calm_def split: option.split turn.split sweep.split
    intro!: check_begin_exact hydrate_begin_exact read_usage_exact hydrate_end_exact check_end_exact check_cancel_exact record_turn_exact sweep_assign_exact\<close>)
qed (use assms in \<open>simp add: calm_step_def\<close>)

lemma tb_init_exact: "exact_inv (tb_init True n secs now earlier)"
  by (rule exact_invI)
    (auto simp: tb_init_def accounted_def in_table_def flying_def spent_def upserts_amount counter_of_def hydrating_def sweeping_def)

lemma calm_step_holds: "holds_inv s \<Longrightarrow> holds_inv (calm_step s e)" "counted_inv s \<Longrightarrow> counted_inv (calm_step s e)"
  by (simp_all add: calm_step_def budget_step_holds budget_step_counted)

interpretation calm_budget: invariant_machine "\<lambda>s. \<exists>n secs now earlier. usage_ok earlier \<and> s = tb_init True n secs now earlier"
  calm_step "\<lambda>s. holds_inv s \<and> counted_inv s \<and> exact_inv s"
  by unfold_locales (auto simp: calm_step_exact calm_step_holds intro: tb_init_holds tb_init_counted tb_init_exact)

section \<open>Lemmas: the ceiling and the month\<close>

lemma resolve_positive: "0 < resolve_org_token_budget answer"
  by (auto simp: resolve_org_token_budget_def parse_positive_int_def DEFAULT_TOKEN_BUDGET_MONTHLY_def split: budget_answer.split option.split)

lemma digits_value_snoc:
  "list_all is_decimal (xs @ [c]) \<Longrightarrow> digits_value b n (xs @ [c]) = Some (10 * foldl (\<lambda>n c. 10 * n + (int (of_char c) - 48)) n xs + (int (of_char c) - 48))"
  by (induction xs arbitrary: b n) auto

lemma digits_value_all:
  assumes "list_all is_decimal xs" "xs \<noteq> []"
  shows "digits_value b n xs = Some (foldl (\<lambda>n c. 10 * n + (int (of_char c) - 48)) n xs)"
  using assms by (cases xs rule: rev_cases) (auto simp: digits_value_snoc)

lemma nat_str_value: "digits_value b 0 (nat_str n) = Some (int n)"
proof (induction n arbitrary: b rule: nat_str.induct)
  case (1 n)
  show ?case
  proof (cases "n < 10")
    case True
    then show ?thesis by (simp add: nat_str_short is_decimal_def)
  next
    case False
    have val: "foldl (\<lambda>n c. 10 * n + (int (of_char c) - 48)) 0 (nat_str (n div 10)) = int (n div 10)"
      using "1.IH" [OF False, of b] digits_value_all [OF nat_str_decimal nat_str_nonempty, of b 0 "n div 10"] by simp
    have c: "int (of_char (char_of (48 + n mod 10) :: char)) = int (48 + n mod 10)" by simp
    have "digits_value b 0 (nat_str (n div 10) @ [char_of (48 + n mod 10)]) = Some (10 * int (n div 10) + int (n mod 10))"
      by (subst digits_value_snoc) (use nat_str_decimal [of n] False val in \<open>auto simp: nat_str_long\<close>)
    also have "10 * int (n div 10) + int (n mod 10) = int n" by presburger
    finally show ?thesis using False by (simp add: nat_str_long)
  qed
qed

text \<open>A positive column is the ceiling.\<close>

lemma column_is_ceiling:
  assumes "0 < n"
  shows "resolve_org_token_budget (BudgetColumn (Some (int_str n))) = n"
proof -
  have str: "int_str n = nat_str (nat n)" using assms by (simp add: int_str_def)
  have "\<not> is_space c" "c \<noteq> CHR ''-''" "c \<noteq> CHR ''+''" if "c \<in> set (nat_str (nat n))" for c
    using nat_str_chars [OF that] by (auto simp: is_space_def)
  then have "int_of_text (int_str n) = Some n"
    using nat_str_value [of False "nat n"] nat_str_nonempty [of "nat n"] assms
    by (auto simp: int_of_text_def str strip_plain split: list.split)
  with assms show ?thesis by (simp add: resolve_org_token_budget_def parse_positive_int_def)
qed

section \<open>Properties\<close>

text \<open>C12: the agent's budget holds. In every interleaving of turns, hydrations, cancellations, flushes (failing ones
  included) and reconciliations of a single worker whose reads of the table succeed and whose reconciliations do not
  overlap with another flush, a turn is granted only if all the tokens the organisation has used in the month, plus the
  estimates of all its turns in flight including this one, are within the organisation's ceiling.\<close>

theorem granted_within_budget:
  assumes "usage_ok earlier" "s = run_steps calm_step (tb_init True n secs now earlier) es"
    "map_of (bw_turns s) t = Some (Resolving k est)" "map_of (bw_turns (budget_step s (Ceiling t answer))) t = Some (TurnReserved rv)"
  shows "spent Input s k + spent Output s k + holds s k \<le> resolve_org_token_budget answer"
proof -
  have inv: "holds_inv s" "counted_inv s" "exact_inv s" using calm_budget.run_inv [of "tb_init True n secs now earlier" es] assms(1,2) by blast+
  have "turn_ok (Resolving k est)" using inv(1) assms(3) by (rule holds_invD(3))
  then have k: "k \<in> tb_hydrated s" using inv assms(3) by (intro reserved_hydrated [of s t]) (auto simp: hold_def turn_ok_def)
  from assms(3,4) have "counter_total (counter_of s k) \<le> resolve_org_token_budget answer"
    by (auto simp: check_end_def Let_def split: if_splits)
  with exact_invD(2,3) [OF inv(3)] k holds_invD(4) [OF inv(1)] show ?thesis
    by (simp add: counter_total_def) (metis committed_def side.simps(3,4))
qed

text \<open>the budget refuses a turn only with cause. In every interleaving, with other workers, failing reads and
  overlapping flushes, when a turn is refused then the tokens that the organisation has used in the month plus the
  estimates of its turns in flight do exceed its ceiling: no usage is counted twice.\<close>

theorem refusals_have_cause:
  assumes "usage_ok earlier" "s = run_steps budget_step (tb_init pool n secs now earlier) es"
    "map_of (bw_turns s) t = Some (Resolving k est)" "map_of (bw_turns (budget_step s (Ceiling t answer))) t = Some TurnRefused"
  shows "resolve_org_token_budget answer < spent Input s k + spent Output s k + holds s k"
proof -
  have inv: "holds_inv s" "counted_inv s" using budget.run_inv [of "tb_init pool n secs now earlier" es] assms(1,2) by blast+
  from assms(3,4) have "resolve_org_token_budget answer < counter_total (counter_of s k)"
    by (auto simp: check_end_def Let_def split: if_splits)
  moreover have "committed d (counter_of s k) \<le> spent d s k" for d using counted_invD(6,7) [OF inv(2), of d k] by linarith
  from this [of Input] this [of Output] have "counter_total (counter_of s k) \<le> spent Input s k + spent Output s k + holds s k"
    using holds_invD(4) [OF inv(1), of k] by (simp add: counter_total_def committed_def)
  ultimately show ?thesis by linarith
qed

text \<open>Usage is never lost to the table: in those calm interleavings, when nothing is left to flush and no flush is
  under way, the table has exactly the usage recorded.\<close>

theorem flushed_table_exact:
  assumes "usage_ok earlier" "s = run_steps calm_step (tb_init True n secs now earlier) es"
    "bw_flights s = []" "pending_of (tb_counters s) = []"
  shows "in_table d s k = spent d s k"
proof -
  have inv: "counted_inv s" "exact_inv s" using calm_budget.run_inv [of "tb_init True n secs now earlier" es] assms(1,2) by blast+
  have "unflushed d (counter_of s k) = 0" using pending_Nil [OF counted_invD(1) [OF inv(1)] assms(4)] by (simp add: counter_of_look)
  with exact_invD(2) [OF inv(2), of d k] assms(3) show ?thesis by (simp add: accounted_def flying_def)
qed

section \<open>Witnesses, and two interleavings that break the accounting\<close>

definition demo_turn :: "nat \<Rightarrow> budget_event list" where
  "demo_turn t = [Check t (Some ''org'') [] (2026, 1, 31), AcquireLock t, ReadUsage t True, Hydrate t]"

definition demo_events :: "budget_event list" where
  "demo_events = demo_turn 0 @ [Ceiling 0 (BudgetColumn (Some ''5000'')), RecordTurn 0 500 200 0 0] @ demo_turn 1"

theorem granted_within_budget_witness:
  "spent Input (run_steps calm_step (tb_init True 25 30 0 []) demo_events) (''org'', ''202601'') = 500 \<and>
   700 + holds (run_steps calm_step (tb_init True 25 30 0 []) demo_events) (''org'', ''202601'') \<le> 5000"
proof -
  let ?s = "run_steps calm_step (tb_init True 25 30 0 []) demo_events"
  have "map_of (bw_turns ?s) 1 = Some (Resolving (''org'', ''202601'') 4096)" by code_simp
  moreover have "map_of (bw_turns (budget_step ?s (Ceiling 1 (BudgetColumn (Some ''5000''))))) 1 =
      Some (TurnReserved \<lparr>rv_organization_id = Some ''org'', rv_period_yyyymm = ''202601'', rv_est_tokens = 4096\<rparr>)" by code_simp
  ultimately have "spent Input ?s (''org'', ''202601'') + spent Output ?s (''org'', ''202601'') + holds ?s (''org'', ''202601'') \<le>
      resolve_org_token_budget (BudgetColumn (Some ''5000''))"
    by (intro granted_within_budget [of "[]" ?s 25 30 0 demo_events 1]) (simp_all add: usage_ok_def)
  moreover have "spent Input ?s (''org'', ''202601'') = 500" by code_simp
  moreover have "spent Output ?s (''org'', ''202601'') = 200" by code_simp
  moreover have "resolve_org_token_budget (BudgetColumn (Some ''5000'')) = 5000" by code_simp
  ultimately show ?thesis by simp
qed

theorem refusals_have_cause_witness:
  "4700 < 700 + holds (run_steps budget_step (tb_init True 25 30 0 []) demo_events) (''org'', ''202601'')"
proof -
  let ?s = "run_steps budget_step (tb_init True 25 30 0 []) demo_events"
  have "map_of (bw_turns ?s) 1 = Some (Resolving (''org'', ''202601'') 4096)" by code_simp
  moreover have "map_of (bw_turns (budget_step ?s (Ceiling 1 (BudgetColumn (Some ''4700''))))) 1 = Some TurnRefused" by code_simp
  ultimately have "resolve_org_token_budget (BudgetColumn (Some ''4700'')) <
      spent Input ?s (''org'', ''202601'') + spent Output ?s (''org'', ''202601'') + holds ?s (''org'', ''202601'')"
    by (intro refusals_have_cause [of "[]" ?s True 25 30 0 demo_events 1]) (simp_all add: usage_ok_def)
  moreover have "spent Input ?s (''org'', ''202601'') + spent Output ?s (''org'', ''202601'') = 700" by code_simp
  moreover have "resolve_org_token_budget (BudgetColumn (Some ''4700'')) = 4700" by code_simp
  ultimately show ?thesis by simp
qed

text \<open>A reconciliation that reads the table while the background flush is writing forgets the usage being written, and
  the next turn is granted although the month's usage and the turn are above the ceiling.\<close>

definition overlap_events :: "budget_event list" where
  "overlap_events = demo_turn 0 @ [Ceiling 0 (BudgetColumn (Some ''5000'')), RecordTurn 0 4000 900 0 0, FlushBegin Background (2026, 1, 31),
     FlushBegin (Reconciler 0) (2026, 1, 31), SweepRead 0 True, SweepAssign 0] @ demo_turn 1 @ [Ceiling 1 (BudgetColumn (Some ''5000''))]"

theorem reconcile_forgets_flight:
  "let s = run_steps budget_step (tb_init True 1 30 0 []) overlap_events
   in map_of (bw_turns s) 1 = Some (TurnReserved \<lparr>rv_organization_id = Some ''org'', rv_period_yyyymm = ''202601'', rv_est_tokens = 4096\<rparr>) \<and>
      spent Input s (''org'', ''202601'') + spent Output s (''org'', ''202601'') + holds s (''org'', ''202601'') = 8996"
  by code_simp

text \<open>A counter of the past month that is evicted while its usage is being written is not there when the write fails:
  the usage is in no counter and not in the table.\<close>

definition evicted_events :: "budget_event list" where
  "evicted_events = demo_turn 0 @ [Ceiling 0 (BudgetColumn (Some ''5000'')), RecordTurn 0 4000 900 0 0, FlushBegin Background (2026, 1, 31),
     FlushBegin (Reconciler 0) (2026, 2, 1), FlushEnd Background False (2026, 2, 1)]"

theorem eviction_loses_usage:
  "let s = run_steps budget_step (tb_init True 1 30 0 []) evicted_events
   in spent Input s (''org'', ''202601'') = 4000 \<and> accounted Input s (''org'', ''202601'') = 0 \<and> bw_flights s = []"
  by code_simp

end
