(* ===== verification/Rfid_Authorization.thy ===== *)
theory Rfid_Authorization
  imports Interfaces
begin

text \<open>
  Authorisation of cards and tags at the chargers (\<open>src/src/websocket_handler/rfid_authorization.py\<close>) with the
  statements it runs (\<open>timescale_client.py\<close>): the lookup of a tag, the log of invalid attempts, the operator's
  overrides. The process-wide dictionaries and the two tables it writes are its state. A call is suspended while the
  database counts the attempts and again while it looks the tag up, so it is three steps (\<open>rfid_step\<close>), which interleave
  with those of other calls; \<open>authorize\<close> is the three without a break. The statements that follow the lookup and the
  update of the dictionaries at the end belong to the last step: they touch different parts of the state. A clock
  reading is a number of microseconds, also where the code uses \<open>time.time()\<close>. A database method that is
  missing or fails is a flag of the call, a lookup that raises one without tables; a table that does not exist is
  \<open>None\<close>. The order of an \<open>ORDER BY\<close> is a number of the row, its rank in the database's collation.
\<close>

section \<open>Model: tables and lookup\<close>

record id_vehicle_row =
  vr_id :: string
  vr_id_tag :: "string option"
  vr_status :: "string option"
  vr_site_id :: "string option"
  vr_rank :: int

record card_row =
  cr_id :: string
  cr_id_tag :: string
  cr_status :: string
  cr_site_id :: "string option"

record driver_row =
  dr_id :: string
  dr_status :: string
  dr_site_id :: "string option"
  dr_rank :: int

record id_tables =
  it_stations :: "(string \<times> string option) list option"
  it_vehicles :: "id_vehicle_row list option"
  it_cards :: "card_row list option"
  it_card_vehicles :: "(string \<times> string) list option"
  it_drivers :: "driver_row list option"
  it_card_drivers :: "(string \<times> string) list option"

record identity =
  id_vehicle_id :: "string option"
  id_depot_id :: "string option"
  id_driver_id :: "string option"
  id_card_id :: "string option"

text \<open>A comparison with \<open>NULL\<close> is not true. \<open>at_station\<close> is the subquery \<open>EXISTS\<close>.\<close>

definition sql_eq :: "'a option \<Rightarrow> 'a option \<Rightarrow> bool" where
  "sql_eq a b \<longleftrightarrow> a \<noteq> None \<and> a = b"

definition at_station :: "(string \<times> string option) list \<Rightarrow> string \<Rightarrow> string option \<Rightarrow> bool" where
  "at_station stations station_id site \<longleftrightarrow> list_ex (\<lambda>c. fst c = station_id \<and> sql_eq (snd c) site) stations"

definition active_vehicle :: "id_vehicle_row \<Rightarrow> bool" where
  "active_vehicle v \<longleftrightarrow> (case vr_status v of None \<Rightarrow> True | Some st \<Rightarrow> st = ''active'')"

definition tag_vehicles :: "(string \<times> string option) list \<Rightarrow> id_vehicle_row list \<Rightarrow> string \<Rightarrow> string \<Rightarrow> id_vehicle_row list" where
  "tag_vehicles stations vehicles id_tag station_id =
     filter (\<lambda>v. sql_eq (vr_id_tag v) (Some id_tag) \<and> active_vehicle v \<and> at_station stations station_id (vr_site_id v)) vehicles"

definition tag_cards :: "(string \<times> string option) list \<Rightarrow> card_row list \<Rightarrow> string \<Rightarrow> string \<Rightarrow> card_row list" where
  "tag_cards stations cards id_tag station_id =
     filter (\<lambda>c. cr_id_tag c = id_tag \<and> cr_status c = ''active'' \<and> at_station stations station_id (cr_site_id c)) cards"

text \<open>\<open>ORDER BY\<close> a rank and \<open>LIMIT 1\<close>.\<close>

definition first_by :: "('a \<Rightarrow> int) \<Rightarrow> 'a list \<Rightarrow> 'a option" where
  "first_by rank rows = (case sort_key rank rows of [] \<Rightarrow> None | r # _ \<Rightarrow> Some r)"

definition lookup_card_vehicle_assignment :: "id_tables \<Rightarrow> string \<Rightarrow> string option \<Rightarrow> string option" where
  "lookup_card_vehicle_assignment tabs card_id depot_id =
     (case (it_card_vehicles tabs, it_vehicles tabs) of
        (Some cvs, Some vehicles) \<Rightarrow>
          map_option vr_id (first_by vr_rank
            (filter (\<lambda>v. (card_id, vr_id v) \<in> set cvs \<and> sql_eq (vr_site_id v) depot_id \<and> active_vehicle v) vehicles))
      | _ \<Rightarrow> None)"

definition lookup_card_driver_assignment :: "id_tables \<Rightarrow> string \<Rightarrow> string option \<Rightarrow> string option" where
  "lookup_card_driver_assignment tabs card_id depot_id =
     (case (it_card_drivers tabs, it_drivers tabs) of
        (Some cds, Some drivers) \<Rightarrow>
          map_option dr_id (first_by dr_rank
            (filter (\<lambda>d. (card_id, dr_id d) \<in> set cds \<and> sql_eq (dr_site_id d) depot_id \<and> dr_status d = ''active'') drivers))
      | _ \<Rightarrow> None)"

text \<open>The lookup at a station. Without \<open>vehicles\<close> it goes on to the cards; \<open>LIMIT 2\<close> tells one row from several.\<close>

definition lookup_card :: "id_tables \<Rightarrow> string \<Rightarrow> string \<Rightarrow> identity option" where
  "lookup_card tabs id_tag station_id =
     (case (it_stations tabs, it_cards tabs) of
        (Some stations, Some cards) \<Rightarrow>
          (case take 2 (tag_cards stations cards id_tag station_id) of
             [c] \<Rightarrow> Some \<lparr>id_vehicle_id = lookup_card_vehicle_assignment tabs (cr_id c) (cr_site_id c), id_depot_id = cr_site_id c,
                      id_driver_id = lookup_card_driver_assignment tabs (cr_id c) (cr_site_id c), id_card_id = Some (cr_id c)\<rparr>
           | _ \<Rightarrow> None)
      | _ \<Rightarrow> None)"

definition lookup_id_tag :: "id_tables \<Rightarrow> string \<Rightarrow> string \<Rightarrow> identity option" where
  "lookup_id_tag tabs id_tag station_id =
     (case (it_stations tabs, it_vehicles tabs) of
        (Some stations, Some vehicles) \<Rightarrow>
          (case take 2 (tag_vehicles stations vehicles id_tag station_id) of
             [] \<Rightarrow> lookup_card tabs id_tag station_id
           | [v] \<Rightarrow> Some \<lparr>id_vehicle_id = Some (vr_id v), id_depot_id = vr_site_id v, id_driver_id = None, id_card_id = None\<rparr>
           | _ \<Rightarrow> None)
      | _ \<Rightarrow> lookup_card tabs id_tag station_id)"

section \<open>Model: security events and overrides\<close>

datatype rfid_event = rfid_authorization_invalid | rfid_authorization_recovered

record security_event =
  se_station_id :: string
  se_event_type :: rfid_event
  se_timestamp :: dtime
  se_id_tag :: string

definition count_recent_invalid_rfid_attempts :: "dtime \<Rightarrow> string \<Rightarrow> string \<Rightarrow> int \<Rightarrow> security_event list \<Rightarrow> int" where
  "count_recent_invalid_rfid_attempts now station_id id_tag window_seconds events =
     int (length (filter (\<lambda>e. se_station_id e = station_id \<and> se_event_type e = rfid_authorization_invalid \<and>
       now - window_seconds * usec_per_sec \<le> se_timestamp e \<and> se_id_tag e = id_tag) events))"

definition record_invalid_rfid_attempt :: "dtime \<Rightarrow> string \<Rightarrow> string \<Rightarrow> security_event list \<Rightarrow> security_event list" where
  "record_invalid_rfid_attempt now station_id id_tag events =
     events @ [\<lparr>se_station_id = station_id, se_event_type = rfid_authorization_invalid, se_timestamp = now, se_id_tag = id_tag\<rparr>]"

definition clear_invalid_rfid_attempts :: "dtime \<Rightarrow> string \<Rightarrow> string \<Rightarrow> security_event list \<Rightarrow> security_event list" where
  "clear_invalid_rfid_attempts now station_id id_tag events =
     (if count_recent_invalid_rfid_attempts now station_id id_tag 300 events = 0 then events
      else events @ [\<lparr>se_station_id = station_id, se_event_type = rfid_authorization_recovered, se_timestamp = now, se_id_tag = id_tag\<rparr>])"

record override_row =
  ov_id :: string
  ov_station_id :: string
  ov_id_tag :: string
  ov_depot_id :: string
  ov_expires_at :: dtime
  ov_consumed_at :: "dtime option"

definition claimable :: "dtime \<Rightarrow> string \<Rightarrow> string \<Rightarrow> override_row \<Rightarrow> bool" where
  "claimable now station_id id_tag r \<longleftrightarrow>
     ov_station_id r = station_id \<and> ov_id_tag r = id_tag \<and> ov_consumed_at r = None \<and> ov_expires_at r > now"

definition reusable :: "dtime \<Rightarrow> string \<Rightarrow> string \<Rightarrow> override_row \<Rightarrow> bool" where
  "reusable now station_id id_tag r \<longleftrightarrow>
     ov_station_id r = station_id \<and> ov_id_tag r = id_tag \<and>
     (case ov_consumed_at r of None \<Rightarrow> False | Some c \<Rightarrow> c > now - 120 * usec_per_sec)"

text \<open>The statement claims every row that qualifies; only when there is none does it look for one to reuse.\<close>

definition consume_operator_override :: "dtime \<Rightarrow> string \<Rightarrow> string \<Rightarrow> override_row list \<Rightarrow> override_row option \<times> override_row list" where
  "consume_operator_override now station_id id_tag rows =
     (let claim = (\<lambda>r. r\<lparr>ov_consumed_at := Some now\<rparr>)
      in case updated_row (claimable now station_id id_tag) claim rows of
           Some r \<Rightarrow> (Some r, update_where (claimable now station_id id_tag) claim rows)
         | None \<Rightarrow> (List.find (reusable now station_id id_tag) rows, rows))"

section \<open>Model: the service\<close>

definition INVALID_ATTEMPT_THRESHOLD :: int where "INVALID_ATTEMPT_THRESHOLD = 8"
definition INVALID_ATTEMPT_WINDOW_S :: int where "INVALID_ATTEMPT_WINDOW_S = 60"
definition THROTTLE_DURATION_S :: int where "THROTTLE_DURATION_S = 120"

datatype RFIDAuthStatus = ACCEPTED | INVALID | EXPIRED | BLOCKED | CONCURRENT_TX

definition map_auth_status_to_ocpp201 :: "RFIDAuthStatus \<Rightarrow> string" where
  "map_auth_status_to_ocpp201 status =
     (case status of ACCEPTED \<Rightarrow> ''Accepted'' | EXPIRED \<Rightarrow> ''Expired'' | BLOCKED \<Rightarrow> ''Blocked''
      | CONCURRENT_TX \<Rightarrow> ''ConcurrentTx'' | INVALID \<Rightarrow> ''Invalid'')"

datatype auth_reason =
  missing_id_tag | too_many_invalid_attempts | operator_override | lookup_error | unknown_id_tag | identity_matched

record RFIDAuthDecision =
  ad_status :: RFIDAuthStatus
  ad_source :: string
  ad_reason :: auth_reason
  ad_vehicle_id :: "string option"
  ad_driver_id :: "string option"
  ad_card_id :: "string option"
  ad_depot_id :: "string option"

type_synonym rfid_key = "string \<times> string"

text \<open>A suspended call: what it was called with, its clock reading, and whether it has passed the throttle. They are the frames
  of the coroutines, not a variable of the code.\<close>

record pending_call =
  pc_station :: string
  pc_tag :: string
  pc_source :: string
  pc_now :: dtime
  pc_passed :: bool

record rfid_state =
  rf_invalid_attempts :: "(rfid_key, dtime list) pydict"
  rf_throttled_until :: "(rfid_key, dtime) pydict"
  rf_recovery_logged :: "rfid_key set"
  rf_pending_recovery_audit :: "rfid_key set"
  rf_security_events :: "security_event list"
  rf_overrides :: "override_row list"
  rf_calls :: "(nat, pending_call) pydict"

text \<open>What a call meets: its two clock readings, the tables, and which methods of the client work.\<close>

record auth_env =
  ae_now :: dtime
  ae_later :: dtime
  ae_tables :: "id_tables option"
  ae_count_works :: bool
  ae_override_works :: bool
  ae_record_works :: bool
  ae_clear_works :: bool

definition window_usec :: int where "window_usec = INVALID_ATTEMPT_WINDOW_S * usec_per_sec"

definition fresh_attempts :: "dtime \<Rightarrow> dtime list \<Rightarrow> dtime list" where
  "fresh_attempts now timestamps = filter (\<lambda>ts. now - ts \<le> window_usec) timestamps"

definition prune_in_memory_state :: "dtime \<Rightarrow> rfid_state \<Rightarrow> rfid_state" where
  "prune_in_memory_state now s =
     (let attempts = filter (\<lambda>e. snd e \<noteq> []) (map (map_prod id (fresh_attempts now)) (rf_invalid_attempts s));
          throttled = filter (\<lambda>e. snd e > now) (rf_throttled_until s);
          active_keys = keys attempts \<union> keys throttled
      in s\<lparr>rf_invalid_attempts := attempts, rf_throttled_until := throttled,
           rf_pending_recovery_audit := rf_pending_recovery_audit s \<inter> active_keys, rf_recovery_logged := {}\<rparr>)"

text \<open>What follows the count of the attempts: the time limit is read only then, and compared with the clock read before.\<close>

definition throttle_check :: "bool \<Rightarrow> dtime \<Rightarrow> dtime \<Rightarrow> string \<Rightarrow> string \<Rightarrow> rfid_state \<Rightarrow> bool" where
  "throttle_check count_works counted_at now station_id id_tag s \<longleftrightarrow>
     count_works \<and>
       count_recent_invalid_rfid_attempts counted_at station_id id_tag INVALID_ATTEMPT_WINDOW_S (rf_security_events s) \<ge> INVALID_ATTEMPT_THRESHOLD \<or>
     (case map_of (rf_throttled_until s) (station_id, id_tag) of None \<Rightarrow> False | Some expires_at \<Rightarrow> expires_at \<noteq> 0 \<and> expires_at > now)"

definition is_throttled :: "auth_env \<Rightarrow> string \<Rightarrow> string \<Rightarrow> rfid_state \<Rightarrow> bool \<times> rfid_state" where
  "is_throttled env station_id id_tag s =
     (let now = ae_now env; s1 = prune_in_memory_state now s
      in (throttle_check (ae_count_works env) now now station_id id_tag s1, s1))"

definition record_invalid_attempt :: "auth_env \<Rightarrow> string \<Rightarrow> string \<Rightarrow> rfid_state \<Rightarrow> rfid_state" where
  "record_invalid_attempt env station_id id_tag s =
     (let now = ae_later env; key = (station_id, id_tag);
          s1 = (if ae_record_works env
                then s\<lparr>rf_security_events := record_invalid_rfid_attempt now station_id id_tag (rf_security_events s)\<rparr> else s);
          s2 = prune_in_memory_state now s1;
          attempts = fresh_attempts now (case map_of (rf_invalid_attempts s2) key of None \<Rightarrow> [] | Some ts \<Rightarrow> ts) @ [now];
          s3 = s2\<lparr>rf_invalid_attempts := AList.update key attempts (rf_invalid_attempts s2)\<rparr>;
          s4 = (if int (length attempts) \<ge> INVALID_ATTEMPT_THRESHOLD
                then s3\<lparr>rf_throttled_until := AList.update key (now + THROTTLE_DURATION_S * usec_per_sec) (rf_throttled_until s3)\<rparr> else s3)
      in s4\<lparr>rf_recovery_logged := rf_recovery_logged s4 - {key},
            rf_pending_recovery_audit := insert key (rf_pending_recovery_audit s4)\<rparr>)"

definition denied :: "RFIDAuthStatus \<Rightarrow> string \<Rightarrow> auth_reason \<Rightarrow> RFIDAuthDecision" where
  "denied status source reason =
     \<lparr>ad_status = status, ad_source = source, ad_reason = reason, ad_vehicle_id = None, ad_driver_id = None, ad_card_id = None, ad_depot_id = None\<rparr>"

definition accept_identity :: "auth_env \<Rightarrow> string \<Rightarrow> string \<Rightarrow> rfid_state \<Rightarrow> rfid_state" where
  "accept_identity env station_id id_tag s =
     (let key = (station_id, id_tag);
          s1 = s\<lparr>rf_invalid_attempts := AList.delete key (rf_invalid_attempts s), rf_throttled_until := AList.delete key (rf_throttled_until s)\<rparr>
      in if key \<in> rf_recovery_logged s1 then s1
         else let s2 = (if key \<in> rf_pending_recovery_audit s1
                        then s1\<lparr>rf_security_events := (if ae_clear_works env
                                  then clear_invalid_rfid_attempts (ae_later env) station_id id_tag (rf_security_events s1) else rf_security_events s1),
                                rf_pending_recovery_audit := rf_pending_recovery_audit s1 - {key}\<rparr> else s1)
              in s2\<lparr>rf_recovery_logged := insert key (rf_recovery_logged s2)\<rparr>)"

text \<open>A call from its lookup to its end.\<close>

definition authorize_end :: "auth_env \<Rightarrow> string \<Rightarrow> string \<Rightarrow> string \<Rightarrow> rfid_state \<Rightarrow> RFIDAuthDecision \<times> rfid_state" where
  "authorize_end env station_id id_tag source s1 =
     (case Option.bind (ae_tables env) (\<lambda>tabs. lookup_id_tag tabs id_tag station_id) of
        Some row \<Rightarrow>
          (\<lparr>ad_status = ACCEPTED, ad_source = source, ad_reason = identity_matched, ad_vehicle_id = id_vehicle_id row,
            ad_driver_id = id_driver_id row, ad_card_id = id_card_id row, ad_depot_id = id_depot_id row\<rparr>,
           accept_identity env station_id id_tag s1)
      | None \<Rightarrow>
          (let (override, rows) = (if ae_override_works env then consume_operator_override (ae_later env) station_id id_tag (rf_overrides s1)
                                   else (None, rf_overrides s1));
               s2 = s1\<lparr>rf_overrides := rows\<rparr>
           in case override of
                Some r \<Rightarrow>
                  (\<lparr>ad_status = ACCEPTED, ad_source = source, ad_reason = operator_override, ad_vehicle_id = None, ad_driver_id = None,
                    ad_card_id = None, ad_depot_id = Some (ov_depot_id r)\<rparr>, s2)
              | None \<Rightarrow>
                  if ae_tables env = None then (denied INVALID source lookup_error, s2)
                  else (denied INVALID source unknown_id_tag, record_invalid_attempt env station_id id_tag s2)))"

definition authorize :: "auth_env \<Rightarrow> string \<Rightarrow> string \<Rightarrow> string \<Rightarrow> rfid_state \<Rightarrow> RFIDAuthDecision \<times> rfid_state" where
  "authorize env station_id id_tag source s =
     (if strip id_tag = [] then (denied INVALID source missing_id_tag, s)
      else let (throttled, s1) = is_throttled env station_id id_tag s
      in if throttled then (denied BLOCKED source too_many_invalid_attempts, s1)
      else authorize_end env station_id id_tag source s1)"

section \<open>Model: interleaved calls\<close>

text \<open>The steps of the calls, each with a number, and the operator's overrides that the API inserts meanwhile. A call begins
  (\<open>BeginAuth\<close>, up to the count of the attempts), is let through or blocked (\<open>CheckAuth\<close>, with the count's own clock) and
  ends (\<open>EndAuth\<close>).\<close>

datatype rfid_call =
    BeginAuth nat string string string dtime
  | CheckAuth nat bool dtime
  | EndAuth nat auth_env
  | Mint override_row

fun rfid_step :: "rfid_state \<Rightarrow> rfid_call \<Rightarrow> rfid_state" where
  "rfid_step s (BeginAuth n station_id id_tag source now) =
     (if strip id_tag = [] \<or> n \<in> keys (rf_calls s) then s
      else (prune_in_memory_state now s)\<lparr>rf_calls := AList.update n
             \<lparr>pc_station = station_id, pc_tag = id_tag, pc_source = source, pc_now = now, pc_passed = False\<rparr> (rf_calls s)\<rparr>)"
| "rfid_step s (CheckAuth n count_works counted_at) =
     (case map_of (rf_calls s) n of
        None \<Rightarrow> s
      | Some p \<Rightarrow>
          if pc_passed p then s
          else if throttle_check count_works counted_at (pc_now p) (pc_station p) (pc_tag p) s
          then s\<lparr>rf_calls := AList.delete n (rf_calls s)\<rparr>
          else s\<lparr>rf_calls := AList.update n (p\<lparr>pc_passed := True\<rparr>) (rf_calls s)\<rparr>)"
| "rfid_step s (EndAuth n env) =
     (case map_of (rf_calls s) n of
        None \<Rightarrow> s
      | Some p \<Rightarrow>
          if \<not> pc_passed p then s
          else (snd (authorize_end env (pc_station p) (pc_tag p) (pc_source p) s))\<lparr>rf_calls := AList.delete n (rf_calls s)\<rparr>)"
| "rfid_step s (Mint r) = s\<lparr>rf_overrides := rf_overrides s @ [r\<lparr>ov_consumed_at := None\<rparr>]\<rparr>"

text \<open>A call without a break.\<close>

definition whole_call :: "nat \<Rightarrow> auth_env \<Rightarrow> string \<Rightarrow> string \<Rightarrow> string \<Rightarrow> rfid_call list" where
  "whole_call n env station_id id_tag source =
     [BeginAuth n station_id id_tag source (ae_now env), CheckAuth n (ae_count_works env) (ae_now env), EndAuth n env]"

definition rf_init :: rfid_state where
  "rf_init = \<lparr>rf_invalid_attempts = [], rf_throttled_until = [], rf_recovery_logged = {}, rf_pending_recovery_audit = {},
     rf_security_events = [], rf_overrides = [], rf_calls = []\<rparr>"

section \<open>Lemmas: who is accepted\<close>

text \<open>Exactly one active vehicle, or exactly one active card, has the tag at the station's site.\<close>

definition at_site :: "(string \<times> string option) list \<Rightarrow> string \<Rightarrow> string option \<Rightarrow> bool" where
  "at_site stations station_id site \<longleftrightarrow> site \<noteq> None \<and> (station_id, site) \<in> set stations"

definition vehicle_entitled :: "(string \<times> string option) list \<Rightarrow> string \<Rightarrow> string \<Rightarrow> id_vehicle_row \<Rightarrow> bool" where
  "vehicle_entitled stations id_tag station_id v \<longleftrightarrow>
     vr_id_tag v = Some id_tag \<and> vr_status v \<in> {None, Some ''active''} \<and> at_site stations station_id (vr_site_id v)"

definition card_entitled :: "(string \<times> string option) list \<Rightarrow> string \<Rightarrow> string \<Rightarrow> card_row \<Rightarrow> bool" where
  "card_entitled stations id_tag station_id c \<longleftrightarrow>
     cr_id_tag c = id_tag \<and> cr_status c = ''active'' \<and> at_site stations station_id (cr_site_id c)"

definition entitled :: "id_tables \<Rightarrow> string \<Rightarrow> string \<Rightarrow> bool" where
  "entitled tabs id_tag station_id \<longleftrightarrow>
     (\<exists>stations. it_stations tabs = Some stations \<and>
       ((\<exists>vehicles. it_vehicles tabs = Some vehicles \<and> length (filter (vehicle_entitled stations id_tag station_id) vehicles) = 1) \<or>
        (\<exists>cards. it_cards tabs = Some cards \<and> length (filter (card_entitled stations id_tag station_id) cards) = 1)))"

lemma at_station_site: "at_station stations station_id site \<longleftrightarrow> at_site stations station_id site"
  by (auto simp: at_station_def at_site_def list_ex_iff sql_eq_def intro: bexI [where x = "(station_id, site)"])

lemma active_vehicle_iff: "active_vehicle v \<longleftrightarrow> vr_status v \<in> {None, Some ''active''}"
  by (cases "vr_status v") (simp_all add: active_vehicle_def)

lemma tag_rows:
  "tag_vehicles stations vehicles id_tag station_id = filter (vehicle_entitled stations id_tag station_id) vehicles"
  "tag_cards stations cards id_tag station_id = filter (card_entitled stations id_tag station_id) cards"
  unfolding tag_vehicles_def tag_cards_def at_station_site
  by (auto simp: vehicle_entitled_def card_entitled_def active_vehicle_iff sql_eq_def intro!: filter_cong)

lemma take_2_single: "take 2 xs = [x] \<longleftrightarrow> xs = [x]"
  by (cases xs; cases "tl xs") auto

lemma lookup_card_entitled: "lookup_card tabs id_tag station_id = Some row \<Longrightarrow> entitled tabs id_tag station_id"
  by (auto simp: lookup_card_def entitled_def take_2_single tag_rows split: option.splits list.splits)

lemma lookup_entitled: "lookup_id_tag tabs id_tag station_id = Some row \<Longrightarrow> entitled tabs id_tag station_id"
  by (auto simp: lookup_id_tag_def take_2_single tag_rows split: option.splits list.splits dest: lookup_card_entitled)
    (auto simp: entitled_def)

definition overrides_ok :: "rfid_state \<Rightarrow> bool" where
  "overrides_ok s \<longleftrightarrow> list_all (\<lambda>r. case ov_consumed_at r of None \<Rightarrow> True | Some c \<Rightarrow> c < ov_expires_at r) (rf_overrides s)"

lemma prune_frame [simp]:
  "rf_overrides (prune_in_memory_state now s) = rf_overrides s" "rf_security_events (prune_in_memory_state now s) = rf_security_events s"
  by (simp_all add: prune_in_memory_state_def Let_def)

lemma service_frame [simp]:
  "rf_overrides (record_invalid_attempt env station_id id_tag s) = rf_overrides s"
  "rf_overrides (accept_identity env station_id id_tag s) = rf_overrides s"
  "snd (is_throttled env station_id id_tag s) = prune_in_memory_state (ae_now env) s"
  by (simp_all add: record_invalid_attempt_def accept_identity_def is_throttled_def Let_def)

lemma consume_rows:
  "snd (consume_operator_override now station_id id_tag rows) =
     update_where (claimable now station_id id_tag) (\<lambda>r. r\<lparr>ov_consumed_at := Some now\<rparr>) rows"
  by (auto simp: consume_operator_override_def updated_row_def update_where_def Let_def find_None_iff split: option.split intro!: map_idI [symmetric])

lemma end_overrides:
  "rf_overrides (snd (authorize_end env station_id id_tag source s)) \<in>
     {rf_overrides s, snd (consume_operator_override (ae_later env) station_id id_tag (rf_overrides s))}"
  by (auto simp: authorize_end_def Let_def split: prod.splits option.splits if_splits)

lemma overrides_step: "overrides_ok s \<Longrightarrow> overrides_ok (rfid_step s e)"
proof (cases e)
  case (EndAuth n env)
  assume "overrides_ok s"
  moreover from this have "overrides_ok (s\<lparr>rf_overrides := snd (consume_operator_override now st tag (rf_overrides s))\<rparr>)" for now st tag
    by (auto simp: overrides_ok_def consume_rows update_where_def list_all_iff claimable_def)
  ultimately have "overrides_ok (snd (authorize_end env st tag src s))" for st tag src
    using end_overrides [of env st tag src s] by (auto simp: overrides_ok_def)
  with EndAuth \<open>overrides_ok s\<close> show ?thesis by (simp add: overrides_ok_def split: option.split)
qed (simp_all add: overrides_ok_def split: option.split)

interpretation overrides: invariant_machine "\<lambda>s. s = rf_init" rfid_step overrides_ok
proof
  show "overrides_ok s" if "s = rf_init" for s using that by (simp add: rf_init_def overrides_ok_def)
qed (rule overrides_step)

lemma consumed_override:
  assumes "overrides_ok s" "fst (consume_operator_override now station_id id_tag (rf_overrides s)) = Some r"
  shows "\<exists>o'\<in>set (rf_overrides s). ov_station_id o' = station_id \<and> ov_id_tag o' = id_tag \<and> now < ov_expires_at o' + 120 * usec_per_sec"
proof (cases "List.find (claimable now station_id id_tag) (rf_overrides s)")
  case None
  with assms(2) have "r \<in> set (rf_overrides s)" "reusable now station_id id_tag r"
    by (auto simp: consume_operator_override_def updated_row_def find_Some_iff)
  with assms(1) show ?thesis by (fastforce simp: reusable_def overrides_ok_def list_all_iff split: option.splits)
next
  case (Some o')
  then have "o' \<in> set (rf_overrides s)" "claimable now station_id id_tag o'" by (auto simp: find_Some_iff)
  then show ?thesis by (auto simp: claimable_def intro!: bexI [of _ o'] intro: less_trans)
qed

lemma end_accepted_cases:
  assumes "ad_status (fst (authorize_end env station_id id_tag source s)) = ACCEPTED"
  shows "(\<exists>tabs row. ae_tables env = Some tabs \<and> lookup_id_tag tabs id_tag station_id = Some row) \<or>
    (\<exists>r. fst (consume_operator_override (ae_later env) station_id id_tag (rf_overrides s)) = Some r)"
  using assms by (auto simp: authorize_end_def denied_def Let_def split: prod.splits option.splits if_splits Option.bind_splits)

lemma accepted_cases:
  assumes "ad_status (fst (authorize env station_id id_tag source s)) = ACCEPTED"
  shows "(\<exists>tabs row. ae_tables env = Some tabs \<and> lookup_id_tag tabs id_tag station_id = Some row) \<or>
    (\<exists>r. fst (consume_operator_override (ae_later env) station_id id_tag (rf_overrides s)) = Some r)"
  using assms end_accepted_cases [of env station_id id_tag source "prune_in_memory_state (ae_now env) s"]
  by (simp add: authorize_def denied_def is_throttled_def Let_def split: if_splits)

section \<open>Lemmas: the throttle\<close>

definition attempts_of :: "rfid_state \<Rightarrow> rfid_key \<Rightarrow> dtime list" where
  "attempts_of s k = (case map_of (rf_invalid_attempts s) k of None \<Rightarrow> [] | Some ts \<Rightarrow> ts)"

definition dicts_ok :: "rfid_state \<Rightarrow> bool" where
  "dicts_ok s \<longleftrightarrow> dict_ok (rf_invalid_attempts s) \<and> dict_ok (rf_throttled_until s) \<and> dict_ok (rf_calls s)"

lemma map_of_mapped: "map_of (map (map_prod id f) d) k = map_option f (map_of d k)"
  by (induction d) auto

lemma mapped_ok [simp]: "dict_ok (map (map_prod id f) d) = dict_ok d"
  by (simp add: dict_ok_def comp_def)

lemma prune_attempts: "dicts_ok s \<Longrightarrow> attempts_of (prune_in_memory_state now s) k = fresh_attempts now (attempts_of s k)"
  by (auto simp: attempts_of_def prune_in_memory_state_def Let_def dicts_ok_def map_of_filter map_of_mapped fresh_attempts_def split: option.split)

lemma prune_throttled: "dicts_ok s \<Longrightarrow> map_of (rf_throttled_until (prune_in_memory_state now s)) k =
  (case map_of (rf_throttled_until s) k of None \<Rightarrow> None | Some u \<Rightarrow> if u > now then Some u else None)"
  by (simp add: prune_in_memory_state_def Let_def dicts_ok_def map_of_filter cong: option.case_cong)

lemma prune_dicts_ok [simp]: "dicts_ok s \<Longrightarrow> dicts_ok (prune_in_memory_state now s)"
  by (simp add: prune_in_memory_state_def Let_def dicts_ok_def)

lemma fresh_fresh: "now \<le> later \<Longrightarrow> fresh_attempts later (fresh_attempts now ts) = fresh_attempts later ts"
  by (auto simp: fresh_attempts_def intro: filter_cong)

lemma update_frame [simp]:
  "attempts_of (s\<lparr>rf_overrides := rows\<rparr>) = attempts_of s" "attempts_of (s\<lparr>rf_security_events := es\<rparr>) = attempts_of s"
  "dicts_ok (s\<lparr>rf_overrides := rows\<rparr>) = dicts_ok s" "dicts_ok (s\<lparr>rf_security_events := es\<rparr>) = dicts_ok s"
  by (simp_all add: attempts_of_def dicts_ok_def fun_eq_iff)

lemma record_dicts:
  "rf_invalid_attempts (record_invalid_attempt env station_id id_tag s) =
     AList.update (station_id, id_tag) (fresh_attempts (ae_later env) (attempts_of (prune_in_memory_state (ae_later env) s) (station_id, id_tag)) @ [ae_later env])
       (rf_invalid_attempts (prune_in_memory_state (ae_later env) s))"
  "rf_throttled_until (record_invalid_attempt env station_id id_tag s) =
     (if 8 \<le> length (fresh_attempts (ae_later env) (attempts_of (prune_in_memory_state (ae_later env) s) (station_id, id_tag))) + 1
      then AList.update (station_id, id_tag) (ae_later env + 120 * usec_per_sec) (rf_throttled_until (prune_in_memory_state (ae_later env) s))
      else rf_throttled_until (prune_in_memory_state (ae_later env) s))"
proof -
  have "rf_invalid_attempts (prune_in_memory_state now (s\<lparr>rf_security_events := x\<rparr>)) = rf_invalid_attempts (prune_in_memory_state now s)"
    "rf_throttled_until (prune_in_memory_state now (s\<lparr>rf_security_events := x\<rparr>)) = rf_throttled_until (prune_in_memory_state now s)" for now x
    by (simp_all add: prune_in_memory_state_def Let_def)
  note [simp] = this
  show "rf_invalid_attempts (record_invalid_attempt env station_id id_tag s) =
     AList.update (station_id, id_tag) (fresh_attempts (ae_later env) (attempts_of (prune_in_memory_state (ae_later env) s) (station_id, id_tag)) @ [ae_later env])
       (rf_invalid_attempts (prune_in_memory_state (ae_later env) s))"
    by (cases "ae_record_works env") (simp_all add: record_invalid_attempt_def Let_def attempts_of_def)
  show "rf_throttled_until (record_invalid_attempt env station_id id_tag s) =
     (if 8 \<le> length (fresh_attempts (ae_later env) (attempts_of (prune_in_memory_state (ae_later env) s) (station_id, id_tag))) + 1
      then AList.update (station_id, id_tag) (ae_later env + 120 * usec_per_sec) (rf_throttled_until (prune_in_memory_state (ae_later env) s))
      else rf_throttled_until (prune_in_memory_state (ae_later env) s))"
    by (cases "ae_record_works env")
      (simp_all add: record_invalid_attempt_def Let_def attempts_of_def INVALID_ATTEMPT_THRESHOLD_def THROTTLE_DURATION_S_def)
qed

lemma calls_frame [simp]:
  "rf_calls (prune_in_memory_state now s) = rf_calls s" "rf_calls (record_invalid_attempt env station_id id_tag s) = rf_calls s"
  "rf_calls (accept_identity env station_id id_tag s) = rf_calls s"
  by (simp_all add: prune_in_memory_state_def record_invalid_attempt_def accept_identity_def Let_def)

lemma record_attempts:
  assumes "dicts_ok s"
  shows "attempts_of (record_invalid_attempt env station_id id_tag s) k =
      fresh_attempts (ae_later env) (attempts_of s k) @ (if k = (station_id, id_tag) then [ae_later env] else [])"
    "dicts_ok (record_invalid_attempt env station_id id_tag s)"
    "map_of (rf_throttled_until (record_invalid_attempt env station_id id_tag s)) k =
      (if k = (station_id, id_tag) \<and> 8 \<le> length (fresh_attempts (ae_later env) (attempts_of s k)) + 1
       then Some (ae_later env + 120 * usec_per_sec)
       else map_of (rf_throttled_until (prune_in_memory_state (ae_later env) s)) k)"
proof -
  have old: "fresh_attempts (ae_later env) (attempts_of (prune_in_memory_state (ae_later env) s) k') = fresh_attempts (ae_later env) (attempts_of s k')" for k'
    using assms by (simp add: prune_attempts fresh_fresh)
  show "attempts_of (record_invalid_attempt env station_id id_tag s) k =
      fresh_attempts (ae_later env) (attempts_of s k) @ (if k = (station_id, id_tag) then [ae_later env] else [])"
    using prune_attempts [OF assms, of "ae_later env" k] old by (auto simp: attempts_of_def record_dicts)
  show "dicts_ok (record_invalid_attempt env station_id id_tag s)"
    using prune_dicts_ok [OF assms, of "ae_later env"] by (simp add: dicts_ok_def record_dicts)
qed (auto simp: record_dicts prune_attempts [OF assms] fresh_fresh)

text \<open>The times at which a tag was looked up at a station and found to be unknown.\<close>

definition unknown_at :: "rfid_key \<Rightarrow> rfid_state \<Rightarrow> rfid_call \<Rightarrow> dtime list" where
  "unknown_at k s e =
     (case e of
        EndAuth n env \<Rightarrow>
          (case map_of (rf_calls s) n of
             None \<Rightarrow> []
           | Some p \<Rightarrow>
               if pc_passed p \<and> (pc_station p, pc_tag p) = k \<and>
                 ad_reason (fst (authorize_end env (pc_station p) (pc_tag p) (pc_source p) s)) = unknown_id_tag then [ae_later env] else [])
      | _ \<Rightarrow> [])"

fun unknown_times :: "rfid_key \<Rightarrow> rfid_state \<Rightarrow> rfid_call list \<Rightarrow> dtime list" where
  "unknown_times k s [] = []"
| "unknown_times k s (e # es) = unknown_at k s e @ unknown_times k (rfid_step s e) es"

text \<open>The clock does not go back.\<close>

fun calls_ordered :: "dtime \<Rightarrow> rfid_call list \<Rightarrow> bool" where
  "calls_ordered t [] = True"
| "calls_ordered t (BeginAuth n station_id id_tag source now # es) = (t \<le> now \<and> calls_ordered now es)"
| "calls_ordered t (EndAuth n env # es) = (t \<le> ae_later env \<and> calls_ordered (ae_later env) es)"
| "calls_ordered t (e # es) = calls_ordered t es"

definition stays_unknown :: "rfid_key \<Rightarrow> rfid_call \<Rightarrow> bool" where
  "stays_unknown k e = (case e of EndAuth n env \<Rightarrow> Option.bind (ae_tables env) (\<lambda>tabs. lookup_id_tag tabs (snd k) (fst k)) = None | _ \<Rightarrow> True)"

text \<open>The calls for a tag at a station that have passed the throttle and not ended, and that there are never more than \<open>K\<close>.\<close>

definition of_key :: "rfid_key \<Rightarrow> pending_call \<Rightarrow> bool" where
  "of_key k p \<longleftrightarrow> pc_passed p \<and> (pc_station p, pc_tag p) = k"

definition passed :: "rfid_key \<Rightarrow> rfid_state \<Rightarrow> nat" where
  "passed k s = length (filter (\<lambda>e. of_key k (snd e)) (rf_calls s))"

fun at_most_passed :: "nat \<Rightarrow> rfid_key \<Rightarrow> rfid_state \<Rightarrow> rfid_call list \<Rightarrow> bool" where
  "at_most_passed K k s [] \<longleftrightarrow> passed k s \<le> K"
| "at_most_passed K k s (e # es) \<longleftrightarrow> passed k s \<le> K \<and> at_most_passed K k (rfid_step s e) es"

lemma entries_absent: "n \<notin> keys d \<Longrightarrow> AList.delete n d = d \<and> AList.update n p d = d @ [(n, p)]"
  by (induction d) (auto simp: keys_def)

lemma entries_present:
  assumes "dict_ok d" "map_of d n = Some p"
  shows "length (filter (\<lambda>e. Q (snd e)) (AList.delete n d)) + (if Q p then 1 else 0) = length (filter (\<lambda>e. Q (snd e)) d)"
    "length (filter (\<lambda>e. Q (snd e)) (AList.update n p' d)) + (if Q p then 1 else 0) =
       length (filter (\<lambda>e. Q (snd e)) d) + (if Q p' then 1 else 0)"
proof -
  have "length (filter (\<lambda>e. Q (snd e)) (AList.delete n d)) + (if Q p then 1 else 0) = length (filter (\<lambda>e. Q (snd e)) d) \<and>
    length (filter (\<lambda>e. Q (snd e)) (AList.update n p' d)) + (if Q p then 1 else 0) = length (filter (\<lambda>e. Q (snd e)) d) + (if Q p' then 1 else 0)"
    using assms
  proof (induction d)
    case (Cons x d)
    show ?case
    proof (cases "fst x = n")
      case True
      then have "n \<notin> keys d" "snd x = p" using Cons.prems by (auto simp: dict_ok_def keys_def)
      with entries_absent [of n d p] True show ?thesis by (cases x) auto
    next
      case False
      with Cons show ?thesis by (cases x) (auto simp: dict_ok_def)
    qed
  qed simp
  then show "length (filter (\<lambda>e. Q (snd e)) (AList.delete n d)) + (if Q p then 1 else 0) = length (filter (\<lambda>e. Q (snd e)) d)"
    "length (filter (\<lambda>e. Q (snd e)) (AList.update n p' d)) + (if Q p then 1 else 0) =
       length (filter (\<lambda>e. Q (snd e)) d) + (if Q p' then 1 else 0)" by simp_all
qed

lemma passed_calls_cong: "rf_calls s' = rf_calls s \<Longrightarrow> passed k s' = passed k s"
  by (simp add: passed_def)

definition in_span :: "dtime \<Rightarrow> dtime list \<Rightarrow> nat" where
  "in_span T xs = length (filter (\<lambda>x. T - window_usec \<le> x \<and> x \<le> T) xs)"

text \<open>The attempts of the last minute and the calls that may still add one stay below \<open>7 + K\<close>; the eighth attempt in a minute
  has set the time limit.\<close>

definition calls_before :: "rfid_state \<Rightarrow> dtime \<Rightarrow> bool" where
  "calls_before s t \<longleftrightarrow> (\<forall>e\<in>set (rf_calls s). pc_now (snd e) \<le> t)"

definition limit_set :: "rfid_key \<Rightarrow> rfid_state \<Rightarrow> dtime list \<Rightarrow> dtime \<Rightarrow> bool" where
  "limit_set k s H t \<longleftrightarrow>
     (H \<noteq> [] \<longrightarrow> 8 \<le> in_span (last H) H \<longrightarrow>
        (\<exists>u. map_of (rf_throttled_until s) k = Some u \<and> last H + 120 * usec_per_sec \<le> u) \<or> last H + 120 * usec_per_sec \<le> t)"

definition throttle_inv :: "nat \<Rightarrow> rfid_key \<Rightarrow> rfid_state \<Rightarrow> dtime list \<Rightarrow> dtime \<Rightarrow> bool" where
  "throttle_inv K k s H t \<longleftrightarrow> dicts_ok s \<and> calls_before s t \<and> 0 \<le> t \<and> sorted H \<and> (\<forall>x\<in>set H. 0 \<le> x \<and> x \<le> t) \<and>
     (\<exists>u\<le>t. attempts_of s k = fresh_attempts u H) \<and> (\<forall>T. in_span T H \<le> 7 + K) \<and>
     length (fresh_attempts t H) + passed k s \<le> 7 + K \<and> limit_set k s H t"

lemma fresh_antimono: "t \<le> t' \<Longrightarrow> length (fresh_attempts t' H) \<le> length (fresh_attempts t H)"
  using fresh_fresh [of t t' H] by (metis fresh_attempts_def length_filter_le)

lemma throttle_same:
  assumes inv: "throttle_inv K k s H t" and "t \<le> t'" "dicts_ok s'" "calls_before s' t'" "attempts_of s' k = attempts_of s k"
    "map_of (rf_throttled_until s') k = map_of (rf_throttled_until s) k" "passed k s' \<le> passed k s"
  shows "throttle_inv K k s' H t'"
proof -
  have "length (fresh_attempts t' H) + passed k s' \<le> length (fresh_attempts t H) + passed k s"
    using fresh_antimono [OF assms(2)] assms(7) by (rule add_mono)
  moreover have "limit_set k s' H t'" using inv assms(2,6) by (auto simp: throttle_inv_def limit_set_def)
  moreover have "\<exists>u\<le>t'. attempts_of s' k = fresh_attempts u H" using inv assms(2,5) unfolding throttle_inv_def by (metis order_trans)
  moreover have "0 \<le> t'" "sorted H" "\<forall>x\<in>set H. 0 \<le> x \<and> x \<le> t'" "\<forall>T. in_span T H \<le> 7 + K"
    "length (fresh_attempts t H) + passed k s \<le> 7 + K" using inv assms(2) by (auto simp: throttle_inv_def)
  ultimately show ?thesis using assms(3,4) unfolding throttle_inv_def by (metis order_trans)
qed

lemma throttle_prune:
  assumes inv: "throttle_inv K k s H t" and "t \<le> now" "dicts_ok s'" "calls_before s' now"
    and att: "attempts_of s' k = fresh_attempts now (attempts_of s k)"
    and thr: "map_of (rf_throttled_until s') k = map_of (rf_throttled_until (prune_in_memory_state now s)) k"
    and "passed k s' \<le> passed k s"
  shows "throttle_inv K k s' H now"
proof -
  obtain u where u: "u \<le> t" "attempts_of s k = fresh_attempts u H" using inv by (auto simp: throttle_inv_def)
  have "attempts_of s' k = fresh_attempts now H" using att u assms(2) by (simp add: fresh_fresh)
  moreover have "limit_set k s' H now"
    using inv assms(2) unfolding throttle_inv_def limit_set_def thr by (auto simp: prune_throttled)
  moreover have "length (fresh_attempts now H) + passed k s' \<le> length (fresh_attempts t H) + passed k s"
    using fresh_antimono [OF assms(2)] assms(7) by (rule add_mono)
  moreover have "0 \<le> now" "sorted H" "\<forall>x\<in>set H. 0 \<le> x \<and> x \<le> now" "\<forall>T. in_span T H \<le> 7 + K"
    "length (fresh_attempts t H) + passed k s \<le> 7 + K" using inv assms(2) by (auto simp: throttle_inv_def)
  ultimately show ?thesis using assms(3,4) unfolding throttle_inv_def by (metis order_refl order_trans)
qed

lemma in_span_snoc:
  assumes "\<forall>x\<in>set H. x \<le> t"
  shows "in_span t (H @ [t]) = length (fresh_attempts t H) + 1"
proof -
  have "filter (\<lambda>x. t - window_usec \<le> x \<and> x \<le> t) H = fresh_attempts t H"
    unfolding fresh_attempts_def using assms by (intro filter_cong) auto
  moreover have "0 \<le> window_usec" by (simp add: window_usec_def INVALID_ATTEMPT_WINDOW_S_def usec_values)
  ultimately show ?thesis by (simp add: in_span_def)
qed

lemma in_span_le_fresh:
  assumes "\<forall>x\<in>set H. x \<le> t"
  shows "in_span T (H @ [t]) \<le> (if T < t then in_span T H else in_span t (H @ [t]))"
proof (cases "T < t")
  case False
  have "filter (\<lambda>x. T - window_usec \<le> x \<and> x \<le> T) (H @ [t]) =
      filter (\<lambda>x. T - window_usec \<le> x) (filter (\<lambda>x. t - window_usec \<le> x \<and> x \<le> t) (H @ [t]))"
    unfolding filter_filter using False assms by (intro filter_cong) auto
  then have "in_span T (H @ [t]) \<le> in_span t (H @ [t])" unfolding in_span_def by (metis length_filter_le)
  with False show ?thesis by simp
qed (simp add: in_span_def)

text \<open>A call that passes the throttle finds at most seven attempts in the last minute: the eighth stops every check for two minutes.\<close>

lemma throttle_free:
  assumes inv: "throttle_inv K k s H t" and free: "\<And>u. map_of (rf_throttled_until s) k = Some u \<Longrightarrow> u = 0 \<or> u \<le> t"
  shows "length (fresh_attempts t H) \<le> 7"
proof (rule ccontr)
  assume "\<not> ?thesis"
  then have many: "8 \<le> length (fresh_attempts t H)" by simp
  have le: "\<forall>x\<in>set H. 0 \<le> x \<and> x \<le> t" and srt: "sorted H" using inv by (auto simp: throttle_inv_def)
  from many have ne: "H \<noteq> []" "fresh_attempts t H \<noteq> []" by (auto simp: fresh_attempts_def)
  have last: "\<forall>x\<in>set H. x \<le> last H"
    using srt ne(1) by (metis append_butlast_last_id sorted_append set_append Un_iff list.set_intros(1) singletonD list.set(2) empty_set order_refl)
  have "last H \<le> t" using le ne(1) by simp
  then have "fresh_attempts t H = filter (\<lambda>x. t - x \<le> window_usec) (filter (\<lambda>x. last H - window_usec \<le> x \<and> x \<le> last H) H)"
    unfolding fresh_attempts_def filter_filter using last by (intro filter_cong) auto
  then have "8 \<le> in_span (last H) H" using many unfolding in_span_def by (metis length_filter_le order_trans)
  with inv ne have "(\<exists>u. map_of (rf_throttled_until s) k = Some u \<and> last H + 120 * usec_per_sec \<le> u) \<or> last H + 120 * usec_per_sec \<le> t"
    by (auto simp: throttle_inv_def limit_set_def)
  moreover have "0 \<le> last H" using le ne(1) by simp
  ultimately have "last H + 120 * usec_per_sec \<le> t" using free by (fastforce simp: usec_values)
  moreover obtain x where "x \<in> set H" "t - x \<le> window_usec" using ne(2) by (auto simp: fresh_attempts_def filter_empty_conv)
  ultimately show False using last by (fastforce simp: window_usec_def INVALID_ATTEMPT_WINDOW_S_def usec_values)
qed

text \<open>The end of a call that has passed turns one of the calls that may add an attempt into an attempt.\<close>

lemma throttle_record:
  assumes inv: "throttle_inv K k s H t" and t: "t \<le> ae_later env" and k: "k = (station_id, id_tag)"
    and s': "attempts_of s' = attempts_of (record_invalid_attempt env station_id id_tag s)" "dicts_ok s'" "calls_before s' (ae_later env)"
      "rf_throttled_until s' = rf_throttled_until (record_invalid_attempt env station_id id_tag s)" "passed k s' + 1 \<le> passed k s"
  shows "throttle_inv K k s' (H @ [ae_later env]) (ae_later env)"
proof -
  let ?t = "ae_later env"
  have ok: "dicts_ok s" and le: "\<forall>x\<in>set H. 0 \<le> x \<and> x \<le> ?t" and nn: "0 \<le> ?t" and srt: "sorted H" using inv t by (auto simp: throttle_inv_def)
  obtain u where u: "u \<le> t" "attempts_of s k = fresh_attempts u H" using inv by (auto simp: throttle_inv_def)
  have fresh: "fresh_attempts ?t (attempts_of s k) = fresh_attempts ?t H" using u t by (simp add: fresh_fresh)
  have self: "fresh_attempts ?t [?t] = [?t]" by (simp add: fresh_attempts_def window_usec_def INVALID_ATTEMPT_WINDOW_S_def usec_values)
  have app: "fresh_attempts ?t (H @ [?t]) = fresh_attempts ?t H @ [?t]" using self by (simp add: fresh_attempts_def)
  have att: "attempts_of s' k = fresh_attempts ?t (H @ [?t])"
    using record_attempts(1) [OF ok, of env station_id id_tag k] fresh s'(1) app by (simp add: k)
  have span: "in_span ?t (H @ [?t]) = length (fresh_attempts ?t H) + 1" using le by (intro in_span_snoc) auto
  have limit: "limit_set k s' (H @ [?t]) ?t"
    using record_attempts(3) [OF ok, of env station_id id_tag k] fresh s'(4) by (simp add: limit_set_def k span)
  have sum: "length (fresh_attempts ?t (H @ [?t])) + passed k s' \<le> 7 + K"
    using inv fresh_antimono [OF t, of H] s'(5) unfolding app throttle_inv_def by simp
  have "in_span T H \<le> 7 + K" for T using inv by (simp add: throttle_inv_def)
  then have "in_span T (H @ [?t]) \<le> 7 + K" for T
    using in_span_le_fresh [of H ?t T] le sum span app by (cases "T < ?t") (auto intro: order_trans)
  moreover have "sorted (H @ [?t])" using srt le by (simp add: sorted_append)
  ultimately show ?thesis unfolding throttle_inv_def using s'(2,3) nn le att sum limit by auto
qed

lemma end_outcome:
  obtains (other) rows where "snd (authorize_end env station_id id_tag source s) = s\<lparr>rf_overrides := rows\<rparr>"
    "ad_reason (fst (authorize_end env station_id id_tag source s)) \<noteq> unknown_id_tag"
  | (matched) "Option.bind (ae_tables env) (\<lambda>tabs. lookup_id_tag tabs id_tag station_id) \<noteq> None"
    "snd (authorize_end env station_id id_tag source s) = accept_identity env station_id id_tag s"
    "ad_reason (fst (authorize_end env station_id id_tag source s)) \<noteq> unknown_id_tag"
  | (unknown) rows where
    "snd (authorize_end env station_id id_tag source s) = record_invalid_attempt env station_id id_tag (s\<lparr>rf_overrides := rows\<rparr>)"
    "ad_reason (fst (authorize_end env station_id id_tag source s)) = unknown_id_tag"
proof (cases "Option.bind (ae_tables env) (\<lambda>tabs. lookup_id_tag tabs id_tag station_id)")
  case None
  define ov where "ov = (if ae_override_works env then consume_operator_override (ae_later env) station_id id_tag (rf_overrides s) else (None, rf_overrides s))"
  show thesis
  proof (cases "fst ov = None \<and> ae_tables env \<noteq> None")
    case False
    with None show thesis by (intro other [of "snd ov"]) (auto simp: authorize_end_def denied_def split_beta Let_def ov_def split: option.split if_splits)
  next
    case True
    with None show thesis by (intro unknown [of "snd ov"]) (auto simp: authorize_end_def denied_def split_beta Let_def ov_def split: option.splits)
  qed
next
  case (Some row)
  then show thesis by (intro matched) (simp_all add: authorize_end_def)
qed

lemma accept_other:
  assumes "k \<noteq> (station_id, id_tag)" "dicts_ok s"
  shows "attempts_of (accept_identity env station_id id_tag s) k = attempts_of s k" "dicts_ok (accept_identity env station_id id_tag s)"
    "map_of (rf_throttled_until (accept_identity env station_id id_tag s)) k = map_of (rf_throttled_until s) k"
  using assms by (auto simp: accept_identity_def Let_def attempts_of_def dicts_ok_def)

lemma calls_update [simp]:
  "attempts_of (s\<lparr>rf_calls := d\<rparr>) = attempts_of s" "dicts_ok s \<Longrightarrow> dict_ok d \<Longrightarrow> dicts_ok (s\<lparr>rf_calls := d\<rparr>)"
  by (simp_all add: attempts_of_def dicts_ok_def fun_eq_iff)

lemma calls_before_update: "calls_before s t \<Longrightarrow> pc_now p \<le> t \<Longrightarrow> calls_before (s'\<lparr>rf_calls := AList.update n p (rf_calls s)\<rparr>) t"
proof -
  have "set (AList.update n p d) \<subseteq> insert (n, p) (set d)" for d by (induction d) auto
  then show "calls_before s t \<Longrightarrow> pc_now p \<le> t \<Longrightarrow> ?thesis" by (fastforce simp: calls_before_def)
qed

lemma calls_before_delete: "calls_before s t \<Longrightarrow> calls_before (s'\<lparr>rf_calls := AList.delete n (rf_calls s)\<rparr>) t"
  by (auto simp: calls_before_def AList.delete_eq)

lemma calls_before_later: "calls_before s t \<Longrightarrow> t \<le> t' \<Longrightarrow> calls_before s t'"
  by (auto simp: calls_before_def)

lemma throttle_begin:
  assumes inv: "throttle_inv K k s H t" and "t \<le> now"
  shows "throttle_inv K k (rfid_step s (BeginAuth n station_id id_tag source now)) H now"
proof -
  have ok: "dicts_ok s" "calls_before s now" using inv assms(2) by (auto simp: throttle_inv_def intro: calls_before_later)
  show ?thesis
  proof (cases "strip id_tag = [] \<or> n \<in> keys (rf_calls s)")
    case True
    with ok show ?thesis by (auto intro: throttle_same [OF inv assms(2)])
  next
    case False
    define p where "p = \<lparr>pc_station = station_id, pc_tag = id_tag, pc_source = source, pc_now = now, pc_passed = False\<rparr>"
    let ?s = "(prune_in_memory_state now s)\<lparr>rf_calls := AList.update n p (rf_calls s)\<rparr>"
    have "AList.update n p (rf_calls s) = rf_calls s @ [(n, p)]" using False entries_absent by metis
    then have passed: "passed k ?s = passed k s" by (simp add: passed_def of_key_def p_def)
    have before: "calls_before ?s now" using ok(2) by (intro calls_before_update) (simp_all add: p_def)
    have dicts: "dicts_ok ?s" using ok(1) prune_dicts_ok [OF ok(1), of now] by (simp add: dicts_ok_def)
    have "throttle_inv K k ?s H now"
      by (rule throttle_prune [OF inv assms(2) dicts before]) (simp_all add: prune_attempts [OF ok(1)] passed)
    with False show ?thesis by (simp add: p_def)
  qed
qed

lemma throttle_checked:
  assumes inv: "throttle_inv K k s H t" and few: "passed k (rfid_step s (CheckAuth n count_works counted_at)) \<le> K"
  shows "throttle_inv K k (rfid_step s (CheckAuth n count_works counted_at)) H t"
proof (cases "map_of (rf_calls s) n")
  case (Some p)
  have ok: "dicts_ok s" "dict_ok (rf_calls s)" "calls_before s t" using inv by (auto simp: throttle_inv_def dicts_ok_def)
  have now: "pc_now p \<le> t" using ok(3) map_of_SomeD [OF Some] by (auto simp: calls_before_def)
  consider "pc_passed p" | "\<not> pc_passed p" "throttle_check count_works counted_at (pc_now p) (pc_station p) (pc_tag p) s"
    | "\<not> pc_passed p" "\<not> throttle_check count_works counted_at (pc_now p) (pc_station p) (pc_tag p) s" by blast
  then show ?thesis
  proof cases
    case 1
    with Some inv show ?thesis by simp
  next
    case 2
    with Some ok entries_present(1) [OF ok(2) Some, of "of_key k"] calls_before_delete [OF ok(3)] show ?thesis
      by (auto intro!: throttle_same [OF inv order_refl] simp: passed_def)
  next
    case 3
    let ?s = "s\<lparr>rf_calls := AList.update n (p\<lparr>pc_passed := True\<rparr>) (rf_calls s)\<rparr>"
    have step: "rfid_step s (CheckAuth n count_works counted_at) = ?s" using 3 Some by simp
    have before: "calls_before ?s t" using ok(3) now by (intro calls_before_update) simp_all
    show ?thesis
    proof (cases "(pc_station p, pc_tag p) = k")
      case False
      with entries_present(2) [OF ok(2) Some, of "of_key k" "p\<lparr>pc_passed := True\<rparr>"] have "passed k ?s \<le> passed k s"
        by (simp add: passed_def of_key_def)
      with ok before show ?thesis unfolding step by (intro throttle_same [OF inv order_refl]) simp_all
    next
      case True
      have "length (fresh_attempts t H) \<le> 7"
        using 3 True now by (intro throttle_free [OF inv]) (auto simp: throttle_check_def split: option.splits)
      with few have "length (fresh_attempts t H) + passed k ?s \<le> 7 + K" unfolding step by simp
      with inv before show ?thesis unfolding step throttle_inv_def by (simp add: limit_set_def dicts_ok_def)
    qed
  qed
qed (use inv in simp)

lemma throttle_ended:
  assumes inv: "throttle_inv K k s H t" and t: "t \<le> ae_later env" and unknown: "stays_unknown k (EndAuth n env)"
  shows "throttle_inv K k (rfid_step s (EndAuth n env)) (H @ unknown_at k s (EndAuth n env)) (ae_later env)"
proof (cases "\<exists>p. map_of (rf_calls s) n = Some p \<and> pc_passed p")
  case False
  have "calls_before s (ae_later env)" "dicts_ok s" using inv t by (auto simp: throttle_inv_def intro: calls_before_later)
  then have "throttle_inv K k s H (ae_later env)" by (auto intro: throttle_same [OF inv t])
  with False show ?thesis by (auto simp: unknown_at_def split: option.splits)
next
  case True
  then obtain p where p: "map_of (rf_calls s) n = Some p" "pc_passed p" by blast
  have ok: "dicts_ok s" "dict_ok (rf_calls s)" "calls_before s (ae_later env)"
    using inv t by (auto simp: throttle_inv_def dicts_ok_def intro: calls_before_later)
  let ?last = "authorize_end env (pc_station p) (pc_tag p) (pc_source p) s" and ?d = "AList.delete n (rf_calls s)"
  let ?s = "(snd ?last)\<lparr>rf_calls := ?d\<rparr>"
  have step: "rfid_step s (EndAuth n env) = ?s" using p by simp
  have fewer: "passed k ?s + (if (pc_station p, pc_tag p) = k then 1 else 0) = passed k s"
    using entries_present(1) [OF ok(2) p(1), of "of_key k"] p(2) by (simp add: passed_def of_key_def)
  have before: "calls_before ?s (ae_later env)" using ok(3) by (rule calls_before_delete)
  have d: "dict_ok ?d" using ok(2) by simp
  show ?thesis
  proof (cases rule: end_outcome [of env "pc_station p" "pc_tag p" "pc_source p" s])
    case (other rows)
    then have "throttle_inv K k ?s H (ae_later env)"
      using ok d before fewer by (intro throttle_same [OF inv t]) simp_all
    with other p show ?thesis unfolding step by (simp add: unknown_at_def)
  next
    case matched
    then have k: "k \<noteq> (pc_station p, pc_tag p)" using unknown by (auto simp: stays_unknown_def)
    then have "throttle_inv K k ?s H (ae_later env)"
      using ok d before fewer matched(2) accept_other [OF k ok(1)] by (intro throttle_same [OF inv t]) simp_all
    with matched(3) p show ?thesis unfolding step by (simp add: unknown_at_def)
  next
    case (unknown rows)
    let ?q = "s\<lparr>rf_overrides := rows\<rparr>"
    have q: "dicts_ok ?q" using ok(1) by simp
    show ?thesis
    proof (cases "k = (pc_station p, pc_tag p)")
      case True
      have "throttle_inv K k ?q H t"
        by (rule throttle_same [OF inv order_refl]) (use inv in \<open>simp_all add: throttle_inv_def calls_before_def passed_def\<close>)
      moreover have "passed k ?q = passed k s" by (simp add: passed_def)
      ultimately have "throttle_inv K k ?s (H @ [ae_later env]) (ae_later env)"
        using True fewer before unknown(1) record_attempts(2) [OF q] d
        by (intro throttle_record [where s = ?q, OF _ t True]) simp_all
      with True p unknown(2) show ?thesis unfolding step by (simp add: unknown_at_def)
    next
      case False
      have "map_of (rf_throttled_until (prune_in_memory_state now ?q)) k = map_of (rf_throttled_until (prune_in_memory_state now s)) k" for now
        by (simp add: prune_in_memory_state_def Let_def)
      then have "throttle_inv K k ?s H (ae_later env)"
        using record_attempts [OF q, of env "pc_station p" "pc_tag p"] False unknown(1) before fewer d
        by (intro throttle_prune [OF inv t]) auto
      with False p show ?thesis unfolding step by (auto simp: unknown_at_def)
    qed
  qed
qed

lemma throttle_run:
  "throttle_inv K k s H t \<Longrightarrow> calls_ordered t es \<Longrightarrow> \<forall>e\<in>set es. stays_unknown k e \<Longrightarrow> at_most_passed K k s es \<Longrightarrow>
     in_span T (H @ unknown_times k s es) \<le> 7 + K"
proof (induction es arbitrary: s H t)
  case Nil
  then show ?case by (simp add: throttle_inv_def)
next
  case (Cons e es)
  have few: "passed k (rfid_step s e) \<le> K" using Cons.prems(4) by (cases es) simp_all
  have "\<exists>t'. throttle_inv K k (rfid_step s e) (H @ unknown_at k s e) t' \<and> calls_ordered t' es"
  proof (cases e)
    case (BeginAuth n station_id id_tag source now)
    then have "throttle_inv K k (rfid_step s e) (H @ unknown_at k s e) now" "calls_ordered now es"
      using Cons.prems(2) throttle_begin [OF Cons.prems(1), of now n station_id id_tag source] by (simp_all add: unknown_at_def del: rfid_step.simps)
    then show ?thesis by blast
  next
    case (CheckAuth n count_works counted_at)
    then have "throttle_inv K k (rfid_step s e) (H @ unknown_at k s e) t" "calls_ordered t es"
      using Cons.prems(2) throttle_checked [OF Cons.prems(1), of n count_works counted_at] few by (simp_all add: unknown_at_def del: rfid_step.simps)
    then show ?thesis by blast
  next
    case (EndAuth n env)
    then have "throttle_inv K k (rfid_step s e) (H @ unknown_at k s e) (ae_later env)" "calls_ordered (ae_later env) es"
      using Cons.prems(2,3) throttle_ended [OF Cons.prems(1), of env n] by (simp_all del: rfid_step.simps)
    then show ?thesis by blast
  next
    case (Mint r)
    have "throttle_inv K k (rfid_step s (Mint r)) H t"
      by (rule throttle_same [OF Cons.prems(1) order_refl])
        (use Cons.prems(1) in \<open>simp_all add: throttle_inv_def calls_before_def passed_def\<close>)
    moreover have "calls_ordered t es" "unknown_at k s e = []" using Mint Cons.prems(2) by (simp_all add: unknown_at_def)
    ultimately show ?thesis using Mint by (metis append_Nil2)
  qed
  then obtain t' where "throttle_inv K k (rfid_step s e) (H @ unknown_at k s e) t'" "calls_ordered t' es" by blast
  from Cons.IH [OF this] Cons.prems(3,4) show ?case by simp
qed

lemma rf_init_throttle: "throttle_inv K k rf_init [] 0"
  by (auto simp: throttle_inv_def rf_init_def dicts_ok_def attempts_of_def fresh_attempts_def in_span_def calls_before_def passed_def limit_set_def)

section \<open>Properties\<close>

text \<open>C13: after any history of interleaved calls and minted overrides, a charger's tag is accepted, by a call without a break or by one that
  was suspended meanwhile, only on a credential: the lookup succeeded and exactly one active vehicle or exactly one active card has the
  tag at the station's own site; or an operator's override was minted for this station and tag and is less than 120 seconds
  past its expiry. When the lookup fails, only such an override opens the charger.\<close>

theorem accepted_has_credential:
  assumes "s = run_steps rfid_step rf_init es"
    "ad_status (fst (authorize env station_id id_tag source s)) = ACCEPTED \<or> ad_status (fst (authorize_end env station_id id_tag source s)) = ACCEPTED"
  shows "(\<exists>tabs. ae_tables env = Some tabs \<and> entitled tabs id_tag station_id) \<or>
    (\<exists>r\<in>set (rf_overrides s). ov_station_id r = station_id \<and> ov_id_tag r = id_tag \<and> ae_later env < ov_expires_at r + 120 * usec_per_sec)"
proof -
  have "overrides_ok s" using overrides.run_inv assms(1) by blast
  moreover have "(\<exists>tabs row. ae_tables env = Some tabs \<and> lookup_id_tag tabs id_tag station_id = Some row) \<or>
      (\<exists>r. fst (consume_operator_override (ae_later env) station_id id_tag (rf_overrides s)) = Some r)"
    using assms(2) accepted_cases end_accepted_cases by blast
  ultimately show ?thesis using lookup_entitled consumed_override by blast
qed

text \<open>C14: how often a tag that is unknown at a station can be tried. Calls are suspended between the check of the throttle and the
  entry of the failed attempt, and those that have passed the check are not stopped any more. Over every interleaving of
  calls, whether the database's own counter works or not, with a clock that does not go back: if at most \<open>K\<close> calls for the tag at the
  station are between their check and their end at any time, then the service looks the tag up and finds it unknown at
  most \<open>7 + K\<close> times in any span of sixty seconds; calls that come one after another (\<open>K = 1\<close>) at most eight times.\<close>

theorem unknown_tag_throttled:
  assumes "calls_ordered 0 es" "\<forall>e\<in>set es. stays_unknown k e" "at_most_passed K k rf_init es"
  shows "in_span T (unknown_times k rf_init es) \<le> 7 + K"
  using throttle_run [OF rf_init_throttle assms, of T] by simp

text \<open>A blocked call does not touch tables, overrides or the log.\<close>

theorem blocked_changes_nothing:
  assumes "ad_status (fst (authorize env station_id id_tag source s)) = BLOCKED"
  shows "rf_overrides (snd (authorize env station_id id_tag source s)) = rf_overrides s \<and>
    rf_security_events (snd (authorize env station_id id_tag source s)) = rf_security_events s"
  using assms by (auto simp: authorize_def authorize_end_def denied_def is_throttled_def Let_def split: prod.splits option.splits if_splits)

section \<open>Witnesses\<close>

definition demo_tables :: id_tables where
  "demo_tables = \<lparr>it_stations = Some [(''CP1'', Some ''depot'')], it_vehicles = Some [],
     it_cards = Some [\<lparr>cr_id = ''card'', cr_id_tag = ''TAG'', cr_status = ''active'', cr_site_id = Some ''depot''\<rparr>],
     it_card_vehicles = Some [], it_drivers = Some [], it_card_drivers = None\<rparr>"

definition demo_call :: "dtime \<Rightarrow> auth_env" where
  "demo_call t = \<lparr>ae_now = t, ae_later = t, ae_tables = Some demo_tables, ae_count_works = False, ae_override_works = True,
     ae_record_works = True, ae_clear_works = True\<rparr>"

theorem accepted_has_credential_witness:
  "\<exists>tabs. ae_tables (demo_call 5) = Some tabs \<and> entitled tabs ''TAG'' ''CP1''"
proof -
  have "ad_status (fst (authorize (demo_call 5) ''CP1'' ''TAG'' ''ocpp16'' (run_steps rfid_step rf_init []))) = ACCEPTED"
    by (simp add: authorize_def authorize_end_def is_throttled_def throttle_check_def demo_call_def demo_tables_def lookup_id_tag_def tag_vehicles_def lookup_card_def tag_cards_def
        at_station_def sql_eq_def strip_def is_space_def rf_init_def prune_in_memory_state_def Let_def)
  from accepted_has_credential [OF refl disjI1 [OF this]] show ?thesis by (auto simp: rf_init_def)
qed

definition demo_attempts :: "rfid_call list" where
  "demo_attempts = concat (map (\<lambda>i. whole_call i (demo_call (int i * usec_per_sec)) ''CP1'' ''OTHER'' ''ocpp16'') [0..<12])"

text \<open>Twelve calls, one after another: eight lookups.\<close>

theorem unknown_tag_throttled_witness:
  "in_span (12 * usec_per_sec) (unknown_times (''CP1'', ''OTHER'') rf_init demo_attempts) \<le> 8 \<and>
   length (unknown_times (''CP1'', ''OTHER'') rf_init demo_attempts) = 8"
proof -
  have "calls_ordered 0 demo_attempts" by code_simp
  moreover have "list_all (\<lambda>e. case e of EndAuth n env \<Rightarrow> ae_tables env = Some demo_tables | _ \<Rightarrow> True) demo_attempts"
    by code_simp
  then have "\<forall>e\<in>set demo_attempts. stays_unknown (''CP1'', ''OTHER'') e"
  proof -
    have "lookup_id_tag demo_tables ''OTHER'' ''CP1'' = None" by code_simp
    then show ?thesis if "list_all (\<lambda>e. case e of EndAuth n env \<Rightarrow> ae_tables env = Some demo_tables | _ \<Rightarrow> True) demo_attempts"
      using that by (auto simp: list_all_iff stays_unknown_def split: rfid_call.splits)
  qed
  moreover have "at_most_passed 1 (''CP1'', ''OTHER'') rf_init demo_attempts" by code_simp
  moreover have "length (unknown_times (''CP1'', ''OTHER'') rf_init demo_attempts) = 8" by code_simp
  ultimately show ?thesis using unknown_tag_throttled [of demo_attempts "(''CP1'', ''OTHER'')" 1 "12 * usec_per_sec"] by simp
qed

text \<open>The throttle does not hold concurrent calls back: twenty that are all suspended at their lookup are twenty lookups in a second.\<close>

theorem concurrent_calls_pass_throttle:
  "length (unknown_times (''CP1'', ''OTHER'') rf_init
     (map (\<lambda>i. BeginAuth i ''CP1'' ''OTHER'' ''ocpp16'' 0) [0..<20] @ map (\<lambda>i. CheckAuth i True 0) [0..<20] @
      map (\<lambda>i. EndAuth i (demo_call usec_per_sec)) [0..<20])) = 20"
  by code_simp

text \<open>An override that was used is accepted again, also after it has expired.\<close>

definition demo_override :: override_row where
  "demo_override = \<lparr>ov_id = ''o'', ov_station_id = ''CP1'', ov_id_tag = ''OP-1'', ov_depot_id = ''depot'', ov_expires_at = 60 * usec_per_sec, ov_consumed_at = None\<rparr>"

theorem expired_override_reused:
  "map (\<lambda>t. ad_status (fst (authorize (demo_call (t * usec_per_sec)) ''CP1'' ''OP-1'' ''ocpp16''
       (run_steps rfid_step rf_init (Mint demo_override # whole_call 0 (demo_call (59 * usec_per_sec)) ''CP1'' ''OP-1'' ''ocpp16'')))))
     [60, 178, 179] = [ACCEPTED, ACCEPTED, INVALID]"
  by code_simp

end
