(* ===== verification/Client_Address.thy ===== *)
theory Client_Address
  imports Report_Timing "HOL-Library.Word"
begin

text \<open>
  Who a request comes from, and whether it is let in: \<open>src/src/security/forwarded_ip.py\<close>,
  \<open>src/src/security/geo_block.py\<close> and the same resolution in \<open>src/src/websocket_handler/server.py\<close>. The text of an
  address is read as Python 3.12's \<open>ipaddress\<close> does; afterwards an address is its number, since reading the text of an
  address gives the address back. A request has the address of its peer and a list of header lines. The country
  database is a parameter: whether it is loaded, and its answer for an address. Its download is not modelled.
  Of a repeated \<open>X-Real-IP\<close> the first line is read, as Starlette does; the \<open>websockets\<close> package raises there.
\<close>

section \<open>Model: addresses and networks\<close>

datatype ip = V4 "32 word" | V6 "128 word" "string option"

datatype network = N4 "32 word" nat | N6 "128 word" nat

definition parse_octet :: "string \<Rightarrow> int option" where
  "parse_octet s =
     (if s \<noteq> [] \<and> list_all is_decimal s \<and> length s \<le> 3 \<and> (s = ''0'' \<or> hd s \<noteq> CHR ''0'')
      then (case py_int s of Inr n \<Rightarrow> if n \<le> 255 then Some n else None | Inl _ \<Rightarrow> None) else None)"

definition ipv4_of_text :: "string \<Rightarrow> 32 word option" where
  "ipv4_of_text s =
     (if CHR ''/'' \<in> set s then None
      else case map parse_octet (py_split (CHR ''.'') s) of
             [Some a, Some b, Some c, Some d] \<Rightarrow> Some (word_of_int (((a * 256 + b) * 256 + c) * 256 + d))
           | _ \<Rightarrow> None)"

text \<open>A part between colons: empty, a hextet, or something else.\<close>

datatype part = EmptyPart | BadPart | Hextet int

definition hex_digit :: "char \<Rightarrow> int option" where
  "hex_digit c =
     (let n = int (of_char c)
      in if 48 \<le> n \<and> n \<le> 57 then Some (n - 48)
         else if 97 \<le> n \<and> n \<le> 102 then Some (n - 87)
         else if 65 \<le> n \<and> n \<le> 70 then Some (n - 55) else None)"

definition part_of_text :: "string \<Rightarrow> part" where
  "part_of_text s =
     (if s = [] then EmptyPart
      else if list_all (\<lambda>c. hex_digit c \<noteq> None) s \<and> length s \<le> 4
      then Hextet (foldl (\<lambda>n c. 16 * n + the (hex_digit c)) 0 s) else BadPart)"

text \<open>The parts of an address, with a dotted suffix as two hextets.\<close>

definition parts_of_text :: "string \<Rightarrow> part list option" where
  "parts_of_text s =
     (let texts = py_split (CHR '':'') s
      in if length texts < 3 then None
         else if CHR ''.'' \<in> set (last texts)
         then (case ipv4_of_text (last texts) of
                 None \<Rightarrow> None
               | Some v \<Rightarrow> Some (map part_of_text (butlast texts) @ [Hextet (uint v div 65536), Hextet (uint v mod 65536)]))
         else Some (map part_of_text texts))"

fun hextets :: "part list \<Rightarrow> int option" where
  "hextets [] = Some 0"
| "hextets (p # ps) = (case (p, hextets ps) of (Hextet n, Some r) \<Rightarrow> Some (n * 2 ^ (16 * length ps) + r) | _ \<Rightarrow> None)"

definition ipv6_of_parts :: "part list \<Rightarrow> int option" where
  "ipv6_of_parts ps =
     (let n = length ps
      in if n > 9 then None
         else case filter (\<lambda>i. ps ! i = EmptyPart) [1..<n - 1] of
           [] \<Rightarrow> if n \<noteq> 8 \<or> hd ps = EmptyPart \<or> last ps = EmptyPart then None else hextets ps
         | [i] \<Rightarrow>
             (let hi = (if hd ps = EmptyPart then i - 1 else i);
                  lo = (if last ps = EmptyPart then n - i - 2 else n - i - 1)
              in if hd ps = EmptyPart \<and> hi \<noteq> 0 \<or> last ps = EmptyPart \<and> lo \<noteq> 0 \<or> 8 \<le> hi + lo then None
                 else (case (hextets (take hi ps), hextets (drop (n - lo) ps)) of
                         (Some a, Some b) \<Rightarrow> Some (a * 2 ^ (16 * (8 - hi)) + b)
                       | _ \<Rightarrow> None))
         | _ \<Rightarrow> None)"

definition split_scope_id :: "string \<Rightarrow> (string \<times> string option) option" where
  "split_scope_id s =
     (let addr = takeWhile (\<lambda>c. c \<noteq> CHR ''%'') s; rest = drop (length addr) s
      in if rest = [] then Some (addr, None)
         else if tl rest = [] \<or> CHR ''%'' \<in> set (tl rest) then None else Some (addr, Some (tl rest)))"

definition ip_address :: "string \<Rightarrow> ip option" where
  "ip_address s =
     (case ipv4_of_text s of
        Some v \<Rightarrow> Some (V4 v)
      | None \<Rightarrow>
          if CHR ''/'' \<in> set s then None
          else (case split_scope_id s of
                  None \<Rightarrow> None
                | Some (addr, scope) \<Rightarrow>
                    (case Option.bind (parts_of_text addr) ipv6_of_parts of
                       None \<Rightarrow> None
                     | Some n \<Rightarrow> Some (V6 (word_of_int n) scope))))"

text \<open>Networks: the mask of a prefix, membership, and \<open>ip_network(s, strict=False)\<close> with a prefix length, a netmask or
  a hostmask.\<close>

definition netmask :: "nat \<Rightarrow> 'a :: len word" where
  "netmask p = not (mask (LENGTH('a) - p))"

fun in_network :: "ip \<Rightarrow> network \<Rightarrow> bool" where
  "in_network (V4 a) (N4 base p) = (and a (netmask p) = base)"
| "in_network (V6 a scope) (N6 base p) = (and a (netmask p) = base)"
| "in_network _ _ = False"

definition prefix_of_text :: "nat \<Rightarrow> string \<Rightarrow> nat option" where
  "prefix_of_text longest s =
     (if list_all is_decimal s then (case py_int s of Inr n \<Rightarrow> if n \<le> int longest then Some (nat n) else None | Inl _ \<Rightarrow> None) else None)"

definition prefix_of_mask :: "32 word \<Rightarrow> nat option" where
  "prefix_of_mask m =
     (case List.find (\<lambda>p. netmask p = m) [0..<33] of
        Some p \<Rightarrow> Some p
      | None \<Rightarrow> List.find (\<lambda>p. netmask p = not m) [0..<33])"

definition ip_network :: "string \<Rightarrow> network option" where
  "ip_network s =
     (case py_split (CHR ''/'') s of
        [addr] \<Rightarrow> (case ip_address addr of Some (V4 a) \<Rightarrow> Some (N4 a 32) | Some (V6 a _) \<Rightarrow> Some (N6 a 128) | None \<Rightarrow> None)
      | [addr, m] \<Rightarrow>
          (case ip_address addr of
             Some (V4 a) \<Rightarrow>
               (case (case prefix_of_text 32 m of Some p \<Rightarrow> Some p | None \<Rightarrow> Option.bind (ipv4_of_text m) prefix_of_mask) of
                  Some p \<Rightarrow> Some (N4 (and a (netmask p)) p) | None \<Rightarrow> None)
           | Some (V6 a _) \<Rightarrow>
               (case prefix_of_text 128 m of Some p \<Rightarrow> Some (N6 (and a (netmask p)) p) | None \<Rightarrow> None)
           | None \<Rightarrow> None)
      | _ \<Rightarrow> None)"

definition ipv4_mapped :: "ip \<Rightarrow> ip option" where
  "ipv4_mapped a =
     (case a of V6 w _ \<Rightarrow> if drop_bit 32 w = 0xFFFF then Some (V4 (ucast w)) else None | V4 _ \<Rightarrow> None)"

definition private_networks :: "network list" where
  "private_networks =
     map (\<lambda>(a, p). N4 a p)
       [(0x00000000, 8), (0x0A000000, 8), (0x7F000000, 8), (0xA9FE0000, 16), (0xAC100000, 12), (0xC0000000, 24), (0xC00000AA, 31),
        (0xC0000200, 24), (0xC0A80000, 16), (0xC6120000, 15), (0xC6336400, 24), (0xCB007100, 24), (0xF0000000, 4), (0xFFFFFFFF, 32)] @
     map (\<lambda>(a, p). N6 a p)
       [(1, 128), (0, 128), (push_bit 32 0xFFFF, 96), (push_bit 80 0x0064FF9B0001, 48), (push_bit 112 0x0100, 64), (push_bit 112 0x2001, 23),
        (push_bit 96 0x20010DB8, 32), (push_bit 112 0x2002, 16), (push_bit 112 0xFC00, 7), (push_bit 112 0xFE80, 10)]"

definition private_exceptions :: "network list" where
  "private_exceptions =
     map (\<lambda>(a, p). N4 a p) [(0xC0000009, 32), (0xC000000A, 32)] @
     map (\<lambda>(a, p). N6 a p)
       [(push_bit 96 0x20010001 + 1, 128), (push_bit 96 0x20010001 + 2, 128), (push_bit 96 0x20010003, 32), (push_bit 80 0x200100040112, 48),
        (push_bit 96 0x20010020, 28), (push_bit 96 0x20010030, 28)]"

definition is_private :: "ip \<Rightarrow> bool" where
  "is_private a =
     (let b = (case ipv4_mapped a of None \<Rightarrow> a | Some v \<Rightarrow> v)
      in list_ex (in_network b) private_networks \<and> \<not> list_ex (in_network b) private_exceptions)"

definition is_loopback :: "ip \<Rightarrow> bool" where
  "is_loopback a = (case a of V4 v \<Rightarrow> in_network a (N4 0x7F000000 8) | V6 v _ \<Rightarrow> v = 1)"

definition is_link_local :: "ip \<Rightarrow> bool" where
  "is_link_local a \<longleftrightarrow> in_network a (N4 0xA9FE0000 16) \<or> in_network a (N6 (push_bit 112 0xFE80) 10)"

section \<open>Model: forwarded headers\<close>

definition CGNAT_NETWORK :: network where
  "CGNAT_NETWORK = N4 0x64400000 10"

definition strip_quotes :: "string \<Rightarrow> string" where
  "strip_quotes s = rev (dropWhile (\<lambda>c. c = CHR 0x22) (rev (dropWhile (\<lambda>c. c = CHR 0x22) s)))"

definition normalize_forwarded_ip :: "string \<Rightarrow> ip option" where
  "normalize_forwarded_ip raw_ip =
     (let value = strip_quotes (strip raw_ip)
      in if value = [] then None
         else let host = takeWhile (\<lambda>c. c \<noteq> CHR '']'') (tl value);
                  value' = (if hd value = CHR ''['' then (if CHR '']'' \<in> set (tl value) then host else value)
                            else if count_list value (CHR '':'') = 1 \<and> CHR ''.'' \<in> set value
                            then takeWhile (\<lambda>c. c \<noteq> CHR '':'') value else value)
              in ip_address value')"

definition is_implicitly_trusted_chain_hop :: "ip \<Rightarrow> bool" where
  "is_implicitly_trusted_chain_hop a = in_network a CGNAT_NETWORK"

definition is_trusted_proxy_entry :: "network list \<Rightarrow> bool \<Rightarrow> ip \<Rightarrow> bool" where
  "is_trusted_proxy_entry trusted_networks trust_implicit_private a =
     (let b = (case ipv4_mapped a of None \<Rightarrow> a | Some v \<Rightarrow> v)
      in list_ex (in_network b) trusted_networks \<or> trust_implicit_private \<and> is_implicitly_trusted_chain_hop b)"

definition select_client_ip :: "ip list \<Rightarrow> network list \<Rightarrow> bool \<Rightarrow> ip option" where
  "select_client_ip chain trusted_networks trust_implicit_private =
     (if chain = [] then None
      else if trusted_networks = [] \<and> \<not> trust_implicit_private then Some (hd chain)
      else case List.find (\<lambda>a. \<not> is_trusted_proxy_entry trusted_networks trust_implicit_private a) (rev chain) of
             Some a \<Rightarrow> Some a
           | None \<Rightarrow> Some (hd chain))"

text \<open>Header lines in their order; names are compared without case.\<close>

type_synonym headers = "(string \<times> string) list"

definition lower :: "string \<Rightarrow> string" where
  "lower s = map lower_char s"

definition header_lines :: "headers \<Rightarrow> string \<Rightarrow> string list" where
  "header_lines hs name = map snd (filter (\<lambda>h. lower (fst h) = lower name) hs)"

fun join_lines :: "string list \<Rightarrow> string" where
  "join_lines [] = []"
| "join_lines [v] = v"
| "join_lines (v # vs) = v @ '', '' @ join_lines vs"

definition collect_header_values :: "headers \<Rightarrow> string \<Rightarrow> string" where
  "collect_header_values hs name = join_lines (filter (\<lambda>v. v \<noteq> []) (header_lines hs name))"

text \<open>\<open>item.strip().partition("=")\<close>; the first \<open>for\<close> of a hop ends the hop, whether it can be read or not.\<close>

fun hop_for :: "string list \<Rightarrow> ip option" where
  "hop_for [] = None"
| "hop_for (item # items) =
     (let s = strip item; key = takeWhile (\<lambda>c. c \<noteq> CHR ''='') s; rest = drop (length key) s
      in if rest \<noteq> [] \<and> lower key = ''for'' then normalize_forwarded_ip (tl rest) else hop_for items)"

definition parse_forwarded_header_chain :: "string \<Rightarrow> ip list" where
  "parse_forwarded_header_chain forwarded =
     List.map_filter (\<lambda>hop. hop_for (py_split (CHR '';'') hop)) (py_split (CHR '','') forwarded)"

definition parse_xff_chain :: "string \<Rightarrow> ip list" where
  "parse_xff_chain xff = List.map_filter normalize_forwarded_ip (py_split (CHR '','') xff)"

definition extract_forwarded_ip :: "headers \<Rightarrow> network list \<Rightarrow> bool \<Rightarrow> ip option" where
  "extract_forwarded_ip hs trusted_networks trust_implicit_private =
     (case select_client_ip (parse_forwarded_header_chain (collect_header_values hs ''Forwarded'')) trusted_networks trust_implicit_private of
        Some a \<Rightarrow> Some a
      | None \<Rightarrow>
          (case select_client_ip (parse_xff_chain (collect_header_values hs ''X-Forwarded-For'')) trusted_networks trust_implicit_private of
             Some a \<Rightarrow> Some a
           | None \<Rightarrow> (case header_lines hs ''X-Real-IP'' of
                        [] \<Rightarrow> None
                      | v # _ \<Rightarrow> if v = [] then None else normalize_forwarded_ip v)))"

definition parse_ip_networks :: "string \<Rightarrow> network list" where
  "parse_ip_networks ranges =
     List.map_filter (\<lambda>r. if strip r = [] then None else ip_network (strip r)) (py_split (CHR '','') ranges)"

section \<open>Model: geo-blocking\<close>

text \<open>\<open>str.upper\<close>, for the letters of a country code.\<close>

definition upper_char :: "char \<Rightarrow> char" where
  "upper_char c = (let n = (of_char c :: nat) in if 97 \<le> n \<and> n \<le> 122 then char_of (n - 32) else c)"

definition upper :: "string \<Rightarrow> string" where
  "upper s = map upper_char s"

record GeoBlockConfig =
  gc_blocked_countries :: "string list"
  gc_allowed_ips :: "string list"
  gc_enabled :: bool
  gc_fail_closed :: bool

definition env_flag :: "string option \<Rightarrow> bool" where
  "env_flag v = (lower (case v of None \<Rightarrow> ''true'' | Some s \<Rightarrow> s) = ''true'')"

definition geo_from_env :: "string option \<Rightarrow> string option \<Rightarrow> string option \<Rightarrow> string option \<Rightarrow> GeoBlockConfig" where
  "geo_from_env enabled countries allowlist fail_closed =
     \<lparr>gc_blocked_countries = map (upper \<circ> strip)
        (filter (\<lambda>c. strip c \<noteq> []) (py_split (CHR '','') (case countries of None \<Rightarrow> ''RU,CN,BY'' | Some s \<Rightarrow> s))),
      gc_allowed_ips = map strip (filter (\<lambda>c. strip c \<noteq> []) (py_split (CHR '','') (case allowlist of None \<Rightarrow> '''' | Some s \<Rightarrow> s))),
      gc_enabled = env_flag enabled, gc_fail_closed = env_flag fail_closed\<rparr>"

text \<open>The answer of the database for an address: not in it, an error, or a country code, which may be missing.\<close>

datatype geo_answer = AddressNotFound | LookupFailed | Country "string option"

record GeoBlockChecker =
  gb_config :: GeoBlockConfig
  gb_reader :: "(ip \<Rightarrow> geo_answer) option"
  gb_allowed_networks :: "network list"

definition geo_checker :: "GeoBlockConfig \<Rightarrow> (ip \<Rightarrow> geo_answer) option \<Rightarrow> GeoBlockChecker" where
  "geo_checker config reader =
     \<lparr>gb_config = config, gb_reader = (if gc_enabled config then reader else None),
      gb_allowed_networks = List.map_filter ip_network (gc_allowed_ips config)\<rparr>"

text \<open>A client: an address, or the text of a peer that is none.\<close>

datatype client = Addr ip | Text string

definition parse_client :: "string \<Rightarrow> client" where
  "parse_client s = (case ip_address s of Some a \<Rightarrow> Addr a | None \<Rightarrow> Text s)"

definition is_private_or_loopback :: "ip \<Rightarrow> bool" where
  "is_private_or_loopback a \<longleftrightarrow> is_private a \<or> is_loopback a \<or> is_link_local a"

datatype geo_reason =
    geo_blocking_disabled | private_ip | allowlisted | geoip_unavailable | country_unknown | geoip_error
  | blocked_country string | allowed_country "string option"

text \<open>\<open>blocked\<close> and the reason; the suffixes \<open>fail_closed\<close> and \<open>fail_open\<close> are in \<open>blocked\<close>.\<close>

definition check_ip :: "GeoBlockChecker \<Rightarrow> client \<Rightarrow> bool \<times> geo_reason" where
  "check_ip gb c =
     (let cfg = gb_config gb
      in if \<not> gc_enabled cfg then (False, geo_blocking_disabled)
         else if (case c of Addr a \<Rightarrow> is_private_or_loopback a | Text _ \<Rightarrow> False) then (False, private_ip)
         else if (case c of Addr a \<Rightarrow> list_ex (in_network a) (gb_allowed_networks gb) | Text _ \<Rightarrow> False) then (False, allowlisted)
         else case gb_reader gb of
           None \<Rightarrow> (gc_fail_closed cfg, geoip_unavailable)
         | Some reader \<Rightarrow>
             (case (case c of Addr a \<Rightarrow> reader a | Text _ \<Rightarrow> LookupFailed) of
                AddressNotFound \<Rightarrow> (gc_fail_closed cfg, country_unknown)
              | LookupFailed \<Rightarrow> (gc_fail_closed cfg, geoip_error)
              | Country None \<Rightarrow> (False, allowed_country None)
              | Country (Some cc) \<Rightarrow>
                  if cc \<noteq> [] \<and> upper cc \<in> set (gc_blocked_countries cfg) then (True, blocked_country cc) else (False, allowed_country (Some cc))))"

definition is_implicitly_trusted_proxy :: "ip \<Rightarrow> bool" where
  "is_implicitly_trusted_proxy a \<longleftrightarrow> is_private_or_loopback a \<or> in_network a CGNAT_NETWORK"

record GeoBlockMiddleware =
  gm_trust_proxy_headers :: bool
  gm_trusted_proxy_networks :: "network list"

definition gm_from_env :: "string option \<Rightarrow> string option \<Rightarrow> GeoBlockMiddleware" where
  "gm_from_env trust ranges =
     \<lparr>gm_trust_proxy_headers = env_flag trust, gm_trusted_proxy_networks = parse_ip_networks (case ranges of None \<Rightarrow> '''' | Some s \<Rightarrow> s)\<rparr>"

definition is_trusted_proxy :: "GeoBlockMiddleware \<Rightarrow> string \<Rightarrow> bool" where
  "is_trusted_proxy gm peer_ip =
     (case ip_address peer_ip of
        None \<Rightarrow> False
      | Some a \<Rightarrow> gm_trust_proxy_headers gm \<and> is_implicitly_trusted_proxy a \<or> list_ex (in_network a) (gm_trusted_proxy_networks gm))"

definition resolve_client_ip :: "GeoBlockMiddleware \<Rightarrow> string option \<Rightarrow> headers \<Rightarrow> client option" where
  "resolve_client_ip gm peer hs =
     (case peer of
        None \<Rightarrow> None
      | Some peer_ip \<Rightarrow>
          if peer_ip = [] then None
          else if \<not> is_trusted_proxy gm peer_ip then Some (parse_client peer_ip)
          else (case extract_forwarded_ip hs (gm_trusted_proxy_networks gm) (gm_trust_proxy_headers gm) of
                  Some a \<Rightarrow> Some (Addr a)
                | None \<Rightarrow> Some (parse_client peer_ip)))"

datatype geo_response = Forbidden | CallNext

definition geo_dispatch :: "GeoBlockMiddleware \<Rightarrow> GeoBlockChecker \<Rightarrow> string option \<Rightarrow> headers \<Rightarrow> geo_response" where
  "geo_dispatch gm gb peer hs =
     (case resolve_client_ip gm peer hs of
        None \<Rightarrow> CallNext
      | Some c \<Rightarrow> if fst (check_ip gb c) then Forbidden else CallNext)"

text \<open>The websocket server resolves a charger's address the same way; a peer that is not known has the text
  \<open>unknown\<close>. It admits whom the geo check does not block; the module of the check is there to import (without it the server
  starts all the same, logs a warning and checks nobody).\<close>

definition ws_client_ip :: "GeoBlockMiddleware \<Rightarrow> string \<Rightarrow> headers \<Rightarrow> client" where
  "ws_client_ip gm peer_ip hs =
     (if peer_ip = ''unknown'' \<or> \<not> is_trusted_proxy gm peer_ip then parse_client peer_ip
      else case extract_forwarded_ip hs (gm_trusted_proxy_networks gm) (gm_trust_proxy_headers gm) of
             Some a \<Rightarrow> Addr a
           | None \<Rightarrow> parse_client peer_ip)"

definition ws_admits :: "GeoBlockMiddleware \<Rightarrow> GeoBlockChecker \<Rightarrow> string \<Rightarrow> headers \<Rightarrow> bool" where
  "ws_admits gm gb peer_ip hs = (\<not> fst (check_ip gb (ws_client_ip gm peer_ip hs)))"

section \<open>Lemmas: the walk\<close>

lemma py_split_nonempty [simp]: "py_split c s \<noteq> []"
  by (induction s) (auto split: list.split)

lemma py_split_append: "py_split c (xs @ c # ys) = py_split c xs @ py_split c ys"
  by (induction xs) (auto split: list.split)

text \<open>Entries appended to a list header, each after a comma.\<close>

definition appended :: "string list \<Rightarrow> string" where
  "appended hops = concat (map (\<lambda>h. CHR '','' # h) hops)"

lemma py_split_appended:
  "CHR '','' \<notin> set x \<Longrightarrow> (\<And>h. h \<in> set hops \<Longrightarrow> CHR '','' \<notin> set h) \<Longrightarrow> py_split (CHR '','') (x @ appended hops) = x # hops"
proof (induction hops arbitrary: x)
  case Nil
  then show ?case by (simp add: appended_def py_split_none)
next
  case (Cons h hops)
  have "py_split (CHR '','') (x @ appended (h # hops)) = py_split (CHR '','') x @ py_split (CHR '','') (h @ appended hops)"
    by (simp add: appended_def py_split_append)
  with Cons show ?case by (simp add: py_split_none)
qed

lemma py_split_suffix:
  assumes "pre = [] \<or> last pre = CHR '',''" "CHR '','' \<notin> set x" "\<And>h. h \<in> set hops \<Longrightarrow> CHR '','' \<notin> set h"
  shows "\<exists>rest. py_split (CHR '','') (pre @ x @ appended hops) = rest @ x # hops"
proof (cases "pre = []")
  case True
  with py_split_appended [of x hops] assms show ?thesis by (metis append_Nil)
next
  case False
  with assms(1) have "pre @ x @ appended hops = butlast pre @ CHR '','' # (x @ appended hops)" by (metis append.assoc append_Cons append_Nil append_butlast_last_id)
  then have "py_split (CHR '','') (pre @ x @ appended hops) = py_split (CHR '','') (butlast pre) @ py_split (CHR '','') (x @ appended hops)"
    by (simp only: py_split_append)
  with py_split_appended [of x hops] assms have "py_split (CHR '','') (pre @ x @ appended hops) = py_split (CHR '','') (butlast pre) @ x # hops" by simp
  then show ?thesis by blast
qed

lemma map_filter_append: "List.map_filter f (xs @ ys) = List.map_filter f xs @ List.map_filter f ys"
  by (induction xs) (auto simp: List.map_filter_simps split: option.split)

lemma map_filter_in: "y \<in> set (List.map_filter f xs) \<Longrightarrow> \<exists>x\<in>set xs. f x = Some y"
  by (induction xs) (auto simp: List.map_filter_simps split: option.splits)

lemma find_append_skip: "(\<And>x. x \<in> set xs \<Longrightarrow> \<not> P x) \<Longrightarrow> P y \<Longrightarrow> List.find P (xs @ y # ys) = Some y"
  by (induction xs) auto

lemma select_rightmost:
  assumes "\<not> (nets = [] \<and> \<not> implicit)" "\<not> is_trusted_proxy_entry nets implicit a"
    "\<And>h. h \<in> set hops \<Longrightarrow> is_trusted_proxy_entry nets implicit h"
  shows "select_client_ip (rest @ a # hops) nets implicit = Some a"
proof -
  have "List.find (\<lambda>b. \<not> is_trusted_proxy_entry nets implicit b) (rev (rest @ a # hops)) = Some a"
    using assms(2,3) find_append_skip [of "rev hops" "\<lambda>b. \<not> is_trusted_proxy_entry nets implicit b" a "rev rest"] by simp
  with assms(1) show ?thesis unfolding select_client_ip_def by auto
qed

definition trusted_hop :: "network list \<Rightarrow> bool \<Rightarrow> string \<Rightarrow> bool" where
  "trusted_hop nets implicit h \<longleftrightarrow>
     CHR '','' \<notin> set h \<and> (case normalize_forwarded_ip h of None \<Rightarrow> False | Some b \<Rightarrow> is_trusted_proxy_entry nets implicit b)"

text \<open>What trusted proxies appended to \<open>X-Forwarded-For\<close> decides, whatever stands before it.\<close>

lemma xff_walk:
  assumes trust: "\<not> (nets = [] \<and> \<not> implicit)"
    and pre: "pre = [] \<or> last pre = CHR '',''"
    and entry: "CHR '','' \<notin> set entry" "normalize_forwarded_ip entry = Some a" "\<not> is_trusted_proxy_entry nets implicit a"
    and hops: "\<And>h. h \<in> set hops \<Longrightarrow> trusted_hop nets implicit h"
  shows "select_client_ip (parse_xff_chain (pre @ entry @ appended hops)) nets implicit = Some a"
proof -
  obtain rest where "py_split (CHR '','') (pre @ entry @ appended hops) = rest @ entry # hops"
    using py_split_suffix [OF pre entry(1), of hops] hops by (auto simp: trusted_hop_def)
  then have "parse_xff_chain (pre @ entry @ appended hops) =
      List.map_filter normalize_forwarded_ip rest @ a # List.map_filter normalize_forwarded_ip hops"
    by (simp add: parse_xff_chain_def map_filter_append List.map_filter_simps entry(2))
  moreover have "is_trusted_proxy_entry nets implicit b" if "b \<in> set (List.map_filter normalize_forwarded_ip hops)" for b
    using map_filter_in [OF that] hops by (fastforce simp: trusted_hop_def)
  ultimately show ?thesis using select_rightmost [OF trust entry(3)] by simp
qed

lemma no_forwarded_chain: "header_lines hs ''Forwarded'' = [] \<Longrightarrow> parse_forwarded_header_chain (collect_header_values hs ''Forwarded'') = []"
  by (simp add: collect_header_values_def parse_forwarded_header_chain_def List.map_filter_simps strip_def)

lemma trusted_peer_trusts: "is_trusted_proxy gm peer_ip \<Longrightarrow> \<not> (gm_trusted_proxy_networks gm = [] \<and> \<not> gm_trust_proxy_headers gm)"
  by (auto simp: is_trusted_proxy_def split: option.splits)

lemma extract_walk:
  assumes "is_trusted_proxy gm peer_ip" "header_lines hs ''Forwarded'' = []"
    "collect_header_values hs ''X-Forwarded-For'' = pre @ entry @ appended hops" "pre = [] \<or> last pre = CHR '',''"
    "CHR '','' \<notin> set entry" "normalize_forwarded_ip entry = Some a"
    "\<not> is_trusted_proxy_entry (gm_trusted_proxy_networks gm) (gm_trust_proxy_headers gm) a"
    "\<And>h. h \<in> set hops \<Longrightarrow> trusted_hop (gm_trusted_proxy_networks gm) (gm_trust_proxy_headers gm) h"
  shows "extract_forwarded_ip hs (gm_trusted_proxy_networks gm) (gm_trust_proxy_headers gm) = Some a"
proof -
  have "select_client_ip [] nets implicit = None" for nets implicit by (simp add: select_client_ip_def)
  then show ?thesis
    unfolding extract_forwarded_ip_def no_forwarded_chain [OF assms(2)] assms(3)
    using xff_walk [OF trusted_peer_trusts [OF assms(1)] assms(4-7), of hops] assms(8) by simp
qed

lemma trusted_peer_text: "is_trusted_proxy gm peer_ip \<Longrightarrow> peer_ip \<noteq> [] \<and> peer_ip \<noteq> ''unknown''"
proof -
  have "ip_address [] = None" "ip_address ''unknown'' = None" by code_simp+
  then show "is_trusted_proxy gm peer_ip \<Longrightarrow> ?thesis" by (auto simp: is_trusted_proxy_def)
qed

section \<open>Properties\<close>

text \<open>C15: a client that geo-blocking refuses cannot get in by forging \<open>X-Forwarded-For\<close>. Let the peer be a trusted proxy, no
  \<open>Forwarded\<close> header be present, and the collected \<open>X-Forwarded-For\<close> value be any text of the client's choice, then the
  client's address as the first trusted proxy appended it, then any number of trusted proxies. The request is
  forbidden by the API and the connection refused by the websocket server, whatever the client wrote before.\<close>

theorem geo_block_not_bypassed:
  assumes "is_trusted_proxy gm peer_ip" "header_lines hs ''Forwarded'' = []"
    "collect_header_values hs ''X-Forwarded-For'' = pre @ entry @ appended hops" "pre = [] \<or> last pre = CHR '',''"
    "CHR '','' \<notin> set entry" "normalize_forwarded_ip entry = Some a"
    "\<not> is_trusted_proxy_entry (gm_trusted_proxy_networks gm) (gm_trust_proxy_headers gm) a"
    "list_all (trusted_hop (gm_trusted_proxy_networks gm) (gm_trust_proxy_headers gm)) hops"
    "fst (check_ip gb (Addr a))"
  shows "geo_dispatch gm gb (Some peer_ip) hs = Forbidden \<and> \<not> ws_admits gm gb peer_ip hs"
proof -
  have "extract_forwarded_ip hs (gm_trusted_proxy_networks gm) (gm_trust_proxy_headers gm) = Some a"
    using assms(8) by (intro extract_walk [OF assms(1-7)]) (simp add: list_all_iff)
  with trusted_peer_text [OF assms(1)] assms(1,9) show ?thesis
    by (simp add: geo_dispatch_def resolve_client_ip_def ws_admits_def ws_client_ip_def)
qed

text \<open>Whom the check lets in when it is enabled and fails closed: private addresses, the allowlist, and addresses the
  database knows, unless their country is blocked. An entry of the database without a country code is let in.\<close>

theorem fail_closed_exact:
  assumes "gc_enabled (gb_config gb)" "gc_fail_closed (gb_config gb)"
  shows "\<not> fst (check_ip gb c) \<longleftrightarrow>
    (\<exists>a. c = Addr a \<and> (is_private_or_loopback a \<or> list_ex (in_network a) (gb_allowed_networks gb) \<or>
       (\<exists>reader code. gb_reader gb = Some reader \<and> reader a = Country code \<and>
          (\<forall>cc. code = Some cc \<longrightarrow> cc = [] \<or> upper cc \<notin> set (gc_blocked_countries (gb_config gb))))))"
  using assms by (cases c) (auto simp: check_ip_def Let_def split: option.splits geo_answer.splits if_splits)

section \<open>Witnesses, and a header that does bypass the check\<close>

definition demo_checker :: GeoBlockChecker where
  "demo_checker = geo_checker (geo_from_env None None None None) (Some (\<lambda>a. Country (Some ''RU'')))"

definition demo_headers :: headers where
  "demo_headers = [(''x-forwarded-for'', ''8.8.8.8, 10.0.0.1''), (''X-Forwarded-For'', ''5.5.5.5,100.64.0.7'')]"

definition demo_forged :: string where
  "demo_forged = ''8.8.8.8, 10.0.0.1,''"

definition demo_entry :: string where
  "demo_entry = '' 5.5.5.5''"

lemma demo_peer: "is_trusted_proxy (gm_from_env None None) ''100.64.0.2''"
  by code_simp

lemma demo_no_forwarded: "header_lines demo_headers ''Forwarded'' = []"
  by (simp add: demo_headers_def header_lines_def lower_def lower_char_def)

lemma demo_collected: "collect_header_values demo_headers ''X-Forwarded-For'' = demo_forged @ demo_entry @ appended [''100.64.0.7'']"
  by code_simp

lemma demo_forged_separated: "demo_forged = [] \<or> last demo_forged = CHR '',''"
  by (simp add: demo_forged_def)

lemma demo_entry_single: "CHR '','' \<notin> set demo_entry"
  by (simp add: demo_entry_def)

lemma demo_client: "normalize_forwarded_ip demo_entry = Some (V4 0x05050505)"
  by code_simp

lemma demo_untrusted: "\<not> is_trusted_proxy_entry (gm_trusted_proxy_networks (gm_from_env None None)) (gm_trust_proxy_headers (gm_from_env None None)) (V4 0x05050505)"
  by code_simp

lemma demo_hops: "list_all (trusted_hop (gm_trusted_proxy_networks (gm_from_env None None)) (gm_trust_proxy_headers (gm_from_env None None))) [''100.64.0.7'']"
  by code_simp

lemma demo_refused: "fst (check_ip demo_checker (Addr (V4 0x05050505)))"
  by code_simp

theorem geo_block_not_bypassed_witness: "geo_dispatch (gm_from_env None None) demo_checker (Some ''100.64.0.2'') demo_headers = Forbidden"
  using geo_block_not_bypassed [OF demo_peer demo_no_forwarded demo_collected demo_forged_separated demo_entry_single demo_client
      demo_untrusted demo_hops demo_refused] by (rule conjunct1)

text \<open>The same request with a \<open>Forwarded\<close> header of the client's own, which a proxy that maintains only
  \<open>X-Forwarded-For\<close> passes on: the header takes precedence, names a private address, and the request is let in.\<close>

theorem forwarded_header_bypasses:
  "geo_dispatch (gm_from_env None None) demo_checker (Some ''100.64.0.2'') ((''Forwarded'', ''for=10.0.0.1'') # demo_headers) = CallNext"
proof -
  let ?gm = "gm_from_env None None" and ?hs = "(''Forwarded'', ''for=10.0.0.1'') # demo_headers"
  have header: "collect_header_values ?hs ''Forwarded'' = ''for=10.0.0.1''"
    by (simp add: demo_headers_def collect_header_values_def header_lines_def lower_def lower_char_def)
  have chain: "parse_forwarded_header_chain ''for=10.0.0.1'' = [V4 0x0A000001]" by code_simp
  have chosen: "select_client_ip [V4 0x0A000001] (gm_trusted_proxy_networks ?gm) (gm_trust_proxy_headers ?gm) = Some (V4 0x0A000001)" by code_simp
  have let_in: "\<not> fst (check_ip demo_checker (Addr (V4 0x0A000001)))" by code_simp
  show ?thesis using let_in demo_peer
    by (simp only: geo_dispatch_def resolve_client_ip_def extract_forwarded_ip_def header chain chosen option.case if_False if_True HOL.simp_thms list.distinct)
qed

end
