(* ===== verification/Connections.thy ===== *)
theory Connections
  imports Client_Address
begin

text \<open>
  The life of a connection: \<open>_handle_connection\<close> and \<open>_cleanup_connection\<close> of
  \<open>src/src/websocket_handler/server.py\<close> and the registry of \<open>connection_manager.py\<close>. Every connection has a coroutine of
  its own; they share the server's dictionaries and interleave wherever one awaits. A socket is identified with the id
  of its connection. Who connects, what the resolver of station ids and the security manager answer, what raises, when
  a session ends and when a socket closes are the events of the machine. The statements on the tables (connectors
  unavailable, sessions seen, connectors available again) are recorded in the order in which they are executed. The
  server has its database clients, its security manager and its connection manager, as \<open>_initialize_components\<close> sets
  them. An await that does not suspend is a special case of one that does.
\<close>

section \<open>Model: the registry of the connection manager\<close>

type_synonym cid = string

record ConnectionStats =
  cs_station_id :: string
  cs_client_ip :: client
  cs_connected_at :: dtime
  cs_messages_received :: int
  cs_messages_sent :: int
  cs_bytes_received :: int
  cs_bytes_sent :: int
  cs_last_activity :: dtime

text \<open>\<open>mg_marked\<close>: stations and connections for which \<open>_mark_connection_for_cleanup\<close> awaits the close of the socket.
  \<open>mg_kills\<close>: what the monitor has found stale and not yet marked.\<close>

record ConnectionManager =
  mg_connections :: "cid list"
  mg_station_connections :: "(string, cid) pydict"
  mg_last_heartbeats :: "(string, dtime) pydict"
  mg_connection_stats :: "(cid, ConnectionStats) pydict"
  mg_kills :: "string list"
  mg_marked :: "(string \<times> cid) list"

definition register_connection :: "string \<Rightarrow> cid \<Rightarrow> client \<Rightarrow> dtime \<Rightarrow> ConnectionManager \<Rightarrow> ConnectionManager" where
  "register_connection s c ip now mg =
     mg\<lparr>mg_connections := List.insert c (mg_connections mg),
        mg_station_connections := AList.update s c (mg_station_connections mg),
        mg_last_heartbeats := AList.update s now (mg_last_heartbeats mg),
        mg_connection_stats := AList.update c
          \<lparr>cs_station_id = s, cs_client_ip = ip, cs_connected_at = now, cs_messages_received = 0, cs_messages_sent = 0,
           cs_bytes_received = 0, cs_bytes_sent = 0, cs_last_activity = now\<rparr> (mg_connection_stats mg)\<rparr>"

text \<open>With the id of a connection, which every caller passes.\<close>

definition unregister_connection :: "string \<Rightarrow> cid \<Rightarrow> ConnectionManager \<Rightarrow> ConnectionManager" where
  "unregister_connection s c mg =
     (if c = [] then mg
      else let mg1 = mg\<lparr>mg_connections := removeAll c (mg_connections mg), mg_connection_stats := AList.delete c (mg_connection_stats mg)\<rparr>
           in if map_of (mg_station_connections mg) s = Some c
              then mg1\<lparr>mg_station_connections := AList.delete s (mg_station_connections mg),
                       mg_last_heartbeats := AList.delete s (mg_last_heartbeats mg)\<rparr>
              else mg1)"

definition get_connection :: "string \<Rightarrow> ConnectionManager \<Rightarrow> cid option" where
  "get_connection s mg =
     (case map_of (mg_station_connections mg) s of
        None \<Rightarrow> None
      | Some c \<Rightarrow> if c \<noteq> [] \<and> c \<in> set (mg_connections mg) then Some c else None)"

definition update_heartbeat :: "string \<Rightarrow> dtime \<Rightarrow> ConnectionManager \<Rightarrow> ConnectionManager" where
  "update_heartbeat s now mg = mg\<lparr>mg_last_heartbeats := AList.update s now (mg_last_heartbeats mg)\<rparr>"

definition bump_stats :: "cid \<Rightarrow> (ConnectionStats \<Rightarrow> ConnectionStats) \<Rightarrow> ConnectionManager \<Rightarrow> ConnectionManager" where
  "bump_stats c f mg =
     (case map_of (mg_connection_stats mg) c of
        None \<Rightarrow> mg
      | Some st \<Rightarrow> mg\<lparr>mg_connection_stats := AList.update c (f st) (mg_connection_stats mg)\<rparr>)"

definition record_message_received :: "string \<Rightarrow> int \<Rightarrow> dtime \<Rightarrow> ConnectionManager \<Rightarrow> ConnectionManager" where
  "record_message_received s nbytes now mg =
     (case map_of (mg_station_connections mg) s of
        None \<Rightarrow> mg
      | Some c \<Rightarrow> if c = [] then mg
                  else bump_stats c (\<lambda>st. st\<lparr>cs_messages_received := cs_messages_received st + 1,
                                             cs_bytes_received := cs_bytes_received st + nbytes, cs_last_activity := now\<rparr>) mg)"

text \<open>\<open>_mark_connection_for_cleanup\<close> up to the close of the socket; the rest is \<open>unregister_connection\<close>. The second
  result is the socket to close.\<close>

definition mark_connection_for_cleanup :: "string \<Rightarrow> ConnectionManager \<Rightarrow> ConnectionManager \<times> cid option" where
  "mark_connection_for_cleanup s mg =
     (case get_connection s mg of
        None \<Rightarrow> (mg, None)
      | Some c \<Rightarrow> (mg\<lparr>mg_marked := mg_marked mg @ [(s, c)]\<rparr>, Some c))"

text \<open>The end of \<open>send_message_to_station\<close>: the message went out, or the send raised. The statistics are those of the
  connection the station has by then; a station without one makes the lookup raise.\<close>

definition send_end :: "string \<Rightarrow> int \<Rightarrow> bool \<Rightarrow> dtime \<Rightarrow> ConnectionManager \<Rightarrow> bool \<times> ConnectionManager \<times> cid option" where
  "send_end s nbytes sent now mg =
     (case (sent, map_of (mg_station_connections mg) s) of
        (True, Some c) \<Rightarrow>
          (True, bump_stats c (\<lambda>st. st\<lparr>cs_messages_sent := cs_messages_sent st + 1, cs_bytes_sent := cs_bytes_sent st + nbytes,
                                       cs_last_activity := now\<rparr>) mg, None)
      | _ \<Rightarrow> (False, mark_connection_for_cleanup s mg))"

text \<open>One pass of \<open>_monitor_connections\<close>: whom it finds stale. Times are in microseconds, the settings in seconds.\<close>

definition stale_stations :: "int \<Rightarrow> int \<Rightarrow> cid list \<Rightarrow> dtime \<Rightarrow> ConnectionManager \<Rightarrow> string list" where
  "stale_stations interval silence closed_ids now mg =
     map fst (filter (\<lambda>(s, last).
         last < now - interval * 3 * usec_per_sec \<and>
         (case get_connection s mg of
            None \<Rightarrow> True
          | Some c \<Rightarrow> c \<in> set closed_ids \<or> last < now - silence * usec_per_sec))
       (mg_last_heartbeats mg))"

text \<open>\<open>_cleanup_stale_connections\<close> for one closed connection: the station that has it, if any.\<close>

definition cleanup_stale :: "cid \<Rightarrow> ConnectionManager \<Rightarrow> ConnectionManager" where
  "cleanup_stale c mg =
     (case List.find (\<lambda>(sid, cid). cid = c) (mg_station_connections mg) of
        Some (sid, _) \<Rightarrow> if sid = [] then mg else unregister_connection sid c mg
      | None \<Rightarrow> mg)"

section \<open>Model: the server\<close>

record ServerConfig =
  max_connections :: int
  max_connections_per_ip :: int
  vdv463_enabled :: bool
  require_station_auth :: bool
  heartbeat_interval :: int
  absolute_silence_seconds :: int

text \<open>Where the coroutine of a connection awaits. \<open>Replacing\<close> and \<open>Cleaning\<close> are inside \<open>_cleanup_connection\<close>, of the
  connection that is replaced and of its own: the station being cleaned, the connection, its client if this cleanup is
  the one that removed it, and what is awaited there. \<open>Failed\<close> is a coroutine that raised before its \<open>try\<close>.\<close>

datatype cleanup_phase = AwaitUnregister bool | AwaitUnavailable | AwaitSeen

datatype pc =
    Rejecting
  | Resolving string
  | Authenticating string
  | VdvAuthenticating string
  | VdvRunning
  | Replacing string string cid "client option" cleanup_phase
  | Marking string
  | Registering string
  | Running string
  | Cleaning string "client option" cleanup_phase
  | Failed string
  | Ended

record handler =
  h_client :: client
  h_pc :: pc

datatype db_write = ConnectorsUnavailable string | SessionsSeen string | ConnectorsAvailable string

record OCPPWebSocketServer =
  sv_connections :: "cid list"
  sv_station_connections :: "(string, cid) pydict"
  sv_charge_points :: "(string, cid) pydict"
  sv_ip_connection_count :: "(client, int) pydict"
  sv_connection_client_ips :: "(cid, client) pydict"
  sv_manager :: ConnectionManager
  sv_handlers :: "(cid, handler) pydict"
  sv_close_tasks :: "cid list"
  sv_closed :: "cid list"
  sv_writes :: "db_write list"

definition count_of :: "(client, int) pydict \<Rightarrow> client \<Rightarrow> int" where
  "count_of d a = (case map_of d a of None \<Rightarrow> 0 | Some n \<Rightarrow> n)"

definition release_client_ip :: "client \<Rightarrow> (client, int) pydict \<Rightarrow> (client, int) pydict" where
  "release_client_ip a d =
     (case map_of d a of
        None \<Rightarrow> d
      | Some n \<Rightarrow> if max 0 (n - 1) = 0 then AList.delete a d else AList.update a (max 0 (n - 1)) d)"

definition goto_pc :: "cid \<Rightarrow> pc \<Rightarrow> OCPPWebSocketServer \<Rightarrow> OCPPWebSocketServer" where
  "goto_pc c p sv =
     (case map_of (sv_handlers sv) c of
        None \<Rightarrow> sv
      | Some h \<Rightarrow> sv\<lparr>sv_handlers := AList.update c (h\<lparr>h_pc := p\<rparr>) (sv_handlers sv)\<rparr>)"

text \<open>\<open>_cleanup_connection\<close> up to its first await. A station without a name is looked up by its connection, and one
  that is still without a name after that skips the rest.\<close>

definition station_to_clean :: "string \<Rightarrow> cid \<Rightarrow> OCPPWebSocketServer \<Rightarrow> string" where
  "station_to_clean s c sv =
     (if s \<noteq> [] then s
      else case List.find (\<lambda>(sid, cid). cid = c) (sv_station_connections sv) of Some (sid, _) \<Rightarrow> sid | None \<Rightarrow> [])"

definition drop_connection :: "cid \<Rightarrow> OCPPWebSocketServer \<Rightarrow> OCPPWebSocketServer" where
  "drop_connection c sv =
     sv\<lparr>sv_connection_client_ips := AList.delete c (sv_connection_client_ips sv), sv_connections := removeAll c (sv_connections sv)\<rparr>"

definition drop_route :: "string \<Rightarrow> OCPPWebSocketServer \<Rightarrow> OCPPWebSocketServer" where
  "drop_route s sv =
     sv\<lparr>sv_station_connections := AList.delete s (sv_station_connections sv), sv_charge_points := AList.delete s (sv_charge_points sv)\<rparr>"

text \<open>The end of \<open>_cleanup_connection\<close>.\<close>

definition cleanup_end :: "cid \<Rightarrow> client option \<Rightarrow> OCPPWebSocketServer \<Rightarrow> OCPPWebSocketServer" where
  "cleanup_end c ip sv =
     sv\<lparr>sv_ip_connection_count := (case ip of None \<Rightarrow> sv_ip_connection_count sv | Some a \<Rightarrow> release_client_ip a (sv_ip_connection_count sv)),
        sv_close_tasks := c # sv_close_tasks sv\<rparr>"

text \<open>Storing a connection, and taking over a station: \<open>_handle_connection\<close> once the station is authenticated.\<close>

definition store_connection :: "cid \<Rightarrow> string \<Rightarrow> OCPPWebSocketServer \<Rightarrow> OCPPWebSocketServer" where
  "store_connection c s sv =
     goto_pc c (Marking s)
       (sv\<lparr>sv_connections := List.insert c (sv_connections sv),
           sv_station_connections := AList.update s c (sv_station_connections sv)\<rparr>)"

definition cleanup_begin :: "cid \<Rightarrow> cid \<Rightarrow> string \<Rightarrow> (string \<Rightarrow> client option \<Rightarrow> cleanup_phase \<Rightarrow> pc) \<Rightarrow>
    (OCPPWebSocketServer \<Rightarrow> OCPPWebSocketServer) \<Rightarrow> OCPPWebSocketServer \<Rightarrow> OCPPWebSocketServer" where
  "cleanup_begin me c s waiting continue sv =
     (let ip = map_of (sv_connection_client_ips sv) c;
          sv1 = drop_connection c sv;
          sid = station_to_clean s c sv1
      in if sid = [] then continue (cleanup_end c ip sv1)
         else let is_current = (map_of (sv_station_connections sv1) sid = Some c)
              in goto_pc me (waiting sid ip (AwaitUnregister is_current)) (if is_current then drop_route sid sv1 else sv1))"

definition take_station :: "cid \<Rightarrow> string \<Rightarrow> OCPPWebSocketServer \<Rightarrow> OCPPWebSocketServer" where
  "take_station c s sv =
     (case map_of (sv_station_connections sv) s of
        Some old \<Rightarrow>
          if old \<in> set (sv_connections sv)
          then cleanup_begin c old s (\<lambda>sid. Replacing s sid old) (store_connection c s) sv
          else store_connection c s sv
      | None \<Rightarrow> store_connection c s sv)"

text \<open>The awaits inside \<open>_cleanup_connection\<close>; \<open>ok\<close> says that the statement was executed, not that it failed or timed
  out. Afterwards the caller goes on with \<open>continue\<close>.\<close>

definition cleanup_advance :: "cid \<Rightarrow> cid \<Rightarrow> string \<Rightarrow> client option \<Rightarrow> cleanup_phase \<Rightarrow> bool \<Rightarrow> (cleanup_phase \<Rightarrow> pc) \<Rightarrow>
    (OCPPWebSocketServer \<Rightarrow> OCPPWebSocketServer) \<Rightarrow> OCPPWebSocketServer \<Rightarrow> OCPPWebSocketServer" where
  "cleanup_advance me c s ip phase ok waiting continue sv =
     (case phase of
        AwaitUnregister is_current \<Rightarrow>
          (let sv1 = sv\<lparr>sv_manager := unregister_connection s c (sv_manager sv)\<rparr>
           in if is_current then goto_pc me (waiting AwaitUnavailable) sv1 else continue (cleanup_end c ip sv1))
      | AwaitUnavailable \<Rightarrow>
          goto_pc me (waiting AwaitSeen) (if ok then sv\<lparr>sv_writes := sv_writes sv @ [ConnectorsUnavailable s]\<rparr> else sv)
      | AwaitSeen \<Rightarrow>
          continue (cleanup_end c ip (if ok then sv\<lparr>sv_writes := sv_writes sv @ [SessionsSeen s]\<rparr> else sv)))"

text \<open>A rejected connection after its socket is closed: the slot is released and the tracking removed.\<close>

definition reject_end :: "cid \<Rightarrow> client \<Rightarrow> OCPPWebSocketServer \<Rightarrow> OCPPWebSocketServer" where
  "reject_end c ip sv =
     goto_pc c Ended (sv\<lparr>sv_ip_connection_count := release_client_ip ip (sv_ip_connection_count sv),
                         sv_connection_client_ips := AList.delete c (sv_connection_client_ips sv)\<rparr>)"

text \<open>The path: \<open>path.strip("/")\<close>, its parts, and the station id.\<close>

definition strip_slashes :: "string \<Rightarrow> string" where
  "strip_slashes path = rev (dropWhile (\<lambda>ch. ch = CHR ''/'') (rev (dropWhile (\<lambda>ch. ch = CHR ''/'') path)))"

definition path_parts :: "string \<Rightarrow> string list" where
  "path_parts path = filter (\<lambda>p. p \<noteq> []) (py_split (CHR ''/'') (strip_slashes path))"

definition path_protocol :: "string \<Rightarrow> string option" where
  "path_protocol path = (case path_parts path of [] \<Rightarrow> None | p # _ \<Rightarrow> Some p)"

definition presystem_of_path :: "cid \<Rightarrow> string \<Rightarrow> string" where
  "presystem_of_path c path = (if length (path_parts path) > 1 then path_parts path ! 1 else ''presystem_'' @ c)"

definition station_of_path :: "cid \<Rightarrow> string \<Rightarrow> string" where
  "station_of_path c path =
     (if path_protocol path = Some ''ocpp'' \<and> length (path_parts path) > 1 then last (path_parts path)
      else if strip_slashes path \<noteq> [] then strip_slashes path
      else ''station_'' @ c)"

text \<open>\<open>_handle_connection\<close> up to its first await. The ids are fresh (\<open>uuid4\<close>). Reading the counter of a client makes an
  entry of it.\<close>

definition connect :: "ServerConfig \<Rightarrow> GeoBlockMiddleware \<Rightarrow> GeoBlockChecker \<Rightarrow> cid \<Rightarrow> string \<Rightarrow> headers \<Rightarrow> string \<Rightarrow> string option \<Rightarrow>
    OCPPWebSocketServer \<Rightarrow> OCPPWebSocketServer" where
  "connect cfg gm gb c peer_ip hs path subprotocol sv =
     (let ip = ws_client_ip gm peer_ip hs
      in if c = [] \<or> c \<in> keys (sv_handlers sv) then sv
         else if \<not> ws_admits gm gb peer_ip hs \<or> int (length (sv_connections sv)) \<ge> max_connections cfg
         then sv\<lparr>sv_handlers := AList.update c \<lparr>h_client = ip, h_pc = Ended\<rparr> (sv_handlers sv)\<rparr>
         else if count_of (sv_ip_connection_count sv) ip \<ge> max_connections_per_ip cfg
         then sv\<lparr>sv_ip_connection_count := AList.update ip (count_of (sv_ip_connection_count sv) ip) (sv_ip_connection_count sv),
                 sv_handlers := AList.update c \<lparr>h_client = ip, h_pc = Ended\<rparr> (sv_handlers sv)\<rparr>
         else let p = (if path_protocol path = Some ''vdv463'' \<and> vdv463_enabled cfg
                       then (if require_station_auth cfg then VdvAuthenticating (presystem_of_path c path) else VdvRunning)
                       else if subprotocol \<in> {Some ''ocpp1.6'', Some ''ocpp2.0.1'', Some ''ocpp2.1''} then Resolving (station_of_path c path)
                       else Rejecting)
              in sv\<lparr>sv_ip_connection_count := AList.update ip (count_of (sv_ip_connection_count sv) ip + 1) (sv_ip_connection_count sv),
                    sv_connection_client_ips := AList.update c ip (sv_connection_client_ips sv),
                    sv_handlers := AList.update c \<lparr>h_client = ip, h_pc = p\<rparr> (sv_handlers sv)\<rparr>)"

text \<open>The security manager accepts, refuses, or the extraction of the credentials or the check raises.\<close>

datatype auth_answer = Accepted | Refused | Raised

datatype conn_event =
    Connect cid string headers string "string option"
  | CloseReturned cid
  | Resolved cid "string option"
  | Authenticated cid string auth_answer
  | CleanupAwaited cid bool
  | ConnectorsMarked cid bool bool
  | RegisteredWith cid bool dtime
  | SessionEnded cid
  | SocketClosed cid
  | HeartbeatSeen string dtime
  | MessageReceived string int dtime
  | MessageSent string int bool dtime
  | MonitorPass dtime
  | KillNext
  | MarkedClosed string cid
  | StaleSweep cid

definition pc_of :: "OCPPWebSocketServer \<Rightarrow> cid \<Rightarrow> pc option" where
  "pc_of sv c = map_option h_pc (map_of (sv_handlers sv) c)"

text \<open>The resolver's answer, when it has one, replaces the station id; then the station is authenticated if that is
  required.\<close>

definition resolved :: "ServerConfig \<Rightarrow> cid \<Rightarrow> string \<Rightarrow> OCPPWebSocketServer \<Rightarrow> OCPPWebSocketServer" where
  "resolved cfg c s sv = (if require_station_auth cfg then goto_pc c (Authenticating s) sv else take_station c s sv)"

definition authenticated :: "cid \<Rightarrow> string \<Rightarrow> auth_answer \<Rightarrow> OCPPWebSocketServer \<Rightarrow> OCPPWebSocketServer" where
  "authenticated c s answer sv =
     (case answer of Accepted \<Rightarrow> take_station c s sv | Refused \<Rightarrow> goto_pc c Rejecting sv | Raised \<Rightarrow> goto_pc c (Failed s) sv)"

definition vdv_authenticated :: "cid \<Rightarrow> string \<Rightarrow> auth_answer \<Rightarrow> OCPPWebSocketServer \<Rightarrow> OCPPWebSocketServer" where
  "vdv_authenticated c s answer sv =
     (case answer of Accepted \<Rightarrow> goto_pc c VdvRunning sv | Refused \<Rightarrow> goto_pc c Rejecting sv | Raised \<Rightarrow> goto_pc c (Failed s) sv)"

text \<open>After \<open>mark_connectors_available_after_reconnect\<close>, which may fail, the session object is made, which may raise.\<close>

definition connectors_marked :: "cid \<Rightarrow> string \<Rightarrow> bool \<Rightarrow> bool \<Rightarrow> OCPPWebSocketServer \<Rightarrow> OCPPWebSocketServer" where
  "connectors_marked c s written made sv =
     (let sv1 = (if written then sv\<lparr>sv_writes := sv_writes sv @ [ConnectorsAvailable s]\<rparr> else sv)
      in if made then goto_pc c (Registering s) (sv1\<lparr>sv_charge_points := AList.update s c (sv_charge_points sv1)\<rparr>)
         else goto_pc c (Failed s) sv1)"

fun conn_step :: "ServerConfig \<Rightarrow> GeoBlockMiddleware \<Rightarrow> GeoBlockChecker \<Rightarrow> OCPPWebSocketServer \<Rightarrow> conn_event \<Rightarrow> OCPPWebSocketServer" where
  "conn_step cfg gm gb sv (Connect c peer_ip hs path subprotocol) = connect cfg gm gb c peer_ip hs path subprotocol sv"
| "conn_step cfg gm gb sv (CloseReturned c) =
     (case map_of (sv_handlers sv) c of
        Some h \<Rightarrow> if h_pc h = Rejecting then reject_end c (h_client h) sv else sv
      | None \<Rightarrow> sv)"
| "conn_step cfg gm gb sv (Resolved c answer) =
     (case pc_of sv c of
        Some (Resolving s) \<Rightarrow> resolved cfg c (case answer of None \<Rightarrow> s | Some s' \<Rightarrow> s') sv
      | _ \<Rightarrow> sv)"
| "conn_step cfg gm gb sv (Authenticated c s answer) =
     (case pc_of sv c of
        Some (Authenticating s') \<Rightarrow> if s' = s then authenticated c s answer sv else sv
      | Some (VdvAuthenticating s') \<Rightarrow> if s' = s then vdv_authenticated c s answer sv else sv
      | _ \<Rightarrow> sv)"
| "conn_step cfg gm gb sv (CleanupAwaited c ok) =
     (case pc_of sv c of
        Some (Replacing s sid old ip phase) \<Rightarrow> cleanup_advance c old sid ip phase ok (Replacing s sid old ip) (store_connection c s) sv
      | Some (Cleaning s ip phase) \<Rightarrow> cleanup_advance c c s ip phase ok (Cleaning s ip) (goto_pc c Ended) sv
      | _ \<Rightarrow> sv)"
| "conn_step cfg gm gb sv (ConnectorsMarked c written made) =
     (case pc_of sv c of Some (Marking s) \<Rightarrow> connectors_marked c s written made sv | _ \<Rightarrow> sv)"
| "conn_step cfg gm gb sv (RegisteredWith c ok now) =
     (case map_of (sv_handlers sv) c of
        Some h \<Rightarrow>
          (case h_pc h of
             Registering s \<Rightarrow>
               if ok then goto_pc c (Running s) (sv\<lparr>sv_manager := register_connection s c (h_client h) now (sv_manager sv)\<rparr>)
               else goto_pc c (Failed s) sv
           | _ \<Rightarrow> sv)
      | None \<Rightarrow> sv)"
| "conn_step cfg gm gb sv (SessionEnded c) =
     (case map_of (sv_handlers sv) c of
        Some h \<Rightarrow>
          (case h_pc h of
             VdvRunning \<Rightarrow> reject_end c (h_client h) sv
           | Running s \<Rightarrow> cleanup_begin c c s Cleaning (goto_pc c Ended) sv
           | _ \<Rightarrow> sv)
      | None \<Rightarrow> sv)"
| "conn_step cfg gm gb sv (SocketClosed c) = sv\<lparr>sv_closed := List.insert c (sv_closed sv), sv_close_tasks := removeAll c (sv_close_tasks sv)\<rparr>"
| "conn_step cfg gm gb sv (HeartbeatSeen s now) = sv\<lparr>sv_manager := update_heartbeat s now (sv_manager sv)\<rparr>"
| "conn_step cfg gm gb sv (MessageReceived s nbytes now) = sv\<lparr>sv_manager := record_message_received s nbytes now (sv_manager sv)\<rparr>"
| "conn_step cfg gm gb sv (MessageSent s nbytes sent now) =
     (let r = send_end s nbytes sent now (sv_manager sv)
      in sv\<lparr>sv_manager := fst (snd r), sv_close_tasks := (case snd (snd r) of None \<Rightarrow> sv_close_tasks sv | Some c \<Rightarrow> c # sv_close_tasks sv)\<rparr>)"
| "conn_step cfg gm gb sv (MonitorPass now) =
     (let mg = sv_manager sv
      in if mg_kills mg \<noteq> [] then sv
         else sv\<lparr>sv_manager := mg\<lparr>mg_kills := stale_stations (heartbeat_interval cfg) (absolute_silence_seconds cfg) (sv_closed sv) now mg\<rparr>\<rparr>)"
| "conn_step cfg gm gb sv KillNext =
     (case mg_kills (sv_manager sv) of
        [] \<Rightarrow> sv
      | s # rest \<Rightarrow>
          (let r = mark_connection_for_cleanup s ((sv_manager sv)\<lparr>mg_kills := rest\<rparr>)
           in sv\<lparr>sv_manager := fst r, sv_close_tasks := (case snd r of None \<Rightarrow> sv_close_tasks sv | Some c \<Rightarrow> c # sv_close_tasks sv)\<rparr>))"
| "conn_step cfg gm gb sv (MarkedClosed s c) =
     (let mg = sv_manager sv
      in if (s, c) \<in> set (mg_marked mg)
         then sv\<lparr>sv_manager := unregister_connection s c (mg\<lparr>mg_marked := remove1 (s, c) (mg_marked mg)\<rparr>)\<rparr> else sv)"
| "conn_step cfg gm gb sv (StaleSweep c) =
     (if c \<in> set (sv_closed sv) \<and> c \<in> set (mg_connections (sv_manager sv)) then sv\<lparr>sv_manager := cleanup_stale c (sv_manager sv)\<rparr> else sv)"

definition registry_init :: ConnectionManager where
  "registry_init = \<lparr>mg_connections = [], mg_station_connections = [], mg_last_heartbeats = [], mg_connection_stats = [], mg_kills = [], mg_marked = []\<rparr>"

definition sv_init :: OCPPWebSocketServer where
  "sv_init = \<lparr>sv_connections = [], sv_station_connections = [], sv_charge_points = [], sv_ip_connection_count = [],
     sv_connection_client_ips = [], sv_manager = registry_init, sv_handlers = [], sv_close_tasks = [], sv_closed = [], sv_writes = []\<rparr>"

abbreviation conn_run :: "ServerConfig \<Rightarrow> GeoBlockMiddleware \<Rightarrow> GeoBlockChecker \<Rightarrow> conn_event list \<Rightarrow> OCPPWebSocketServer" where
  "conn_run cfg gm gb es \<equiv> run_steps (conn_step cfg gm gb) sv_init es"

section \<open>Lemmas: slots\<close>

text \<open>A client's slots: the connections tracked for it, and those whose cleanup has removed the tracking and not yet
  released the slot.\<close>

fun pc_owes :: "pc \<Rightarrow> client option" where
  "pc_owes (Replacing s sid old ip phase) = ip"
| "pc_owes (Cleaning s ip phase) = ip"
| "pc_owes _ = None"

fun early :: "pc \<Rightarrow> bool" where
  "early Rejecting = True"
| "early (Resolving s) = True"
| "early (Authenticating s) = True"
| "early (VdvAuthenticating s) = True"
| "early VdvRunning = True"
| "early _ = False"

fun attached :: "pc \<Rightarrow> bool" where
  "attached (Marking s) = True"
| "attached (Registering s) = True"
| "attached (Running s) = True"
| "attached (Failed s) = True"
| "attached _ = False"

definition ind :: "bool \<Rightarrow> int" where
  "ind b = (if b then 1 else 0)"

definition tracked :: "OCPPWebSocketServer \<Rightarrow> client \<Rightarrow> int" where
  "tracked sv a = dict_sum (\<lambda>b. ind (b = a)) (sv_connection_client_ips sv)"

definition owed :: "OCPPWebSocketServer \<Rightarrow> client \<Rightarrow> int" where
  "owed sv a = dict_sum (\<lambda>h. ind (pc_owes (h_pc h) = Some a)) (sv_handlers sv)"

abbreviation slots :: "OCPPWebSocketServer \<Rightarrow> client \<Rightarrow> int" where
  "slots sv a \<equiv> count_of (sv_ip_connection_count sv) a"

definition surplus :: "OCPPWebSocketServer \<Rightarrow> client \<Rightarrow> int" where
  "surplus sv a = slots sv a - tracked sv a - owed sv a"

text \<open>The invariant in the middle of a step: \<open>f\<close> is the surplus of every client.\<close>

definition slot_state :: "ServerConfig \<Rightarrow> (client \<Rightarrow> int) \<Rightarrow> OCPPWebSocketServer \<Rightarrow> bool" where
  "slot_state cfg f sv \<longleftrightarrow>
     dict_ok (sv_handlers sv) \<and> dict_ok (sv_connection_client_ips sv) \<and>
     (\<forall>a. surplus sv a = f a) \<and> (\<forall>a. slots sv a \<le> max 0 (max_connections_per_ip cfg)) \<and>
     (\<forall>c h. map_of (sv_handlers sv) c = Some h \<longrightarrow> early (h_pc h) \<longrightarrow> map_of (sv_connection_client_ips sv) c = Some (h_client h)) \<and>
     (\<forall>c. map_of (sv_connection_client_ips sv) c \<noteq> None \<longrightarrow> pc_of sv c \<noteq> None) \<and>
     (\<forall>c. c \<in> set (sv_connections sv) \<longrightarrow> (\<exists>p. pc_of sv c = Some p \<and> attached p))"

abbreviation slot_inv :: "ServerConfig \<Rightarrow> OCPPWebSocketServer \<Rightarrow> bool" where
  "slot_inv cfg \<equiv> slot_state cfg (\<lambda>a. 0)"

lemma ind_simps [simp]: "ind True = 1" "ind False = 0" "0 \<le> ind b"
  by (simp_all add: ind_def)

lemma goto_pc_fields [simp]:
  "sv_connections (goto_pc c p sv) = sv_connections sv"
  "sv_station_connections (goto_pc c p sv) = sv_station_connections sv"
  "sv_charge_points (goto_pc c p sv) = sv_charge_points sv"
  "sv_ip_connection_count (goto_pc c p sv) = sv_ip_connection_count sv"
  "sv_connection_client_ips (goto_pc c p sv) = sv_connection_client_ips sv"
  "sv_manager (goto_pc c p sv) = sv_manager sv"
  "sv_close_tasks (goto_pc c p sv) = sv_close_tasks sv"
  "sv_closed (goto_pc c p sv) = sv_closed sv"
  "sv_writes (goto_pc c p sv) = sv_writes sv"
  by (simp_all add: goto_pc_def split: option.split)

lemma pc_of_goto [simp]: "pc_of (goto_pc c p sv) d = (if d = c \<and> pc_of sv c \<noteq> None then Some p else pc_of sv d)"
  by (auto simp: goto_pc_def pc_of_def split: option.split)

lemma handlers_goto [simp]:
  "map_of (sv_handlers (goto_pc c p sv)) d =
     (if d = c then map_option (\<lambda>h. h\<lparr>h_pc := p\<rparr>) (map_of (sv_handlers sv) c) else map_of (sv_handlers sv) d)"
  by (auto simp: goto_pc_def split: option.split)

lemma dict_ok_goto [simp]: "dict_ok (sv_handlers sv) \<Longrightarrow> dict_ok (sv_handlers (goto_pc c p sv))"
  by (simp add: goto_pc_def split: option.split)

lemma pc_of_cong: "sv_handlers sv' = sv_handlers sv \<Longrightarrow> pc_of sv' = pc_of sv"
  by (simp add: pc_of_def fun_eq_iff)

lemma owed_goto:
  assumes "dict_ok (sv_handlers sv)" "pc_of sv c = Some q"
  shows "owed (goto_pc c p sv) a = owed sv a + ind (pc_owes p = Some a) - ind (pc_owes q = Some a)"
proof -
  obtain h where h: "map_of (sv_handlers sv) c = Some h" "h_pc h = q" using assms(2) by (auto simp: pc_of_def)
  from dict_sum_update [OF assms(1) h(1), of "\<lambda>h. ind (pc_owes (h_pc h) = Some a)" "h\<lparr>h_pc := p\<rparr>"] h
  show ?thesis by (simp add: owed_def goto_pc_def)
qed

lemma surplus_goto:
  assumes "dict_ok (sv_handlers sv)" "pc_of sv c = Some q"
  shows "surplus (goto_pc c p sv) a = surplus sv a - ind (pc_owes p = Some a) + ind (pc_owes q = Some a)"
  using owed_goto [OF assms] by (simp add: surplus_def tracked_def)

lemma tracked_delete:
  "dict_ok d \<Longrightarrow> dict_sum (\<lambda>b. ind (b = a)) (AList.delete c d) = dict_sum (\<lambda>b. ind (b = a)) d - ind (map_of d c = Some a)"
proof (cases "map_of d c")
  case None
  then show ?thesis by (simp add: delete_no_key keys_map_of_None)
next
  case (Some b)
  assume "dict_ok d"
  from dict_sum_delete [OF this Some, of "\<lambda>b. ind (b = a)"] Some show ?thesis by simp
qed

lemma surplus_drop:
  "dict_ok (sv_connection_client_ips sv) \<Longrightarrow>
     surplus (drop_connection c sv) a = surplus sv a + ind (map_of (sv_connection_client_ips sv) c = Some a)"
  by (simp add: surplus_def tracked_def owed_def drop_connection_def tracked_delete)

lemma count_release: "0 < count_of d a \<Longrightarrow> count_of (release_client_ip a d) b = count_of d b - ind (b = a)"
  by (auto simp: count_of_def release_client_ip_def ind_def max_def split: option.splits)

lemma count_release_le: "count_of d b \<ge> 0 \<Longrightarrow> count_of (release_client_ip a d) b \<le> count_of d b"
  by (auto simp: count_of_def release_client_ip_def max_def split: option.splits)

lemma surplus_end:
  "(\<And>b. ip = Some b \<Longrightarrow> 0 < slots sv b) \<Longrightarrow> surplus (cleanup_end c ip sv) a = surplus sv a - ind (ip = Some a)"
  by (cases ip) (auto simp: surplus_def tracked_def owed_def cleanup_end_def count_release ind_def)

lemma dict_sum_nonneg: "(\<And>v. 0 \<le> g v) \<Longrightarrow> 0 \<le> dict_sum g d"
  for g :: "'v \<Rightarrow> int"
  by (induction d) (auto simp: dict_sum_def)

lemma nonneg_parts: "0 \<le> tracked sv a" "0 \<le> owed sv a"
  by (simp_all add: tracked_def owed_def dict_sum_nonneg)

lemma tracked_pos: "dict_ok (sv_connection_client_ips sv) \<Longrightarrow> map_of (sv_connection_client_ips sv) c = Some a \<Longrightarrow> 1 \<le> tracked sv a"
  using tracked_delete [of "sv_connection_client_ips sv" a c]
    dict_sum_nonneg [of "\<lambda>b. ind (b = a)" "AList.delete c (sv_connection_client_ips sv)"]
  by (simp add: tracked_def)

lemma owed_pos: "dict_ok (sv_handlers sv) \<Longrightarrow> pc_of sv c = Some p \<Longrightarrow> pc_owes p = Some a \<Longrightarrow> 1 \<le> owed sv a"
proof -
  assume ok: "dict_ok (sv_handlers sv)" and p: "pc_of sv c = Some p" and owes: "pc_owes p = Some a"
  from nonneg_parts(2) [of "goto_pc c Ended sv" a] owed_goto [OF ok p, of Ended a] owes show ?thesis by simp
qed

lemma slot_stateD:
  assumes "slot_state cfg f sv"
  shows "dict_ok (sv_handlers sv)" "dict_ok (sv_connection_client_ips sv)" "surplus sv a = f a" "slots sv a \<le> max 0 (max_connections_per_ip cfg)"
    "map_of (sv_handlers sv) c = Some h \<Longrightarrow> early (h_pc h) \<Longrightarrow> map_of (sv_connection_client_ips sv) c = Some (h_client h)"
    "c \<in> set (sv_connections sv) \<Longrightarrow> \<exists>p. pc_of sv c = Some p \<and> attached p"
    "map_of (sv_connection_client_ips sv) c = Some b \<Longrightarrow> \<exists>p. pc_of sv c = Some p"
  using assms by (auto simp: slot_state_def)

lemma slot_state_cong:
  "sv_handlers sv' = sv_handlers sv \<Longrightarrow> sv_connection_client_ips sv' = sv_connection_client_ips sv \<Longrightarrow>
   sv_ip_connection_count sv' = sv_ip_connection_count sv \<Longrightarrow> sv_connections sv' = sv_connections sv \<Longrightarrow>
   slot_state cfg f sv \<Longrightarrow> slot_state cfg f sv'"
  by (simp add: slot_state_def surplus_def tracked_def owed_def pc_of_def)

lemma slot_goto:
  assumes "slot_state cfg f sv" "pc_of sv c = Some q" "early p \<Longrightarrow> early q" "c \<in> set (sv_connections sv) \<Longrightarrow> attached p"
    "\<And>a. f' a = f a - ind (pc_owes p = Some a) + ind (pc_owes q = Some a)"
  shows "slot_state cfg f' (goto_pc c p sv)"
proof -
  note I = slot_stateD [OF assms(1)]
  have "map_of (sv_connection_client_ips sv) d = Some (h_client h)"
    if "map_of (sv_handlers (goto_pc c p sv)) d = Some h" "early (h_pc h)" for d h
    using that assms(2,3) I(5) by (auto simp: pc_of_def split: if_splits)
  moreover have "\<exists>q. pc_of (goto_pc c p sv) d = Some q \<and> attached q" if "d \<in> set (sv_connections sv)" for d
    using that assms(2,4) I(6) by auto
  ultimately show ?thesis
    using I(1,2,3,4,7) surplus_goto [OF I(1) assms(2)] assms(5) by (auto simp: slot_state_def)
qed

lemma slot_drop:
  assumes "slot_state cfg f sv" "\<And>p. pc_of sv c = Some p \<Longrightarrow> \<not> early p"
  shows "slot_state cfg (\<lambda>a. f a + ind (map_of (sv_connection_client_ips sv) c = Some a)) (drop_connection c sv)"
proof -
  note I = slot_stateD [OF assms(1)]
  have "map_of (AList.delete c (sv_connection_client_ips sv)) d = Some (h_client h)"
    if "map_of (sv_handlers sv) d = Some h" "early (h_pc h)" for d h
    using that assms(2) I(5) by (auto simp: pc_of_def)
  with I(1,2,3,4,6,7) surplus_drop [OF I(2), of c] show ?thesis
    by (auto simp: slot_state_def drop_connection_def pc_of_def)
qed

lemma cleanup_fields [simp]:
  "sv_handlers (cleanup_end c ip sv) = sv_handlers sv" "sv_connections (cleanup_end c ip sv) = sv_connections sv"
  "sv_station_connections (cleanup_end c ip sv) = sv_station_connections sv" "sv_manager (cleanup_end c ip sv) = sv_manager sv"
  "sv_connection_client_ips (cleanup_end c ip sv) = sv_connection_client_ips sv"
  "sv_handlers (drop_connection c sv) = sv_handlers sv" "sv_connections (drop_connection c sv) = removeAll c (sv_connections sv)"
  "sv_station_connections (drop_connection c sv) = sv_station_connections sv" "sv_manager (drop_connection c sv) = sv_manager sv"
  "sv_connection_client_ips (drop_connection c sv) = AList.delete c (sv_connection_client_ips sv)"
  "sv_handlers (drop_route s sv) = sv_handlers sv" "sv_connections (drop_route s sv) = sv_connections sv"
  "sv_station_connections (drop_route s sv) = AList.delete s (sv_station_connections sv)" "sv_manager (drop_route s sv) = sv_manager sv"
  "sv_connection_client_ips (drop_route s sv) = sv_connection_client_ips sv"
  by (simp_all add: cleanup_end_def drop_connection_def drop_route_def)

lemma pc_of_cleanup [simp]:
  "pc_of (cleanup_end c ip sv) = pc_of sv" "pc_of (drop_connection c sv) = pc_of sv" "pc_of (drop_route s sv) = pc_of sv"
  by (rule pc_of_cong, simp)+

lemma slot_end:
  assumes "slot_state cfg f sv" "\<And>b. ip = Some b \<Longrightarrow> 0 < slots sv b" "\<And>a. 0 \<le> slots sv a"
  shows "slot_state cfg (\<lambda>a. f a - ind (ip = Some a)) (cleanup_end c ip sv)"
proof -
  note I = slot_stateD [OF assms(1)]
  have "slots (cleanup_end c ip sv) a \<le> max 0 (max_connections_per_ip cfg)" for a
    using I(4) [of a] count_release_le [OF assms(3), of _ a]
    by (auto simp: cleanup_end_def intro: order_trans split: option.split)
  with I surplus_end [OF assms(2)] show ?thesis
    by (auto simp: slot_state_def cleanup_end_def pc_of_def)
qed

lemma slots_parts: "slot_state cfg f sv \<Longrightarrow> slots sv a = f a + tracked sv a + owed sv a"
  using slot_stateD(3) [of cfg f sv a] by (simp add: surplus_def)

lemma slot_insert:
  "slot_state cfg f sv \<Longrightarrow> pc_of sv c = Some p \<Longrightarrow> attached p \<Longrightarrow> slot_state cfg f (sv\<lparr>sv_connections := List.insert c (sv_connections sv)\<rparr>)"
  by (auto simp: slot_state_def surplus_def tracked_def owed_def pc_of_def)

lemma slot_store:
  assumes "slot_state cfg f sv" "pc_of sv c = Some q" "\<And>a. f' a = f a + ind (pc_owes q = Some a)"
  shows "slot_state cfg f' (store_connection c s sv)"
proof -
  define sv1 where "sv1 = sv\<lparr>sv_station_connections := AList.update s c (sv_station_connections sv)\<rparr>"
  have 1: "slot_state cfg f sv1" unfolding sv1_def by (rule slot_state_cong [OF _ _ _ _ assms(1)]) simp_all
  have pc: "pc_of sv1 = pc_of sv" by (rule pc_of_cong) (simp add: sv1_def)
  have 2: "slot_state cfg f' (goto_pc c (Marking s) sv1)"
    using assms(2,3) by (intro slot_goto [OF 1]) (auto simp: pc)
  have eq: "store_connection c s sv = (goto_pc c (Marking s) sv1)\<lparr>sv_connections := List.insert c (sv_connections (goto_pc c (Marking s) sv1))\<rparr>"
    by (auto simp: store_connection_def goto_pc_def sv1_def split: option.split)
  show ?thesis unfolding eq using assms(2) by (intro slot_insert [OF 2, of _ "Marking s"]) (simp_all add: pc)
qed

lemma slot_route: "slot_state cfg f sv \<Longrightarrow> slot_state cfg f (drop_route s sv)"
  by (rule slot_state_cong [rotated 4]) (simp_all add: drop_route_def)

text \<open>\<open>_cleanup_connection\<close>: what its first half removes from the tracking it owes until it ends.\<close>

lemma slot_cleanup_begin:
  assumes inv: "slot_inv cfg sv" and me: "pc_of sv me = Some q" "pc_owes q = None" "me \<notin> set (sv_connections sv) - {c}"
    and c: "\<And>p. pc_of sv c = Some p \<Longrightarrow> \<not> early p"
    and waiting: "\<And>sid ip phase. pc_owes (waiting sid ip phase) = ip \<and> \<not> early (waiting sid ip phase)"
    and continue: "\<And>sv. slot_inv cfg sv \<Longrightarrow> pc_of sv me = Some q \<Longrightarrow> me \<notin> set (sv_connections sv) \<Longrightarrow> slot_inv cfg (continue sv)"
  shows "slot_inv cfg (cleanup_begin me c s waiting continue sv)"
proof -
  define ip where "ip = map_of (sv_connection_client_ips sv) c"
  have 1: "slot_state cfg (\<lambda>a. ind (ip = Some a)) (drop_connection c sv)"
    using slot_drop [OF inv c] by (simp add: ip_def)
  have out: "me \<notin> set (sv_connections (drop_connection c sv))" using me(3) by auto
  have pos: "0 \<le> slots (drop_connection c sv) a" "ip = Some a \<Longrightarrow> 0 < slots (drop_connection c sv) a" for a
    using slots_parts [OF 1, of a] nonneg_parts [of "drop_connection c sv" a] by auto
  have "slot_inv cfg (cleanup_end c ip (drop_connection c sv))" using slot_end [OF 1, of ip c] pos by simp
  then have "slot_inv cfg (continue (cleanup_end c ip (drop_connection c sv)))" using me(1) out by (intro continue) simp_all
  moreover have "slot_inv cfg (goto_pc me (waiting sid ip phase) (drop_connection c sv))" for sid phase
    using me(1,2) out waiting by (intro slot_goto [OF 1]) auto
  moreover have "slot_inv cfg (goto_pc me (waiting sid ip phase) (drop_route sid' (drop_connection c sv)))" for sid sid' phase
    using me(1,2) out waiting by (intro slot_goto [OF slot_route [OF 1]]) auto
  ultimately show ?thesis by (simp add: cleanup_begin_def Let_def ip_def)
qed

lemma slot_cleanup_advance:
  assumes inv: "slot_inv cfg sv" and me: "pc_of sv me = Some q" "pc_owes q = ip" "\<not> early q" "me \<notin> set (sv_connections sv)"
    and waiting: "\<And>phase. pc_owes (waiting phase) = ip \<and> \<not> early (waiting phase)"
    and continue: "\<And>sv. slot_state cfg (\<lambda>a. - ind (ip = Some a)) sv \<Longrightarrow> pc_of sv me = Some q \<Longrightarrow> me \<notin> set (sv_connections sv) \<Longrightarrow>
       slot_inv cfg (continue sv)"
  shows "slot_inv cfg (cleanup_advance me c s ip phase ok waiting continue sv)"
proof -
  have go: "slot_inv cfg (goto_pc me (waiting ph) sv1) \<and> slot_inv cfg (continue (cleanup_end c ip sv1))"
    if same: "sv_handlers sv1 = sv_handlers sv" "sv_connection_client_ips sv1 = sv_connection_client_ips sv"
      "sv_ip_connection_count sv1 = sv_ip_connection_count sv" "sv_connections sv1 = sv_connections sv" for sv1 ph
  proof -
    have 1: "slot_inv cfg sv1" by (rule slot_state_cong [OF same inv])
    have pc: "pc_of sv1 me = Some q" using me(1) pc_of_cong [OF same(1)] by simp
    have pos: "0 \<le> slots sv1 a" "ip = Some a \<Longrightarrow> 0 < slots sv1 a" for a
      using slots_parts [OF 1, of a] nonneg_parts [of sv1 a] owed_pos [OF slot_stateD(1) [OF 1] pc, of a] me(2) by auto
    have "slot_inv cfg (continue (cleanup_end c ip sv1))"
      using slot_end [OF 1 pos(2,1)] pc me(4) same(4) by (intro continue) simp_all
    moreover have "slot_inv cfg (goto_pc me (waiting ph) sv1)"
      using pc me(2,4) same(4) waiting by (intro slot_goto [OF 1]) auto
    ultimately show ?thesis by simp
  qed
  show ?thesis by (auto simp: cleanup_advance_def Let_def go split: cleanup_phase.split)
qed

lemma slot_take:
  assumes "slot_inv cfg sv" "pc_of sv c = Some q" "early q"
  shows "slot_inv cfg (take_station c s sv)"
proof -
  have owes: "pc_owes q = None" using assms(3) by (cases q) auto
  have out: "c \<notin> set (sv_connections sv)" using slot_stateD(6) [OF assms(1), of c] assms(2,3) by (auto elim: early.elims)
  have store: "slot_inv cfg sv1 \<Longrightarrow> pc_of sv1 c = Some q \<Longrightarrow> slot_inv cfg (store_connection c s sv1)" for sv1
    by (rule slot_store [where f = "\<lambda>a. 0" and q = q]) (simp_all add: owes)
  have "slot_inv cfg (cleanup_begin c old s (\<lambda>sid. Replacing s sid old) (store_connection c s) sv)"
    if "old \<in> set (sv_connections sv)" for old
  proof (rule slot_cleanup_begin [OF assms(1,2) owes])
    show "c \<notin> set (sv_connections sv) - {old}" using out by simp
    show "\<And>p. pc_of sv old = Some p \<Longrightarrow> \<not> early p"
      using slot_stateD(6) [OF assms(1) that] by (auto elim: attached.elims)
  qed (simp_all add: store)
  with store assms(1,2) show ?thesis by (simp add: take_station_def split: option.split)
qed

lemma slot_reject:
  assumes inv: "slot_inv cfg sv" and h: "map_of (sv_handlers sv) c = Some h" "early (h_pc h)"
  shows "slot_inv cfg (reject_end c (h_client h) sv)"
proof -
  define sv1 where "sv1 = goto_pc c Ended sv"
  note I = slot_stateD [OF inv]
  have pc: "pc_of sv c = Some (h_pc h)" using h by (simp add: pc_of_def)
  have owes: "pc_owes (h_pc h) = None" using h(2) by (cases "h_pc h") auto
  have out: "c \<notin> set (sv_connections sv)" using I(6) [of c] pc h(2) by (auto elim: early.elims)
  have ip: "map_of (sv_connection_client_ips sv) c = Some (h_client h)" by (rule I(5) [OF h])
  have 1: "slot_inv cfg sv1" unfolding sv1_def using pc owes out by (intro slot_goto [OF inv]) auto
  have 2: "slot_state cfg (\<lambda>a. ind (h_client h = a)) (drop_connection c sv1)"
    using slot_drop [OF 1, of c] ip pc by (simp add: sv1_def)
  have "0 \<le> slots (drop_connection c sv1) a" "h_client h = a \<Longrightarrow> 0 < slots (drop_connection c sv1) a" for a
    using slots_parts [OF 2, of a] nonneg_parts [of "drop_connection c sv1" a] by auto
  then have 3: "slot_inv cfg (cleanup_end c (Some (h_client h)) (drop_connection c sv1))"
    using slot_end [OF 2, of "Some (h_client h)" c] by simp
  show ?thesis
    using out h(1) by (intro slot_state_cong [OF _ _ _ _ 3])
      (auto simp: reject_end_def sv1_def cleanup_end_def drop_connection_def goto_pc_def)
qed

lemma slot_connect:
  assumes inv: "slot_inv cfg sv"
  shows "slot_inv cfg (connect cfg gm gb c peer_ip hs path subprotocol sv)"
proof (cases "c = [] \<or> c \<in> keys (sv_handlers sv)")
  case True
  with inv show ?thesis by (auto simp: connect_def Let_def)
next
  case False
  then have new: "map_of (sv_handlers sv) c = None" by (simp add: keys_map_of_None)
  note I = slot_stateD [OF inv]
  have out: "c \<notin> set (sv_connections sv)" "map_of (sv_connection_client_ips sv) c = None"
    using I(6) [of c] I(7) [of c] new by (auto simp: pc_of_def intro: ccontr)
  define ip where "ip = ws_client_ip gm peer_ip hs"
  have pc: "pc_of (sv\<lparr>sv_handlers := AList.update c h (sv_handlers sv)\<rparr>) d = (if d = c then Some (h_pc h) else pc_of sv d)" for h d
    by (simp add: pc_of_def)
  have add: "slot_inv cfg (sv\<lparr>sv_ip_connection_count := cnt, sv_connection_client_ips := ips, sv_handlers := AList.update c \<lparr>h_client = ip, h_pc = p\<rparr> (sv_handlers sv)\<rparr>)"
    if "pc_owes p = None" "dict_ok ips" "early p \<Longrightarrow> map_of ips c = Some ip" "\<And>d. d \<noteq> c \<Longrightarrow> map_of ips d = map_of (sv_connection_client_ips sv) d"
      "\<And>a. count_of cnt a = slots sv a + dict_sum (\<lambda>b. ind (b = a)) ips - tracked sv a"
      "\<And>a. count_of cnt a \<le> max 0 (max_connections_per_ip cfg)" for cnt ips p
    using that I new out
    by (auto simp: slot_state_def surplus_def tracked_def owed_def pc_of_def dict_sum_new)
  have turned_away: "slot_inv cfg (sv\<lparr>sv_handlers := AList.update c \<lparr>h_client = ip, h_pc = Ended\<rparr> (sv_handlers sv)\<rparr>)"
    by (rule slot_state_cong [OF _ _ _ _ add [of Ended "sv_connection_client_ips sv" "sv_ip_connection_count sv"]])
      (use I out in \<open>simp_all add: tracked_def\<close>)
  have touched: "slot_inv cfg (sv\<lparr>sv_ip_connection_count := AList.update ip (slots sv ip) (sv_ip_connection_count sv),
      sv_handlers := AList.update c \<lparr>h_client = ip, h_pc = Ended\<rparr> (sv_handlers sv)\<rparr>)"
    by (rule slot_state_cong [OF _ _ _ _ add [of Ended "sv_connection_client_ips sv" "AList.update ip (slots sv ip) (sv_ip_connection_count sv)"]])
      (use I out in \<open>auto simp: tracked_def count_of_def\<close>)
  have admitted: "slot_inv cfg (sv\<lparr>sv_ip_connection_count := AList.update ip (slots sv ip + 1) (sv_ip_connection_count sv),
      sv_connection_client_ips := AList.update c ip (sv_connection_client_ips sv), sv_handlers := AList.update c \<lparr>h_client = ip, h_pc = p\<rparr> (sv_handlers sv)\<rparr>)"
    if "slots sv ip < max_connections_per_ip cfg" "pc_owes p = None" for p
    using that I out by (intro add) (auto simp: tracked_def count_of_def dict_sum_new ind_def)
  show ?thesis using False turned_away touched admitted by (auto simp: connect_def Let_def ip_def [symmetric])
qed

lemma not_connected: "slot_state cfg f sv \<Longrightarrow> pc_of sv c = Some q \<Longrightarrow> \<not> attached q \<Longrightarrow> c \<notin> set (sv_connections sv)"
  using slot_stateD(6) by fastforce

lemma slot_move:
  "slot_inv cfg sv \<Longrightarrow> pc_of sv c = Some q \<Longrightarrow> \<not> attached q \<Longrightarrow> early q \<or> \<not> early p \<Longrightarrow> pc_owes q = None \<Longrightarrow> pc_owes p = None \<Longrightarrow>
   slot_inv cfg (goto_pc c p sv)"
  using not_connected by (intro slot_goto) auto

lemma slot_step: "slot_inv cfg sv \<Longrightarrow> slot_inv cfg (conn_step cfg gm gb sv e)"
proof (cases e)
  assume inv: "slot_inv cfg sv"
  have same: "slot_inv cfg sv'"
    if "sv_handlers sv' = sv_handlers sv" "sv_connection_client_ips sv' = sv_connection_client_ips sv"
      "sv_ip_connection_count sv' = sv_ip_connection_count sv" "sv_connections sv' = sv_connections sv" for sv'
    by (rule slot_state_cong [OF that inv])
  {
    case (Connect c peer_ip hs path subprotocol)
    with slot_connect [OF inv] show ?thesis by simp
  next
    case (CloseReturned c)
    with slot_reject [OF inv] inv show ?thesis by (auto split: option.split)
  next
    case (Resolved c answer)
    have "slot_inv cfg (resolved cfg c s' sv)" if "pc_of sv c = Some (Resolving s)" for s s'
      using slot_take [OF inv that] slot_move [OF inv that] by (simp add: resolved_def)
    with Resolved inv show ?thesis by (auto split: option.split pc.split)
  next
    case (Authenticated c s answer)
    have "slot_inv cfg (authenticated c s answer sv)" if "pc_of sv c = Some (Authenticating s)"
      using slot_take [OF inv that] slot_move [OF inv that] by (simp add: authenticated_def split: auth_answer.split)
    moreover have "slot_inv cfg (vdv_authenticated c s answer sv)" if "pc_of sv c = Some (VdvAuthenticating s)"
      using slot_move [OF inv that] by (simp add: vdv_authenticated_def split: auth_answer.split)
    ultimately show ?thesis using Authenticated inv by (auto split: option.split pc.split)
  next
    case (CleanupAwaited c ok)
    have "slot_inv cfg (cleanup_advance c old sid ip phase ok (Replacing s sid old ip) (store_connection c s) sv)"
      if pc: "pc_of sv c = Some (Replacing s sid old ip phase)" for s sid old ip phase
      using not_connected [OF inv pc] by (intro slot_cleanup_advance [OF inv pc]) (auto intro: slot_store)
    moreover have "slot_inv cfg (cleanup_advance c c s ip phase ok (Cleaning s ip) (goto_pc c Ended) sv)"
      if pc: "pc_of sv c = Some (Cleaning s ip phase)" for s ip phase
      using not_connected [OF inv pc] by (intro slot_cleanup_advance [OF inv pc]) (auto intro: slot_goto)
    ultimately show ?thesis using CleanupAwaited inv by (auto split: option.split pc.split)
  next
    case (ConnectorsMarked c written made)
    have "slot_inv cfg (connectors_marked c s written made sv)" if pc: "pc_of sv c = Some (Marking s)" for s
    proof -
      have go: "slot_inv cfg (goto_pc c p sv')" if "\<not> early p" "attached p" "pc_owes p = None" "sv_handlers sv' = sv_handlers sv"
        "sv_connection_client_ips sv' = sv_connection_client_ips sv" "sv_ip_connection_count sv' = sv_ip_connection_count sv"
        "sv_connections sv' = sv_connections sv" for sv' p
        using that pc pc_of_cong [OF that(4)] by (intro slot_goto [OF same]) auto
      show ?thesis by (auto simp: connectors_marked_def Let_def intro!: go)
    qed
    with ConnectorsMarked inv show ?thesis by (auto split: option.split pc.split)
  next
    case (RegisteredWith c ok now)
    have go: "slot_inv cfg (goto_pc c p (sv\<lparr>sv_manager := mg\<rparr>)) \<and> slot_inv cfg (goto_pc c p sv)"
      if "pc_of sv c = Some (Registering s)" "\<not> early p" "attached p" "pc_owes p = None" for p s mg
      using that pc_of_cong [of "sv\<lparr>sv_manager := mg\<rparr>" sv] by (intro conjI slot_goto [OF same] slot_goto [OF inv]) auto
    from go RegisteredWith inv show ?thesis by (auto simp: pc_of_def split: option.split pc.split)
  next
    case (SessionEnded c)
    have "slot_inv cfg (cleanup_begin c c s Cleaning (goto_pc c Ended) sv)" if pc: "pc_of sv c = Some (Running s)" for s
      using pc by (intro slot_cleanup_begin [OF inv pc]) (auto intro: slot_goto)
    with slot_reject [OF inv, of c] SessionEnded inv show ?thesis by (auto simp: pc_of_def split: option.split pc.split)
  next
    case KillNext
    then show ?thesis by (auto simp: Let_def split: list.split intro!: same)
  }
qed (auto simp: Let_def intro!: slot_state_cong [of _ sv])

section \<open>Lemmas: routes\<close>

fun pc_station :: "pc \<Rightarrow> string option" where
  "pc_station (Resolving s) = Some s"
| "pc_station (Authenticating s) = Some s"
| "pc_station (VdvAuthenticating s) = Some s"
| "pc_station (Replacing s sid old ip phase) = Some s"
| "pc_station (Marking s) = Some s"
| "pc_station (Registering s) = Some s"
| "pc_station (Running s) = Some s"
| "pc_station (Cleaning s ip phase) = Some s"
| "pc_station (Failed s) = Some s"
| "pc_station _ = None"

text \<open>The manager knows a connection from the end of its registration to its unregistration.\<close>

fun registered :: "pc \<Rightarrow> string \<Rightarrow> bool" where
  "registered (Running s) t = (t = s)"
| "registered (Cleaning s ip (AwaitUnregister current)) t = (t = s)"
| "registered _ t = False"

fun closing :: "pc \<Rightarrow> bool" where
  "closing (Cleaning s ip phase) = True"
| "closing Ended = True"
| "closing _ = False"

definition mg_holds :: "ConnectionManager \<Rightarrow> cid \<Rightarrow> bool" where
  "mg_holds mg c \<longleftrightarrow> c \<in> set (mg_connections mg) \<or> c \<in> keys (mg_connection_stats mg)"

definition route_inv :: "OCPPWebSocketServer \<Rightarrow> bool" where
  "route_inv sv \<longleftrightarrow>
     pc_of sv [] = None \<and>
     (\<forall>c p. pc_of sv c = Some p \<longrightarrow> pc_station p \<noteq> Some []) \<and>
     (\<forall>s c. map_of (sv_station_connections sv) s = Some c \<longrightarrow>
        c \<in> set (sv_connections sv) \<and> (\<forall>p. pc_of sv c = Some p \<longrightarrow> pc_station p = Some s)) \<and>
     (\<forall>s c. map_of (mg_station_connections (sv_manager sv)) s = Some c \<longrightarrow> (\<exists>p. pc_of sv c = Some p \<and> registered p s)) \<and>
     (\<forall>c. mg_holds (sv_manager sv) c \<longrightarrow> (\<exists>p s. pc_of sv c = Some p \<and> registered p s)) \<and>
     (\<forall>c. map_of (sv_connection_client_ips sv) c \<noteq> None \<longrightarrow> (\<exists>p. pc_of sv c = Some p \<and> \<not> closing p)) \<and>
     (\<forall>c. c \<in> set (sv_connections sv) \<longrightarrow> (\<exists>p. pc_of sv c = Some p \<and> attached p))"

lemma route_invD:
  assumes "route_inv sv"
  shows "pc_of sv [] = None" "pc_of sv c = Some p \<Longrightarrow> pc_station p \<noteq> Some []"
    "map_of (sv_station_connections sv) s = Some c \<Longrightarrow> c \<in> set (sv_connections sv)"
    "map_of (sv_station_connections sv) s = Some c \<Longrightarrow> pc_of sv c = Some p \<Longrightarrow> pc_station p = Some s"
    "map_of (mg_station_connections (sv_manager sv)) s = Some c \<Longrightarrow> \<exists>p. pc_of sv c = Some p \<and> registered p s"
    "mg_holds (sv_manager sv) c \<Longrightarrow> \<exists>p s. pc_of sv c = Some p \<and> registered p s"
    "map_of (sv_connection_client_ips sv) c = Some a \<Longrightarrow> \<exists>p. pc_of sv c = Some p \<and> \<not> closing p"
    "c \<in> set (sv_connections sv) \<Longrightarrow> \<exists>p. pc_of sv c = Some p \<and> attached p"
  using assms by (auto simp: route_inv_def)

lemma route_inv_cong:
  "sv_handlers sv' = sv_handlers sv \<Longrightarrow> sv_connection_client_ips sv' = sv_connection_client_ips sv \<Longrightarrow> sv_connections sv' = sv_connections sv \<Longrightarrow>
   sv_station_connections sv' = sv_station_connections sv \<Longrightarrow> sv_manager sv' = sv_manager sv \<Longrightarrow> route_inv sv \<Longrightarrow> route_inv sv'"
  by (simp add: route_inv_def pc_of_def)

text \<open>A manager that knows no more than before keeps the invariant.\<close>

lemma route_manager:
  assumes "route_inv sv"
    "\<And>s c. map_of (mg_station_connections (sv_manager sv')) s = Some c \<Longrightarrow> map_of (mg_station_connections (sv_manager sv)) s = Some c"
    "\<And>c. mg_holds (sv_manager sv') c \<Longrightarrow> mg_holds (sv_manager sv) c"
    "sv_handlers sv' = sv_handlers sv" "sv_connection_client_ips sv' = sv_connection_client_ips sv" "sv_connections sv' = sv_connections sv"
    "sv_station_connections sv' = sv_station_connections sv"
  shows "route_inv sv'"
  using assms by (auto simp: route_inv_def pc_of_def)

lemma registered_station: "registered p s \<Longrightarrow> pc_station p = Some s"
  by (cases "(p, s)" rule: registered.cases) auto

lemma route_goto:
  assumes inv: "route_inv sv" and pc: "pc_of sv c = Some q" "pc_station p \<noteq> Some []"
    and conn: "c \<in> set (sv_connections sv) \<Longrightarrow> attached p \<and> pc_station p = pc_station q"
    and reg: "(\<forall>s. registered q s \<longrightarrow> registered p s) \<or>
       \<not> mg_holds (sv_manager sv) c \<and> (\<forall>s. map_of (mg_station_connections (sv_manager sv)) s \<noteq> Some c)"
    and clos: "map_of (sv_connection_client_ips sv) c \<noteq> None \<Longrightarrow> \<not> closing p"
  shows "route_inv (goto_pc c p sv)"
proof -
  note I = route_invD [OF inv]
  have "c \<noteq> []" using I(1) pc(1) by auto
  moreover have "pc_station p' = Some s" if "map_of (sv_station_connections sv) s = Some d" "pc_of (goto_pc c p sv) d = Some p'" for s d p'
    using I(3,4) [OF that(1)] conn pc(1) that(2) by (cases "d = c") auto
  moreover have "\<exists>p'. pc_of (goto_pc c p sv) d = Some p' \<and> registered p' s"
    if "map_of (mg_station_connections (sv_manager sv)) s = Some d" for s d
    using I(5) [OF that] reg pc(1) that by (cases "d = c") auto
  moreover have "\<exists>p' s. pc_of (goto_pc c p sv) d = Some p' \<and> registered p' s" if "mg_holds (sv_manager sv) d" for d
    using I(6) [OF that] reg pc(1) that by (cases "d = c") auto
  moreover have "\<exists>p'. pc_of (goto_pc c p sv) d = Some p' \<and> \<not> closing p'" if "map_of (sv_connection_client_ips sv) d \<noteq> None" for d
    using I(7) [of d] clos pc(1) that by (cases "d = c") auto
  moreover have "\<exists>p'. pc_of (goto_pc c p sv) d = Some p' \<and> attached p'" if "d \<in> set (sv_connections sv)" for d
    using I(8) [OF that] conn pc(1) that by (cases "d = c") auto
  ultimately show ?thesis using I(1,2,3) pc by (auto simp: route_inv_def)
qed

lemma route_store:
  assumes inv: "route_inv sv" and pc: "pc_of sv c = Some q" "s \<noteq> []" "c \<notin> set (sv_connections sv)"
    and reg: "\<And>t. \<not> registered q t"
  shows "route_inv (store_connection c s sv)"
proof -
  have go: "route_inv (goto_pc c (Marking s) sv)"
    using pc reg by (intro route_goto [OF inv]) auto
  have eq: "store_connection c s sv = (goto_pc c (Marking s) sv)\<lparr>sv_connections := List.insert c (sv_connections sv),
      sv_station_connections := AList.update s c (sv_station_connections sv)\<rparr>"
    by (auto simp: store_connection_def goto_pc_def split: option.split)
  show ?thesis unfolding eq
    using go pc(1) by (auto simp: route_inv_def pc_of_def)
qed

lemma route_drop:
  assumes inv: "route_inv sv" and route: "\<And>t. map_of (sv_station_connections sv) t = Some c \<Longrightarrow> t = s"
  shows "route_inv (if map_of (sv_station_connections sv) s = Some c then drop_route s (drop_connection c sv) else drop_connection c sv)"
proof -
  note I = route_invD [OF inv]
  have gone: "d \<noteq> c" if "map_of (sv_station_connections sv) t = Some d" "t \<noteq> s \<or> map_of (sv_station_connections sv) s \<noteq> Some c" for t d
    using that route by auto
  show ?thesis unfolding route_inv_def
    using I gone by (auto split: if_splits)
qed

lemma unregister_fields:
  "c \<noteq> [] \<Longrightarrow> mg_connections (unregister_connection s c mg) = removeAll c (mg_connections mg)"
  "c \<noteq> [] \<Longrightarrow> mg_connection_stats (unregister_connection s c mg) = AList.delete c (mg_connection_stats mg)"
  "c \<noteq> [] \<Longrightarrow> mg_station_connections (unregister_connection s c mg) =
     (if map_of (mg_station_connections mg) s = Some c then AList.delete s (mg_station_connections mg) else mg_station_connections mg)"
  "unregister_connection s [] mg = mg"
  by (simp_all add: unregister_connection_def Let_def)

lemma unregister_less:
  "map_of (mg_station_connections (unregister_connection s c mg)) t = Some d \<Longrightarrow> map_of (mg_station_connections mg) t = Some d"
  "mg_holds (unregister_connection s c mg) d \<Longrightarrow> mg_holds mg d"
  by (cases "c = []"; auto simp: unregister_fields mg_holds_def split: if_splits)+

lemma unregister_gone:
  assumes "c \<noteq> []" "\<And>t. map_of (mg_station_connections mg) t = Some c \<Longrightarrow> t = s"
  shows "\<not> mg_holds (unregister_connection s c mg) c" "map_of (mg_station_connections (unregister_connection s c mg)) t \<noteq> Some c"
  using assms(1) assms(2) [of t] by (auto simp: unregister_fields mg_holds_def)

lemma routed_pc: "route_inv sv \<Longrightarrow> map_of (sv_station_connections sv) s = Some c \<Longrightarrow> \<exists>p. pc_of sv c = Some p \<and> attached p \<and> pc_station p = Some s"
  using route_invD(3,4,8) by blast

lemma route_unregister: "route_inv sv \<Longrightarrow> route_inv (sv\<lparr>sv_manager := unregister_connection s c (sv_manager sv)\<rparr>)"
  by (rule route_manager) (auto dest: unregister_less)

lemma route_end: "route_inv sv \<Longrightarrow> route_inv (cleanup_end c ip sv)"
  by (rule route_inv_cong [rotated 5]) simp_all

text \<open>The first half of a cleanup, when the connection is the one of station \<open>s\<close>.\<close>

lemma route_cleanup_begin:
  assumes inv: "route_inv sv" and s: "s \<noteq> []" and route: "\<And>t. map_of (sv_station_connections sv) t = Some c \<Longrightarrow> t = s"
    and go: "\<And>sv' current. route_inv sv' \<Longrightarrow> sv_handlers sv' = sv_handlers sv \<Longrightarrow> sv_manager sv' = sv_manager sv \<Longrightarrow>
       sv_connections sv' = removeAll c (sv_connections sv) \<Longrightarrow> sv_connection_client_ips sv' = AList.delete c (sv_connection_client_ips sv) \<Longrightarrow>
       route_inv (goto_pc me (waiting s (map_of (sv_connection_client_ips sv) c) (AwaitUnregister current)) sv')"
  shows "route_inv (cleanup_begin me c s waiting continue sv)"
proof -
  define sv' where "sv' = (if map_of (sv_station_connections sv) s = Some c then drop_route s (drop_connection c sv) else drop_connection c sv)"
  have "route_inv sv'" unfolding sv'_def by (rule route_drop [OF inv route])
  from go [OF this] show ?thesis
    using s by (simp add: cleanup_begin_def Let_def station_to_clean_def sv'_def split: if_splits)
qed

lemma route_take:
  assumes inv: "route_inv sv" and pc: "pc_of sv c = Some q" "early q" and s: "s \<noteq> []"
  shows "route_inv (take_station c s sv)"
proof -
  have reg: "\<not> registered q t" for t using pc(2) by (cases q) auto
  have out: "c \<notin> set (sv_connections sv)" using route_invD(8) [OF inv, of c] pc by (auto elim: early.elims)
  have store: "route_inv (store_connection c s sv)" by (rule route_store [OF inv pc(1) s out reg])
  have "route_inv (cleanup_begin c old s (\<lambda>sid. Replacing s sid old) (store_connection c s) sv)"
    if old: "map_of (sv_station_connections sv) s = Some old" for old
  proof (rule route_cleanup_begin [OF inv s])
    show "t = s" if "map_of (sv_station_connections sv) t = Some old" for t
      using routed_pc [OF inv old] routed_pc [OF inv that] by auto
    show "route_inv (goto_pc c (Replacing s s old ip (AwaitUnregister current)) sv')"
      if "route_inv sv'" "sv_handlers sv' = sv_handlers sv" "sv_connections sv' = removeAll old (sv_connections sv)" for sv' ip current
      using that out pc(1) reg pc_of_cong [OF that(2)] s by (intro route_goto [OF that(1)]) auto
  qed
  with store show ?thesis by (simp add: take_station_def split: option.split)
qed

lemma station_of_path_nonempty: "station_of_path c path \<noteq> []"
proof -
  have "last (path_parts path) \<in> set (path_parts path)" if "path_parts path \<noteq> []" using that by (rule last_in_set)
  then have "last (path_parts path) \<noteq> []" if "1 < length (path_parts path)" using that by (fastforce simp: path_parts_def)
  then show ?thesis by (auto simp: station_of_path_def)
qed

lemma presystem_of_path_nonempty: "presystem_of_path c path \<noteq> []"
proof -
  have "path_parts path ! 1 \<in> set (path_parts path)" if "1 < length (path_parts path)" using that by (rule nth_mem)
  then have "path_parts path ! 1 \<noteq> []" if "1 < length (path_parts path)" using that by (fastforce simp: path_parts_def)
  then show ?thesis by (auto simp: presystem_of_path_def)
qed

lemma route_reject:
  assumes inv: "route_inv sv" and pc: "pc_of sv c = Some q" "early q"
  shows "route_inv (reject_end c ip sv)"
proof -
  have out: "c \<notin> set (sv_connections sv)" using route_invD(8) [OF inv, of c] pc by (auto elim: early.elims)
  have reg: "\<not> registered q t" for t using pc(2) by (cases q) auto
  have unrouted: "map_of (sv_station_connections sv) t \<noteq> Some c" for t using route_invD(3) [OF inv, of t c] out by auto
  then have "route_inv (drop_connection c sv)" using route_drop [OF inv, of c "[]"] by simp
  then have gone: "route_inv (goto_pc c Ended (drop_connection c sv))"
    using pc(1) out reg by (intro route_goto) auto
  show ?thesis
    by (rule route_inv_cong [OF _ _ _ _ _ gone])
      (use out in \<open>auto simp: reject_end_def drop_connection_def goto_pc_def split: option.split\<close>)
qed

lemma route_connect:
  assumes inv: "route_inv sv"
  shows "route_inv (connect cfg gm gb c peer_ip hs path subprotocol sv)"
proof (cases "c = [] \<or> c \<in> keys (sv_handlers sv)")
  case True
  with inv show ?thesis by (auto simp: connect_def Let_def)
next
  case False
  then have c: "c \<noteq> []" "pc_of sv c = None" by (auto simp: keys_map_of_None pc_of_def)
  note I = route_invD [OF inv]
  have add: "route_inv (sv\<lparr>sv_ip_connection_count := cnt, sv_connection_client_ips := ips, sv_handlers := AList.update c h (sv_handlers sv)\<rparr>)"
    if "pc_station (h_pc h) \<noteq> Some []" "\<And>d. d \<noteq> c \<Longrightarrow> map_of ips d = map_of (sv_connection_client_ips sv) d"
      "map_of ips c = None \<or> \<not> closing (h_pc h)" for cnt ips h
  proof -
    have pc: "pc_of (sv\<lparr>sv_ip_connection_count := cnt, sv_connection_client_ips := ips, sv_handlers := AList.update c h (sv_handlers sv)\<rparr>) d =
        (if d = c then Some (h_pc h) else pc_of sv d)" for d
      by (simp add: pc_of_def)
    have unknown: "c \<notin> set (sv_connections sv)" "\<And>s. map_of (sv_station_connections sv) s \<noteq> Some c"
      "\<And>s. map_of (mg_station_connections (sv_manager sv)) s \<noteq> Some c" "\<not> mg_holds (sv_manager sv) c"
      using I(3) [of _ c] I(5) [of _ c] I(6) [of c] I(8) [of c] c(2) by auto
    show ?thesis unfolding route_inv_def pc
      using inv unknown that c by (auto simp: route_inv_def)
  qed
  have turned_away: "route_inv (sv\<lparr>sv_ip_connection_count := cnt, sv_handlers := AList.update c \<lparr>h_client = ip, h_pc = Ended\<rparr> (sv_handlers sv)\<rparr>)" for cnt ip
    by (rule route_inv_cong [OF _ _ _ _ _ add [of "\<lparr>h_client = ip, h_pc = Ended\<rparr>" "sv_connection_client_ips sv" cnt]])
      (use I(7) [of c] c(2) in \<open>auto intro: ccontr\<close>)
  have turned_away2: "route_inv (sv\<lparr>sv_handlers := AList.update c \<lparr>h_client = ip, h_pc = Ended\<rparr> (sv_handlers sv)\<rparr>)" for ip
    by (rule route_inv_cong [OF _ _ _ _ _ turned_away]) auto
  show ?thesis using False turned_away turned_away2 station_of_path_nonempty presystem_of_path_nonempty by (auto simp: connect_def Let_def intro!: add)
qed

definition event_ok :: "conn_event \<Rightarrow> bool" where
  "event_ok e = (case e of Resolved c (Some s) \<Rightarrow> s \<noteq> [] | _ \<Rightarrow> True)"

lemma mg_holds_same [simp]:
  "mg_holds (mg\<lparr>mg_kills := ks\<rparr>) = mg_holds mg" "mg_holds (mg\<lparr>mg_marked := ms\<rparr>) = mg_holds mg" "mg_holds (mg\<lparr>mg_last_heartbeats := hs\<rparr>) = mg_holds mg"
  by (simp_all add: mg_holds_def fun_eq_iff)

lemma bump_stats_same [simp]:
  "mg_station_connections (bump_stats c f mg) = mg_station_connections mg" "mg_holds (bump_stats c f mg) = mg_holds mg"
  by (auto simp: bump_stats_def mg_holds_def fun_eq_iff keys_map_of_Some split: option.split)

lemma mark_same [simp]:
  "mg_station_connections (fst (mark_connection_for_cleanup s mg)) = mg_station_connections mg"
  "mg_holds (fst (mark_connection_for_cleanup s mg)) = mg_holds mg"
  by (auto simp: mark_connection_for_cleanup_def mg_holds_def fun_eq_iff split: option.split)

lemma cleanup_stale_less:
  "map_of (mg_station_connections (cleanup_stale c mg)) t = Some d \<Longrightarrow> map_of (mg_station_connections mg) t = Some d"
  "mg_holds (cleanup_stale c mg) d \<Longrightarrow> mg_holds mg d"
  by (auto simp: cleanup_stale_def split: option.splits if_splits dest: unregister_less)

lemma send_end_same [simp]:
  "mg_station_connections (fst (snd (send_end s n sent now mg))) = mg_station_connections mg"
  "mg_holds (fst (snd (send_end s n sent now mg))) = mg_holds mg"
  by (auto simp: send_end_def split: option.split bool.split)

lemma route_awaited:
  assumes inv: "route_inv sv"
  shows "route_inv (conn_step cfg gm gb sv (CleanupAwaited c ok))"
proof -
  note I = route_invD [OF inv]
  have same: "route_inv sv'"
    if "sv_handlers sv' = sv_handlers sv" "sv_connection_client_ips sv' = sv_connection_client_ips sv" "sv_connections sv' = sv_connections sv"
      "sv_station_connections sv' = sv_station_connections sv" "sv_manager sv' = sv_manager sv" for sv'
    by (rule route_inv_cong [OF that inv])
  have "route_inv (cleanup_advance c old sid ip phase ok (Replacing s sid old ip) (store_connection c s) sv)"
    if pc: "pc_of sv c = Some (Replacing s sid old ip phase)" for s sid old ip phase
  proof -
    have s: "s \<noteq> []" using I(2) [OF pc] by simp
    have out: "c \<notin> set (sv_connections sv)" using I(8) [of c] pc by auto
    have go: "route_inv (goto_pc c (Replacing s sid old ip ph) sv')" "route_inv (store_connection c s (cleanup_end old ip sv'))"
      if "route_inv sv'" "sv_handlers sv' = sv_handlers sv" "sv_connections sv' = sv_connections sv" for sv' ph
      using that(3) pc s out pc_of_cong [OF that(2)]
      by (auto intro!: route_goto [OF that(1)] route_store [OF route_end [OF that(1)]])
    show ?thesis
      by (auto simp: cleanup_advance_def Let_def intro!: go route_unregister [OF inv] same split: cleanup_phase.split)
  qed
  moreover have "route_inv (cleanup_advance c c s ip phase ok (Cleaning s ip) (goto_pc c Ended) sv)"
    if pc: "pc_of sv c = Some (Cleaning s ip phase)" for s ip phase
  proof -
    have c: "c \<noteq> []" "s \<noteq> []" using I(1) I(2) [OF pc] pc by auto
    have out: "c \<notin> set (sv_connections sv)" "map_of (sv_connection_client_ips sv) c = None"
      using I(8) [of c] I(7) [of c] pc by (auto intro: ccontr)
    have go: "route_inv (goto_pc c (Cleaning s ip ph) sv')" "route_inv (goto_pc c Ended (cleanup_end c ip sv'))"
      if "route_inv sv'" "sv_handlers sv' = sv_handlers sv" "sv_connections sv' = sv_connections sv"
        "sv_connection_client_ips sv' = sv_connection_client_ips sv"
        "\<not> mg_holds (sv_manager sv') c" "\<And>t. map_of (mg_station_connections (sv_manager sv')) t \<noteq> Some c" for sv' ph
      using that(3-6) pc c out pc_of_cong [OF that(2)]
      by (auto intro!: route_goto [OF that(1)] route_goto [OF route_end [OF that(1)]])
    have only: "t = s" if "map_of (mg_station_connections (sv_manager sv)) t = Some c" for t
      using I(5) [OF that] pc by (auto dest: registered_station)
    note gone = unregister_gone [OF c(1) only]
    have "\<not> mg_holds (sv_manager sv) c \<and> (\<forall>t. map_of (mg_station_connections (sv_manager sv)) t \<noteq> Some c)"
      if "phase = AwaitUnavailable \<or> phase = AwaitSeen"
      using I(5) [of _ c] I(6) [of c] pc that by auto
    then have kept: "phase = AwaitUnavailable \<or> phase = AwaitSeen \<Longrightarrow> route_inv (goto_pc c (Cleaning s ip ph) (sv\<lparr>sv_writes := ws\<rparr>)) \<and>
       route_inv (goto_pc c Ended (cleanup_end c ip (sv\<lparr>sv_writes := ws\<rparr>))) \<and>
       route_inv (goto_pc c (Cleaning s ip ph) sv) \<and> route_inv (goto_pc c Ended (cleanup_end c ip sv))" for ph ws
      by (intro conjI go same) auto
    from kept go [OF route_unregister [OF inv]] gone show ?thesis
      by (cases phase) (auto simp: cleanup_advance_def Let_def)
  qed
  ultimately show ?thesis using inv by (auto split: option.split pc.split)
qed

lemma register_fields:
  "map_of (mg_station_connections (register_connection s c ip now mg)) = (map_of (mg_station_connections mg))(s \<mapsto> c)"
  "mg_holds (register_connection s c ip now mg) d \<longleftrightarrow> d = c \<or> mg_holds mg d"
  by (auto simp: register_connection_def mg_holds_def)

lemma route_register:
  assumes inv: "route_inv sv" and pc: "pc_of sv c = Some (Running s)"
  shows "route_inv (sv\<lparr>sv_manager := register_connection s c ip now (sv_manager sv)\<rparr>)"
proof -
  have "pc_of (sv\<lparr>sv_manager := mg\<rparr>) = pc_of sv" for mg by (rule pc_of_cong) simp
  with inv pc show ?thesis by (auto simp: route_inv_def register_fields)
qed

lemma route_marked:
  assumes inv: "route_inv sv" and pc: "pc_of sv c = Some (Marking s)"
  shows "route_inv (connectors_marked c s written made sv)"
proof -
  have s: "s \<noteq> []" using route_invD(2) [OF inv pc] by simp
  have go: "route_inv (goto_pc c p sv')" if "p = Registering s \<or> p = Failed s" "route_inv sv'" "sv_handlers sv' = sv_handlers sv" for sv' p
    using that(1) pc s pc_of_cong [OF that(3)] by (intro route_goto [OF that(2)]) auto
  show ?thesis by (auto simp: connectors_marked_def Let_def intro!: go route_inv_cong [OF _ _ _ _ _ inv] inv)
qed

lemma route_registered:
  assumes inv: "route_inv sv" and pc: "pc_of sv c = Some (Registering s)"
  shows "route_inv (goto_pc c (Failed s) sv)"
    "route_inv (goto_pc c (Running s) (sv\<lparr>sv_manager := register_connection s c ip now (sv_manager sv)\<rparr>))"
proof -
  have "pc_station p \<noteq> Some [] \<Longrightarrow> attached p \<Longrightarrow> pc_station p = Some s \<Longrightarrow> route_inv (goto_pc c p sv)" for p
    using pc by (intro route_goto [OF inv pc]) (auto elim: attached.elims)
  then have go: "route_inv (goto_pc c (Failed s) sv)" "route_inv (goto_pc c (Running s) sv)"
    using route_invD(2) [OF inv pc] by simp_all
  from route_register [OF go(2), of c s ip now] pc
  have "route_inv ((goto_pc c (Running s) sv)\<lparr>sv_manager := register_connection s c ip now (sv_manager sv)\<rparr>)" by simp
  moreover have "goto_pc c (Running s) (sv\<lparr>sv_manager := mg\<rparr>) = (goto_pc c (Running s) sv)\<lparr>sv_manager := mg\<rparr>" for mg
    by (auto simp: goto_pc_def split: option.split)
  ultimately show "route_inv (goto_pc c (Failed s) sv)"
    "route_inv (goto_pc c (Running s) (sv\<lparr>sv_manager := register_connection s c ip now (sv_manager sv)\<rparr>))"
    using go(1) by simp_all
qed

lemma route_ended:
  assumes inv: "route_inv sv" and pc: "pc_of sv c = Some (Running s)"
  shows "route_inv (cleanup_begin c c s Cleaning (goto_pc c Ended) sv)"
proof (rule route_cleanup_begin [OF inv])
  show s: "s \<noteq> []" using route_invD(2) [OF inv pc] by simp
  show "t = s" if "map_of (sv_station_connections sv) t = Some c" for t using route_invD(4) [OF inv that pc] by simp
  show "route_inv (goto_pc c (Cleaning s ip (AwaitUnregister current)) sv')"
    if "route_inv sv'" "sv_handlers sv' = sv_handlers sv" "sv_connections sv' = removeAll c (sv_connections sv)"
      "sv_connection_client_ips sv' = AList.delete c (sv_connection_client_ips sv)" for sv' ip current
    using that(3,4) pc s pc_of_cong [OF that(2)] by (intro route_goto [OF that(1)]) auto
qed

lemma route_step:
  assumes inv: "route_inv sv" and ok: "event_ok e"
  shows "route_inv (conn_step cfg gm gb sv e)"
proof -
  note I = route_invD [OF inv]
  have move: "route_inv (goto_pc c p sv)" if "pc_of sv c = Some q" "early q" "pc_station p \<noteq> Some []" "\<not> closing p" for c p q
    using that I(8) [of c] by (intro route_goto [OF inv that(1)]) (auto elim: early.elims)
  show ?thesis
  proof (cases e)
    case (Connect c peer_ip hs path subprotocol)
    with route_connect [OF inv] show ?thesis by simp
  next
    case (CloseReturned c)
    with route_reject [OF inv, of c] inv show ?thesis by (auto simp: pc_of_def split: option.split)
  next
    case (Resolved c answer)
    have "route_inv (resolved cfg c s' sv)" if "pc_of sv c = Some (Resolving s)" "s' \<noteq> []" for s s'
      using route_take [OF inv that(1) _ that(2)] move [OF that(1), of "Authenticating s'"] that(2) by (simp add: resolved_def)
    with Resolved inv ok I(2) [of c] show ?thesis by (auto simp: event_ok_def split: option.splits pc.split)
  next
    case (Authenticated c s answer)
    have "route_inv (authenticated c s answer sv)" if "pc_of sv c = Some (Authenticating s)"
      using route_take [OF inv that] move [OF that] I(2) [OF that] by (simp add: authenticated_def split: auth_answer.split)
    moreover have "route_inv (vdv_authenticated c s answer sv)" if "pc_of sv c = Some (VdvAuthenticating s)"
      using move [OF that] I(2) [OF that] by (simp add: vdv_authenticated_def split: auth_answer.split)
    ultimately show ?thesis using Authenticated inv by (auto split: option.split pc.split)
  next
    case (SessionEnded c)
    with route_reject [OF inv, of c] route_ended [OF inv, of c] inv show ?thesis by (auto simp: pc_of_def split: option.split pc.split)
  next
    case (RegisteredWith c ok now)
    with route_registered [OF inv, of c] inv show ?thesis by (auto simp: pc_of_def split: option.split pc.split)
  next
    case (ConnectorsMarked c written made)
    with route_marked [OF inv] inv show ?thesis by (auto split: option.split pc.split)
  next
    case (MarkedClosed s c)
    with unregister_less [of s c "(sv_manager sv)\<lparr>mg_marked := remove1 (s, c) (mg_marked (sv_manager sv))\<rparr>"] inv show ?thesis
      by (auto simp: Let_def intro!: route_manager [OF inv])
  next
    case KillNext
    then show ?thesis by (cases "mg_kills (sv_manager sv)") (auto simp: Let_def inv intro!: route_manager [OF inv])
  qed (auto simp: Let_def inv update_heartbeat_def record_message_received_def simp del: conn_step.simps(5)
      intro!: route_manager [OF inv] route_awaited [OF inv] dest: cleanup_stale_less split: option.splits)
qed

section \<open>Lemmas: who is admitted\<close>

text \<open>The client of a coroutine that has not ended, and the station it was authenticated for.\<close>

definition live_client :: "OCPPWebSocketServer \<Rightarrow> cid \<Rightarrow> client \<Rightarrow> bool" where
  "live_client sv c a \<longleftrightarrow> (\<exists>h. map_of (sv_handlers sv) c = Some h \<and> h_client h = a \<and> h_pc h \<noteq> Ended)"

fun past_auth :: "pc \<Rightarrow> string option" where
  "past_auth (Replacing s sid old ip phase) = Some s"
| "past_auth (Marking s) = Some s"
| "past_auth (Registering s) = Some s"
| "past_auth (Running s) = Some s"
| "past_auth _ = None"

definition holds_station :: "OCPPWebSocketServer \<Rightarrow> cid \<Rightarrow> string \<Rightarrow> bool" where
  "holds_station sv c s \<longleftrightarrow> (\<exists>p. pc_of sv c = Some p \<and> (past_auth p = Some s \<or> p = Failed s \<and> c \<in> set (sv_connections sv)))"

lemma live_goto: "pc_of sv c = Some q \<Longrightarrow> q \<noteq> Ended \<Longrightarrow> live_client (goto_pc c p sv) d a \<Longrightarrow> live_client sv d a"
  by (auto simp: live_client_def pc_of_def split: if_splits)

lemma live_cong: "sv_handlers sv' = sv_handlers sv \<Longrightarrow> live_client sv' = live_client sv"
  by (simp add: live_client_def fun_eq_iff)

lemma live_store: "pc_of sv c = Some q \<Longrightarrow> q \<noteq> Ended \<Longrightarrow> live_client (store_connection c s sv) d a \<Longrightarrow> live_client sv d a"
  unfolding store_connection_def by (drule live_goto [rotated 2]) (auto simp: pc_of_def live_client_def)

lemma live_cleanup_begin:
  assumes "pc_of sv me = Some q" "q \<noteq> Ended" "live_client (cleanup_begin me c s waiting continue sv) d a"
    and continue: "\<And>sv. pc_of sv me = Some q \<Longrightarrow> live_client (continue sv) d a \<Longrightarrow> live_client sv d a"
  shows "live_client sv d a"
proof -
  have same: "live_client (cleanup_end c ip (drop_connection c sv)) = live_client sv" "live_client (drop_connection c sv) = live_client sv"
    "live_client (drop_route t (drop_connection c sv)) = live_client sv" for ip t
    by (rule live_cong, simp)+
  show ?thesis
    using assms(3) live_goto [of "drop_connection c sv" me q _ d a] live_goto [of "drop_route _ (drop_connection c sv)" me q _ d a]
      continue [of "cleanup_end c _ (drop_connection c sv)"] assms(1,2)
    by (auto simp: cleanup_begin_def Let_def same split: if_splits)
qed

lemma live_cleanup_advance:
  assumes "pc_of sv me = Some q" "q \<noteq> Ended" "live_client (cleanup_advance me c s ip phase ok waiting continue sv) d a"
    and continue: "\<And>sv. pc_of sv me = Some q \<Longrightarrow> live_client (continue sv) d a \<Longrightarrow> live_client sv d a"
  shows "live_client sv d a"
proof -
  have go: "live_client (goto_pc me p sv') d a \<or> live_client (continue (cleanup_end c ip sv')) d a \<Longrightarrow> live_client sv d a"
    if "sv_handlers sv' = sv_handlers sv" for sv' p
    using live_goto [of sv' me q p d a] continue [of "cleanup_end c ip sv'"] assms(1,2) pc_of_cong [OF that] live_cong [OF that]
      live_cong [of "cleanup_end c ip sv'" sv'] by auto
  show ?thesis
    using assms(3) by (auto simp: cleanup_advance_def Let_def split: cleanup_phase.splits if_splits intro: go [rotated])
qed

lemma live_take:
  assumes pc: "pc_of sv c = Some q" "q \<noteq> Ended" and live: "live_client (take_station c s sv) d a"
  shows "live_client sv d a"
proof -
  have store: "pc_of sv' c = Some q \<Longrightarrow> live_client (store_connection c s sv') d a \<Longrightarrow> live_client sv' d a" for sv'
    using pc(2) by (auto dest: live_store)
  show ?thesis
    using live store [OF pc(1)] live_cleanup_begin [OF pc _ store]
    by (auto simp: take_station_def split: option.splits if_splits)
qed

lemma live_awaited: "live_client (conn_step cfg gm gb sv (CleanupAwaited c ok)) d a \<Longrightarrow> live_client sv d a"
proof -
  have "live_client sv d a"
    if pc: "pc_of sv c = Some (Replacing s sid old ip phase)"
      and live: "live_client (cleanup_advance c old sid ip phase ok (Replacing s sid old ip) (store_connection c s) sv) d a" for s sid old ip phase
    by (rule live_cleanup_advance [OF pc _ live]) (auto dest: live_store)
  moreover have "live_client sv d a"
    if pc: "pc_of sv c = Some (Cleaning s ip phase)"
      and live: "live_client (cleanup_advance c c s ip phase ok (Cleaning s ip) (goto_pc c Ended) sv) d a" for s ip phase
    by (rule live_cleanup_advance [OF pc _ live]) (auto dest: live_goto)
  ultimately show "live_client (conn_step cfg gm gb sv (CleanupAwaited c ok)) d a \<Longrightarrow> live_client sv d a"
    by (auto split: option.splits pc.splits)
qed

lemma live_ended: "live_client (conn_step cfg gm gb sv (SessionEnded c)) d a \<Longrightarrow> live_client sv d a"
proof -
  have "live_client sv d a"
    if pc: "pc_of sv c = Some (Running s)" and live: "live_client (cleanup_begin c c s Cleaning (goto_pc c Ended) sv) d a" for s
    by (rule live_cleanup_begin [OF pc _ live]) (auto dest: live_goto)
  then show "live_client (conn_step cfg gm gb sv (SessionEnded c)) d a \<Longrightarrow> live_client sv d a"
    by (auto simp: pc_of_def reject_end_def live_client_def split: option.splits pc.splits if_splits)
qed

lemma live_step:
  "live_client (conn_step cfg gm gb sv e) d a \<Longrightarrow> live_client sv d a \<or> \<not> fst (check_ip gb a)"
proof (cases e)
  assume live: "live_client (conn_step cfg gm gb sv e) d a"
  {
    case (Connect c peer_ip hs path subprotocol)
    with live show ?thesis
      by (auto simp: connect_def Let_def ws_admits_def live_client_def split: if_splits)
  next
    case (CleanupAwaited c ok)
    with live live_awaited show ?thesis by blast
  next
    case (Resolved c answer)
    with live show ?thesis
      by (auto simp: resolved_def split: option.splits pc.splits if_splits dest: live_goto live_take)
  next
    case (Authenticated c s answer)
    with live show ?thesis
      by (auto simp: authenticated_def vdv_authenticated_def split: option.splits pc.splits if_splits auth_answer.splits dest: live_goto live_take)
  next
    case (SessionEnded c)
    with live live_ended show ?thesis by blast
  }
qed (auto simp: Let_def live_client_def reject_end_def connectors_marked_def pc_of_def split: option.splits pc.splits if_splits list.splits)

lemma holds_goto:
  "pc_of sv c = Some q \<Longrightarrow> holds_station (goto_pc c p sv) d t \<Longrightarrow>
     d = c \<and> (past_auth p = Some t \<or> p = Failed t \<and> c \<in> set (sv_connections sv)) \<or> holds_station sv d t"
  by (auto simp: holds_station_def split: if_splits)

lemma holds_less:
  "sv_handlers sv' = sv_handlers sv \<Longrightarrow> set (sv_connections sv') \<subseteq> set (sv_connections sv) \<Longrightarrow> holds_station sv' d t \<Longrightarrow> holds_station sv d t"
  by (auto simp: holds_station_def pc_of_def)

lemma holds_store: "pc_of sv c = Some q \<Longrightarrow> holds_station (store_connection c s sv) d t \<Longrightarrow> d = c \<and> t = s \<or> holds_station sv d t"
  by (auto simp: holds_station_def store_connection_def pc_of_def split: if_splits)

text \<open>Through a cleanup a coroutine gets at most the stations in \<open>new\<close>.\<close>

lemma holds_cleanup_begin:
  assumes pc: "pc_of sv me = Some q" and holds: "holds_station (cleanup_begin me c s waiting continue sv) d t"
    and waiting: "\<And>sid ip phase r. past_auth (waiting sid ip phase) = Some r \<Longrightarrow> r \<in> new" "\<And>sid ip phase r. waiting sid ip phase \<noteq> Failed r"
    and continue: "\<And>sv. pc_of sv me = Some q \<Longrightarrow> holds_station (continue sv) d t \<Longrightarrow> d = me \<and> t \<in> new \<or> holds_station sv d t"
  shows "d = me \<and> t \<in> new \<or> holds_station sv d t"
proof -
  have go: "holds_station (goto_pc me (waiting sid ip phase) sv') d t \<or> holds_station (continue sv') d t \<Longrightarrow> d = me \<and> t \<in> new \<or> holds_station sv d t"
    if "sv_handlers sv' = sv_handlers sv" "set (sv_connections sv') \<subseteq> set (sv_connections sv)" for sv' sid ip phase
    using holds_goto [of sv' me q "waiting sid ip phase" d t] continue [of sv'] holds_less [OF that] pc pc_of_cong [OF that(1)] waiting by auto
  show ?thesis
    using holds go [of "drop_connection c sv"] go [of "drop_route _ (drop_connection c sv)"] go [of "cleanup_end c _ (drop_connection c sv)"]
    by (simp add: cleanup_begin_def Let_def split: if_splits) blast+
qed

lemma holds_cleanup_advance:
  assumes pc: "pc_of sv me = Some q" and holds: "holds_station (cleanup_advance me c s ip phase ok waiting continue sv) d t"
    and waiting: "\<And>phase r. past_auth (waiting phase) = Some r \<Longrightarrow> r \<in> new" "\<And>phase r. waiting phase \<noteq> Failed r"
    and continue: "\<And>sv. pc_of sv me = Some q \<Longrightarrow> holds_station (continue sv) d t \<Longrightarrow> d = me \<and> t \<in> new \<or> holds_station sv d t"
  shows "d = me \<and> t \<in> new \<or> holds_station sv d t"
proof -
  have go: "holds_station (goto_pc me (waiting ph) sv') d t \<or> holds_station (continue (cleanup_end c ip sv')) d t \<Longrightarrow>
      d = me \<and> t \<in> new \<or> holds_station sv d t"
    if "sv_handlers sv' = sv_handlers sv" "sv_connections sv' = sv_connections sv" for sv' ph
    using holds_goto [of sv' me q "waiting ph" d t] continue [of "cleanup_end c ip sv'"] holds_less [of "cleanup_end c ip sv'" sv]
      holds_less [of sv' sv] that pc pc_of_cong [OF that(1)] waiting by auto
  show ?thesis
    using holds go [of "sv\<lparr>sv_manager := _\<rparr>"] go [of "sv\<lparr>sv_writes := _\<rparr>"] go [of sv]
    by (cases phase) (simp_all add: cleanup_advance_def Let_def split: if_splits, blast+)
qed

lemma holds_take:
  assumes pc: "pc_of sv c = Some q" and holds: "holds_station (take_station c s sv) d t"
  shows "d = c \<and> t = s \<or> holds_station sv d t"
proof -
  have store: "pc_of sv' c = Some q \<Longrightarrow> holds_station (store_connection c s sv') d t \<Longrightarrow> d = c \<and> t \<in> {s} \<or> holds_station sv' d t" for sv'
    by (auto dest: holds_store)
  have "d = c \<and> t \<in> {s} \<or> holds_station sv d t"
    if "holds_station (cleanup_begin c old s (\<lambda>sid. Replacing s sid old) (store_connection c s) sv) d t" for old
    by (rule holds_cleanup_begin [OF pc that _ _ store]) auto
  with store [OF pc] holds show ?thesis by (auto simp: take_station_def split: option.splits if_splits)
qed

lemma holds_awaited: "holds_station (conn_step cfg gm gb sv (CleanupAwaited c ok)) d t \<Longrightarrow> holds_station sv d t"
proof -
  have "d = c \<and> t \<in> {s} \<or> holds_station sv d t"
    if pc: "pc_of sv c = Some (Replacing s sid old ip phase)"
      and holds: "holds_station (cleanup_advance c old sid ip phase ok (Replacing s sid old ip) (store_connection c s) sv) d t" for s sid old ip phase
    by (rule holds_cleanup_advance [OF pc holds]) (auto dest: holds_store)
  moreover have "d = c \<and> t \<in> {} \<or> holds_station sv d t"
    if pc: "pc_of sv c = Some (Cleaning s ip phase)"
      and holds: "holds_station (cleanup_advance c c s ip phase ok (Cleaning s ip) (goto_pc c Ended) sv) d t" for s ip phase
    by (rule holds_cleanup_advance [OF pc holds]) (auto dest: holds_goto)
  moreover have "pc_of sv c = Some (Replacing s sid old ip phase) \<Longrightarrow> holds_station sv c s" for s sid old ip phase
    by (simp add: holds_station_def)
  ultimately show "holds_station (conn_step cfg gm gb sv (CleanupAwaited c ok)) d t \<Longrightarrow> holds_station sv d t"
    by (auto split: option.splits pc.splits)
qed

lemma holds_ended: "holds_station (conn_step cfg gm gb sv (SessionEnded c)) d t \<Longrightarrow> holds_station sv d t"
proof -
  have "d = c \<and> t \<in> {} \<or> holds_station sv d t"
    if pc: "pc_of sv c = Some (Running s)" and holds: "holds_station (cleanup_begin c c s Cleaning (goto_pc c Ended) sv) d t" for s
    by (rule holds_cleanup_begin [OF pc holds]) (auto dest: holds_goto)
  then show "holds_station (conn_step cfg gm gb sv (SessionEnded c)) d t \<Longrightarrow> holds_station sv d t"
    by (auto simp: pc_of_def reject_end_def holds_station_def split: option.splits pc.splits if_splits)
qed

lemma holds_step:
  assumes auth: "require_station_auth cfg" and inv: "slot_inv cfg sv" and holds: "holds_station (conn_step cfg gm gb sv e) d t"
  shows "holds_station sv d t \<or> e = Authenticated d t Accepted \<and> pc_of sv d = Some (Authenticating t)"
proof (cases e)
  case (Connect c peer_ip hs path subprotocol)
  with holds slot_stateD(6) [OF inv, of c] show ?thesis
    by (auto simp: connect_def Let_def holds_station_def pc_of_def split: if_splits)
next
  case (CleanupAwaited c ok)
  with holds holds_awaited show ?thesis by blast
next
  case (Resolved c answer)
  with holds auth show ?thesis
    by (auto simp: resolved_def split: option.splits pc.splits if_splits dest!: holds_goto)
next
  case (Authenticated c s answer)
  have "c \<notin> set (sv_connections sv)" if "pc_of sv c = Some (Authenticating s) \<or> pc_of sv c = Some (VdvAuthenticating s)"
    using slot_stateD(6) [OF inv, of c] that by auto
  with Authenticated holds holds_take [of sv c _ s d t] holds_goto [of sv c _ _ d t] show ?thesis
    by (auto simp: authenticated_def vdv_authenticated_def split: option.splits pc.splits if_splits auth_answer.splits) fastforce+
next
  case (SessionEnded c)
  with holds holds_ended show ?thesis by blast
qed (use holds in \<open>auto simp: Let_def holds_station_def reject_end_def connectors_marked_def pc_of_def split: option.splits pc.splits if_splits list.splits\<close>)

section \<open>Lemmas: who loses a route\<close>

text \<open>The connection whose coroutine an event resumes.\<close>

fun actor :: "conn_event \<Rightarrow> cid option" where
  "actor (Connect c peer_ip hs path subprotocol) = Some c"
| "actor (CloseReturned c) = Some c"
| "actor (Resolved c answer) = Some c"
| "actor (Authenticated c s answer) = Some c"
| "actor (CleanupAwaited c ok) = Some c"
| "actor (ConnectorsMarked c written made) = Some c"
| "actor (RegisteredWith c ok now) = Some c"
| "actor (SessionEnded c) = Some c"
| "actor _ = None"

lemma stations_begin:
  "s \<noteq> [] \<Longrightarrow> sv_station_connections (cleanup_begin me c s waiting continue sv) =
     (if map_of (sv_station_connections sv) s = Some c then AList.delete s (sv_station_connections sv) else sv_station_connections sv)"
  by (simp add: cleanup_begin_def Let_def station_to_clean_def)

lemma stations_store: "sv_station_connections (store_connection c s sv) = AList.update s c (sv_station_connections sv)"
  by (simp add: store_connection_def)

lemma holds_after_store: "pc_of sv c = Some q \<Longrightarrow> holds_station (store_connection c s sv) c s"
  by (auto simp: holds_station_def store_connection_def pc_of_def)

lemma lost_take:
  assumes pc: "pc_of sv d = Some q" and s: "s' \<noteq> []" and route: "map_of (sv_station_connections sv) s = Some c"
    and lost: "map_of (sv_station_connections (take_station d s' sv)) s \<noteq> Some c"
  shows "s' = s" "holds_station (take_station d s' sv) d s'"
proof -
  show "s' = s" using lost route s by (auto simp: take_station_def stations_begin stations_store split: option.splits if_splits)
  have "holds_station (cleanup_begin d old s' (\<lambda>sid. Replacing s' sid old) (store_connection d s') sv) d s'" for old
    using s pc by (auto simp: cleanup_begin_def Let_def station_to_clean_def holds_station_def)
  with holds_after_store [OF pc] show "holds_station (take_station d s' sv) d s'" by (simp add: take_station_def split: option.split)
qed

lemma lost_awaited:
  assumes inv: "route_inv sv" and route: "map_of (sv_station_connections sv) s = Some c"
    and lost: "map_of (sv_station_connections (conn_step cfg gm gb sv (CleanupAwaited d ok))) s \<noteq> Some c"
  shows "holds_station (conn_step cfg gm gb sv (CleanupAwaited d ok)) d s"
proof -
  have 1: "s' = s \<and> holds_station (cleanup_advance d old sid ip phase ok (Replacing s' sid old ip) (store_connection d s') sv) d s"
    if pc: "pc_of sv d = Some (Replacing s' sid old ip phase)"
      and lost: "map_of (sv_station_connections (cleanup_advance d old sid ip phase ok (Replacing s' sid old ip) (store_connection d s') sv)) s \<noteq> Some c"
    for s' sid old ip phase
    using lost route pc
    by (auto simp: cleanup_advance_def Let_def stations_store holds_station_def store_connection_def pc_of_def split: cleanup_phase.splits if_splits)
  have 2: "map_of (sv_station_connections (cleanup_advance d d s' ip phase ok (Cleaning s' ip) (goto_pc d Ended) sv)) s = Some c" for s' ip phase
    using route by (auto simp: cleanup_advance_def Let_def split: cleanup_phase.split)
  show ?thesis using lost 1 2 route by (auto split: option.splits pc.splits)
qed

lemma lost_ended:
  assumes inv: "route_inv sv" and route: "map_of (sv_station_connections sv) s = Some c"
    and lost: "map_of (sv_station_connections (conn_step cfg gm gb sv (SessionEnded d))) s \<noteq> Some c"
  shows "d = c"
proof -
  have "s' \<noteq> []" if "pc_of sv d = Some (Running s')" for s' using route_invD(2) [OF inv that] by simp
  with lost route show ?thesis
    by (auto simp: pc_of_def stations_begin reject_end_def split: option.splits pc.splits if_splits)
qed

lemma route_lost:
  assumes inv: "route_inv sv" and ok: "event_ok e" and route: "map_of (sv_station_connections sv) s = Some c"
    and lost: "map_of (sv_station_connections (conn_step cfg gm gb sv e)) s \<noteq> Some c"
  shows "e = SessionEnded c \<or> (\<exists>d. actor e = Some d \<and> d \<noteq> c \<and> holds_station (conn_step cfg gm gb sv e) d s)"
proof (cases e)
  case (CleanupAwaited d ok')
  obtain p where p: "pc_of sv c = Some p" "attached p" using routed_pc [OF inv route] by auto
  have "d \<noteq> c" using p lost route CleanupAwaited by (auto split: pc.splits)
  with lost_awaited [OF inv route] lost CleanupAwaited show ?thesis by auto
next
  case (SessionEnded d)
  with lost_ended [OF inv route] lost show ?thesis by auto
next
  case (Resolved d answer)
  obtain p where p: "pc_of sv c = Some p" "attached p" using routed_pc [OF inv route] by auto
  have "d \<noteq> c" using p lost route Resolved by (auto split: pc.splits)
  moreover have "holds_station (resolved cfg d s' sv) d s" if "pc_of sv d = Some (Resolving r)" "s' \<noteq> []"
    "map_of (sv_station_connections (resolved cfg d s' sv)) s \<noteq> Some c" for r s'
    using lost_take [OF that(1,2) route] that(3) route by (auto simp: resolved_def split: if_splits)
  ultimately show ?thesis using Resolved lost route ok route_invD(2) [OF inv, of d]
    by (auto simp: event_ok_def split: option.splits pc.splits)
next
  case (Authenticated d r answer)
  obtain p where p: "pc_of sv c = Some p" "attached p" using routed_pc [OF inv route] by auto
  have "d \<noteq> c" using p lost route Authenticated by (auto split: pc.splits)
  moreover have "holds_station (authenticated d r answer sv) d s" if "pc_of sv d = Some (Authenticating r)"
    "map_of (sv_station_connections (authenticated d r answer sv)) s \<noteq> Some c"
    using lost_take [OF that(1) _ route, of r] that(2) route route_invD(2) [OF inv that(1)] by (auto simp: authenticated_def split: auth_answer.splits)
  ultimately show ?thesis using Authenticated lost route
    by (auto simp: vdv_authenticated_def split: option.splits pc.splits if_splits auth_answer.splits)
qed (use lost route in \<open>auto simp: Let_def connect_def reject_end_def connectors_marked_def split: option.splits pc.splits if_splits list.splits\<close>)

section \<open>Runs\<close>

lemma slot_init: "slot_inv cfg sv_init"
  by (simp add: slot_state_def sv_init_def surplus_def tracked_def owed_def count_of_def pc_of_def)

interpretation slots: invariant_machine "\<lambda>sv. sv = sv_init" "conn_step cfg gm gb" "slot_inv cfg" for cfg gm gb
  by unfold_locales (simp_all add: slot_init slot_step)

lemma run_slots: "slot_inv cfg (conn_run cfg gm gb es)"
  by (rule slots.run_inv) simp

lemma run_route: "list_all event_ok es \<Longrightarrow> route_inv (conn_run cfg gm gb es)"
proof (induction es rule: rev_induct)
  case Nil
  then show ?case by (simp add: route_inv_def sv_init_def registry_init_def mg_holds_def pc_of_def)
next
  case (snoc e es)
  then show ?case by (simp add: route_step)
qed

lemma run_live: "live_client (conn_run cfg gm gb es) c a \<Longrightarrow> \<not> fst (check_ip gb a)"
proof (induction es rule: rev_induct)
  case Nil
  then show ?case by (simp add: live_client_def sv_init_def)
next
  case (snoc e es)
  then show ?case using live_step [of cfg gm gb _ e c a] by auto
qed

lemma run_holds:
  "require_station_auth cfg \<Longrightarrow> holds_station (conn_run cfg gm gb es) c s \<Longrightarrow>
     \<exists>before after. es = before @ Authenticated c s Accepted # after \<and> pc_of (conn_run cfg gm gb before) c = Some (Authenticating s)"
proof (induction es rule: rev_induct)
  case Nil
  then show ?case by (simp add: holds_station_def sv_init_def pc_of_def)
next
  case (snoc e es)
  have "holds_station (conn_run cfg gm gb es) c s \<or> e = Authenticated c s Accepted \<and> pc_of (conn_run cfg gm gb es) c = Some (Authenticating s)"
    using holds_step [OF snoc.prems(1) run_slots [of cfg gm gb es], of gm gb e c s] snoc.prems(2) by simp
  then show ?case
  proof
    assume "holds_station (conn_run cfg gm gb es) c s"
    with snoc obtain before after where "es = before @ Authenticated c s Accepted # after" "pc_of (conn_run cfg gm gb before) c = Some (Authenticating s)"
      by blast
    then have "es @ [e] = before @ Authenticated c s Accepted # (after @ [e])" by simp
    with \<open>pc_of (conn_run cfg gm gb before) c = _\<close> show ?case by blast
  qed auto
qed

lemma dict_sum_ind: "dict_sum (\<lambda>v. ind (P v)) d = int (length (filter (\<lambda>e. P (snd e)) d))"
  by (induction d) (auto simp: dict_sum_def)

lemma dict_empty: "(\<And>k v. map_of d k \<noteq> Some v) \<Longrightarrow> d = []"
  by (cases d) (auto, metis)

section \<open>Properties\<close>

text \<open>C17: the slots of a client are counted exactly, over all interleavings. Its counter is the number of connections
  tracked for it and of those whose cleanup has not yet released their slot, whichever of the two coroutines that
  clean up a replaced connection came first; and it never exceeds the configured limit.\<close>

theorem client_slots_exact:
  "let sv = conn_run cfg gm gb es
   in count_of (sv_ip_connection_count sv) a =
        int (length (filter (\<lambda>e. snd e = a) (sv_connection_client_ips sv))) +
        int (length (filter (\<lambda>e. pc_owes (h_pc (snd e)) = Some a) (sv_handlers sv))) \<and>
      count_of (sv_ip_connection_count sv) a \<le> max 0 (max_connections_per_ip cfg)"
  using slots_parts [OF run_slots, of cfg gm gb es a] slot_stateD(4) [OF run_slots, of cfg gm gb es a]
  by (simp add: Let_def tracked_def owed_def dict_sum_ind)

text \<open>C16: a station is routed only to a connection that is open to it. The connection the server has for a station is
  stored, its client passed the geo check, and where authentication is required the security manager accepted it for
  this very station, after the station id was resolved.\<close>

theorem routed_is_admitted:
  assumes "list_all event_ok es" "map_of (sv_station_connections (conn_run cfg gm gb es)) s = Some c"
  shows "c \<in> set (sv_connections (conn_run cfg gm gb es)) \<and>
     (\<exists>h. map_of (sv_handlers (conn_run cfg gm gb es)) c = Some h \<and> \<not> fst (check_ip gb (h_client h))) \<and>
     (require_station_auth cfg \<longrightarrow>
        (\<exists>before after. es = before @ Authenticated c s Accepted # after \<and> pc_of (conn_run cfg gm gb before) c = Some (Authenticating s)))"
proof -
  let ?sv = "conn_run cfg gm gb es"
  obtain p where p: "pc_of ?sv c = Some p" "attached p" "pc_station p = Some s"
    using routed_pc [OF run_route [OF assms(1)] assms(2)] by auto
  have conn: "c \<in> set (sv_connections ?sv)" by (rule route_invD(3) [OF run_route [OF assms(1)] assms(2)])
  obtain h where h: "map_of (sv_handlers ?sv) c = Some h" "h_pc h = p" using p(1) by (auto simp: pc_of_def)
  have "live_client ?sv c (h_client h)" using h p(2) by (auto simp: live_client_def)
  then have "\<not> fst (check_ip gb (h_client h))" by (rule run_live)
  moreover have "holds_station ?sv c s" using p conn by (auto simp: holds_station_def elim!: attached.elims)
  ultimately show ?thesis using conn h(1) run_holds by blast
qed

text \<open>C18: a late cleanup does not take a station from its successor. When the server loses or changes the route of a
  station, either the session of the routed connection itself has ended, or the coroutine that was resumed belongs to
  another connection, which holds the station: it is past its authentication for it and has not ended.\<close>

theorem route_lost_to_successor:
  assumes "list_all event_ok (es @ [e])" "map_of (sv_station_connections (conn_run cfg gm gb es)) s = Some c"
    "map_of (sv_station_connections (conn_run cfg gm gb (es @ [e]))) s \<noteq> Some c"
  shows "e = SessionEnded c \<or>
     (\<exists>d. actor e = Some d \<and> d \<noteq> c \<and> holds_station (conn_run cfg gm gb (es @ [e])) d s)"
  using route_lost [OF run_route [of es cfg gm gb], of e s c cfg gm gb] assms by simp

text \<open>C19: only a coroutine that raised leaves something behind. Once every coroutine has run to its end or raised an exception
  outside its \<open>try\<close> (\<open>Failed\<close>), every connection, route and tracked client that is left belongs to one that raised, which nothing
  frees but a later connection of the same station; a client's counter is the number of its connections left in this way; and
  the connection manager has no registration. If none raised, no connection, no route and no tracked client is left, and
  every client has all its slots again. The dictionary of charge points is not covered: an entry can outlive its connection.\<close>

theorem all_ended_all_free:
  assumes "list_all event_ok es"
    "list_all (\<lambda>e. h_pc (snd e) = Ended \<or> (\<exists>s. h_pc (snd e) = Failed s)) (sv_handlers (conn_run cfg gm gb es))"
  shows "let sv = conn_run cfg gm gb es; failed = (\<lambda>c. \<exists>s. pc_of sv c = Some (Failed s))
    in (\<forall>c. c \<in> set (sv_connections sv) \<longrightarrow> failed c) \<and> (\<forall>s c. map_of (sv_station_connections sv) s = Some c \<longrightarrow> failed c) \<and>
       (\<forall>c b. map_of (sv_connection_client_ips sv) c = Some b \<longrightarrow> failed c) \<and>
       count_of (sv_ip_connection_count sv) a = int (length (filter (\<lambda>e. snd e = a) (sv_connection_client_ips sv))) \<and>
       mg_connections (sv_manager sv) = [] \<and> mg_station_connections (sv_manager sv) = [] \<and> mg_connection_stats (sv_manager sv) = [] \<and>
       ((\<forall>c. \<not> failed c) \<longrightarrow>
          sv_connections sv = [] \<and> sv_station_connections sv = [] \<and> sv_connection_client_ips sv = [] \<and> count_of (sv_ip_connection_count sv) a = 0)"
proof -
  let ?sv = "conn_run cfg gm gb es"
  let ?failed = "\<lambda>c. \<exists>s. pc_of ?sv c = Some (Failed s)"
  note I = route_invD [OF run_route [OF assms(1), of cfg gm gb]]
  have pcs: "p = Ended \<or> (\<exists>s. p = Failed s)" if "pc_of ?sv c = Some p" for c p
    using assms(2) that by (auto simp: list_all_iff pc_of_def dest!: map_of_SomeD)
  have failed: "?failed c" if "pc_of ?sv c = Some p" "p \<noteq> Ended" for c p using that pcs by blast
  have conns: "?failed c" if "c \<in> set (sv_connections ?sv)" for c using I(8) [OF that] failed by fastforce
  have stations: "?failed c" if "map_of (sv_station_connections ?sv) s = Some c" for s c using conns I(3) [OF that] by blast
  have ips: "?failed c" if "map_of (sv_connection_client_ips ?sv) c = Some b" for c b using I(7) [OF that] failed by fastforce
  have none: "\<not> registered p s" if "pc_of ?sv c = Some p" for c p s using pcs [OF that] by auto
  have held: "\<not> mg_holds (sv_manager ?sv) c" for c using I(6) [of c] none by metis
  then have mg: "mg_connections (sv_manager ?sv) = []" "mg_connection_stats (sv_manager ?sv) = []"
    by (auto simp: mg_holds_def keys_map_of_Some intro!: dict_empty) (cases "mg_connections (sv_manager ?sv)"; fastforce)
  have st: "mg_station_connections (sv_manager ?sv) = []" using I(5) none by (intro dict_empty) metis
  have count: "count_of (sv_ip_connection_count ?sv) a = int (length (filter (\<lambda>e. snd e = a) (sv_connection_client_ips ?sv)))"
  proof -
    have "pc_owes (h_pc (snd e)) = None" if "e \<in> set (sv_handlers ?sv)" for e using assms(2) that by (auto simp: list_all_iff)
    then have "owed ?sv a = 0" by (auto simp: owed_def dict_sum_ind filter_empty_conv)
    then show ?thesis using slots_parts [OF run_slots, of cfg gm gb es a] by (simp add: tracked_def dict_sum_ind)
  qed
  have "sv_connections ?sv = []" if "\<forall>c. \<not> ?failed c" using that conns by (metis list.set_intros(1) neq_Nil_conv)
  moreover have "sv_station_connections ?sv = []" if "\<forall>c. \<not> ?failed c" using that stations by (intro dict_empty) metis
  moreover have "sv_connection_client_ips ?sv = []" if "\<forall>c. \<not> ?failed c" using that ips by (intro dict_empty) metis
  ultimately have none_failed: "(\<forall>c. \<not> ?failed c) \<longrightarrow> sv_connections ?sv = [] \<and> sv_station_connections ?sv = [] \<and>
      sv_connection_client_ips ?sv = [] \<and> count_of (sv_ip_connection_count ?sv) a = 0"
    unfolding count by simp
  have kept: "\<forall>c. c \<in> set (sv_connections ?sv) \<longrightarrow> ?failed c" "\<forall>s c. map_of (sv_station_connections ?sv) s = Some c \<longrightarrow> ?failed c"
    "\<forall>c b. map_of (sv_connection_client_ips ?sv) c = Some b \<longrightarrow> ?failed c"
    by (intro allI impI, erule conns, intro allI impI, erule stations, intro allI impI, erule ips)
  show ?thesis unfolding Let_def by (rule conjI kept count mg st none_failed)+
qed

section \<open>Witnesses, and interleavings that go wrong\<close>

definition demo_cfg :: ServerConfig where
  "demo_cfg = \<lparr>max_connections = 10, max_connections_per_ip = 2, vdv463_enabled = False, require_station_auth = True,
     heartbeat_interval = 300, absolute_silence_seconds = 1800\<rparr>"

definition demo_gm :: GeoBlockMiddleware where
  "demo_gm = \<lparr>gm_trust_proxy_headers = False, gm_trusted_proxy_networks = []\<rparr>"

definition demo_gb :: GeoBlockChecker where
  "demo_gb = \<lparr>gb_config = \<lparr>gc_blocked_countries = [], gc_allowed_ips = [], gc_enabled = False, gc_fail_closed = True\<rparr>,
     gb_reader = None, gb_allowed_networks = []\<rparr>"

definition demo_arrive :: "cid \<Rightarrow> conn_event list" where
  "demo_arrive c = [Connect c ''unknown'' [] ''S'' (Some ''ocpp1.6''), Resolved c None, Authenticated c ''S'' Accepted]"

definition demo_start :: "cid \<Rightarrow> conn_event list" where
  "demo_start c = [ConnectorsMarked c True True, RegisteredWith c True 0]"

definition demo_end :: "cid \<Rightarrow> conn_event list" where
  "demo_end c = [SessionEnded c, CleanupAwaited c True, CleanupAwaited c True, CleanupAwaited c True]"

abbreviation conn_demo :: "conn_event list \<Rightarrow> OCPPWebSocketServer" where
  "conn_demo \<equiv> conn_run demo_cfg demo_gm demo_gb"

theorem routed_is_admitted_witness: "''A'' \<in> set (sv_connections (conn_demo (demo_arrive ''A'')))"
proof -
  have "list_all event_ok (demo_arrive ''A'')" by code_simp
  moreover have "map_of (sv_station_connections (conn_demo (demo_arrive ''A''))) ''S'' = Some ''A''" by code_simp
  ultimately show ?thesis using routed_is_admitted by blast
qed

theorem route_lost_to_successor_witness:
  "Authenticated ''B'' ''S'' Accepted = SessionEnded ''A'' \<or>
     (\<exists>d. actor (Authenticated ''B'' ''S'' Accepted) = Some d \<and> d \<noteq> ''A'' \<and>
        holds_station (conn_demo ((demo_arrive ''A'' @ butlast (demo_arrive ''B'')) @ [Authenticated ''B'' ''S'' Accepted])) d ''S'')"
proof (rule route_lost_to_successor)
  show "list_all event_ok ((demo_arrive ''A'' @ butlast (demo_arrive ''B'')) @ [Authenticated ''B'' ''S'' Accepted])" by code_simp
  show "map_of (sv_station_connections (conn_demo (demo_arrive ''A'' @ butlast (demo_arrive ''B'')))) ''S'' = Some ''A''" by code_simp
  show "map_of (sv_station_connections (conn_demo ((demo_arrive ''A'' @ butlast (demo_arrive ''B'')) @ [Authenticated ''B'' ''S'' Accepted]))) ''S'' \<noteq> Some ''A''"
    by code_simp
qed

text \<open>One connection has ended and one has raised while it authenticated: only the second is counted.\<close>

theorem all_ended_all_free_witness:
  "let sv = conn_demo (demo_arrive ''A'' @ demo_start ''A'' @ demo_end ''A'' @ butlast (demo_arrive ''B'') @ [Authenticated ''B'' ''S'' Raised])
   in mg_connections (sv_manager sv) = [] \<and> (\<forall>c b. map_of (sv_connection_client_ips sv) c = Some b \<longrightarrow> (\<exists>s. pc_of sv c = Some (Failed s))) \<and>
      map fst (sv_connection_client_ips sv) = [''B'']"
proof -
  let ?es = "demo_arrive ''A'' @ demo_start ''A'' @ demo_end ''A'' @ butlast (demo_arrive ''B'') @ [Authenticated ''B'' ''S'' Raised]"
  have ok: "list_all event_ok ?es" by code_simp
  have "list_all (\<lambda>e. case h_pc (snd e) of Ended \<Rightarrow> True | Failed s \<Rightarrow> True | _ \<Rightarrow> False) (sv_handlers (conn_demo ?es))" by code_simp
  then have over: "list_all (\<lambda>e. h_pc (snd e) = Ended \<or> (\<exists>s. h_pc (snd e) = Failed s)) (sv_handlers (conn_demo ?es))"
  proof (rule list.pred_mono_strong)
    show "(case h_pc (snd e) of Ended \<Rightarrow> True | Failed s \<Rightarrow> True | _ \<Rightarrow> False) \<Longrightarrow> h_pc (snd e) = Ended \<or> (\<exists>s. h_pc (snd e) = Failed s)"
      for e :: "cid \<times> handler" by (cases "h_pc (snd e)") simp_all
  qed
  have left: "map fst (sv_connection_client_ips (conn_demo ?es)) = [''B'']" by code_simp
  show ?thesis using all_ended_all_free [OF ok over] left unfolding Let_def by blast
qed

text \<open>A connection that is replaced while it awaits the clearing of its connectors goes on afterwards: it becomes the
  station's charge point and the manager's connection. When it ends, the manager has no connection for the station,
  and the charge point is the one of the connection that ended, while its successor is running and routed.\<close>

theorem replaced_connection_unregisters_successor:
  "let sv = conn_demo (demo_arrive ''A'' @ demo_arrive ''B'' @ tl (demo_end ''B'') @ demo_start ''B'' @ demo_start ''A'' @ take 2 (demo_end ''A''))
   in pc_of sv ''A'' = Some Ended \<and> pc_of sv ''B'' = Some (Running ''S'') \<and> map_of (sv_station_connections sv) ''S'' = Some ''B'' \<and>
      get_connection ''S'' (sv_manager sv) = None \<and> map_of (sv_charge_points sv) ''S'' = Some ''A''"
  by code_simp

text \<open>The charge points are not among what \<open>all_ended_all_free\<close> lists: here all coroutines have ended.\<close>

theorem charge_point_outlives_its_connection:
  "let sv = conn_demo (demo_arrive ''A'' @ demo_arrive ''B'' @ tl (demo_end ''B'') @ demo_start ''B'' @ demo_end ''B'' @ demo_start ''A'' @ take 2 (demo_end ''A''))
   in pc_of sv ''A'' = Some Ended \<and> pc_of sv ''B'' = Some Ended \<and> map_of (sv_charge_points sv) ''S'' = Some ''A''"
  by code_simp

text \<open>A charger that reconnects while the cleanup of its last connection awaits the database: its connectors are
  declared available first and unavailable last, and it is running.\<close>

theorem reconnected_charger_marked_unavailable:
  "let sv = conn_demo (demo_arrive ''A'' @ demo_start ''A'' @ take 2 (demo_end ''A'') @ demo_arrive ''B'' @ demo_start ''B'' @ [CleanupAwaited ''A'' True])
   in pc_of sv ''B'' = Some (Running ''S'') \<and> last (sv_writes sv) = ConnectorsUnavailable ''S''"
  by code_simp

text \<open>The number of connections is compared with its limit before the first await, and counted after the last.\<close>

theorem connection_limit_exceeded:
  "length (sv_connections (conn_run (demo_cfg\<lparr>max_connections := 1\<rparr>) demo_gm demo_gb
     [Connect ''A'' ''unknown'' [] ''S'' (Some ''ocpp1.6''), Connect ''B'' ''unknown'' [] ''T'' (Some ''ocpp1.6''),
      Resolved ''A'' None, Resolved ''B'' None, Authenticated ''A'' ''S'' Accepted, Authenticated ''B'' ''T'' Accepted])) = 2"
  by code_simp

text \<open>A coroutine that raises while it authenticates keeps its slot: after as many failures as the client has slots,
  the client is refused although none of its connections is alive.\<close>

theorem failures_use_up_slots:
  "let sv = conn_demo (butlast (demo_arrive ''A'') @ [Authenticated ''A'' ''S'' Raised] @ butlast (demo_arrive ''B'') @ [Authenticated ''B'' ''S'' Raised] @ demo_arrive ''C'')
   in sv_connections sv = [] \<and> count_of (sv_ip_connection_count sv) (Text ''unknown'') = 2 \<and> pc_of sv ''C'' = Some Ended"
  by code_simp

end
