(* ===== verification/Spec2Isabelle.thy ===== *)
theory Spec2Isabelle
  imports Cache_Manager Rate_Limiter Resilience Allocator Session_Cost Transactions Report_Timing Offline_Monitor Recurring
    Reconciliation Command_Queue Charging_Profiles State_Assembler Solver_Pool Token_Budget Rfid_Authorization
    Connections
begin

text \<open>
  \<^bold>\<open>Favonius Backend: a verification library.\<close>

  The program plans and controls the charging of electric bus depots. A FastAPI service (\<open>src/src/api\<close>)
  runs one controller per depot (\<open>src/src/core\<close>): a monitor watches states of charge, prices and return
  times and triggers re-optimisation; a run assembles the depot's state, checks that its inputs are
  ready, records a replayable snapshot, solves, dispatches and updates the monitor's baselines. A
  websocket server (\<open>src/src/websocket_handler\<close>) talks OCPP to the chargers, with its own cache, circuit
  breakers and transactions. Rate limits (\<open>src/src/security\<close>) guard the API, sessions are priced for
  billing (\<open>src/src/core/billing\<close>) and reports are scheduled (\<open>src/src/api/report_schedule_timing.py\<close>).

  \<^bold>\<open>Theories.\<close> Each component's theory has its data, its operations, its lemmas and its properties, in
  that order.

  \<^item> \<open>Prelude\<close>: Python's values (dictionaries as association lists, floats as rationals, times as
    microseconds, exceptions as values, dynamically typed values) and the lemmas all theories share.
  \<^item> \<open>Interfaces\<close>: the contracts as locales: a machine with an invariant, events kept a period apart, a
    cooldown gate, a sliding window, a circuit breaker. Every one is interpreted on the definitions of
    the components that provide it; properties rest on the interpretations.
  \<^item> \<open>Cache_Manager\<close> (\<open>cache_manager.py\<close>): the cache with its recency list. The invariant that ties
    dictionary, recency list and counters; refinement of one recency-ordered list; what a reader gets.
  \<^item> \<open>Rate_Limiter\<close> (\<open>rate_limiter.py\<close>): five sliding windows, the trigger cooldown and the
    synchronisation with the database table. Between two merges no window admits more than its limit, and a
    merge of synthetic times may let more through; a merge never undercounts; a flush stores the counts, and loses a
    mark set while it waits.
  \<^item> \<open>Resilience\<close> (\<open>resilience_manager.py\<close>, \<open>enhanced_error_handler.py\<close>): both circuit breakers,
    bulkheads, retries and health checks. Open breakers reject until their timeout, when they open, how
    many probes a half-open one admits, retries end, bulkheads stay within bounds, health follows the
    history of its checks.
  \<^item> \<open>Trigger_Monitor\<close> (\<open>triggers.py\<close>): the deviation checks and one iteration of the loop. Spacing of
    the callbacks, the hourly trigger, exactly when an iteration is silent.
  \<^item> \<open>Readiness\<close> (\<open>readiness.py\<close>, data of \<open>models.py\<close>): the verdict, the snapshot, its payload and replay.
    What each verdict means, snapshots replay, a stub keeps the veto.
  \<^item> \<open>Depot_Controller\<close> (\<open>controller.py\<close>, \<open>controller_config.py\<close>, \<open>controller_manager.py\<close>): a run with
    its retries, the trigger handler with cooldown and breaker, the hourly loop, the manager. The veto,
    the accounting of a run, spacing of triggered runs, the open breaker, one controller per depot.
  \<^item> \<open>Allocator\<close> (\<open>allocator.py\<close>): the greedy allocation; it respects the capacity of every charger, the
    scheduled power of every vehicle and the access rules.
  \<^item> \<open>Session_Cost\<close> (\<open>session_cost.py\<close>): granular and fallback pricing and the guarded write. The fallback
    is the time-weighted average; what coverage measures; a settled row is never overwritten.
  \<^item> \<open>Transactions\<close> (\<open>transaction_manager.py\<close>): remote start, stop and station events. At most one start
    per EVSE over all interleavings, lookups by station, what a stop frees.
  \<^item> \<open>Report_Timing\<close> (\<open>report_schedule_timing.py\<close>): Gregorian calendar, next run, reporting periods,
    payload validation. The next run is the next one, accepted payloads can be scheduled, an empty patch
    changes nothing, periods tile.
  \<^item> \<open>Recurring\<close> (\<open>recurring.py\<close>): templates expanded over a horizon, and the merge with manual rows. The
    expansion is exact, a skipped local time moves to the first minute that exists, the merge equals a
    declarative reference.
  \<^item> \<open>Reconciliation\<close> (\<open>session_log_reconciliation.py\<close>): a charger's log against the recorded session. Every
    state of the tables has its documented outcome, other transactions never bleed in, our energy is
    within the recorded power.
  \<^item> \<open>Alerts\<close> (\<open>notifications/severity.py\<close>, \<open>alerts.py\<close>, \<open>recipients.py\<close>, \<open>dispatcher.py\<close>): the alert and
    delivery tables and the dispatcher. The invariant of every run, notifications of an alert are a resend
    interval apart, a backlog is worked off when the batches have room for it and for the alerts raised meanwhile.
  \<^item> \<open>Offline_Monitor\<close> (\<open>offline_monitor.py\<close>): the sweep over disconnected chargers, on the tables of
    \<open>Alerts\<close>. After a sweep the open offline alerts are exactly those the connector states call for.
  \<^item> \<open>Command_Queue\<close> (\<open>dispatch.py\<close>, \<open>charging_profile_manager.py\<close>, \<open>ocpp16_adapter.py\<close>, the queue's
    statements in \<open>timescale_client.py\<close>): optimised schedules enqueued for the chargers, the consumer that
    drains them and the replay at boot. A settled command is final, a drain pushes pending commands in
    order, a connected charger's turn comes, what an enqueued schedule makes the charger do.
  \<^item> \<open>Charging_Profiles\<close> (\<open>charging_profile_manager.py\<close>, the statements on \<open>charging_profiles\<close> in
    \<open>timescale_client.py\<close>): parsing, validation, stacking, storage, caches and the composite schedule. The
    invariant of every run of requests handled one after another (two interleaved ones break it), an accepted profile
    reads back field by field, what the composite schedule says of every
    second, how long the cache hides a change.
  \<^item> \<open>Optimizer\<close> (\<open>milp_model.py\<close>, \<open>solver.py\<close>, \<open>warm_start.py\<close>, \<open>exceptions.py\<close>): the mixed-integer model as
    data (variables, bounds, every constraint, the objective), its solution and its validation. Feasible
    plans keep the depot's limits and charge the vehicles that leave; symmetry breaking loses no plan; the
    objective is the cost of the plan; the battery creates no energy; which inputs make it infeasible.
  \<^item> \<open>Electricity_Prices\<close> (\<open>entsoe/mappings.py\<close>, \<open>entsoe/prices.py\<close>, price queries of \<open>db/queries.py\<close>): the price
    document, the table of day-ahead prices and the read-through cache. The prices read are exact, the cache only
    adds rows, what a step curve becomes.
  \<^item> \<open>State_Assembler\<close> (\<open>assembler.py\<close>, its queries in \<open>db/queries.py\<close>): the tables, every query, the merge of
    external requests, the assembled state, the loaded configuration. When the optimiser accepts the state, that
    assembly succeeds, availability, departures, the horizon's templates, the energy counted under a cap to the microsecond.
  \<^item> \<open>Solver_Pool\<close> (\<open>pool.py\<close>): the pool of solver processes as a step relation. No more solves in flight than
    workers, every solve ends, a stopped pool stays stopped.
  \<^item> \<open>Token_Budget\<close> (\<open>agent/budget.py\<close>): the chat agent's monthly token budget as a machine of interleaved coroutines.
    A granted turn is within the ceiling, a refused one would not be, flushed usage is in the table; two interleavings
    that break this.
  \<^item> \<open>Rfid_Authorization\<close> (\<open>rfid_authorization.py\<close>, its statements in \<open>timescale_client.py\<close>): the lookup of a tag, the throttle,
    operator overrides; a call is three steps, with others in between. Only a unique active credential of the station's site
    or a live override is accepted; an unknown tag is looked up at most eight times a minute, plus the calls that were in
    flight together.
  \<^item> \<open>Client_Address\<close> (\<open>forwarded_ip.py\<close>, \<open>geo_block.py\<close>, the resolution in the websocket \<open>server.py\<close>): addresses as Python
    reads them, forwarded headers, the geo check. A forged \<open>X-Forwarded-For\<close> does not get a blocked client in; a
    \<open>Forwarded\<close> header may; whom the check lets in.
  \<^item> \<open>Connections\<close> (\<open>server.py\<close>, \<open>connection_manager.py\<close>): the coroutines of the websocket server's connections, interleaved
    at every await. Slots of a client are counted exactly and bounded, a routed connection passed the geo check and
    its authentication, only a successor takes a route away, when all coroutines are over only failed ones still hold a slot; five interleavings
    that go wrong.
  \<^item> This theory: a depot at work, the monitor's iterations wired to the controller's handler beside the
    control loop, runs that solve with \<open>Optimizer\<close>, and the properties that span them.

  \<^bold>\<open>State and interleaving.\<close> A class is a record named after it, a method a definition from the old state
  to its result and the new state. What a database, an HTTP service, a clock, \<open>uuid4\<close> or a solver delivers
  is an argument, a failure included, so the theorems hold for whatever they answer. A coroutine that
  runs under a lock is one step; where the code awaits between a check and its use, the operation is
  split in two definitions (\<open>flush_begin\<close>, \<open>flush_end\<close>; \<open>request_start_begin\<close>, \<open>request_start_end\<close>;
  \<open>throttle_check\<close>, \<open>authorize_end\<close>; \<open>set_check\<close>, \<open>set_commit\<close>; \<open>admit\<close> and \<open>complete\<close> of the breakers) and the properties range over the interleavings, or say that the requests are
  handled one after another. An optimisation run, a stop, a transaction event and a drain of the command queue are one
  step each, although they await.

  \<^bold>\<open>Bounds.\<close> All functions are total. The retry loops recurse on the attempts left (two retries for a
  run); the hour buckets end by a measure; the scan for the next month has the code's own bound of sixty,
  of which at most five are used, as its property shows.

  \<^bold>\<open>Not modelled.\<close> IEEE rounding, infinities and NaN; log text and metrics; the text of SQL except where a
  query carries the logic (the telemetry query of a session's cost, the upsert of the rate limiter, the
  guarded cost write, the queries of the assembler); the solvers' algorithms; the OCPP wire protocol; the REST endpoints; the
  agent beyond its token budget; tokens and roles; the adapters of external services other than the electricity prices.
\<close>

section \<open>Model: a depot at work\<close>

text \<open>
  The controller is built with \<open>on_trigger=self._handle_trigger\<close>: an iteration of its monitor that fires
  calls the handler, which never raises, so the callback returns. The control loop runs beside it. Each
  step takes what it reads, with the handler's own clock reading.
\<close>

datatype depot_event =
    MonitorTick monitor_env run_env dtime
  | LoopPass "bool option" run_env dtime

fun depot_step :: "DepotController \<Rightarrow> depot_event \<Rightarrow> trigger_verdict option \<times> effect list \<times> DepotController" where
  "depot_step dc (MonitorTick menv renv now) =
     (if \<not> tm_running (dc_monitor dc) then (None, [], dc)
      else let it = monitor_iteration (dc_monitor dc) (menv\<lparr>me_callback_ok := True\<rparr>);
               dc1 = dc\<lparr>dc_monitor := snd it\<rparr>
           in case fst it of
                None \<Rightarrow> (None, [], dc1)
              | Some reason \<Rightarrow> (let r = handle_trigger renv now dc1 in (Some (fst r), snd r)))"
| "depot_step dc (LoopPass row renv now) =
     (let r = control_iteration row renv now dc in (None, snd r))"

fun depot_effects :: "DepotController \<Rightarrow> depot_event list \<Rightarrow> effect list" where
  "depot_effects dc [] = []"
| "depot_effects dc (e # es) = (let r = depot_step dc e in fst (snd r) @ depot_effects (snd (snd r)) es)"

definition depot_after :: "DepotController \<Rightarrow> depot_event list \<Rightarrow> DepotController" where
  "depot_after dc es = foldl (\<lambda>d e. snd (snd (depot_step d e))) dc es"

fun event_run :: "depot_event \<Rightarrow> run_env" where
  "event_run (MonitorTick menv renv now) = renv"
| "event_run (LoopPass row renv now) = renv"

text \<open>A run whose solver is \<open>optimize\<close>, cold as the controller calls it, on the assembled state; \<open>solvers\<close> gives what
  the two solvers do at each attempt, the run's id and the clock at the start of the horizon.\<close>

type_synonym solvers = "nat \<Rightarrow> solver_run option \<times> solver_run option \<times> string \<times> dtime"

definition with_optimizer :: "DepotConfig \<Rightarrow> solvers \<Rightarrow> run_env \<Rightarrow> run_env" where
  "with_optimizer config solvers env =
     env\<lparr>re_solve := \<lambda>attempt.
       case assemble_state (re_assembly env) 0 (max_retries + 1) of
         None \<Rightarrow> None
       | Some state \<Rightarrow>
           (case solvers attempt of (gurobi, highs, run_id, now) \<Rightarrow>
              case optimize gurobi highs run_id now state config None of Inl e \<Rightarrow> None | Inr r \<Rightarrow> Some r)\<rparr>"

text \<open>A run that assembles its state: an attempt starts from the assembler and the price table that the failed attempts
  before it have left; \<open>dbs\<close> gives the database and the clock of each.\<close>

fun assembler_at :: "(nat \<Rightarrow> asm_db \<times> dtime) \<Rightarrow> int \<Rightarrow> StateAssembler \<times> price_row list \<Rightarrow> nat \<Rightarrow> StateAssembler \<times> price_row list" where
  "assembler_at dbs h s 0 = s"
| "assembler_at dbs h s (Suc k) =
     (let s' = assembler_at dbs h s k in snd (get_current_state (fst (dbs k)) (snd (dbs k)) h (fst s') (snd s')))"

fun attempts_made :: "(nat \<Rightarrow> DepotState option) \<Rightarrow> nat \<Rightarrow> nat \<Rightarrow> nat" where
  "attempts_made asm attempt 0 = attempt"
| "attempts_made asm attempt (Suc left) =
     (case asm attempt of Some st \<Rightarrow> Suc attempt | None \<Rightarrow> attempts_made asm (Suc attempt) left)"

text \<open>The configuration of the controller is the assembler's own object: after the run it is what the last attempt left.\<close>

definition with_assembler ::
  "(nat \<Rightarrow> asm_db \<times> dtime) \<Rightarrow> int \<Rightarrow> StateAssembler \<times> price_row list \<Rightarrow> run_env \<Rightarrow> run_env" where
  "with_assembler dbs h s env =
     (let assembly = \<lambda>k. case get_current_state (fst (dbs k)) (snd (dbs k)) h (fst (assembler_at dbs h s k)) (snd (assembler_at dbs h s k)) of
            (Inr st, _) \<Rightarrow> Some st | (Inl e, _) \<Rightarrow> None
      in env\<lparr>re_assembly := assembly,
             re_grown := \<lambda>_. sa_config (fst (assembler_at dbs h s (attempts_made assembly 0 (max_retries + 1))))\<rparr>)"

section \<open>Lemmas\<close>

lemma solve_loop_dispatches:
  "Dispatch r \<in> set (fst (snd (solve_loop env state snapshot attempt left dc))) \<or> StoreResult r \<in> set (fst (snd (solve_loop env state snapshot attempt left dc))) \<Longrightarrow>
     \<exists>n solved. re_solve env n = Some solved \<and> r = degrade_status snapshot solved"
proof (induction left arbitrary: attempt dc)
  case 0
  then show ?case
    by (subst (asm) (1 2) solve_loop.simps) (auto simp: finish_attempt_def Let_def split: option.splits sum.splits)
next
  case (Suc n)
  then show ?case
    by (subst (asm) (3 4) solve_loop.simps) (auto simp: finish_attempt_def Let_def split: option.splits sum.splits)
qed

lemma run_dispatches:
  assumes "Dispatch r \<in> set (fst (snd (run_optimization env hours dc))) \<or> StoreResult r \<in> set (fst (snd (run_optimization env hours dc)))"
  shows "\<exists>n solved snapshot. re_solve env n = Some solved \<and> r = degrade_status snapshot solved"
proof -
  from assms obtain state snapshot dc' where "Dispatch r \<in> set (fst (snd (solve_loop env state snapshot 0 max_retries dc'))) \<or>
      StoreResult r \<in> set (fst (snd (solve_loop env state snapshot 0 max_retries dc')))"
    by (force simp: run_optimization_def Let_def split: option.splits if_splits)
  from solve_loop_dispatches [OF this] show ?thesis by blast
qed

lemma optimizer_result_kept: "optimize gurobi highs run_id now state config previous = Inr r \<Longrightarrow> degrade_status snapshot r = r"
  by (erule optimize_result) (simp add: degrade_status_def)

lemma assembler_at_plant:
  assumes "delta_t (sa_config (fst s)) = 1 / 4"
  shows "same_plant (sa_config (fst s)) (sa_config (fst (assembler_at dbs h s k)))"
proof (induction k)
  case (Suc k)
  let ?s = "assembler_at dbs h s k"
  obtain r sa' tab' where r: "get_current_state (fst (dbs k)) (snd (dbs k)) h (fst ?s) (snd ?s) = (r, sa', tab')" by (metis prod.collapse)
  have dt: "delta_t (sa_config (fst ?s)) = 1 / 4" using same_plant_fields(1) [OF Suc.IH] assms by simp
  have "same_plant (sa_config (fst ?s)) (sa_config sa')"
  proof (cases r)
    case (Inl e)
    with failed_assembly_config r show ?thesis by simp
  next
    case (Inr st)
    with assembled_lengths [of _ _ h "fst ?s" "snd ?s" st sa' tab'] r dt show ?thesis by simp
  qed
  with Suc.IH r show ?case by (simp add: Let_def same_plant_trans)
qed simp

lemma assembled_prices:
  assumes "assemble_state (re_assembly (with_assembler dbs h s env)) 0 n = Some state" "delta_t (sa_config (fst s)) = 1 / 4"
  shows "int (length (prices state)) = 4 * h"
proof -
  have "assemble_state asm a n = Some state \<Longrightarrow> \<exists>k. asm k = Some state" for asm a
    by (induction asm a n rule: assemble_state.induct) (auto split: option.splits)
  with assms(1) obtain k where "re_assembly (with_assembler dbs h s env) k = Some state" by blast
  moreover have "delta_t (sa_config (fst (assembler_at dbs h s k))) = 1 / 4"
    using same_plant_fields(1) [OF assembler_at_plant [OF assms(2)]] assms(2) by simp
  ultimately show ?thesis using assembled_lengths by (auto simp: with_assembler_def Let_def split: prod.splits sum.splits)
qed

definition harmless :: "effect \<Rightarrow> bool" where
  "harmless e = (case e of PersistSnapshot _ \<Rightarrow> True | EmitAlerts b \<Rightarrow> b | _ \<Rightarrow> False)"

text \<open>What lets a run past the veto: an assembled state with every hard prerequisite, as the run's configuration
  then is, or an evaluation of readiness that raised.\<close>

definition passes_veto :: "DepotConfig \<Rightarrow> run_env \<Rightarrow> bool" where
  "passes_veto cfg env \<longleftrightarrow>
     (\<exists>state. assemble_state (re_assembly env) 0 (max_retries + 1) = Some state \<and>
        (re_readiness_raises env \<or> missing_inputs_of (re_grown env cfg) state (re_schedules_present env) = []))"

lemma vetoed_run:
  assumes "\<not> passes_veto (dc_config dc) env"
  shows "list_all harmless (fst (snd (run_optimization env h dc)))"
  using assms capture_blocking [of env "dc\<lparr>dc_config := re_grown env (dc_config dc), dc_last_run_time := Some (re_assembled_at env)\<rparr>"]
  by (auto simp: passes_veto_def run_optimization_def Let_def harmless_def split: option.splits)

lemma vetoed_step:
  assumes "\<not> passes_veto (dc_config dc) (event_run e)"
  shows "list_all harmless (fst (snd (depot_step dc e)))"
proof (cases e)
  case (MonitorTick menv renv now)
  have "dc_config ((breaker_reset d)\<lparr>dc_last_trigger_time := t\<rparr>) = dc_config d" for d t by (simp add: breaker_reset_def)
  with assms MonitorTick show ?thesis
    by (auto simp: Let_def handle_trigger_def vetoed_run split: option.split)
next
  case (LoopPass row renv now)
  with assms show ?thesis by (simp add: Let_def control_iteration_def vetoed_run)
qed

lemma effect_has_event:
  "x \<in> set (depot_effects dc es) \<Longrightarrow>
     \<exists>before e after. es = before @ e # after \<and> x \<in> set (fst (snd (depot_step (depot_after dc before) e)))"
proof (induction es arbitrary: dc)
  case (Cons e es)
  show ?case
  proof (cases "x \<in> set (fst (snd (depot_step dc e)))")
    case True
    then have "e # es = [] @ e # es \<and> x \<in> set (fst (snd (depot_step (depot_after dc []) e)))" by (simp add: depot_after_def)
    then show ?thesis by blast
  next
    case False
    with Cons.prems have "x \<in> set (depot_effects (snd (snd (depot_step dc e))) es)" by (simp add: Let_def)
    from Cons.IH [OF this] obtain before f after where f: "es = before @ f # after"
      "x \<in> set (fst (snd (depot_step (depot_after (snd (snd (depot_step dc e))) before) f)))" by blast
    then have "e # es = (e # before) @ f # after \<and> x \<in> set (fst (snd (depot_step (depot_after dc (e # before)) f)))"
      by (simp add: depot_after_def)
    then show ?thesis by blast
  qed
qed simp

section \<open>Properties\<close>

text \<open>C1: End to end, what a depot does to its chargers has a reason. Over every interleaving of monitor iterations and
  passes of the control loop, whatever they read: an effect other than a persisted snapshot or the alert for missing
  inputs, so every stored result and every dispatched schedule, comes from one of the events, whose run assembled a
  state in which no hard prerequisite is missing, by the configuration as that run then has it, or whose evaluation of
  readiness raised an exception. In that last case the code goes on with a stub that is only degraded, and a depot with
  missing prerequisites is solved and dispatched; no other way past the veto exists.\<close>

theorem unready_depot_never_dispatches:
  assumes "x \<in> set (depot_effects dc events)" and "\<not> harmless x"
  shows "\<exists>before e after state. events = before @ e # after \<and> x \<in> set (fst (snd (depot_step (depot_after dc before) e))) \<and>
    assemble_state (re_assembly (event_run e)) 0 (max_retries + 1) = Some state \<and>
    (re_readiness_raises (event_run e) \<or>
     missing_inputs_of (re_grown (event_run e) (dc_config (depot_after dc before))) state (re_schedules_present (event_run e)) = [])"
proof -
  obtain before e after where e: "events = before @ e # after" "x \<in> set (fst (snd (depot_step (depot_after dc before) e)))"
    using effect_has_event [OF assms(1)] by blast
  with assms(2) have "passes_veto (dc_config (depot_after dc before)) (event_run e)"
    using vetoed_step [of "depot_after dc before" e] by (auto simp: list_all_iff)
  with e show ?thesis unfolding passes_veto_def by blast
qed

definition ready_config :: DepotConfig where
  "ready_config = sample_config\<lparr>vehicle_capacities := [(''v'', 300)]\<rparr>"

definition empty_result :: OptimizationResult where
  "empty_result = \<lparr>or_run_id = ''r'', or_schedule = [], or_battery_dispatch = [], or_grid_power = [], or_peak_demand_kw = 0,
     or_objective_value = 0, or_solve_time_s = 0, or_status = ''completed'', or_solver_used = ''highs''\<rparr>"

text \<open>The depot without vehicles at the first event does nothing; the assembler of the second run adds one, and the result
  is stored.\<close>

definition grown_run :: run_env where
  "grown_run = (sample_run (Some empty_result))\<lparr>re_grown := \<lambda>_. ready_config\<rparr>"

theorem unready_depot_never_dispatches_witness:
  "let events = [LoopPass None (sample_run (Some empty_result)) 36000000000, LoopPass None grown_run 43200000000]
   in StoreResult empty_result \<in> set (depot_effects (sample_controller sample_config) events) \<and>
     (\<exists>before e after. events = before @ e # after \<and>
        missing_inputs_of (re_grown (event_run e) (dc_config (depot_after (sample_controller sample_config) before))) sample_state True = [])"
proof -
  let ?dc = "sample_controller sample_config"
  let ?events = "[LoopPass None (sample_run (Some empty_result)) 36000000000, LoopPass None grown_run 43200000000]"
  have stored: "StoreResult empty_result \<in> set (depot_effects ?dc ?events)"
    by code_simp
  have "\<not> harmless (StoreResult empty_result)" by (simp add: harmless_def)
  from unready_depot_never_dispatches [OF stored this] obtain before e after state where e: "?events = before @ e # after"
    "assemble_state (re_assembly (event_run e)) 0 (max_retries + 1) = Some state"
    "re_readiness_raises (event_run e) \<or>
     missing_inputs_of (re_grown (event_run e) (dc_config (depot_after ?dc before))) state (re_schedules_present (event_run e)) = []"
    by blast
  have "e \<in> set ?events" using e(1) by (metis in_set_conv_decomp)
  then have "\<not> re_readiness_raises (event_run e) \<and> re_schedules_present (event_run e) \<and> state = sample_state"
    using e(2) by (auto simp: grown_run_def sample_run_def max_retries_def numeral_2_eq_2)
  with e stored show ?thesis unfolding Let_def by auto
qed

text \<open>C4: From optimiser to dispatch: whatever the two solvers deliver at each attempt, every result that a run stores or
  dispatches reports, for every vehicle with a departure within the horizon of the state it was computed
  for, the required state of charge at the step of departure. Its status is always \<open>completed\<close>: the
  controller degrades only \<open>optimal\<close> and \<open>feasible\<close> ones, so a run on degraded inputs is never marked.\<close>

theorem dispatched_results_meet_departures:
  assumes "Dispatch r \<in> set (fst (snd (run_optimization (with_optimizer config solvers env) hours dc))) \<or>
      StoreResult r \<in> set (fst (snd (run_optimization (with_optimizer config solvers env) hours dc)))"
  shows "\<exists>state. assemble_state (re_assembly env) 0 (max_retries + 1) = Some state \<and> or_status r = ''completed'' \<and>
    (\<forall>b t need. b \<in> set (vehicles state) \<and> departure_soc_min state config b = Some (t, need) \<longrightarrow>
      (\<exists>vs socs. map_of (or_schedule r) b = Some vs \<and> vs_soc vs = Some socs \<and> t < length socs \<and> need \<le> socs ! t))"
proof -
  obtain n solved snapshot where s: "re_solve (with_optimizer config solvers env) n = Some solved" "r = degrade_status snapshot solved"
    using run_dispatches [OF assms] by blast
  obtain state gurobi highs run_id now where o: "assemble_state (re_assembly env) 0 (max_retries + 1) = Some state"
    "optimize gurobi highs run_id now state config None = Inr solved"
    using s(1) by (auto simp: with_optimizer_def split: option.splits prod.splits sum.splits)
  have "r = solved" using s(2) optimizer_result_kept [OF o(2)] by simp
  moreover have "or_status solved = ''completed''" by (rule optimize_result [OF o(2)])
  ultimately show ?thesis using o departures_met [OF o(2)] by blast
qed

text \<open>C8: a horizon other than a day never charges a vehicle. A loaded configuration has 96 steps whatever the
  horizon, while the assembler delivers four prices for every hour of it, and validation compares the two: for
  every other horizon, although the settings allow 1 to 48 hours, no run stores or dispatches a result, whatever
  databases and solvers deliver.\<close>

theorem other_horizons_never_dispatched:
  fixes result :: OptimizationResult
  assumes "load_depot_config db depot = Inr (loaded, tags)" "sa_config (fst s) = loaded" "same_plant loaded config" "h \<noteq> 24"
  shows "Dispatch result \<notin> set (fst (snd (run_optimization (with_optimizer config solvers (with_assembler dbs h s env)) hours dc))) \<and>
    StoreResult result \<notin> set (fst (snd (run_optimization (with_optimizer config solvers (with_assembler dbs h s env)) hours dc)))"
proof (rule ccontr)
  assume "\<not> ?thesis"
  then obtain n solved where "re_solve (with_optimizer config solvers (with_assembler dbs h s env)) n = Some solved"
    using run_dispatches [of result] by blast
  then obtain state gurobi highs run_id now where o:
    "assemble_state (re_assembly (with_assembler dbs h s env)) 0 (max_retries + 1) = Some state"
    "optimize gurobi highs run_id now state config None = Inr solved"
    by (auto simp: with_optimizer_def split: option.splits prod.splits sum.splits)
  obtain m where "build_optimization_model state config now = Inr m" using o(2) by (auto simp: optimize_def split: sum.splits)
  then have "int (length (prices state)) = n_timesteps config" using built_valid(1) validate_inputs_None by blast
  moreover have "n_timesteps config = 96" using same_plant_fields(2) [OF assms(3)] loaded_config(2) [OF assms(1)] by simp
  moreover have "int (length (prices state)) = 4 * h" using assembled_prices [OF o(1)] loaded_config(1) [OF assms(1)] assms(2) by simp
  ultimately show False using assms(4) by simp
qed

theorem other_horizons_never_dispatched_witness:
  "StoreResult empty_result \<notin> set (fst (snd (run_optimization (with_optimizer demo_depot (\<lambda>n. (None, Some demo_run, ''id'', 0))
     (with_assembler (\<lambda>_. (demo_db, 0)) 12 (sa_init ''d'' demo_depot, []) (sample_run None))) (Some 12) (sample_controller demo_depot))))"
  by (rule other_horizons_never_dispatched [OF demo_loaded, THEN conjunct2]) (simp_all add: sa_init_def)

definition demo_env :: run_env where
  "demo_env = (sample_run None)\<lparr>re_assembly := \<lambda>_. Some demo_state, re_readiness_raises := True\<rparr>"

definition demo_solvers :: solvers where
  "demo_solvers n = (None, Some demo_run, ''id'', 0)"

text \<open>A degraded run, dispatched as completed.\<close>
theorem dispatched_results_meet_departures_witness:
  "\<exists>r. Dispatch r \<in> set (fst (snd (run_optimization (with_optimizer demo_config demo_solvers demo_env) None (sample_controller sample_config)))) \<and>
     or_status r = ''completed''"
proof -
  let ?env = "with_optimizer demo_config demo_solvers demo_env"
  obtain r where r: "optimize None (Some demo_run) ''id'' 0 demo_state demo_config None = Inr r" using demo_optimized by blast
  have solve: "re_solve ?env 0 = Some r"
    by (simp add: with_optimizer_def demo_env_def demo_solvers_def max_retries_def numeral_2_eq_2 r)
  have "Dispatch r \<in> set (fst (snd (solve_loop ?env state snapshot 0 left dc)))" for state snapshot left dc
    by (subst solve_loop.simps) (auto simp: solve finish_attempt_def optimizer_result_kept [OF r] Let_def split: sum.split nat.split)
  moreover have "assemble_state (re_assembly ?env) 0 (max_retries + 1) = Some demo_state" by (simp add: with_optimizer_def demo_env_def)
  moreover have "\<not> rd_is_blocking (sn_readiness (capture_snapshot ?env dc state hours))" for dc state hours
    by (simp add: capture_snapshot_def Let_def with_optimizer_def demo_env_def stub_snapshot_def stub_readiness_def rd_is_blocking_def)
  ultimately have "Dispatch r \<in> set (fst (snd (run_optimization ?env None (sample_controller sample_config))))"
    by (simp add: run_optimization_def Let_def)
  moreover from this dispatched_results_meet_departures [of r demo_config demo_solvers demo_env None "sample_controller sample_config"]
  have "or_status r = ''completed''" by blast
  ultimately show ?thesis by blast
qed

text \<open>The hourly scheduled trigger bypasses the monitor's cooldown but not the controller's: when the
  hour changes less than the cooldown after a triggered run, the handler drops the scheduled trigger
  without an effect, and the monitor has already marked the hour as served, so that no later iteration
  of that hour triggers it again.\<close>

theorem scheduled_trigger_dropped:
  assumes "tm_running (dc_monitor dc)" and "fst (monitor_iteration (dc_monitor dc) menv) = Some Scheduled"
    and "in_cooldown now dc" and "hour_of_day (me_now menv') = hour_of_day (me_now menv)"
  shows "case depot_step dc (MonitorTick menv renv now) of (verdict, effects, dc') \<Rightarrow>
     verdict = Some IgnoredCooldown \<and> effects = [] \<and> fst (monitor_iteration (dc_monitor dc') menv') \<noteq> Some Scheduled"
proof -
  let ?menv = "menv\<lparr>me_callback_ok := True\<rparr>"
  have "fst (monitor_iteration (dc_monitor dc) ?menv) = Some Scheduled"
    using assms(2) by (simp add: monitor_iteration_scheduled)
  moreover have "in_cooldown now (dc\<lparr>dc_monitor := m\<rparr>)" for m
    using assms(3) by (simp add: in_cooldown_def trigger_cooldown_def split: option.splits)
  ultimately have "depot_step dc (MonitorTick menv renv now) =
      (Some IgnoredCooldown, [], dc\<lparr>dc_monitor := snd (monitor_iteration (dc_monitor dc) ?menv)\<rparr>)"
    using assms(1) by (simp add: Let_def handle_trigger_def)
  then show ?thesis
    using assms(4) by (simp add: monitor_iteration_scheduled monitor_iteration_hour)
qed

definition late_controller :: DepotController where
  "late_controller = (sample_controller sample_config)\<lparr>dc_last_trigger_time := Some 3599000000\<rparr>"

theorem scheduled_trigger_dropped_witness:
  "fst (depot_step late_controller (MonitorTick (sample_env 3600000000 0) (sample_run None) 3600000000)) = Some IgnoredCooldown"
  using scheduled_trigger_dropped [of late_controller "sample_env 3600000000 0" 3600000000 "sample_env 3600000001 0" "sample_run None"]
  by (simp add: late_controller_def sample_controller_def monitor_iteration_scheduled sample_monitor_def in_cooldown_def
      trigger_cooldown_def default_controller_config_def usec_values hour_of_day_def sample_env_def split: prod.splits)

end
